(* ===== verification/Go_Base.thy ===== *)
theory Go_Base
  imports Main "HOL-Library.Word" "HOL-Library.AList" "HOL-Library.Multiset"
    "HOL-Library.Char_ord" "HOL-Library.List_Lexorder"
begin

text \<open>
  The prelude: the part of the Go language and of its standard library that the
  modelled code uses, and the lemmas every component shares.

  \<^item> Machine integers: \<open>uint64\<close> and \<open>uint32\<close> are words and wrap around.
  \<^item> \<open>time.Time\<close> is the instant in nanoseconds since Go's zero time (\<open>IsZero\<close> is
    \<open>t = 0\<close>); \<open>UTC\<close> keeps the instant and is therefore not written. \<open>time.Now\<close>
    is an argument of every operation that reads the clock. \<open>time.Duration\<close> is a number
    of nanoseconds.
  \<^item> \<open>string\<close> and \<open>[]byte\<close> are lists of bytes; \<open><\<close> on strings is the
    bytewise lexicographic order.
  \<^item> An \<open>error\<close> is a value: a plain message, a message that wraps one of the program's
    sentinel errors (what \<open>errors.Is\<close> sees), or a message around another error. The
    text is the format string of the source; the formatted values are not part of it.
    A Go result \<open>error\<close> is an \<open>error option\<close> (\<open>None\<close> is \<open>nil\<close>) and a
    pair of a value and an error is \<open>error + 'a\<close>.
  \<^item> A Go map is an association list with distinct keys. The order of the list stands for
    the unspecified iteration order of \<open>range\<close>; where the code iterates, the results
    are shown not to depend on it.
  \<^item> \<open>slices.SortFunc\<close> is insertion sort with the comparison function of the code.
    The locale \<open>comparator\<close> shows that a sorted permutation is unique when only equal
    elements compare as equal, so the sorting algorithm does not matter.
  \<^item> Values are immutable here, so the code's \<open>Clone\<close> functions, which copy what
    would otherwise be shared, are the identity and are not written.
\<close>

type_synonym u64 = "64 word"
type_synonym u32 = "32 word"
type_synonym gotime = int
type_synonym duration = int
type_synonym json = string

named_theorems result_simps \<open>rewrites for error results\<close>

section \<open>Errors and results\<close>

datatype sentinel =
    Canceled
  | ErrOperationNotFound | ErrOperationConflict | ErrOperationClaimed | ErrOperationFence
  | ErrNoDelivery | ErrDeliveryLease
  | ErrTrajectoryNotFound | ErrTrajectoryEntryNotFound | ErrTrajectoryExists
  | ErrTrajectoryConflict | ErrTrajectoryReferenced | ErrTrajectoryVersion
  | ErrTrajectoryExecution | ErrTrajectoryClaimed | ErrTrajectoryFence
  | ErrInvalidRequest | ErrInstanceNotFound | ErrInstanceConflict | ErrLeaseNotFound
  | ErrLeaseExpired | ErrLeaseFenced | ErrCursorExpired | ErrClosed
  | ErrInputNotFound | ErrInputConflict | ErrStoreClosed
  | ErrInteractionNotFound | ErrInteractionConflict | ErrExecutionNotFound

datatype error =
    Errorf string
  | Wrapf sentinel string
  | Nestf string error
  | Joinf sentinel error

type_synonym 'a result = "error + 'a"

fun errors_is :: "error \<Rightarrow> sentinel \<Rightarrow> bool" where
  "errors_is (Errorf _) s = False"
| "errors_is (Wrapf s' _) s = (s' = s)"
| "errors_is (Nestf _ e) s = errors_is e s"
| "errors_is (Joinf s' e) s = (s' = s \<or> errors_is e s)"

text \<open>\<open>if err := c; err != nil { return err }\<close> followed by the rest of the function.\<close>

fun check :: "error option \<Rightarrow> 'a result \<Rightarrow> 'a result" where
  "check None r = r"
| "check (Some e) r = Inl e"

text \<open>\<open>x, err := m; if err != nil { return err }\<close> followed by the rest.\<close>

fun bind_result :: "'a result \<Rightarrow> ('a \<Rightarrow> 'b result) \<Rightarrow> 'b result" where
  "bind_result (Inl e) f = Inl e"
| "bind_result (Inr x) f = f x"

text \<open>The same for functions that return only an error.\<close>

fun and_then :: "error option \<Rightarrow> error option \<Rightarrow> error option" where
  "and_then None c = c"
| "and_then (Some e) c = Some e"

definition reject_if :: "bool \<Rightarrow> error \<Rightarrow> error option" where
  "reject_if b e = (if b then Some e else None)"

lemma reject_if_simps [simp]: "reject_if True e = Some e" "reject_if False e = None"
  by (simp_all add: reject_if_def)

text \<open>The first error of a loop that validates every element.\<close>

fun first_error :: "('a \<Rightarrow> error option) \<Rightarrow> 'a list \<Rightarrow> error option" where
  "first_error f [] = None"
| "first_error f (x # xs) = and_then (f x) (first_error f xs)"

lemma check_Inr [result_simps]: "check c r = Inr x \<longleftrightarrow> c = None \<and> r = Inr x"
  by (cases c) auto

lemma check_Inl [result_simps]:
  "check c r = Inl e \<longleftrightarrow> c = Some e \<or> (c = None \<and> r = Inl e)"
  by (cases c) auto

lemma bind_result_Inr [result_simps]:
  "bind_result m f = Inr y \<longleftrightarrow> (\<exists>x. m = Inr x \<and> f x = Inr y)"
  by (cases m) auto

lemma bind_result_Inl [result_simps]:
  "bind_result m f = Inl e \<longleftrightarrow> m = Inl e \<or> (\<exists>x. m = Inr x \<and> f x = Inl e)"
  by (cases m) auto

lemma and_then_None [result_simps]: "and_then c d = None \<longleftrightarrow> c = None \<and> d = None"
  by (cases c) auto

lemma reject_if_None [result_simps]: "reject_if b e = None \<longleftrightarrow> \<not> b"
  by (simp add: reject_if_def)

lemma reject_if_Some [result_simps]: "reject_if b e = Some e' \<longleftrightarrow> b \<and> e' = e"
  by (auto simp: reject_if_def)

lemma first_error_None [result_simps]:
  "first_error f xs = None \<longleftrightarrow> (\<forall>x\<in>set xs. f x = None)"
  by (induction xs) (auto simp: and_then_None)

text \<open>A context is the error it reports; it stays the same during one call.\<close>

type_synonym ctx = "error option"

abbreviation (input) background :: ctx where
  "background \<equiv> None"

section \<open>Strings\<close>

text \<open>
  \<open>strings.TrimSpace\<close> on UTF-8 bytes: the white space of \<open>unicode.IsSpace\<close> is six
  ASCII bytes, two code points of two bytes and seventeen of three bytes.
\<close>

definition ascii_space :: "char \<Rightarrow> bool" where
  "ascii_space a \<longleftrightarrow>
     a \<in> {CHR 0x09, CHR 0x0A, CHR 0x0B, CHR 0x0C, CHR 0x0D, CHR 0x20}"

definition space2 :: "char \<Rightarrow> char \<Rightarrow> bool" where
  "space2 a b \<longleftrightarrow> a = CHR 0xC2 \<and> (b = CHR 0x85 \<or> b = CHR 0xA0)"

definition space3 :: "char \<Rightarrow> char \<Rightarrow> char \<Rightarrow> bool" where
  "space3 a b c \<longleftrightarrow>
     (a = CHR 0xE1 \<and> b = CHR 0x9A \<and> c = CHR 0x80) \<or>
     (a = CHR 0xE2 \<and> b = CHR 0x80 \<and>
        ((CHR 0x80 \<le> c \<and> c \<le> CHR 0x8A) \<or> c = CHR 0xA8 \<or> c = CHR 0xA9 \<or> c = CHR 0xAF)) \<or>
     (a = CHR 0xE2 \<and> b = CHR 0x81 \<and> c = CHR 0x9F) \<or>
     (a = CHR 0xE3 \<and> b = CHR 0x80 \<and> c = CHR 0x80)"

text \<open>The bytes of the white space at the front of a string, 0 when there is none.\<close>

fun front_space :: "string \<Rightarrow> nat" where
  "front_space [] = 0"
| "front_space [a] = (if ascii_space a then 1 else 0)"
| "front_space [a, b] =
     (if ascii_space a then 1 else if space2 a b then 2 else 0)"
| "front_space (a # b # c # r) =
     (if ascii_space a then 1 else if space2 a b then 2 else if space3 a b c then 3 else 0)"

text \<open>The same at the back, read from the reversed string.\<close>

fun back_space :: "string \<Rightarrow> nat" where
  "back_space [] = 0"
| "back_space [a] = (if ascii_space a then 1 else 0)"
| "back_space [a, b] =
     (if ascii_space a then 1 else if space2 b a then 2 else 0)"
| "back_space (a # b # c # r) =
     (if ascii_space a then 1 else if space2 b a then 2 else if space3 c b a then 3 else 0)"

lemma front_space_le: "front_space s \<le> length s"
  by (induction s rule: front_space.induct) auto

lemma back_space_le: "back_space s \<le> length s"
  by (induction s rule: back_space.induct) auto

function trim_front :: "string \<Rightarrow> string" where
  "trim_front s = (if front_space s = 0 then s else trim_front (drop (front_space s) s))"
  by pat_completeness auto
termination
proof (relation "measure length", goal_cases)
  case (2 s)
  then show ?case using front_space_le [of s] by simp
qed simp

function trim_back :: "string \<Rightarrow> string" where
  "trim_back s = (if back_space s = 0 then s else trim_back (drop (back_space s) s))"
  by pat_completeness auto
termination
proof (relation "measure length", goal_cases)
  case (2 s)
  then show ?case using back_space_le [of s] by simp
qed simp

declare trim_front.simps [simp del] trim_back.simps [simp del]

definition TrimSpace :: "string \<Rightarrow> string" where
  "TrimSpace s = rev (trim_back (rev (trim_front s)))"

lemma front_space_trim_front [simp]: "front_space (trim_front s) = 0"
  by (induction s rule: trim_front.induct) (simp add: trim_front.simps)

lemma back_space_trim_back [simp]: "back_space (trim_back s) = 0"
  by (induction s rule: trim_back.induct) (simp add: trim_back.simps)

lemma trim_back_suffix: "\<exists>p. s = p @ trim_back s"
proof (induction s rule: trim_back.induct)
  case (1 s)
  show ?case
  proof (cases "back_space s = 0")
    case True
    then show ?thesis by (simp add: trim_back.simps)
  next
    case False
    with 1 obtain p where "drop (back_space s) s = p @ trim_back (drop (back_space s) s)"
      by blast
    with False have "s = (take (back_space s) s @ p) @ trim_back s"
      by (simp add: trim_back.simps [of s])
    then show ?thesis by blast
  qed
qed

lemma front_space_prefix:
  assumes "front_space (p @ q) = 0"
  shows "front_space p = 0"
  using assms
proof (cases p rule: front_space.cases)
  case (2 a)
  with assms show ?thesis by (cases q rule: front_space.cases) (auto split: if_splits)
next
  case (3 a b)
  with assms show ?thesis by (cases q) (auto split: if_splits)
qed auto

lemma trim_front_fix: "front_space s = 0 \<Longrightarrow> trim_front s = s"
  by (simp add: trim_front.simps)

lemma trim_back_fix: "back_space s = 0 \<Longrightarrow> trim_back s = s"
  by (simp add: trim_back.simps)

lemma front_space_TrimSpace [simp]: "front_space (TrimSpace s) = 0"
proof -
  obtain p where "rev (trim_front s) = p @ trim_back (rev (trim_front s))"
    using trim_back_suffix by blast
  then have "trim_front s = TrimSpace s @ rev p"
    unfolding TrimSpace_def by (metis rev_append rev_rev_ident)
  then show ?thesis
    by (metis front_space_prefix front_space_trim_front)
qed

lemma back_space_TrimSpace [simp]: "back_space (rev (TrimSpace s)) = 0"
  by (simp add: TrimSpace_def)

lemma TrimSpace_fix: "front_space s = 0 \<Longrightarrow> back_space (rev s) = 0 \<Longrightarrow> TrimSpace s = s"
  by (simp add: TrimSpace_def trim_front_fix trim_back_fix)

lemma TrimSpace_idem [simp]: "TrimSpace (TrimSpace s) = TrimSpace s"
  by (simp add: TrimSpace_fix)

lemma TrimSpace_Nil [simp]: "TrimSpace [] = []"
  by (simp add: TrimSpace_fix)

text \<open>Joining fields with a separator that the first fields do not contain is injective.\<close>

lemma join_inject:
  assumes "a @ x # b = c @ x # d" "x \<notin> set a" "x \<notin> set c"
  shows "a = c \<and> b = d"
  using assms
proof (induction a arbitrary: c)
  case Nil
  then show ?case by (cases c) auto
next
  case (Cons y a)
  then show ?case by (cases c) auto
qed

section \<open>Maps\<close>

type_synonym 'v gomap = "(string \<times> 'v) list"

abbreviation gm_wf :: "'v gomap \<Rightarrow> bool" where
  "gm_wf m \<equiv> distinct (map fst m)"

lemma gm_lookup_put [simp]:
  "map_of (AList.update k v m) k' = (if k' = k then Some v else map_of m k')"
  by (simp add: update_conv')

lemma gm_lookup_del [simp]:
  "map_of (AList.delete k m) k' = (if k' = k then None else map_of m k')"
  by (simp add: delete_conv')

lemma gm_wf_put [simp, intro]: "gm_wf m \<Longrightarrow> gm_wf (AList.update k v m)"
  by (rule distinct_update)

lemma gm_wf_del [simp, intro]: "gm_wf m \<Longrightarrow> gm_wf (AList.delete k m)"
  by (rule distinct_delete)

lemma gm_mem_iff: "gm_wf m \<Longrightarrow> (k, v) \<in> set m \<longleftrightarrow> map_of m k = Some v"
  by (simp add: map_of_eq_Some_iff)

lemma gm_values_iff: "gm_wf m \<Longrightarrow> v \<in> snd ` set m \<longleftrightarrow> (\<exists>k. map_of m k = Some v)"
  by (force simp: gm_mem_iff [symmetric] image_iff)

lemma map_of_put: "map_of (AList.update k v m) = (map_of m)(k \<mapsto> v)"
  by (rule ext) simp

text \<open>Lookups stay lookups: membership is reached through \<open>gm_mem_iff\<close> where it is meant.\<close>

declare map_of_eq_Some_iff [simp del] Some_eq_map_of_iff [simp del]

text \<open>The same map in another iteration order.\<close>

definition reordered :: "'v gomap \<Rightarrow> 'v gomap \<Rightarrow> bool" where
  "reordered m n \<longleftrightarrow> mset m = mset n"

lemma reordered_set: "reordered m n \<Longrightarrow> set m = set n"
  unfolding reordered_def by (rule mset_eq_setD)

lemma reordered_wf: "reordered m n \<Longrightarrow> gm_wf m \<longleftrightarrow> gm_wf n"
  unfolding reordered_def by (metis mset_eq_imp_distinct_iff mset_map)

lemma option_eqI: "(\<And>x. a = Some x \<longleftrightarrow> b = Some x) \<Longrightarrow> a = b"
  by (cases a; cases b) auto

lemma reordered_lookup:
  assumes "reordered m n" "gm_wf m"
  shows "map_of m = map_of n"
proof
  fix k
  show "map_of m k = map_of n k"
    using assms reordered_set [OF assms(1)] reordered_wf [OF assms(1)]
    by (intro option_eqI) (simp add: gm_mem_iff [symmetric])
qed

section \<open>Comparison functions and sorting\<close>

text \<open>A three-way comparison on a key: \<open>strings.Compare\<close>, \<open>time.Time.Compare\<close>.\<close>

definition compare_on :: "('a \<Rightarrow> 'b::linorder) \<Rightarrow> 'a \<Rightarrow> 'a \<Rightarrow> int" where
  "compare_on f x y = (if f x < f y then -1 else if f y < f x then 1 else 0)"

text \<open>\<open>if order := c; order != 0 { return order }; return d\<close>\<close>

definition compare_then :: "('a \<Rightarrow> 'a \<Rightarrow> int) \<Rightarrow> ('a \<Rightarrow> 'a \<Rightarrow> int) \<Rightarrow> 'a \<Rightarrow> 'a \<Rightarrow> int" where
  "compare_then c d x y = (if c x y \<noteq> 0 then c x y else d x y)"

fun insert_by :: "('a \<Rightarrow> 'a \<Rightarrow> int) \<Rightarrow> 'a \<Rightarrow> 'a list \<Rightarrow> 'a list" where
  "insert_by c x [] = [x]"
| "insert_by c x (y # ys) = (if c x y \<le> 0 then x # y # ys else y # insert_by c x ys)"

fun sort_func :: "('a \<Rightarrow> 'a \<Rightarrow> int) \<Rightarrow> 'a list \<Rightarrow> 'a list" where
  "sort_func c [] = []"
| "sort_func c (x # xs) = insert_by c x (sort_func c xs)"

lemma mset_insert_by [simp]: "mset (insert_by c x xs) = add_mset x (mset xs)"
  by (induction xs) auto

lemma mset_sort_func [simp]: "mset (sort_func c xs) = mset xs"
  by (induction xs) auto

lemma set_sort_func [simp]: "set (sort_func c xs) = set xs"
  by (metis mset_sort_func set_mset_mset)

lemma length_sort_func [simp]: "length (sort_func c xs) = length xs"
  by (metis mset_sort_func size_mset)

lemma distinct_map_sort_func [simp]:
  "distinct (map f (sort_func c xs)) \<longleftrightarrow> distinct (map f xs)"
  by (metis mset_eq_imp_distinct_iff mset_map mset_sort_func)

text \<open>What \<open>slices.SortFunc\<close> asks of its comparison: a strict weak order.\<close>

locale comparator =
  fixes cmp :: "'a \<Rightarrow> 'a \<Rightarrow> int"
  assumes cmp_flip: "cmp x y < 0 \<longleftrightarrow> 0 < cmp y x"
    and cmp_trans: "cmp x y \<le> 0 \<Longrightarrow> cmp y z \<le> 0 \<Longrightarrow> cmp x z \<le> 0"
begin

lemma cmp_linear: "cmp x y \<le> 0 \<or> cmp y x \<le> 0"
  using cmp_flip [of x y] by linarith

lemma cmp_refl: "cmp x x \<le> 0"
  using cmp_linear by blast

lemma sorted_insert_by:
  "sorted_wrt (\<lambda>x y. cmp x y \<le> 0) ys \<Longrightarrow>
   sorted_wrt (\<lambda>x y. cmp x y \<le> 0) (insert_by cmp x ys)"
proof (induction ys)
  case (Cons y ys)
  have set_ib: "set (insert_by cmp x ys) = insert x (set ys)"
    by (metis mset_insert_by set_mset_add_mset_insert set_mset_mset)
  show ?case
  proof (cases "cmp x y \<le> 0")
    case True
    with Cons.prems show ?thesis by (auto intro: cmp_trans)
  next
    case False
    then have "cmp y x \<le> 0" using cmp_linear by blast
    with Cons False show ?thesis by (auto simp: set_ib)
  qed
qed simp

lemma sorted_sort_func: "sorted_wrt (\<lambda>x y. cmp x y \<le> 0) (sort_func cmp xs)"
  by (induction xs) (auto intro: sorted_insert_by)

text \<open>
  Two sorted permutations of the same elements are equal when no two different elements
  compare as equal: the result does not depend on the algorithm or on the input order.
\<close>

lemma sorted_unique:
  assumes "mset xs = mset ys"
    and "sorted_wrt (\<lambda>x y. cmp x y \<le> 0) xs" "sorted_wrt (\<lambda>x y. cmp x y \<le> 0) ys"
    and "\<And>x y. x \<in> set xs \<Longrightarrow> y \<in> set xs \<Longrightarrow> cmp x y = 0 \<Longrightarrow> x = y"
  shows "xs = ys"
  using assms
proof (induction xs arbitrary: ys)
  case Nil
  then show ?case by simp
next
  case (Cons x xs)
  then obtain y ys' where ys: "ys = y # ys'"
    by (cases ys) auto
  have "x = y"
  proof -
    have "y \<in> set (x # xs)" "x \<in> set (y # ys')"
      using Cons.prems(1) ys by (metis list.set_intros(1) set_mset_mset)+
    then have "cmp x y \<le> 0" "cmp y x \<le> 0"
      using Cons.prems(2,3) ys cmp_refl by auto
    then have "cmp x y = 0"
      using cmp_flip [of x y] by linarith
    then show ?thesis
      using Cons.prems(4) \<open>y \<in> set (x # xs)\<close> by simp
  qed
  with Cons ys show ?case by simp
qed

lemma sort_func_unique:
  assumes "mset xs = mset ys"
    and "\<And>x y. x \<in> set xs \<Longrightarrow> y \<in> set xs \<Longrightarrow> cmp x y = 0 \<Longrightarrow> x = y"
  shows "sort_func cmp xs = sort_func cmp ys"
  using assms by (intro sorted_unique) (auto simp: sorted_sort_func)

lemma sort_func_sorted:
  assumes "sorted_wrt (\<lambda>x y. cmp x y \<le> 0) xs"
  shows "sort_func cmp xs = xs"
  using assms
proof (induction xs)
  case (Cons x xs)
  then show ?case by (cases xs) auto
qed simp

lemma sort_func_hd_min:
  assumes "xs \<noteq> []" "y \<in> set xs"
  shows "cmp (hd (sort_func cmp xs)) y \<le> 0"
proof -
  obtain z zs where z: "sort_func cmp xs = z # zs"
    using assms(1) by (metis length_0_conv length_sort_func neq_Nil_conv)
  then have "y \<in> set (z # zs)" using assms(2) by (metis set_sort_func)
  then show ?thesis
    using sorted_sort_func [of xs] z cmp_refl by auto
qed

end

lemma comparator_on [intro]: "comparator (compare_on f)"
  by unfold_locales (auto simp: compare_on_def split: if_splits)

lemma comparator_then [intro]:
  assumes "comparator c" "comparator d"
  shows "comparator (compare_then c d)"
proof
  fix x y z
  note flip_c = comparator.cmp_flip [OF assms(1)]
  note flip_d = comparator.cmp_flip [OF assms(2)]
  note trans_c = comparator.cmp_trans [OF assms(1)]
  note trans_d = comparator.cmp_trans [OF assms(2)]
  show "(compare_then c d x y < 0) = (0 < compare_then c d y x)"
    using flip_c [of x y] flip_c [of y x] flip_d [of x y] unfolding compare_then_def by auto
  assume xy: "compare_then c d x y \<le> 0" and yz: "compare_then c d y z \<le> 0"
  then have c: "c x y \<le> 0" "c y z \<le> 0"
    by (auto simp: compare_then_def split: if_splits)
  then have xz: "c x z \<le> 0" by (rule trans_c)
  show "compare_then c d x z \<le> 0"
  proof (cases "c x z = 0")
    case True
    then have zx: "c z x \<le> 0" using flip_c [of x z] by linarith
    have "c y x \<le> 0" "c z y \<le> 0"
      using trans_c [OF c(2) zx] trans_c [OF zx c(1)] by auto
    then have "c x y = 0" "c y z = 0"
      using c flip_c [of x y] flip_c [of y z] by linarith+
    with xy yz have "d x z \<le> 0"
      using trans_d [of x y z] by (simp add: compare_then_def)
    with True show ?thesis by (simp add: compare_then_def)
  next
    case False
    with xz show ?thesis by (simp add: compare_then_def)
  qed
qed

lemma compare_on_0 [simp]: "compare_on f x y = 0 \<longleftrightarrow> f x = f y"
  by (auto simp: compare_on_def)

lemma compare_on_le0 [simp]: "compare_on f x y \<le> 0 \<longleftrightarrow> f x \<le> f y"
  by (auto simp: compare_on_def)

lemma compare_then_0 [simp]: "compare_then c d x y = 0 \<longleftrightarrow> c x y = 0 \<and> d x y = 0"
  by (auto simp: compare_then_def)

section \<open>Words\<close>

lemma u64_no_wrap: "(w::u64) + 1 \<noteq> 0 \<Longrightarrow> unat (w + 1) = Suc (unat w)"
  by (metis Suc_eq_plus1 add.commute unatSuc)

lemma u64_less_Suc: "(w::u64) + 1 \<noteq> 0 \<Longrightarrow> w < w + 1"
  by (simp add: u64_no_wrap word_less_nat_alt)

lemma u64_succ: "unat (w::u64) + n < 2 ^ 64 \<Longrightarrow> 0 < n \<Longrightarrow> unat (w + 1) = unat w + 1"
  by (simp add: unat_word_ariths)

lemma u64_room: "unat (w::u64) + n < 2 ^ 64 \<Longrightarrow> 0 < n \<Longrightarrow> w + 1 \<noteq> 0"
  using u64_succ [of w n] by auto

lemma u64_step: "unat (w::u64) + Suc n < 2 ^ 64 \<Longrightarrow> unat (w + 1) + n < 2 ^ 64"
  using u64_succ [of w "Suc n"] by simp

end
