(* ===== verification/Go_Json.thy ===== *)
theory Go_Json
  imports Go_Base
begin

text \<open>
  \<open>json.Valid\<close>: the byte scanner of Go's \<open>encoding/json\<close> as a state machine. A state
  is the step function the scanner would call next, and the stack holds the composite
  values that are open, at most 10000 of them. \<open>None\<close> is the scanner's error state.
\<close>

datatype json_open = ParseObjectKey | ParseObjectValue | ParseArrayValue

datatype json_step =
    BeginValue | BeginValueOrEmpty | BeginString | BeginStringOrEmpty
  | EndValue | EndTop
  | InString | InStringEsc | InStringEscU nat
  | Neg | Digits1 | Digits0 | Dot | Dot0 | Exp | ExpSign | Exp0
  | Literal string

type_synonym json_scanner = "json_step \<times> json_open list"

definition json_space :: "char \<Rightarrow> bool" where
  "json_space c \<longleftrightarrow> c \<in> {CHR 0x20, CHR 0x09, CHR 0x0D, CHR 0x0A}"

definition digit19 :: "char \<Rightarrow> bool" where
  "digit19 c \<longleftrightarrow> CHR ''1'' \<le> c \<and> c \<le> CHR ''9''"

definition digit :: "char \<Rightarrow> bool" where
  "digit c \<longleftrightarrow> CHR ''0'' \<le> c \<and> c \<le> CHR ''9''"

definition hex_digit :: "char \<Rightarrow> bool" where
  "hex_digit c \<longleftrightarrow> digit c \<or> (CHR ''a'' \<le> c \<and> c \<le> CHR ''f'') \<or>
     (CHR ''A'' \<le> c \<and> c \<le> CHR ''F'')"

definition max_nesting :: nat where
  "max_nesting = 10000"

definition push_state :: "json_open \<Rightarrow> json_step \<Rightarrow> json_open list \<Rightarrow> json_scanner option" where
  "push_state p step ps =
     (if length ps < max_nesting then Some (step, p # ps) else None)"

definition pop_state :: "json_open list \<Rightarrow> json_scanner option" where
  "pop_state ps = (case ps of
       [] \<Rightarrow> None
     | _ # r \<Rightarrow> Some (if r = [] then EndTop else EndValue, r))"

definition end_value :: "json_open list \<Rightarrow> char \<Rightarrow> json_scanner option" where
  "end_value ps c = (case ps of
       [] \<Rightarrow> if json_space c then Some (EndTop, []) else None
     | p # r \<Rightarrow>
         if json_space c then Some (EndValue, ps)
         else case p of
           ParseObjectKey \<Rightarrow>
             if c = CHR '':'' then Some (BeginValue, ParseObjectValue # r) else None
         | ParseObjectValue \<Rightarrow>
             if c = CHR '','' then Some (BeginString, ParseObjectKey # r)
             else if c = CHR ''}'' then pop_state ps else None
         | ParseArrayValue \<Rightarrow>
             if c = CHR '','' then Some (BeginValue, ps)
             else if c = CHR '']'' then pop_state ps else None)"

definition begin_value :: "json_open list \<Rightarrow> char \<Rightarrow> json_scanner option" where
  "begin_value ps c =
     (if json_space c then Some (BeginValue, ps)
      else if c = CHR ''{'' then push_state ParseObjectKey BeginStringOrEmpty ps
      else if c = CHR ''['' then push_state ParseArrayValue BeginValueOrEmpty ps
      else if c = CHR 0x22 then Some (InString, ps)
      else if c = CHR ''-'' then Some (Neg, ps)
      else if c = CHR ''0'' then Some (Digits0, ps)
      else if c = CHR ''t'' then Some (Literal ''rue'', ps)
      else if c = CHR ''f'' then Some (Literal ''alse'', ps)
      else if c = CHR ''n'' then Some (Literal ''ull'', ps)
      else if digit19 c then Some (Digits1, ps)
      else None)"

definition begin_string :: "json_open list \<Rightarrow> char \<Rightarrow> json_scanner option" where
  "begin_string ps c =
     (if json_space c then Some (BeginString, ps)
      else if c = CHR 0x22 then Some (InString, ps) else None)"

definition digits0 :: "json_open list \<Rightarrow> char \<Rightarrow> json_scanner option" where
  "digits0 ps c =
     (if c = CHR ''.'' then Some (Dot, ps)
      else if c = CHR ''e'' \<or> c = CHR ''E'' then Some (Exp, ps) else end_value ps c)"

definition exp_sign :: "json_open list \<Rightarrow> char \<Rightarrow> json_scanner option" where
  "exp_sign ps c = (if digit c then Some (Exp0, ps) else None)"

fun json_next :: "json_scanner \<Rightarrow> char \<Rightarrow> json_scanner option" where
  "json_next (BeginValue, ps) c = begin_value ps c"
| "json_next (BeginValueOrEmpty, ps) c =
     (if json_space c then Some (BeginValueOrEmpty, ps)
      else if c = CHR '']'' then end_value ps c else begin_value ps c)"
| "json_next (BeginString, ps) c = begin_string ps c"
| "json_next (BeginStringOrEmpty, ps) c =
     (if json_space c then Some (BeginStringOrEmpty, ps)
      else if c = CHR ''}'' then end_value (ParseObjectValue # tl ps) c
      else begin_string ps c)"
| "json_next (EndValue, ps) c = end_value ps c"
| "json_next (EndTop, ps) c = (if json_space c then Some (EndTop, ps) else None)"
| "json_next (InString, ps) c =
     (if c = CHR 0x22 then Some (EndValue, ps)
      else if c = CHR 0x5C then Some (InStringEsc, ps)
      else if c < CHR 0x20 then None else Some (InString, ps))"
| "json_next (InStringEsc, ps) c =
     (if c = CHR ''u'' then Some (InStringEscU 4, ps)
      else if c \<in> {CHR ''b'', CHR ''f'', CHR ''n'', CHR ''r'', CHR ''t'',
        CHR 0x5C, CHR ''/'', CHR 0x22} then Some (InString, ps) else None)"
| "json_next (InStringEscU n, ps) c =
     (if hex_digit c then Some (if n \<le> 1 then InString else InStringEscU (n - 1), ps)
      else None)"
| "json_next (Neg, ps) c =
     (if c = CHR ''0'' then Some (Digits0, ps)
      else if digit19 c then Some (Digits1, ps) else None)"
| "json_next (Digits1, ps) c = (if digit c then Some (Digits1, ps) else digits0 ps c)"
| "json_next (Digits0, ps) c = digits0 ps c"
| "json_next (Dot, ps) c = (if digit c then Some (Dot0, ps) else None)"
| "json_next (Dot0, ps) c =
     (if digit c then Some (Dot0, ps)
      else if c = CHR ''e'' \<or> c = CHR ''E'' then Some (Exp, ps) else end_value ps c)"
| "json_next (Exp, ps) c =
     (if c = CHR ''+'' \<or> c = CHR ''-'' then Some (ExpSign, ps) else exp_sign ps c)"
| "json_next (ExpSign, ps) c = exp_sign ps c"
| "json_next (Exp0, ps) c = (if digit c then Some (Exp0, ps) else end_value ps c)"
| "json_next (Literal [], ps) c = None"
| "json_next (Literal (x # xs), ps) c =
     (if c = x then Some (if xs = [] then EndValue else Literal xs, ps) else None)"

fun json_scan :: "json_scanner \<Rightarrow> string \<Rightarrow> json_scanner option" where
  "json_scan s [] = Some s"
| "json_scan s (c # cs) = (case json_next s c of None \<Rightarrow> None | Some s' \<Rightarrow> json_scan s' cs)"

text \<open>At the end of the input the scanner steps once on a space and must have finished.\<close>

definition json_Valid :: "json \<Rightarrow> bool" where
  "json_Valid data = (case json_scan (BeginValue, []) data of
       None \<Rightarrow> False
     | Some s \<Rightarrow> fst s = EndTop \<or>
         (case json_next s (CHR 0x20) of None \<Rightarrow> False | Some s' \<Rightarrow> fst s' = EndTop))"

lemma json_Valid_Nil [simp]: "\<not> json_Valid []"
  by (simp add: json_Valid_def begin_value_def json_space_def)

lemma json_Valid_empty_object [simp]: "json_Valid ''{}''"
  by (simp add: json_Valid_def begin_value_def json_space_def push_state_def pop_state_def
      end_value_def max_nesting_def)

lemma json_Valid_null [simp]: "json_Valid ''null''"
  by (simp add: json_Valid_def begin_value_def json_space_def end_value_def)

end
