(* ===== verification/Resource_Names.thy ===== *)
theory Resource_Names
  imports Go_Json
begin

text \<open>
  The naming rules every component applies (\<open>sdk/plugin.go\<close>, \<open>sdk/id.go\<close>): the
  resource name pattern, plugin manifests, and generated identifiers.
\<close>

section \<open>Resource names\<close>

definition alnum :: "char \<Rightarrow> bool" where
  "alnum c \<longleftrightarrow> (CHR ''A'' \<le> c \<and> c \<le> CHR ''Z'') \<or> (CHR ''a'' \<le> c \<and> c \<le> CHR ''z'') \<or>
     (CHR ''0'' \<le> c \<and> c \<le> CHR ''9'')"

definition name_char :: "char \<Rightarrow> bool" where
  "name_char c \<longleftrightarrow> alnum c \<or> c = CHR ''.'' \<or> c = CHR ''_'' \<or> c = CHR ''-''"

text \<open>The pattern \<^verbatim>\<open>^[A-Za-z0-9][A-Za-z0-9._-]{0,127}$\<close>.\<close>

fun resourceNamePattern :: "string \<Rightarrow> bool" where
  "resourceNamePattern [] = False"
| "resourceNamePattern (c # cs) = (alnum c \<and> list_all name_char cs \<and> length cs \<le> 127)"

definition ValidateResourceName :: "string \<Rightarrow> string \<Rightarrow> error option" where
  "ValidateResourceName kind name =
     reject_if (\<not> resourceNamePattern name) (Errorf (kind @ '' name %q must match %s''))"

lemma ValidateResourceName_None [result_simps]:
  "ValidateResourceName kind name = None \<longleftrightarrow> resourceNamePattern name"
  by (simp add: ValidateResourceName_def result_simps)

lemma name_char_ascii:
  assumes "name_char c"
  shows "CHR ''-'' \<le> c \<and> c \<le> CHR ''z''"
  using assms unfolding name_char_def alnum_def by (auto simp: less_eq_char_def)

lemma resource_name_chars: "resourceNamePattern s \<Longrightarrow> c \<in> set s \<Longrightarrow> name_char c"
  by (cases s) (auto simp: name_char_def list_all_iff)

lemma resource_name_nonempty [simp]: "resourceNamePattern s \<Longrightarrow> s \<noteq> []"
  by auto

lemma resource_name_no_nul: "resourceNamePattern s \<Longrightarrow> CHR 0x00 \<notin> set s"
  using resource_name_chars [of s "CHR 0x00"] by (auto simp: name_char_def alnum_def)

lemma name_char_not_space:
  assumes "name_char c"
  shows "\<not> ascii_space c" "\<not> space2 c b" "\<not> space3 c b d" "\<not> space2 b c" "\<not> space3 b d c"
proof -
  have r: "CHR ''-'' \<le> c" "c \<le> CHR ''z''"
    using name_char_ascii [OF assms] by auto
  show "\<not> ascii_space c"
    using r by (auto simp: ascii_space_def)
  show "\<not> space2 c b" "\<not> space3 c b d" "\<not> space2 b c"
    using r by (auto simp: space2_def space3_def)
  have "\<not> CHR 0x80 \<le> c"
    using r(2) by (simp add: less_eq_char_def)
  then show "\<not> space3 b d c"
    using r by (auto simp: space3_def)
qed

lemma front_space_nonspace:
  assumes "\<And>c. c \<in> set s \<Longrightarrow> name_char c"
  shows "front_space s = 0" "back_space s = 0"
  using assms by (cases s rule: front_space.cases; force simp: name_char_not_space)+

lemma TrimSpace_resource_name [simp]: "resourceNamePattern s \<Longrightarrow> TrimSpace s = s"
  by (intro TrimSpace_fix front_space_nonspace) (auto dest: resource_name_chars)

section \<open>Generated identifiers\<close>

text \<open>
  \<open>NewID\<close> encodes sixteen random bytes in hexadecimal; when the random source fails it
  prints the clock instead. Both the bytes (\<open>None\<close> on failure) and the printed clock are
  arguments.
\<close>

definition hextable :: string where
  "hextable = ''0123456789abcdef''"

definition hex_byte :: "8 word \<Rightarrow> string" where
  "hex_byte b = [hextable ! (unat b div 16), hextable ! (unat b mod 16)]"

definition NewID :: "8 word list option \<Rightarrow> string \<Rightarrow> string" where
  "NewID raw clock = (case raw of None \<Rightarrow> clock | Some bytes \<Rightarrow> concat (map hex_byte bytes))"

lemma hextable_alnum: "i < 16 \<Longrightarrow> alnum (hextable ! i)"
proof -
  have "list_all alnum hextable"
    by (simp add: hextable_def alnum_def)
  moreover assume "i < 16"
  then have "i < length hextable" by (simp add: hextable_def)
  ultimately show ?thesis by (simp add: list_all_length)
qed

lemma hex_byte_alnum: "c \<in> set (hex_byte b) \<Longrightarrow> alnum c"
proof -
  have "unat b < 2 ^ LENGTH(8)" by (rule unsigned_less)
  then have "unat b div 16 < 16" "unat b mod 16 < 16" by auto
  moreover assume "c \<in> set (hex_byte b)"
  ultimately show ?thesis by (auto simp: hex_byte_def hextable_alnum)
qed

lemma length_hex: "length (concat (map hex_byte bs)) = 2 * length bs"
  by (induction bs) (auto simp: hex_byte_def)

lemma resource_nameI:
  "s \<noteq> [] \<Longrightarrow> length s \<le> 128 \<Longrightarrow> (\<And>c. c \<in> set s \<Longrightarrow> alnum c) \<Longrightarrow> resourceNamePattern s"
  by (cases s) (auto simp: list_all_iff name_char_def)

lemma NewID_resource_name:
  assumes "length bytes = 16"
  shows "resourceNamePattern (NewID (Some bytes) clock)"
proof (rule resource_nameI)
  show "NewID (Some bytes) clock \<noteq> []" "length (NewID (Some bytes) clock) \<le> 128"
    using assms by (auto simp: NewID_def length_hex simp flip: length_0_conv)
  fix c
  assume "c \<in> set (NewID (Some bytes) clock)"
  then show "alnum c" by (auto simp: NewID_def hex_byte_alnum)
qed

section \<open>Plugin manifests\<close>

record manifest =
  mfName :: string
  mfVersion :: string
  mfDescription :: string
  mfAPIVersion :: int
  mfMinAPIVersion :: int
  mfMaxAPIVersion :: int
  mfRequires :: "string list"
  mfConflicts :: "string list"
  mfRegisters :: "string list"

definition APIVersion :: int where
  "APIVersion = 1"

definition APIRange :: "manifest \<Rightarrow> int \<times> int" where
  "APIRange m =
     (if mfMinAPIVersion m \<noteq> 0 then mfMinAPIVersion m else mfAPIVersion m,
      if mfMaxAPIVersion m \<noteq> 0 then mfMaxAPIVersion m else mfAPIVersion m)"

fun unique_strings :: "string list \<Rightarrow> string list \<Rightarrow> error option" where
  "unique_strings seen [] = None"
| "unique_strings seen (v # vs) =
     and_then (reject_if (TrimSpace v = [])
         (Errorf ''plugin %q contains an empty resource reference''))
      (and_then (reject_if (v \<in> set seen)
         (Errorf ''plugin %q contains duplicate resource reference %q''))
       (unique_strings (v # seen) vs))"

definition validateUniqueStrings :: "string list \<Rightarrow> error option" where
  "validateUniqueStrings = unique_strings []"

definition ManifestValidate :: "manifest \<Rightarrow> error option" where
  "ManifestValidate m =
     and_then (ValidateResourceName ''plugin'' (mfName m))
     (and_then (reject_if (TrimSpace (mfVersion m) = []) (Errorf ''plugin version is empty''))
     (and_then (reject_if (TrimSpace (mfDescription m) = [])
        (Errorf ''plugin description is empty''))
     (let (minimum, maximum) = APIRange m in
      and_then (reject_if (minimum < 1 \<or> maximum < minimum)
        (Errorf ''plugin %q has invalid API version range %d..%d''))
     (and_then (reject_if (APIVersion < minimum \<or> APIVersion > maximum)
        (Errorf ''plugin %q API versions %d..%d are incompatible with SDK API version %d''))
     (validateUniqueStrings (mfRegisters m @ mfRequires m @ mfConflicts m))))))"

lemma unique_strings_None:
  "unique_strings seen vs = None \<longleftrightarrow>
     distinct vs \<and> set seen \<inter> set vs = {} \<and> (\<forall>v\<in>set vs. TrimSpace v \<noteq> [])"
  by (induction vs arbitrary: seen) (auto simp: result_simps)

lemma validateUniqueStrings_None [result_simps]:
  "validateUniqueStrings vs = None \<longleftrightarrow> distinct vs \<and> (\<forall>v\<in>set vs. TrimSpace v \<noteq> [])"
  by (simp add: validateUniqueStrings_def unique_strings_None)

end
