(* ===== verification/Trajectory_Data.thy ===== *)
theory Trajectory_Data
  imports Resource_Names
begin

text \<open>
  The values of a trajectory (\<open>sdk/trajectory.go\<close> and the specifications it records):
  entries of the branching log, the execution that is running on it, the environment it
  was created in, and the projections that the stores return. The string types of the
  source are datatypes with one more constructor for every other string.
\<close>

section \<open>What the environment records\<close>

text \<open>A decoded JSON value (\<open>any\<close>); numbers keep their text.\<close>

datatype go_any =
    AnyNull | AnyBool bool | AnyNumber string | AnyString string
  | AnyArray "go_any list" | AnyObject "(string \<times> go_any) list"

record provider_spec =
  psName :: string
  psModel :: string

datatype ToolInterruptBehavior = ToolInterruptBlock | ToolInterruptCancel | ToolInterruptOther string
datatype ToolConcurrency = ToolConcurrencyExclusive | ToolConcurrencyParallel | ToolConcurrencyOther string

record tool_spec =
  tsName :: string
  tsDescription :: string
  tsParameters :: "go_any gomap"
  tsInterruptBehavior :: ToolInterruptBehavior
  tsConcurrency :: ToolConcurrency

text \<open>\<open>Tools\<close> of an agent is nil or a list; the two differ.\<close>

record agent_spec =
  asName :: string
  asDescription :: string
  asProvider :: string
  asSystem :: string
  asMaxTurns :: int
  asTools :: "string list option"

datatype AgentSessionMode =
  AgentSessionNew | AgentSessionFork | AgentSessionResume | AgentSessionOther string

datatype FailurePolicy = FailurePolicyFailClosed | FailurePolicyContinue | FailurePolicyOther string

record hook_spec =
  hsName :: string
  hsEvent :: string
  hsPriority :: int
  hsFailurePolicy :: FailurePolicy
  hsTimeout :: duration

record subscriber_spec =
  ssName :: string
  ssEvents :: "string list"
  ssTimeout :: duration

record capability_spec =
  csName :: string
  csDescription :: string
  csInputSchema :: "go_any gomap"
  csOutputSchema :: "go_any gomap"

record event_contract =
  ecName :: string
  ecMutableFields :: "string list"
  ecAllowBlock :: bool
  ecAllowAction :: bool

record tj_plugin =
  tpName :: string
  tpVersion :: string
  tpRegisters :: "string list"

record tj_environment =
  envSDKAPIVersion :: int
  envRuntimeVersion :: string
  envCreatedGeneration :: u64
  envParentSessionID :: string
  envOriginInvocationID :: string
  envOriginInvocationRootID :: string
  envOriginForkInvocationID :: string
  envOriginMode :: AgentSessionMode
  envRequestedProvider :: string
  envSystemDigest :: string
  envCompositionDigest :: string
  envPlugins :: "tj_plugin list"
  envProviders :: "provider_spec list"
  envTools :: "tool_spec list"
  envAgents :: "agent_spec list"
  envHooks :: "hook_spec list"
  envSubscribers :: "subscriber_spec list"
  envCapabilities :: "capability_spec list"
  envEvents :: "event_contract list"

section \<open>Audits\<close>

datatype ActionKind = ActionStep | ActionStop | ActionInject | ActionKindOther string

datatype HookAuditOutcome =
    HookAuditNoEffect | HookAuditPatched | HookAuditBlocked | HookAuditAction | HookAuditError
  | HookAuditSkipped | HookAuditOther string

datatype EffectResolutionOutcome =
    EffectResolutionNoEffect | EffectResolutionPatched | EffectResolutionBlocked
  | EffectResolutionAction | EffectResolutionError | EffectResolutionOther string

record block_summary =
  bsReason :: string
  bsKind :: string

record action_summary =
  acKind :: ActionKind
  acCauseCode :: string
  acCauseFinal :: bool
  acMessageCount :: int

record effect_resolution =
  erOutcome :: EffectResolutionOutcome
  erBlock :: "block_summary option"
  erBlockStep :: "int option"
  erAction :: "action_summary option"
  erActionSteps :: "int list"
  erActionRule :: string
  erPatchFields :: "string list"
  erError :: string

record hook_audit_step =
  haIndex :: int
  haPlugin :: string
  haPluginVersion :: string
  haHook :: string
  haPriority :: int
  haSequence :: u64
  haFailurePolicy :: FailurePolicy
  haDuration :: duration
  haInputHash :: string
  haOutputHash :: string
  haPatchFields :: "string list"
  haOverwrites :: "string list"
  haBlock :: "block_summary option"
  haAction :: "action_summary option"
  haError :: string
  haOutcome :: HookAuditOutcome
  haAttributes :: "string gomap"

record event_audit =
  eaEventID :: string
  eaEventName :: string
  eaGeneration :: u64
  eaInputHash :: string
  eaOutputHash :: string
  eaSteps :: "hook_audit_step list"
  eaResolution :: effect_resolution

section \<open>Entries\<close>

definition TrajectorySchemaVersion :: u32 where "TrajectorySchemaVersion = 3"
definition TrajectoryPayloadVersion :: u32 where "TrajectoryPayloadVersion = 1"

datatype TrajectoryKind =
    KindUserMessage | KindAgentStart | KindProviderRequest | KindProviderResponse
  | KindToolCall | KindToolResult | KindDecision | KindCheckpoint | KindTerminal
  | KindRestore | KindRollback | KindOther string

definition kind_Valid :: "TrajectoryKind \<Rightarrow> bool" where
  "kind_Valid k = (case k of KindOther s \<Rightarrow> False | _ \<Rightarrow> True)"

record tj_fields =
  tfTurn :: "int option"
  tfExecutionID :: string
  tfOperationKey :: string
  tfCorrelationID :: string
  tfProvider :: string
  tfModel :: string
  tfToolName :: string
  tfToolCallID :: string
  tfFinishReason :: string
  tfInputTokens :: int
  tfOutputTokens :: int
  tfIsError :: "bool option"
  tfCauseCode :: string
  tfActionKind :: ActionKind

record tj_entry =
  teID :: string
  teTrajectoryID :: string
  teParentID :: string
  teOrdinal :: u64
  teDepth :: u64
  teKind :: TrajectoryKind
  teTimestamp :: gotime
  teGeneration :: u64
  teFields :: tj_fields
  teAudit :: "event_audit list"
  tePayloadVersion :: u32
  tePayload :: json
  teAttributes :: "string gomap"

section \<open>Executions\<close>

datatype TrajectoryExecutionState =
    TrajectoryExecutionPending | TrajectoryExecutionRunning | TrajectoryExecutionSucceeded
  | TrajectoryExecutionFailed | TrajectoryExecutionCancelled
  | TrajectoryExecutionStateOther string

record tj_execution =
  txID :: string
  txState :: TrajectoryExecutionState
  txRevision :: u64
  txBaseHead :: string
  txInputEntryID :: string
  txProvider :: string
  txSystem :: string
  txMaxTurns :: int
  txOwner :: string
  txLeaseToken :: string
  txLeaseExpiresAt :: gotime
  txLastError :: string
  txCreatedAt :: gotime
  txUpdatedAt :: gotime

definition tx_Terminal :: "tj_execution \<Rightarrow> bool" where
  "tx_Terminal x = (case txState x of
       TrajectoryExecutionSucceeded \<Rightarrow> True | TrajectoryExecutionFailed \<Rightarrow> True
     | TrajectoryExecutionCancelled \<Rightarrow> True | _ \<Rightarrow> False)"

definition tx_RecoveryDelay :: "gotime \<Rightarrow> tj_execution \<Rightarrow> gotime \<Rightarrow> duration" where
  "tx_RecoveryDelay wall x now =
     (let now = (if now = 0 then wall else now) in
      if txState x = TrajectoryExecutionRunning \<and> now < txLeaseExpiresAt x
      then txLeaseExpiresAt x - now else 0)"

definition tx_RecoverableAt :: "gotime \<Rightarrow> tj_execution \<Rightarrow> gotime \<Rightarrow> bool" where
  "tx_RecoverableAt wall x now \<longleftrightarrow> \<not> tx_Terminal x \<and> tx_RecoveryDelay wall x now \<le> 0"

record tj_start =
  stID :: string
  stProvider :: string
  stSystem :: string
  stMaxTurns :: int

record tj_commit =
  tcTrajectoryID :: string
  tcExecutionID :: string
  tcLeaseToken :: string
  tcExpectedHead :: string
  tcEntries :: "tj_entry list"
  tcState :: TrajectoryExecutionState
  tcError :: string

record tj_cancel_commit =
  ccTrajectoryID :: string
  ccExecutionID :: string
  ccExpectedHead :: string
  ccReason :: string
  ccAt :: gotime
  ccEntries :: "tj_entry list"

section \<open>Trajectories\<close>

record trajectory =
  tjSchemaVersion :: u32
  tjID :: string
  tjParentID :: string
  tjParentEntryID :: string
  tjCreatedAt :: gotime
  tjUpdatedAt :: gotime
  tjHead :: string
  tjCheckpoint :: string
  tjExecution :: "tj_execution option"
  tjEnvironment :: tj_environment
  tjEntries :: "tj_entry list"

record tj_metadata =
  tmSchemaVersion :: u32
  tmID :: string
  tmParentID :: string
  tmParentEntryID :: string
  tmCreatedAt :: gotime
  tmUpdatedAt :: gotime
  tmHead :: string
  tmCheckpoint :: string
  tmExecution :: "tj_execution option"
  tmEnvironment :: tj_environment
  tmEntryCount :: int
  tmOwnedEntryCount :: int

record tj_summary =
  tuSchemaVersion :: u32
  tuID :: string
  tuParentID :: string
  tuParentEntryID :: string
  tuCreatedAt :: gotime
  tuUpdatedAt :: gotime
  tuHead :: string
  tuCheckpoint :: string
  tuExecutionID :: string
  tuExecutionState :: TrajectoryExecutionState
  tuEntryCount :: int
  tuOwnedEntryCount :: int

record tj_cancel_result =
  crTrajectory :: tj_metadata
  crChanged :: bool

record tj_entry_query =
  tqTrajectoryID :: string
  tqExecutionID :: string
  tqOperationKey :: string
  tqKind :: TrajectoryKind
  tqProvider :: string
  tqToolName :: string
  tqCorrelationID :: string
  tqLimit :: int

section \<open>The branch of a loaded trajectory\<close>

text \<open>
  \<open>Trajectory.Branch\<close> follows the parent links from a head. The loop visits an ID at
  most once, so a step per entry and one more are enough; \<open>None\<close> stands for running out
  of steps.
\<close>

fun branch_loop ::
  "nat \<Rightarrow> tj_entry gomap \<Rightarrow> string list \<Rightarrow> string \<Rightarrow> tj_entry list \<Rightarrow> tj_entry list result option" where
  "branch_loop n index seen cursor result =
     (if cursor = [] then Some (Inr result)
      else case n of 0 \<Rightarrow> None | Suc n \<Rightarrow>
        if cursor \<in> set seen then Some (Inl (Errorf ''trajectory %q contains a cycle at %q''))
        else case map_of index cursor of
          None \<Rightarrow> Some (Inl (Errorf ''trajectory %q branch references unknown entry %q''))
        | Some entry \<Rightarrow> branch_loop n index (cursor # seen) (teParentID entry) (entry # result))"

declare branch_loop.simps [simp del]

definition entry_index :: "tj_entry list \<Rightarrow> tj_entry gomap" where
  "entry_index entries = fold (\<lambda>e m. AList.update (teID e) e m) entries []"

definition tj_Branch :: "trajectory \<Rightarrow> string \<Rightarrow> tj_entry list result option" where
  "tj_Branch t head =
     (if head = [] then Some (Inr [])
      else branch_loop (Suc (length (tjEntries t))) (entry_index (tjEntries t)) [] head [])"

end
