(* ===== verification/Leases.thy ===== *)
theory Leases
  imports Go_Base
begin

text \<open>
  The contract that operations, deliveries and trajectory executions share. Each is an
  aggregate that stores change by applying one event at a time: a failed event leaves the
  stored value as it was, a successful one replaces it. \<open>run_events\<close> is an arbitrary
  interleaving of the calls of any number of workers, as the store's lock serialises them.

  \<^item> \<open>fenced_aggregate\<close>: a lease is granted under a token, and an event that presents
    a token succeeds only while that token holds the lease.
  \<^item> \<open>leased_aggregate\<close>: in addition a lease that has not expired is never granted again.
  \<^item> \<open>terminal_aggregate\<close>: a terminal value never changes.
  \<^item> \<open>versioned_aggregate\<close>: successful events count the revision up by one, and an
    event that expects a revision succeeds only at that revision.
\<close>

fun run_events :: "('e \<Rightarrow> 'r \<Rightarrow> 'r result) \<Rightarrow> 'e list \<Rightarrow> 'r \<Rightarrow> 'r" where
  "run_events f [] r = r"
| "run_events f (e # es) r = (case f e r of Inl _ \<Rightarrow> run_events f es r | Inr r' \<Rightarrow> run_events f es r')"

lemma run_events_invariant:
  assumes "P r" "\<And>e r r'. e \<in> set es \<Longrightarrow> P r \<Longrightarrow> f e r = Inr r' \<Longrightarrow> P r'"
  shows "P (run_events f es r)"
  using assms
proof (induction es arbitrary: r)
  case (Cons e es)
  then show ?case by (cases "f e r") (auto intro!: Cons.IH)
qed simp

locale fenced_aggregate =
  fixes apply_event :: "'e \<Rightarrow> 'r \<Rightarrow> 'r result"
    and holder :: "'r \<Rightarrow> string option"
    and grants :: "'e \<Rightarrow> string option"
    and credential :: "'e \<Rightarrow> string option"
  assumes granted: "apply_event e r = Inr r' \<Longrightarrow> grants e = Some t \<Longrightarrow> holder r' = Some t"
    and kept: "apply_event e r = Inr r' \<Longrightarrow> grants e = None \<Longrightarrow>
      holder r' = holder r \<or> holder r' = None"
    and fenced: "apply_event e r = Inr r' \<Longrightarrow> credential e = Some t \<Longrightarrow> holder r = Some t"
begin

lemma never_regains:
  assumes "holder r \<noteq> Some t" "\<forall>e\<in>set es. grants e \<noteq> Some t"
  shows "holder (run_events apply_event es r) \<noteq> Some t"
  using assms(1)
proof (rule run_events_invariant)
  fix e r r'
  assume "e \<in> set es" "holder r \<noteq> Some t" "apply_event e r = Inr r'"
  with assms(2) show "holder r' \<noteq> Some t"
    using granted [of e r r'] kept [of e r r'] by (cases "grants e") auto
qed

text \<open>A worker that lost its lease is locked out whatever the others do.\<close>

lemma stale_credential_rejected:
  assumes "holder r \<noteq> Some t" "\<forall>e\<in>set es. grants e \<noteq> Some t" "credential e = Some t"
  shows "\<exists>err. apply_event e (run_events apply_event es r) = Inl err"
  using never_regains [OF assms(1,2)] fenced [OF _ assms(3)]
  by (metis sum.exhaust)

text \<open>Taking over a lease under a new token locks the previous holder out.\<close>

lemma takeover_fences:
  assumes "apply_event c r = Inr r'" "grants c = Some t'" "t' \<noteq> t"
    and "\<forall>e\<in>set es. grants e \<noteq> Some t" "credential e = Some t"
  shows "\<exists>err. apply_event e (run_events apply_event es r') = Inl err"
  using granted [OF assms(1,2)] assms(3-5) stale_credential_rejected [of r' t es e] by auto

end

locale leased_aggregate = fenced_aggregate apply_event holder grants credential
  for apply_event :: "'e \<Rightarrow> 'r \<Rightarrow> 'r result" and holder grants credential +
  fixes expiry :: "'r \<Rightarrow> gotime"
    and at_time :: "'e \<Rightarrow> gotime"
  assumes exclusive: "apply_event e r = Inr r' \<Longrightarrow> grants e = Some t \<Longrightarrow>
      holder r = Some t' \<Longrightarrow> expiry r \<le> at_time e"
begin

text \<open>While a lease is live, no interleaving of other workers' calls moves it to another
  holder: it can only end.\<close>

lemma live_lease_excludes:
  assumes "holder r = Some t" "grants e = Some t'" "at_time e < expiry r"
  shows "\<exists>err. apply_event e r = Inl err"
  using assms exclusive [OF _ assms(2,1)] by (cases "apply_event e r") force+

end

locale terminal_aggregate =
  fixes apply_event :: "'e \<Rightarrow> 'r \<Rightarrow> 'r result"
    and terminal :: "'r \<Rightarrow> bool"
  assumes absorbing: "terminal r \<Longrightarrow> apply_event e r = Inr r' \<Longrightarrow> r' = r"
begin

lemma run_terminal:
  assumes "terminal r"
  shows "run_events apply_event es r = r"
  by (rule run_events_invariant [where P = "\<lambda>x. x = r"]) (auto dest: absorbing [OF assms])

end

locale versioned_aggregate =
  fixes apply_event :: "'e \<Rightarrow> 'r \<Rightarrow> 'r result"
    and revision :: "'r \<Rightarrow> u64"
    and expects :: "'e \<Rightarrow> u64 option"
  assumes counted: "apply_event e r = Inr r' \<Longrightarrow> r' = r \<or> revision r' = revision r + 1"
    and expected: "apply_event e r = Inr r' \<Longrightarrow> expects e = Some v \<Longrightarrow>
      revision r = v \<and> revision r' = revision r + 1"
begin

lemma run_revision_bounds:
  assumes "unat (revision r) + length es < 2 ^ 64"
  shows "unat (revision r) \<le> unat (revision (run_events apply_event es r)) \<and>
    unat (revision (run_events apply_event es r)) \<le> unat (revision r) + length es"
  using assms
proof (induction es arbitrary: r)
  case (Cons e es)
  show ?case
  proof (cases "apply_event e r")
    case (Inl x)
    then show ?thesis using Cons.IH [of r] Cons.prems by auto
  next
    case (Inr r')
    then consider "r' = r" | "revision r' = revision r + 1"
      using counted by blast
    then show ?thesis
    proof cases
      case 1
      then show ?thesis using Cons.IH [of r] Cons.prems Inr by auto
    next
      case 2
      have "unat (revision r) + 1 < 2 ^ 64" using Cons.prems by simp
      then have "unat (revision r') = unat (revision r) + 1"
        unfolding 2 by (simp add: unat_word_ariths)
      then show ?thesis using Cons.IH [of r'] Cons.prems Inr by auto
    qed
  qed
qed simp

text \<open>
  Optimistic concurrency: of all the events that expect the same revision at most one
  succeeds, however the calls are interleaved, as long as the 64-bit counter does not
  wrap around.
\<close>

lemma compare_and_set_once:
  assumes "apply_event e r = Inr r'" "expects e = Some v" "expects e' = Some v"
    and "unat v + length es + 1 < 2 ^ 64"
  shows "\<exists>err. apply_event e' (run_events apply_event es r') = Inl err"
proof -
  have r: "revision r = v" "revision r' = v + 1"
    using expected [OF assms(1,2)] by auto
  have u: "unat (v + 1) = unat v + 1"
    using assms(4) by (simp add: unat_word_ariths)
  then have "unat (revision r') + length es < 2 ^ 64"
    using r assms(4) by simp
  then have "unat v < unat (revision (run_events apply_event es r'))"
    using run_revision_bounds [of r' es] r u by auto
  then have "revision (run_events apply_event es r') \<noteq> v" by auto
  then show ?thesis
    using expected [OF _ assms(3)] by (metis sum.exhaust)
qed

end

end
