(* ===== verification/Trajectory_Model.thy ===== *)
theory Trajectory_Model
  imports Trajectory_Data Leases
begin

text \<open>
  The trajectory aggregate of \<open>sdk/storage/internal/trajectorymodel/model.go\<close>: checks of
  new and loaded trajectories, the preparation of appended entries, walks along a branch,
  and the transitions of an execution. \<open>wall\<close> is the value of \<open>time.Now\<close>,
  \<open>newID\<close> that of \<open>sdk.NewID\<close>.

  A lookup may itself walk other branches, and a walk follows links that only a valid store
  keeps acyclic. A walk therefore has a number of steps, and its outcome is \<open>None\<close> when
  they run out; for the stores' states it is shown that this does not happen.
\<close>

type_synonym 'a outcome = "'a result option"
type_synonym entry_lookup = "string \<Rightarrow> tj_entry option outcome"

section \<open>New trajectories\<close>

definition ValidateTrajectoryParent :: "trajectory \<Rightarrow> error option" where
  "ValidateTrajectoryParent t =
     (if (tjParentID t = []) \<noteq> (tjParentEntryID t = [])
      then Some (Errorf ''trajectory parent_id and parent_entry_id must be set together'')
      else if tjParentID t = [] then None
      else and_then (ValidateResourceName ''trajectory parent'' (tjParentID t))
        (ValidateResourceName ''trajectory parent entry'' (tjParentEntryID t)))"

definition ValidateNewTrajectory :: "trajectory \<Rightarrow> error option" where
  "ValidateNewTrajectory t =
     and_then (reject_if (tjSchemaVersion t > TrajectorySchemaVersion)
       (Wrapf ErrTrajectoryVersion ''%w: got %d, maximum supported is %d''))
     (and_then (ValidateResourceName ''trajectory'' (tjID t))
     (and_then (reject_if (tjHead t \<noteq> [] \<or> tjCheckpoint t \<noteq> [] \<or> tjExecution t \<noteq> None \<or>
         length (tjEntries t) \<noteq> 0)
       (Errorf ''new trajectory must not contain entries, a head, a checkpoint, or an execution''))
      (ValidateTrajectoryParent t)))"

definition NormalizeTrajectory :: "trajectory \<Rightarrow> trajectory" where
  "NormalizeTrajectory t =
     (let t = (if tjSchemaVersion t = 0 then t\<lparr>tjSchemaVersion := TrajectorySchemaVersion\<rparr> else t)
      in t\<lparr>tjEntries := map (\<lambda>e. if tePayloadVersion e = 0
             then e\<lparr>tePayloadVersion := TrajectoryPayloadVersion\<rparr> else e) (tjEntries t)\<rparr>)"

record prepared_trajectory =
  ptTrajectory :: trajectory
  ptInheritedEntryCount :: u64

definition PrepareNewTrajectory :: "gotime \<Rightarrow> trajectory \<Rightarrow> gotime \<Rightarrow> prepared_trajectory result" where
  "PrepareNewTrajectory wall t now =
     (let t = NormalizeTrajectory t in
      check (ValidateNewTrajectory t)
      (let now = (if now = 0 then wall else now);
           t = (if tjCreatedAt t = 0 then t\<lparr>tjCreatedAt := now\<rparr> else t);
           t = (if tjUpdatedAt t = 0 then t\<lparr>tjUpdatedAt := tjCreatedAt t\<rparr> else t);
           t = t\<lparr>tjEntries := []\<rparr>
       in Inr \<lparr>ptTrajectory = t, ptInheritedEntryCount = 0\<rparr>))"

text \<open>The last entry of a kind: the loop runs from the end of the branch.\<close>

definition FindLatestInBranch :: "tj_entry list \<Rightarrow> TrajectoryKind \<Rightarrow> tj_entry option" where
  "FindLatestInBranch branch kind = find (\<lambda>e. teKind e = kind) (rev branch)"

definition PrepareNewTrajectoryFork ::
  "prepared_trajectory \<Rightarrow> tj_entry list \<Rightarrow> prepared_trajectory result" where
  "PrepareNewTrajectoryFork prepared inheritedBranch =
     (let t = ptTrajectory prepared in
      if tjParentID t = [] then Inr prepared
      else if length inheritedBranch = 0 then Inl (Errorf ''trajectory %q fork branch is empty'')
      else
        let prepared = prepared\<lparr>ptInheritedEntryCount := of_nat (length inheritedBranch)\<rparr>;
            t = t\<lparr>tjHead := tjParentEntryID t\<rparr>;
            t = (case FindLatestInBranch inheritedBranch KindCheckpoint of
                   Some checkpoint \<Rightarrow> t\<lparr>tjCheckpoint := teID checkpoint\<rparr>
                 | None \<Rightarrow> t)
        in Inr (prepared\<lparr>ptTrajectory := t\<rparr>))"

section \<open>Entries\<close>

definition requireTurn :: "tj_entry \<Rightarrow> error option" where
  "requireTurn e = (case tfTurn (teFields e) of
       None \<Rightarrow> Some (Errorf ''trajectory entry %q kind %q requires a non-negative turn'')
     | Some n \<Rightarrow> reject_if (n < 0) (Errorf ''trajectory entry %q kind %q requires a non-negative turn''))"

definition ValidateTrajectoryEntryFields :: "tj_entry \<Rightarrow> error option" where
  "ValidateTrajectoryEntryFields e =
     (let f = teFields e; kind = teKind e in
      if kind = KindProviderRequest \<or> kind = KindProviderResponse then
        and_then (requireTurn e)
        (and_then (reject_if (TrimSpace (tfProvider f) = [])
           (Errorf ''trajectory entry %q kind %q requires a provider''))
        (and_then (reject_if (kind = KindProviderRequest \<and> TrimSpace (tfOperationKey f) = [])
           (Errorf ''trajectory entry %q kind %q requires operation_key''))
         (reject_if (kind = KindProviderResponse \<and> tfIsError f = None)
           (Errorf ''trajectory entry %q kind %q requires is_error''))))
      else if kind = KindToolCall \<or> kind = KindToolResult then
        and_then (requireTurn e)
        (and_then (reject_if (TrimSpace (tfToolName f) = [] \<or> TrimSpace (tfToolCallID f) = [])
           (Errorf ''trajectory entry %q kind %q requires tool_name and tool_call_id''))
        (and_then (reject_if (kind = KindToolCall \<and> TrimSpace (tfOperationKey f) = [])
           (Errorf ''trajectory entry %q kind %q requires operation_key''))
         (reject_if (kind = KindToolResult \<and> tfIsError f = None)
           (Errorf ''trajectory entry %q kind %q requires is_error''))))
      else if kind = KindDecision then requireTurn e
      else None)"

text \<open>
  One turn of the loop of \<open>PrepareTrajectoryEntries\<close>: the checks of an entry in the order
  of the source, then the fields that are filled in. \<open>prepared\<close> holds the entries of the
  same call that were prepared before.
\<close>

definition prepare_parent ::
  "bool \<Rightarrow> entry_lookup \<Rightarrow> tj_entry gomap \<Rightarrow> tj_entry \<Rightarrow> tj_entry option outcome" where
  "prepare_parent hasHistory lookup prepared entry =
     (if teParentID entry = [] then
        if (hasHistory \<or> length prepared \<noteq> 0) \<and> teKind entry \<noteq> KindRestore
        then Some (Inl (Errorf ''trajectory entry %q has no parent in a non-empty trajectory''))
        else Some (Inr None)
      else case map_of prepared (teParentID entry) of
        Some candidate \<Rightarrow> Some (Inr (Some candidate))
      | None \<Rightarrow>
          (case lookup (teParentID entry) of
             None \<Rightarrow> None
           | Some (Inl e) \<Rightarrow> Some (Inl e)
           | Some (Inr None) \<Rightarrow> Some (Inl (Errorf ''trajectory entry %q has unknown parent %q''))
           | Some (Inr (Some parent)) \<Rightarrow> Some (Inr (Some parent))))"

definition prepare_fields ::
  "gotime \<Rightarrow> string \<Rightarrow> u64 \<Rightarrow> tj_entry option \<Rightarrow> tj_entry \<Rightarrow> tj_entry result" where
  "prepare_fields wall trajectoryID nextOrdinal parent entry =
     check (reject_if (teTrajectoryID entry \<noteq> [] \<and> teTrajectoryID entry \<noteq> trajectoryID)
       (Errorf ''trajectory entry %q belongs to trajectory %q, not %q''))
     (let entry = entry\<lparr>teTrajectoryID := trajectoryID\<rparr> in
      check (reject_if (teOrdinal entry \<noteq> 0 \<and> teOrdinal entry \<noteq> nextOrdinal)
        (Errorf ''trajectory entry %q has ordinal %d, expected %d''))
      (let entry = entry\<lparr>teOrdinal := nextOrdinal\<rparr>;
           expectedDepth = (case parent of None \<Rightarrow> 1 | Some p \<Rightarrow> teDepth p + 1)
       in check (reject_if (teDepth entry \<noteq> 0 \<and> teDepth entry \<noteq> expectedDepth)
            (Errorf ''trajectory entry %q has depth %d, expected %d''))
          (let entry = entry\<lparr>teDepth := expectedDepth\<rparr>;
               entry = (if teTimestamp entry = 0 then entry\<lparr>teTimestamp := wall\<rparr> else entry);
               entry = (if tePayloadVersion entry = 0
                        then entry\<lparr>tePayloadVersion := TrajectoryPayloadVersion\<rparr> else entry)
           in check (reject_if (tePayloadVersion entry > TrajectoryPayloadVersion)
                (Wrapf ErrTrajectoryVersion
                  ''%w: entry %q payload version %d, maximum supported is %d''))
              (Inr entry))))"

definition prepare_entry ::
  "gotime \<Rightarrow> string \<Rightarrow> u64 \<Rightarrow> bool \<Rightarrow> entry_lookup \<Rightarrow> tj_entry gomap \<Rightarrow> tj_entry \<Rightarrow> tj_entry outcome" where
  "prepare_entry wall trajectoryID nextOrdinal hasHistory lookup prepared entry =
     (case and_then (ValidateResourceName ''trajectory entry'' (teID entry))
         (reject_if (map_of prepared (teID entry) \<noteq> None) (Errorf ''trajectory entry %q already exists'')) of
        Some e \<Rightarrow> Some (Inl e)
      | None \<Rightarrow>
          (case lookup (teID entry) of
             None \<Rightarrow> None
           | Some (Inl e) \<Rightarrow> Some (Inl e)
           | Some (Inr (Some duplicate)) \<Rightarrow> Some (Inl (Errorf ''trajectory entry %q already exists''))
           | Some (Inr None) \<Rightarrow>
               (case and_then (reject_if (\<not> kind_Valid (teKind entry))
                    (Errorf ''trajectory entry %q has unsupported kind %q''))
                  (and_then (ValidateTrajectoryEntryFields entry)
                   (reject_if (\<not> json_Valid (tePayload entry))
                     (Errorf ''trajectory entry %q payload is invalid JSON''))) of
                  Some e \<Rightarrow> Some (Inl e)
                | None \<Rightarrow>
                    (case prepare_parent hasHistory lookup prepared entry of
                       None \<Rightarrow> None
                     | Some (Inl e) \<Rightarrow> Some (Inl e)
                     | Some (Inr parent) \<Rightarrow>
                         Some (prepare_fields wall trajectoryID nextOrdinal parent entry)))))"

fun prepare_entries ::
  "(nat \<Rightarrow> gotime) \<Rightarrow> string \<Rightarrow> u64 \<Rightarrow> bool \<Rightarrow> entry_lookup \<Rightarrow> tj_entry gomap \<Rightarrow> tj_entry list \<Rightarrow>
   tj_entry list outcome" where
  "prepare_entries wall trajectoryID nextOrdinal hasHistory lookup prepared [] = Some (Inr [])"
| "prepare_entries wall trajectoryID nextOrdinal hasHistory lookup prepared (source # input) =
     (case prepare_entry (wall (length prepared)) trajectoryID (nextOrdinal + 1) hasHistory lookup prepared source of
        None \<Rightarrow> None
      | Some (Inl e) \<Rightarrow> Some (Inl e)
      | Some (Inr entry) \<Rightarrow>
          (case prepare_entries wall trajectoryID (nextOrdinal + 1) hasHistory lookup
               (AList.update (teID entry) entry prepared) input of
             None \<Rightarrow> None
           | Some (Inl e) \<Rightarrow> Some (Inl e)
           | Some (Inr entries) \<Rightarrow> Some (Inr (entry # entries))))"

text \<open>\<open>wall i\<close> is the clock when the \<open>i\<close>-th entry is prepared.\<close>

definition PrepareTrajectoryEntries ::
  "(nat \<Rightarrow> gotime) \<Rightarrow> string \<Rightarrow> u64 \<Rightarrow> bool \<Rightarrow> tj_entry list \<Rightarrow> entry_lookup \<Rightarrow> tj_entry list outcome" where
  "PrepareTrajectoryEntries wall trajectoryID nextOrdinal hasHistory input lookup =
     (if length input = 0 then Some (Inl (Errorf ''trajectory append contains no entries''))
      else prepare_entries wall trajectoryID nextOrdinal hasHistory lookup [] input)"

section \<open>Projections\<close>

definition TrajectoryMetadata :: "trajectory \<Rightarrow> int \<Rightarrow> int \<Rightarrow> tj_metadata" where
  "TrajectoryMetadata t entryCount ownedEntryCount =
     \<lparr>tmSchemaVersion = tjSchemaVersion t, tmID = tjID t, tmParentID = tjParentID t,
      tmParentEntryID = tjParentEntryID t, tmCreatedAt = tjCreatedAt t, tmUpdatedAt = tjUpdatedAt t,
      tmHead = tjHead t, tmCheckpoint = tjCheckpoint t, tmExecution = tjExecution t,
      tmEnvironment = tjEnvironment t, tmEntryCount = entryCount, tmOwnedEntryCount = ownedEntryCount\<rparr>"

definition SummarizeTrajectory :: "trajectory \<Rightarrow> int \<Rightarrow> int \<Rightarrow> tj_summary" where
  "SummarizeTrajectory t entryCount ownedEntryCount =
     (let summary = \<lparr>tuSchemaVersion = tjSchemaVersion t, tuID = tjID t, tuParentID = tjParentID t,
        tuParentEntryID = tjParentEntryID t, tuCreatedAt = tjCreatedAt t, tuUpdatedAt = tjUpdatedAt t,
        tuHead = tjHead t, tuCheckpoint = tjCheckpoint t, tuExecutionID = [],
        tuExecutionState = TrajectoryExecutionStateOther [], tuEntryCount = entryCount,
        tuOwnedEntryCount = ownedEntryCount\<rparr>
      in case tjExecution t of
           None \<Rightarrow> summary
         | Some x \<Rightarrow> summary\<lparr>tuExecutionID := txID x, tuExecutionState := txState x\<rparr>)"

definition ProjectTrajectoryBranch :: "tj_metadata \<Rightarrow> string \<Rightarrow> tj_entry list \<Rightarrow> trajectory" where
  "ProjectTrajectoryBranch metadata head branch =
     \<lparr>tjSchemaVersion = tmSchemaVersion metadata, tjID = tmID metadata, tjParentID = tmParentID metadata,
      tjParentEntryID = tmParentEntryID metadata, tjCreatedAt = tmCreatedAt metadata,
      tjUpdatedAt = tmUpdatedAt metadata, tjHead = head,
      tjCheckpoint = (case FindLatestInBranch branch KindCheckpoint of
          Some checkpoint \<Rightarrow> teID checkpoint | None \<Rightarrow> []),
      tjExecution = tmExecution metadata, tjEnvironment = tmEnvironment metadata, tjEntries = branch\<rparr>"

section \<open>Branches\<close>

definition branchCycleError :: "string \<Rightarrow> error" where
  "branchCycleError trajectoryID =
     (if trajectoryID = [] then Errorf ''trajectory contains a cycle at %q''
      else Errorf ''trajectory %q contains a cycle at %q'')"

definition branchUnknownEntryError :: "string \<Rightarrow> error" where
  "branchUnknownEntryError trajectoryID =
     (if trajectoryID = [] then Errorf ''trajectory branch references unknown entry %q''
      else Errorf ''trajectory %q branch references unknown entry %q'')"

text \<open>
  \<open>walkBranch\<close>: the variables that the visitor captures are the accumulator; the visitor
  also says whether to keep going. None of the visitors in the code returns an error.
\<close>

fun walkBranch ::
  "nat \<Rightarrow> string \<Rightarrow> entry_lookup \<Rightarrow> (string \<Rightarrow> tj_entry \<Rightarrow> 'a \<Rightarrow> 'a \<times> bool) \<Rightarrow> string list \<Rightarrow> string \<Rightarrow> 'a \<Rightarrow>
   'a outcome" where
  "walkBranch n trajectoryID lookup visit seen cursor acc =
     (if cursor = [] then Some (Inr acc)
      else case n of 0 \<Rightarrow> None | Suc n \<Rightarrow>
        if cursor \<in> set seen then Some (Inl (branchCycleError trajectoryID))
        else case lookup cursor of
          None \<Rightarrow> None
        | Some (Inl e) \<Rightarrow> Some (Inl e)
        | Some (Inr None) \<Rightarrow> Some (Inl (branchUnknownEntryError trajectoryID))
        | Some (Inr (Some entry)) \<Rightarrow>
            (case visit cursor entry acc of
               (acc, keepGoing) \<Rightarrow>
                 if keepGoing
                 then walkBranch n trajectoryID lookup visit (cursor # seen) (teParentID entry) acc
                 else Some (Inr acc)))"

declare walkBranch.simps [simp del]

definition FindEntryOnBranch ::
  "nat \<Rightarrow> string \<Rightarrow> string \<Rightarrow> string \<Rightarrow> entry_lookup \<Rightarrow> tj_entry option outcome" where
  "FindEntryOnBranch n trajectoryID head entryID lookup =
     walkBranch n trajectoryID lookup
       (\<lambda>cursor entry result. if cursor = entryID then (Some entry, False) else (result, True))
       [] head None"

definition ResolveBranch :: "nat \<Rightarrow> string \<Rightarrow> string \<Rightarrow> entry_lookup \<Rightarrow> tj_entry list outcome" where
  "ResolveBranch n trajectoryID head lookup =
     walkBranch n trajectoryID lookup (\<lambda>cursor entry result. (entry # result, True)) [] head []"

definition LatestEntry :: "nat \<Rightarrow> string \<Rightarrow> TrajectoryKind \<Rightarrow> entry_lookup \<Rightarrow> tj_entry option outcome" where
  "LatestEntry n head kind lookup =
     walkBranch n [] lookup
       (\<lambda>cursor entry result. if teKind entry = kind then (Some entry, False) else (result, True))
       [] head None"

fun latest_checkpoint_loop ::
  "nat \<Rightarrow> nat \<Rightarrow> string \<Rightarrow> string \<Rightarrow> tj_entry gomap \<Rightarrow> entry_lookup \<Rightarrow> string list \<Rightarrow> string \<Rightarrow> string outcome" where
  "latest_checkpoint_loop n m currentHead currentCheckpoint prepared lookup seen cursor =
     (if cursor = [] then Some (Inr [])
      else case m of 0 \<Rightarrow> None | Suc m \<Rightarrow>
        if cursor \<in> set seen then Some (Inl (Errorf ''trajectory contains a cycle at %q''))
        else case map_of prepared cursor of
          None \<Rightarrow>
            if cursor = currentHead then Some (Inr currentCheckpoint)
            else (case LatestEntry n cursor KindCheckpoint lookup of
                    None \<Rightarrow> None
                  | Some (Inl e) \<Rightarrow> Some (Inl e)
                  | Some (Inr None) \<Rightarrow> Some (Inr [])
                  | Some (Inr (Some checkpoint)) \<Rightarrow> Some (Inr (teID checkpoint)))
        | Some entry \<Rightarrow>
            if teKind entry = KindCheckpoint then Some (Inr (teID entry))
            else latest_checkpoint_loop n m currentHead currentCheckpoint prepared lookup
                   (cursor # seen) (teParentID entry))"

declare latest_checkpoint_loop.simps [simp del]

text \<open>The loop leaves the prepared entries after at most one step for each of them.\<close>

definition LatestCheckpointAfterAppend ::
  "nat \<Rightarrow> string \<Rightarrow> string \<Rightarrow> string \<Rightarrow> tj_entry gomap \<Rightarrow> entry_lookup \<Rightarrow> string outcome" where
  "LatestCheckpointAfterAppend n currentHead currentCheckpoint newHead prepared lookup =
     latest_checkpoint_loop n (Suc (length prepared)) currentHead currentCheckpoint prepared lookup [] newHead"

section \<open>Executions\<close>

definition ValidateTrajectoryExecution :: "tj_execution \<Rightarrow> error option" where
  "ValidateTrajectoryExecution x =
     and_then (ValidateResourceName ''trajectory execution'' (txID x))
     (and_then (reject_if (txRevision x = 0) (Errorf ''trajectory execution %q revision must be positive''))
     (and_then (ValidateResourceName ''trajectory execution input entry'' (txInputEntryID x))
     (and_then (reject_if (txMaxTurns x < 1) (Errorf ''trajectory execution %q max_turns must be positive''))
     (and_then (reject_if (txCreatedAt x = 0 \<or> txUpdatedAt x = 0)
        (Errorf ''trajectory execution %q timestamps are required''))
     (case txState x of
        TrajectoryExecutionPending \<Rightarrow>
          reject_if (txOwner x \<noteq> [] \<or> txLeaseToken x \<noteq> [] \<or> txLeaseExpiresAt x \<noteq> 0)
            (Errorf ''pending trajectory execution %q contains a lease'')
      | TrajectoryExecutionRunning \<Rightarrow>
          reject_if (TrimSpace (txOwner x) = [] \<or> txLeaseToken x = [] \<or> txLeaseExpiresAt x = 0)
            (Errorf ''running trajectory execution %q has an invalid lease'')
      | TrajectoryExecutionStateOther st \<Rightarrow>
          Some (Errorf ''trajectory execution %q has invalid state %q'')
      | _ \<Rightarrow>
          and_then (reject_if (txOwner x \<noteq> [] \<or> txLeaseToken x \<noteq> [] \<or> txLeaseExpiresAt x \<noteq> 0)
            (Errorf ''terminal trajectory execution %q contains a lease''))
          (reject_if (txState x = TrajectoryExecutionSucceeded \<and> txLastError x \<noteq> [])
            (Errorf ''succeeded trajectory execution %q contains an error'')))))))"

definition PrepareTrajectoryExecutionStart ::
  "tj_start \<Rightarrow> string \<Rightarrow> string \<Rightarrow> gotime \<Rightarrow> tj_execution result" where
  "PrepareTrajectoryExecutionStart start baseHead inputEntryID now =
     check (ValidateResourceName ''trajectory execution'' (stID start))
     (check (reject_if (stMaxTurns start < 1) (Errorf ''trajectory execution max_turns must be positive''))
     (let x = \<lparr>txID = stID start, txState = TrajectoryExecutionPending, txRevision = 1,
        txBaseHead = baseHead, txInputEntryID = inputEntryID, txProvider = stProvider start,
        txSystem = stSystem start, txMaxTurns = stMaxTurns start, txOwner = [], txLeaseToken = [],
        txLeaseExpiresAt = 0, txLastError = [], txCreatedAt = now, txUpdatedAt = now\<rparr>
      in check (ValidateTrajectoryExecution x) (Inr x)))"

definition ClaimTrajectoryExecution ::
  "string \<Rightarrow> gotime \<Rightarrow> tj_execution \<Rightarrow> string \<Rightarrow> gotime \<Rightarrow> duration \<Rightarrow> tj_execution result" where
  "ClaimTrajectoryExecution newID wall x owner now ttl =
     check (reject_if (TrimSpace owner = []) (Errorf ''trajectory execution lease owner is empty''))
     (check (reject_if (ttl \<le> 0) (Errorf ''trajectory execution lease TTL must be positive''))
     (check (reject_if (tx_Terminal x) (Wrapf ErrTrajectoryExecution ''%w: execution %s is terminal''))
     (check (reject_if (tx_RecoveryDelay wall x now > 0)
        (Wrapf ErrTrajectoryClaimed ''%w: execution %s is owned by %s until %s''))
     (let x = x\<lparr>txState := TrajectoryExecutionRunning, txRevision := txRevision x + 1, txOwner := owner,
                txLeaseToken := newID, txLeaseExpiresAt := now + ttl, txUpdatedAt := now\<rparr>
      in check (ValidateTrajectoryExecution x) (Inr x)))))"

definition RenewTrajectoryExecution ::
  "tj_execution \<Rightarrow> string \<Rightarrow> string \<Rightarrow> gotime \<Rightarrow> duration \<Rightarrow> tj_execution result" where
  "RenewTrajectoryExecution x executionID token now ttl =
     check (reject_if (ttl \<le> 0) (Errorf ''trajectory execution lease TTL must be positive''))
     (check (reject_if (txID x \<noteq> executionID \<or> txState x \<noteq> TrajectoryExecutionRunning \<or>
          txLeaseToken x \<noteq> token \<or> \<not> now < txLeaseExpiresAt x)
        (Wrapf ErrTrajectoryFence ''%w: execution %s token is stale or expired''))
     (let x = x\<lparr>txRevision := txRevision x + 1, txLeaseExpiresAt := now + ttl, txUpdatedAt := now\<rparr>
      in check (ValidateTrajectoryExecution x) (Inr x)))"

definition CommitTrajectoryExecution ::
  "tj_execution \<Rightarrow> tj_commit \<Rightarrow> gotime \<Rightarrow> tj_execution result" where
  "CommitTrajectoryExecution x commit now =
     check (reject_if (txID x \<noteq> tcExecutionID commit \<or> txState x \<noteq> TrajectoryExecutionRunning \<or>
          txLeaseToken x \<noteq> tcLeaseToken commit \<or> \<not> now < txLeaseExpiresAt x)
        (Wrapf ErrTrajectoryFence ''%w: execution %s token is stale or expired''))
     (let x = x\<lparr>txRevision := txRevision x + 1, txUpdatedAt := now\<rparr> in
      if tcState commit = TrajectoryExecutionStateOther [] \<or> tcState commit = TrajectoryExecutionRunning
      then check (ValidateTrajectoryExecution x) (Inr x)
      else check (case tcState commit of
             TrajectoryExecutionStateOther st \<Rightarrow>
               Some (Errorf ''trajectory execution cannot commit state %q'')
           | _ \<Rightarrow> None)
        (let x = x\<lparr>txState := tcState commit, txOwner := [], txLeaseToken := [], txLeaseExpiresAt := 0\<rparr>;
             x = (if tx_Terminal x then x\<lparr>txSystem := []\<rparr> else x);
             x = x\<lparr>txLastError := tcError commit\<rparr>;
             x = (if txState x = TrajectoryExecutionSucceeded then x\<lparr>txLastError := []\<rparr> else x)
         in check (ValidateTrajectoryExecution x) (Inr x)))"

definition CancelTrajectoryExecution ::
  "tj_execution \<Rightarrow> string \<Rightarrow> string \<Rightarrow> gotime \<Rightarrow> (tj_execution \<times> bool) result" where
  "CancelTrajectoryExecution x executionID reason now =
     check (reject_if (executionID = []) (Errorf ''trajectory execution cancellation has no execution ID''))
     (check (reject_if (txID x \<noteq> executionID)
        (Wrapf ErrTrajectoryFence ''%w: execution %s is no longer current''))
     (if txState x = TrajectoryExecutionCancelled then Inr (x, False)
      else check (reject_if (tx_Terminal x) (Wrapf ErrTrajectoryExecution ''%w: execution %s is already %s''))
       (let x = x\<lparr>txState := TrajectoryExecutionCancelled, txRevision := txRevision x + 1, txOwner := [],
                  txLeaseToken := [], txLeaseExpiresAt := 0, txLastError := reason, txUpdatedAt := now\<rparr>
        in check (ValidateTrajectoryExecution x) (Inr (x, True)))))"

definition BindTrajectoryExecutionEntry :: "string \<Rightarrow> tj_entry \<Rightarrow> tj_entry result" where
  "BindTrajectoryExecutionEntry executionID e =
     (if tfExecutionID (teFields e) = []
      then Inr (e\<lparr>teFields := (teFields e)\<lparr>tfExecutionID := executionID\<rparr>\<rparr>)
      else if tfExecutionID (teFields e) \<noteq> executionID
      then Inl (Errorf ''trajectory entry %q belongs to execution %q, not %q'')
      else Inr e)"

fun BindTrajectoryExecutionEntries :: "string \<Rightarrow> tj_entry list \<Rightarrow> tj_entry list result" where
  "BindTrajectoryExecutionEntries executionID [] = Inr []"
| "BindTrajectoryExecutionEntries executionID (e # es) =
     bind_result (BindTrajectoryExecutionEntry executionID e) (\<lambda>e.
     bind_result (BindTrajectoryExecutionEntries executionID es) (\<lambda>es. Inr (e # es)))"

definition tj_NormalizeMutationTime :: "gotime \<Rightarrow> gotime \<Rightarrow> gotime" where
  "tj_NormalizeMutationTime wall now = (if now = 0 then wall else now)"

fun kind_string :: "TrajectoryKind \<Rightarrow> string" where
  "kind_string KindUserMessage = ''user_message''"
| "kind_string KindAgentStart = ''agent_start''"
| "kind_string KindProviderRequest = ''provider_request''"
| "kind_string KindProviderResponse = ''provider_response''"
| "kind_string KindToolCall = ''tool_call''"
| "kind_string KindToolResult = ''tool_result''"
| "kind_string KindDecision = ''decision''"
| "kind_string KindCheckpoint = ''checkpoint''"
| "kind_string KindTerminal = ''terminal''"
| "kind_string KindRestore = ''restore''"
| "kind_string KindRollback = ''rollback''"
| "kind_string (KindOther s) = s"

definition ValidateTrajectoryKind :: "TrajectoryKind \<Rightarrow> error option" where
  "ValidateTrajectoryKind k =
     reject_if (\<not> kind_Valid k \<or> TrimSpace (kind_string k) = []) (Errorf ''unsupported trajectory kind %q'')"

section \<open>Loaded trajectories\<close>

text \<open>
  The loop of \<open>ValidateLoadedTrajectory\<close> over the entries: it also fills in what
  trajectories of the first schema version left out. \<open>known\<close> are the entries seen so far.
\<close>

definition load_entry ::
  "trajectory \<Rightarrow> nat \<Rightarrow> tj_entry gomap \<Rightarrow> tj_entry \<Rightarrow> tj_entry result" where
  "load_entry t index known entry =
     check (reject_if (\<not> kind_Valid (teKind entry)) (Errorf ''trajectory entry %q has unsupported kind %q''))
     (check (if tjSchemaVersion t \<ge> 2 then ValidateTrajectoryEntryFields entry else None)
     (check (reject_if (tePayloadVersion entry > TrajectoryPayloadVersion)
        (Wrapf ErrTrajectoryVersion ''%w: entry %q payload version %d, maximum supported is %d''))
     (if tjSchemaVersion t < 2
      then
        let entry = (if teTrajectoryID entry = [] then entry\<lparr>teTrajectoryID := tjID t\<rparr> else entry);
            entry = (if teOrdinal entry = 0 then entry\<lparr>teOrdinal := of_nat (index + 1)\<rparr> else entry);
            entry = (if teDepth entry = 0
                     then entry\<lparr>teDepth := (case map_of known (teParentID entry) of
                            Some parent \<Rightarrow> teDepth parent + 1 | None \<Rightarrow> 1)\<rparr>
                     else entry)
        in Inr entry
      else
        check (reject_if (teTrajectoryID entry \<noteq> tjID t)
          (Errorf ''trajectory entry %q belongs to trajectory %q, not %q''))
        (check (reject_if (teOrdinal entry \<noteq> of_nat (index + 1))
          (Errorf ''trajectory entry %q has ordinal %d, expected %d''))
        (check (reject_if (teDepth entry = 0) (Errorf ''trajectory entry %q has zero depth''))
         (Inr entry))))))"

fun load_entries ::
  "trajectory \<Rightarrow> nat \<Rightarrow> tj_entry gomap \<Rightarrow> tj_entry list \<Rightarrow> (tj_entry list \<times> tj_entry gomap) result" where
  "load_entries t index known [] = Inr ([], known)"
| "load_entries t index known (e # es) =
     bind_result (load_entry t index known e) (\<lambda>e.
     bind_result (load_entries t (Suc index) (AList.update (teID e) e known) es) (\<lambda>(es, known).
       Inr (e # es, known)))"

text \<open>The check returns the trajectory as it was normalised in place.\<close>

definition ValidateLoadedTrajectory :: "trajectory \<Rightarrow> trajectory result" where
  "ValidateLoadedTrajectory t =
     check (reject_if (tjSchemaVersion t > TrajectorySchemaVersion)
       (Wrapf ErrTrajectoryVersion ''%w: got %d, maximum supported is %d''))
     (let t = NormalizeTrajectory t in
      check (ValidateTrajectoryParent t)
      (check (case tjExecution t of None \<Rightarrow> None | Some x \<Rightarrow> ValidateTrajectoryExecution x)
      (bind_result (load_entries t 0 [] (tjEntries t)) (\<lambda>(es, known).
       check (case tjExecution t of
           None \<Rightarrow> None
         | Some x \<Rightarrow> reject_if (map_of known (txInputEntryID x) = None)
             (Errorf ''trajectory execution %q references unknown input entry %q''))
        (Inr (t\<lparr>tjEntries := es\<rparr>))))))"

section \<open>The execution as an aggregate\<close>

text \<open>
  The calls that change the execution of a trajectory, if it has one. \<open>TxBegin\<close> is
  \<open>BeginExecution\<close>, which replaces a finished execution.
\<close>

datatype tx_event =
    TxBegin tj_execution
  | TxClaim gotime gotime string string duration
  | TxRenew string string gotime duration
  | TxCommit tj_commit gotime
  | TxCancel string string gotime

definition no_execution :: error where
  "no_execution = Wrapf ErrTrajectoryExecution ''%w: trajectory %s has no execution''"

definition active :: "tj_execution option \<Rightarrow> bool" where
  "active x = (case x of None \<Rightarrow> False | Some x \<Rightarrow> \<not> tx_Terminal x)"

fun tx_apply :: "tx_event \<Rightarrow> tj_execution option \<Rightarrow> tj_execution option result" where
  "tx_apply (TxBegin new) x =
     (if active x \<or> txState new \<noteq> TrajectoryExecutionPending \<or> ValidateTrajectoryExecution new \<noteq> None
      then Inl (Wrapf ErrTrajectoryExecution ''%w: trajectory %s has active execution %s'')
      else Inr (Some new))"
| "tx_apply e None = Inl no_execution"
| "tx_apply (TxClaim wall now owner newID ttl) (Some x) =
     bind_result (ClaimTrajectoryExecution newID wall x owner now ttl) (\<lambda>x. Inr (Some x))"
| "tx_apply (TxRenew i token now ttl) (Some x) =
     bind_result (RenewTrajectoryExecution x i token now ttl) (\<lambda>x. Inr (Some x))"
| "tx_apply (TxCommit commit now) (Some x) =
     bind_result (CommitTrajectoryExecution x commit now) (\<lambda>x. Inr (Some x))"
| "tx_apply (TxCancel i reason now) (Some x) =
     bind_result (CancelTrajectoryExecution x i reason now) (\<lambda>(x, changed). Inr (Some x))"

fun tx_holder :: "tj_execution option \<Rightarrow> string option" where
  "tx_holder None = None"
| "tx_holder (Some x) = (if txState x = TrajectoryExecutionRunning then Some (txLeaseToken x) else None)"

fun tx_grants :: "tx_event \<Rightarrow> string option" where
  "tx_grants (TxClaim wall now owner newID ttl) = Some newID"
| "tx_grants _ = None"

fun tx_credential :: "tx_event \<Rightarrow> string option" where
  "tx_credential (TxRenew i token now ttl) = Some token"
| "tx_credential (TxCommit commit now) = Some (tcLeaseToken commit)"
| "tx_credential _ = None"

definition tx_expiry :: "tj_execution option \<Rightarrow> gotime" where
  "tx_expiry x = (case x of None \<Rightarrow> 0 | Some x \<Rightarrow> txLeaseExpiresAt x)"

fun tx_time :: "tx_event \<Rightarrow> gotime" where
  "tx_time (TxClaim wall now owner newID ttl) = (if now = 0 then wall else now)"
| "tx_time _ = 0"

lemma tx_Terminal_iff: "tx_Terminal x \<longleftrightarrow> txState x = TrajectoryExecutionSucceeded \<or>
    txState x = TrajectoryExecutionFailed \<or> txState x = TrajectoryExecutionCancelled"
  by (simp add: tx_Terminal_def split: TrajectoryExecutionState.split)

lemma ClaimTrajectoryExecution_Inr:
  "ClaimTrajectoryExecution newID wall x owner now ttl = Inr x' \<longleftrightarrow>
     TrimSpace owner \<noteq> [] \<and> 0 < ttl \<and> tx_RecoverableAt wall x now \<and>
     x' = x\<lparr>txState := TrajectoryExecutionRunning, txRevision := txRevision x + 1, txOwner := owner,
       txLeaseToken := newID, txLeaseExpiresAt := now + ttl, txUpdatedAt := now\<rparr> \<and>
     ValidateTrajectoryExecution x' = None"
  by (auto simp: ClaimTrajectoryExecution_def Let_def result_simps tx_RecoverableAt_def)

lemma RenewTrajectoryExecution_Inr:
  "RenewTrajectoryExecution x i token now ttl = Inr x' \<longleftrightarrow>
     0 < ttl \<and> txID x = i \<and> txState x = TrajectoryExecutionRunning \<and> txLeaseToken x = token \<and>
     now < txLeaseExpiresAt x \<and>
     x' = x\<lparr>txRevision := txRevision x + 1, txLeaseExpiresAt := now + ttl, txUpdatedAt := now\<rparr> \<and>
     ValidateTrajectoryExecution x' = None"
  by (auto simp: RenewTrajectoryExecution_def Let_def result_simps)

lemma CommitTrajectoryExecution_Inr:
  assumes "CommitTrajectoryExecution x commit now = Inr x'"
  shows "txID x = tcExecutionID commit" "txState x = TrajectoryExecutionRunning"
    "txLeaseToken x = tcLeaseToken commit" "now < txLeaseExpiresAt x"
    "ValidateTrajectoryExecution x' = None" "txRevision x' = txRevision x + 1"
    "txID x' = txID x" "txInputEntryID x' = txInputEntryID x"
    "txState x' = TrajectoryExecutionRunning \<and> txLeaseToken x' = txLeaseToken x \<or>
     txState x' \<noteq> TrajectoryExecutionRunning"
  using assms
  by (auto simp: CommitTrajectoryExecution_def Let_def result_simps split: if_splits
      TrajectoryExecutionState.splits)

lemma CancelTrajectoryExecution_Inr:
  "CancelTrajectoryExecution x i reason now = Inr (x', changed) \<longleftrightarrow>
     i \<noteq> [] \<and> txID x = i \<and>
     (if txState x = TrajectoryExecutionCancelled then x' = x \<and> \<not> changed
      else \<not> tx_Terminal x \<and> changed \<and> ValidateTrajectoryExecution x' = None \<and>
        x' = x\<lparr>txState := TrajectoryExecutionCancelled, txRevision := txRevision x + 1, txOwner := [],
           txLeaseToken := [], txLeaseExpiresAt := 0, txLastError := reason, txUpdatedAt := now\<rparr>)"
  by (auto simp: CancelTrajectoryExecution_def Let_def result_simps)

lemma tx_apply_Begin [simp]:
  "tx_apply (TxBegin new) x = Inr x' \<longleftrightarrow> \<not> active x \<and> x' = Some new \<and>
     txState new = TrajectoryExecutionPending \<and> ValidateTrajectoryExecution new = None"
  by auto

lemma tx_apply_Some:
  assumes "tx_apply e x = Inr x'" "\<forall>new. e \<noteq> TxBegin new"
  obtains y y' where "x = Some y" "x' = Some y'" "txID y' = txID y" "txInputEntryID y' = txInputEntryID y"
  using assms
  by (cases "(e, x)" rule: tx_apply.cases)
    (auto simp: result_simps ClaimTrajectoryExecution_Inr RenewTrajectoryExecution_Inr
      CancelTrajectoryExecution_Inr CommitTrajectoryExecution_Inr(7,8) split: if_splits)

interpretation tx_leases: leased_aggregate tx_apply tx_holder tx_grants tx_credential tx_expiry tx_time
proof
  fix e x x' t t'
  assume ok: "tx_apply e x = Inr x'"
  note inr = result_simps ClaimTrajectoryExecution_Inr RenewTrajectoryExecution_Inr CancelTrajectoryExecution_Inr
  show "tx_grants e = Some t \<Longrightarrow> tx_holder x' = Some t"
    using ok by (cases "(e, x)" rule: tx_apply.cases) (auto simp: inr)
  show "tx_grants e = None \<Longrightarrow> tx_holder x' = tx_holder x \<or> tx_holder x' = None"
    using ok CommitTrajectoryExecution_Inr(2,9)
    by (cases "(e, x)" rule: tx_apply.cases) (fastforce simp: inr split: if_splits)+
  show "tx_credential e = Some t \<Longrightarrow> tx_holder x = Some t"
    using ok CommitTrajectoryExecution_Inr(2,3)
    by (cases "(e, x)" rule: tx_apply.cases) (auto simp: inr)
  show "tx_grants e = Some t \<Longrightarrow> tx_holder x = Some t' \<Longrightarrow> tx_expiry x \<le> tx_time e"
    using ok
    by (cases "(e, x)" rule: tx_apply.cases)
      (auto simp: inr tx_expiry_def tx_RecoverableAt_def tx_RecoveryDelay_def Let_def split: if_splits)
qed

lemma tx_apply_valid:
  assumes "tx_apply e x = Inr x'" "\<forall>y. x = Some y \<longrightarrow> ValidateTrajectoryExecution y = None"
  shows "\<forall>y. x' = Some y \<longrightarrow> ValidateTrajectoryExecution y = None"
  using assms CommitTrajectoryExecution_Inr(5)
  by (cases "(e, x)" rule: tx_apply.cases)
    (auto simp: result_simps ClaimTrajectoryExecution_Inr RenewTrajectoryExecution_Inr
      CancelTrajectoryExecution_Inr split: if_splits)

end
