(* ===== verification/Trajectory_Branches.thy ===== *)
theory Trajectory_Branches
  imports Trajectory_Model
begin

text \<open>
  Branches as mathematical objects. A lookup map \<open>L\<close> is what a trajectory sees; \<open>chain
  L h es\<close> says that following the parent links from \<open>h\<close> yields the entries \<open>es\<close>, the
  head first. A map is \<open>graded\<close> when every entry is filed under its ID and lies one
  deeper than its parent, which the map contains; then every entry has a chain, as long as
  its depth. The walks of the code are shown to compute list functions on the chain.
\<close>

section \<open>Chains\<close>

fun chain :: "(string \<rightharpoonup> tj_entry) \<Rightarrow> string \<Rightarrow> tj_entry list \<Rightarrow> bool" where
  "chain L h [] \<longleftrightarrow> h = []"
| "chain L h (e # es) \<longleftrightarrow> h \<noteq> [] \<and> L h = Some e \<and> chain L (teParentID e) es"

definition linked :: "(string \<rightharpoonup> tj_entry) \<Rightarrow> tj_entry \<Rightarrow> bool" where
  "linked L e \<longleftrightarrow> (if teParentID e = [] then teDepth e = 1
     else \<exists>p. L (teParentID e) = Some p \<and> unat (teDepth e) = Suc (unat (teDepth p)))"

definition graded :: "(string \<rightharpoonup> tj_entry) \<Rightarrow> bool" where
  "graded L \<longleftrightarrow> (\<forall>x e. L x = Some e \<longrightarrow> teID e = x \<and> x \<noteq> [] \<and> linked L e)"

lemma gradedD:
  assumes "graded L" "L x = Some e"
  shows "teID e = x" "x \<noteq> []" "linked L e"
  using assms by (auto simp: graded_def)

lemma graded_empty [simp]: "graded (\<lambda>x. None)"
  by (simp add: graded_def)

lemma chain_unique: "chain L h es \<Longrightarrow> chain L h es' \<Longrightarrow> es = es'"
proof (induction es arbitrary: h es')
  case Nil
  then show ?case by (cases es') auto
next
  case (Cons e es)
  then show ?case by (cases es') auto
qed

lemma chain_mono: "chain L h es \<Longrightarrow> L \<subseteq>\<^sub>m L' \<Longrightarrow> chain L' h es"
  by (induction es arbitrary: h) (auto simp: map_le_def dom_def)

lemma chain_exists:
  assumes "graded L" "L x = Some e"
  shows "\<exists>es. chain L x es \<and> length es = unat (teDepth e)"
  using assms(2)
proof (induction "unat (teDepth e)" arbitrary: x e)
  case 0
  then have "linked L e" using gradedD(3) [OF assms(1)] by blast
  then show ?case using 0 by (auto simp: linked_def unat_eq_zero split: if_splits)
next
  case (Suc n)
  note e = gradedD [OF assms(1) Suc.prems]
  show ?case
  proof (cases "teParentID e = []")
    case True
    then have "chain L x [e]" "length [e] = unat (teDepth e)"
      using e Suc.prems by (auto simp: linked_def)
    then show ?thesis by blast
  next
    case False
    then obtain p where p: "L (teParentID e) = Some p" "unat (teDepth e) = Suc (unat (teDepth p))"
      using e(3) by (auto simp: linked_def)
    then obtain es where "chain L (teParentID e) es" "length es = unat (teDepth p)"
      using Suc.hyps by (metis Suc_inject)
    then have "chain L x (e # es)" "length (e # es) = unat (teDepth e)"
      using e(2) Suc.prems p(2) by auto
    then show ?thesis by blast
  qed
qed

lemma chain_length:
  assumes "graded L" "chain L x es" "L x = Some e"
  shows "length es = unat (teDepth e)"
  using chain_exists [OF assms(1,3)] chain_unique [OF assms(2)] by blast

lemma chain_mem:
  assumes "graded L" "chain L h es" "e \<in> set es"
  shows "L (teID e) = Some e"
  using assms(2,3) gradedD(1) [OF assms(1)] by (induction es arbitrary: h) auto

lemma chain_depths:
  assumes "graded L" "chain L h es"
  shows "sorted_wrt (\<lambda>a b. unat (teDepth b) < unat (teDepth a)) es"
  using assms(2)
proof (induction es arbitrary: h)
  case (Cons e es)
  have "unat (teDepth x) < unat (teDepth e)" if x: "x \<in> set es" for x
  proof -
    obtain us vs where es: "es = us @ x # vs" using x by (meson split_list)
    have "chain L (teID x) (x # vs)"
    proof -
      have "chain L h' (us @ x # vs) \<Longrightarrow> chain L (teID x) (x # vs)" for h'
        using gradedD(1) [OF assms(1)] by (induction us arbitrary: h') auto
      then show ?thesis using Cons.prems es by auto
    qed
    then have "length (x # vs) = unat (teDepth x)"
      by (rule chain_length [OF assms(1)]) (use chain_mem [OF assms(1) Cons.prems] x in simp)
    moreover have "length (e # es) = unat (teDepth e)"
      using chain_length [OF assms(1) Cons.prems] Cons.prems by simp
    ultimately show ?thesis using es by simp
  qed
  then show ?case using Cons.IH Cons.prems by auto
qed simp

lemma chain_distinct:
  assumes "graded L" "chain L h es"
  shows "distinct (map teID es)"
  using assms(2)
proof (induction es arbitrary: h)
  case (Cons e es)
  have "teID x \<noteq> teID e" if "x \<in> set es" for x
  proof
    assume "teID x = teID e"
    then have "x = e" using chain_mem [OF assms(1) Cons.prems] that by (metis list.set_intros option.inject)
    then show False using chain_depths [OF assms(1) Cons.prems] that by auto
  qed
  then show ?case using Cons by force
qed simp

lemma chain_finite:
  assumes "graded L" "chain L h es" "dom L \<subseteq> set ids"
  shows "length es \<le> length ids"
proof -
  have "set (map teID es) \<subseteq> set ids"
    using chain_mem [OF assms(1,2)] assms(3) by auto
  then show ?thesis
    using chain_distinct [OF assms(1,2)] by (metis card_length card_mono distinct_card finite_set
        length_map order_trans)
qed

lemma chain_closed:
  assumes "graded L" "L \<subseteq>\<^sub>m L'" "chain L' h es" "h = [] \<or> L h \<noteq> None"
  shows "chain L h es"
proof (cases "h = []")
  case True
  then show ?thesis using assms(3) by (cases es) auto
next
  case False
  then obtain es' where "chain L h es'" using chain_exists [OF assms(1)] assms(4) by auto
  then show ?thesis using chain_unique [OF chain_mono [OF _ assms(2)]] assms(3) by metis
qed

lemma graded_chain_exists: "graded L \<Longrightarrow> h = [] \<or> L h \<noteq> None \<Longrightarrow> \<exists>es. chain L h es"
  using chain_exists [of L h] chain.simps(1) by blast

section \<open>Growing a map\<close>

lemma linked_mono: "linked L e \<Longrightarrow> L \<subseteq>\<^sub>m L' \<Longrightarrow> linked L' e"
  by (auto simp: linked_def map_le_def dom_def split: if_splits)

lemma graded_add:
  assumes "graded L" "L (teID e) = None" "teID e \<noteq> []" "linked L e"
  shows "graded (L(teID e \<mapsto> e))"
proof -
  have le: "L \<subseteq>\<^sub>m L(teID e \<mapsto> e)" using assms(2) by (auto simp: map_le_def)
  show ?thesis
    unfolding graded_def
    using assms(3) linked_mono [OF _ le] assms(4) gradedD [OF assms(1)] by (auto split: if_splits)
qed

text \<open>What a fork inherits: the chain of its fork point.\<close>

definition inherited :: "tj_entry list \<Rightarrow> (string \<rightharpoonup> tj_entry)" where
  "inherited es x = find (\<lambda>e. teID e = x) es"

lemma inherited_Some:
  assumes "graded L" "chain L h es"
  shows "inherited es x = Some e \<longleftrightarrow> e \<in> set es \<and> teID e = x"
proof -
  have "find (\<lambda>e. teID e = x) es = Some e \<longleftrightarrow> e \<in> set es \<and> teID e = x"
    using chain_distinct [OF assms] by (induction es) (auto simp: rev_image_eqI)
  then show ?thesis by (simp add: inherited_def)
qed

lemma inherited_le: "graded L \<Longrightarrow> chain L h es \<Longrightarrow> inherited es \<subseteq>\<^sub>m L"
  using inherited_Some [of L h es] chain_mem by (fastforce simp: map_le_def dom_def)

lemma graded_inherited:
  assumes "graded L" "chain L h es"
  shows "graded (inherited es)"
  unfolding graded_def
proof (intro allI impI)
  fix x e
  assume "inherited es x = Some e"
  then have e: "e \<in> set es" "teID e = x" using inherited_Some [OF assms] by auto
  have L: "L x = Some e" using chain_mem [OF assms] e by blast
  have "inherited es (teParentID e) = L (teParentID e)" if p: "teParentID e \<noteq> []"
  proof -
    obtain us vs where es: "es = us @ e # vs" using e(1) by (meson split_list)
    have "chain L h' (us @ e # vs) \<Longrightarrow> chain L (teParentID e) vs" for h'
      by (induction us arbitrary: h') auto
    then have "chain L (teParentID e) vs" using assms(2) es by blast
    then obtain p' vs' where vs: "vs = p' # vs'" "L (teParentID e) = Some p'" using p by (cases vs) auto
    then have "inherited es (teParentID e) = Some p'"
      using inherited_Some [OF assms] es gradedD(1) [OF assms(1)] by auto
    then show ?thesis using vs by simp
  qed
  then show "teID e = x \<and> x \<noteq> [] \<and> linked (inherited es) e"
    using gradedD [OF assms(1) L] by (auto simp: linked_def)
qed

section \<open>The walks of the code\<close>

text \<open>A lookup that answers every question from a map.\<close>

definition answers :: "entry_lookup \<Rightarrow> (string \<rightharpoonup> tj_entry) \<Rightarrow> bool" where
  "answers lookup L \<longleftrightarrow> (\<forall>x. lookup x = Some (Inr (L x)))"

fun walk :: "(string \<Rightarrow> tj_entry \<Rightarrow> 'a \<Rightarrow> 'a \<times> bool) \<Rightarrow> tj_entry list \<Rightarrow> 'a \<Rightarrow> 'a" where
  "walk visit [] acc = acc"
| "walk visit (e # es) acc = (case visit (teID e) e acc of (acc, go) \<Rightarrow> if go then walk visit es acc else acc)"

lemma walkBranch_chain:
  assumes "answers lookup L" "graded L" "chain L h es"
    and "length es \<le> n" "set seen \<inter> teID ` set es = {}"
  shows "walkBranch n i lookup visit seen h acc = Some (Inr (walk visit es acc))"
  using assms(3-5)
proof (induction es arbitrary: n h seen acc)
  case Nil
  then show ?case by (simp add: walkBranch.simps)
next
  case (Cons e es)
  then obtain m where m: "n = Suc m" "length es \<le> m" by (cases n) auto
  have e: "h \<noteq> []" "L h = Some e" "teID e = h" "chain L (teParentID e) es" "h \<notin> set seen"
    using Cons.prems gradedD(1) [OF assms(2)] by auto
  have "set (h # seen) \<inter> teID ` set es = {}"
    using Cons.prems(3) chain_distinct [OF assms(2) Cons.prems(1)] e(3) by auto
  then have "walkBranch m i lookup visit (h # seen) (teParentID e) acc' = Some (Inr (walk visit es acc'))" for acc'
    using Cons.IH [OF e(4) m(2)] by blast
  moreover have "lookup h = Some (Inr (Some e))" using assms(1) e(2) by (simp add: answers_def)
  ultimately show ?case
    using e m(1) by (simp add: walkBranch.simps [of "Suc m"] split: prod.split)
qed

lemma FindEntryOnBranch_chain:
  assumes "answers lookup L" "graded L" "chain L h es" "length es \<le> n"
  shows "FindEntryOnBranch n i h x lookup = Some (Inr (inherited es x))"
proof -
  have "walk (\<lambda>cursor entry result. if cursor = x then (Some entry, False) else (result, True)) es None =
      find (\<lambda>e. teID e = x) es"
    by (induction es) auto
  then show ?thesis
    unfolding FindEntryOnBranch_def inherited_def by (subst walkBranch_chain [OF assms]) simp_all
qed

lemma ResolveBranch_chain:
  assumes "answers lookup L" "graded L" "chain L h es" "length es \<le> n"
  shows "ResolveBranch n i h lookup = Some (Inr (rev es))"
proof -
  have "walk (\<lambda>cursor entry result. (entry # result, True)) es acc = rev es @ acc" for acc
    by (induction es arbitrary: acc) auto
  then show ?thesis
    unfolding ResolveBranch_def by (subst walkBranch_chain [OF assms]) simp_all
qed

lemma LatestEntry_chain:
  assumes "answers lookup L" "graded L" "chain L h es" "length es \<le> n"
  shows "LatestEntry n h k lookup = Some (Inr (find (\<lambda>e. teKind e = k) es))"
proof -
  have "walk (\<lambda>cursor entry result. if teKind entry = k then (Some entry, False) else (result, True)) es None =
      find (\<lambda>e. teKind e = k) es"
    by (induction es) auto
  then show ?thesis
    unfolding LatestEntry_def by (subst walkBranch_chain [OF assms]) simp_all
qed

lemma FindLatestInBranch_rev: "FindLatestInBranch (rev es) k = find (\<lambda>e. teKind e = k) es"
  by (simp add: FindLatestInBranch_def)

section \<open>The latest checkpoint\<close>

definition checkpoint_of :: "tj_entry list \<Rightarrow> string" where
  "checkpoint_of es = (case find (\<lambda>e. teKind e = KindCheckpoint) es of Some e \<Rightarrow> teID e | None \<Rightarrow> [])"

lemma checkpoint_of_Cons:
  "checkpoint_of (e # es) = (if teKind e = KindCheckpoint then teID e else checkpoint_of es)"
  by (simp add: checkpoint_of_def)

lemma latest_checkpoint_loop_chain:
  assumes L: "answers lookup L" "graded L" and L': "graded L'" "L \<subseteq>\<^sub>m L'"
    and P: "\<And>x. L' x = (case map_of prepared x of Some e \<Rightarrow> Some e | None \<Rightarrow> L x)"
    and head: "chain L currentHead es0" "currentCheckpoint = checkpoint_of es0"
    and "chain L' cursor es" "length es \<le> n" "set seen \<inter> teID ` set es = {}"
    and "length (filter (\<lambda>e. map_of prepared (teID e) \<noteq> None) es) < m"
  shows "latest_checkpoint_loop n m currentHead currentCheckpoint prepared lookup seen cursor =
    Some (Inr (checkpoint_of es))"
  using assms(8-11)
proof (induction es arbitrary: m cursor seen)
  case Nil
  then show ?case by (simp add: latest_checkpoint_loop.simps checkpoint_of_def)
next
  case (Cons e es)
  have e: "cursor \<noteq> []" "L' cursor = Some e" "teID e = cursor" "chain L' (teParentID e) es" "cursor \<notin> set seen"
    using Cons.prems gradedD(1) [OF L'(1)] by auto
  obtain k where m: "m = Suc k" using Cons.prems(4) by (cases m) auto
  show ?case
  proof (cases "map_of prepared cursor")
    case None
    then have "L cursor = Some e" using P e(2) by simp
    then have c: "chain L cursor (e # es)"
      using chain_closed [OF L(2) L'(2) Cons.prems(1)] by simp
    have "LatestEntry n cursor KindCheckpoint lookup =
        Some (Inr (find (\<lambda>e. teKind e = KindCheckpoint) (e # es)))"
      by (rule LatestEntry_chain [OF L c Cons.prems(2)])
    moreover have "es0 = e # es" if "cursor = currentHead"
      using chain_unique [OF head(1)] c that by blast
    ultimately show ?thesis
      using None e m head(2)
      by (simp add: latest_checkpoint_loop.simps [of n "Suc k"] checkpoint_of_def split: option.split)
  next
    case (Some e')
    then have e': "e' = e" using P e(2) by simp
    have "set (cursor # seen) \<inter> teID ` set es = {}"
      using Cons.prems(3) chain_distinct [OF L'(1) Cons.prems(1)] e(3) by auto
    moreover have "length (filter (\<lambda>e. map_of prepared (teID e) \<noteq> None) es) < k"
      using Cons.prems(4) Some e(3) m by simp
    ultimately have "latest_checkpoint_loop n k currentHead currentCheckpoint prepared lookup (cursor # seen)
        (teParentID e) = Some (Inr (checkpoint_of es))"
      using Cons.IH [OF e(4)] Cons.prems(2) by simp
    then show ?thesis
      using Some e e' m by (simp add: latest_checkpoint_loop.simps [of n "Suc k"] checkpoint_of_Cons)
  qed
qed

section \<open>Preparing entries\<close>

text \<open>What a prepared entry satisfies, beside its place in the log.\<close>

definition entry_ok :: "string \<Rightarrow> tj_entry \<Rightarrow> bool" where
  "entry_ok i e \<longleftrightarrow> resourceNamePattern (teID e) \<and> teTrajectoryID e = i \<and> kind_Valid (teKind e) \<and>
     ValidateTrajectoryEntryFields e = None \<and> json_Valid (tePayload e) \<and>
     tePayloadVersion e \<le> TrajectoryPayloadVersion \<and> tePayloadVersion e \<noteq> 0"

lemma ValidateTrajectoryEntryFields_cong:
  "teKind e' = teKind e \<Longrightarrow> teFields e' = teFields e \<Longrightarrow>
   ValidateTrajectoryEntryFields e' = ValidateTrajectoryEntryFields e"
  unfolding ValidateTrajectoryEntryFields_def requireTurn_def Let_def by simp

lemma prepare_fields_Inr:
  assumes "prepare_fields wall i ord parent e = Inr e'"
  shows "teID e' = teID e" "teParentID e' = teParentID e" "teKind e' = teKind e" "teFields e' = teFields e"
    "tePayload e' = tePayload e" "teTrajectoryID e' = i" "teOrdinal e' = ord"
    "teDepth e' = (case parent of None \<Rightarrow> 1 | Some p \<Rightarrow> teDepth p + 1)"
    "tePayloadVersion e' \<le> TrajectoryPayloadVersion" "tePayloadVersion e' \<noteq> 0"
  using assms
  by (auto simp: prepare_fields_def Let_def result_simps TrajectoryPayloadVersion_def not_less
      split: if_splits)

lemma prepare_parent_Inr:
  assumes "prepare_parent hist lookup prepared e = Some (Inr parent)" "answers lookup L"
    and "\<And>x. M x = (case map_of prepared x of Some e \<Rightarrow> Some e | None \<Rightarrow> L x)"
  shows "if teParentID e = [] then parent = None else parent \<noteq> None \<and> M (teParentID e) = parent"
proof (cases "teParentID e = []")
  case True
  then show ?thesis using assms(1) by (simp add: prepare_parent_def split: if_splits)
next
  case False
  then show ?thesis
    using assms by (cases "map_of prepared (teParentID e)"; cases "L (teParentID e)")
      (auto simp: prepare_parent_def answers_def)
qed

lemma prepare_entry_Inr:
  assumes "prepare_entry wall i ord hist lookup prepared e = Some (Inr e')" "answers lookup L"
    and M: "\<And>x. M x = (case map_of prepared x of Some e \<Rightarrow> Some e | None \<Rightarrow> L x)"
  shows "entry_ok i e'" "teID e' = teID e" "teParentID e' = teParentID e" "teOrdinal e' = ord" "M (teID e') = None"
    "teFields e' = teFields e"
    "if teParentID e' = [] then teDepth e' = 1
     else \<exists>p. M (teParentID e') = Some p \<and> teDepth e' = teDepth p + 1"
proof -
  obtain parent where p: "prepare_parent hist lookup prepared e = Some (Inr parent)"
    and f: "prepare_fields wall i ord parent e = Inr e'"
    and ok: "resourceNamePattern (teID e)" "map_of prepared (teID e) = None" "L (teID e) = None"
      "kind_Valid (teKind e)" "ValidateTrajectoryEntryFields e = None" "json_Valid (tePayload e)"
    using assms(1,2)
    by (auto simp: prepare_entry_def answers_def result_simps split: option.splits sum.splits)
  note e' = prepare_fields_Inr [OF f]
  show "entry_ok i e'"
    using ok e' ValidateTrajectoryEntryFields_cong [OF e'(3,4)] by (simp add: entry_ok_def)
  show "teID e' = teID e" "teParentID e' = teParentID e" "teOrdinal e' = ord" "teFields e' = teFields e"
    by (rule e')+
  show "M (teID e') = None" using ok(2,3) e'(1) M by simp
  show "if teParentID e' = [] then teDepth e' = 1
     else \<exists>p. M (teParentID e') = Some p \<and> teDepth e' = teDepth p + 1"
    using prepare_parent_Inr [OF p assms(2) M] e'(2,8) by (auto split: if_splits)
qed

lemma prepare_entry_total:
  "answers lookup L \<Longrightarrow> prepare_entry wall i ord hist lookup prepared e \<noteq> None"
  by (auto simp: prepare_entry_def prepare_parent_def answers_def split: option.splits sum.splits)

lemma prepare_entries_total:
  "answers lookup L \<Longrightarrow> prepare_entries wall i ord hist lookup prepared es \<noteq> None"
proof (induction es arbitrary: ord prepared)
  case (Cons e es)
  obtain r where r: "prepare_entry (wall (length prepared)) i (ord + 1) hist lookup prepared e = Some r"
    using prepare_entry_total [OF Cons.prems] by blast
  show ?case
  proof (cases r)
    case (Inr e1)
    obtain q where "prepare_entries wall i (ord + 1) hist lookup (AList.update (teID e1) e1 prepared) es = Some q"
      using Cons by fastforce
    then show ?thesis using r Inr by (cases q) auto
  qed (use r in simp)
qed simp

text \<open>The map after the entries are stored one by one.\<close>

definition stored :: "tj_entry list \<Rightarrow> (string \<rightharpoonup> tj_entry) \<Rightarrow> (string \<rightharpoonup> tj_entry)" where
  "stored es M = fold (\<lambda>e M. M(teID e \<mapsto> e)) es M"

lemma stored_simps [simp]: "stored [] M = M" "stored (e # es) M = stored es (M(teID e \<mapsto> e))"
  by (simp_all add: stored_def)

lemma stored_apply:
  "distinct (map teID es) \<Longrightarrow> stored es M x = (case find (\<lambda>e. teID e = x) es of Some e \<Rightarrow> Some e | None \<Rightarrow> M x)"
proof (induction es arbitrary: M)
  case (Cons e es)
  have "find (\<lambda>e. teID e = x) es = None" if "teID e = x"
    using Cons.prems that unfolding find_None_iff by (metis distinct.simps(2) image_eqI list.set_map list.simps(9))
  then show ?case using Cons by (auto split: option.split)
qed simp

lemma graded_depth_le:
  assumes "graded M" "M x = Some e" "dom M \<subseteq> set ids"
  shows "unat (teDepth e) \<le> length ids"
  using chain_exists [OF assms(1,2)] chain_finite [OF assms(1) _ assms(3)] by metis

lemma prepare_entries_Inr:
  assumes "prepare_entries wall i ord hist lookup prepared es = Some (Inr es')" "answers lookup L"
    and "\<And>x. M x = (case map_of prepared x of Some e \<Rightarrow> Some e | None \<Rightarrow> L x)"
    and "graded M" "dom M \<subseteq> set ids" "length ids + length es < 2 ^ 64"
  shows "graded (stored es' M) \<and> list_all (entry_ok i) es' \<and> map teID es' = map teID es \<and>
    map teFields es' = map teFields es \<and>
    distinct (map teID es') \<and> (\<forall>e\<in>set es'. M (teID e) = None) \<and>
    (\<forall>j<length es'. teOrdinal (es' ! j) = ord + of_nat (Suc j))"
  using assms(1,3-)
proof (induction es arbitrary: ord prepared es' M ids)
  case Nil
  then show ?case by simp
next
  case (Cons e es)
  from Cons.prems(1) obtain e1 es1 where e1: "prepare_entry (wall (length prepared)) i (ord + 1) hist lookup prepared e = Some (Inr e1)"
    and es1: "prepare_entries wall i (ord + 1) hist lookup (AList.update (teID e1) e1 prepared) es = Some (Inr es1)"
    and es': "es' = e1 # es1"
    by (auto split: option.splits sum.splits)
  note e = prepare_entry_Inr [OF e1 assms(2) Cons.prems(2)]
  let ?M = "M(teID e1 \<mapsto> e1)"
  have M': "?M x = (case map_of (AList.update (teID e1) e1 prepared) x of Some e \<Rightarrow> Some e | None \<Rightarrow> L x)" for x
    using Cons.prems(2) by simp
  have "linked M e1"
  proof (cases "teParentID e1 = []")
    case True
    then show ?thesis using e(7) by (simp add: linked_def)
  next
    case False
    then obtain p where p: "M (teParentID e1) = Some p" "teDepth e1 = teDepth p + 1" using e(7) by auto
    have "unat (teDepth p) + 1 < 2 ^ 64"
      using graded_depth_le [OF Cons.prems(3) p(1) Cons.prems(4)] Cons.prems(5) by simp
    then show ?thesis using p False u64_succ [of "teDepth p" 1] by (simp add: linked_def)
  qed
  then have g: "graded ?M"
    using graded_add [OF Cons.prems(3) e(5)] e(1) by (auto simp: entry_ok_def)
  have d: "dom ?M \<subseteq> set (teID e1 # ids)" using Cons.prems(4) by auto
  have room: "length (teID e1 # ids) + length es < 2 ^ 64" using Cons.prems(5) by simp
  have "graded (stored es1 ?M) \<and> list_all (entry_ok i) es1 \<and> map teID es1 = map teID es \<and>
    map teFields es1 = map teFields es \<and> distinct (map teID es1) \<and> (\<forall>e\<in>set es1. ?M (teID e) = None) \<and>
    (\<forall>j<length es1. teOrdinal (es1 ! j) = ord + 1 + of_nat (Suc j))"
    by (rule Cons.IH [OF es1 M' g d room])
  then have ih: "graded (stored es1 ?M)" "list_all (entry_ok i) es1" "map teID es1 = map teID es"
    "map teFields es1 = map teFields es" "distinct (map teID es1)" "\<forall>e\<in>set es1. ?M (teID e) = None"
    "\<forall>j<length es1. teOrdinal (es1 ! j) = ord + 1 + of_nat (Suc j)"
    by blast+
  have ord: "\<forall>j<length es'. teOrdinal (es' ! j) = ord + of_nat (Suc j)"
  proof (intro allI impI)
    fix j
    assume "j < length es'"
    then show "teOrdinal (es' ! j) = ord + of_nat (Suc j)"
      using ih(7) e(4) es' by (cases j) (auto simp: add.assoc)
  qed
  have "distinct (map teID es') \<and> (\<forall>x\<in>set es'. M (teID x) = None)"
    using ih(5,6) e(5) es' by (auto split: if_splits)
  then show ?case using ih(1-4) e(1,2,6) ord es' by simp
qed

end
