(* ===== verification/Stores.thy ===== *)
theory Stores
  imports Leases
begin

text \<open>
  What the stores share. A store serialises its calls under a lock, so an interleaving of
  clients is a list of calls, run with \<open>run_calls\<close>. The locale \<open>aggregate_store\<close> says
  that a store keeps aggregates under keys and that a call applies at most one event to
  one of them; its lemma projects a run of the store to a run of events on one aggregate,
  so that what \<open>Leases\<close> shows of aggregates holds of the store.
\<close>

fun run_calls :: "('c \<Rightarrow> 's \<Rightarrow> 's) \<Rightarrow> 'c list \<Rightarrow> 's \<Rightarrow> 's" where
  "run_calls step [] s = s"
| "run_calls step (c # cs) s = run_calls step cs (step c s)"

lemma run_calls_append: "run_calls step (cs @ ds) s = run_calls step ds (run_calls step cs s)"
  by (induction cs arbitrary: s) auto

lemma run_calls_invariant:
  assumes "P s" "\<And>c s. c \<in> set cs \<Longrightarrow> P s \<Longrightarrow> P (step c s)"
  shows "P (run_calls step cs s)"
  using assms by (induction cs arbitrary: s) auto

text \<open>The events that a run of calls applies to the aggregate under a key.\<close>

fun events_at ::
  "('c \<Rightarrow> 's \<Rightarrow> (string \<times> 'e) option) \<Rightarrow> ('c \<Rightarrow> 's \<Rightarrow> 's) \<Rightarrow> string \<Rightarrow> 'c list \<Rightarrow> 's \<Rightarrow> 'e list" where
  "events_at event_of step k [] s = []"
| "events_at event_of step k (c # cs) s =
     (case event_of c s of None \<Rightarrow> [] | Some (k', e) \<Rightarrow> if k' = k then [e] else []) @
     events_at event_of step k cs (step c s)"

lemma run_events_append: "run_events f (es @ ds) r = run_events f ds (run_events f es r)"
  by (induction es arbitrary: r) (auto split: sum.splits)

lemma events_at_in:
  "e \<in> set (events_at event_of step k cs s) \<Longrightarrow> \<exists>c\<in>set cs. \<exists>s. event_of c s = Some (k, e)"
proof (induction cs arbitrary: s)
  case (Cons c cs)
  then show ?case by (fastforce split: option.splits if_splits)
qed simp

locale aggregate_store =
  fixes inv :: "'s \<Rightarrow> bool"
    and lookup :: "'s \<Rightarrow> string \<Rightarrow> 'r option"
    and step :: "'c \<Rightarrow> 's \<Rightarrow> 's"
    and apply_event :: "'e \<Rightarrow> 'r \<Rightarrow> 'r result"
    and event_of :: "'c \<Rightarrow> 's \<Rightarrow> (string \<times> 'e) option"
    and forgets :: "'c \<Rightarrow> bool"
  assumes inv_step: "inv s \<Longrightarrow> inv (step c s)"
    and targeted: "inv s \<Longrightarrow> event_of c s = Some (k, e) \<Longrightarrow> lookup s k = Some r \<Longrightarrow>
      lookup (step c s) k = Some (run_events apply_event [e] r)"
    and untouched: "inv s \<Longrightarrow> lookup s k = Some r \<Longrightarrow> \<not> forgets c \<Longrightarrow>
      (\<And>e. event_of c s \<noteq> Some (k, e)) \<Longrightarrow> lookup (step c s) k = Some r"
begin

lemma run_inv: "inv s \<Longrightarrow> inv (run_calls step cs s)"
  by (rule run_calls_invariant) (auto intro: inv_step)

lemma run_projects:
  assumes "inv s" "lookup s k = Some r" "list_all (\<lambda>c. \<not> forgets c) cs"
  shows "lookup (run_calls step cs s) k = Some (run_events apply_event (events_at event_of step k cs s) r)"
  using assms
proof (induction cs arbitrary: s r)
  case (Cons c cs)
  show ?case
  proof (cases "\<exists>e. event_of c s = Some (k, e)")
    case True
    then obtain e where e: "event_of c s = Some (k, e)" by blast
    then have "lookup (step c s) k = Some (run_events apply_event [e] r)"
      using Cons.prems targeted by blast
    then show ?thesis
      using Cons e inv_step by (cases "apply_event e r") auto
  next
    case False
    then have "lookup (step c s) k = Some r"
      using Cons.prems untouched by auto
    moreover have "events_at event_of step k (c # cs) s = events_at event_of step k cs (step c s)"
      using False by (auto split: option.splits)
    ultimately show ?thesis using Cons inv_step by simp
  qed
qed simp

end

section \<open>Pages\<close>

text \<open>\<open>pageWindow\<close> of \<open>sdk/storage/storage.go\<close> and the loop of a client that follows
  the cursor until it is empty.\<close>

record page_request =
  pgAfter :: string
  pgLimit :: int

definition DefaultPageSize :: int where "DefaultPageSize = 100"
definition MaxPageSize :: int where "MaxPageSize = 1000"

text \<open>The index after the first item with the given id: the \<open>for\<close> loop with its break.\<close>

fun cursor_index :: "('a \<Rightarrow> string) \<Rightarrow> string \<Rightarrow> nat \<Rightarrow> 'a list \<Rightarrow> nat option" where
  "cursor_index ident after i [] = None"
| "cursor_index ident after i (x # xs) =
     (if ident x = after then Some (Suc i) else cursor_index ident after (Suc i) xs)"

definition pageWindow ::
  "'a list \<Rightarrow> page_request \<Rightarrow> ('a \<Rightarrow> string) \<Rightarrow> ('a list \<times> string) result" where
  "pageWindow items request ident =
     (let limit = (if pgLimit request = 0 then DefaultPageSize else pgLimit request) in
      if limit < 0 then Inl (Errorf ''page limit cannot be negative'')
      else if limit > MaxPageSize then Inl (Errorf ''page limit %d exceeds maximum %d'')
      else
        let begin = (if pgAfter request \<noteq> [] then cursor_index ident (pgAfter request) 0 items
                     else Some 0)
        in case begin of
             None \<Rightarrow> Inl (Errorf ''pagination cursor %q was not found'')
           | Some i \<Rightarrow>
               let stop = min (i + nat limit) (length items);
                   page = take (stop - i) (drop i items);
                   cursor = (if stop < length items \<and> length page > 0
                             then ident (page ! (length page - 1)) else [])
               in Inr (page, cursor))"

fun follow_pages :: "nat \<Rightarrow> 'a list \<Rightarrow> int \<Rightarrow> string \<Rightarrow> ('a \<Rightarrow> string) \<Rightarrow> 'a list option" where
  "follow_pages 0 items limit after ident = None"
| "follow_pages (Suc n) items limit after ident =
     (case pageWindow items \<lparr>pgAfter = after, pgLimit = limit\<rparr> ident of
        Inl e \<Rightarrow> None
      | Inr (page, cursor) \<Rightarrow>
          if cursor = [] then Some page
          else map_option (\<lambda>rest. page @ rest) (follow_pages n items limit cursor ident))"

lemma cursor_index_nth:
  assumes "distinct (map ident xs)" "i < length xs"
  shows "cursor_index ident (ident (xs ! i)) j xs = Some (Suc (i + j))"
  using assms
proof (induction xs arbitrary: i j)
  case (Cons x xs)
  then show ?case by (cases i) (auto simp: image_iff dest: nth_mem)
qed simp

lemma pageWindow_from:
  assumes "limit \<in> {0..MaxPageSize}"
    and "after = [] \<and> i = 0 \<or> after \<noteq> [] \<and> cursor_index ident after 0 xs = Some i"
  shows "\<exists>n>0. pageWindow xs \<lparr>pgAfter = after, pgLimit = limit\<rparr> ident =
    Inr (take n (drop i xs),
      if i + n < length xs then ident (xs ! (i + n - 1)) else [])"
proof (intro exI conjI)
  define n where "n = nat (if limit = 0 then DefaultPageSize else limit)"
  show "0 < n" using assms(1) by (auto simp: n_def DefaultPageSize_def)
  have start: "(if after \<noteq> [] then cursor_index ident after 0 xs else Some 0) = Some i"
    using assms(2) by auto
  have stop: "take (min (i + n) (length xs) - i) (drop i xs) = take n (drop i xs)"
    by (simp add: min_def)
  have last: "take n (drop i xs) ! (length (take n (drop i xs)) - 1) = xs ! (i + n - 1)"
    if "i + n < length xs"
    using that \<open>0 < n\<close> by simp
  show "pageWindow xs \<lparr>pgAfter = after, pgLimit = limit\<rparr> ident =
    Inr (take n (drop i xs), if i + n < length xs then ident (xs ! (i + n - 1)) else [])"
    using assms(1) \<open>0 < n\<close> last
    unfolding pageWindow_def Let_def page_request.simps start option.case n_def [symmetric] stop
    by (auto simp: DefaultPageSize_def MaxPageSize_def)
qed

lemma follow_pages_from:
  assumes "distinct (map ident xs)" "[] \<notin> ident ` set xs" "limit \<in> {0..MaxPageSize}"
    and "after = [] \<and> i = 0 \<or> after \<noteq> [] \<and> cursor_index ident after 0 xs = Some i"
    and "length xs - i < fuel"
  shows "follow_pages fuel xs limit after ident = Some (drop i xs)"
  using assms(4,5)
proof (induction fuel arbitrary: after i)
  case (Suc fuel)
  obtain n where n: "0 < n" and page: "pageWindow xs \<lparr>pgAfter = after, pgLimit = limit\<rparr> ident =
      Inr (take n (drop i xs), if i + n < length xs then ident (xs ! (i + n - 1)) else [])"
    using pageWindow_from [OF assms(3) Suc.prems(1)] by blast
  show ?case
  proof (cases "i + n < length xs")
    case False
    then show ?thesis using page by simp
  next
    case True
    let ?c = "ident (xs ! (i + n - 1))"
    have c: "?c \<noteq> []" using assms(2) True by (metis imageI less_imp_diff_less nth_mem)
    moreover have "cursor_index ident ?c 0 xs = Some (i + n)"
      using cursor_index_nth [OF assms(1), of "i + n - 1" 0] True n by simp
    ultimately have "follow_pages fuel xs limit ?c ident = Some (drop (i + n) xs)"
      using Suc.prems(2) n True by (intro Suc.IH) auto
    moreover have "take n (drop i xs) @ drop (i + n) xs = drop i xs"
      by (metis add.commute append_take_drop_id drop_drop)
    ultimately show ?thesis
      using page True c by (simp del: drop_drop)
  qed
qed simp

lemma follow_pages_complete_list:
  assumes "distinct (map ident xs)" "[] \<notin> ident ` set xs" "limit \<in> {0..MaxPageSize}"
    and "length xs < fuel"
  shows "follow_pages fuel xs limit [] ident = Some xs"
  using follow_pages_from [OF assms(1-3), of "[]" 0] assms(4) by simp

text \<open>
  Following the cursor from the empty one enumerates a listing completely, in order
  and without repetition, for every permitted page size; one page request per item is
  enough. A negative or too large limit and an unknown cursor are rejected.
\<close>

theorem pageWindow_complete:
  assumes "distinct (map ident xs)" "[] \<notin> ident ` set xs" "limit \<in> {0..MaxPageSize}"
    and "length xs < fuel" "after \<noteq> []" "after \<notin> ident ` set xs" "bad \<notin> {0..MaxPageSize}"
  shows "follow_pages fuel xs limit [] ident = Some xs \<and>
    (\<exists>e. pageWindow xs \<lparr>pgAfter = after, pgLimit = limit\<rparr> ident = Inl e) \<and>
    (\<exists>e. pageWindow xs \<lparr>pgAfter = after', pgLimit = bad\<rparr> ident = Inl e)"
proof -
  have "cursor_index ident after i ys = None" if "after \<notin> ident ` set ys" for ys i
    using that by (induction ys arbitrary: i) auto
  then have "cursor_index ident after 0 xs = None" using assms(6) by simp
  then have "\<exists>e. pageWindow xs \<lparr>pgAfter = after, pgLimit = limit\<rparr> ident = Inl e"
    using assms(5) by (simp add: pageWindow_def Let_def)
  moreover have "\<exists>e. pageWindow xs \<lparr>pgAfter = after', pgLimit = bad\<rparr> ident = Inl e"
    using assms(7) by (auto simp: pageWindow_def Let_def MaxPageSize_def)
  ultimately show ?thesis using follow_pages_complete_list [OF assms(1-4)] by blast
qed

theorem pageWindow_complete_witness:
  "follow_pages 4 [''a'', ''b'', ''c''] 2 [] id = Some [''a'', ''b'', ''c''] \<and>
   (\<exists>e. pageWindow [''a'', ''b'', ''c''] \<lparr>pgAfter = ''d'', pgLimit = 2\<rparr> id = Inl e)"
  using pageWindow_complete [of id "[''a'', ''b'', ''c'']" 2 4 "''d''" "-1"]
  by (simp add: MaxPageSize_def)

end
