(* ===== verification/Trajectory_Store.thy ===== *)
theory Trajectory_Store
  imports Trajectory_Branches Stores
begin

text \<open>
  The in-memory trajectory store (\<open>sdk/storage/trajectory_memory.go\<close>, the memory part of
  \<open>trajectory_cancel.go\<close>, and \<open>trajectory_analysis.go\<close>). A trajectory keeps its own
  entries; what it inherits from the trajectory it was forked from is looked up there,
  recursively. The recursion takes at most one step per trajectory and a walk at most one
  step per entry of the store and one more, so the outcome \<open>None\<close> (out of steps) does not occur; see
  \<open>Trajectory_Invariants\<close>.
\<close>

section \<open>State\<close>

record mem_trajectory =
  mtTrajectory :: trajectory
  mtEntries :: "tj_entry gomap"
  mtOrder :: "string list"
  mtInheritedCount :: int

record tj_store =
  msTrajectories :: "mem_trajectory gomap"

definition newMemoryTrajectoryStore :: tj_store where
  "newMemoryTrajectoryStore = \<lparr>msTrajectories = []\<rparr>"

text \<open>The steps that lookups and walks get: one more than there are trajectories and entries.\<close>

definition fork_fuel :: "tj_store \<Rightarrow> nat" where
  "fork_fuel s = Suc (length (msTrajectories s))"

definition store_ids :: "tj_store \<Rightarrow> string list" where
  "store_ids s = concat (map (\<lambda>(i, t). map fst (mtEntries t)) (msTrajectories s))"

definition branch_fuel :: "tj_store \<Rightarrow> nat" where
  "branch_fuel s = Suc (length (store_ids s))"

definition trajectoryLocked :: "string \<Rightarrow> tj_store \<Rightarrow> mem_trajectory result" where
  "trajectoryLocked i s =
     check (ValidateResourceName ''trajectory'' i)
     (case map_of (msTrajectories s) i of
        None \<Rightarrow> Inl (Wrapf ErrTrajectoryNotFound ''%w: %s'')
      | Some t \<Rightarrow> Inr t)"

definition put_trajectory :: "string \<Rightarrow> mem_trajectory \<Rightarrow> tj_store \<Rightarrow> tj_store" where
  "put_trajectory i t s = s\<lparr>msTrajectories := AList.update i t (msTrajectories s)\<rparr>"

section \<open>Lookups\<close>

text \<open>Whether lookups of a trajectory continue in its parent.\<close>

definition inherits :: "mem_trajectory \<Rightarrow> bool" where
  "inherits t \<longleftrightarrow> \<not> (tjSchemaVersion (mtTrajectory t) < 2 \<or> tjParentID (mtTrajectory t) = [])"

fun entryLocked :: "nat \<Rightarrow> tj_store \<Rightarrow> string \<Rightarrow> string \<Rightarrow> tj_entry option outcome" where
  "entryLocked 0 s i x = None"
| "entryLocked (Suc n) s i x =
     (case trajectoryLocked i s of
        Inl e \<Rightarrow> Some (Inl e)
      | Inr t \<Rightarrow>
          (case map_of (mtEntries t) x of
             Some entry \<Rightarrow> Some (Inr (Some entry))
           | None \<Rightarrow>
               if \<not> inherits t then Some (Inr None)
               else FindEntryOnBranch (branch_fuel s) (tjParentID (mtTrajectory t))
                      (tjParentEntryID (mtTrajectory t)) x
                      (\<lambda>cursor. entryLocked n s (tjParentID (mtTrajectory t)) cursor)))"

definition lookupLocked :: "tj_store \<Rightarrow> string \<Rightarrow> string \<Rightarrow> tj_entry option outcome" where
  "lookupLocked s i x = entryLocked (fork_fuel s) s i x"

definition branchLocked :: "string \<Rightarrow> string \<Rightarrow> tj_store \<Rightarrow> tj_entry list outcome" where
  "branchLocked i head s =
     (case trajectoryLocked i s of
        Inl e \<Rightarrow> Some (Inl e)
      | Inr t \<Rightarrow> ResolveBranch (branch_fuel s) i head (lookupLocked s i))"

definition findLatestLocked ::
  "string \<Rightarrow> string \<Rightarrow> TrajectoryKind \<Rightarrow> tj_store \<Rightarrow> tj_entry option outcome" where
  "findLatestLocked i head kind s =
     (case trajectoryLocked i s of
        Inl e \<Rightarrow> Some (Inl e)
      | Inr t \<Rightarrow> LatestEntry (branch_fuel s) head kind (lookupLocked s i))"

text \<open>The own entries in order; the map has every ID of the order.\<close>

definition own_entries :: "mem_trajectory \<Rightarrow> tj_entry list" where
  "own_entries t = map (\<lambda>x. the (map_of (mtEntries t) x)) (mtOrder t)"

definition materializeLocked :: "string \<Rightarrow> tj_store \<Rightarrow> trajectory outcome" where
  "materializeLocked i s =
     (case trajectoryLocked i s of
        Inl e \<Rightarrow> Some (Inl e)
      | Inr t \<Rightarrow>
          let trajectory = mtTrajectory t in
          (case (if inherits t
                 then branchLocked (tjParentID trajectory) (tjParentEntryID trajectory) s
                 else Some (Inr [])) of
             None \<Rightarrow> None
           | Some (Inl e) \<Rightarrow> Some (Inl e)
           | Some (Inr branch) \<Rightarrow>
               Some (Inr (trajectory\<lparr>tjEntries := branch @ own_entries t\<rparr>))))"

section \<open>Mutations\<close>

definition lift_error :: "tj_store \<Rightarrow> error \<Rightarrow> (tj_store \<times> 'a result) option" where
  "lift_error s e = Some (s, Inl e)"

text \<open>
  A result of a walk: out of steps, an error that leaves the store as it is, or a value to
  go on with.
\<close>

definition with_outcome ::
  "'a outcome \<Rightarrow> tj_store \<Rightarrow> ('a \<Rightarrow> (tj_store \<times> 'b result) option) \<Rightarrow> (tj_store \<times> 'b result) option" where
  "with_outcome r s f = (case r of
       None \<Rightarrow> None
     | Some (Inl e) \<Rightarrow> lift_error s e
     | Some (Inr x) \<Rightarrow> f x)"

definition ts_Create :: "ctx \<Rightarrow> gotime \<Rightarrow> trajectory \<Rightarrow> tj_store \<Rightarrow> (tj_store \<times> unit result) option" where
  "ts_Create ctx wall t s =
     with_outcome (Some (check ctx (PrepareNewTrajectory wall t wall))) s (\<lambda>prepared.
     let t = ptTrajectory prepared in
     if map_of (msTrajectories s) (tjID t) \<noteq> None
     then lift_error s (Wrapf ErrTrajectoryExists ''%w: %s'')
     else with_outcome
       (if tjParentID t \<noteq> []
        then (case branchLocked (tjParentID t) (tjParentEntryID t) s of
                None \<Rightarrow> None
              | Some (Inl e) \<Rightarrow> Some (Inl (Nestf ''resolve trajectory %q fork point: %w'' e))
              | Some (Inr branch) \<Rightarrow> Some (PrepareNewTrajectoryFork prepared branch))
        else Some (Inr prepared)) s (\<lambda>prepared.
     let t = ptTrajectory prepared in
     Some (put_trajectory (tjID t)
       \<lparr>mtTrajectory = t, mtEntries = [], mtOrder = [],
        mtInheritedCount = int (unat (ptInheritedEntryCount prepared))\<rparr> s, Inr ())))"

text \<open>\<open>appendLocked\<close> returns the changed trajectory and its new head.\<close>

definition appendLocked ::
  "(nat \<Rightarrow> gotime) \<Rightarrow> mem_trajectory \<Rightarrow> string \<Rightarrow> string \<Rightarrow> tj_entry list \<Rightarrow> tj_store \<Rightarrow>
   (mem_trajectory \<times> string) outcome" where
  "appendLocked wall t i expectedHead entries s =
     (if tjHead (mtTrajectory t) \<noteq> expectedHead
      then Some (Inl (Wrapf ErrTrajectoryConflict ''%w: trajectory %s has head %q, expected %q''))
      else case PrepareTrajectoryEntries wall i (of_nat (length (mtOrder t))) (tjHead (mtTrajectory t) \<noteq> [])
             entries (lookupLocked s i) of
        None \<Rightarrow> None
      | Some (Inl e) \<Rightarrow> Some (Inl e)
      | Some (Inr prepared) \<Rightarrow>
          let preparedIndex = entry_index prepared;
              lastEntry = last prepared
          in (case LatestCheckpointAfterAppend (branch_fuel s + length prepared) (tjHead (mtTrajectory t))
                 (tjCheckpoint (mtTrajectory t)) (teID lastEntry) preparedIndex (lookupLocked s i) of
                None \<Rightarrow> None
              | Some (Inl e) \<Rightarrow> Some (Inl e)
              | Some (Inr checkpointID) \<Rightarrow>
                  Some (Inr (t\<lparr>mtEntries := fold (\<lambda>e m. AList.update (teID e) e m) prepared (mtEntries t),
                               mtOrder := mtOrder t @ map teID prepared,
                               mtTrajectory := (mtTrajectory t)\<lparr>tjHead := teID lastEntry,
                                 tjUpdatedAt := teTimestamp lastEntry, tjCheckpoint := checkpointID\<rparr>\<rparr>,
                             teID lastEntry))))"

definition active_execution :: "mem_trajectory \<Rightarrow> error option" where
  "active_execution t = reject_if (active (tjExecution (mtTrajectory t)))
     (Wrapf ErrTrajectoryExecution ''%w: trajectory %s has active execution %s'')"

definition ts_Append ::
  "ctx \<Rightarrow> (nat \<Rightarrow> gotime) \<Rightarrow> string \<Rightarrow> string \<Rightarrow> tj_entry list \<Rightarrow> tj_store \<Rightarrow> (tj_store \<times> string result) option" where
  "ts_Append ctx wall i expectedHead entries s =
     with_outcome (Some (check ctx (trajectoryLocked i s))) s (\<lambda>t.
     with_outcome (Some (check (active_execution t) (Inr ()))) s (\<lambda>_.
     with_outcome (appendLocked wall t i expectedHead entries s) s (\<lambda>(t, head).
     Some (put_trajectory i t s, Inr head))))"

definition stored_metadata :: "mem_trajectory \<Rightarrow> tj_metadata" where
  "stored_metadata t = TrajectoryMetadata (mtTrajectory t)
     (mtInheritedCount t + int (length (mtOrder t))) (int (length (mtOrder t)))"

definition set_execution :: "tj_execution \<Rightarrow> mem_trajectory \<Rightarrow> mem_trajectory" where
  "set_execution x t = t\<lparr>mtTrajectory := (mtTrajectory t)\<lparr>tjExecution := Some x\<rparr>\<rparr>"

definition set_updated :: "gotime \<Rightarrow> mem_trajectory \<Rightarrow> mem_trajectory" where
  "set_updated now t = t\<lparr>mtTrajectory := (mtTrajectory t)\<lparr>tjUpdatedAt := now\<rparr>\<rparr>"

definition ts_BeginExecution ::
  "ctx \<Rightarrow> gotime \<Rightarrow> (nat \<Rightarrow> gotime) \<Rightarrow> string \<Rightarrow> string \<Rightarrow> tj_start \<Rightarrow> tj_entry \<Rightarrow> tj_store \<Rightarrow>
   (tj_store \<times> tj_metadata result) option" where
  "ts_BeginExecution ctx now wall i expectedHead start input s =
     with_outcome (Some (check ctx
       (check (reject_if (teKind input \<noteq> KindUserMessage)
          (Errorf ''trajectory execution input must be a user_message entry''))
       (bind_result (PrepareTrajectoryExecutionStart start expectedHead (teID input) now) (\<lambda>x.
        bind_result (BindTrajectoryExecutionEntries (txID x) [input]) (\<lambda>bound.
        bind_result (trajectoryLocked i s) (\<lambda>t.
        check (active_execution t) (Inr (x, hd bound, t))))))))) s (\<lambda>(x, input, t).
     with_outcome (appendLocked wall t i expectedHead [input] s) s (\<lambda>(t, head).
     let t = set_execution x t in
     Some (put_trajectory i t s, Inr (stored_metadata t))))"

definition execution_of :: "mem_trajectory \<Rightarrow> tj_execution result" where
  "execution_of t = (case tjExecution (mtTrajectory t) of None \<Rightarrow> Inl no_execution | Some x \<Rightarrow> Inr x)"

definition ts_ClaimExecution ::
  "ctx \<Rightarrow> string \<Rightarrow> gotime \<Rightarrow> string \<Rightarrow> string \<Rightarrow> gotime \<Rightarrow> duration \<Rightarrow> tj_store \<Rightarrow>
   (tj_store \<times> tj_execution result) option" where
  "ts_ClaimExecution ctx newID wall i owner now ttl s =
     (let now = (if now = 0 then wall else now) in
      with_outcome (Some (check ctx
        (bind_result (trajectoryLocked i s) (\<lambda>t.
         bind_result (execution_of t) (\<lambda>x.
         bind_result (ClaimTrajectoryExecution newID wall x owner now ttl) (\<lambda>x. Inr (x, t))))))) s (\<lambda>(x, t).
      Some (put_trajectory i (set_updated now (set_execution x t)) s, Inr x)))"

definition ts_RenewExecution ::
  "ctx \<Rightarrow> gotime \<Rightarrow> string \<Rightarrow> string \<Rightarrow> string \<Rightarrow> gotime \<Rightarrow> duration \<Rightarrow> tj_store \<Rightarrow>
   (tj_store \<times> tj_execution result) option" where
  "ts_RenewExecution ctx wall i executionID token now ttl s =
     (let now = (if now = 0 then wall else now) in
      with_outcome (Some (check ctx
        (bind_result (trajectoryLocked i s) (\<lambda>t.
         bind_result (execution_of t) (\<lambda>x.
         bind_result (RenewTrajectoryExecution x executionID token now ttl) (\<lambda>x. Inr (x, t))))))) s (\<lambda>(x, t).
      Some (put_trajectory i (set_updated now (set_execution x t)) s, Inr x)))"

definition ts_CommitExecution ::
  "ctx \<Rightarrow> gotime \<Rightarrow> (nat \<Rightarrow> gotime) \<Rightarrow> tj_commit \<Rightarrow> tj_store \<Rightarrow> (tj_store \<times> tj_metadata result) option" where
  "ts_CommitExecution ctx now wall commit s =
     with_outcome (Some (check ctx
       (check (reject_if (tcTrajectoryID commit = []) (Errorf ''trajectory execution commit has no trajectory ID''))
       (check (reject_if (length (tcEntries commit) = 0 \<and> tcState commit = TrajectoryExecutionStateOther [])
          (Errorf ''trajectory execution commit has no mutation''))
       (bind_result (BindTrajectoryExecutionEntries (tcExecutionID commit) (tcEntries commit)) (\<lambda>entries.
        bind_result (trajectoryLocked (tcTrajectoryID commit) s) (\<lambda>t.
        check (reject_if (tjHead (mtTrajectory t) \<noteq> tcExpectedHead commit)
          (Wrapf ErrTrajectoryConflict ''%w: trajectory %s has head %q, expected %q''))
        (bind_result (execution_of t) (\<lambda>x.
         bind_result (CommitTrajectoryExecution x (commit\<lparr>tcEntries := entries\<rparr>) now) (\<lambda>x.
         Inr (x, entries, t))))))))))) s (\<lambda>(x, entries, t).
     with_outcome (if length entries > 0
         then (case appendLocked wall t (tcTrajectoryID commit) (tcExpectedHead commit) entries s of
                 None \<Rightarrow> None | Some (Inl e) \<Rightarrow> Some (Inl e) | Some (Inr (t, head)) \<Rightarrow> Some (Inr t))
         else Some (Inr t)) s (\<lambda>t.
     let t = set_updated now (set_execution x t) in
     Some (put_trajectory (tcTrajectoryID commit) t s, Inr (stored_metadata t))))"

definition ts_CancelExecution ::
  "ctx \<Rightarrow> gotime \<Rightarrow> (nat \<Rightarrow> gotime) \<Rightarrow> tj_cancel_commit \<Rightarrow> tj_store \<Rightarrow>
   (tj_store \<times> tj_cancel_result result) option" where
  "ts_CancelExecution ctx clock wall commit s =
     (let now = tj_NormalizeMutationTime clock (ccAt commit) in
      with_outcome (Some (check ctx
        (bind_result (BindTrajectoryExecutionEntries (ccExecutionID commit) (ccEntries commit)) (\<lambda>entries.
         bind_result (trajectoryLocked (ccTrajectoryID commit) s) (\<lambda>t.
         bind_result (execution_of t) (\<lambda>x.
         bind_result (CancelTrajectoryExecution x (ccExecutionID commit) (ccReason commit) now)
           (\<lambda>(x, changed). Inr (x, changed, entries, t)))))))) s (\<lambda>(x, changed, entries, t).
      if changed then
        with_outcome (if length entries > 0
            then (case appendLocked wall t (ccTrajectoryID commit) (ccExpectedHead commit) entries s of
                    None \<Rightarrow> None | Some (Inl e) \<Rightarrow> Some (Inl e) | Some (Inr (t, head)) \<Rightarrow> Some (Inr t))
            else Some (Inr t)) s (\<lambda>t.
        let t = set_updated now (set_execution x t) in
        Some (put_trajectory (ccTrajectoryID commit) t s,
          Inr \<lparr>crTrajectory = stored_metadata t, crChanged = True\<rparr>))
      else Some (s, Inr \<lparr>crTrajectory = stored_metadata t, crChanged = False\<rparr>)))"

definition ts_Delete :: "ctx \<Rightarrow> string \<Rightarrow> tj_store \<Rightarrow> tj_store \<times> unit result" where
  "ts_Delete ctx i s =
     (case check ctx (bind_result (trajectoryLocked i s) (\<lambda>target.
        check (reject_if (active (tjExecution (mtTrajectory target)))
          (Wrapf ErrTrajectoryExecution ''%w: trajectory %s execution %s is active''))
        (check (first_error (\<lambda>(j, t). reject_if (tjParentID (mtTrajectory t) = i)
            (Wrapf ErrTrajectoryReferenced ''%w: trajectory %s is parent of %s'')) (msTrajectories s))
         (Inr ())))) of
        Inl e \<Rightarrow> (s, Inl e)
      | Inr _ \<Rightarrow> (s\<lparr>msTrajectories := AList.delete i (msTrajectories s)\<rparr>, Inr ()))"

section \<open>Reads\<close>

definition ts_LoadMetadata :: "ctx \<Rightarrow> string \<Rightarrow> tj_store \<Rightarrow> tj_metadata result" where
  "ts_LoadMetadata ctx i s =
     check ctx (bind_result (trajectoryLocked i s) (\<lambda>t. Inr (stored_metadata t)))"

definition ts_LoadEntry :: "ctx \<Rightarrow> string \<Rightarrow> string \<Rightarrow> tj_store \<Rightarrow> tj_entry outcome" where
  "ts_LoadEntry ctx i x s =
     (case and_then ctx (ValidateResourceName ''trajectory entry'' x) of
        Some e \<Rightarrow> Some (Inl e)
      | None \<Rightarrow>
          (case lookupLocked s i x of
             None \<Rightarrow> None
           | Some (Inl e) \<Rightarrow> Some (Inl e)
           | Some (Inr None) \<Rightarrow> Some (Inl (Wrapf ErrTrajectoryEntryNotFound ''%w: trajectory %s entry %s''))
           | Some (Inr (Some entry)) \<Rightarrow> Some (Inr entry)))"

definition ts_LoadBranch :: "ctx \<Rightarrow> string \<Rightarrow> string \<Rightarrow> tj_store \<Rightarrow> tj_entry list outcome" where
  "ts_LoadBranch ctx i head s = (case ctx of Some e \<Rightarrow> Some (Inl e) | None \<Rightarrow> branchLocked i head s)"

definition ts_LoadBranchView :: "ctx \<Rightarrow> string \<Rightarrow> string \<Rightarrow> tj_store \<Rightarrow> trajectory outcome" where
  "ts_LoadBranchView ctx i head s =
     (case check ctx (trajectoryLocked i s) of
        Inl e \<Rightarrow> Some (Inl e)
      | Inr t \<Rightarrow>
          (case branchLocked i head s of
             None \<Rightarrow> None
           | Some (Inl e) \<Rightarrow> Some (Inl e)
           | Some (Inr branch) \<Rightarrow> Some (Inr (ProjectTrajectoryBranch (stored_metadata t) head branch))))"

definition ts_FindLatest ::
  "ctx \<Rightarrow> string \<Rightarrow> string \<Rightarrow> TrajectoryKind \<Rightarrow> tj_store \<Rightarrow> tj_entry option outcome" where
  "ts_FindLatest ctx i head kind s =
     (case and_then ctx (ValidateTrajectoryKind kind) of
        Some e \<Rightarrow> Some (Inl e)
      | None \<Rightarrow> findLatestLocked i head kind s)"

definition ts_Load :: "ctx \<Rightarrow> string \<Rightarrow> tj_store \<Rightarrow> trajectory outcome" where
  "ts_Load ctx i s = (case ctx of Some e \<Rightarrow> Some (Inl e) | None \<Rightarrow> materializeLocked i s)"

definition compareRecoverable :: "tj_metadata \<Rightarrow> tj_metadata \<Rightarrow> int" where
  "compareRecoverable = compare_then
     (compare_on (\<lambda>m. case tmExecution m of Some x \<Rightarrow> txCreatedAt x | None \<Rightarrow> 0)) (compare_on tmID)"

definition ts_ListRecoverable :: "ctx \<Rightarrow> gotime \<Rightarrow> gotime \<Rightarrow> tj_store \<Rightarrow> tj_metadata list result" where
  "ts_ListRecoverable ctx wall now s =
     check ctx (let now = (if now = 0 then wall else now) in
       Inr (sort_func compareRecoverable (map (\<lambda>(i, t). stored_metadata t)
         (filter (\<lambda>(i, t). case tjExecution (mtTrajectory t) of
              None \<Rightarrow> False | Some x \<Rightarrow> tx_RecoverableAt wall x now) (msTrajectories s)))))"

definition compareSummaries :: "tj_summary \<Rightarrow> tj_summary \<Rightarrow> int" where
  "compareSummaries = compare_then (compare_on tuCreatedAt) (compare_on tuID)"

definition stored_summary :: "mem_trajectory \<Rightarrow> tj_summary" where
  "stored_summary t = SummarizeTrajectory (mtTrajectory t)
     (mtInheritedCount t + int (length (mtOrder t))) (int (length (mtOrder t)))"

definition ts_List :: "ctx \<Rightarrow> tj_store \<Rightarrow> tj_summary list result" where
  "ts_List ctx s =
     check ctx (Inr (sort_func compareSummaries (map (\<lambda>(i, t). stored_summary t) (msTrajectories s))))"

definition ts_ListPage :: "ctx \<Rightarrow> page_request \<Rightarrow> tj_store \<Rightarrow> (tj_summary list \<times> string) result" where
  "ts_ListPage ctx request s = bind_result (ts_List ctx s) (\<lambda>items. pageWindow items request tuID)"

section \<open>Analysis\<close>

definition validateTrajectoryAnalysisQuery :: "tj_entry_query \<Rightarrow> int result" where
  "validateTrajectoryAnalysisQuery q =
     check (if tqTrajectoryID q \<noteq> [] then ValidateResourceName ''trajectory'' (tqTrajectoryID q) else None)
     (check (if tqKind q \<noteq> KindOther [] then ValidateTrajectoryKind (tqKind q) else None)
     (let limit = (if tqLimit q = 0 then DefaultPageSize else tqLimit q) in
      check (reject_if (limit < 0 \<or> limit > MaxPageSize)
        (Errorf ''trajectory analysis limit %d must be between 0 and %d'')) (Inr limit)))"

definition trajectoryEntryMatchesQuery :: "tj_entry \<Rightarrow> tj_entry_query \<Rightarrow> bool" where
  "trajectoryEntryMatchesQuery e q =
     (if tqTrajectoryID q \<noteq> [] \<and> teTrajectoryID e \<noteq> tqTrajectoryID q then False
      else if tqExecutionID q \<noteq> [] \<and> tfExecutionID (teFields e) \<noteq> tqExecutionID q then False
      else if tqOperationKey q \<noteq> [] \<and> tfOperationKey (teFields e) \<noteq> tqOperationKey q then False
      else if tqKind q \<noteq> KindOther [] \<and> teKind e \<noteq> tqKind q then False
      else if tqProvider q \<noteq> [] \<and> tfProvider (teFields e) \<noteq> tqProvider q then False
      else if tqToolName q \<noteq> [] \<and> tfToolName (teFields e) \<noteq> tqToolName q then False
      else if tqCorrelationID q \<noteq> [] \<and> tfCorrelationID (teFields e) \<noteq> tqCorrelationID q then False
      else True)"

definition compareTrajectoryAnalysisEntries :: "tj_entry \<Rightarrow> tj_entry \<Rightarrow> int" where
  "compareTrajectoryAnalysisEntries = compare_then (compare_on teTimestamp)
     (compare_then (compare_on teTrajectoryID) (compare_then (compare_on teOrdinal) (compare_on teID)))"

definition limitTrajectoryAnalysisEntries :: "tj_entry list \<Rightarrow> int \<Rightarrow> tj_entry list" where
  "limitTrajectoryAnalysisEntries entries limit =
     take (nat limit) (sort_func compareTrajectoryAnalysisEntries entries)"

definition ts_AnalyzeEntries :: "ctx \<Rightarrow> tj_entry_query \<Rightarrow> tj_store \<Rightarrow> tj_entry list result" where
  "ts_AnalyzeEntries ctx q s =
     check ctx (bind_result (validateTrajectoryAnalysisQuery q) (\<lambda>limit.
       let collect = (\<lambda>t. filter (\<lambda>e. trajectoryEntryMatchesQuery e q) (own_entries t)) in
       if tqTrajectoryID q \<noteq> []
       then bind_result (trajectoryLocked (tqTrajectoryID q) s) (\<lambda>t.
         Inr (limitTrajectoryAnalysisEntries (collect t) limit))
       else Inr (limitTrajectoryAnalysisEntries
              (concat (map (\<lambda>(i, t). collect t) (msTrajectories s))) limit)))"

section \<open>Calls\<close>

datatype tj_call =
    TCreate ctx gotime trajectory
  | TAppend ctx "nat \<Rightarrow> gotime" string string "tj_entry list"
  | TBegin ctx gotime "nat \<Rightarrow> gotime" string string tj_start tj_entry
  | TClaim ctx string gotime string string gotime duration
  | TRenew ctx gotime string string string gotime duration
  | TCommit ctx gotime "nat \<Rightarrow> gotime" tj_commit
  | TCancel ctx gotime "nat \<Rightarrow> gotime" tj_cancel_commit
  | TDelete ctx string

text \<open>The store after a call; a call that did not return would leave the lock taken.\<close>

definition after :: "tj_store \<Rightarrow> (tj_store \<times> 'a result) option \<Rightarrow> tj_store" where
  "after s r = (case r of None \<Rightarrow> s | Some (s', _) \<Rightarrow> s')"

fun ts_step :: "tj_call \<Rightarrow> tj_store \<Rightarrow> tj_store" where
  "ts_step (TCreate ctx wall t) s = after s (ts_Create ctx wall t s)"
| "ts_step (TAppend ctx wall i head es) s = after s (ts_Append ctx wall i head es s)"
| "ts_step (TBegin ctx now wall i head start input) s = after s (ts_BeginExecution ctx now wall i head start input s)"
| "ts_step (TClaim ctx newID wall i owner now ttl) s = after s (ts_ClaimExecution ctx newID wall i owner now ttl s)"
| "ts_step (TRenew ctx wall i x token now ttl) s = after s (ts_RenewExecution ctx wall i x token now ttl s)"
| "ts_step (TCommit ctx now wall commit) s = after s (ts_CommitExecution ctx now wall commit s)"
| "ts_step (TCancel ctx clock wall commit) s = after s (ts_CancelExecution ctx clock wall commit s)"
| "ts_step (TDelete ctx i) s = fst (ts_Delete ctx i s)"

end
