(* ===== verification/Trajectory_Invariants.thy ===== *)
theory Trajectory_Invariants
  imports Trajectory_Store
begin

text \<open>
  What holds of the trajectory store after any sequence of calls. \<open>sees T n i L\<close> says that
  trajectory \<open>i\<close> of the map \<open>T\<close>, whose line of ancestors has \<open>n\<close> members, sees the
  entries \<open>L\<close>: its own and the chain of its fork point in what its parent sees. The code's
  recursive lookup computes this map (\<open>lookupLocked_answers\<close>), in particular it returns.
\<close>

section \<open>What a trajectory sees\<close>

inductive sees :: "(string \<rightharpoonup> mem_trajectory) \<Rightarrow> nat \<Rightarrow> string \<Rightarrow> (string \<rightharpoonup> tj_entry) \<Rightarrow> bool"
  for T where
  sees_own: "T i = Some t \<Longrightarrow> resourceNamePattern i \<Longrightarrow> \<not> inherits t \<Longrightarrow> mtInheritedCount t = 0 \<Longrightarrow>
    graded (map_of (mtEntries t)) \<Longrightarrow> sees T (Suc 0) i (map_of (mtEntries t))"
| sees_fork: "T i = Some t \<Longrightarrow> resourceNamePattern i \<Longrightarrow> inherits t \<Longrightarrow>
    sees T n (tjParentID (mtTrajectory t)) P \<Longrightarrow> chain P (tjParentEntryID (mtTrajectory t)) es \<Longrightarrow>
    mtInheritedCount t = int (length es) \<Longrightarrow> dom (inherited es) \<inter> dom (map_of (mtEntries t)) = {} \<Longrightarrow>
    graded (inherited es ++ map_of (mtEntries t)) \<Longrightarrow>
    sees T (Suc n) i (inherited es ++ map_of (mtEntries t))"

inductive_cases sees_elim: "sees T n i L"

lemma sees_graded: "sees T n i L \<Longrightarrow> graded L"
  by (induction rule: sees.induct) auto

lemma sees_name: "sees T n i L \<Longrightarrow> resourceNamePattern i \<and> T i \<noteq> None"
  by (induction rule: sees.induct) auto

lemma sees_det:
  assumes "sees T n i L" "sees T n' i L'"
  shows "n = n' \<and> L = L'"
  using assms
proof (induction arbitrary: n' L' rule: sees.induct)
  case (sees_own i t)
  from sees_own.prems show ?case using sees_own.hyps by cases auto
next
  case (sees_fork i t n P es)
  from sees_fork.prems show ?case
  proof cases
    case (sees_fork t' m P' es')
    then have "t' = t" using sees_fork.hyps by simp
    then have "n = m \<and> P = P'" using sees_fork sees_fork.IH by blast
    then have "es = es'" using \<open>t' = t\<close> sees_fork chain_unique sees_fork.hyps by metis
    then show ?thesis using \<open>t' = t\<close> \<open>n = m \<and> P = P'\<close> sees_fork by simp
  qed (use sees_fork.hyps in simp)
qed

lemma sees_origin:
  "sees T n i L \<Longrightarrow> L x = Some e \<Longrightarrow> \<exists>j t. T j = Some t \<and> map_of (mtEntries t) x = Some e"
proof (induction arbitrary: e rule: sees.induct)
  case (sees_fork i t n P es)
  show ?case
  proof (cases "map_of (mtEntries t) x")
    case None
    then have "inherited es x = Some e" using sees_fork.prems by (simp add: map_add_Some_iff)
    then have "P x = Some e"
      using inherited_le [OF sees_graded] sees_fork.hyps by (metis domI map_le_def)
    then show ?thesis by (rule sees_fork.IH)
  next
    case (Some e')
    then show ?thesis using sees_fork by (auto simp: map_add_Some_iff)
  qed
qed blast

lemma sees_below: "sees T n i L \<Longrightarrow> k < n \<Longrightarrow> \<exists>j L'. sees T (Suc k) j L'"
proof (induction rule: sees.induct)
  case (sees_own i t)
  then show ?case using sees.sees_own by (metis less_Suc0)
next
  case (sees_fork i t n P es)
  then show ?case using sees.sees_fork by (metis less_SucE)
qed

lemma sees_height:
  assumes "sees T n i L" "finite (dom T)"
  shows "n \<le> card (dom T)"
proof -
  define f where "f k = (SOME j. \<exists>L'. sees T (Suc k) j L')" for k
  have f: "\<exists>L'. sees T (Suc k) (f k) L'" if "k < n" for k
    unfolding f_def using sees_below [OF assms(1) that] by (rule someI_ex)
  have "inj_on f {..<n}"
    by (rule inj_onI) (metis f lessThan_iff sees_det nat.inject)
  moreover have "f ` {..<n} \<subseteq> dom T"
    using f sees_name by fastforce
  ultimately have "card {..<n} \<le> card (dom T)" using assms(2) by (metis card_inj_on_le)
  then show ?thesis by simp
qed

abbreviation tmap :: "tj_store \<Rightarrow> (string \<rightharpoonup> mem_trajectory)" where
  "tmap s \<equiv> map_of (msTrajectories s)"

lemma sees_store_ids:
  assumes "sees (tmap s) n i L"
  shows "dom L \<subseteq> set (store_ids s)"
proof
  fix x
  assume "x \<in> dom L"
  then obtain j t e where "tmap s j = Some t" "map_of (mtEntries t) x = Some e"
    using sees_origin [OF assms] by blast
  then show "x \<in> set (store_ids s)"
    unfolding store_ids_def by (force dest: map_of_SomeD)
qed

lemma sees_chain_fuel:
  assumes "sees (tmap s) n i L" "chain L h es"
  shows "length es \<le> branch_fuel s"
  using chain_finite [OF sees_graded [OF assms(1)] assms(2) sees_store_ids [OF assms(1)]]
  by (simp add: branch_fuel_def)

text \<open>The recursive lookup of the code returns and computes the view.\<close>

lemma entryLocked_sees:
  assumes "sees (tmap s) n i L" "n \<le> m"
  shows "entryLocked m s i x = Some (Inr (L x))"
  using assms
proof (induction arbitrary: m x rule: sees.induct)
  case (sees_own i t)
  then obtain k where "m = Suc k" by (cases m) auto
  then show ?case
    using sees_own by (simp add: trajectoryLocked_def ValidateResourceName_def split: option.split)
next
  case (sees_fork i t n P es)
  then obtain k where k: "m = Suc k" "n \<le> k" by (cases m) auto
  have t: "trajectoryLocked i s = Inr t"
    using sees_fork.hyps by (simp add: trajectoryLocked_def ValidateResourceName_def)
  have "answers (\<lambda>c. entryLocked k s (tjParentID (mtTrajectory t)) c) P"
    using sees_fork.IH [OF k(2)] by (simp add: answers_def)
  from FindEntryOnBranch_chain [OF this sees_graded [OF sees_fork.hyps(4)] sees_fork.hyps(5)
      sees_chain_fuel [OF sees_fork.hyps(4,5)]]
  show ?case using k t sees_fork.hyps(3) by (auto simp: map_add_def split: option.split)
qed

lemma lookupLocked_answers:
  assumes "sees (tmap s) n i L"
  shows "answers (lookupLocked s i) L"
proof -
  have "n \<le> card (dom (tmap s))" using sees_height [OF assms] by (simp add: finite_dom_map_of)
  also have "\<dots> \<le> length (msTrajectories s)"
    by (metis card_length dom_map_of_conv_image_fst length_map list.set_map)
  finally have "n \<le> fork_fuel s" by (simp add: fork_fuel_def)
  then show ?thesis using entryLocked_sees [OF assms] by (simp add: answers_def lookupLocked_def)
qed

lemma branchLocked_sees:
  assumes "sees (tmap s) n i L" "chain L h es"
  shows "branchLocked i h s = Some (Inr (rev es))"
proof -
  obtain t where "trajectoryLocked i s = Inr t"
    using sees_name [OF assms(1)] by (auto simp: trajectoryLocked_def ValidateResourceName_def)
  then show ?thesis
    using ResolveBranch_chain [OF lookupLocked_answers [OF assms(1)] sees_graded [OF assms(1)] assms(2)
        sees_chain_fuel [OF assms]] by (simp add: branchLocked_def)
qed

lemma branchLocked_Inr:
  assumes "sees (tmap s) n i L" "branchLocked i h s = Some (Inr branch)"
  obtains es where "chain L h es" "branch = rev es"
proof -
  have "h = [] \<or> L h \<noteq> None"
  proof (rule ccontr)
    assume "\<not> ?thesis"
    then have h: "h \<noteq> []" "L h = None" by auto
    have "ResolveBranch k i h (lookupLocked s i) \<noteq> Some (Inr b)" for k b
      using lookupLocked_answers [OF assms(1)] h
      by (cases k) (simp_all add: ResolveBranch_def walkBranch.simps answers_def)
    then show False using assms(2) by (simp add: branchLocked_def split: sum.splits)
  qed
  then obtain es where "chain L h es" using graded_chain_exists [OF sees_graded [OF assms(1)]] by blast
  then show ?thesis using that branchLocked_sees [OF assms(1)] assms(2) by simp
qed

section \<open>Views under changes of the store\<close>

text \<open>What a view depends on.\<close>

definition same_view :: "mem_trajectory \<Rightarrow> mem_trajectory \<Rightarrow> bool" where
  "same_view t t' \<longleftrightarrow> mtEntries t' = mtEntries t \<and> mtInheritedCount t' = mtInheritedCount t \<and>
     tjSchemaVersion (mtTrajectory t') = tjSchemaVersion (mtTrajectory t) \<and>
     tjParentID (mtTrajectory t') = tjParentID (mtTrajectory t) \<and>
     tjParentEntryID (mtTrajectory t') = tjParentEntryID (mtTrajectory t)"

lemma same_view_simps [simp]:
  "same_view t (set_execution x t)" "same_view t (set_updated now t)"
  "same_view t t' \<Longrightarrow> same_view t (set_execution x t')" "same_view t t' \<Longrightarrow> same_view t (set_updated now t')"
  "same_view t t"
  by (simp_all add: same_view_def set_execution_def set_updated_def)

lemma same_view_inherits: "same_view t t' \<Longrightarrow> inherits t' = inherits t"
  by (simp add: same_view_def inherits_def)

lemma sees_mono:
  assumes "sees T n i L" "\<And>j t. T j = Some t \<Longrightarrow> j \<noteq> d \<Longrightarrow> \<exists>t'. T' j = Some t' \<and> same_view t t'"
    and "i \<noteq> d" "\<And>j t. T j = Some t \<Longrightarrow> inherits t \<Longrightarrow> tjParentID (mtTrajectory t) \<noteq> d"
  shows "sees T' n i L"
  using assms(1,3)
proof (induction rule: sees.induct)
  case (sees_own i t)
  then obtain t' where t': "T' i = Some t'" "same_view t t'" using assms(2) by blast
  then have eq: "mtEntries t = mtEntries t'" "mtInheritedCount t = mtInheritedCount t'" "inherits t = inherits t'"
    by (auto simp: same_view_def inherits_def)
  show ?case
    using sees_own.hyps t' unfolding eq by (intro sees.sees_own)
next
  case (sees_fork i t n P es)
  then obtain t' where t': "T' i = Some t'" "same_view t t'" using assms(2) by blast
  have "sees T' n (tjParentID (mtTrajectory t)) P" using sees_fork assms(4) by blast
  moreover have eq: "mtEntries t = mtEntries t'" "mtInheritedCount t = mtInheritedCount t'" "inherits t = inherits t'"
    "tjParentID (mtTrajectory t) = tjParentID (mtTrajectory t')"
    "tjParentEntryID (mtTrajectory t) = tjParentEntryID (mtTrajectory t')"
    using t' by (auto simp: same_view_def inherits_def)
  ultimately show ?case
    using sees_fork.hyps t' unfolding eq by (intro sees.sees_fork)
qed

lemma sees_update:
  assumes "sees T n j L" "T i = Some t" "same_view t t'"
  shows "sees (T(i \<mapsto> t')) n j L"
proof -
  have "resourceNamePattern j" using sees_name [OF assms(1)] by simp
  then have "j \<noteq> []" by auto
  moreover have "tjParentID (mtTrajectory t) \<noteq> []" if "inherits t" for t
    using that by (simp add: inherits_def)
  ultimately show ?thesis
    using assms(2,3) by (intro sees_mono [OF assms(1), where d = "[]"]) auto
qed

lemma sees_create:
  assumes "sees T n j L" "T i = None"
  shows "sees (T(i \<mapsto> t')) n j L"
proof -
  have "resourceNamePattern j" using sees_name [OF assms(1)] by simp
  then have "j \<noteq> []" by auto
  moreover have "tjParentID (mtTrajectory t) \<noteq> []" if "inherits t" for t
    using that by (simp add: inherits_def)
  ultimately show ?thesis
    using assms(2) by (intro sees_mono [OF assms(1), where d = "[]"]) auto
qed

lemma sees_delete:
  assumes "sees T n j L" "j \<noteq> i" "\<And>j t. T j = Some t \<Longrightarrow> tjParentID (mtTrajectory t) \<noteq> i"
  shows "sees (T(i := None)) n j L"
  using assms(2,3) by (intro sees_mono [OF assms(1), where d = i]) auto

text \<open>Appending to a trajectory extends its own view and leaves all others as they are.\<close>

lemma stored_map_add: "stored es (A ++ B) = A ++ stored es B"
  by (induction es arbitrary: B) (simp_all flip: map_add_upd)

lemma dom_stored: "dom (stored es M) = dom M \<union> teID ` set es"
  by (induction es arbitrary: M) auto

lemma stored_None: "stored es M x = None \<longleftrightarrow> M x = None \<and> x \<notin> teID ` set es"
  using dom_stored [of es M] by (auto simp: domIff set_eq_iff simp del: not_None_eq)

lemma map_of_fold_update:
  "map_of (fold (\<lambda>e m. AList.update (teID e) e m) es m) = stored es (map_of m)"
  by (induction es arbitrary: m) (simp_all add: map_of_put)

lemma stored_le:
  assumes "\<And>e. e \<in> set es \<Longrightarrow> M (teID e) = None"
  shows "M \<subseteq>\<^sub>m stored es M"
proof -
  have "stored es N x = N x" if "x \<notin> teID ` set es" for x N
    using that by (induction es arbitrary: N) auto
  moreover have "x \<notin> teID ` set es" if "x \<in> dom M" for x using that assms by auto
  ultimately show ?thesis by (simp add: map_le_def)
qed

lemma sees_append:
  assumes view: "sees T m i Li" and t: "T i = Some t"
    and t': "map_of (mtEntries t') = stored es (map_of (mtEntries t))" "same_view t (t'\<lparr>mtEntries := mtEntries t\<rparr>)"
    and fresh: "\<And>e. e \<in> set es \<Longrightarrow> Li (teID e) = None" and g: "graded (stored es Li)"
    and U: "U i = Some t'" "\<And>k. k \<noteq> i \<Longrightarrow> U k = T k"
  shows "sees T n j L \<Longrightarrow> sees U n j (if j = i then stored es L else L)"
proof (induction rule: sees.induct)
  case (sees_own j u)
  show ?case
  proof (cases "j = i")
    case True
    then have u: "u = t" "Li = map_of (mtEntries t)"
      using sees_own.hyps(1) t sees_det [OF view] sees.sees_own [of T, OF sees_own.hyps] by auto
    have "sees U (Suc 0) i (map_of (mtEntries t'))"
      using sees_own.hyps True u t' g U by (intro sees.sees_own) (auto simp: same_view_def inherits_def)
    then show ?thesis unfolding t'(1) using True u by (simp only: refl if_True)
  next
    case False
    then have "sees U (Suc 0) j (map_of (mtEntries u))"
      using sees_own.hyps U False by (intro sees.sees_own) auto
    then show ?thesis using False by (simp only: if_False)
  qed
next
  case (sees_fork j u n P as)
  let ?p = "tjParentID (mtTrajectory u)"
  let ?P = "if ?p = i then stored es P else P"
  have "P \<subseteq>\<^sub>m ?P"
  proof (cases "?p = i")
    case True
    then have "Li = P" using sees_det [OF view] sees_fork.hyps(4) by blast
    then show ?thesis using True stored_le [of es P] fresh by simp
  qed simp
  then have ch: "chain ?P (tjParentEntryID (mtTrajectory u)) as"
    using chain_mono [OF sees_fork.hyps(5)] by blast
  show ?case
  proof (cases "j = i")
    case True
    then have u: "u = t" "Li = inherited as ++ map_of (mtEntries t)"
      using sees_fork.hyps(1) t sees_det [OF view] sees.sees_fork [of T, OF sees_fork.hyps] by auto
    then have eq: "stored es Li = inherited as ++ map_of (mtEntries t')" using t'(1) stored_map_add by metis
    have "dom (inherited as) \<inter> dom (map_of (mtEntries t')) = {}"
      unfolding t'(1) dom_stored using sees_fork.hyps(7) u fresh
      by (auto simp: map_add_None)
    then have "sees U (Suc n) i (inherited as ++ map_of (mtEntries t'))"
      using sees_fork.hyps True u t' g sees_fork.IH ch eq U
      by (intro sees.sees_fork [where n = n and P = ?P]) (auto simp: same_view_def inherits_def)
    then show ?thesis using True u eq by (simp only: refl if_True)
  next
    case False
    then have "sees U (Suc n) j (inherited as ++ map_of (mtEntries u))"
      using sees_fork.hyps sees_fork.IH ch U False by (intro sees.sees_fork [where n = n and P = ?P]) auto
    then show ?thesis using False by (simp only: if_False)
  qed
qed

section \<open>The invariant\<close>

definition order_ok :: "mem_trajectory \<Rightarrow> bool" where
  "order_ok t \<longleftrightarrow> distinct (mtOrder t) \<and> set (mtOrder t) = dom (map_of (mtEntries t)) \<and>
     (\<forall>j<length (mtOrder t). teOrdinal (own_entries t ! j) = of_nat (Suc j))"

definition local_ok :: "string \<Rightarrow> mem_trajectory \<Rightarrow> bool" where
  "local_ok i t \<longleftrightarrow> order_ok t \<and>
     (\<forall>x e. map_of (mtEntries t) x = Some e \<longrightarrow> entry_ok i e) \<and>
     tjID (mtTrajectory t) = i \<and> tjEntries (mtTrajectory t) = [] \<and>
     tjSchemaVersion (mtTrajectory t) \<le> TrajectorySchemaVersion \<and> tjSchemaVersion (mtTrajectory t) \<noteq> 0 \<and>
     ValidateTrajectoryParent (mtTrajectory t) = None \<and>
     (tjParentID (mtTrajectory t) \<noteq> [] \<longrightarrow> inherits t) \<and>
     (\<forall>x. tjExecution (mtTrajectory t) = Some x \<longrightarrow>
        ValidateTrajectoryExecution x = None \<and> map_of (mtEntries t) (txInputEntryID x) \<noteq> None)"

text \<open>The head is visible and the recorded checkpoint is the latest on its branch.\<close>

definition head_ok :: "mem_trajectory \<Rightarrow> (string \<rightharpoonup> tj_entry) \<Rightarrow> bool" where
  "head_ok t L \<longleftrightarrow> (\<exists>es. chain L (tjHead (mtTrajectory t)) es \<and>
     tjCheckpoint (mtTrajectory t) = checkpoint_of es)"

definition ts_inv :: "tj_store \<Rightarrow> bool" where
  "ts_inv s \<longleftrightarrow> gm_wf (msTrajectories s) \<and>
     (\<forall>i t. tmap s i = Some t \<longrightarrow> local_ok i t \<and> (\<exists>n L. sees (tmap s) n i L \<and> head_ok t L))"

lemma ts_inv_new: "ts_inv newMemoryTrajectoryStore"
  by (simp add: ts_inv_def newMemoryTrajectoryStore_def)

lemma ts_invD:
  assumes "ts_inv s" "tmap s i = Some t"
  obtains n L where "local_ok i t" "sees (tmap s) n i L" "head_ok t L"
  using assms unfolding ts_inv_def by blast

lemma trajectoryLocked_Inr: "trajectoryLocked i s = Inr t \<longleftrightarrow> resourceNamePattern i \<and> tmap s i = Some t"
  by (auto simp: trajectoryLocked_def result_simps split: option.splits)

text \<open>Appending.\<close>

lemma length_filter_keys:
  assumes "graded L" "chain L h es"
  shows "length (filter (\<lambda>e. map_of m (teID e) \<noteq> None) es) \<le> length m"
proof -
  let ?f = "filter (\<lambda>e. map_of m (teID e) \<noteq> None) es"
  have "distinct (map teID ?f)" using chain_distinct [OF assms] by (simp add: distinct_map_filter)
  moreover have "set (map teID ?f) \<subseteq> set (map fst m)"
    by (auto simp: dom_map_of_conv_image_fst [symmetric] domIff)
  ultimately show ?thesis
    by (metis card_length card_mono distinct_card finite_set length_map order_trans)
qed

text \<open>The entries that an append prepares, against what the trajectory saw before.\<close>

definition prepared_ok :: "string \<Rightarrow> nat \<Rightarrow> (string \<rightharpoonup> tj_entry) \<Rightarrow> tj_entry list \<Rightarrow> tj_entry list \<Rightarrow> bool" where
  "prepared_ok i k L es prepared \<longleftrightarrow> prepared \<noteq> [] \<and> graded (stored prepared L) \<and>
     list_all (entry_ok i) prepared \<and> map teID prepared = map teID es \<and> map teFields prepared = map teFields es \<and>
     distinct (map teID prepared) \<and> (\<forall>e\<in>set prepared. L (teID e) = None) \<and>
     (\<forall>j<length prepared. teOrdinal (prepared ! j) = of_nat k + of_nat (Suc j))"

lemma PrepareTrajectoryEntries_Inr:
  assumes "sees (tmap s) n i L" "length (store_ids s) + length es < 2 ^ 64"
    and "PrepareTrajectoryEntries wall i (of_nat k) hist es (lookupLocked s i) = Some (Inr prepared)"
  shows "prepared_ok i k L es prepared"
proof -
  have ne: "es \<noteq> []" and prep: "prepare_entries wall i (of_nat k) hist (lookupLocked s i) [] es = Some (Inr prepared)"
    using assms(3) by (auto simp: PrepareTrajectoryEntries_def split: if_splits)
  have "graded (stored prepared L) \<and> list_all (entry_ok i) prepared \<and> map teID prepared = map teID es \<and>
      map teFields prepared = map teFields es \<and>
      distinct (map teID prepared) \<and> (\<forall>e\<in>set prepared. L (teID e) = None) \<and>
      (\<forall>j<length prepared. teOrdinal (prepared ! j) = of_nat k + of_nat (Suc j))"
    by (rule prepare_entries_Inr [OF prep lookupLocked_answers [OF assms(1)] _ sees_graded [OF assms(1)]
          sees_store_ids [OF assms(1)] assms(2)]) simp
  then show ?thesis using ne unfolding prepared_ok_def by (metis Nil_is_map_conv)
qed

text \<open>The checkpoint that the code finds is the latest one on the branch of the new head.\<close>

lemma checkpoint_after_append:
  assumes view: "sees (tmap s) n i L" and head: "head_ok t L" and ok: "prepared_ok i k L es prepared"
  shows "\<exists>cs. chain (stored prepared L) (teID (last prepared)) cs \<and>
    LatestCheckpointAfterAppend (branch_fuel s + length prepared) (tjHead (mtTrajectory t))
      (tjCheckpoint (mtTrajectory t)) (teID (last prepared)) (entry_index prepared) (lookupLocked s i) =
      Some (Inr (checkpoint_of cs))"
proof -
  let ?L' = "stored prepared L"
  have g': "graded ?L'" and d: "distinct (map teID prepared)" and ne: "prepared \<noteq> []"
    and fresh: "\<And>e. e \<in> set prepared \<Longrightarrow> L (teID e) = None"
    using ok by (auto simp: prepared_ok_def)
  have idx: "?L' x = (case map_of (entry_index prepared) x of Some e \<Rightarrow> Some e | None \<Rightarrow> L x)" for x
    unfolding entry_index_def map_of_fold_update stored_apply [OF d] by (simp split: option.split)
  have "?L' (teID (last prepared)) \<noteq> None"
    using ne dom_stored [of prepared L] by (metis UnI2 domIff image_eqI last_in_set)
  then obtain cs where c: "chain ?L' (teID (last prepared)) cs" using graded_chain_exists [OF g'] by blast
  have "dom ?L' \<subseteq> set (store_ids s @ map teID prepared)"
    using sees_store_ids [OF view] by (auto simp: dom_stored)
  then have len: "length cs \<le> branch_fuel s + length prepared"
    using chain_finite [OF g' c, of "store_ids s @ map teID prepared"] by (simp add: branch_fuel_def)
  obtain es0 where es0: "chain L (tjHead (mtTrajectory t)) es0" "tjCheckpoint (mtTrajectory t) = checkpoint_of es0"
    using head by (auto simp: head_ok_def)
  have "length (filter (\<lambda>e. map_of (entry_index prepared) (teID e) \<noteq> None) cs) < Suc (length (entry_index prepared))"
    using length_filter_keys [OF g' c, of "entry_index prepared"] by simp
  from latest_checkpoint_loop_chain [OF lookupLocked_answers [OF view] sees_graded [OF view] g'
      stored_le [of prepared L, OF fresh] idx es0 c len _ this, of "[]"]
  show ?thesis using c unfolding LatestCheckpointAfterAppend_def by auto
qed

text \<open>The trajectory after an append.\<close>

definition appended :: "tj_entry list \<Rightarrow> string \<Rightarrow> mem_trajectory \<Rightarrow> mem_trajectory" where
  "appended prepared checkpoint t =
     t\<lparr>mtEntries := fold (\<lambda>e m. AList.update (teID e) e m) prepared (mtEntries t),
       mtOrder := mtOrder t @ map teID prepared,
       mtTrajectory := (mtTrajectory t)\<lparr>tjHead := teID (last prepared),
         tjUpdatedAt := teTimestamp (last prepared), tjCheckpoint := checkpoint\<rparr>\<rparr>"

lemma appendLocked_total:
  assumes "sees (tmap s) n i L" "head_ok t L" "length (store_ids s) + length es < 2 ^ 64"
  shows "appendLocked wall t i h es s \<noteq> None"
proof -
  let ?prep = "PrepareTrajectoryEntries wall i (of_nat (length (mtOrder t))) (tjHead (mtTrajectory t) \<noteq> [])
      es (lookupLocked s i)"
  have "?prep \<noteq> None"
    using prepare_entries_total [OF lookupLocked_answers [OF assms(1)]]
    by (simp add: PrepareTrajectoryEntries_def del: not_None_eq)
  then obtain r where r: "?prep = Some r" by blast
  show ?thesis
  proof (cases r)
    case (Inl e)
    then show ?thesis using r by (auto simp: appendLocked_def)
  next
    case (Inr prepared)
    then have "prepared_ok i (length (mtOrder t)) L es prepared"
      using PrepareTrajectoryEntries_Inr [OF assms(1,3)] r by blast
    from checkpoint_after_append [OF assms(1,2) this] show ?thesis
      using r Inr by (auto simp: appendLocked_def Let_def)
  qed
qed

lemma appendLocked_Inr:
  assumes "sees (tmap s) n i L" "head_ok t L" "length (store_ids s) + length es < 2 ^ 64"
    and "appendLocked wall t i h es s = Some (Inr (t', new))"
  obtains prepared checkpoint where "tjHead (mtTrajectory t) = h"
    "prepared_ok i (length (mtOrder t)) L es prepared" "new = teID (last prepared)"
    "t' = appended prepared checkpoint t" "head_ok t' (stored prepared L)"
proof -
  obtain prepared checkpoint where h: "tjHead (mtTrajectory t) = h"
    and prep: "PrepareTrajectoryEntries wall i (of_nat (length (mtOrder t))) (tjHead (mtTrajectory t) \<noteq> [])
      es (lookupLocked s i) = Some (Inr prepared)"
    and cp: "LatestCheckpointAfterAppend (branch_fuel s + length prepared) (tjHead (mtTrajectory t))
      (tjCheckpoint (mtTrajectory t)) (teID (last prepared)) (entry_index prepared) (lookupLocked s i) =
      Some (Inr checkpoint)"
    and t': "t' = appended prepared checkpoint t" "new = teID (last prepared)"
    using assms(4) by (auto simp: appendLocked_def appended_def Let_def split: if_splits option.splits sum.splits)
  have ok: "prepared_ok i (length (mtOrder t)) L es prepared"
    by (rule PrepareTrajectoryEntries_Inr [OF assms(1,3) prep])
  from checkpoint_after_append [OF assms(1,2) ok] cp
  have "head_ok t' (stored prepared L)" unfolding head_ok_def t'(1) appended_def by auto
  then show ?thesis using that h ok t' by blast
qed

section \<open>Preservation\<close>

lemma tmap_put [simp]: "tmap (put_trajectory i t s) = (tmap s)(i \<mapsto> t)"
  by (simp add: put_trajectory_def map_of_put)

lemma put_wf: "gm_wf (msTrajectories s) \<Longrightarrow> gm_wf (msTrajectories (put_trajectory i t s))"
  by (simp add: put_trajectory_def)

text \<open>
  No call takes an entry out of a view, and a head that moves moves to an entry that was
  not visible before.
\<close>

definition extends :: "tj_store \<Rightarrow> tj_store \<Rightarrow> string \<Rightarrow> bool" where
  "extends s s' i \<longleftrightarrow> (\<forall>t n L. tmap s i = Some t \<longrightarrow> sees (tmap s) n i L \<longrightarrow>
     (\<exists>t' L'. tmap s' i = Some t' \<and> sees (tmap s') n i L' \<and> L \<subseteq>\<^sub>m L' \<and>
        (tjHead (mtTrajectory t') = tjHead (mtTrajectory t) \<or>
         tjHead (mtTrajectory t') \<noteq> [] \<and> L (tjHead (mtTrajectory t')) = None)))"

definition preserves :: "tj_store \<Rightarrow> nat \<Rightarrow> tj_store \<Rightarrow> bool" where
  "preserves s k s' \<longleftrightarrow> ts_inv s' \<and> length (store_ids s') \<le> length (store_ids s) + k \<and> (\<forall>i. extends s s' i)"

lemma extends_refl: "extends s s i"
  by (auto simp: extends_def)

lemma ts_inv_put:
  assumes inv: "ts_inv s" and t: "tmap s i = Some t" and view: "sees (tmap s) n i L"
    and t': "map_of (mtEntries t') = stored es (map_of (mtEntries t))" "same_view t (t'\<lparr>mtEntries := mtEntries t\<rparr>)"
    and fresh: "\<And>e. e \<in> set es \<Longrightarrow> L (teID e) = None" and g: "graded (stored es L)"
    and ok: "local_ok i t'" "head_ok t' (stored es L)"
    and head: "tjHead (mtTrajectory t') = tjHead (mtTrajectory t) \<or>
      tjHead (mtTrajectory t') \<noteq> [] \<and> L (tjHead (mtTrajectory t')) = None"
  shows "ts_inv (put_trajectory i t' s) \<and> (\<forall>j. extends s (put_trajectory i t' s) j)"
proof -
  let ?U = "(tmap s)(i \<mapsto> t')"
  have keep: "sees ?U m j (if j = i then stored es M else M)" if "sees (tmap s) m j M" for m j M
    by (rule sees_append [OF view t t' _ g _ _ that]) (use fresh in auto)
  have "local_ok j u \<and> (\<exists>n L. sees ?U n j L \<and> head_ok u L)" if u: "?U j = Some u" for j u
  proof (cases "j = i")
    case True
    have "sees ?U n i (stored es L)" using keep [OF view] by (simp only: refl if_True)
    then show ?thesis using True u ok by auto
  next
    case False
    then have "tmap s j = Some u" using u by simp
    then obtain m M where "local_ok j u" "sees (tmap s) m j M" "head_ok u M" by (rule ts_invD [OF inv])
    moreover from keep [OF this(2)] False have "sees ?U m j M" by (simp only: if_False)
    ultimately show ?thesis by blast
  qed
  moreover have "gm_wf (msTrajectories s)" using inv by (simp add: ts_inv_def)
  ultimately have "ts_inv (put_trajectory i t' s)" unfolding ts_inv_def tmap_put using put_wf by blast
  moreover have "extends s (put_trajectory i t' s) j" for j
    unfolding extends_def tmap_put
  proof (intro allI impI, goal_cases)
    case (1 u m M)
    show ?case
    proof (cases "j = i")
      case True
      then have "M = L" "u = t" using sees_det [OF view] 1 t by auto
      moreover from keep [OF 1(2)] True have "sees ?U m i (stored es M)" by (simp only: refl if_True)
      moreover have "L \<subseteq>\<^sub>m stored es L" by (rule stored_le) (rule fresh)
      ultimately show ?thesis using True head by auto
    next
      case False
      then have "sees ?U m j M" using keep [OF 1(2)] by (simp only: if_False)
      then show ?thesis using False 1(1) by auto
    qed
  qed
  ultimately show ?thesis by blast
qed

lemma own_entries_appended:
  assumes "prepared_ok i k L es prepared" "set (mtOrder t) \<inter> teID ` set prepared = {}"
  shows "own_entries (appended prepared cp t) = own_entries t @ prepared"
proof -
  have d: "distinct (map teID prepared)" using assms(1) unfolding prepared_ok_def by blast
  have "map_of (mtEntries (appended prepared cp t)) x = map_of (mtEntries t) x" if "x \<in> set (mtOrder t)" for x
  proof -
    have "find (\<lambda>e. teID e = x) prepared = None" using that assms(2) by (auto simp: find_None_iff)
    then show ?thesis by (simp add: appended_def map_of_fold_update stored_apply [OF d])
  qed
  moreover have "map_of (mtEntries (appended prepared cp t)) (teID e) = Some e" if "e \<in> set prepared" for e
  proof -
    have "find (\<lambda>x. teID x = teID e) prepared = Some e"
      using d that by (induction prepared) (auto simp: image_iff)
    then show ?thesis by (simp add: appended_def map_of_fold_update stored_apply [OF d])
  qed
  then have "map (\<lambda>x. the (map_of (mtEntries (appended prepared cp t)) x)) (map teID prepared) = prepared"
    by (simp add: map_idI)
  ultimately show ?thesis by (simp add: own_entries_def appended_def)
qed

lemma view_includes_own: "sees T n i L \<Longrightarrow> T i = Some t \<Longrightarrow> map_of (mtEntries t) \<subseteq>\<^sub>m L"
  by (erule sees_elim) (auto simp: map_le_def map_add_def)

lemma appended_simps [simp]:
  "map_of (mtEntries (appended prepared cp t)) = stored prepared (map_of (mtEntries t))"
  "mtOrder (appended prepared cp t) = mtOrder t @ map teID prepared"
  "same_view t ((appended prepared cp t)\<lparr>mtEntries := mtEntries t\<rparr>)"
  "tjExecution (mtTrajectory (appended prepared cp t)) = tjExecution (mtTrajectory t)"
  "tjHead (mtTrajectory (appended prepared cp t)) = teID (last prepared)"
  by (simp_all add: appended_def map_of_fold_update same_view_def)

lemma order_ok_appended:
  assumes "order_ok t" "prepared_ok i (length (mtOrder t)) L es prepared" "map_of (mtEntries t) \<subseteq>\<^sub>m L"
  shows "order_ok (appended prepared cp t)"
proof -
  have disj: "set (mtOrder t) \<inter> teID ` set prepared = {}"
  proof -
    have "x \<notin> teID ` set prepared" if "x \<in> set (mtOrder t)" for x
    proof -
      have "x \<in> dom (map_of (mtEntries t))" using that assms(1) unfolding order_ok_def by blast
      then have "L x \<noteq> None" using assms(3) unfolding map_le_def by (metis domIff)
      then show ?thesis using assms(2) unfolding prepared_ok_def by auto
    qed
    then show ?thesis by blast
  qed
  have len: "length (own_entries t) = length (mtOrder t)" by (simp add: own_entries_def)
  have "teOrdinal (own_entries (appended prepared cp t) ! j) = of_nat (Suc j)"
    if j: "j < length (mtOrder t) + length prepared" for j
  proof (cases "j < length (mtOrder t)")
    case True
    then show ?thesis
      using assms(1) len by (simp add: own_entries_appended [OF assms(2) disj] nth_append order_ok_def)
  next
    case False
    then have "teOrdinal (prepared ! (j - length (mtOrder t))) =
        of_nat (length (mtOrder t)) + of_nat (Suc (j - length (mtOrder t)))"
      using assms(2) j unfolding prepared_ok_def by (metis add_less_imp_less_left le_add_diff_inverse not_less)
    also have "\<dots> = of_nat (Suc j)" using False by (simp flip: of_nat_add)
    finally show ?thesis
      using False len by (simp add: own_entries_appended [OF assms(2) disj] nth_append)
  qed
  moreover have "distinct (map teID prepared)" using assms(2) unfolding prepared_ok_def by blast
  ultimately show ?thesis
    using assms(1) disj unfolding order_ok_def by (simp add: dom_stored)
qed

lemma ValidateTrajectoryParent_cong:
  "tjParentID t' = tjParentID t \<Longrightarrow> tjParentEntryID t' = tjParentEntryID t \<Longrightarrow>
   ValidateTrajectoryParent t' = ValidateTrajectoryParent t"
  by (simp add: ValidateTrajectoryParent_def)

lemma local_ok_appended:
  assumes "local_ok i t" "prepared_ok i (length (mtOrder t)) L es prepared" "map_of (mtEntries t) \<subseteq>\<^sub>m L"
  shows "local_ok i (appended prepared cp t)"
proof -
  have d: "distinct (map teID prepared)" and p: "list_all (entry_ok i) prepared"
    using assms(2) unfolding prepared_ok_def by blast+
  have "entry_ok i e" if "stored prepared (map_of (mtEntries t)) x = Some e" for x e
    using that assms(1) p
    by (auto simp: stored_apply [OF d] local_ok_def list_all_iff find_Some_iff split: option.splits)
  moreover have "stored prepared (map_of (mtEntries t)) x \<noteq> None" if "map_of (mtEntries t) x \<noteq> None" for x
    using that dom_stored [of prepared "map_of (mtEntries t)"] by (auto simp: dom_def)
  moreover have "order_ok (appended prepared cp t)"
    using order_ok_appended [OF _ assms(2,3)] assms(1) by (simp add: local_ok_def)
  ultimately show ?thesis
    using assms(1) ValidateTrajectoryParent_cong [of "mtTrajectory (appended prepared cp t)" "mtTrajectory t"]
    unfolding local_ok_def appended_simps by (auto simp: appended_def inherits_def)
qed

lemma local_ok_set:
  assumes "local_ok i t"
  shows "local_ok i (set_updated now t)"
    "ValidateTrajectoryExecution x = None \<Longrightarrow> map_of (mtEntries t) (txInputEntryID x) \<noteq> None \<Longrightarrow>
     local_ok i (set_execution x t)"
  using assms ValidateTrajectoryParent_cong [of "mtTrajectory (set_updated now t)" "mtTrajectory t"]
    ValidateTrajectoryParent_cong [of "mtTrajectory (set_execution x t)" "mtTrajectory t"]
  by (auto simp: local_ok_def set_updated_def set_execution_def order_ok_def own_entries_def inherits_def)

lemma head_ok_set [simp]:
  "head_ok (set_updated now t) L = head_ok t L" "head_ok (set_execution x t) L = head_ok t L"
  by (simp_all add: head_ok_def set_updated_def set_execution_def)

lemma set_simps [simp]:
  "mtEntries (set_updated now t) = mtEntries t" "mtEntries (set_execution x t) = mtEntries t"
  "tjExecution (mtTrajectory (set_updated now t)) = tjExecution (mtTrajectory t)"
  "tjExecution (mtTrajectory (set_execution x t)) = Some x"
  "tjHead (mtTrajectory (set_updated now t)) = tjHead (mtTrajectory t)"
  "tjHead (mtTrajectory (set_execution x t)) = tjHead (mtTrajectory t)"
  by (simp_all add: set_updated_def set_execution_def)

section \<open>The size of the store\<close>

lemma length_store_ids: "length (store_ids s) = sum_list (map (\<lambda>(i, t). length (mtEntries t)) (msTrajectories s))"
  by (simp add: store_ids_def length_concat comp_def case_prod_unfold)

lemma sum_list_update:
  fixes f :: "string \<times> 'v \<Rightarrow> nat"
  shows "sum_list (map f (AList.update k v m)) \<le> sum_list (map f m) + f (k, v)"
    "map_of m k = Some u \<Longrightarrow> sum_list (map f (AList.update k v m)) + f (k, u) \<le> sum_list (map f m) + f (k, v)"
  by (induction m) (auto split: if_splits)

lemma sum_list_delete: "sum_list (map (f :: _ \<Rightarrow> nat) (AList.delete k m)) \<le> sum_list (map f m)"
  by (induction m) (auto simp: AList.delete_eq)

lemma length_fold_update: "length (fold (\<lambda>e m. AList.update (teID e) e m) es m) \<le> length m + length es"
proof (induction es arbitrary: m)
  case (Cons e es)
  have "length (AList.update (teID e) e m) \<le> Suc (length m)" by (induction m) auto
  then show ?case using Cons.IH [of "AList.update (teID e) e m"] by simp
qed simp

lemma store_ids_put:
  assumes "tmap s i = Some t" "length (mtEntries t') \<le> length (mtEntries t) + k"
  shows "length (store_ids (put_trajectory i t' s)) \<le> length (store_ids s) + k"
  using sum_list_update(2) [OF assms(1), of "\<lambda>(i, t). length (mtEntries t)" t'] assms(2)
  by (simp add: length_store_ids put_trajectory_def)

section \<open>The operations\<close>

text \<open>A trajectory before and after the append of a call, if the call appends.\<close>

definition grown :: "(nat \<Rightarrow> gotime) \<Rightarrow> string \<Rightarrow> string \<Rightarrow> tj_entry list \<Rightarrow> tj_store \<Rightarrow> mem_trajectory \<Rightarrow>
    mem_trajectory \<Rightarrow> bool" where
  "grown wall i h es s t t1 \<longleftrightarrow> t1 = t \<or> (\<exists>new. appendLocked wall t i h es s = Some (Inr (t1, new)))"

lemma ts_inv_edit:
  assumes inv: "ts_inv s" and t: "tmap s i = Some t" and room: "length (store_ids s) + length es < 2 ^ 64"
    and grown: "grown wall i h es s t t1"
    and t': "same_view t1 t'" "\<And>L. head_ok t1 L \<Longrightarrow> head_ok t' L" "local_ok i t1 \<Longrightarrow> local_ok i t'"
      "tjHead (mtTrajectory t') = tjHead (mtTrajectory t1)"
  shows "preserves s (length es) (put_trajectory i t' s)"
proof -
  obtain n L where ok: "local_ok i t" "sees (tmap s) n i L" "head_ok t L" by (rule ts_invD [OF inv t])
  show ?thesis
  proof (cases "t1 = t")
    case True
    then have "ts_inv (put_trajectory i t' s) \<and> (\<forall>j. extends s (put_trajectory i t' s) j)"
      using t' ok sees_graded [OF ok(2)]
      by (intro ts_inv_put [OF inv t ok(2), where es = "[]"]) (auto simp: same_view_def)
    moreover have "length (mtEntries t') \<le> length (mtEntries t) + 0" using t'(1) True by (simp add: same_view_def)
    from store_ids_put [OF t this] have "length (store_ids (put_trajectory i t' s)) \<le> length (store_ids s)" by simp
    ultimately show ?thesis by (simp add: preserves_def)
  next
    case False
    then obtain new where "appendLocked wall t i h es s = Some (Inr (t1, new))"
      using grown by (auto simp: grown_def)
    then obtain prepared cp where p: "prepared_ok i (length (mtOrder t)) L es prepared"
      "t1 = appended prepared cp t" "head_ok t1 (stored prepared L)"
      by (rule appendLocked_Inr [OF ok(2,3) room])
    note own = view_includes_own [OF ok(2) t]
    have e: "mtEntries t' = mtEntries t1" using t'(1) by (simp add: same_view_def)
    have "same_view t (t'\<lparr>mtEntries := mtEntries t\<rparr>)"
      using t'(1) p(2) by (simp add: same_view_def appended_def)
    moreover have "local_ok i t1" unfolding p(2) by (rule local_ok_appended [OF ok(1) p(1) own])
    moreover have "teID (last prepared) \<noteq> [] \<and> L (teID (last prepared)) = None"
    proof -
      have "last prepared \<in> set prepared" using p(1) by (simp add: prepared_ok_def)
      then show ?thesis using p(1) by (auto simp: prepared_ok_def list_all_iff entry_ok_def)
    qed
    ultimately have "ts_inv (put_trajectory i t' s) \<and> (\<forall>j. extends s (put_trajectory i t' s) j)"
      using t'(2-4) p by (intro ts_inv_put [OF inv t ok(2), where es = prepared])
        (auto simp: e prepared_ok_def)
    moreover have "length prepared = length es" using p(1) unfolding prepared_ok_def by (metis length_map)
    then have "length (mtEntries t') \<le> length (mtEntries t) + length es"
      using length_fold_update [of prepared "mtEntries t"] by (simp add: e p(2) appended_def)
    from store_ids_put [OF t this] have "length (store_ids (put_trajectory i t' s)) \<le> length (store_ids s) + length es" .
    ultimately show ?thesis by (simp add: preserves_def)
  qed
qed

lemma grown_entries:
  assumes "ts_inv s" "tmap s i = Some t" "length (store_ids s) + length es < 2 ^ 64" "grown wall i h es s t t1"
  shows "map_of (mtEntries t) x \<noteq> None \<Longrightarrow> map_of (mtEntries t1) x \<noteq> None"
    "appendLocked wall t i h es s = Some (Inr (t1, new)) \<Longrightarrow> e \<in> set es \<Longrightarrow> map_of (mtEntries t1) (teID e) \<noteq> None"
    "tjExecution (mtTrajectory t1) = tjExecution (mtTrajectory t)"
proof -
  obtain n L where ok: "local_ok i t" "sees (tmap s) n i L" "head_ok t L" by (rule ts_invD [OF assms(1,2)])
  have app: "\<exists>prepared cp. t1 = appended prepared cp t \<and> map teID prepared = map teID es"
    if "appendLocked wall t i h es s = Some (Inr (t1, new))" for new
    using that by (rule appendLocked_Inr [OF ok(2,3) assms(3)]) (unfold prepared_ok_def, blast)
  show "map_of (mtEntries t1) x \<noteq> None" if "map_of (mtEntries t) x \<noteq> None"
  proof -
    consider "t1 = t" | prepared cp where "t1 = appended prepared cp t"
      using assms(4) app by (auto simp: grown_def)
    then show ?thesis using that stored_None [of _ "map_of (mtEntries t)" x] by cases (simp_all del: not_None_eq)
  qed
  show "map_of (mtEntries t1) (teID e) \<noteq> None"
    if a: "appendLocked wall t i h es s = Some (Inr (t1, new))" and e: "e \<in> set es"
  proof -
    obtain prepared cp where p: "t1 = appended prepared cp t" "map teID prepared = map teID es"
      using app a by blast
    then have "teID e \<in> teID ` set prepared" using e by (metis image_eqI list.set_map)
    then show ?thesis using p(1) by (simp add: stored_None del: not_None_eq)
  qed
  show "tjExecution (mtTrajectory t1) = tjExecution (mtTrajectory t)"
    using assms(4) app by (auto simp: grown_def)
qed

text \<open>Replacing the execution after the append.\<close>

lemma ts_inv_execution:
  assumes "ts_inv s" "tmap s i = Some t" "length (store_ids s) + length es < 2 ^ 64" "grown wall i h es s t t1"
    and x: "ValidateTrajectoryExecution x = None" "map_of (mtEntries t1) (txInputEntryID x) \<noteq> None"
  shows "preserves s (length es) (put_trajectory i (set_updated now (set_execution x t1)) s)"
    "preserves s (length es) (put_trajectory i (set_execution x t1) s)"
  using x by (intro ts_inv_edit [OF assms(1-4)]; simp add: local_ok_set)+

text \<open>
  A call is sound when it returns, keeps the invariant and what is visible, and adds at most
  the given number of entries.
\<close>

definition sound :: "tj_store \<Rightarrow> nat \<Rightarrow> (tj_store \<times> 'a result) option \<Rightarrow> bool" where
  "sound s k r \<longleftrightarrow> (\<exists>s' v. r = Some (s', v) \<and> preserves s k s')"

lemma sound_keep: "ts_inv s \<Longrightarrow> sound s k (Some (s, v))"
  using extends_refl by (auto simp: sound_def preserves_def)

lemma sound_with:
  assumes "ts_inv s" "r \<noteq> None" "\<And>x. r = Some (Inr x) \<Longrightarrow> sound s k (f x)"
  shows "sound s k (with_outcome r s f)"
  using assms by (auto simp: with_outcome_def lift_error_def sound_keep split: option.splits sum.splits)

lemma sound_put:
  "preserves s k (put_trajectory i t s) \<Longrightarrow> sound s k (Some (put_trajectory i t s, v))"
  by (simp add: sound_def)

lemma append_returns:
  assumes "ts_inv s" "tmap s i = Some t" "length (store_ids s) + length es < 2 ^ 64"
  shows "appendLocked wall t i h es s \<noteq> None"
  using appendLocked_total [OF _ _ assms(3)] by (metis ts_invD [OF assms(1,2)])

lemma sound_Append:
  assumes "ts_inv s" "length (store_ids s) + length es < 2 ^ 64"
  shows "sound s (length es) (ts_Append ctx wall i h es s)"
  unfolding ts_Append_def
proof (intro sound_with [OF assms(1)], goal_cases)
  case (3 t u)
  then have "tmap s i = Some t" by (simp add: result_simps trajectoryLocked_Inr)
  then show ?case by (rule append_returns [OF assms(1) _ assms(2)])
next
  case (4 t u th)
  then have t: "tmap s i = Some t" by (simp add: result_simps trajectoryLocked_Inr)
  obtain t1 new where th: "th = (t1, new)" by fastforce
  have g: "grown wall i h es s t t1" using 4(3) th by (auto simp: grown_def)
  show ?case
    unfolding th prod.case by (intro sound_put ts_inv_edit [OF assms(1) t assms(2) g]) simp_all
qed simp_all

lemma BindTrajectoryExecutionEntries_Inr:
  "BindTrajectoryExecutionEntries x es = Inr es' \<Longrightarrow> map teID es' = map teID es \<and> length es' = length es"
  by (induction es arbitrary: es')
    (auto simp: result_simps BindTrajectoryExecutionEntry_def split: if_splits)

lemma PrepareTrajectoryExecutionStart_Inr:
  "PrepareTrajectoryExecutionStart start base input now = Inr x \<Longrightarrow>
   ValidateTrajectoryExecution x = None \<and> txInputEntryID x = input \<and> txState x = TrajectoryExecutionPending \<and>
   txBaseHead x = base \<and> txID x = stID start"
  by (auto simp: PrepareTrajectoryExecutionStart_def Let_def result_simps)

lemma sound_Begin:
  assumes "ts_inv s" "length (store_ids s) + 1 < 2 ^ 64"
  shows "sound s 1 (ts_BeginExecution ctx now wall i h start input s)"
  unfolding ts_BeginExecution_def
proof (intro sound_with [OF assms(1)], goal_cases)
  case (2 a)
  then obtain x e t where a: "a = (x, e, t)" "tmap s i = Some t"
    "PrepareTrajectoryExecutionStart start h (teID input) now = Inr x"
    "BindTrajectoryExecutionEntry (txID x) input = Inr e"
    by (auto simp: result_simps trajectoryLocked_Inr)
  have e: "teID e = teID input"
    using a(4) by (auto simp: BindTrajectoryExecutionEntry_def split: if_splits)
  have room: "length (store_ids s) + length [e] < 2 ^ 64" using assms(2) by simp
  show ?case
    unfolding a(1) prod.case
  proof (intro sound_with [OF assms(1)], goal_cases)
    case 1
    then show ?case by (rule append_returns [OF assms(1) a(2) room])
  next
    case (2 th)
    obtain t1 new where th: "th = (t1, new)" by fastforce
    have g: "grown wall i h [e] s t t1" using 2 th by (auto simp: grown_def)
    have "map_of (mtEntries t1) (txInputEntryID x) \<noteq> None"
      using grown_entries(2) [OF assms(1) a(2) room g, of new e] 2 th e
        PrepareTrajectoryExecutionStart_Inr [OF a(3)] by simp
    then show ?case
      using ts_inv_execution(2) [OF assms(1) a(2) room g] PrepareTrajectoryExecutionStart_Inr [OF a(3)]
      unfolding th prod.case Let_def by (intro sound_put) simp
  qed
qed simp

text \<open>An execution that replaces the stored one keeps its input entry.\<close>

lemma sound_execution:
  assumes "ts_inv s" "tmap s i = Some t" "length (store_ids s) + length es < 2 ^ 64" "grown wall i h es s t t1"
    and "tjExecution (mtTrajectory t) = Some x" "ValidateTrajectoryExecution x' = None"
    and "txInputEntryID x' = txInputEntryID x"
  shows "sound s (length es) (Some (put_trajectory i (set_updated now (set_execution x' t1)) s, v))"
proof -
  have "map_of (mtEntries t) (txInputEntryID x) \<noteq> None"
    using assms(5) by (metis ts_invD [OF assms(1,2)] local_ok_def)
  then have "map_of (mtEntries t1) (txInputEntryID x') \<noteq> None"
    using grown_entries(1) [OF assms(1-4)] assms(7) by simp
  then show ?thesis using ts_inv_execution(1) [OF assms(1-4,6)] by (intro sound_put)
qed

lemma grown_refl: "grown wall i h es s t t"
  by (simp add: grown_def)

lemma execution_of_Inr: "execution_of t = Inr x \<longleftrightarrow> tjExecution (mtTrajectory t) = Some x"
  by (simp add: execution_of_def split: option.split)

lemma sound_Claim:
  assumes "ts_inv s" "length (store_ids s) < 2 ^ 64"
  shows "sound s 0 (ts_ClaimExecution ctx newID wall i owner now ttl s)"
  unfolding ts_ClaimExecution_def Let_def
proof (intro sound_with [OF assms(1)], goal_cases)
  case (2 a)
  then obtain x x' t where a: "a = (x', t)" "tmap s i = Some t" "tjExecution (mtTrajectory t) = Some x"
    "ClaimTrajectoryExecution newID wall x owner (if now = 0 then wall else now) ttl = Inr x'"
    by (auto simp: result_simps trajectoryLocked_Inr execution_of_Inr)
  have "ValidateTrajectoryExecution x' = None" "txInputEntryID x' = txInputEntryID x"
    using a(4) by (auto simp: ClaimTrajectoryExecution_Inr)
  note x' = this
  show ?case unfolding a(1) prod.case
    by (rule sound_execution [OF assms(1) a(2) _ grown_refl [of undefined i "[]" "[]"] a(3) x', unfolded list.size(3)])
      (use assms(2) in simp)
qed simp

lemma sound_Renew:
  assumes "ts_inv s" "length (store_ids s) < 2 ^ 64"
  shows "sound s 0 (ts_RenewExecution ctx wall i xid token now ttl s)"
  unfolding ts_RenewExecution_def Let_def
proof (intro sound_with [OF assms(1)], goal_cases)
  case (2 a)
  then obtain x x' t where a: "a = (x', t)" "tmap s i = Some t" "tjExecution (mtTrajectory t) = Some x"
    "RenewTrajectoryExecution x xid token (if now = 0 then wall else now) ttl = Inr x'"
    by (auto simp: result_simps trajectoryLocked_Inr execution_of_Inr)
  have "ValidateTrajectoryExecution x' = None" "txInputEntryID x' = txInputEntryID x"
    using a(4) by (auto simp: RenewTrajectoryExecution_Inr)
  note x' = this
  show ?case unfolding a(1) prod.case
    by (rule sound_execution [OF assms(1) a(2) _ grown_refl [of undefined i "[]" "[]"] a(3) x', unfolded list.size(3)])
      (use assms(2) in simp)
qed simp

text \<open>Commit and cancel append when there are entries.\<close>

lemma sound_commit_entries:
  assumes "ts_inv s" "tmap s i = Some t" "length (store_ids s) + length es < 2 ^ 64"
    and "tjExecution (mtTrajectory t) = Some x" "ValidateTrajectoryExecution x' = None"
    and "txInputEntryID x' = txInputEntryID x"
  shows "sound s (length es) (with_outcome (if length es > 0
         then (case appendLocked wall t i h es s of
                 None \<Rightarrow> None | Some (Inl e) \<Rightarrow> Some (Inl e) | Some (Inr (t, head)) \<Rightarrow> Some (Inr t))
         else Some (Inr t)) s (\<lambda>t. Some (put_trajectory i (set_updated now (set_execution x' t)) s, v t)))"
proof (intro sound_with [OF assms(1)], goal_cases)
  case 1
  then show ?case
    using append_returns [OF assms(1-3), of wall h] by (auto split: option.splits sum.splits)
next
  case (2 t1)
  then have "grown wall i h es s t t1"
    by (auto simp: grown_def split: if_splits option.splits sum.splits)
  then show ?case by (rule sound_execution [OF assms(1-3) _ assms(4-6)])
qed

lemma sound_Commit:
  assumes "ts_inv s" "length (store_ids s) + length (tcEntries commit) < 2 ^ 64"
  shows "sound s (length (tcEntries commit)) (ts_CommitExecution ctx now wall commit s)"
  unfolding ts_CommitExecution_def Let_def
proof (rule sound_with [OF assms(1)], goal_cases)
  case (2 a)
  then obtain x x' es t where a: "a = (x', es, t)" "tmap s (tcTrajectoryID commit) = Some t"
    "tjExecution (mtTrajectory t) = Some x" "CommitTrajectoryExecution x (commit\<lparr>tcEntries := es\<rparr>) now = Inr x'"
    "BindTrajectoryExecutionEntries (tcExecutionID commit) (tcEntries commit) = Inr es"
    by (auto simp: result_simps trajectoryLocked_Inr execution_of_Inr)
  have len: "length (tcEntries commit) = length es" using BindTrajectoryExecutionEntries_Inr [OF a(5)] by simp
  note x' = CommitTrajectoryExecution_Inr(5,8) [OF a(4)]
  show ?case
    unfolding a(1) prod.case len
    by (rule sound_commit_entries [OF assms(1) a(2) _ a(3) x']) (use assms(2) len in simp)
qed simp

lemma sound_Cancel:
  assumes "ts_inv s" "length (store_ids s) + length (ccEntries commit) < 2 ^ 64"
  shows "sound s (length (ccEntries commit)) (ts_CancelExecution ctx clock wall commit s)"
  unfolding ts_CancelExecution_def Let_def
proof (rule sound_with [OF assms(1)], goal_cases)
  case (2 a)
  let ?now = "tj_NormalizeMutationTime clock (ccAt commit)"
  from 2 obtain x x' changed es t where a: "a = (x', changed, es, t)" "tmap s (ccTrajectoryID commit) = Some t"
    "tjExecution (mtTrajectory t) = Some x"
    "CancelTrajectoryExecution x (ccExecutionID commit) (ccReason commit) ?now = Inr (x', changed)"
    "BindTrajectoryExecutionEntries (ccExecutionID commit) (ccEntries commit) = Inr es"
    by (auto simp: result_simps trajectoryLocked_Inr execution_of_Inr)
  have len: "length (ccEntries commit) = length es" using BindTrajectoryExecutionEntries_Inr [OF a(5)] by simp
  show ?case
  proof (cases changed)
    case True
    then have x': "ValidateTrajectoryExecution x' = None" "txInputEntryID x' = txInputEntryID x"
      using a(4) by (auto simp: CancelTrajectoryExecution_Inr split: if_splits)
    show ?thesis
      unfolding a(1) prod.case len if_P [OF True]
      by (rule sound_commit_entries [OF assms(1) a(2) _ a(3) x']) (use assms(2) len in simp)
  next
    case False
    then show ?thesis unfolding a(1) prod.case by (simp add: sound_keep [OF assms(1)])
  qed
qed simp

lemma ts_inv_Delete:
  assumes "ts_inv s"
  shows "ts_inv (fst (ts_Delete ctx i s)) \<and> length (store_ids (fst (ts_Delete ctx i s))) \<le> length (store_ids s) \<and>
    (\<forall>j. j \<noteq> i \<longrightarrow> extends s (fst (ts_Delete ctx i s)) j)"
proof (cases "snd (ts_Delete ctx i s)")
  case (Inl e)
  then have "fst (ts_Delete ctx i s) = s" by (auto simp: ts_Delete_def split: sum.splits)
  then show ?thesis using assms extends_refl by simp
next
  case (Inr u)
  then obtain target where ok: "check ctx (bind_result (trajectoryLocked i s) (\<lambda>target.
        check (reject_if (active (tjExecution (mtTrajectory target)))
          (Wrapf ErrTrajectoryExecution ''%w: trajectory %s execution %s is active''))
        (check (first_error (\<lambda>(j, t). reject_if (tjParentID (mtTrajectory t) = i)
            (Wrapf ErrTrajectoryReferenced ''%w: trajectory %s is parent of %s'')) (msTrajectories s))
         (Inr ())))) = Inr target"
    by (auto simp: ts_Delete_def split: sum.splits)
  then have s': "fst (ts_Delete ctx i s) = s\<lparr>msTrajectories := AList.delete i (msTrajectories s)\<rparr>"
    by (simp add: ts_Delete_def)
  have free: "\<And>j t. (j, t) \<in> set (msTrajectories s) \<Longrightarrow> tjParentID (mtTrajectory t) \<noteq> i"
    using ok by (auto simp: result_simps)
  have wf: "gm_wf (msTrajectories s)" using assms by (simp add: ts_inv_def)
  have T: "map_of (AList.delete i (msTrajectories s)) = (tmap s)(i := None)" by (rule ext) simp
  have keep: "sees ((tmap s)(i := None)) n j L" if "sees (tmap s) n j L" "j \<noteq> i" for n j L
    by (rule sees_delete [OF that]) (use free gm_mem_iff [OF wf] in blast)
  have "local_ok j t \<and> (\<exists>n L. sees ((tmap s)(i := None)) n j L \<and> head_ok t L)"
    if j: "((tmap s)(i := None)) j = Some t" for j t
  proof -
    have ji: "j \<noteq> i" "tmap s j = Some t" using j by (auto split: if_splits)
    obtain n L where ok: "local_ok j t" "sees (tmap s) n j L" "head_ok t L" by (rule ts_invD [OF assms ji(2)])
    have "sees ((tmap s)(i := None)) n j L" by (rule keep [OF ok(2) ji(1)])
    then show ?thesis using ok by blast
  qed
  moreover have "extends s (s\<lparr>msTrajectories := AList.delete i (msTrajectories s)\<rparr>) j" if "j \<noteq> i" for j
    unfolding extends_def using keep [OF _ that] that map_le_refl by (fastforce simp: T)
  ultimately show ?thesis
    using wf sum_list_delete [of "\<lambda>(i, t). length (mtEntries t)" i "msTrajectories s"]
    unfolding s' ts_inv_def length_store_ids by (simp add: T)
qed

text \<open>Creation: a new trajectory has no entries and sees what it inherits.\<close>

fun create_ok :: "tj_call \<Rightarrow> bool" where
  "create_ok (TCreate ctx wall t) \<longleftrightarrow> tjParentID t = [] \<or> tjSchemaVersion t \<noteq> 1"
| "create_ok _ \<longleftrightarrow> True"

lemma PrepareNewTrajectory_Inr:
  assumes "PrepareNewTrajectory wall t now = Inr prepared"
  shows "resourceNamePattern (tjID (ptTrajectory prepared))" "tjID (ptTrajectory prepared) = tjID t"
    "tjEntries (ptTrajectory prepared) = []" "tjHead (ptTrajectory prepared) = []"
    "tjCheckpoint (ptTrajectory prepared) = []" "tjExecution (ptTrajectory prepared) = None"
    "tjSchemaVersion (ptTrajectory prepared) \<le> TrajectorySchemaVersion"
    "tjSchemaVersion (ptTrajectory prepared) = (if tjSchemaVersion t = 0 then 3 else tjSchemaVersion t)"
    "ValidateTrajectoryParent (ptTrajectory prepared) = None" "tjParentID (ptTrajectory prepared) = tjParentID t"
    "tjParentEntryID (ptTrajectory prepared) = tjParentEntryID t" "ptInheritedEntryCount prepared = 0"
proof -
  let ?n = "NormalizeTrajectory t"
  have v: "ValidateNewTrajectory ?n = None" using assms by (auto simp: PrepareNewTrajectory_def Let_def result_simps)
  have p: "tjID (ptTrajectory prepared) = tjID ?n" "tjEntries (ptTrajectory prepared) = []"
    "tjHead (ptTrajectory prepared) = tjHead ?n" "tjCheckpoint (ptTrajectory prepared) = tjCheckpoint ?n"
    "tjExecution (ptTrajectory prepared) = tjExecution ?n" "tjSchemaVersion (ptTrajectory prepared) = tjSchemaVersion ?n"
    "tjParentID (ptTrajectory prepared) = tjParentID ?n" "tjParentEntryID (ptTrajectory prepared) = tjParentEntryID ?n"
    "ptInheritedEntryCount prepared = 0"
    using assms by (auto simp: PrepareNewTrajectory_def Let_def result_simps)
  have n: "tjID ?n = tjID t" "tjParentID ?n = tjParentID t" "tjParentEntryID ?n = tjParentEntryID t"
    "tjSchemaVersion ?n = (if tjSchemaVersion t = 0 then 3 else tjSchemaVersion t)"
    by (simp_all add: NormalizeTrajectory_def TrajectorySchemaVersion_def Let_def)
  show "resourceNamePattern (tjID (ptTrajectory prepared))" "tjID (ptTrajectory prepared) = tjID t"
    "tjEntries (ptTrajectory prepared) = []" "tjHead (ptTrajectory prepared) = []"
    "tjCheckpoint (ptTrajectory prepared) = []" "tjExecution (ptTrajectory prepared) = None"
    "tjSchemaVersion (ptTrajectory prepared) \<le> TrajectorySchemaVersion"
    "tjSchemaVersion (ptTrajectory prepared) = (if tjSchemaVersion t = 0 then 3 else tjSchemaVersion t)"
    "tjParentID (ptTrajectory prepared) = tjParentID t"
    "tjParentEntryID (ptTrajectory prepared) = tjParentEntryID t" "ptInheritedEntryCount prepared = 0"
    using v unfolding p n by (auto simp: ValidateNewTrajectory_def result_simps n not_less)
  show "ValidateTrajectoryParent (ptTrajectory prepared) = None"
    using v ValidateTrajectoryParent_cong [OF p(7,8)] by (simp add: ValidateNewTrajectory_def result_simps)
qed

lemma ts_inv_new_trajectory:
  assumes inv: "ts_inv s" and none: "tmap s i = None" and local: "local_ok i t"
    and view: "\<exists>n L. sees ((tmap s)(i \<mapsto> t)) n i L \<and> head_ok t L" and empty: "mtEntries t = []"
  shows "preserves s 0 (put_trajectory i t s)"
proof -
  let ?U = "(tmap s)(i \<mapsto> t)"
  have "local_ok j u \<and> (\<exists>n L. sees ?U n j L \<and> head_ok u L)" if u: "?U j = Some u" for j u
  proof (cases "j = i")
    case True
    then have "u = t" using u by simp
    then show ?thesis using local view True by blast
  next
    case False
    then have "tmap s j = Some u" using u by simp
    then show ?thesis using sees_create [where T = "tmap s" and i = i, OF _ none] by (metis ts_invD [OF inv])
  qed
  moreover have "gm_wf (msTrajectories s)" using inv by (simp add: ts_inv_def)
  ultimately have "ts_inv (put_trajectory i t s)" unfolding ts_inv_def tmap_put using put_wf by blast
  moreover have "length (store_ids (put_trajectory i t s)) \<le> length (store_ids s) + 0"
    using sum_list_update(1) [of "\<lambda>(i, t). length (mtEntries t)" i t "msTrajectories s"] empty
    by (simp add: length_store_ids put_trajectory_def)
  moreover have "extends s (put_trajectory i t s) j" for j
    unfolding extends_def tmap_put
    using sees_create [where T = "tmap s" and i = i and t' = t, OF _ none] none
    by (metis fun_upd_other map_le_refl option.distinct(1))
  ultimately show ?thesis by (simp add: preserves_def)
qed

lemma chain_inherited:
  assumes "graded P" "chain P h es"
  shows "chain (inherited es) h es"
proof (cases es)
  case (Cons e r)
  then have "e \<in> set es" "teID e = h" using assms(2) gradedD(1) [OF assms(1)] by auto
  then have "inherited es h \<noteq> None" using inherited_Some [OF assms, of h e] by simp
  then show ?thesis
    using chain_closed [OF graded_inherited [OF assms] inherited_le [OF assms] assms(2)] by blast
qed (use assms(2) in simp)

lemma schema_at_least_2: "(w :: u32) \<noteq> 0 \<Longrightarrow> w \<noteq> 1 \<Longrightarrow> \<not> w < 2"
proof
  assume "w \<noteq> 0" "w \<noteq> 1" "w < 2"
  then have "unat w < 2" by (simp add: word_less_nat_alt)
  then have "unat w = 0 \<or> unat w = 1" by linarith
  then show False using \<open>w \<noteq> 0\<close> \<open>w \<noteq> 1\<close> by (metis unat_eq_zero unsigned_1 word_unat_eq_iff)
qed

lemma branchLocked_total:
  assumes "ts_inv s"
  shows "branchLocked i h s \<noteq> None"
proof (cases "trajectoryLocked i s")
  case (Inr t)
  then obtain n L where v: "sees (tmap s) n i L"
    using ts_invD [OF assms] by (metis trajectoryLocked_Inr)
  show ?thesis
  proof (cases "h = [] \<or> L h \<noteq> None")
    case True
    then obtain es where "chain L h es" using graded_chain_exists [OF sees_graded [OF v]] by blast
    then show ?thesis using branchLocked_sees [OF v] by simp
  next
    case False
    then have "lookupLocked s i h = Some (Inr None)" using lookupLocked_answers [OF v] by (simp add: answers_def)
    moreover have "h \<noteq> []" using False by simp
    ultimately have "ResolveBranch (branch_fuel s) i h (lookupLocked s i) = Some (Inl (branchUnknownEntryError i))"
      unfolding ResolveBranch_def branch_fuel_def by (subst walkBranch.simps) simp
    then show ?thesis using Inr by (simp add: branchLocked_def)
  qed
qed (simp add: branchLocked_def)

lemma sound_Create_root:
  assumes "ts_inv s" "PrepareNewTrajectory wall t wall = Inr prepared" "tmap s (tjID t) = None"
    and "tjParentID t = []"
  shows "sound s 0 (Some (put_trajectory (tjID t) \<lparr>mtTrajectory = ptTrajectory prepared, mtEntries = [],
    mtOrder = [], mtInheritedCount = int (unat (ptInheritedEntryCount prepared))\<rparr> s, v))"
proof -
  note p = PrepareNewTrajectory_Inr [OF assms(2)]
  let ?m = "\<lparr>mtTrajectory = ptTrajectory prepared, mtEntries = [], mtOrder = [],
    mtInheritedCount = int (unat (ptInheritedEntryCount prepared))\<rparr>"
  have "local_ok (tjID t) ?m"
    using p assms(4) by (auto simp: local_ok_def order_ok_def own_entries_def)
  moreover have "sees ((tmap s)(tjID t \<mapsto> ?m)) (Suc 0) (tjID t) (map_of (mtEntries ?m))"
    by (rule sees_own) (use p assms(4) in \<open>auto simp: inherits_def\<close>)
  moreover have "head_ok ?m (map_of (mtEntries ?m))"
    using p by (auto simp: head_ok_def checkpoint_of_def intro!: exI [of _ "[]"])
  ultimately show ?thesis
    by (intro sound_put ts_inv_new_trajectory [OF assms(1,3)]) auto
qed

lemma sound_Create_fork:
  assumes "ts_inv s" "length (store_ids s) < 2 ^ 64" "PrepareNewTrajectory wall t wall = Inr prepared"
    and "tmap s (tjID t) = None" "tjParentID t \<noteq> []" "tjSchemaVersion t \<noteq> 1"
    and "branchLocked (tjParentID t) (tjParentEntryID t) s = Some (Inr branch)"
    and "PrepareNewTrajectoryFork prepared branch = Inr prepared'"
  shows "sound s 0 (Some (put_trajectory (tjID (ptTrajectory prepared')) \<lparr>mtTrajectory = ptTrajectory prepared',
    mtEntries = [], mtOrder = [], mtInheritedCount = int (unat (ptInheritedEntryCount prepared'))\<rparr> s, v))"
proof -
  note p = PrepareNewTrajectory_Inr [OF assms(3)]
  let ?m = "\<lparr>mtTrajectory = ptTrajectory prepared', mtEntries = [], mtOrder = [],
    mtInheritedCount = int (unat (ptInheritedEntryCount prepared'))\<rparr>"
  obtain u where u: "tmap s (tjParentID t) = Some u"
    using assms(7) by (auto simp: branchLocked_def trajectoryLocked_Inr split: sum.splits)
  obtain n P where view: "sees (tmap s) n (tjParentID t) P" by (rule ts_invD [OF assms(1) u])
  obtain es where es: "chain P (tjParentEntryID t) es" "branch = rev es" by (rule branchLocked_Inr [OF view assms(7)])
  note g = sees_graded [OF view]
  have len: "length es < 2 ^ 64"
    using chain_finite [OF g es(1) sees_store_ids [OF view]] assms(2) by simp
  have q: "tjID (ptTrajectory prepared') = tjID t" "tjHead (ptTrajectory prepared') = tjParentEntryID t"
    "tjCheckpoint (ptTrajectory prepared') = checkpoint_of es" "tjParentID (ptTrajectory prepared') = tjParentID t"
    "tjParentEntryID (ptTrajectory prepared') = tjParentEntryID t" "tjExecution (ptTrajectory prepared') = None"
    "tjEntries (ptTrajectory prepared') = []"
    "tjSchemaVersion (ptTrajectory prepared') = tjSchemaVersion (ptTrajectory prepared)"
    "unat (ptInheritedEntryCount prepared') = length es"
    using assms(5,8) p len
    by (auto simp: PrepareNewTrajectoryFork_def Let_def es(2) FindLatestInBranch_rev checkpoint_of_def
        unat_of_nat take_bit_nat_eq_self split: if_splits option.splits)
  have "ValidateTrajectoryParent (ptTrajectory prepared') = None"
    using p(9-11) q ValidateTrajectoryParent_cong [of "ptTrajectory prepared'" "ptTrajectory prepared"] by simp
  moreover have inh: "inherits ?m"
    using p(8) q assms(5,6) schema_at_least_2 [of "tjSchemaVersion t"] by (auto simp: inherits_def)
  ultimately have "local_ok (tjID t) ?m"
    using p(7,8) q by (auto simp: local_ok_def order_ok_def own_entries_def)
  moreover have "sees ((tmap s)(tjID t \<mapsto> ?m)) (Suc n) (tjID t) (inherited es ++ map_of (mtEntries ?m))"
    by (rule sees_fork [where P = P])
      (use p q inh es sees_create [OF view assms(4)] graded_inherited [OF g es(1)] in auto)
  moreover have "head_ok ?m (inherited es ++ map_of (mtEntries ?m))"
    using q chain_inherited [OF g es(1)] by (auto simp: head_ok_def)
  ultimately show ?thesis
    unfolding q(1) by (intro sound_put ts_inv_new_trajectory [OF assms(1,4)]) auto
qed

lemma sound_Create:
  assumes "ts_inv s" "length (store_ids s) < 2 ^ 64" "create_ok (TCreate ctx wall t)"
  shows "sound s 0 (ts_Create ctx wall t s)"
  unfolding ts_Create_def Let_def
proof (rule sound_with [OF assms(1)], goal_cases)
  case (2 prepared)
  then have prep: "PrepareNewTrajectory wall t wall = Inr prepared" by (simp add: result_simps)
  note p = PrepareNewTrajectory_Inr [OF prep]
  show ?case
  proof (cases "tmap s (tjID t) = None")
    case False
    then show ?thesis using p(2) sound_keep [OF assms(1)] by (simp add: lift_error_def)
  next
    case none: True
    show ?thesis
    proof (cases "tjParentID t = []")
      case True
      then show ?thesis
        using sound_Create_root [OF assms(1) prep none True] none p by (simp add: with_outcome_def)
    next
      case False
      have "branchLocked (tjParentID t) (tjParentEntryID t) s \<noteq> None" by (rule branchLocked_total [OF assms(1)])
      then show ?thesis
        using sound_Create_fork [OF assms(1,2) prep none False] assms(3) False none p sound_keep [OF assms(1)]
        by (auto simp: with_outcome_def lift_error_def split: option.splits sum.splits)
    qed
  qed
qed simp

section \<open>Runs\<close>

fun call_entries :: "tj_call \<Rightarrow> nat" where
  "call_entries (TAppend ctx wall i head es) = length es"
| "call_entries (TBegin ctx now wall i head start input) = 1"
| "call_entries (TCommit ctx now wall commit) = length (tcEntries commit)"
| "call_entries (TCancel ctx clock wall commit) = length (ccEntries commit)"
| "call_entries _ = 0"

fun deletes :: "string \<Rightarrow> tj_call \<Rightarrow> bool" where
  "deletes i (TDelete ctx j) \<longleftrightarrow> i = j"
| "deletes i _ \<longleftrightarrow> False"

lemma sound_after: "sound s k r \<Longrightarrow> preserves s k (after s r)"
  by (auto simp: sound_def after_def)

lemma ts_step_preserves:
  assumes "ts_inv s" "create_ok c" "length (store_ids s) + call_entries c < 2 ^ 64"
  shows "ts_inv (ts_step c s) \<and> length (store_ids (ts_step c s)) \<le> length (store_ids s) + call_entries c \<and>
    (\<forall>i. \<not> deletes i c \<longrightarrow> extends s (ts_step c s) i)"
proof (cases "\<exists>ctx i. c = TDelete ctx i")
  case True
  then show ?thesis using ts_inv_Delete [OF assms(1)] by fastforce
next
  case False
  then have "preserves s (call_entries c) (ts_step c s)"
    using assms(2,3) sound_Create [OF assms(1)] sound_Append [OF assms(1)] sound_Begin [OF assms(1)]
      sound_Claim [OF assms(1)] sound_Renew [OF assms(1)] sound_Commit [OF assms(1)] sound_Cancel [OF assms(1)]
    by (cases c) (auto intro!: sound_after)
  then show ?thesis by (simp add: preserves_def)
qed

definition run_ok :: "tj_call list \<Rightarrow> tj_store \<Rightarrow> bool" where
  "run_ok cs s \<longleftrightarrow> list_all create_ok cs \<and> length (store_ids s) + sum_list (map call_entries cs) < 2 ^ 64"

lemma run_ok_Cons:
  assumes "run_ok (c # cs) s" "ts_inv s"
  shows "create_ok c" "length (store_ids s) + call_entries c < 2 ^ 64" "run_ok cs (ts_step c s)" "ts_inv (ts_step c s)"
proof -
  show c: "create_ok c" "length (store_ids s) + call_entries c < 2 ^ 64" using assms(1) by (auto simp: run_ok_def)
  from ts_step_preserves [OF assms(2) this] show "run_ok cs (ts_step c s)" "ts_inv (ts_step c s)"
    using assms(1) by (auto simp: run_ok_def)
qed

lemma ts_run_inv: "ts_inv s \<Longrightarrow> run_ok cs s \<Longrightarrow> ts_inv (run_calls ts_step cs s)"
proof (induction cs arbitrary: s)
  case (Cons c cs)
  then show ?case using run_ok_Cons [OF Cons.prems(2,1)] by simp
qed simp

lemma ts_run_extends:
  assumes "ts_inv s" "run_ok cs s" "\<And>c. c \<in> set cs \<Longrightarrow> \<not> deletes i c"
    and "tmap s i = Some t" "sees (tmap s) n i L"
  shows "\<exists>t' L'. tmap (run_calls ts_step cs s) i = Some t' \<and> sees (tmap (run_calls ts_step cs s)) n i L' \<and> L \<subseteq>\<^sub>m L' \<and>
    (tjHead (mtTrajectory t') = tjHead (mtTrajectory t) \<or>
     tjHead (mtTrajectory t') \<noteq> [] \<and> L (tjHead (mtTrajectory t')) = None)"
  using assms
proof (induction cs arbitrary: s t L)
  case (Cons c cs)
  note ok = run_ok_Cons [OF Cons.prems(2,1)]
  have "extends s (ts_step c s) i"
    using ts_step_preserves [OF Cons.prems(1) ok(1,2)] Cons.prems(3) by simp
  then obtain u M where u: "tmap (ts_step c s) i = Some u" "sees (tmap (ts_step c s)) n i M" "L \<subseteq>\<^sub>m M"
    "tjHead (mtTrajectory u) = tjHead (mtTrajectory t) \<or> tjHead (mtTrajectory u) \<noteq> [] \<and> L (tjHead (mtTrajectory u)) = None"
    using Cons.prems(4,5) unfolding extends_def by blast
  obtain t' L' where t': "tmap (run_calls ts_step (c # cs) s) i = Some t'" "sees (tmap (run_calls ts_step (c # cs) s)) n i L'"
    "M \<subseteq>\<^sub>m L'" "tjHead (mtTrajectory t') = tjHead (mtTrajectory u) \<or>
      tjHead (mtTrajectory t') \<noteq> [] \<and> M (tjHead (mtTrajectory t')) = None"
    using Cons.IH [OF ok(4,3) _ u(1,2)] Cons.prems(3) by auto
  have "L x = None" if "M x = None" for x using u(3) that by (metis domIff map_le_def)
  then show ?case using t' u(3,4) map_le_trans by metis
qed auto

end
