(* ===== verification/Trajectory_Properties.thy ===== *)
theory Trajectory_Properties
  imports Trajectory_Invariants
begin

text \<open>
  What the trajectory store promises: its states pass the checks of the loader, branches
  resolve, checkpoints are recorded right, history does not change, and heads and leases
  fence concurrent writers.
\<close>

section \<open>A sample store\<close>

definition env_demo :: tj_environment where
  "env_demo = \<lparr>envSDKAPIVersion = 3, envRuntimeVersion = ''1'', envCreatedGeneration = 1, envParentSessionID = [],
     envOriginInvocationID = [], envOriginInvocationRootID = [], envOriginForkInvocationID = [],
     envOriginMode = AgentSessionNew, envRequestedProvider = ''p'', envSystemDigest = [], envCompositionDigest = [],
     envPlugins = [], envProviders = [], envTools = [], envAgents = [], envHooks = [], envSubscribers = [],
     envCapabilities = [], envEvents = []\<rparr>"

definition new_demo :: "string \<Rightarrow> string \<Rightarrow> string \<Rightarrow> trajectory" where
  "new_demo i parent entry = \<lparr>tjSchemaVersion = 0, tjID = i, tjParentID = parent, tjParentEntryID = entry,
     tjCreatedAt = 0, tjUpdatedAt = 0, tjHead = [], tjCheckpoint = [], tjExecution = None,
     tjEnvironment = env_demo, tjEntries = []\<rparr>"

definition fields_demo :: tj_fields where
  "fields_demo = \<lparr>tfTurn = None, tfExecutionID = [], tfOperationKey = [], tfCorrelationID = [], tfProvider = [],
     tfModel = [], tfToolName = [], tfToolCallID = [], tfFinishReason = [], tfInputTokens = 0, tfOutputTokens = 0,
     tfIsError = None, tfCauseCode = [], tfActionKind = ActionKindOther []\<rparr>"

definition entry_demo :: "string \<Rightarrow> string \<Rightarrow> TrajectoryKind \<Rightarrow> tj_entry" where
  "entry_demo x parent kind = \<lparr>teID = x, teTrajectoryID = [], teParentID = parent, teOrdinal = 0, teDepth = 0,
     teKind = kind, teTimestamp = 0, teGeneration = 1, teFields = fields_demo, teAudit = [],
     tePayloadVersion = 0, tePayload = ''{}'', teAttributes = []\<rparr>"

definition start_demo :: tj_start where
  "start_demo = \<lparr>stID = ''x1'', stProvider = ''p'', stSystem = [], stMaxTurns = 4\<rparr>"

definition commit_demo :: "string \<Rightarrow> tj_commit" where
  "commit_demo token = \<lparr>tcTrajectoryID = ''main'', tcExecutionID = ''x1'', tcLeaseToken = token,
     tcExpectedHead = ''u1'', tcEntries = [entry_demo ''c1'' ''u1'' KindCheckpoint, entry_demo ''t1'' ''c1'' KindTerminal],
     tcState = TrajectoryExecutionRunning, tcError = []\<rparr>"

text \<open>
  A trajectory on which an execution commits a checkpoint, and a fork of it at its first
  entry that goes on by itself.
\<close>

definition tj_calls_demo :: "tj_call list" where
  "tj_calls_demo = [TCreate None 100 (new_demo ''main'' [] []),
     TBegin None 101 (\<lambda>_. 101) ''main'' [] start_demo (entry_demo ''u1'' [] KindUserMessage),
     TClaim None ''k1'' 102 ''main'' ''w1'' 102 60,
     TCommit None 103 (\<lambda>_. 103) (commit_demo ''k1''),
     TCreate None 104 (new_demo ''alt'' ''main'' ''u1''),
     TAppend None (\<lambda>_. 105) ''alt'' ''u1'' [entry_demo ''a1'' ''u1'' KindTerminal]]"

definition tj_demo :: tj_store where
  "tj_demo = run_calls ts_step tj_calls_demo newMemoryTrajectoryStore"

lemma demo_lookups:
  "map fst (msTrajectories tj_demo) = [''main'', ''alt'']"
  by code_simp

lemma run_ok_demo: "run_ok tj_calls_demo newMemoryTrajectoryStore"
  by (simp add: run_ok_def tj_calls_demo_def newMemoryTrajectoryStore_def store_ids_def new_demo_def commit_demo_def)


lemma map_option_SomeE: "map_option f x = Some y \<Longrightarrow> (\<And>z. x = Some z \<Longrightarrow> f z = y \<Longrightarrow> P) \<Longrightarrow> P"
  by auto

lemma map_sum_InrE: "map_sum f g x = Inr y \<Longrightarrow> (\<And>z. x = Inr z \<Longrightarrow> g z = y \<Longrightarrow> P) \<Longrightarrow> P"
  by (cases x) auto

section \<open>Loading\<close>

text \<open>What the loader expects of the entry at an index.\<close>

definition loads :: "trajectory \<Rightarrow> nat \<Rightarrow> tj_entry \<Rightarrow> bool" where
  "loads t j e \<longleftrightarrow> entry_ok (tjID t) e \<and> teOrdinal e = of_nat (Suc j) \<and> teDepth e \<noteq> 0"

lemma load_entry_same:
  assumes "loads t j e" "tjID t \<noteq> []"
  shows "load_entry t j known e = Inr e"
  using assms by (auto simp: load_entry_def loads_def entry_ok_def result_simps Let_def not_less)

lemma load_entries_same:
  assumes "\<And>j. j < length es \<Longrightarrow> loads t (k + j) (es ! j)" "tjID t \<noteq> []"
  shows "load_entries t k known es = Inr (es, fold (\<lambda>e m. AList.update (teID e) e m) es known)"
  using assms(1)
proof (induction es arbitrary: k known)
  case (Cons e es)
  have "loads t k e" using Cons.prems [of 0] by simp
  moreover have "loads t (Suc k + j) (es ! j)" if "j < length es" for j
    using Cons.prems [of "Suc j"] that by simp
  ultimately show ?case using Cons.IH [of "Suc k"] load_entry_same [OF _ assms(2)] by simp
qed simp

lemma linked_depth: "linked L e \<Longrightarrow> teDepth e \<noteq> 0"
  by (auto simp: linked_def split: if_splits)

lemma own_entries_nth:
  assumes "local_ok i t" "sees T n i L" "T i = Some t" "j < length (own_entries t)"
  shows "map_of (mtEntries t) (mtOrder t ! j) = Some (own_entries t ! j)" "loads (mtTrajectory t) j (own_entries t ! j)"
    "teID (own_entries t ! j) = mtOrder t ! j" "linked L (own_entries t ! j)"
proof -
  have j: "j < length (mtOrder t)" using assms(4) by (simp add: own_entries_def)
  then have "mtOrder t ! j \<in> dom (map_of (mtEntries t))" using assms(1) by (auto simp: local_ok_def order_ok_def)
  then show e: "map_of (mtEntries t) (mtOrder t ! j) = Some (own_entries t ! j)" using j by (auto simp: own_entries_def)
  then have L: "L (mtOrder t ! j) = Some (own_entries t ! j)"
    using view_includes_own [OF assms(2,3)] by (metis domI map_le_def)
  note g = gradedD [OF sees_graded [OF assms(2)] L]
  show "teID (own_entries t ! j) = mtOrder t ! j" "linked L (own_entries t ! j)" by (rule g)+
  show "loads (mtTrajectory t) j (own_entries t ! j)"
    using assms(1) e j linked_depth [OF g(3)] by (auto simp: local_ok_def loads_def order_ok_def)
qed

lemma ValidateLoaded_same:
  assumes "tjSchemaVersion t \<le> TrajectorySchemaVersion" "tjSchemaVersion t \<noteq> 0" "tjID t \<noteq> []"
    and "\<And>j. j < length (tjEntries t) \<Longrightarrow> loads t j (tjEntries t ! j)"
    and "ValidateTrajectoryParent t = None"
    and "\<And>x. tjExecution t = Some x \<Longrightarrow> ValidateTrajectoryExecution x = None \<and> txInputEntryID x \<in> teID ` set (tjEntries t)"
  shows "ValidateLoadedTrajectory t = Inr t"
proof -
  have "tePayloadVersion e \<noteq> 0" if "e \<in> set (tjEntries t)" for e
    using that assms(4) by (auto simp: in_set_conv_nth loads_def entry_ok_def)
  then have "map (\<lambda>e. if tePayloadVersion e = 0 then e\<lparr>tePayloadVersion := TrajectoryPayloadVersion\<rparr> else e)
      (tjEntries t) = tjEntries t"
    by (simp add: map_idI)
  then have n: "NormalizeTrajectory t = t" using assms(2) by (simp add: NormalizeTrajectory_def)
  have l: "load_entries t 0 [] (tjEntries t) = Inr (tjEntries t, entry_index (tjEntries t))"
    using load_entries_same [of "tjEntries t" t 0] assms(3,4) by (simp add: entry_index_def)
  have "map_of (entry_index (tjEntries t)) x = stored (tjEntries t) Map.empty x" for x
    by (simp add: entry_index_def map_of_fold_update)
  then have "map_of (entry_index (tjEntries t)) (txInputEntryID x) \<noteq> None" if "tjExecution t = Some x" for x
    using assms(6) [OF that] by (simp add: stored_None del: not_None_eq)
  then show ?thesis
    using assms(1,5,6) by (auto simp: ValidateLoadedTrajectory_def n l result_simps not_less split: option.split)
qed

lemma ts_inv_loads:
  assumes "ts_inv s" "tmap s i = Some t"
  shows "ValidateLoadedTrajectory ((mtTrajectory t)\<lparr>tjEntries := own_entries t\<rparr>) =
    Inr ((mtTrajectory t)\<lparr>tjEntries := own_entries t\<rparr>)"
proof -
  obtain n L where t: "local_ok i t" "sees (tmap s) n i L" "head_ok t L" by (rule ts_invD [OF assms])
  note own = own_entries_nth [OF t(1,2) assms(2)]
  show ?thesis
  proof (rule ValidateLoaded_same)
    show "loads ((mtTrajectory t)\<lparr>tjEntries := own_entries t\<rparr>) j
        (tjEntries ((mtTrajectory t)\<lparr>tjEntries := own_entries t\<rparr>) ! j)"
      if "j < length (tjEntries ((mtTrajectory t)\<lparr>tjEntries := own_entries t\<rparr>))" for j
      using own(2) that by (simp add: loads_def)
    show "ValidateTrajectoryParent ((mtTrajectory t)\<lparr>tjEntries := own_entries t\<rparr>) = None"
      using t(1) ValidateTrajectoryParent_cong [of "(mtTrajectory t)\<lparr>tjEntries := own_entries t\<rparr>" "mtTrajectory t"]
      by (simp add: local_ok_def)
    fix x
    assume x: "tjExecution ((mtTrajectory t)\<lparr>tjEntries := own_entries t\<rparr>) = Some x"
    have "txInputEntryID x \<in> set (mtOrder t)" using t(1) x by (auto simp: local_ok_def order_ok_def)
    moreover have "teID ` set (own_entries t) = set (mtOrder t)"
      using own(3) nth_equalityI [of "map teID (own_entries t)" "mtOrder t"]
      by (metis image_set length_map nth_map own_entries_def)
    ultimately show "ValidateTrajectoryExecution x = None \<and>
        txInputEntryID x \<in> teID ` set (tjEntries ((mtTrajectory t)\<lparr>tjEntries := own_entries t\<rparr>))"
      using t(1) x by (simp add: local_ok_def)
  qed (use t(1) sees_name [OF t(2)] in \<open>auto simp: local_ok_def\<close>)
qed

text \<open>
  C2: After any sequence of calls every stored trajectory passes the check of loaded
  trajectories, and the check finds nothing to fill in: names, kinds, payloads, ordinals and
  depths are right, the parent link is complete, and the execution is well-formed and
  refers to an entry of the trajectory.
\<close>

theorem ts_run_validates:
  assumes "run_ok cs newMemoryTrajectoryStore"
    and "tmap (run_calls ts_step cs newMemoryTrajectoryStore) i = Some t"
  shows "ValidateLoadedTrajectory ((mtTrajectory t)\<lparr>tjEntries := own_entries t\<rparr>) =
    Inr ((mtTrajectory t)\<lparr>tjEntries := own_entries t\<rparr>)"
  using ts_inv_loads [OF ts_run_inv [OF ts_inv_new assms(1)] assms(2)] .

theorem ts_run_validates_witness:
  "\<exists>t. tmap tj_demo ''main'' = Some t \<and> length (own_entries t) = 3 \<and>
   ValidateLoadedTrajectory ((mtTrajectory t)\<lparr>tjEntries := own_entries t\<rparr>) =
    Inr ((mtTrajectory t)\<lparr>tjEntries := own_entries t\<rparr>)"
proof -
  have "length (own_entries (the (tmap tj_demo ''main''))) = 3 \<and> tmap tj_demo ''main'' \<noteq> None" by code_simp
  then show ?thesis using ts_run_validates [OF run_ok_demo] unfolding tj_demo_def by fastforce
qed

section \<open>Branches\<close>

text \<open>A branch: depths count from one, each entry's parent is the entry before it.\<close>

definition branch_ok :: "string \<Rightarrow> tj_entry list \<Rightarrow> bool" where
  "branch_ok head branch \<longleftrightarrow> (if branch = [] then head = [] else teID (last branch) = head) \<and>
     distinct (map teID branch) \<and>
     (\<forall>j<length branch. unat (teDepth (branch ! j)) = Suc j \<and>
        teParentID (branch ! j) = (if j = 0 then [] else teID (branch ! (j - 1))))"

lemma chain_suffix:
  assumes "graded L" "chain L h es" "k < length es"
  shows "chain L (teID (es ! k)) (drop k es)"
  using assms(2,3)
proof (induction es arbitrary: h k)
  case (Cons e es)
  then show ?case using gradedD(1) [OF assms(1)] by (cases k) auto
qed simp

lemma chain_nth:
  assumes "graded L" "chain L h es" "k < length es"
  shows "unat (teDepth (es ! k)) = length es - k"
    "teParentID (es ! k) = (if Suc k < length es then teID (es ! Suc k) else [])"
proof -
  have c: "chain L (teID (es ! k)) (es ! k # drop (Suc k) es)"
    using chain_suffix [OF assms] assms(3) by (simp add: Cons_nth_drop_Suc)
  then show "unat (teDepth (es ! k)) = length es - k"
    using chain_length [OF assms(1) c] assms(3) by simp
  show "teParentID (es ! k) = (if Suc k < length es then teID (es ! Suc k) else [])"
  proof (cases "Suc k < length es")
    case True
    then obtain rest where "drop (Suc k) es = es ! Suc k # rest" by (metis Cons_nth_drop_Suc)
    then have "L (teParentID (es ! k)) = Some (es ! Suc k)" using c by simp
    then show ?thesis using True gradedD(1) [OF assms(1)] by simp
  next
    case False
    then show ?thesis using c by simp
  qed
qed

lemma chain_branch_ok:
  assumes "graded L" "chain L h es"
  shows "branch_ok h (rev es)"
  unfolding branch_ok_def
proof (intro conjI allI impI)
  show "if rev es = [] then h = [] else teID (last (rev es)) = h"
    using assms(2) gradedD(1) [OF assms(1)] by (cases es) auto
  show "distinct (map teID (rev es))" using chain_distinct [OF assms] by (simp add: rev_map [symmetric])
  fix j
  assume "j < length (rev es)"
  then have j: "j < length es" "length es - Suc j < length es" "rev es ! j = es ! (length es - Suc j)"
    by (simp_all add: rev_nth)
  note n = chain_nth [OF assms j(2)]
  show "unat (teDepth (rev es ! j)) = Suc j" using n(1) j by simp
  have "Suc (length es - Suc j) < length es \<longleftrightarrow> j \<noteq> 0" using j(1) by auto
  moreover have "rev es ! (j - 1) = es ! Suc (length es - Suc j)" if "j \<noteq> 0"
    using j(1) that by (simp add: rev_nth Suc_diff_Suc)
  ultimately show "teParentID (rev es ! j) = (if j = 0 then [] else teID (rev es ! (j - 1)))"
    using n(2) j(3) by auto
qed

text \<open>
  C35: Reading branches, in every run of the store without forks that declare schema version 1
  (the store accepts such forks but cannot read them back, see \<open>ts_schema1_fork_unreadable\<close>)
  and with fewer than \<open>2 ^ 64\<close> entries. Reading the branch of any head returns; for the
  recorded head of a trajectory it succeeds; and whenever it succeeds it yields the entries
  from a root to the head, each the parent of the next, without repetition.
\<close>

theorem ts_branches_resolve:
  assumes "run_ok cs newMemoryTrajectoryStore" "s = run_calls ts_step cs newMemoryTrajectoryStore"
  shows "(\<exists>r. ts_LoadBranch None i h s = Some r) \<and>
    (\<forall>branch. ts_LoadBranch None i h s = Some (Inr branch) \<longrightarrow> branch_ok h branch) \<and>
    (\<forall>t. tmap s i = Some t \<longrightarrow> (\<exists>branch. ts_LoadBranch None i (tjHead (mtTrajectory t)) s = Some (Inr branch)))"
proof -
  have inv: "ts_inv s" using ts_run_inv [OF ts_inv_new assms(1)] assms(2) by simp
  have "branch_ok h branch" if b: "branchLocked i h s = Some (Inr branch)" for branch
  proof -
    obtain t where "tmap s i = Some t"
      using b by (auto simp: branchLocked_def trajectoryLocked_Inr split: sum.splits)
    then obtain n L where v: "sees (tmap s) n i L" by (metis ts_invD [OF inv])
    show ?thesis using branchLocked_Inr [OF v b] chain_branch_ok [OF sees_graded [OF v]] by metis
  qed
  moreover have "\<exists>branch. branchLocked i (tjHead (mtTrajectory t)) s = Some (Inr branch)" if "tmap s i = Some t" for t
    using branchLocked_sees ts_invD [OF inv that] by (metis head_ok_def)
  ultimately show ?thesis using branchLocked_total [OF inv] by (auto simp: ts_LoadBranch_def)
qed

theorem ts_branches_resolve_witness:
  "\<exists>branch. ts_LoadBranch None ''alt'' ''a1'' tj_demo = Some (Inr branch) \<and> map teID branch = [''u1'', ''a1''] \<and>
     branch_ok ''a1'' branch"
proof -
  have "map_option (map_sum id (map teID)) (ts_LoadBranch None ''alt'' ''a1'' tj_demo) = Some (Inr [''u1'', ''a1''])"
    by code_simp
  then obtain branch where "ts_LoadBranch None ''alt'' ''a1'' tj_demo = Some (Inr branch)" "map teID branch = [''u1'', ''a1'']"
    by (elim map_option_SomeE map_sum_InrE) auto
  then show ?thesis using ts_branches_resolve [OF run_ok_demo, of tj_demo "''alt''" "''a1''"] by (auto simp: tj_demo_def)
qed

lemma ValidateTrajectoryKind_checkpoint: "ValidateTrajectoryKind KindCheckpoint = None"
  by code_simp

text \<open>
  The recorded checkpoint is the latest one. The checkpoint that the store keeps up
  incrementally at every append and fork is the one that a search of the head's branch
  finds, and the one that a view of that branch shows.
\<close>

theorem ts_checkpoint_latest:
  assumes "run_ok cs newMemoryTrajectoryStore" "s = run_calls ts_step cs newMemoryTrajectoryStore"
    and "tmap s i = Some t"
  shows "\<exists>found view. ts_FindLatest None i (tjHead (mtTrajectory t)) KindCheckpoint s = Some (Inr found) \<and>
    tjCheckpoint (mtTrajectory t) = (case found of None \<Rightarrow> [] | Some e \<Rightarrow> teID e) \<and>
    ts_LoadBranchView None i (tjHead (mtTrajectory t)) s = Some (Inr view) \<and>
    tjCheckpoint view = tjCheckpoint (mtTrajectory t)"
proof -
  have inv: "ts_inv s" using ts_run_inv [OF ts_inv_new assms(1)] assms(2) by simp
  obtain n L where v: "sees (tmap s) n i L" "head_ok t L" by (rule ts_invD [OF inv assms(3)])
  then obtain es where es: "chain L (tjHead (mtTrajectory t)) es" "tjCheckpoint (mtTrajectory t) = checkpoint_of es"
    by (auto simp: head_ok_def)
  have t: "trajectoryLocked i s = Inr t" using sees_name [OF v(1)] assms(3) by (simp add: trajectoryLocked_Inr)
  have "LatestEntry (branch_fuel s) (tjHead (mtTrajectory t)) KindCheckpoint (lookupLocked s i) =
      Some (Inr (find (\<lambda>e. teKind e = KindCheckpoint) es))"
    by (rule LatestEntry_chain [OF lookupLocked_answers [OF v(1)] sees_graded [OF v(1)] es(1) sees_chain_fuel [OF v(1) es(1)]])
  then have "ts_FindLatest None i (tjHead (mtTrajectory t)) KindCheckpoint s =
      Some (Inr (find (\<lambda>e. teKind e = KindCheckpoint) es))"
    by (simp add: ts_FindLatest_def findLatestLocked_def t ValidateTrajectoryKind_checkpoint)
  moreover have "ts_LoadBranchView None i (tjHead (mtTrajectory t)) s =
      Some (Inr (ProjectTrajectoryBranch (stored_metadata t) (tjHead (mtTrajectory t)) (rev es)))"
    using branchLocked_sees [OF v(1) es(1)] by (simp add: ts_LoadBranchView_def t)
  ultimately show ?thesis
    using es(2) by (auto simp: checkpoint_of_def ProjectTrajectoryBranch_def FindLatestInBranch_rev split: option.splits)
qed

theorem ts_checkpoint_latest_witness:
  "\<exists>t view. tmap tj_demo ''main'' = Some t \<and> tjHead (mtTrajectory t) = ''t1'' \<and> tjCheckpoint (mtTrajectory t) = ''c1'' \<and>
     ts_LoadBranchView None ''main'' ''t1'' tj_demo = Some (Inr view) \<and> tjCheckpoint view = ''c1''"
proof -
  have "map_option (\<lambda>t. (tjHead (mtTrajectory t), tjCheckpoint (mtTrajectory t))) (tmap tj_demo ''main'') = Some (''t1'', ''c1'')"
    by code_simp
  then obtain t where "tmap tj_demo ''main'' = Some t" "tjHead (mtTrajectory t) = ''t1''" "tjCheckpoint (mtTrajectory t) = ''c1''"
    by auto
  then show ?thesis using ts_checkpoint_latest [OF run_ok_demo, of tj_demo "''main''" t] by (auto simp: tj_demo_def)
qed

section \<open>Materialised trajectories\<close>

lemma branch_loop_chain:
  assumes "\<And>x. map_of index x = L x" "graded L" "chain L h es" "length es \<le> n" "set seen \<inter> teID ` set es = {}"
  shows "branch_loop n index seen h acc = Some (Inr (rev es @ acc))"
  using assms(3-5)
proof (induction es arbitrary: n h seen acc)
  case Nil
  then show ?case by (simp add: branch_loop.simps)
next
  case (Cons e es)
  then obtain m where m: "n = Suc m" "length es \<le> m" by (cases n) auto
  have e: "h \<noteq> []" "L h = Some e" "teID e = h" "chain L (teParentID e) es" "h \<notin> set seen"
    using Cons.prems gradedD(1) [OF assms(2)] by auto
  have "set (h # seen) \<inter> teID ` set es = {}"
    using Cons.prems(3) chain_distinct [OF assms(2) Cons.prems(1)] e(3) by auto
  then have "branch_loop m index (h # seen) (teParentID e) (e # acc) = Some (Inr (rev es @ e # acc))"
    by (rule Cons.IH [OF e(4) m(2)])
  then show ?case using e m(1) assms(1) by (simp add: branch_loop.simps [of "Suc m"])
qed

text \<open>A materialised trajectory holds exactly what the trajectory sees.\<close>

lemma stored_unique:
  assumes "distinct (map teID es)" "\<And>x e. M x = Some e \<longleftrightarrow> e \<in> set es \<and> teID e = x"
  shows "stored es Map.empty = M"
proof
  fix x
  show "stored es Map.empty x = M x"
  proof (cases "M x")
    case None
    then have "x \<notin> teID ` set es" using assms(2) by (metis imageE option.distinct(1))
    then show ?thesis using None by (simp add: stored_None)
  next
    case (Some e)
    then have e: "e \<in> set es" "teID e = x" using assms(2) by auto
    then obtain e' where e': "find (\<lambda>e. teID e = x) es = Some e'"
      by (metis (mono_tags, lifting) find_None_iff not_None_eq)
    then have "e' \<in> set es" "teID e' = x" by (auto simp: find_Some_iff)
    then have "M x = Some e'" using assms(2) by blast
    then show ?thesis using stored_apply [OF assms(1)] e' by simp
  qed
qed

lemma stored_own:
  assumes "local_ok i t" "sees T n i L" "T i = Some t"
  shows "stored (own_entries t) Map.empty = map_of (mtEntries t)"
proof (rule stored_unique)
  note own = own_entries_nth [OF assms]
  have ids: "map teID (own_entries t) = mtOrder t"
    using own(3) by (intro nth_equalityI) (auto simp: own_entries_def)
  then show "distinct (map teID (own_entries t))" using assms(1) by (simp add: local_ok_def order_ok_def)
  fix x e
  show "map_of (mtEntries t) x = Some e \<longleftrightarrow> e \<in> set (own_entries t) \<and> teID e = x"
  proof
    assume e: "map_of (mtEntries t) x = Some e"
    then have "x \<in> set (mtOrder t)" using assms(1) by (auto simp: local_ok_def order_ok_def)
    then obtain j where "j < length (mtOrder t)" "mtOrder t ! j = x" by (auto simp: in_set_conv_nth)
    moreover have "length (own_entries t) = length (mtOrder t)" by (simp add: own_entries_def)
    ultimately show "e \<in> set (own_entries t) \<and> teID e = x" using own(1,3) [of j] e by (metis nth_mem option.inject)
  next
    assume e: "e \<in> set (own_entries t) \<and> teID e = x"
    then obtain j where "j < length (own_entries t)" "own_entries t ! j = e" by (auto simp: in_set_conv_nth)
    then show "map_of (mtEntries t) x = Some e" using own(1,3) [of j] e by simp
  qed
qed

lemma stored_inherited:
  assumes "graded L" "chain L h es"
  shows "stored (rev es) Map.empty = inherited es"
  by (rule stored_unique) (use chain_distinct [OF assms] inherited_Some [OF assms] in \<open>auto simp: rev_map [symmetric]\<close>)

lemma materialised_view:
  assumes "ts_inv s" "tmap s i = Some t" "sees (tmap s) n i L"
  obtains es where "materializeLocked i s = Some (Inr ((mtTrajectory t)\<lparr>tjEntries := es\<rparr>))"
    "stored es Map.empty = L" "int (length es) = mtInheritedCount t + int (length (mtOrder t))"
proof -
  have ok: "local_ok i t" by (metis ts_invD [OF assms(1,2)])
  have t: "trajectoryLocked i s = Inr t" using sees_name [OF assms(3)] assms(2) by (simp add: trajectoryLocked_Inr)
  have own: "length (own_entries t) = length (mtOrder t)" by (simp add: own_entries_def)
  note st = stored_own [OF ok assms(3,2)]
  from assms(3) show ?thesis
  proof cases
    case (sees_own t')
    then have "t' = t" using assms(2) by simp
    then show ?thesis
      using sees_own that [of "own_entries t"] st own t by (simp add: materializeLocked_def Let_def)
  next
    case (sees_fork t' m P es)
    then have "t' = t" using assms(2) by simp
    have "branchLocked (tjParentID (mtTrajectory t)) (tjParentEntryID (mtTrajectory t)) s = Some (Inr (rev es))"
      using branchLocked_sees sees_fork \<open>t' = t\<close> by blast
    then have "materializeLocked i s = Some (Inr ((mtTrajectory t)\<lparr>tjEntries := rev es @ own_entries t\<rparr>))"
      using t sees_fork \<open>t' = t\<close> by (simp add: materializeLocked_def Let_def)
    moreover have "stored (rev es @ own_entries t) Map.empty = L"
    proof -
      have "stored (rev es @ own_entries t) Map.empty = stored (own_entries t) (inherited es ++ Map.empty)"
        using stored_inherited [OF sees_graded] sees_fork by (simp add: stored_def)
      also have "\<dots> = L" using stored_map_add st sees_fork \<open>t' = t\<close> by metis
      finally show ?thesis .
    qed
    ultimately show ?thesis using that [of "rev es @ own_entries t"] own sees_fork \<open>t' = t\<close> by simp
  qed
qed

text \<open>
  A trajectory loaded as a whole agrees with reads from the store. \<open>Load\<close> succeeds
  for every stored trajectory, holds as many entries as the metadata counts, and its
  \<open>Branch\<close> gives for every head what \<open>LoadBranch\<close> gives, errors included.
\<close>

theorem ts_Load_Branch:
  assumes "run_ok cs newMemoryTrajectoryStore" "s = run_calls ts_step cs newMemoryTrajectoryStore"
    and "tmap s i = Some t"
  shows "\<exists>loaded. ts_Load None i s = Some (Inr loaded) \<and>
    ts_LoadMetadata None i s = Inr (TrajectoryMetadata loaded (int (length (tjEntries loaded))) (int (length (mtOrder t)))) \<and>
    (\<forall>h. tj_Branch loaded h = ts_LoadBranch None i h s)"
proof -
  have inv: "ts_inv s" using ts_run_inv [OF ts_inv_new assms(1)] assms(2) by simp
  obtain n L where v: "sees (tmap s) n i L" by (metis ts_invD [OF inv assms(3)])
  obtain es where es: "materializeLocked i s = Some (Inr ((mtTrajectory t)\<lparr>tjEntries := es\<rparr>))"
    "stored es Map.empty = L" "int (length es) = mtInheritedCount t + int (length (mtOrder t))"
    by (rule materialised_view [OF inv assms(3) v])
  let ?loaded = "(mtTrajectory t)\<lparr>tjEntries := es\<rparr>"
  have idx: "map_of (entry_index es) x = L x" for x using es(2) by (simp add: entry_index_def map_of_fold_update)
  have t: "trajectoryLocked i s = Inr t" and i: "i \<noteq> []"
    using sees_name [OF v] assms(3) by (auto simp: trajectoryLocked_Inr)
  have "tj_Branch ?loaded h = branchLocked i h s" for h
  proof (cases "h = [] \<or> L h \<noteq> None")
    case True
    then obtain bs where bs: "chain L h bs" using graded_chain_exists [OF sees_graded [OF v]] by blast
    have "dom L \<subseteq> set (map teID es)" using es(2) dom_stored [of es Map.empty] by auto
    then have "length bs \<le> length es" using chain_finite [OF sees_graded [OF v] bs] by fastforce
    then show ?thesis
      using branchLocked_sees [OF v bs] branch_loop_chain [OF idx sees_graded [OF v] bs, of "Suc (length es)" "[]" "[]"] bs
      by (cases bs) (auto simp: tj_Branch_def)
  next
    case False
    then have "lookupLocked s i h = Some (Inr None)" using lookupLocked_answers [OF v] by (simp add: answers_def)
    then show ?thesis
      using False t i idx by (simp add: branchLocked_def ResolveBranch_def branch_fuel_def walkBranch.simps
          tj_Branch_def branch_loop.simps branchUnknownEntryError_def)
  qed
  moreover have "stored_metadata t = TrajectoryMetadata ?loaded (int (length (tjEntries ?loaded))) (int (length (mtOrder t)))"
    using es(3) by (simp add: stored_metadata_def TrajectoryMetadata_def)
  ultimately show ?thesis using es(1) t by (simp add: ts_Load_def ts_LoadBranch_def ts_LoadMetadata_def)
qed

theorem ts_Load_Branch_witness:
  "\<exists>loaded branch. ts_Load None ''alt'' tj_demo = Some (Inr loaded) \<and> map teID (tjEntries loaded) = [''u1'', ''a1''] \<and>
     tj_Branch loaded ''u1'' = ts_LoadBranch None ''alt'' ''u1'' tj_demo"
proof -
  have "tmap tj_demo ''alt'' \<noteq> None" by code_simp
  then obtain t where t: "tmap tj_demo ''alt'' = Some t" by blast
  have "map_option (map_sum id (\<lambda>l. map teID (tjEntries l))) (ts_Load None ''alt'' tj_demo) = Some (Inr [''u1'', ''a1''])"
    by code_simp
  then show ?thesis using ts_Load_Branch [OF run_ok_demo, of tj_demo "''alt''" t] t by (auto simp: tj_demo_def)
qed

section \<open>History\<close>

lemma ts_LoadEntry_sees:
  assumes "sees (tmap s) n i L"
  shows "ts_LoadEntry None i x s = (case ValidateResourceName ''trajectory entry'' x of
      Some e \<Rightarrow> Some (Inl e)
    | None \<Rightarrow> Some (case L x of None \<Rightarrow> Inl (Wrapf ErrTrajectoryEntryNotFound ''%w: trajectory %s entry %s'') | Some e \<Rightarrow> Inr e))"
  using lookupLocked_answers [OF assms] by (auto simp: ts_LoadEntry_def answers_def split: option.split)

lemma branchLocked_found: "branchLocked i h s = Some (Inr b) \<Longrightarrow> \<exists>t. tmap s i = Some t"
  by (auto simp: branchLocked_def trajectoryLocked_Inr split: sum.splits)

lemma lookupLocked_found: "lookupLocked s i x = Some (Inr r) \<Longrightarrow> \<exists>t. tmap s i = Some t"
  by (auto simp: lookupLocked_def fork_fuel_def trajectoryLocked_Inr split: sum.splits)

lemma run_ok_append:
  "ts_inv s \<Longrightarrow> run_ok (cs @ ds) s \<Longrightarrow> run_ok cs s \<and> run_ok ds (run_calls ts_step cs s)"
proof (induction cs arbitrary: s)
  case Nil
  then show ?case by (simp add: run_ok_def)
next
  case (Cons c cs)
  then have "run_ok (c # (cs @ ds)) s" by simp
  from run_ok_Cons [OF this Cons.prems(1)] Cons show ?case by (simp add: run_ok_def)
qed

text \<open>
  C1: History does not change. A branch or an entry that was read from a trajectory once
  reads the same after any further calls, on any trajectory, as long as the trajectory
  itself is not deleted. In particular no call can delete the trajectory it was forked
  from, and appends by other writers do not show up in the branch.
\<close>

theorem ts_history_immutable:
  assumes "run_ok (cs @ ds) newMemoryTrajectoryStore" "s = run_calls ts_step cs newMemoryTrajectoryStore"
    and "list_all (\<lambda>c. \<not> deletes i c) ds"
  shows "(\<forall>h branch. ts_LoadBranch None i h s = Some (Inr branch) \<longrightarrow>
      ts_LoadBranch None i h (run_calls ts_step ds s) = Some (Inr branch)) \<and>
    (\<forall>x e. ts_LoadEntry None i x s = Some (Inr e) \<longrightarrow>
      ts_LoadEntry None i x (run_calls ts_step ds s) = Some (Inr e))"
proof -
  have ok: "run_ok cs newMemoryTrajectoryStore" "run_ok ds s"
    using run_ok_append [OF ts_inv_new assms(1)] assms(2) by auto
  have inv: "ts_inv s" using ts_run_inv [OF ts_inv_new ok(1)] assms(2) by simp
  have del: "\<not> deletes i c" if "c \<in> set ds" for c using assms(3) that by (auto simp: list_all_iff)
  have keep: "\<exists>L n L'. sees (tmap s) n i L \<and> sees (tmap (run_calls ts_step ds s)) n i L' \<and> L \<subseteq>\<^sub>m L'"
    if t: "tmap s i = Some t" for t
  proof -
    obtain n L where v: "sees (tmap s) n i L" by (metis ts_invD [OF inv t])
    then show ?thesis using ts_run_extends [OF inv ok(2) del t v] by blast
  qed
  have "ts_LoadBranch None i h (run_calls ts_step ds s) = Some (Inr branch)"
    if "ts_LoadBranch None i h s = Some (Inr branch)" for h branch
  proof -
    have b: "branchLocked i h s = Some (Inr branch)" using that by (simp add: ts_LoadBranch_def)
    then obtain n L L' where v: "sees (tmap s) n i L" "sees (tmap (run_calls ts_step ds s)) n i L'" "L \<subseteq>\<^sub>m L'"
      using branchLocked_found keep by blast
    obtain es where "chain L h es" "branch = rev es" by (rule branchLocked_Inr [OF v(1) b])
    then show ?thesis using branchLocked_sees [OF v(2) chain_mono [OF _ v(3)]] by (simp add: ts_LoadBranch_def)
  qed
  moreover have "ts_LoadEntry None i x (run_calls ts_step ds s) = Some (Inr e)"
    if e: "ts_LoadEntry None i x s = Some (Inr e)" for x e
  proof -
    have "lookupLocked s i x = Some (Inr (Some e))" using e by (auto simp: ts_LoadEntry_def split: option.splits sum.splits)
    then obtain n L L' where v: "sees (tmap s) n i L" "sees (tmap (run_calls ts_step ds s)) n i L'" "L \<subseteq>\<^sub>m L'"
      using lookupLocked_found keep by blast
    have "L x = Some e" using e unfolding ts_LoadEntry_sees [OF v(1)] by (auto split: option.splits)
    then have "L' x = Some e" using v(3) by (metis domI map_le_def)
    then show ?thesis using e unfolding ts_LoadEntry_sees [OF v(1)] ts_LoadEntry_sees [OF v(2)] by (auto split: option.splits)
  qed
  ultimately show ?thesis by blast
qed

definition tj_more_demo :: "tj_call list" where
  "tj_more_demo = [TDelete None ''main'', TAppend None (\<lambda>_. 110) ''alt'' ''a1'' [entry_demo ''r1'' [] KindRestore],
     TCancel None 111 (\<lambda>_. 111) \<lparr>ccTrajectoryID = ''main'', ccExecutionID = ''x1'', ccExpectedHead = ''t1'',
       ccReason = ''stop'', ccAt = 111, ccEntries = []\<rparr>, TDelete None ''main'']"

lemma run_ok_more: "run_ok (tj_calls_demo @ tj_more_demo) newMemoryTrajectoryStore"
  by (simp add: run_ok_def tj_calls_demo_def tj_more_demo_def newMemoryTrajectoryStore_def store_ids_def new_demo_def commit_demo_def)

theorem ts_history_immutable_witness:
  "\<exists>branch. ts_LoadBranch None ''alt'' ''a1'' tj_demo = Some (Inr branch) \<and> map teID branch = [''u1'', ''a1''] \<and>
     ts_LoadBranch None ''alt'' ''a1'' (run_calls ts_step tj_more_demo tj_demo) = Some (Inr branch)"
proof -
  have "map_option (map_sum id (map teID)) (ts_LoadBranch None ''alt'' ''a1'' tj_demo) = Some (Inr [''u1'', ''a1''])"
    by code_simp
  moreover have "list_all (\<lambda>c. \<not> deletes ''alt'' c) tj_more_demo" by code_simp
  ultimately show ?thesis using ts_history_immutable [OF run_ok_more, of tj_demo "''alt''"]
    by (elim map_option_SomeE map_sum_InrE) (auto simp: tj_demo_def)
qed

section \<open>Forks of the first schema version\<close>

text \<open>
  The calls of a run do not create forks that declare schema version 1 (\<open>create_ok\<close>).
  The store accepts such a fork and records the fork point as its head, but lookups of
  version 1 do not continue in the parent, so the recorded head cannot be read.
\<close>

theorem ts_schema1_fork_unreadable:
  "\<exists>s t e. ts_Create None 200 ((new_demo ''old'' ''main'' ''u1'')\<lparr>tjSchemaVersion := 1\<rparr>) tj_demo = Some (s, Inr ()) \<and>
     tmap s ''old'' = Some t \<and> tjHead (mtTrajectory t) = ''u1'' \<and>
     ts_LoadBranch None ''old'' ''u1'' s = Some (Inl e)"
proof -
  let ?r = "ts_Create None 200 ((new_demo ''old'' ''main'' ''u1'')\<lparr>tjSchemaVersion := 1\<rparr>) tj_demo"
  have "map_option (\<lambda>(s, r). (r, map_option (\<lambda>t. tjHead (mtTrajectory t)) (tmap s ''old''),
      map_option (map_sum (\<lambda>_. ()) (map teID)) (ts_LoadBranch None ''old'' ''u1'' s))) ?r =
      Some (Inr (), Some ''u1'', Some (Inl ()))"
    by code_simp
  then obtain s t r where s: "?r = Some (s, Inr ())" "tmap s ''old'' = Some t" "tjHead (mtTrajectory t) = ''u1''"
    "ts_LoadBranch None ''old'' ''u1'' s = Some r" "map_sum (\<lambda>_. ()) (map teID) r = Inl ()"
    by (elim map_option_SomeE) (auto elim: map_option_SomeE)
  then show ?thesis by (cases r) auto
qed

end
