(* ===== verification/Gateway_Inputs.thy ===== *)
theory Gateway_Inputs
  imports Resource_Names Stores
begin

text \<open>
  The user-command state machine of the gateway: the transitions of \<open>gateway/input.go\<close> on
  one session's stream and the store of \<open>gateway/input_store_memory.go\<close>. The Go code
  writes the changed input into the slice in place; the model returns the new list. The
  clock and a generated ID are arguments.
\<close>

section \<open>Data\<close>

datatype AgentInputState =
    AgentInputQueued | AgentInputDispatching | AgentInputSucceeded | AgentInputFailed
  | AgentInputCancelled | AgentInputStateOther string

definition AgentInputPrompt :: string where "AgentInputPrompt = ''prompt''"

definition in_Terminal :: "AgentInputState \<Rightarrow> bool" where
  "in_Terminal st \<longleftrightarrow> st \<in> {AgentInputSucceeded, AgentInputFailed, AgentInputCancelled}"

record agent_input =
  inID :: string
  inSessionID :: string
  inSequence :: u64
  inKind :: string
  inContent :: string
  inState :: AgentInputState
  inExecutionID :: string
  inLastError :: string
  inRevision :: u64
  inCreatedAt :: gotime
  inUpdatedAt :: gotime

record input_query =
  iqAfter :: u64
  iqLimit :: int

record input_stream =
  stNextSequence :: u64
  stInputs :: "agent_input list"

definition no_stream :: input_stream where
  "no_stream = \<lparr>stNextSequence = 0, stInputs = []\<rparr>"

section \<open>Transitions of a stream\<close>

definition normalizeEventSessionID :: "string \<Rightarrow> string result" where
  "normalizeEventSessionID sid =
     (let sid = TrimSpace sid in check (ValidateResourceName ''gateway event session'' sid) (Inr sid))"

definition normalizeAgentInput :: "string \<Rightarrow> agent_input \<Rightarrow> agent_input result" where
  "normalizeAgentInput newID input =
     (let input = input\<lparr>inID := TrimSpace (inID input)\<rparr>;
          input = (if inID input = [] then input\<lparr>inID := newID\<rparr> else input)
      in check (ValidateResourceName ''gateway input'' (inID input))
      (bind_result (normalizeEventSessionID (inSessionID input)) (\<lambda>sid.
       let input = input\<lparr>inSessionID := sid\<rparr>;
           input = (if inKind input = [] then input\<lparr>inKind := AgentInputPrompt\<rparr> else input)
       in check (reject_if (inKind input \<noteq> AgentInputPrompt) (Errorf ''unknown gateway input kind %q''))
       (let input = input\<lparr>inContent := TrimSpace (inContent input)\<rparr>
        in check (reject_if (inContent input = []) (Errorf ''gateway input content is empty''))
           (Inr input)))))"

definition defaultInputPageSize :: int where "defaultInputPageSize = 100"
definition maxInputPageSize :: int where "maxInputPageSize = 1000"

definition normalizeInputQuery :: "input_query \<Rightarrow> input_query result" where
  "normalizeInputQuery query =
     (let query = (if iqLimit query = 0 then query\<lparr>iqLimit := defaultInputPageSize\<rparr> else query)
      in check (reject_if (iqLimit query < 1 \<or> iqLimit query > maxInputPageSize)
           (Errorf ''gateway input page limit must be between 1 and %d'')) (Inr query))"

text \<open>The duplicate scan of \<open>enqueueAgentInput\<close>: the first input with the same ID.\<close>

fun find_input :: "string \<Rightarrow> agent_input list \<Rightarrow> agent_input option" where
  "find_input i [] = None"
| "find_input i (x # xs) = (if inID x \<noteq> i then find_input i xs else Some x)"

definition enqueueAgentInput ::
  "input_stream \<Rightarrow> agent_input \<Rightarrow> gotime \<Rightarrow> (input_stream \<times> agent_input \<times> bool) result" where
  "enqueueAgentInput stream input now =
     (case find_input (inID input) (stInputs stream) of
        Some current \<Rightarrow>
          if inSessionID current = inSessionID input \<and> inKind current = inKind input \<and>
             inContent current = inContent input
          then Inr (stream, current, False)
          else Inl (Wrapf ErrInputConflict ''%w: input ID %s was reused with different content'')
      | None \<Rightarrow>
          let stream = (if stNextSequence stream = 0 then stream\<lparr>stNextSequence := 1\<rparr> else stream) in
          if stNextSequence stream = - 1
          then Inl (Errorf ''gateway input sequence is exhausted'')
          else let input = input\<lparr>inSequence := stNextSequence stream, inState := AgentInputQueued,
                     inExecutionID := [], inLastError := [], inRevision := 1,
                     inCreatedAt := now, inUpdatedAt := now\<rparr>
               in Inr (stream\<lparr>stNextSequence := stNextSequence stream + 1,
                         stInputs := stInputs stream @ [input]\<rparr>, input, True))"

text \<open>The loop of \<open>listAgentInputs\<close>; \<open>n\<close> is the room left on the page.\<close>

fun list_inputs :: "u64 \<Rightarrow> nat \<Rightarrow> agent_input list \<Rightarrow> agent_input list" where
  "list_inputs after n [] = []"
| "list_inputs after n (x # xs) =
     (if inSequence x \<le> after then list_inputs after n xs
      else if n = 1 then [x] else x # list_inputs after (n - 1) xs)"

definition listAgentInputs :: "input_stream \<Rightarrow> input_query \<Rightarrow> agent_input list \<times> u64" where
  "listAgentInputs stream query =
     (let items = list_inputs (iqAfter query) (nat (iqLimit query)) (stInputs stream) in
      (items, if length items > 0 then inSequence (items ! (length items - 1)) else 0))"

text \<open>
  The loop that the mutations share: find the first input that satisfies a condition,
  change it in place or fail. The boolean says whether the stream changed.
\<close>

fun update_first ::
  "('a \<Rightarrow> bool) \<Rightarrow> ('a \<Rightarrow> ('a \<times> bool) result) \<Rightarrow> 'b result \<Rightarrow> ('a list \<Rightarrow> 'a \<Rightarrow> bool \<Rightarrow> 'b) \<Rightarrow> 'a list \<Rightarrow> 'b result" where
  "update_first P f missing k [] = missing"
| "update_first P f missing k (x # xs) =
     (if P x then bind_result (f x) (\<lambda>(y, changed). Inr (k (y # xs) y changed))
      else update_first P f missing (\<lambda>ys. k (x # ys)) xs)"

fun find_dispatching :: "agent_input option \<Rightarrow> agent_input list \<Rightarrow> agent_input option result" where
  "find_dispatching found [] = Inr found"
| "find_dispatching found (x # xs) =
     (if inState x \<noteq> AgentInputDispatching then find_dispatching found xs
      else if found \<noteq> None
      then Inl (Errorf ''gateway input stream contains multiple dispatching inputs'')
      else find_dispatching (Some x) xs)"

text \<open>The result: the stream, the acquired input and whether it was resumed, and \<open>changed\<close>.\<close>

definition acquireAgentInput ::
  "input_stream \<Rightarrow> gotime \<Rightarrow> (input_stream \<times> (agent_input \<times> bool) option \<times> bool) result" where
  "acquireAgentInput stream now =
     bind_result (find_dispatching None (stInputs stream)) (\<lambda>d. case d of
        Some x \<Rightarrow> Inr (stream, Some (x, True), False)
      | None \<Rightarrow>
          update_first (\<lambda>x. inState x = AgentInputQueued)
            (\<lambda>x. Inr (x\<lparr>inState := AgentInputDispatching, inRevision := inRevision x + 1,
                       inUpdatedAt := now\<rparr>, True))
            (Inr (stream, None, False))
            (\<lambda>xs x changed. (stream\<lparr>stInputs := xs\<rparr>, Some (x, False), changed))
            (stInputs stream))"

definition bindAgentInputExecution ::
  "input_stream \<Rightarrow> string \<Rightarrow> string \<Rightarrow> gotime \<Rightarrow> (input_stream \<times> agent_input \<times> bool) result" where
  "bindAgentInputExecution stream inputID executionID now =
     check (ValidateResourceName ''gateway input execution'' executionID)
     (update_first (\<lambda>x. inID x = inputID)
       (\<lambda>x. if inState x \<noteq> AgentInputDispatching
            then Inl (Wrapf ErrInputConflict ''%w: input %s is %s'')
            else if inExecutionID x = executionID then Inr (x, False)
            else if inExecutionID x \<noteq> []
            then Inl (Wrapf ErrInputConflict ''%w: input %s is bound to execution %s'')
            else Inr (x\<lparr>inExecutionID := executionID, inRevision := inRevision x + 1,
                        inUpdatedAt := now\<rparr>, True))
       (Inl (Wrapf ErrInputNotFound ''%w: %s''))
       (\<lambda>xs x changed. (stream\<lparr>stInputs := xs\<rparr>, x, changed))
       (stInputs stream))"

definition completeAgentInput ::
  "input_stream \<Rightarrow> string \<Rightarrow> AgentInputState \<Rightarrow> string \<Rightarrow> gotime \<Rightarrow>
   (input_stream \<times> agent_input \<times> bool) result" where
  "completeAgentInput stream inputID st lastError now =
     check (reject_if (\<not> in_Terminal st) (Errorf ''gateway input completion state %q is not terminal''))
     (let lastError = TrimSpace lastError in
      update_first (\<lambda>x. inID x = inputID)
       (\<lambda>x. if inState x = st \<and> inLastError x = lastError then Inr (x, False)
            else if inState x \<noteq> AgentInputDispatching
            then Inl (Wrapf ErrInputConflict ''%w: input %s is %s'')
            else Inr (x\<lparr>inState := st, inLastError := lastError, inRevision := inRevision x + 1,
                        inUpdatedAt := now\<rparr>, True))
       (Inl (Wrapf ErrInputNotFound ''%w: %s''))
       (\<lambda>xs x changed. (stream\<lparr>stInputs := xs\<rparr>, x, changed))
       (stInputs stream))"

definition cancelQueuedAgentInput ::
  "input_stream \<Rightarrow> string \<Rightarrow> u64 \<Rightarrow> gotime \<Rightarrow> (input_stream \<times> agent_input \<times> bool) result" where
  "cancelQueuedAgentInput stream inputID expectedRevision now =
     update_first (\<lambda>x. inID x = inputID)
       (\<lambda>x. if inRevision x \<noteq> expectedRevision
            then Inl (Wrapf ErrInputConflict ''%w: input %s has revision %d, expected %d'')
            else if inState x = AgentInputCancelled then Inr (x, False)
            else if inState x \<noteq> AgentInputQueued
            then Inl (Wrapf ErrInputConflict ''%w: input %s is %s'')
            else Inr (x\<lparr>inState := AgentInputCancelled, inRevision := inRevision x + 1,
                        inUpdatedAt := now\<rparr>, True))
       (Inl (Wrapf ErrInputNotFound ''%w: %s''))
       (\<lambda>xs x changed. (stream\<lparr>stInputs := xs\<rparr>, x, changed))
       (stInputs stream)"

text \<open>
  The loop of \<open>validateInputStream\<close>: the last sequence, the IDs seen and the number of
  dispatching inputs so far. An empty ID is replaced by a generated one before the check.
\<close>

fun validate_inputs ::
  "string \<Rightarrow> string \<Rightarrow> u64 \<Rightarrow> string list \<Rightarrow> nat \<Rightarrow> agent_input list \<Rightarrow> (u64 \<times> nat) result" where
  "validate_inputs newID sid previous seen dispatching [] = Inr (previous, dispatching)"
| "validate_inputs newID sid previous seen dispatching (x # xs) =
     (case normalizeAgentInput newID x of
        Inl e \<Rightarrow> Inl (Nestf ''gateway input stream %q contains invalid input at index %d: %w'' e)
      | Inr n \<Rightarrow>
          if inSessionID n \<noteq> sid \<or> inSequence x = 0 \<or> inSequence x \<le> previous \<or> inRevision x = 0 \<or>
             inCreatedAt x = 0 \<or> inUpdatedAt x = 0
          then Inl (Errorf ''gateway input stream %q contains invalid input at index %d: %w'')
          else if inID x \<in> set seen
          then Inl (Errorf ''gateway input stream %q contains duplicate input %q'')
          else case inState x of
            AgentInputStateOther s \<Rightarrow> Inl (Errorf ''gateway input %q has invalid state %q'')
          | _ \<Rightarrow>
              let dispatching = (if inState x = AgentInputDispatching then Suc dispatching else dispatching)
              in check (if inExecutionID x \<noteq> []
                        then ValidateResourceName ''gateway input execution'' (inExecutionID x) else None)
                 (validate_inputs newID sid (inSequence x) (inID x # seen) dispatching xs))"

definition validateInputStream :: "string \<Rightarrow> string \<Rightarrow> input_stream \<Rightarrow> input_stream result" where
  "validateInputStream newID sid stream =
     (let stream = (if stNextSequence stream = 0 then stream\<lparr>stNextSequence := 1\<rparr> else stream) in
      bind_result (validate_inputs newID sid 0 [] 0 (stInputs stream)) (\<lambda>(previous, dispatching).
      if dispatching > 1 \<or> previous \<ge> stNextSequence stream
      then Inl (Errorf ''gateway input stream %q has inconsistent sequencing or dispatch state'')
      else Inr stream))"

section \<open>The store\<close>

record input_store =
  isStreams :: "input_stream gomap"
  isClosed :: bool

definition NewMemoryInputStore :: input_store where
  "NewMemoryInputStore = \<lparr>isStreams = [], isClosed = False\<rparr>"

text \<open>Indexing the map yields the zero stream for an unknown session.\<close>

definition stream_of :: "input_store \<Rightarrow> string \<Rightarrow> input_stream" where
  "stream_of s sid = (case map_of (isStreams s) sid of Some st \<Rightarrow> st | None \<Rightarrow> no_stream)"

definition is_Enqueue ::
  "ctx \<Rightarrow> string \<Rightarrow> gotime \<Rightarrow> agent_input \<Rightarrow> input_store \<Rightarrow> input_store \<times> agent_input result" where
  "is_Enqueue ctx newID clock input s =
     (case check ctx (normalizeAgentInput newID input) of
        Inl e \<Rightarrow> (s, Inl e)
      | Inr input \<Rightarrow>
          if isClosed s then (s, Inl (Wrapf ErrStoreClosed []))
          else (case enqueueAgentInput (stream_of s (inSessionID input)) input clock of
                  Inl e \<Rightarrow> (s, Inl e)
                | Inr (stream, created, _) \<Rightarrow>
                    (s\<lparr>isStreams := AList.update (inSessionID input) stream (isStreams s)\<rparr>, Inr created)))"

definition is_Get :: "ctx \<Rightarrow> string \<Rightarrow> string \<Rightarrow> input_store \<Rightarrow> agent_input result" where
  "is_Get ctx sid inputID s =
     check ctx (check (reject_if (isClosed s) (Wrapf ErrStoreClosed []))
       (case find_input (TrimSpace inputID) (stInputs (stream_of s (TrimSpace sid))) of
          Some x \<Rightarrow> Inr x
        | None \<Rightarrow> Inl (Wrapf ErrInputNotFound ''%w: %s'')))"

definition is_List ::
  "ctx \<Rightarrow> string \<Rightarrow> input_query \<Rightarrow> input_store \<Rightarrow> (agent_input list \<times> u64) result" where
  "is_List ctx sid query s =
     check ctx (bind_result (normalizeEventSessionID sid) (\<lambda>sid.
       bind_result (normalizeInputQuery query) (\<lambda>query.
       check (reject_if (isClosed s) (Wrapf ErrStoreClosed []))
       (Inr (listAgentInputs (stream_of s sid) query)))))"

definition is_AcquireNext ::
  "ctx \<Rightarrow> gotime \<Rightarrow> string \<Rightarrow> input_store \<Rightarrow> input_store \<times> (agent_input \<times> bool) option result" where
  "is_AcquireNext ctx clock sid s =
     (case check ctx (normalizeEventSessionID sid) of
        Inl e \<Rightarrow> (s, Inl e)
      | Inr sid \<Rightarrow>
          if isClosed s then (s, Inl (Wrapf ErrStoreClosed []))
          else (case acquireAgentInput (stream_of s sid) clock of
                  Inl e \<Rightarrow> (s, Inl e)
                | Inr (stream, acquired, changed) \<Rightarrow>
                    (if changed then s\<lparr>isStreams := AList.update sid stream (isStreams s)\<rparr> else s,
                     Inr acquired)))"

text \<open>The frame that the three mutations of one input share.\<close>

definition is_mutate ::
  "ctx \<Rightarrow> string \<Rightarrow> (input_stream \<Rightarrow> (input_stream \<times> agent_input \<times> bool) result) \<Rightarrow> input_store \<Rightarrow>
   input_store \<times> agent_input result" where
  "is_mutate ctx sid f s =
     (case ctx of Some e \<Rightarrow> (s, Inl e)
      | None \<Rightarrow>
          if isClosed s then (s, Inl (Wrapf ErrStoreClosed []))
          else (case f (stream_of s sid) of
                  Inl e \<Rightarrow> (s, Inl e)
                | Inr (stream, input, changed) \<Rightarrow>
                    (if changed then s\<lparr>isStreams := AList.update sid stream (isStreams s)\<rparr> else s,
                     Inr input)))"

definition is_BindExecution ::
  "ctx \<Rightarrow> gotime \<Rightarrow> string \<Rightarrow> string \<Rightarrow> string \<Rightarrow> input_store \<Rightarrow> input_store \<times> agent_input result" where
  "is_BindExecution ctx clock sid inputID executionID =
     is_mutate ctx sid (\<lambda>stream. bindAgentInputExecution stream inputID executionID clock)"

definition is_Complete ::
  "ctx \<Rightarrow> gotime \<Rightarrow> string \<Rightarrow> string \<Rightarrow> AgentInputState \<Rightarrow> string \<Rightarrow> input_store \<Rightarrow>
   input_store \<times> agent_input result" where
  "is_Complete ctx clock sid inputID st lastError =
     is_mutate ctx sid (\<lambda>stream. completeAgentInput stream inputID st lastError clock)"

definition is_CancelQueued ::
  "ctx \<Rightarrow> gotime \<Rightarrow> string \<Rightarrow> string \<Rightarrow> u64 \<Rightarrow> input_store \<Rightarrow> input_store \<times> agent_input result" where
  "is_CancelQueued ctx clock sid inputID expectedRevision =
     is_mutate ctx sid (\<lambda>stream. cancelQueuedAgentInput stream inputID expectedRevision clock)"

definition is_Close :: "input_store \<Rightarrow> input_store" where
  "is_Close s = s\<lparr>isClosed := True\<rparr>"

section \<open>Consistent streams\<close>

text \<open>
  The life of an input: queued at revision 1, dispatching at 2 (3 once an execution is
  bound), finished at most at 4; so the revision never wraps around.
\<close>

definition input_ok :: "string \<Rightarrow> agent_input \<Rightarrow> bool" where
  "input_ok sid x \<longleftrightarrow> resourceNamePattern (inID x) \<and> inSessionID x = sid \<and> resourceNamePattern sid \<and>
     inKind x = AgentInputPrompt \<and> inContent x \<noteq> [] \<and> TrimSpace (inContent x) = inContent x \<and>
     inCreatedAt x \<noteq> 0 \<and> inUpdatedAt x \<noteq> 0 \<and>
     (inExecutionID x = [] \<or> resourceNamePattern (inExecutionID x)) \<and>
     (case inState x of
        AgentInputQueued \<Rightarrow> inRevision x = 1 \<and> inExecutionID x = []
      | AgentInputDispatching \<Rightarrow> inRevision x = (if inExecutionID x = [] then 2 else 3)
      | AgentInputStateOther s \<Rightarrow> False
      | _ \<Rightarrow> inRevision x \<in> {2, 3, 4})"

definition dispatching :: "agent_input list \<Rightarrow> nat" where
  "dispatching xs = length (filter (\<lambda>x. inState x = AgentInputDispatching) xs)"

definition stream_ok :: "string \<Rightarrow> input_stream \<Rightarrow> bool" where
  "stream_ok sid st \<longleftrightarrow> stNextSequence st \<noteq> 0 \<and> list_all (input_ok sid) (stInputs st) \<and>
     sorted_wrt (<) (map inSequence (stInputs st)) \<and> distinct (map inID (stInputs st)) \<and>
     list_all (\<lambda>x. 0 < inSequence x \<and> inSequence x < stNextSequence st) (stInputs st) \<and>
     dispatching (stInputs st) \<le> 1"

lemma update_first_Inr:
  assumes "update_first P f missing k xs = Inr r"
  shows "(missing = Inr r \<and> (\<forall>x\<in>set xs. \<not> P x)) \<or>
    (\<exists>pre x post y changed. xs = pre @ x # post \<and> (\<forall>z\<in>set pre. \<not> P z) \<and> P x \<and>
       f x = Inr (y, changed) \<and> r = k (pre @ y # post) y changed)"
  using assms
proof (induction xs arbitrary: k)
  case (Cons x xs)
  show ?case
  proof (cases "P x")
    case True
    with Cons.prems obtain y c where "f x = Inr (y, c)" "r = k (y # xs) y c"
      by (auto simp: bind_result_Inr)
    then show ?thesis
      using True by (intro disjI2 exI [of _ "[]"] exI [of _ x] exI [of _ xs] exI [of _ y] exI [of _ c]) simp
  next
    case False
    then have "update_first P f missing (\<lambda>ys. k (x # ys)) xs = Inr r"
      using Cons.prems by simp
    from Cons.IH [OF this] show ?thesis
    proof (elim disjE exE conjE, goal_cases)
      case (2 pre z post y c)
      then show ?case
        using False by (intro disjI2 exI [of _ "x # pre"] exI [of _ z] exI [of _ post] exI [of _ y]
            exI [of _ c]) simp
    qed (use False in simp)
  qed
qed simp

lemma find_dispatching_Inr:
  assumes "find_dispatching found xs = Inr d"
  shows "dispatching xs = 0 \<and> d = found \<or>
    found = None \<and> dispatching xs = 1 \<and>
      (\<exists>x\<in>set xs. d = Some x \<and> inState x = AgentInputDispatching)"
  using assms by (induction xs arbitrary: found) (fastforce simp: dispatching_def split: if_splits)+

lemma find_dispatching_ok:
  assumes "dispatching xs \<le> 1"
  shows "\<exists>d. find_dispatching None xs = Inr d"
proof -
  have some: "find_dispatching (Some y) ys = Inr (Some y)" if "dispatching ys = 0" for y ys
    using that by (induction ys) (auto simp: dispatching_def split: if_splits)
  show ?thesis
    using assms
  proof (induction xs)
    case (Cons x xs)
    then show ?case using some [of xs x] by (cases "inState x = AgentInputDispatching") (auto simp: dispatching_def)
  qed simp
qed

text \<open>Changing one input in place keeps the stream consistent.\<close>

lemma stream_ok_replace:
  assumes "stream_ok sid st" "stInputs st = pre @ x # post"
    and "input_ok sid y" "inID y = inID x" "inSequence y = inSequence x"
    and "inState y = AgentInputDispatching \<longrightarrow>
      inState x = AgentInputDispatching \<or> dispatching (stInputs st) = 0"
  shows "stream_ok sid (st\<lparr>stInputs := pre @ y # post\<rparr>)"
  using assms unfolding stream_ok_def by (auto simp: dispatching_def split: if_splits)

lemma find_input_Some: "find_input i xs = Some x \<Longrightarrow> x \<in> set xs \<and> inID x = i"
  by (induction xs) (auto split: if_splits)

lemma find_input_None: "find_input i xs = None \<longleftrightarrow> i \<notin> inID ` set xs"
  by (induction xs) auto

lemma normalizeAgentInput_Inr:
  assumes "normalizeAgentInput newID x = Inr n"
  shows "resourceNamePattern (inID n)" "resourceNamePattern (inSessionID n)" "inKind n = AgentInputPrompt"
    "inContent n \<noteq> []" "TrimSpace (inContent n) = inContent n"
  using assms
  by (auto simp: normalizeAgentInput_def normalizeEventSessionID_def Let_def result_simps split: if_splits)

lemma enqueueAgentInput_ok:
  assumes "enqueueAgentInput st n now = Inr (st', created, new)" "normalizeAgentInput newID x = Inr n"
    and "now \<noteq> 0" "st = no_stream \<or> stream_ok (inSessionID n) st"
  shows "stream_ok (inSessionID n) st'"
proof (cases "find_input (inID n) (stInputs st)")
  case (Some c)
  then have "st' = st" "st \<noteq> no_stream"
    using assms(1) by (auto simp: enqueueAgentInput_def no_stream_def split: if_splits)
  then show ?thesis using assms(4) by simp
next
  case None
  note norm = normalizeAgentInput_Inr [OF assms(2)]
  define q where "q = (if stNextSequence st = 0 then 1 else stNextSequence st)"
  have q: "q \<noteq> 0" "q \<noteq> - 1" and st': "st' = \<lparr>stNextSequence = q + 1, stInputs = stInputs st @
      [n\<lparr>inSequence := q, inState := AgentInputQueued, inExecutionID := [], inLastError := [],
         inRevision := 1, inCreatedAt := now, inUpdatedAt := now\<rparr>]\<rparr>"
    using None assms(1) by (auto simp: enqueueAgentInput_def Let_def q_def split: if_splits)
  have less: "q < q + 1" using q(2) by (intro u64_less_Suc) (simp add: eq_neg_iff_add_eq_0)
  have old: "list_all (input_ok (inSessionID n)) (stInputs st)"
    "sorted_wrt (<) (map inSequence (stInputs st))" "distinct (map inID (stInputs st))"
    "list_all (\<lambda>x. 0 < inSequence x \<and> inSequence x < q) (stInputs st)" "dispatching (stInputs st) \<le> 1"
    using assms(4) by (auto simp: stream_ok_def no_stream_def dispatching_def q_def)
  have "0 < q" using q(1) by (simp add: word_gt_0)
  moreover have "q + 1 \<noteq> 0" using q(2) by (simp add: eq_neg_iff_add_eq_0)
  ultimately show ?thesis
    using old norm assms(3) less None unfolding st' stream_ok_def
    by (auto simp: list_all_iff sorted_wrt_append dispatching_def input_ok_def find_input_None)
qed

text \<open>How one input may develop: identity kept, states forward only, execution bound once.\<close>

definition st_before :: "AgentInputState \<Rightarrow> AgentInputState \<Rightarrow> bool" where
  "st_before a b \<longleftrightarrow> a = AgentInputQueued \<and> b \<noteq> AgentInputQueued \<or>
     a = AgentInputDispatching \<and> (b = AgentInputDispatching \<or> in_Terminal b)"

definition in_advances :: "agent_input \<Rightarrow> agent_input \<Rightarrow> bool" where
  "in_advances x y \<longleftrightarrow> inID y = inID x \<and> inSessionID y = inSessionID x \<and> inSequence y = inSequence x \<and>
     inKind y = inKind x \<and> inContent y = inContent x \<and> inCreatedAt y = inCreatedAt x \<and>
     (inExecutionID x = [] \<or> inExecutionID y = inExecutionID x) \<and>
     (y = x \<or> st_before (inState x) (inState y))"

lemma in_advances_refl [simp]: "in_advances x x"
  by (simp add: in_advances_def)

lemma in_advances_trans: "in_advances x y \<Longrightarrow> in_advances y z \<Longrightarrow> in_advances x z"
proof -
  have "st_before a b \<Longrightarrow> st_before b c \<Longrightarrow> st_before a c" for a b c
    by (auto simp: st_before_def in_Terminal_def)
  then show "in_advances x y \<Longrightarrow> in_advances y z \<Longrightarrow> in_advances x z"
    unfolding in_advances_def by metis
qed

text \<open>What a successful mutation of a stream does: at most one input changes, in place.\<close>

definition stream_edit :: "string \<Rightarrow> input_stream \<Rightarrow> input_stream \<Rightarrow> bool" where
  "stream_edit sid st st' \<longleftrightarrow> st' = st \<or>
     (\<exists>pre x post y. stInputs st = pre @ x # post \<and> st' = st\<lparr>stInputs := pre @ y # post\<rparr> \<and>
        in_advances x y \<and> (input_ok sid x \<longrightarrow> input_ok sid y) \<and>
        (inState y = AgentInputDispatching \<longrightarrow>
          inState x = AgentInputDispatching \<or> dispatching (stInputs st) = 0))"

lemma stream_editI:
  assumes "stInputs st = pre @ x # post" "st' = st\<lparr>stInputs := pre @ y # post\<rparr>"
    and "in_advances x y" "input_ok sid x \<longrightarrow> input_ok sid y"
    and "inState y = AgentInputDispatching \<longrightarrow>
      inState x = AgentInputDispatching \<or> dispatching (stInputs st) = 0"
  shows "stream_edit sid st st'"
  using assms unfolding stream_edit_def by blast

lemma stream_edit_ok: "stream_edit sid st st' \<Longrightarrow> stream_ok sid st \<Longrightarrow> stream_ok sid st'"
  unfolding stream_edit_def
proof (elim disjE exE conjE, goal_cases)
  case (2 pre x post y)
  then have "input_ok sid x" by (simp add: stream_ok_def)
  with 2 show ?case
    by (simp only:, intro stream_ok_replace) (auto simp: in_advances_def)
qed simp

lemma acquireAgentInput_edit:
  assumes "acquireAgentInput st now = Inr (st', got, changed)" "now \<noteq> 0"
  shows "stream_edit sid st st'" "changed \<or> st' = st"
proof -
  obtain d where d: "find_dispatching None (stInputs st) = Inr d"
    using assms(1) by (auto simp: acquireAgentInput_def bind_result_Inr)
  have "stream_edit sid st st' \<and> (changed \<or> st' = st)"
  proof (cases d)
    case None
    then have 0: "dispatching (stInputs st) = 0" using find_dispatching_Inr [OF d] by auto
    from None d assms(1) have "update_first (\<lambda>x. inState x = AgentInputQueued)
        (\<lambda>x. Inr (x\<lparr>inState := AgentInputDispatching, inRevision := inRevision x + 1, inUpdatedAt := now\<rparr>, True))
        (Inr (st, None, False)) (\<lambda>xs x changed. (st\<lparr>stInputs := xs\<rparr>, Some (x, False), changed)) (stInputs st) =
        Inr (st', got, changed)"
      by (simp add: acquireAgentInput_def)
    from update_first_Inr [OF this] show ?thesis
    proof (elim disjE exE conjE, goal_cases)
      case (2 pre x post y c)
      then have "in_advances x y" "input_ok sid x \<longrightarrow> input_ok sid y"
        using assms(2) by (auto simp: in_advances_def st_before_def input_ok_def)
      then show ?case using 2 0 by (auto intro: stream_editI)
    qed (simp add: stream_edit_def)
  qed (use d assms(1) in \<open>simp add: acquireAgentInput_def stream_edit_def\<close>)
  then show "stream_edit sid st st'" "changed \<or> st' = st" by auto
qed

lemma update_first_edit:
  assumes "update_first (\<lambda>x. inID x = i) f (Inl e)
      (\<lambda>xs x changed. (st\<lparr>stInputs := xs\<rparr>, x, changed)) (stInputs st) = Inr (st', z, changed)"
    and "\<And>x y c. f x = Inr (y, c) \<Longrightarrow> in_advances x y \<and> (input_ok sid x \<longrightarrow> input_ok sid y) \<and>
      (inState y = AgentInputDispatching \<longrightarrow> inState x = AgentInputDispatching) \<and> (c \<or> y = x)"
  shows "stream_edit sid st st'" "changed \<or> st' = st"
proof -
  have "stream_edit sid st st' \<and> (changed \<or> st' = st)"
    using update_first_Inr [OF assms(1)]
  proof (elim disjE exE conjE, goal_cases)
    case (2 pre x post y c)
    then have st': "st' = st\<lparr>stInputs := pre @ y # post\<rparr>" "c = changed" by auto
    have f: "in_advances x y" "input_ok sid x \<longrightarrow> input_ok sid y"
      "inState y = AgentInputDispatching \<longrightarrow> inState x = AgentInputDispatching" "c \<or> y = x"
      using assms(2) [OF \<open>f x = Inr (y, c)\<close>] by blast+
    have "stream_edit sid st st'"
      using stream_editI [OF \<open>stInputs st = pre @ x # post\<close> st'(1) f(1,2)] f(3) by blast
    moreover have "changed \<or> st' = st" using f(4) st' \<open>stInputs st = pre @ x # post\<close> by auto
    ultimately show ?case by blast
  qed simp
  then show "stream_edit sid st st'" "changed \<or> st' = st" by auto
qed

lemma bindAgentInputExecution_edit:
  assumes "bindAgentInputExecution st i ex now = Inr (st', z, changed)" "now \<noteq> 0"
  shows "stream_edit sid st st'" "changed \<or> st' = st"
proof -
  have ex: "resourceNamePattern ex" and u: "update_first (\<lambda>x. inID x = i)
       (\<lambda>x. if inState x \<noteq> AgentInputDispatching
            then Inl (Wrapf ErrInputConflict ''%w: input %s is %s'')
            else if inExecutionID x = ex then Inr (x, False)
            else if inExecutionID x \<noteq> []
            then Inl (Wrapf ErrInputConflict ''%w: input %s is bound to execution %s'')
            else Inr (x\<lparr>inExecutionID := ex, inRevision := inRevision x + 1, inUpdatedAt := now\<rparr>, True))
       (Inl (Wrapf ErrInputNotFound ''%w: %s''))
       (\<lambda>xs x changed. (st\<lparr>stInputs := xs\<rparr>, x, changed)) (stInputs st) = Inr (st', z, changed)"
    using assms(1) by (auto simp: bindAgentInputExecution_def result_simps)
  show "stream_edit sid st st'" "changed \<or> st' = st"
    using ex assms(2)
    by (auto intro!: update_first_edit [OF u] simp: in_advances_def st_before_def input_ok_def split: if_splits)
qed

lemma completeAgentInput_edit:
  assumes "completeAgentInput st i fin err now = Inr (st', z, changed)" "now \<noteq> 0"
  shows "stream_edit sid st st'" "changed \<or> st' = st"
proof -
  have fin: "in_Terminal fin" and u: "update_first (\<lambda>x. inID x = i)
       (\<lambda>x. if inState x = fin \<and> inLastError x = TrimSpace err then Inr (x, False)
            else if inState x \<noteq> AgentInputDispatching
            then Inl (Wrapf ErrInputConflict ''%w: input %s is %s'')
            else Inr (x\<lparr>inState := fin, inLastError := TrimSpace err, inRevision := inRevision x + 1,
                        inUpdatedAt := now\<rparr>, True))
       (Inl (Wrapf ErrInputNotFound ''%w: %s''))
       (\<lambda>xs x changed. (st\<lparr>stInputs := xs\<rparr>, x, changed)) (stInputs st) = Inr (st', z, changed)"
    using assms(1) by (auto simp: completeAgentInput_def result_simps Let_def)
  show "stream_edit sid st st'" "changed \<or> st' = st"
    using fin assms(2)
    by (auto intro!: update_first_edit [OF u] simp: in_advances_def st_before_def input_ok_def in_Terminal_def
        split: if_splits)
qed

lemma cancelQueuedAgentInput_edit:
  assumes "cancelQueuedAgentInput st i rv now = Inr (st', z, changed)" "now \<noteq> 0"
  shows "stream_edit sid st st'" "changed \<or> st' = st"
  using assms(2)
  by (auto intro!: update_first_edit [OF assms(1) [unfolded cancelQueuedAgentInput_def]]
      simp: in_advances_def st_before_def input_ok_def split: if_splits)

lemmas stream_edits = acquireAgentInput_edit bindAgentInputExecution_edit completeAgentInput_edit
  cancelQueuedAgentInput_edit

section \<open>Calls on the store\<close>

datatype in_call =
    IEnqueue ctx string gotime agent_input
  | IAcquire ctx gotime string
  | IBind ctx gotime string string string
  | IComplete ctx gotime string string AgentInputState string
  | ICancel ctx gotime string string u64
  | IClose

fun is_step :: "in_call \<Rightarrow> input_store \<Rightarrow> input_store" where
  "is_step (IEnqueue ctx newID clock input) s = fst (is_Enqueue ctx newID clock input s)"
| "is_step (IAcquire ctx clock sid) s = fst (is_AcquireNext ctx clock sid s)"
| "is_step (IBind ctx clock sid i ex) s = fst (is_BindExecution ctx clock sid i ex s)"
| "is_step (IComplete ctx clock sid i st err) s = fst (is_Complete ctx clock sid i st err s)"
| "is_step (ICancel ctx clock sid i rv) s = fst (is_CancelQueued ctx clock sid i rv s)"
| "is_step IClose s = is_Close s"

text \<open>The clock never shows the zero time.\<close>

fun in_clock_ok :: "in_call \<Rightarrow> bool" where
  "in_clock_ok (IEnqueue ctx newID clock input) \<longleftrightarrow> clock \<noteq> 0"
| "in_clock_ok (IAcquire ctx clock sid) \<longleftrightarrow> clock \<noteq> 0"
| "in_clock_ok (IBind ctx clock sid i ex) \<longleftrightarrow> clock \<noteq> 0"
| "in_clock_ok (IComplete ctx clock sid i st err) \<longleftrightarrow> clock \<noteq> 0"
| "in_clock_ok (ICancel ctx clock sid i rv) \<longleftrightarrow> clock \<noteq> 0"
| "in_clock_ok IClose \<longleftrightarrow> True"

definition is_inv :: "input_store \<Rightarrow> bool" where
  "is_inv s \<longleftrightarrow> (\<forall>sid st. map_of (isStreams s) sid = Some st \<longrightarrow> stream_ok sid st)"

lemma is_inv_stream: "is_inv s \<Longrightarrow> stream_of s sid = no_stream \<or> stream_ok sid (stream_of s sid)"
  by (auto simp: is_inv_def stream_of_def split: option.splits)

lemma edits_nonempty:
  "acquireAgentInput st now = Inr (st', got, True) \<Longrightarrow> stInputs st \<noteq> []"
  "bindAgentInputExecution st i ex now = Inr (st', z, c) \<Longrightarrow> stInputs st \<noteq> []"
  "completeAgentInput st i fin err now = Inr (st', z, c) \<Longrightarrow> stInputs st \<noteq> []"
  "cancelQueuedAgentInput st i rv now = Inr (st', z, c) \<Longrightarrow> stInputs st \<noteq> []"
  by (auto simp: acquireAgentInput_def bindAgentInputExecution_def completeAgentInput_def
      cancelQueuedAgentInput_def result_simps Let_def)

text \<open>The effect of a call: nothing, an enqueued input, or an edit of one stream.\<close>

definition edited :: "input_store \<Rightarrow> input_store \<Rightarrow> bool" where
  "edited s s' \<longleftrightarrow> (\<exists>sid st'. stream_edit sid (stream_of s sid) st' \<and> stInputs (stream_of s sid) \<noteq> [] \<and>
     isStreams s' = AList.update sid st' (isStreams s))"

definition enqueued :: "input_store \<Rightarrow> input_store \<Rightarrow> bool" where
  "enqueued s s' \<longleftrightarrow> (\<exists>newID clock x n st' created new. normalizeAgentInput newID x = Inr n \<and> clock \<noteq> 0 \<and>
     enqueueAgentInput (stream_of s (inSessionID n)) n clock = Inr (st', created, new) \<and>
     isStreams s' = AList.update (inSessionID n) st' (isStreams s))"

lemma editedI:
  "stream_edit sid (stream_of s sid) st' \<Longrightarrow> stInputs (stream_of s sid) \<noteq> [] \<Longrightarrow>
   isStreams s' = AList.update sid st' (isStreams s) \<Longrightarrow> edited s s'"
  unfolding edited_def by blast

lemma enqueuedI:
  "normalizeAgentInput newID x = Inr n \<Longrightarrow> clock \<noteq> 0 \<Longrightarrow>
   enqueueAgentInput (stream_of s (inSessionID n)) n clock = Inr (st', created, new) \<Longrightarrow>
   isStreams s' = AList.update (inSessionID n) st' (isStreams s) \<Longrightarrow> enqueued s s'"
  unfolding enqueued_def by blast

lemma is_mutate_effect:
  assumes "\<And>st st' z c. f st = Inr (st', z, c) \<Longrightarrow> stream_edit sid st st' \<and> stInputs st \<noteq> []"
  shows "isStreams (fst (is_mutate ctx sid f s)) = isStreams s \<or> edited s (fst (is_mutate ctx sid f s))"
proof (cases "\<exists>st' z. ctx = None \<and> \<not> isClosed s \<and> f (stream_of s sid) = Inr (st', z, True)")
  case True
  then obtain st' z where f: "f (stream_of s sid) = Inr (st', z, True)" "ctx = None" "\<not> isClosed s"
    by blast
  then show ?thesis
    using assms [OF f(1)] editedI [of sid s st' "fst (is_mutate ctx sid f s)"] by (simp add: is_mutate_def)
next
  case False
  then show ?thesis by (auto simp: is_mutate_def split: option.split sum.split)
qed

lemma is_step_effect:
  assumes "in_clock_ok c"
  shows "isStreams (is_step c s) = isStreams s \<or> enqueued s (is_step c s) \<or> edited s (is_step c s)"
proof (cases c)
  case (IEnqueue ctx newID clock x)
  then show ?thesis
    using assms by (auto simp: is_Enqueue_def check_Inr split: sum.split intro: enqueuedI)
next
  case (IAcquire ctx clock sid)
  have now: "clock \<noteq> 0" using assms IAcquire by simp
  show ?thesis
  proof (cases "check ctx (normalizeEventSessionID sid)")
    case (Inr k)
    show ?thesis
    proof (cases "\<exists>st' got. \<not> isClosed s \<and> acquireAgentInput (stream_of s k) clock = Inr (st', got, True)")
      case True
      then obtain st' got where a: "acquireAgentInput (stream_of s k) clock = Inr (st', got, True)"
        "\<not> isClosed s" by blast
      then show ?thesis
        using editedI [OF stream_edits(1) [OF a(1) now] edits_nonempty(1) [OF a(1)], of "is_step c s"]
          Inr IAcquire by (simp add: is_AcquireNext_def)
    next
      case False
      then show ?thesis using IAcquire Inr by (auto simp: is_AcquireNext_def split: sum.split)
    qed
  qed (simp add: IAcquire is_AcquireNext_def)
next
  case (IBind ctx clock sid i ex)
  then show ?thesis
    using assms stream_edits(3) edits_nonempty(2) is_mutate_effect by (simp add: is_BindExecution_def) metis
next
  case (IComplete ctx clock sid i st err)
  then show ?thesis
    using assms stream_edits(5) edits_nonempty(3) is_mutate_effect by (simp add: is_Complete_def) metis
next
  case (ICancel ctx clock sid i rv)
  then show ?thesis
    using assms stream_edits(7) edits_nonempty(4) is_mutate_effect by (simp add: is_CancelQueued_def) metis
next
  case IClose
  then show ?thesis by (simp add: is_Close_def)
qed

lemma edited_inv:
  assumes "edited s s'" "is_inv s"
  shows "is_inv s'"
proof -
  obtain sid st' where e: "stream_edit sid (stream_of s sid) st'" "stInputs (stream_of s sid) \<noteq> []"
    "isStreams s' = AList.update sid st' (isStreams s)"
    using assms(1) by (auto simp: edited_def)
  then have "stream_ok sid (stream_of s sid)"
    using is_inv_stream [OF assms(2), of sid] by (auto simp: no_stream_def)
  then have "stream_ok sid st'" using stream_edit_ok [OF e(1)] by blast
  then show ?thesis using assms(2) e(3) by (auto simp: is_inv_def)
qed

lemma is_inv_step:
  assumes "is_inv s" "in_clock_ok c"
  shows "is_inv (is_step c s)"
  using is_step_effect [OF assms(2), of s]
proof (elim disjE)
  assume "enqueued s (is_step c s)"
  then obtain newID clock x n st' created new where e: "normalizeAgentInput newID x = Inr n" "clock \<noteq> 0"
    "enqueueAgentInput (stream_of s (inSessionID n)) n clock = Inr (st', created, new)"
    "isStreams (is_step c s) = AList.update (inSessionID n) st' (isStreams s)"
    unfolding enqueued_def by blast
  then have "stream_ok (inSessionID n) st'"
    using enqueueAgentInput_ok [OF e(3,1,2)] is_inv_stream [OF assms(1)] by blast
  then show ?thesis using assms(1) e(4) by (simp add: is_inv_def)
qed (use assms(1) edited_inv in \<open>auto simp: is_inv_def\<close>)

lemma is_inv_run:
  "is_inv s \<Longrightarrow> list_all in_clock_ok cs \<Longrightarrow> is_inv (run_calls is_step cs s)"
  by (rule run_calls_invariant) (auto simp: list_all_iff intro: is_inv_step)

lemma is_inv_new: "is_inv NewMemoryInputStore"
  by (simp add: is_inv_def NewMemoryInputStore_def)

lemma normalizeAgentInput_fix:
  assumes "input_ok sid x"
  shows "normalizeAgentInput newID x = Inr x"
proof -
  have [simp]: "TrimSpace (inID x) = inID x" "TrimSpace (inSessionID x) = inSessionID x" "inID x \<noteq> []"
    using assms by (auto simp: input_ok_def)
  show ?thesis
    using assms by (auto simp: normalizeAgentInput_def normalizeEventSessionID_def input_ok_def
        result_simps Let_def AgentInputPrompt_def)
qed

lemma validate_inputs_ok:
  assumes "list_all (input_ok sid) xs" "sorted_wrt (<) (map inSequence xs)" "distinct (map inID xs)"
    and "list_all (\<lambda>x. previous < inSequence x) xs" "set seen \<inter> inID ` set xs = {}"
  shows "validate_inputs newID sid previous seen n xs =
    Inr (if xs = [] then previous else inSequence (last xs), n + dispatching xs)"
  using assms
proof (induction xs arbitrary: previous seen n)
  case (Cons x xs)
  have x: "input_ok sid x" "previous < inSequence x" "inID x \<notin> set seen" using Cons.prems by auto
  have step: "validate_inputs newID sid previous seen n (x # xs) =
      validate_inputs newID sid (inSequence x) (inID x # seen)
        (if inState x = AgentInputDispatching then Suc n else n) xs"
  proof -
    have "(if inExecutionID x \<noteq> [] then ValidateResourceName ''gateway input execution'' (inExecutionID x)
        else None) = None"
      using x(1) by (auto simp: input_ok_def ValidateResourceName_None)
    moreover have "inSessionID x = sid" "inRevision x \<noteq> 0" "inCreatedAt x \<noteq> 0" "inUpdatedAt x \<noteq> 0"
      "\<And>z. inState x \<noteq> AgentInputStateOther z"
      using x(1) by (auto simp: input_ok_def split: AgentInputState.splits if_splits)
    moreover have "inSequence x \<noteq> 0" "\<not> inSequence x \<le> previous" using x(2) by auto
    ultimately show ?thesis
      using x(3) normalizeAgentInput_fix [OF x(1), of newID] by (cases "inState x") (auto simp: Let_def)
  qed
  have "validate_inputs newID sid (inSequence x) (inID x # seen) m xs =
      Inr (if xs = [] then inSequence x else inSequence (last xs), m + dispatching xs)" for m
    using Cons.prems by (intro Cons.IH) (auto simp: list_all_iff)
  then show ?case unfolding step by (simp add: dispatching_def)
qed (simp add: dispatching_def)

lemma stream_ok_validates:
  assumes "stream_ok sid st"
  shows "validateInputStream newID sid st = Inr st"
proof -
  have "validate_inputs newID sid 0 [] 0 (stInputs st) =
      Inr (if stInputs st = [] then 0 else inSequence (last (stInputs st)), 0 + dispatching (stInputs st))"
    using assms by (intro validate_inputs_ok) (auto simp: stream_ok_def list_all_iff)
  moreover have "(if stInputs st = [] then 0 else inSequence (last (stInputs st))) < stNextSequence st"
    using assms by (auto simp: stream_ok_def list_all_iff word_gt_0)
  ultimately show ?thesis
    using assms by (auto simp: validateInputStream_def stream_ok_def Let_def)
qed

section \<open>Properties\<close>

text \<open>
  C6: Whatever sequence of calls clients make, every stream of the store passes the check
  that the durable stores apply when they load one: increasing sequence numbers, unique
  IDs, valid inputs and at most one dispatching input.
\<close>

theorem is_run_validates:
  assumes "list_all in_clock_ok cs"
    and "map_of (isStreams (run_calls is_step cs NewMemoryInputStore)) sid = Some st"
  shows "validateInputStream newID sid st = Inr st \<and>
    sorted_wrt (<) (map inSequence (stInputs st)) \<and> dispatching (stInputs st) \<le> 1"
  using is_inv_run [OF is_inv_new assms(1)] assms(2) stream_ok_validates
  by (auto simp: is_inv_def stream_ok_def)

lemma find_dispatching_zero: "dispatching xs = 0 \<longleftrightarrow> (\<forall>x\<in>set xs. inState x \<noteq> AgentInputDispatching)"
  by (induction xs) (auto simp: dispatching_def)

text \<open>
  Inputs are dispatched one at a time and in order. \<open>AcquireNext\<close> either resumes
  the one dispatching input and changes nothing, or, when none is dispatching, takes the
  oldest queued input, before which everything is finished.
\<close>

theorem is_AcquireNext_in_order:
  assumes "is_inv s" "clock \<noteq> 0" "resourceNamePattern sid"
    and "is_AcquireNext None clock sid s = (s', Inr (Some (x, resumed)))"
  shows "if resumed
    then s' = s \<and> x \<in> set (stInputs (stream_of s sid)) \<and> inState x = AgentInputDispatching
    else \<exists>x0. x0 \<in> set (stInputs (stream_of s sid)) \<and> inState x0 = AgentInputQueued \<and>
      x \<in> set (stInputs (stream_of s' sid)) \<and> inState x = AgentInputDispatching \<and> in_advances x0 x \<and>
      (\<forall>y\<in>set (stInputs (stream_of s sid)). inSequence y < inSequence x0 \<longrightarrow> in_Terminal (inState y)) \<and>
      (\<forall>y\<in>set (stInputs (stream_of s sid)). inState y \<noteq> AgentInputDispatching)"
proof -
  let ?st = "stream_of s sid"
  have norm: "normalizeEventSessionID sid = Inr sid"
    using assms(3) by (simp add: normalizeEventSessionID_def result_simps)
  then obtain st' changed where a: "acquireAgentInput ?st clock = Inr (st', Some (x, resumed), changed)"
    and s': "s' = (if changed then s\<lparr>isStreams := AList.update sid st' (isStreams s)\<rparr> else s)"
    using assms(4) by (auto simp: is_AcquireNext_def split: sum.splits if_splits)
  obtain d where d: "find_dispatching None (stInputs ?st) = Inr d"
    using a by (auto simp: acquireAgentInput_def bind_result_Inr)
  show ?thesis
  proof (cases d)
    case (Some z)
    then have "x = z" "resumed" "s' = s" using a d s' by (auto simp: acquireAgentInput_def)
    then show ?thesis using find_dispatching_Inr [OF d] Some by auto
  next
    case None
    then have 0: "\<forall>y\<in>set (stInputs ?st). inState y \<noteq> AgentInputDispatching"
      using find_dispatching_Inr [OF d] by (auto simp: find_dispatching_zero)
    from None d a have "update_first (\<lambda>x. inState x = AgentInputQueued)
        (\<lambda>x. Inr (x\<lparr>inState := AgentInputDispatching, inRevision := inRevision x + 1, inUpdatedAt := clock\<rparr>, True))
        (Inr (?st, None, False)) (\<lambda>xs x changed. (?st\<lparr>stInputs := xs\<rparr>, Some (x, False), changed)) (stInputs ?st) =
        Inr (st', Some (x, resumed), changed)"
      by (simp add: acquireAgentInput_def)
    from update_first_Inr [OF this] obtain pre x0 post where split: "stInputs ?st = pre @ x0 # post"
      and x0: "\<forall>z\<in>set pre. inState z \<noteq> AgentInputQueued" "inState x0 = AgentInputQueued"
      and x: "x = x0\<lparr>inState := AgentInputDispatching, inRevision := inRevision x0 + 1, inUpdatedAt := clock\<rparr>"
        "\<not> resumed" "changed" "st' = ?st\<lparr>stInputs := pre @ x # post\<rparr>"
      by auto
    have ok: "stream_ok sid ?st"
      using is_inv_stream [OF assms(1), of sid] split by (auto simp: no_stream_def)
    have "in_Terminal (inState y)" if y: "y \<in> set (stInputs ?st)" "inSequence y < inSequence x0" for y
    proof -
      have "y \<in> set pre"
        using y ok split by (auto simp: stream_ok_def sorted_wrt_append)
      moreover have "input_ok sid y" using y(1) ok by (auto simp: stream_ok_def list_all_iff)
      ultimately show ?thesis
        using x0(1) 0 y(1) by (cases "inState y") (auto simp: in_Terminal_def input_ok_def)
    qed
    moreover have "x \<in> set (stInputs (stream_of s' sid))"
      using s' x(3,4) by (simp add: stream_of_def)
    moreover have "in_advances x0 x" using x(1) x0(2) by (simp add: in_advances_def st_before_def)
    ultimately show ?thesis using x(1,2) x0(2) split 0 by auto
  qed
qed

lemma stream_edit_keeps:
  "stream_edit k st st' \<Longrightarrow> x \<in> set (stInputs st) \<Longrightarrow> \<exists>y\<in>set (stInputs st'). in_advances x y"
  unfolding stream_edit_def
proof (elim disjE exE conjE, goal_cases)
  case (2 pre z post y)
  then have "x \<in> set (stInputs st') \<or> x = z" "y \<in> set (stInputs st')" by auto
  then show ?case using 2 in_advances_refl by blast
qed (auto intro: in_advances_refl)

lemma edited_keeps:
  assumes "edited s s'" "x \<in> set (stInputs (stream_of s sid))"
  shows "\<exists>y\<in>set (stInputs (stream_of s' sid)). in_advances x y"
proof -
  obtain k st' where e: "stream_edit k (stream_of s k) st'" "isStreams s' = AList.update k st' (isStreams s)"
    using assms(1) by (auto simp: edited_def)
  show ?thesis
  proof (cases "k = sid")
    case True
    then have "stream_of s' sid = st'" using e(2) by (simp add: stream_of_def)
    then show ?thesis
      using stream_edit_keeps e(1) assms(2) True by metis
  next
    case False
    then have "stream_of s' sid = stream_of s sid" using e(2) by (simp add: stream_of_def)
    then show ?thesis using assms(2) in_advances_refl by metis
  qed
qed

lemma enqueued_keeps:
  assumes "enqueued s s'" "x \<in> set (stInputs (stream_of s sid))"
  shows "x \<in> set (stInputs (stream_of s' sid))"
proof -
  obtain n clock st' created new where e:
    "enqueueAgentInput (stream_of s (inSessionID n)) n clock = Inr (st', created, new)"
    "isStreams s' = AList.update (inSessionID n) st' (isStreams s)"
    using assms(1) by (auto simp: enqueued_def)
  have "set (stInputs (stream_of s (inSessionID n))) \<subseteq> set (stInputs st')"
    using e(1) by (auto simp: enqueueAgentInput_def Let_def split: option.splits if_splits)
  then show ?thesis
    using assms(2) e(2) by (cases "sid = inSessionID n") (auto simp: stream_of_def)
qed

lemma is_step_keeps:
  assumes "in_clock_ok c" "x \<in> set (stInputs (stream_of s sid))"
  shows "\<exists>y\<in>set (stInputs (stream_of (is_step c s) sid)). in_advances x y"
  using is_step_effect [OF assms(1), of s]
proof (elim disjE)
  assume "isStreams (is_step c s) = isStreams s"
  then have "stream_of (is_step c s) sid = stream_of s sid" by (simp add: stream_of_def)
  then show ?thesis using assms(2) in_advances_refl by metis
qed (use assms(2) edited_keeps enqueued_keeps in_advances_refl in blast)+

lemma is_run_keeps:
  assumes "list_all in_clock_ok cs" "x \<in> set (stInputs (stream_of s sid))"
  shows "\<exists>y\<in>set (stInputs (stream_of (run_calls is_step cs s) sid)). in_advances x y"
  using assms
proof (induction cs arbitrary: s x)
  case (Cons c cs)
  then obtain y where y: "y \<in> set (stInputs (stream_of (is_step c s) sid))" "in_advances x y"
    using is_step_keeps [of c x s sid] by auto
  then obtain z where "z \<in> set (stInputs (stream_of (run_calls is_step cs (is_step c s)) sid))" "in_advances y z"
    using Cons.IH Cons.prems(1) by auto
  then show ?case using y(2) in_advances_trans by auto
qed (use in_advances_refl in \<open>simp, blast\<close>)

text \<open>
  An accepted input is never lost and only moves forward: after any further calls the
  stream still holds it with the same ID, sequence, content and creation time, in the same
  or a later state; a finished input is unchanged and a bound execution stays bound.
\<close>

theorem is_run_lifecycle:
  assumes "list_all in_clock_ok cs" "x \<in> set (stInputs (stream_of s sid))"
  shows "\<exists>y\<in>set (stInputs (stream_of (run_calls is_step cs s) sid)). inID y = inID x \<and>
    inSequence y = inSequence x \<and> inContent y = inContent x \<and> inCreatedAt y = inCreatedAt x \<and>
    (in_Terminal (inState x) \<longrightarrow> y = x) \<and>
    (inState x = AgentInputDispatching \<longrightarrow> inState y = AgentInputDispatching \<or> in_Terminal (inState y)) \<and>
    (inExecutionID x \<noteq> [] \<longrightarrow> inExecutionID y = inExecutionID x)"
  using is_run_keeps [OF assms]
  by (fastforce simp: in_advances_def st_before_def in_Terminal_def)

lemma alist_update_same: "map_of m k = Some v \<Longrightarrow> AList.update k v m = m"
  by (induction m) (auto split: if_splits)

lemma find_input_distinct:
  "distinct (map inID xs) \<Longrightarrow> x \<in> set xs \<Longrightarrow> find_input (inID x) xs = Some x"
  by (induction xs) (auto simp: image_iff)

lemma normalizeAgentInput_newID:
  "TrimSpace (inID x) \<noteq> [] \<Longrightarrow> normalizeAgentInput newID' x = normalizeAgentInput newID x"
  by (simp add: normalizeAgentInput_def Let_def)

lemma enqueueAgentInput_stored:
  assumes "enqueueAgentInput st n clock = Inr (st', created, new)"
  shows "created \<in> set (stInputs st')" "inID created = inID n" "inSessionID created = inSessionID n"
    "inKind created = inKind n" "inContent created = inContent n"
  using assms
  by (auto simp: enqueueAgentInput_def Let_def dest: find_input_Some split: option.splits if_splits)

lemma is_step_open: "c \<noteq> IClose \<Longrightarrow> isClosed (is_step c s) = isClosed s"
  by (cases c) (auto simp: is_Enqueue_def is_AcquireNext_def is_BindExecution_def is_Complete_def
      is_CancelQueued_def is_mutate_def split: sum.split option.split)

lemma is_run_open: "IClose \<notin> set cs \<Longrightarrow> isClosed (run_calls is_step cs s) = isClosed s"
proof (induction cs arbitrary: s)
  case (Cons c cs)
  then have "c \<noteq> IClose" "IClose \<notin> set cs" by auto
  then show ?case using Cons.IH is_step_open by simp
qed simp

text \<open>
  Enqueueing an input with an ID is idempotent: a client that repeats the call after
  any other calls (closing the store apart) gets the same input in its current state, and
  the store does not change.
\<close>

theorem is_Enqueue_idempotent:
  assumes "is_inv s" "is_Enqueue None newID clock input s = (s', Inr created)" "clock \<noteq> 0"
    and "TrimSpace (inID input) \<noteq> []" "list_all in_clock_ok cs" "IClose \<notin> set cs"
  shows "\<exists>y. is_Enqueue None newID' clock' input (run_calls is_step cs s') =
      (run_calls is_step cs s', Inr y) \<and> inID y = inID created \<and> inSequence y = inSequence created"
proof -
  let ?s = "run_calls is_step cs s'"
  obtain n st' new where n: "normalizeAgentInput newID input = Inr n" "\<not> isClosed s"
    "enqueueAgentInput (stream_of s (inSessionID n)) n clock = Inr (st', created, new)"
    "s' = s\<lparr>isStreams := AList.update (inSessionID n) st' (isStreams s)\<rparr>"
    using assms(2) by (auto simp: is_Enqueue_def split: sum.splits if_splits)
  have "created \<in> set (stInputs (stream_of s' (inSessionID n)))"
    using n(4) enqueueAgentInput_stored(1) [OF n(3)] by (simp add: stream_of_def)
  then obtain y where y: "y \<in> set (stInputs (stream_of ?s (inSessionID n)))" "in_advances created y"
    using is_run_keeps [OF assms(5)] by blast
  have "is_inv s'" using is_inv_step [OF assms(1), of "IEnqueue None newID clock input"] assms(2,3) by simp
  then have "is_inv ?s" using is_inv_run assms(5) by blast
  then have "stream_ok (inSessionID n) (stream_of ?s (inSessionID n))"
    using is_inv_stream [of ?s "inSessionID n"] y(1) by (auto simp: no_stream_def)
  then have "find_input (inID n) (stInputs (stream_of ?s (inSessionID n))) = Some y"
    using find_input_distinct [OF _ y(1)] y(2) enqueueAgentInput_stored(2) [OF n(3)]
    by (simp add: stream_ok_def in_advances_def)
  then have "enqueueAgentInput (stream_of ?s (inSessionID n)) n clock' = Inr (stream_of ?s (inSessionID n), y, False)"
    using y(2) enqueueAgentInput_stored(3-5) [OF n(3)] by (simp add: enqueueAgentInput_def in_advances_def)
  moreover have "map_of (isStreams ?s) (inSessionID n) = Some (stream_of ?s (inSessionID n))"
    using y(1) by (auto simp: stream_of_def no_stream_def split: option.splits)
  moreover have "normalizeAgentInput newID' input = Inr n"
    using n(1) normalizeAgentInput_newID [OF assms(4)] by metis
  moreover have "\<not> isClosed ?s" using is_run_open [OF assms(6)] n(2,4) by simp
  ultimately show ?thesis
    using y(2) by (auto simp: is_Enqueue_def alist_update_same in_advances_def)
qed

section \<open>Samples\<close>

definition sample_prompt :: "string \<Rightarrow> agent_input" where
  "sample_prompt i = \<lparr>inID = i, inSessionID = ''s1'', inSequence = 0, inKind = [], inContent = ''hello'',
     inState = AgentInputStateOther [], inExecutionID = [], inLastError = [], inRevision = 0,
     inCreatedAt = 0, inUpdatedAt = 0\<rparr>"

definition sample_inputs :: "in_call list" where
  "sample_inputs = [IEnqueue None ''n'' 5 (sample_prompt ''a''), IEnqueue None ''n'' 6 (sample_prompt ''b'')]"

definition queued_prompt :: "string \<Rightarrow> u64 \<Rightarrow> gotime \<Rightarrow> agent_input" where
  "queued_prompt i q now = \<lparr>inID = i, inSessionID = ''s1'', inSequence = q, inKind = AgentInputPrompt,
     inContent = ''hello'', inState = AgentInputQueued, inExecutionID = [], inLastError = [],
     inRevision = 1, inCreatedAt = now, inUpdatedAt = now\<rparr>"

definition sample_stream :: input_stream where
  "sample_stream = \<lparr>stNextSequence = 3, stInputs = [queued_prompt ''a'' 1 5, queued_prompt ''b'' 2 6]\<rparr>"

definition sample_input_store :: input_store where
  "sample_input_store = \<lparr>isStreams = [(''s1'', sample_stream)], isClosed = False\<rparr>"

lemma sample_inputs_run: "run_calls is_step sample_inputs NewMemoryInputStore = sample_input_store"
  by code_simp

lemma sample_inputs_clock: "list_all in_clock_ok sample_inputs"
  by (simp add: sample_inputs_def)

lemma sample_input_store_inv: "is_inv sample_input_store"
  using is_inv_run [OF is_inv_new sample_inputs_clock] by (simp add: sample_inputs_run)

theorem is_run_validates_witness: "validateInputStream ''n'' ''s1'' sample_stream = Inr sample_stream"
  using is_run_validates [OF sample_inputs_clock, of "''s1''" sample_stream]
  by (simp add: sample_inputs_run sample_input_store_def)

lemma sample_acquire:
  "is_AcquireNext None 10 ''s1'' sample_input_store =
     (fst (is_AcquireNext None 10 ''s1'' sample_input_store),
      Inr (Some ((queued_prompt ''a'' 1 5)\<lparr>inState := AgentInputDispatching, inRevision := 2, inUpdatedAt := 10\<rparr>,
        False)))"
  by code_simp

theorem is_AcquireNext_in_order_witness:
  "\<exists>x0\<in>set (stInputs (stream_of sample_input_store ''s1'')). inState x0 = AgentInputQueued \<and>
     (\<forall>y\<in>set (stInputs (stream_of sample_input_store ''s1'')). inState y \<noteq> AgentInputDispatching)"
  using is_AcquireNext_in_order [OF sample_input_store_inv _ _ sample_acquire]
  by (simp add: alnum_def name_char_def) blast

theorem is_run_lifecycle_witness:
  "\<exists>y\<in>set (stInputs (stream_of (run_calls is_step [IAcquire None 10 ''s1''] sample_input_store) ''s1'')).
     inID y = ''a'' \<and> inSequence y = 1"
  using is_run_lifecycle [of "[IAcquire None 10 ''s1'']" "queued_prompt ''a'' 1 5" sample_input_store "''s1''"]
  by (auto simp: stream_of_def sample_input_store_def sample_stream_def queued_prompt_def)

theorem is_Enqueue_idempotent_witness:
  "\<exists>y s'. s' = fst (is_Enqueue None ''n'' 7 (sample_prompt ''a'') sample_input_store) \<and>
     is_Enqueue None ''m'' 9 (sample_prompt ''a'') (run_calls is_step [IAcquire None 8 ''s1''] s') =
     (run_calls is_step [IAcquire None 8 ''s1''] s', Inr y)"
proof -
  have "TrimSpace (inID (sample_prompt ''a'')) = inID (sample_prompt ''a'')"
    by (rule TrimSpace_resource_name) (simp add: sample_prompt_def alnum_def)
  moreover have "is_Enqueue None ''n'' 7 (sample_prompt ''a'') sample_input_store =
      (fst (is_Enqueue None ''n'' 7 (sample_prompt ''a'') sample_input_store), Inr (queued_prompt ''a'' 1 5))"
    by code_simp
  ultimately show ?thesis
    using is_Enqueue_idempotent [OF sample_input_store_inv, where cs = "[IAcquire None 8 ''s1'']"]
    by (fastforce simp: sample_prompt_def)
qed

end
