(* ===== verification/Gateway_Notify.thy ===== *)
theory Gateway_Notify
  imports Go_Base "HOL-Library.Monad_Syntax"
begin

text \<open>
  How the gateway's stores wake their waiters: a channel per session, closed when the session
  changes and replaced by a new one (\<open>notifyLocked\<close>, \<open>signalLocked\<close> and \<open>Close\<close> of the
  event and interaction stores). Closing a closed channel panics: \<open>None\<close> in the model.

  \<open>wait_step\<close> is the concurrent system that the \<open>Wait\<close> loops make with the other calls:
  any number of waiters look at the store under its lock, block on the channel they found
  there, and look again when it is closed. A store that keeps the laws of \<open>waitable\<close> loses
  no wakeup.
\<close>

section \<open>Channels\<close>

type_synonym chan = nat

record notify =
  ntChannels :: "chan gomap"
  ntMade :: nat
  ntClosed :: "chan list"

definition no_notify :: notify where
  "no_notify = \<lparr>ntChannels = [], ntMade = 0, ntClosed = []\<rparr>"

definition make_chan :: "notify \<Rightarrow> notify \<times> chan" where
  "make_chan nt = (nt\<lparr>ntMade := Suc (ntMade nt)\<rparr>, ntMade nt)"

definition close_chan :: "chan \<Rightarrow> notify \<Rightarrow> notify option" where
  "close_chan ch nt = (if ch \<in> set (ntClosed nt) then None else Some (nt\<lparr>ntClosed := ch # ntClosed nt\<rparr>))"

definition notifyLocked :: "string \<Rightarrow> notify \<Rightarrow> notify \<times> chan" where
  "notifyLocked sid nt =
     (case map_of (ntChannels nt) sid of
        Some ch \<Rightarrow> (nt, ch)
      | None \<Rightarrow> (case make_chan nt of (nt, ch) \<Rightarrow>
          (nt\<lparr>ntChannels := AList.update sid ch (ntChannels nt)\<rparr>, ch)))"

definition signalLocked :: "string \<Rightarrow> notify \<Rightarrow> notify option" where
  "signalLocked sid nt =
     (case notifyLocked sid nt of (nt, ch) \<Rightarrow>
        do {
          nt \<leftarrow> close_chan ch nt;
          Some (case make_chan nt of (nt, ch) \<Rightarrow> nt\<lparr>ntChannels := AList.update sid ch (ntChannels nt)\<rparr>)
        })"

text \<open>The loop of \<open>Close\<close>: close every channel of the map and delete it.\<close>

fun close_channels :: "chan gomap \<Rightarrow> notify \<Rightarrow> notify option" where
  "close_channels [] nt = Some nt"
| "close_channels ((sid, ch) # m) nt =
     do {
       nt \<leftarrow> close_chan ch nt;
       close_channels m (nt\<lparr>ntChannels := AList.delete sid (ntChannels nt)\<rparr>)
     }"

definition notify_ok :: "notify \<Rightarrow> bool" where
  "notify_ok nt \<longleftrightarrow> gm_wf (ntChannels nt) \<and> distinct (map snd (ntChannels nt)) \<and>
     (\<forall>ch\<in>snd ` set (ntChannels nt). ch < ntMade nt \<and> ch \<notin> set (ntClosed nt)) \<and> (\<forall>ch\<in>set (ntClosed nt). ch < ntMade nt)"

text \<open>What a waiter may rely on between two looks: its channel stays the session's, or was closed.\<close>

definition follows :: "notify \<Rightarrow> notify \<Rightarrow> bool" where
  "follows nt nt' \<longleftrightarrow> set (ntClosed nt) \<subseteq> set (ntClosed nt') \<and>
     (\<forall>sid ch. map_of (ntChannels nt) sid = Some ch \<longrightarrow> map_of (ntChannels nt') sid = Some ch \<or> ch \<in> set (ntClosed nt'))"

lemma follows_refl [simp]: "follows nt nt"
  by (simp add: follows_def)

lemma follows_trans: "follows a b \<Longrightarrow> follows b c \<Longrightarrow> follows a c"
  unfolding follows_def by blast

lemma notify_ok_new [simp]: "notify_ok no_notify"
  by (simp add: notify_ok_def no_notify_def)

lemma notify_ok_open: "notify_ok nt \<Longrightarrow> map_of (ntChannels nt) sid = Some ch \<Longrightarrow> ch < ntMade nt \<and> ch \<notin> set (ntClosed nt)"
  unfolding notify_ok_def by (metis image_eqI map_of_SomeD snd_conv)

lemma snd_update: "snd ` set (AList.update k v m) \<subseteq> insert v (snd ` set m)"
  by (induction m) auto

lemma distinct_snd_update: "distinct (map snd m) \<Longrightarrow> v \<notin> snd ` set m \<Longrightarrow> distinct (map snd (AList.update k v m))"
proof (induction m)
  case (Cons a m)
  then show ?case using snd_update [of k v m] by auto
qed simp

text \<open>A new channel for a session whose old one, if any, is closed.\<close>

lemma notify_ok_fresh:
  assumes "gm_wf m" "distinct (map snd m)" "\<forall>ch\<in>snd ` set m. ch < made" "\<forall>ch\<in>set closed. ch < made"
    and "\<forall>k ch. k \<noteq> sid \<longrightarrow> map_of m k = Some ch \<longrightarrow> ch \<notin> set closed"
  shows "notify_ok \<lparr>ntChannels = AList.update sid made m, ntMade = Suc made, ntClosed = closed\<rparr>"
proof -
  have m: "gm_wf (AList.update sid made m)" using assms(1) by (rule gm_wf_put)
  have "ch < Suc made \<and> ch \<notin> set closed" if c: "ch \<in> snd ` set (AList.update sid made m)" for ch
  proof -
    obtain k where "map_of (AList.update sid made m) k = Some ch" using c gm_values_iff [OF m] by blast
    then have "k = sid \<and> ch = made \<or> k \<noteq> sid \<and> map_of m k = Some ch" by (auto split: if_splits)
    then show ?thesis
    proof
      assume "k = sid \<and> ch = made"
      then show ?thesis using assms(4) by auto
    next
      assume k: "k \<noteq> sid \<and> map_of m k = Some ch"
      then have "ch \<in> snd ` set m" using gm_values_iff [OF assms(1)] by blast
      then show ?thesis using assms(3,5) k by auto
    qed
  qed
  moreover have "distinct (map snd (AList.update sid made m))" using assms(2,3) by (intro distinct_snd_update) auto
  ultimately show ?thesis using m assms(4) by (auto simp: notify_ok_def less_Suc_eq)
qed

lemma notifyLocked_ok:
  assumes "notify_ok nt" "notifyLocked sid nt = (nt', ch)"
  shows "notify_ok nt' \<and> follows nt nt' \<and> map_of (ntChannels nt') sid = Some ch \<and> ntClosed nt' = ntClosed nt \<and>
    (\<forall>k c. k \<noteq> sid \<longrightarrow> map_of (ntChannels nt') k = map_of (ntChannels nt) k)"
proof (cases "map_of (ntChannels nt) sid")
  case None
  have "notify_ok \<lparr>ntChannels = AList.update sid (ntMade nt) (ntChannels nt), ntMade = Suc (ntMade nt), ntClosed = ntClosed nt\<rparr>"
    using assms(1) notify_ok_open [OF assms(1)] by (intro notify_ok_fresh) (auto simp: notify_ok_def)
  moreover have "nt' = \<lparr>ntChannels = AList.update sid (ntMade nt) (ntChannels nt), ntMade = Suc (ntMade nt), ntClosed = ntClosed nt\<rparr>"
    "ch = ntMade nt" using assms(2) None by (auto simp: notifyLocked_def make_chan_def)
  ultimately show ?thesis using None by (auto simp: follows_def)
next
  case (Some c)
  then show ?thesis using assms by (simp add: notifyLocked_def)
qed

lemma gm_snd_inject: "distinct (map snd m) \<Longrightarrow> map_of m k = Some c \<Longrightarrow> map_of m k' = Some c \<Longrightarrow> k = k'"
  by (induction m) (auto split: if_splits dest!: map_of_SomeD simp: image_iff)

lemma signalLocked_ok:
  assumes "notify_ok nt"
  obtains nt' where "signalLocked sid nt = Some nt'" "notify_ok nt'" "follows nt nt'"
    "\<And>ch. map_of (ntChannels nt) sid = Some ch \<Longrightarrow> ch \<in> set (ntClosed nt')"
proof -
  obtain nt1 ch where 1: "notifyLocked sid nt = (nt1, ch)" by fastforce
  note ok = notifyLocked_ok [OF assms 1]
  then have ch: "ch < ntMade nt1" "ch \<notin> set (ntClosed nt1)" using notify_ok_open [of nt1 sid ch] by simp_all
  let ?nt = "\<lparr>ntChannels = AList.update sid (ntMade nt1) (ntChannels nt1), ntMade = Suc (ntMade nt1), ntClosed = ch # ntClosed nt1\<rparr>"
  have "k \<noteq> sid \<longrightarrow> map_of (ntChannels nt1) k = Some c \<longrightarrow> c \<notin> set (ch # ntClosed nt1)" for k c
  proof (intro impI)
    assume "k \<noteq> sid" "map_of (ntChannels nt1) k = Some c"
    moreover from this have "c \<noteq> ch"
      using ok gm_snd_inject [of "ntChannels nt1" k c sid] by (auto simp: notify_ok_def)
    ultimately show "c \<notin> set (ch # ntClosed nt1)" using ok notify_ok_open [of nt1 k c] by simp
  qed
  then have "notify_ok ?nt" using ok ch by (intro notify_ok_fresh) (auto simp: notify_ok_def)
  moreover have "signalLocked sid nt = Some ?nt"
    using ch(2) by (simp add: signalLocked_def 1 close_chan_def make_chan_def)
  moreover have "follows nt ?nt"
    using ok unfolding follows_def by (auto, metis option.inject)
  moreover have "c \<in> set (ntClosed ?nt)" if "map_of (ntChannels nt) sid = Some c" for c
    using that 1 by (simp add: notifyLocked_def)
  ultimately show thesis using that by blast
qed

lemma close_channels_ok:
  assumes "notify_ok nt" "m = ntChannels nt"
  shows "\<exists>nt'. close_channels m nt = Some nt' \<and> notify_ok nt' \<and> ntChannels nt' = [] \<and>
    set (ntClosed nt') = set (ntClosed nt) \<union> snd ` set m"
  using assms
proof (induction m arbitrary: nt)
  case (Cons a m)
  obtain sid ch where a: "a = (sid, ch)" by fastforce
  note m = Cons.prems(2) [symmetric, unfolded a]
  have ch: "ch \<notin> set (ntClosed nt)" "sid \<notin> fst ` set m" using Cons.prems m by (auto simp: notify_ok_def)
  let ?nt = "nt\<lparr>ntClosed := ch # ntClosed nt, ntChannels := m\<rparr>"
  have "AList.delete sid (ntChannels nt) = m" using ch(2) m by (simp add: delete_id)
  moreover have "notify_ok ?nt" using Cons.prems(1) m by (auto simp: notify_ok_def)
  ultimately show ?case using Cons.IH [of ?nt] ch(1) a by (auto simp: close_chan_def)
qed (simp add: notify_ok_def)

lemma close_channels_follows:
  assumes "notify_ok nt"
  obtains nt' where "close_channels (ntChannels nt) nt = Some nt'" "notify_ok nt'" "follows nt nt'"
    "\<And>sid ch. map_of (ntChannels nt) sid = Some ch \<Longrightarrow> ch \<in> set (ntClosed nt')"
proof -
  obtain nt' where nt': "close_channels (ntChannels nt) nt = Some nt'" "notify_ok nt'"
    "set (ntClosed nt') = set (ntClosed nt) \<union> snd ` set (ntChannels nt)"
    using close_channels_ok [OF assms refl] by blast
  have "ch \<in> set (ntClosed nt')" if "map_of (ntChannels nt) sid = Some ch" for sid ch
    using map_of_SomeD [OF that] nt'(3) by force
  then show thesis using that nt' by (auto simp: follows_def)
qed

section \<open>Waiting\<close>

text \<open>
  A waiter is about to look at the store, is blocked on the channel it found there, or has
  returned. \<open>look q s\<close> is what the loop's body finds under the lock: the result it returns
  with, or nothing yet. Then the waiter takes the session's channel, still under the lock,
  and blocks until that channel is closed or its context ends.
\<close>

datatype 'r waiter = WaitLooking | WaitBlocked chan | WaitDone "'r result"

record ('s, 'q, 'r) wait_system =
  wsStore :: 's
  wsWaiters :: "('q \<times> 'r waiter) list"

inductive wait_step ::
  "('c \<Rightarrow> 's \<Rightarrow> 's option) \<Rightarrow> ('q \<Rightarrow> 's \<Rightarrow> 'r result option) \<Rightarrow> ('q \<Rightarrow> string) \<Rightarrow> ('s \<Rightarrow> notify) \<Rightarrow> (notify \<Rightarrow> 's \<Rightarrow> 's) \<Rightarrow>
   ('s, 'q, 'r) wait_system \<Rightarrow> ('s, 'q, 'r) wait_system \<Rightarrow> bool"
  for exec look key nt set_nt where
  wait_call: "exec c (wsStore w) = Some s' \<Longrightarrow> wait_step exec look key nt set_nt w (w\<lparr>wsStore := s'\<rparr>)"
| wait_start: "wait_step exec look key nt set_nt w (w\<lparr>wsWaiters := wsWaiters w @ [(q, WaitLooking)]\<rparr>)"
| wait_return: "i < length (wsWaiters w) \<Longrightarrow> wsWaiters w ! i = (q, WaitLooking) \<Longrightarrow> look q (wsStore w) = Some r \<Longrightarrow>
    wait_step exec look key nt set_nt w (w\<lparr>wsWaiters := (wsWaiters w)[i := (q, WaitDone r)]\<rparr>)"
| wait_block: "i < length (wsWaiters w) \<Longrightarrow> wsWaiters w ! i = (q, WaitLooking) \<Longrightarrow> look q (wsStore w) = None \<Longrightarrow>
    notifyLocked (key q) (nt (wsStore w)) = (n, ch) \<Longrightarrow>
    wait_step exec look key nt set_nt w (w\<lparr>wsStore := set_nt n (wsStore w), wsWaiters := (wsWaiters w)[i := (q, WaitBlocked ch)]\<rparr>)"
| wait_wake: "i < length (wsWaiters w) \<Longrightarrow> wsWaiters w ! i = (q, WaitBlocked ch) \<Longrightarrow> ch \<in> set (ntClosed (nt (wsStore w))) \<Longrightarrow>
    wait_step exec look key nt set_nt w (w\<lparr>wsWaiters := (wsWaiters w)[i := (q, WaitLooking)]\<rparr>)"
| wait_cancel: "i < length (wsWaiters w) \<Longrightarrow> wsWaiters w ! i = (q, WaitBlocked ch) \<Longrightarrow>
    wait_step exec look key nt set_nt w (w\<lparr>wsWaiters := (wsWaiters w)[i := (q, WaitDone (Inl e))]\<rparr>)"

text \<open>Every interleaving of calls and waiters that starts with a given store.\<close>

definition wait_reachable ::
  "('c \<Rightarrow> 's \<Rightarrow> 's option) \<Rightarrow> ('q \<Rightarrow> 's \<Rightarrow> 'r result option) \<Rightarrow> ('q \<Rightarrow> string) \<Rightarrow> ('s \<Rightarrow> notify) \<Rightarrow> (notify \<Rightarrow> 's \<Rightarrow> 's) \<Rightarrow>
   's \<Rightarrow> ('s, 'q, 'r) wait_system \<Rightarrow> bool" where
  "wait_reachable exec look key nt set_nt s =
     (wait_step exec look key nt set_nt)\<^sup>*\<^sup>* \<lparr>wsStore = s, wsWaiters = []\<rparr>"

text \<open>
  What a store promises its waiters. \<open>ready q s\<close> says that what \<open>q\<close> waits for is there:
  it stays, it is what a look finds, and a call that brings it closes the session's channel.
\<close>

locale waitable =
  fixes exec :: "'c \<Rightarrow> 's \<Rightarrow> 's option" and look :: "'q \<Rightarrow> 's \<Rightarrow> 'r result option" and key :: "'q \<Rightarrow> string"
    and nt :: "'s \<Rightarrow> notify" and set_nt :: "notify \<Rightarrow> 's \<Rightarrow> 's" and ready :: "'q \<Rightarrow> 's \<Rightarrow> bool"
  assumes nt_set: "nt (set_nt n s) = n"
    and look_set: "look q (set_nt n s) = look q s"
    and ready_set: "ready q (set_nt n s) = ready q s"
    and ready_look: "ready q s \<Longrightarrow> look q s \<noteq> None"
    and exec_ok: "notify_ok (nt s) \<Longrightarrow> \<exists>s'. exec c s = Some s' \<and> notify_ok (nt s') \<and> follows (nt s) (nt s')"
    and exec_ready: "exec c s = Some s' \<Longrightarrow> ready q s \<Longrightarrow> ready q s'"
    and exec_wakes: "notify_ok (nt s) \<Longrightarrow> exec c s = Some s' \<Longrightarrow> look q s = None \<Longrightarrow>
      map_of (ntChannels (nt s)) (key q) = Some ch \<Longrightarrow> look q s' = None \<or> ready q s' \<and> ch \<in> set (ntClosed (nt s'))"
begin

text \<open>A blocked waiter has nothing to return and holds the session's channel, or that channel is closed.\<close>

definition no_lost :: "('s, 'q, 'r) wait_system \<Rightarrow> bool" where
  "no_lost w \<longleftrightarrow> notify_ok (nt (wsStore w)) \<and>
     (\<forall>q ch. (q, WaitBlocked ch) \<in> set (wsWaiters w) \<longrightarrow>
        ch \<in> set (ntClosed (nt (wsStore w))) \<or>
        look q (wsStore w) = None \<and> map_of (ntChannels (nt (wsStore w))) (key q) = Some ch)"

lemma no_lostD:
  assumes "no_lost w" "(q, WaitBlocked ch) \<in> set (wsWaiters w)"
  shows "ch \<in> set (ntClosed (nt (wsStore w))) \<or>
    look q (wsStore w) = None \<and> map_of (ntChannels (nt (wsStore w))) (key q) = Some ch"
  using assms unfolding no_lost_def by blast

lemma no_lost_update:
  assumes "no_lost w" "\<And>ch. y \<noteq> WaitBlocked ch"
  shows "no_lost (w\<lparr>wsWaiters := (wsWaiters w)[i := (q, y)]\<rparr>)"
  using assms set_update_subset_insert [of "wsWaiters w" i "(q, y)"] unfolding no_lost_def by fastforce

lemma no_lost_step:
  assumes "no_lost w" "wait_step exec look key nt set_nt w w'"
  shows "no_lost w'"
  using assms(2)
proof cases
  case (wait_call c s')
  have ok: "notify_ok (nt (wsStore w))" using assms(1) by (simp add: no_lost_def)
  then have s': "notify_ok (nt s')" "follows (nt (wsStore w)) (nt s')" using exec_ok [of "wsStore w" c] wait_call by auto
  have "ch \<in> set (ntClosed (nt s')) \<or> look q s' = None \<and> map_of (ntChannels (nt s')) (key q) = Some ch"
    if b: "(q, WaitBlocked ch) \<in> set (wsWaiters w)" for q ch
  proof (cases "ch \<in> set (ntClosed (nt s'))")
    case False
    then have open': "look q (wsStore w) = None" "map_of (ntChannels (nt (wsStore w))) (key q) = Some ch"
      using no_lostD [OF assms(1) b] s'(2) by (auto simp: follows_def)
    then show ?thesis using exec_wakes [OF ok wait_call(2) open'] s'(2) by (auto simp: follows_def)
  qed simp
  then show ?thesis using wait_call s'(1) by (simp add: no_lost_def)
next
  case (wait_block i q n ch)
  have ok: "notify_ok (nt (wsStore w))" using assms(1) by (simp add: no_lost_def)
  note n = notifyLocked_ok [OF ok wait_block(5)]
  have "ch' \<in> set (ntClosed n) \<or> look q' (wsStore w) = None \<and> map_of (ntChannels n) (key q') = Some ch'"
    if b: "(q', WaitBlocked ch') \<in> set ((wsWaiters w)[i := (q, WaitBlocked ch)])" for q' ch'
  proof (cases "(q', WaitBlocked ch') \<in> set (wsWaiters w)")
    case True
    then show ?thesis using no_lostD [OF assms(1)] n unfolding follows_def by metis
  next
    case False
    then have "q' = q" "ch' = ch" using b set_update_subset_insert by fastforce+
    then show ?thesis using wait_block(4) n by simp
  qed
  then show ?thesis using wait_block(1) n by (simp add: no_lost_def nt_set look_set)
next
  case (wait_start q)
  then show ?thesis using assms(1) by (auto simp: no_lost_def)
qed (simp_all add: no_lost_update [OF assms(1)])

lemma reachable_no_lost:
  assumes "wait_reachable exec look key nt set_nt s w" "notify_ok (nt s)"
  shows "no_lost w"
  using assms(1) unfolding wait_reachable_def
proof (induction rule: rtranclp_induct)
  case base
  then show ?case using assms(2) by (simp add: no_lost_def)
next
  case (step w w')
  then show ?case using no_lost_step by blast
qed

text \<open>A blocked waiter that has something to return is woken: its channel is closed.\<close>

lemma no_lost_wakeup:
  assumes "wait_reachable exec look key nt set_nt s w" "notify_ok (nt s)"
    and "i < length (wsWaiters w)" "wsWaiters w ! i = (q, WaitBlocked ch)" "look q (wsStore w) \<noteq> None"
  shows "wait_step exec look key nt set_nt w (w\<lparr>wsWaiters := (wsWaiters w)[i := (q, WaitLooking)]\<rparr>)"
proof -
  have "(q, WaitBlocked ch) \<in> set (wsWaiters w)" using assms(3,4) by (metis nth_mem)
  then have "ch \<in> set (ntClosed (nt (wsStore w)))" using no_lostD [OF reachable_no_lost [OF assms(1,2)], of q ch] assms(5) by auto
  then show ?thesis using assms(3,4) by (intro wait_wake)
qed

text \<open>What a waiter waits for stays, whatever the others do, so that its next look returns.\<close>

lemma ready_stays:
  assumes "wait_step exec look key nt set_nt w w'" "ready q (wsStore w)"
  shows "ready q (wsStore w')"
  using assms exec_ready by cases (auto simp: ready_set)

lemma ready_stays_run:
  assumes "(wait_step exec look key nt set_nt)\<^sup>*\<^sup>* w w'" "ready q (wsStore w)"
  shows "ready q (wsStore w') \<and> look q (wsStore w') \<noteq> None"
  using assms(1)
proof (induction rule: rtranclp_induct)
  case base
  then show ?case using assms(2) ready_look by blast
next
  case (step w' w'')
  then show ?case using ready_stays ready_look by blast
qed

text \<open>No call panics.\<close>

lemma reachable_no_panic:
  assumes "wait_reachable exec look key nt set_nt s w" "notify_ok (nt s)"
  shows "exec c (wsStore w) \<noteq> None"
  using reachable_no_lost [OF assms] exec_ok [of "wsStore w" c] by (auto simp: no_lost_def)

text \<open>A result that a waiter returned came from a look, and stays true of the store.\<close>

lemma reachable_results:
  assumes "wait_reachable exec look key nt set_nt s w" "(q, WaitDone (Inr r)) \<in> set (wsWaiters w)"
    and look: "\<And>s. I s \<Longrightarrow> look q s = Some (Inr r) \<Longrightarrow> P s"
    and stable: "\<And>c s s'. I s \<Longrightarrow> exec c s = Some s' \<Longrightarrow> I s' \<and> (P s \<longrightarrow> P s')"
    and set: "\<And>n s. I (set_nt n s) = I s" "\<And>n s. P (set_nt n s) = P s"
    and start: "I s"
  shows "P (wsStore w)"
proof -
  have "I (wsStore w) \<and> ((q, WaitDone (Inr r)) \<in> set (wsWaiters w) \<longrightarrow> P (wsStore w))"
    using assms(1) unfolding wait_reachable_def
  proof (induction rule: rtranclp_induct)
    case base
    then show ?case using start by simp
  next
    case (step w w')
    have upd: "(q, WaitDone (Inr r)) \<in> set (wsWaiters w)"
      if "(q, WaitDone (Inr r)) \<in> set ((wsWaiters w)[i := x])" "x \<noteq> (q, WaitDone (Inr r))" for i x
      using that set_update_subset_insert [of "wsWaiters w" i x] by auto
    from step(2) show ?case
    proof cases
      case (wait_call c s')
      then show ?thesis using stable step.IH by auto
    next
      case (wait_return i q' r')
      then show ?thesis using upd look step.IH by (cases "q' = q \<and> r' = Inr r") auto
    next
      case (wait_block i q' n ch)
      then show ?thesis using upd set step.IH by auto
    qed (use step.IH upd in auto)
  qed
  then show ?thesis using assms(2) by blast
qed

end

end
