(* ===== verification/Deliveries.thy ===== *)
theory Deliveries
  imports Resource_Names Go_Json Leases
begin

text \<open>
  Durable event deliveries: the value of \<open>sdk/delivery.go\<close>, the aggregate transitions of
  \<open>sdk/storage/internal/deliverymodel/model.go\<close>, and the subscriber addresses of
  \<open>internal/deliveryworker/target.go\<close>. The attempt counter is an unbounded integer: it
  grows by one per lease, so the 64-bit \<open>int\<close> of the code does not reach its bound.
\<close>

section \<open>Data\<close>

record sdk_event =
  evID :: string
  evName :: string
  evSessionID :: string
  evGeneration :: u64
  evPayload :: json

datatype DeliveryState =
  DeliveryPending | DeliveryLeased | DeliveryDelivered | DeliveryDeadLetter | DeliveryStateOther string

record delivery =
  dvID :: string
  dvSequence :: u64
  dvPlugin :: string
  dvPluginVersion :: string
  dvSubscription :: string
  dvResourceRevision :: string
  dvPartition :: string
  dvEvent :: sdk_event
  dvState :: DeliveryState
  dvAttempt :: int
  dvAvailableAt :: gotime
  dvLeaseToken :: string
  dvLeaseExpiresAt :: gotime
  dvLastError :: string
  dvCreatedAt :: gotime
  dvUpdatedAt :: gotime

definition dv_Terminal :: "delivery \<Rightarrow> bool" where
  "dv_Terminal d \<longleftrightarrow> dvState d \<in> {DeliveryDelivered, DeliveryDeadLetter}"

section \<open>The aggregate\<close>

definition dv_NormalizeMutationTime :: "gotime \<Rightarrow> gotime \<Rightarrow> gotime" where
  "dv_NormalizeMutationTime wall value = (if value = 0 then wall else value)"

definition dv_ValidateLeaseDuration :: "duration \<Rightarrow> error option" where
  "dv_ValidateLeaseDuration d =
     reject_if (d \<le> 0) (Errorf ''delivery lease duration must be positive'')"

definition dv_ValidateNew :: "delivery \<Rightarrow> error option" where
  "dv_ValidateNew d =
     and_then (reject_if (dvID d = []) (Errorf ''delivery ID is empty''))
     (and_then (ValidateResourceName ''plugin'' (dvPlugin d))
     (and_then (ValidateResourceName ''subscription'' (dvSubscription d))
     (and_then (reject_if (evID (dvEvent d) = [] \<or> evName (dvEvent d) = [])
        (Errorf ''delivery event ID and name are required''))
      (reject_if (\<not> json_Valid (evPayload (dvEvent d)))
        (Errorf ''delivery event payload is invalid JSON'')))))"

definition dv_ValidateLoaded :: "delivery \<Rightarrow> error option" where
  "dv_ValidateLoaded d =
     and_then (dv_ValidateNew d)
     (and_then (reject_if (dvAttempt d < 0) (Errorf ''delivery attempt cannot be negative''))
     (case dvState d of
        DeliveryLeased \<Rightarrow>
          reject_if (dvAttempt d = 0 \<or> dvLeaseToken d = [] \<or> dvLeaseExpiresAt d = 0)
            (Errorf ''leased delivery has an invalid lease'')
      | DeliveryStateOther s \<Rightarrow> Some (Errorf ''delivery has invalid state %q'')
      | _ \<Rightarrow> reject_if (dvLeaseToken d \<noteq> [] \<or> dvLeaseExpiresAt d \<noteq> 0)
            (Errorf ''unleased delivery contains a lease'')))"

definition dv_Partition :: "delivery \<Rightarrow> string" where
  "dv_Partition d = (if dvPartition d \<noteq> [] then dvPartition d
     else dvPlugin d @ ''/'' @ dvSubscription d)"

definition SameIdentity :: "delivery \<Rightarrow> delivery \<Rightarrow> bool" where
  "SameIdentity left right \<longleftrightarrow> dvID left = dvID right \<and> dvPlugin left = dvPlugin right \<and>
     dvPluginVersion left = dvPluginVersion right \<and>
     dvSubscription left = dvSubscription right \<and>
     dvResourceRevision left = dvResourceRevision right \<and>
     dvPartition left = dvPartition right \<and>
     evID (dvEvent left) = evID (dvEvent right) \<and>
     evName (dvEvent left) = evName (dvEvent right) \<and>
     evSessionID (dvEvent left) = evSessionID (dvEvent right) \<and>
     evGeneration (dvEvent left) = evGeneration (dvEvent right) \<and>
     evPayload (dvEvent left) = evPayload (dvEvent right)"

definition dv_PrepareNew :: "gotime \<Rightarrow> delivery \<Rightarrow> gotime \<Rightarrow> delivery result" where
  "dv_PrepareNew wall d now =
     check (dv_ValidateNew d)
     (let now = dv_NormalizeMutationTime wall now;
          createdAt = (if dvCreatedAt d = 0 then now else dvCreatedAt d);
          availableAt = (if dvAvailableAt d = 0 then createdAt else dvAvailableAt d)
      in Inr (d\<lparr>dvState := DeliveryPending, dvAttempt := 0, dvAvailableAt := availableAt,
                dvLeaseToken := [], dvLeaseExpiresAt := 0, dvPartition := dv_Partition d,
                dvCreatedAt := createdAt, dvUpdatedAt := createdAt\<rparr>))"

text \<open>The loop of \<open>PrepareNewBatch\<close> with its map \<open>byID\<close>.\<close>

fun prepare_batch ::
  "gotime \<Rightarrow> gotime \<Rightarrow> delivery gomap \<Rightarrow> delivery list \<Rightarrow> delivery list result" where
  "prepare_batch wall now byID [] = Inr []"
| "prepare_batch wall now byID (d # ds) =
     bind_result (dv_PrepareNew wall d now) (\<lambda>n.
     if (case map_of byID (dvID n) of None \<Rightarrow> False | Some e \<Rightarrow> \<not> SameIdentity e n)
     then Inl (Errorf ''delivery %q appears more than once with different identity'')
     else bind_result (prepare_batch wall now (AList.update (dvID n) n byID) ds) (\<lambda>ns. Inr (n # ns)))"

definition PrepareNewBatch :: "gotime \<Rightarrow> delivery list \<Rightarrow> gotime \<Rightarrow> delivery list result" where
  "PrepareNewBatch wall ds now = prepare_batch wall now [] ds"

definition dv_Compare :: "delivery \<Rightarrow> delivery \<Rightarrow> int" where
  "dv_Compare left right =
     (if (dvSequence left \<noteq> 0 \<or> dvSequence right \<noteq> 0) \<and> dvSequence left < dvSequence right then -1
      else if (dvSequence left \<noteq> 0 \<or> dvSequence right \<noteq> 0) \<and> dvSequence left > dvSequence right then 1
      else if compare_on dvAvailableAt left right \<noteq> 0 then compare_on dvAvailableAt left right
      else if compare_on dvCreatedAt left right \<noteq> 0 then compare_on dvCreatedAt left right
      else if dvID left < dvID right then -1
      else if dvID left > dvID right then 1
      else 0)"

definition LeaseAvailable :: "gotime \<Rightarrow> delivery \<Rightarrow> gotime \<Rightarrow> bool" where
  "LeaseAvailable wall d now =
     (let now = dv_NormalizeMutationTime wall now in
      case dvState d of
        DeliveryPending \<Rightarrow> \<not> now < dvAvailableAt d
      | DeliveryLeased \<Rightarrow> \<not> now < dvLeaseExpiresAt d
      | _ \<Rightarrow> False)"

definition dv_Lease :: "gotime \<Rightarrow> delivery \<Rightarrow> string \<Rightarrow> gotime \<Rightarrow> duration \<Rightarrow> delivery result" where
  "dv_Lease wall d token now dur =
     check (dv_ValidateLeaseDuration dur)
     (check (reject_if (token = []) (Errorf ''delivery lease token is empty''))
     (let now = dv_NormalizeMutationTime wall now in
      if \<not> LeaseAvailable wall d now then Inl (Wrapf ErrNoDelivery [])
      else let d = d\<lparr>dvState := DeliveryLeased, dvAttempt := dvAttempt d + 1,
                     dvLeaseToken := token, dvLeaseExpiresAt := now + dur, dvUpdatedAt := now\<rparr>
           in check (dv_ValidateLoaded d) (Inr d)))"

definition FinishLease ::
  "gotime \<Rightarrow> delivery \<Rightarrow> string \<Rightarrow> gotime \<Rightarrow> DeliveryState \<Rightarrow> gotime \<Rightarrow> string \<Rightarrow> delivery result" where
  "FinishLease wall d token now st availableAt lastError =
     (let now = dv_NormalizeMutationTime wall now in
      if dvState d \<noteq> DeliveryLeased \<or> dvLeaseToken d \<noteq> token
      then Inl (Wrapf ErrDeliveryLease ''%w: %s'')
      else if st \<notin> {DeliveryPending, DeliveryDelivered, DeliveryDeadLetter}
      then Inl (Errorf ''leased delivery cannot transition to %q'')
      else let d = d\<lparr>dvState := st, dvAvailableAt := availableAt, dvLeaseToken := [],
                     dvLeaseExpiresAt := 0,
                     dvLastError := (if st \<noteq> DeliveryDelivered \<or> lastError \<noteq> [] then lastError
                                     else dvLastError d),
                     dvUpdatedAt := now\<rparr>
           in check (dv_ValidateLoaded d) (Inr d))"

section \<open>Subscriber addresses\<close>

record dv_target =
  tgPlugin :: string
  tgPluginVersion :: string
  tgSubscription :: string
  tgResourceRevision :: string

definition target_deliveryID :: "dv_target \<Rightarrow> sdk_event \<Rightarrow> string" where
  "target_deliveryID t e =
     (let i = evID e @ ''.'' @ tgSubscription t in
      if tgResourceRevision t = [] then i else i @ ''.'' @ tgResourceRevision t)"

definition target_partition :: "dv_target \<Rightarrow> sdk_event \<Rightarrow> string" where
  "target_partition t e =
     (if evSessionID e \<noteq> [] then tgSubscription t @ ''/'' @ evSessionID e else tgSubscription t)"

definition target_Record :: "dv_target \<Rightarrow> sdk_event \<Rightarrow> gotime \<Rightarrow> delivery" where
  "target_Record t e now = \<lparr>dvID = target_deliveryID t e, dvSequence = 0, dvPlugin = tgPlugin t,
     dvPluginVersion = tgPluginVersion t, dvSubscription = tgSubscription t,
     dvResourceRevision = tgResourceRevision t, dvPartition = target_partition t e,
     dvEvent = e, dvState = DeliveryStateOther [], dvAttempt = 0, dvAvailableAt = 0,
     dvLeaseToken = [], dvLeaseExpiresAt = 0, dvLastError = [], dvCreatedAt = now,
     dvUpdatedAt = 0\<rparr>"

definition target_Validate :: "dv_target \<Rightarrow> delivery \<Rightarrow> error option" where
  "target_Validate t d =
     and_then (reject_if (dvPlugin d \<noteq> tgPlugin t \<or> dvSubscription d \<noteq> tgSubscription t)
       (Errorf ''delivery targets plugin %s subscriber %s; current target is plugin %s subscriber %s''))
     (and_then (reject_if (dvPluginVersion d \<noteq> [] \<and> dvPluginVersion d \<noteq> tgPluginVersion t)
       (Errorf ''delivery targets plugin version %q, current version is %q''))
      (reject_if (dvResourceRevision d \<noteq> [] \<and> dvResourceRevision d \<noteq> tgResourceRevision t)
       (Errorf ''delivery resource revision %q does not match current revision %q'')))"

definition target_Matches :: "dv_target \<Rightarrow> delivery \<Rightarrow> bool" where
  "target_Matches t d \<longleftrightarrow> target_Validate t d = None"

definition targets_Matches :: "dv_target gomap \<Rightarrow> delivery \<Rightarrow> bool" where
  "targets_Matches ts d =
     (case map_of ts (dvSubscription d) of None \<Rightarrow> False | Some t \<Rightarrow> target_Matches t d)"

fun targets_MatchesAny :: "dv_target gomap \<Rightarrow> delivery list \<Rightarrow> bool" where
  "targets_MatchesAny ts [] = False"
| "targets_MatchesAny ts (d # ds) = (if targets_Matches ts d then True else targets_MatchesAny ts ds)"

section \<open>Interleavings of store calls on one delivery\<close>

text \<open>\<open>EvLease wall now token duration\<close> and \<open>EvFinish wall now token state available error\<close>.\<close>

datatype dv_event_call =
    EvLease gotime gotime string duration
  | EvFinish gotime gotime string DeliveryState gotime string

fun dv_apply :: "dv_event_call \<Rightarrow> delivery \<Rightarrow> delivery result" where
  "dv_apply (EvLease wall now token dur) d = dv_Lease wall d token now dur"
| "dv_apply (EvFinish wall now token st availableAt lastError) d =
     FinishLease wall d token now st availableAt lastError"

definition dv_holder :: "delivery \<Rightarrow> string option" where
  "dv_holder d = (if dvState d = DeliveryLeased then Some (dvLeaseToken d) else None)"

fun dv_grants :: "dv_event_call \<Rightarrow> string option" where
  "dv_grants (EvLease wall now token dur) = Some token"
| "dv_grants _ = None"

fun dv_credential :: "dv_event_call \<Rightarrow> string option" where
  "dv_credential (EvFinish wall now token st availableAt lastError) = Some token"
| "dv_credential _ = None"

fun dv_time :: "dv_event_call \<Rightarrow> gotime" where
  "dv_time (EvLease wall now token dur) =
     dv_NormalizeMutationTime wall (dv_NormalizeMutationTime wall now)"
| "dv_time (EvFinish wall now token st availableAt lastError) = dv_NormalizeMutationTime wall now"

lemma dv_Lease_Inr:
  "dv_Lease wall d token now dur = Inr d' \<longleftrightarrow>
     0 < dur \<and> token \<noteq> [] \<and> LeaseAvailable wall d (dv_NormalizeMutationTime wall now) \<and>
     d' = d\<lparr>dvState := DeliveryLeased, dvAttempt := dvAttempt d + 1, dvLeaseToken := token,
            dvLeaseExpiresAt := dv_NormalizeMutationTime wall now + dur,
            dvUpdatedAt := dv_NormalizeMutationTime wall now\<rparr> \<and>
     dv_ValidateLoaded d' = None"
  by (auto simp: dv_Lease_def dv_ValidateLeaseDuration_def Let_def result_simps)

lemma FinishLease_Inr:
  "FinishLease wall d token now st availableAt lastError = Inr d' \<longleftrightarrow>
     dvState d = DeliveryLeased \<and> dvLeaseToken d = token \<and>
     st \<in> {DeliveryPending, DeliveryDelivered, DeliveryDeadLetter} \<and>
     d' = d\<lparr>dvState := st, dvAvailableAt := availableAt, dvLeaseToken := [], dvLeaseExpiresAt := 0,
            dvLastError := (if st \<noteq> DeliveryDelivered \<or> lastError \<noteq> [] then lastError
                            else dvLastError d),
            dvUpdatedAt := dv_NormalizeMutationTime wall now\<rparr> \<and>
     dv_ValidateLoaded d' = None"
  by (auto simp: FinishLease_def Let_def result_simps)

interpretation dv_leases: leased_aggregate dv_apply dv_holder dv_grants dv_credential
  dvLeaseExpiresAt dv_time
proof
  fix e d d' t t'
  assume ok: "dv_apply e d = Inr d'"
  show "dv_grants e = Some t \<Longrightarrow> dv_holder d' = Some t"
    using ok by (cases e) (auto simp: dv_Lease_Inr dv_holder_def)
  show "dv_grants e = None \<Longrightarrow> dv_holder d' = dv_holder d \<or> dv_holder d' = None"
    using ok by (cases e) (auto simp: FinishLease_Inr dv_holder_def)
  show "dv_credential e = Some t \<Longrightarrow> dv_holder d = Some t"
    using ok by (cases e) (auto simp: FinishLease_Inr dv_holder_def)
  show "dv_grants e = Some t \<Longrightarrow> dv_holder d = Some t' \<Longrightarrow> dvLeaseExpiresAt d \<le> dv_time e"
    using ok by (cases e) (auto simp: dv_Lease_Inr dv_holder_def LeaseAvailable_def Let_def split: if_splits)
qed

interpretation dv_terminals: terminal_aggregate dv_apply dv_Terminal
proof
  fix d e d'
  assume "dv_Terminal d" "dv_apply e d = Inr d'"
  then show "d' = d"
    by (cases e) (auto simp: dv_Lease_Inr FinishLease_Inr LeaseAvailable_def dv_Terminal_def Let_def)
qed

lemma dv_apply_identity:
  assumes "dv_apply e d = Inr d'"
  shows "SameIdentity d' d" "dvSequence d' = dvSequence d" "dvPartition d' = dvPartition d"
    "dv_Partition d' = dv_Partition d" "dvID d' = dvID d" "dv_ValidateLoaded d' = None"
  using assms
  by (cases e; simp add: dv_Lease_Inr FinishLease_Inr SameIdentity_def dv_Partition_def)+

lemma dv_Compare_eq:
  "dv_Compare = compare_then (compare_on dvSequence)
     (compare_then (compare_on dvAvailableAt) (compare_then (compare_on dvCreatedAt) (compare_on dvID)))"
  by (intro ext) (auto simp: dv_Compare_def compare_then_def compare_on_def)

interpretation dv_order: comparator dv_Compare
  unfolding dv_Compare_eq by (intro comparator_then comparator_on)

lemma dv_PrepareNew_Inr:
  assumes "dv_PrepareNew wall d now = Inr d'"
  shows "dv_ValidateLoaded d' = None" "dvState d' = DeliveryPending" "dvID d' = dvID d"
    "dvPartition d' = dv_Partition d" "dvID d' \<noteq> []" "dv_Partition d' = dv_Partition d"
  using assms
  by (auto simp: dv_PrepareNew_def Let_def result_simps dv_ValidateLoaded_def dv_ValidateNew_def
      dv_Partition_def split: if_splits)

text \<open>Preparing the same delivery later gives the same identity.\<close>

lemma dv_PrepareNew_again:
  assumes "dv_PrepareNew wall d now = Inr d'"
  shows "\<exists>d''. dv_PrepareNew wall' d now' = Inr d'' \<and> SameIdentity d'' d'"
  using assms by (auto simp: dv_PrepareNew_def Let_def result_simps SameIdentity_def)

lemma SameIdentity_refl [simp]: "SameIdentity d d"
  by (simp add: SameIdentity_def)

lemma SameIdentity_trans: "SameIdentity a b \<Longrightarrow> SameIdentity b c \<Longrightarrow> SameIdentity a c"
  by (simp add: SameIdentity_def)

lemma SameIdentity_sym: "SameIdentity a b \<Longrightarrow> SameIdentity b a"
  by (simp add: SameIdentity_def)

end
