(* ===== verification/Context_Injections.thy ===== *)
theory Context_Injections
  imports Resource_Names Stores
begin

text \<open>
  Context injections: messages that hosts, hooks and services queue for an agent loop.
  The values and their normalisation (\<open>sdk/context_injection.go\<close>), the checks
  (\<open>contextinjectionmodel\<close>) and the in-memory store
  (\<open>sdk/storage/context_injection_memory.go\<close>). The store is shown to refine a queue: a
  list of injections in the order in which they were accepted.
\<close>

section \<open>Messages\<close>

text \<open>
  A nil slice and an empty one differ for \<open>reflect.DeepEqual\<close>, so \<open>None\<close> is nil here.
  Cloning turns empty arguments into nil and keeps everything else.
\<close>

datatype Role = RoleSystem | RoleUser | RoleAssistant | RoleTool | RoleOther string

record tool_call =
  tcallID :: string
  tcallName :: string
  tcallArguments :: "json option"

record message =
  mgRole :: Role
  mgContent :: string
  mgToolCalls :: "tool_call list option"
  mgToolCallID :: string
  mgIsError :: bool

definition CloneToolCall :: "tool_call \<Rightarrow> tool_call" where
  "CloneToolCall c = c\<lparr>tcallArguments := (if tcallArguments c = Some [] then None else tcallArguments c)\<rparr>"

definition CloneToolCalls :: "tool_call list option \<Rightarrow> tool_call list option" where
  "CloneToolCalls calls = map_option (map CloneToolCall) calls"

definition CloneMessages :: "message list \<Rightarrow> message list" where
  "CloneMessages messages = map (\<lambda>m. m\<lparr>mgToolCalls := CloneToolCalls (mgToolCalls m)\<rparr>) messages"

section \<open>Injections\<close>

datatype ContextInjectionPriority =
  ContextInjectionNow | ContextInjectionNext | ContextInjectionLater | ContextInjectionPriorityOther string

definition priority_Valid :: "ContextInjectionPriority \<Rightarrow> bool" where
  "priority_Valid p = (case p of ContextInjectionPriorityOther s \<Rightarrow> s = [] | _ \<Rightarrow> True)"

definition priority_Effective :: "ContextInjectionPriority \<Rightarrow> ContextInjectionPriority" where
  "priority_Effective p = (if p = ContextInjectionPriorityOther [] then ContextInjectionNext else p)"

datatype ContextInjectionMode =
    ContextInjectionPrompt | ContextInjectionHook | ContextInjectionPermission
  | ContextInjectionTaskNotification | ContextInjectionInterAgent | ContextInjectionLocalCommand
  | ContextInjectionSystem | ContextInjectionModeOther string

definition mode_Valid :: "ContextInjectionMode \<Rightarrow> bool" where
  "mode_Valid m = (case m of ContextInjectionModeOther s \<Rightarrow> s = [] | _ \<Rightarrow> True)"

definition mode_Effective :: "ContextInjectionMode \<Rightarrow> ContextInjectionMode" where
  "mode_Effective m = (if m = ContextInjectionModeOther [] then ContextInjectionPrompt else m)"

record context_injection =
  ciID :: string
  ciPriority :: ContextInjectionPriority
  ciMode :: ContextInjectionMode
  ciOrigin :: string
  ciTargetSessionID :: string
  ciTargetExecutionID :: string
  ciIsMeta :: bool
  ciMessages :: "message list"
  ciAttributes :: "string gomap"
  ciCreatedAt :: gotime

record context_query =
  cqTargetSessionID :: string
  cqTargetExecutionID :: string
  cqLimit :: int

definition CloneContextInjection :: "context_injection \<Rightarrow> context_injection" where
  "CloneContextInjection i = i\<lparr>ciMessages := CloneMessages (ciMessages i)\<rparr>"

definition optional_name :: "string \<Rightarrow> string \<Rightarrow> error option" where
  "optional_name kind name = (if name \<noteq> [] then ValidateResourceName kind name else None)"

text \<open>\<open>newID\<close> is the value of \<open>NewID\<close> and \<open>wall\<close> that of \<open>time.Now\<close>.\<close>

definition NormalizeContextInjection ::
  "string \<Rightarrow> gotime \<Rightarrow> context_injection \<Rightarrow> gotime \<Rightarrow> context_injection result" where
  "NormalizeContextInjection newID wall i now =
     check (if ciID i = [] then None else ValidateResourceName ''context injection'' (ciID i))
     (let i = (if ciID i = [] then i\<lparr>ciID := newID\<rparr> else i) in
      check (reject_if (\<not> priority_Valid (ciPriority i)) (Errorf ''unknown context injection priority %q''))
      (let i = i\<lparr>ciPriority := priority_Effective (ciPriority i)\<rparr> in
       check (reject_if (\<not> mode_Valid (ciMode i)) (Errorf ''unknown context injection mode %q''))
       (let i = i\<lparr>ciMode := mode_Effective (ciMode i)\<rparr> in
        check (optional_name ''context injection target session'' (ciTargetSessionID i))
        (check (optional_name ''context injection target execution'' (ciTargetExecutionID i))
        (check (reject_if (length (ciMessages i) = 0) (Errorf ''context injection contains no messages''))
         (let i = (if ciCreatedAt i = 0 then i\<lparr>ciCreatedAt := (if now = 0 then wall else now)\<rparr> else i)
          in Inr (CloneContextInjection i)))))))"

section \<open>The model of the stores\<close>

record ci_record =
  crSequence :: u64
  crInjection :: context_injection

definition ci_SameIdentity :: "context_injection \<Rightarrow> context_injection \<Rightarrow> bool" where
  "ci_SameIdentity l r \<longleftrightarrow> ciID l = ciID r \<and> ciPriority l = ciPriority r \<and> ciMode l = ciMode r \<and>
     ciOrigin l = ciOrigin r \<and> ciTargetSessionID l = ciTargetSessionID r \<and>
     ciTargetExecutionID l = ciTargetExecutionID r \<and> ciIsMeta l = ciIsMeta r \<and>
     ciCreatedAt l = ciCreatedAt r \<and>
     list_all (\<lambda>(k, v). map_of (ciAttributes r) k = Some v) (ciAttributes l) \<and>
     length (ciAttributes l) = length (ciAttributes r) \<and> ciMessages l = ciMessages r"

text \<open>The loop of \<open>PrepareBatch\<close>; \<open>newID n\<close> is drawn for the \<open>n\<close>-th injection.\<close>

fun ci_prepare ::
  "(nat \<Rightarrow> string) \<Rightarrow> gotime \<Rightarrow> gotime \<Rightarrow> nat \<Rightarrow> context_injection gomap \<Rightarrow> context_injection list \<Rightarrow>
   context_injection list result" where
  "ci_prepare newID wall now n seen [] = Inr []"
| "ci_prepare newID wall now n seen (injection # injections) =
     bind_result (NormalizeContextInjection (newID n) wall injection now) (\<lambda>normalized.
       case map_of seen (ciID normalized) of
         Some existing \<Rightarrow>
           if ci_SameIdentity existing normalized then ci_prepare newID wall now (Suc n) seen injections
           else Inl (Errorf ''context injection %q appears more than once with different identity'')
       | None \<Rightarrow>
           bind_result (ci_prepare newID wall now (Suc n) (AList.update (ciID normalized) normalized seen) injections)
             (\<lambda>prepared. Inr (normalized # prepared)))"

definition PrepareBatch ::
  "(nat \<Rightarrow> string) \<Rightarrow> gotime \<Rightarrow> context_injection list \<Rightarrow> gotime \<Rightarrow> context_injection list result" where
  "PrepareBatch newID wall injections now =
     (if length injections = 0 then Inr []
      else ci_prepare newID wall (if now = 0 then wall else now) 0 [] injections)"

definition ci_ValidateLoaded :: "string \<Rightarrow> gotime \<Rightarrow> context_injection \<Rightarrow> error option" where
  "ci_ValidateLoaded newID wall i =
     (if ciCreatedAt i = 0 then Some (Errorf ''context injection created_at is empty'')
      else case NormalizeContextInjection newID wall i (ciCreatedAt i) of
             Inl e \<Rightarrow> Some e
           | Inr normalized \<Rightarrow> reject_if (\<not> ci_SameIdentity normalized i)
               (Errorf ''context injection %q is not normalized''))"

definition ci_ValidateLoadedRecord :: "string \<Rightarrow> gotime \<Rightarrow> ci_record \<Rightarrow> error option" where
  "ci_ValidateLoadedRecord newID wall r =
     and_then (reject_if (crSequence r = 0) (Errorf ''context injection sequence is empty''))
       (ci_ValidateLoaded newID wall (crInjection r))"

definition ci_ValidateQuery :: "context_query \<Rightarrow> error option" where
  "ci_ValidateQuery q =
     and_then (optional_name ''context injection target session'' (cqTargetSessionID q))
     (and_then (optional_name ''context injection target execution'' (cqTargetExecutionID q))
      (reject_if (cqLimit q < 0) (Errorf ''context injection query limit cannot be negative'')))"

definition ValidateConsumeIDs :: "string list \<Rightarrow> error option" where
  "ValidateConsumeIDs ids = first_error (\<lambda>i. case ValidateResourceName ''context injection'' i of
       None \<Rightarrow> None | Some e \<Rightarrow> Some (Nestf ''consume context injection %q: %w'' e)) ids"

definition MatchesQuery :: "context_injection \<Rightarrow> context_query \<Rightarrow> bool" where
  "MatchesQuery i q =
     (if cqTargetSessionID q \<noteq> [] \<and> ciTargetSessionID i \<noteq> [] \<and> ciTargetSessionID i \<noteq> cqTargetSessionID q
      then False
      else if cqTargetExecutionID q \<noteq> [] \<and> ciTargetExecutionID i \<noteq> [] \<and>
        ciTargetExecutionID i \<noteq> cqTargetExecutionID q
      then False else True)"

definition SortRecords :: "ci_record list \<Rightarrow> ci_record list" where
  "SortRecords = sort_func (compare_on crSequence)"

section \<open>The store\<close>

record ci_store =
  cjInjections :: "ci_record gomap"
  cjNextSequence :: u64

definition newMemoryContextInjectionStore :: ci_store where
  "newMemoryContextInjectionStore = \<lparr>cjInjections = [], cjNextSequence = 0\<rparr>"

definition ci_add :: "context_injection \<Rightarrow> ci_store \<Rightarrow> ci_store" where
  "ci_add i s =
     (if map_of (cjInjections s) (ciID i) \<noteq> None then s
      else let n = cjNextSequence s + 1
           in s\<lparr>cjNextSequence := n,
                cjInjections := AList.update (ciID i) \<lparr>crSequence = n, crInjection = CloneContextInjection i\<rparr> (cjInjections s)\<rparr>)"

definition ci_conflict :: "ci_store \<Rightarrow> context_injection \<Rightarrow> error option" where
  "ci_conflict s i = (case map_of (cjInjections s) (ciID i) of
       None \<Rightarrow> None
     | Some existing \<Rightarrow> reject_if (\<not> ci_SameIdentity (crInjection existing) i)
         (Errorf ''context injection %q already exists with different identity''))"

definition ci_Enqueue ::
  "ctx \<Rightarrow> (nat \<Rightarrow> string) \<Rightarrow> gotime \<Rightarrow> context_injection list \<Rightarrow> ci_store \<Rightarrow> ci_store \<times> error option" where
  "ci_Enqueue ctx newID wall injections s =
     (case check ctx (PrepareBatch newID wall injections wall) of
        Inl e \<Rightarrow> (s, Some e)
      | Inr prepared \<Rightarrow>
          (case first_error (ci_conflict s) prepared of
             Some e \<Rightarrow> (s, Some e)
           | None \<Rightarrow> (fold ci_add prepared s, None)))"

definition ci_List :: "ctx \<Rightarrow> context_query \<Rightarrow> ci_store \<Rightarrow> context_injection list result" where
  "ci_List ctx q s =
     check ctx (check (ci_ValidateQuery q)
       (let records = SortRecords (filter (\<lambda>r. MatchesQuery (crInjection r) q) (map snd (cjInjections s)));
            records = (if cqLimit q > 0 \<and> int (length records) > cqLimit q
                       then take (nat (cqLimit q)) records else records)
        in Inr (map (\<lambda>r. CloneContextInjection (crInjection r)) records)))"

definition ConsumeContextInjections :: "ctx \<Rightarrow> string list \<Rightarrow> ci_store \<Rightarrow> ci_store \<times> error option" where
  "ConsumeContextInjections ctx ids s =
     (case and_then ctx (ValidateConsumeIDs ids) of
        Some e \<Rightarrow> (s, Some e)
      | None \<Rightarrow> (s\<lparr>cjInjections := fold AList.delete ids (cjInjections s)\<rparr>, None))"

datatype ci_call =
    CIEnqueue ctx "nat \<Rightarrow> string" gotime "context_injection list"
  | CIConsume ctx "string list"

fun ci_step :: "ci_call \<Rightarrow> ci_store \<Rightarrow> ci_store" where
  "ci_step (CIEnqueue ctx newID wall injections) s = fst (ci_Enqueue ctx newID wall injections s)"
| "ci_step (CIConsume ctx ids) s = fst (ConsumeContextInjections ctx ids s)"

section \<open>Normal injections\<close>

lemma CloneMessages_idem [simp]: "CloneMessages (CloneMessages ms) = CloneMessages ms"
proof -
  have "CloneToolCall (CloneToolCall c) = CloneToolCall c" for c
    by (simp add: CloneToolCall_def)
  then have "CloneToolCalls (CloneToolCalls cs) = CloneToolCalls cs" for cs
    by (cases cs) (simp_all add: CloneToolCalls_def)
  then show ?thesis by (simp add: CloneMessages_def)
qed

lemma length_CloneMessages [simp]: "CloneMessages ms = [] \<longleftrightarrow> ms = []"
  by (simp add: CloneMessages_def)

lemma Clone_simps [simp]:
  "ciID (CloneContextInjection i) = ciID i" "ciPriority (CloneContextInjection i) = ciPriority i"
  "ciCreatedAt (CloneContextInjection i) = ciCreatedAt i"
  "ciTargetSessionID (CloneContextInjection i) = ciTargetSessionID i"
  "ciTargetExecutionID (CloneContextInjection i) = ciTargetExecutionID i"
  "ciAttributes (CloneContextInjection i) = ciAttributes i"
  "CloneContextInjection (CloneContextInjection i) = CloneContextInjection i"
  by (simp_all add: CloneContextInjection_def)

text \<open>What normalisation establishes, and where it changes nothing.\<close>

definition ci_normal :: "context_injection \<Rightarrow> bool" where
  "ci_normal i \<longleftrightarrow> resourceNamePattern (ciID i) \<and>
     ciPriority i \<in> {ContextInjectionNow, ContextInjectionNext, ContextInjectionLater} \<and>
     (\<forall>s. ciMode i \<noteq> ContextInjectionModeOther s) \<and>
     optional_name ''context injection target session'' (ciTargetSessionID i) = None \<and>
     optional_name ''context injection target execution'' (ciTargetExecutionID i) = None \<and>
     ciMessages i \<noteq> [] \<and> ciCreatedAt i \<noteq> 0 \<and> CloneContextInjection i = i"

lemma NormalizeContextInjection_Inr:
  assumes "NormalizeContextInjection newID wall i now = Inr j" "resourceNamePattern newID" "now \<noteq> 0 \<or> wall \<noteq> 0"
  shows "ci_normal j" "ciAttributes j = ciAttributes i" "ciID i \<noteq> [] \<longrightarrow> ciID j = ciID i"
proof -
  have p: "priority_Valid p \<Longrightarrow> priority_Effective p \<in> {ContextInjectionNow, ContextInjectionNext, ContextInjectionLater}" for p
    by (cases p) (auto simp: priority_Valid_def priority_Effective_def)
  have m: "mode_Valid m \<Longrightarrow> mode_Effective m \<noteq> ContextInjectionModeOther s" for m s
    by (cases m) (auto simp: mode_Valid_def mode_Effective_def)
  show "ci_normal j"
    using assms p [of "ciPriority i"] m
    by (auto simp: NormalizeContextInjection_def Let_def result_simps ci_normal_def CloneContextInjection_def
        ValidateResourceName_def split: if_splits)
  show "ciAttributes j = ciAttributes i" "ciID i \<noteq> [] \<longrightarrow> ciID j = ciID i"
    using assms(1) by (auto simp: NormalizeContextInjection_def Let_def result_simps CloneContextInjection_def split: if_splits)
qed

lemma NormalizeContextInjection_normal:
  assumes "ci_normal i"
  shows "NormalizeContextInjection newID wall i now = Inr i"
proof -
  have "ciID i \<noteq> []" using assms by (auto simp: ci_normal_def)
  moreover have "priority_Valid (ciPriority i)" "priority_Effective (ciPriority i) = ciPriority i"
    using assms by (auto simp: ci_normal_def priority_Valid_def priority_Effective_def)
  moreover have "mode_Valid (ciMode i)" "mode_Effective (ciMode i) = ciMode i"
    using assms by (auto simp: ci_normal_def mode_Valid_def mode_Effective_def split: ContextInjectionMode.split)
  ultimately show ?thesis
    using assms by (simp add: NormalizeContextInjection_def ci_normal_def ValidateResourceName_def)
qed

lemma ci_SameIdentity_refl: "gm_wf (ciAttributes i) \<Longrightarrow> ci_SameIdentity i i"
  by (auto simp: ci_SameIdentity_def list_all_iff)

lemma ci_SameIdentity_ID: "ci_SameIdentity i j \<Longrightarrow> ciID i = ciID j"
  by (simp add: ci_SameIdentity_def)

lemma ci_normal_loads:
  assumes "ci_normal i" "gm_wf (ciAttributes i)"
  shows "ci_ValidateLoaded newID wall i = None"
  using assms NormalizeContextInjection_normal [OF assms(1)] ci_SameIdentity_refl [OF assms(2)]
  by (simp add: ci_ValidateLoaded_def ci_normal_def)

lemma ci_prepare_Inr:
  assumes "ci_prepare newID wall now n seen xs = Inr ys" "\<And>n. resourceNamePattern (newID n)" "now \<noteq> 0 \<or> wall \<noteq> 0"
    and "\<And>x. x \<in> set xs \<Longrightarrow> gm_wf (ciAttributes x)"
  shows "(\<forall>y\<in>set ys. ci_normal y \<and> gm_wf (ciAttributes y) \<and> map_of seen (ciID y) = None) \<and> distinct (map ciID ys) \<and>
    length ys \<le> length xs"
  using assms(1,4)
proof (induction xs arbitrary: n seen ys)
  case (Cons x xs)
  from Cons.prems(1) obtain z where z: "NormalizeContextInjection (newID n) wall x now = Inr z"
    by (auto simp: result_simps)
  note zn = NormalizeContextInjection_Inr [OF z assms(2,3)]
  show ?case
  proof (cases "map_of seen (ciID z)")
    case None
    then obtain zs where zs: "ci_prepare newID wall now (Suc n) (AList.update (ciID z) z seen) xs = Inr zs" "ys = z # zs"
      using Cons.prems(1) z by (auto simp: result_simps)
    then show ?thesis
      using Cons.IH [OF zs(1)] Cons.prems(2) zn None by (auto split: if_splits)
  next
    case (Some e)
    then show ?thesis using Cons.IH [of "Suc n" seen ys] Cons.prems z by (auto split: if_splits)
  qed
qed simp

lemma PrepareBatch_Inr:
  assumes "PrepareBatch newID wall xs now = Inr ys" "\<And>n. resourceNamePattern (newID n)" "now \<noteq> 0 \<or> wall \<noteq> 0"
    and "\<And>x. x \<in> set xs \<Longrightarrow> gm_wf (ciAttributes x)"
  shows "(\<forall>y\<in>set ys. ci_normal y \<and> gm_wf (ciAttributes y)) \<and> distinct (map ciID ys) \<and> length ys \<le> length xs"
proof (cases "xs = []")
  case True
  then show ?thesis using assms(1) by (simp add: PrepareBatch_def)
next
  case False
  then have "ci_prepare newID wall (if now = 0 then wall else now) 0 [] xs = Inr ys"
    using assms(1) by (simp add: PrepareBatch_def)
  from ci_prepare_Inr [OF this assms(2) _ assms(4)] assms(3) show ?thesis by auto
qed

section \<open>The queue\<close>

definition ci_queue :: "ci_store \<Rightarrow> context_injection list" where
  "ci_queue s = map crInjection (SortRecords (map snd (cjInjections s)))"

definition ci_inv :: "ci_store \<Rightarrow> bool" where
  "ci_inv s \<longleftrightarrow> gm_wf (cjInjections s) \<and> distinct (map crSequence (map snd (cjInjections s))) \<and>
     (\<forall>(k, r)\<in>set (cjInjections s). ciID (crInjection r) = k \<and> ci_normal (crInjection r) \<and>
        gm_wf (ciAttributes (crInjection r)) \<and> crSequence r \<noteq> 0 \<and> crSequence r \<le> cjNextSequence s)"

lemma ci_inv_new: "ci_inv newMemoryContextInjectionStore"
  by (simp add: ci_inv_def newMemoryContextInjectionStore_def)

text \<open>Sorting records by their distinct sequence numbers.\<close>

lemma SortRecords_eqI:
  assumes "mset ys = mset xs" "sorted_wrt (\<lambda>x y. crSequence x \<le> crSequence y) ys" "distinct (map crSequence xs)"
  shows "SortRecords xs = ys"
  unfolding SortRecords_def
proof (rule comparator.sorted_unique [OF comparator_on])
  show "sorted_wrt (\<lambda>x y. compare_on crSequence x y \<le> 0) (sort_func (compare_on crSequence) xs)"
    by (rule comparator.sorted_sort_func [OF comparator_on])
qed (use assms in \<open>auto simp: distinct_map inj_on_def\<close>)

lemma SortRecords_sorted: "sorted_wrt (\<lambda>x y. crSequence x \<le> crSequence y) (SortRecords xs)"
  using comparator.sorted_sort_func [OF comparator_on, of crSequence xs] by (simp add: SortRecords_def)

lemma SortRecords_filter:
  assumes "distinct (map crSequence xs)"
  shows "SortRecords (filter P xs) = filter P (SortRecords xs)"
proof (rule SortRecords_eqI)
  show "mset (filter P (SortRecords xs)) = mset (filter P xs)" by (simp add: SortRecords_def)
  show "sorted_wrt (\<lambda>x y. crSequence x \<le> crSequence y) (filter P (SortRecords xs))"
    using SortRecords_sorted by (rule sorted_wrt_filter)
  show "distinct (map crSequence (filter P xs))" using assms by (rule distinct_map_filter)
qed

lemma SortRecords_last:
  assumes "distinct (map crSequence xs)" "\<And>x. x \<in> set xs \<Longrightarrow> crSequence x < crSequence r"
  shows "SortRecords (xs @ [r]) = SortRecords xs @ [r]"
proof (rule SortRecords_eqI)
  show "sorted_wrt (\<lambda>x y. crSequence x \<le> crSequence y) (SortRecords xs @ [r])"
    using SortRecords_sorted [of xs] assms(2) by (auto simp: sorted_wrt_append SortRecords_def order.strict_implies_order)
  show "distinct (map crSequence (xs @ [r]))" using assms by fastforce
qed (simp add: SortRecords_def)

end
