(* ===== verification/Gateway_Events.thy ===== *)
theory Gateway_Events
  imports Gateway_Inputs Gateway_Notify Go_Json Deliveries Context_Injections Trajectory_Data
begin

text \<open>
  The reconnectable event streams of the gateway: \<open>gateway/event.go\<close> on one session's stream
  and the store of \<open>gateway/event_store_memory.go\<close>. How \<open>encoding/json\<close> decodes and encodes
  the payload structs is the argument \<open>codec\<close>; \<open>json.Valid\<close> is the scanner of \<open>Go_Json\<close>.
\<close>

section \<open>Data\<close>

record agent_event =
  aeSequence :: u64
  aeSessionID :: string
  aeID :: string
  aeName :: string
  aeGeneration :: u64
  aePayload :: json
  aeCreatedAt :: gotime

record event_query =
  eqAfter :: u64
  eqLimit :: int

record event_page =
  epItems :: "agent_event list"
  epNext :: u64

record event_stream =
  esNextSequence :: u64
  esEvents :: "agent_event list"

definition no_events :: event_stream where
  "no_events = \<lparr>esNextSequence = 0, esEvents = []\<rparr>"

text \<open>The payloads that the projection touches; an empty list stands for a nil slice.\<close>

record cause =
  csCode :: string
  csDetail :: string
  csFinal :: bool

record action =
  acKind :: ActionKind
  acCause :: "cause option"
  acMessages :: "message list"

record agent_start_payload =
  apMessages :: "message list"
  apSystem :: string

record before_provider_payload =
  bpTurn :: int
  bpMessages :: "message list"
  bpProvider :: string
  bpSystem :: string
  bpTools :: "tool_spec list"

record turn_end_payload =
  tpTurn :: int
  tpMessages :: "message list"
  tpAction :: action

record agent_end_payload =
  agMessages :: "message list"
  agContextInjections :: "context_injection list"
  agOutput :: string
  agTurns :: int
  agToolCalls :: int
  agInputTokens :: int
  agOutputTokens :: int
  agCause :: cause

text \<open>
  \<open>json.Unmarshal\<close> and \<open>json.Marshal\<close> at the types of the code. \<open>BeforeAgentStartPayload\<close>
  and \<open>AgentStartPayload\<close> have the same fields and tags.
\<close>

record event_codec =
  umAgentStart :: "json \<Rightarrow> agent_start_payload result"
  mAgentStart :: "agent_start_payload \<Rightarrow> json result"
  umBeforeProvider :: "json \<Rightarrow> before_provider_payload result"
  mBeforeProvider :: "before_provider_payload \<Rightarrow> json result"
  umTurnEnd :: "json \<Rightarrow> turn_end_payload result"
  mTurnEnd :: "turn_end_payload \<Rightarrow> json result"
  umAgentEnd :: "json \<Rightarrow> agent_end_payload result"
  mAgentEnd :: "agent_end_payload \<Rightarrow> json result"
  mAgentEvent :: "agent_event \<Rightarrow> json result"

section \<open>Normalisation\<close>

definition defaultEventPageSize :: int where "defaultEventPageSize = 100"
definition maxEventPageSize :: int where "maxEventPageSize = 1000"
definition maxEncodedEventPageBytes :: int where "maxEncodedEventPageBytes = 4194304"
definition eventPageEnvelopeOverhead :: int where "eventPageEnvelopeOverhead = 64"

definition normalizeEventQuery :: "event_query \<Rightarrow> event_query result" where
  "normalizeEventQuery query =
     (let query = (if eqLimit query = 0 then query\<lparr>eqLimit := defaultEventPageSize\<rparr> else query)
      in check (reject_if (eqLimit query < 1 \<or> eqLimit query > maxEventPageSize)
           (Errorf ''gateway event page limit must be between 1 and %d'')) (Inr query))"

definition latestGatewayUserMessage :: "message list \<Rightarrow> message list" where
  "latestGatewayUserMessage messages =
     (case find (\<lambda>m. mgRole m = RoleUser) (rev messages) of Some m \<Rightarrow> CloneMessages [m] | None \<Rightarrow> [])"

text \<open>Decode, drop what a view does not need, encode again (\<open>remarshalRuntimeEventPayload\<close>).\<close>

definition remarshal ::
  "(json \<Rightarrow> 'p result) \<Rightarrow> ('p \<Rightarrow> 'p) \<Rightarrow> ('p \<Rightarrow> json result) \<Rightarrow> sdk_event \<Rightarrow> sdk_event result" where
  "remarshal um f m event =
     bind_result (um (evPayload event)) (\<lambda>payload. bind_result (m (f payload)) (\<lambda>raw. Inr (event\<lparr>evPayload := raw\<rparr>)))"

definition strip_before_agent_start :: "agent_start_payload \<Rightarrow> agent_start_payload" where
  "strip_before_agent_start p = p\<lparr>apMessages := [], apSystem := []\<rparr>"

definition strip_agent_start :: "agent_start_payload \<Rightarrow> agent_start_payload" where
  "strip_agent_start p = p\<lparr>apMessages := latestGatewayUserMessage (apMessages p), apSystem := []\<rparr>"

definition strip_before_provider :: "before_provider_payload \<Rightarrow> before_provider_payload" where
  "strip_before_provider p = p\<lparr>bpMessages := [], bpSystem := [], bpTools := []\<rparr>"

definition strip_turn_end :: "turn_end_payload \<Rightarrow> turn_end_payload" where
  "strip_turn_end p = p\<lparr>tpMessages := []\<rparr>"

definition strip_agent_end :: "agent_end_payload \<Rightarrow> agent_end_payload" where
  "strip_agent_end p = p\<lparr>agMessages := [], agContextInjections := []\<rparr>"

definition projectRuntimeEventPayload :: "event_codec \<Rightarrow> sdk_event \<Rightarrow> sdk_event result" where
  "projectRuntimeEventPayload codec event =
     (if evName event = ''before_agent_start''
      then remarshal (umAgentStart codec) strip_before_agent_start (mAgentStart codec) event
      else if evName event = ''agent_start''
      then remarshal (umAgentStart codec) strip_agent_start (mAgentStart codec) event
      else if evName event = ''before_provider''
      then remarshal (umBeforeProvider codec) strip_before_provider (mBeforeProvider codec) event
      else if evName event = ''turn_end''
      then remarshal (umTurnEnd codec) strip_turn_end (mTurnEnd codec) event
      else if evName event = ''agent_end''
      then remarshal (umAgentEnd codec) strip_agent_end (mAgentEnd codec) event
      else Inr event)"

definition normalizeRuntimeEvent :: "event_codec \<Rightarrow> sdk_event \<Rightarrow> sdk_event result" where
  "normalizeRuntimeEvent codec event =
     (let event = event\<lparr>evID := TrimSpace (evID event), evName := TrimSpace (evName event)\<rparr> in
      check (ValidateResourceName ''gateway runtime event'' (evID event))
      (check (reject_if (evName event = []) (Errorf ''gateway runtime event name is empty''))
      (check (reject_if (\<not> json_Valid (evPayload event)) (Errorf ''gateway runtime event %q payload is invalid JSON''))
      (case projectRuntimeEventPayload codec event of
         Inl e \<Rightarrow> Inl (Nestf ''project gateway runtime event %q: %w'' e)
       | Inr event \<Rightarrow> Inr event))))"

section \<open>Streams\<close>

definition appendAgentEvent ::
  "event_stream \<Rightarrow> string \<Rightarrow> sdk_event \<Rightarrow> gotime \<Rightarrow> (event_stream \<times> agent_event \<times> bool) result" where
  "appendAgentEvent stream sid event now =
     (case find (\<lambda>current. aeID current = evID event) (esEvents stream) of
        Some current \<Rightarrow> Inr (stream, current, False)
      | None \<Rightarrow>
          let stream = (if esNextSequence stream = 0 then stream\<lparr>esNextSequence := 1\<rparr> else stream) in
          if esNextSequence stream = - 1 then Inl (Errorf ''gateway event sequence is exhausted'')
          else let created = \<lparr>aeSequence = esNextSequence stream, aeSessionID = sid, aeID = evID event, aeName = evName event,
                     aeGeneration = evGeneration event, aePayload = evPayload event, aeCreatedAt = now\<rparr>
               in Inr (stream\<lparr>esNextSequence := esNextSequence stream + 1, esEvents := esEvents stream @ [created]\<rparr>, created, True))"

text \<open>One event more on the page, or \<open>None\<close> when it does not fit; the first one always fits.\<close>

definition appendEventPageItem ::
  "event_codec \<Rightarrow> agent_event list \<Rightarrow> agent_event \<Rightarrow> int \<Rightarrow> (agent_event list \<times> int) option" where
  "appendEventPageItem codec items event encodedBytes =
     (case mAgentEvent codec event of
        Inl e \<Rightarrow> None
      | Inr raw \<Rightarrow>
          let itemBytes = int (length raw) + 1 in
          if length items > 0 \<and> encodedBytes + itemBytes > maxEncodedEventPageBytes then None
          else Some (items @ [event], encodedBytes + itemBytes))"

fun list_events ::
  "event_codec \<Rightarrow> event_query \<Rightarrow> agent_event list \<Rightarrow> int \<Rightarrow> agent_event list \<Rightarrow> agent_event list" where
  "list_events codec query items encodedBytes [] = items"
| "list_events codec query items encodedBytes (event # events) =
     (if aeSequence event \<le> eqAfter query then list_events codec query items encodedBytes events
      else case appendEventPageItem codec items event encodedBytes of
        None \<Rightarrow> items
      | Some (items, encodedBytes) \<Rightarrow>
          if int (length items) = eqLimit query then items else list_events codec query items encodedBytes events)"

definition listAgentEvents :: "event_codec \<Rightarrow> event_stream \<Rightarrow> event_query \<Rightarrow> event_page" where
  "listAgentEvents codec stream query =
     (let items = list_events codec query [] eventPageEnvelopeOverhead (esEvents stream) in
      \<lparr>epItems = items, epNext = (if items \<noteq> [] then aeSequence (last items) else 0)\<rparr>)"

definition latestAgentEventSequence :: "event_stream \<Rightarrow> u64" where
  "latestAgentEventSequence stream = (if esEvents stream = [] then 0 else aeSequence (last (esEvents stream)))"

text \<open>The loop of \<open>validateStoredEventStream\<close>; it returns the last sequence number.\<close>

definition stored_event :: "agent_event \<Rightarrow> sdk_event" where
  "stored_event e = \<lparr>evID = aeID e, evName = aeName e, evSessionID = aeSessionID e, evGeneration = aeGeneration e,
     evPayload = aePayload e\<rparr>"

fun validate_events :: "event_codec \<Rightarrow> string \<Rightarrow> u64 \<Rightarrow> string list \<Rightarrow> agent_event list \<Rightarrow> u64 result" where
  "validate_events codec sid previous seen [] = Inr previous"
| "validate_events codec sid previous seen (event # events) =
     check (reject_if (aeSessionID event \<noteq> sid \<or> aeSequence event = 0 \<or> aeSequence event \<le> previous \<or> aeCreatedAt event = 0)
       (Errorf ''gateway event stream %q contains invalid event at index %d''))
     (check (reject_if (aeID event \<in> set seen) (Errorf ''gateway event stream %q contains duplicate event %q''))
     (case normalizeRuntimeEvent codec (stored_event event) of
        Inl e \<Rightarrow> Inl (Nestf ''validate gateway event stream %q: %w'' e)
      | Inr _ \<Rightarrow> validate_events codec sid (aeSequence event) (aeID event # seen) events))"

definition validateStoredEventStream :: "event_codec \<Rightarrow> string \<Rightarrow> event_stream \<Rightarrow> event_stream result" where
  "validateStoredEventStream codec sid stream =
     (let stream = (if esNextSequence stream = 0 then stream\<lparr>esNextSequence := 1\<rparr> else stream) in
      bind_result (validate_events codec sid 0 [] (esEvents stream)) (\<lambda>previous.
      if previous \<ge> esNextSequence stream then Inl (Errorf ''gateway event stream %q next sequence %d does not follow %d'')
      else Inr stream))"

section \<open>The store\<close>

record event_store =
  evStreams :: "event_stream gomap"
  evNotify :: notify
  evClosed :: bool

definition NewMemoryEventStore :: event_store where
  "NewMemoryEventStore = \<lparr>evStreams = [], evNotify = no_notify, evClosed = False\<rparr>"

definition events_of :: "event_store \<Rightarrow> string \<Rightarrow> event_stream" where
  "events_of s sid = (case map_of (evStreams s) sid of Some st \<Rightarrow> st | None \<Rightarrow> no_events)"

text \<open>A call that changes the store may panic: \<open>None\<close>.\<close>

definition es_Append ::
  "event_codec \<Rightarrow> ctx \<Rightarrow> gotime \<Rightarrow> string \<Rightarrow> sdk_event \<Rightarrow> event_store \<Rightarrow> (event_store \<times> agent_event result) option" where
  "es_Append codec ctx clock sid event s =
     (case check ctx (bind_result (normalizeEventSessionID sid) (\<lambda>sid.
        bind_result (normalizeRuntimeEvent codec event) (\<lambda>event.
        check (reject_if (evClosed s) (Wrapf ErrStoreClosed []))
        (bind_result (appendAgentEvent (events_of s sid) sid event clock) (\<lambda>r. Inr (sid, r)))))) of
        Inl e \<Rightarrow> Some (s, Inl e)
      | Inr (sid, stream, created, changed) \<Rightarrow>
          if \<not> changed then Some (s, Inr created)
          else map_option (\<lambda>nt. (s\<lparr>evStreams := AList.update sid stream (evStreams s), evNotify := nt\<rparr>, Inr created))
            (signalLocked sid (evNotify s)))"

definition es_List :: "event_codec \<Rightarrow> ctx \<Rightarrow> string \<Rightarrow> event_query \<Rightarrow> event_store \<Rightarrow> event_page result" where
  "es_List codec ctx sid query s =
     check ctx (bind_result (normalizeEventSessionID sid) (\<lambda>sid.
       bind_result (normalizeEventQuery query) (\<lambda>query.
       check (reject_if (evClosed s) (Wrapf ErrStoreClosed [])) (Inr (listAgentEvents codec (events_of s sid) query)))))"

definition es_Latest :: "ctx \<Rightarrow> string \<Rightarrow> event_store \<Rightarrow> u64 result" where
  "es_Latest ctx sid s =
     check ctx (bind_result (normalizeEventSessionID sid) (\<lambda>sid.
       check (reject_if (evClosed s) (Wrapf ErrStoreClosed [])) (Inr (latestAgentEventSequence (events_of s sid)))))"

text \<open>\<open>Wait\<close>: the checks before the loop, and what the loop's body finds under the lock.\<close>

definition es_Wait_query :: "string \<Rightarrow> event_query \<Rightarrow> (string \<times> event_query) result" where
  "es_Wait_query sid query =
     bind_result (normalizeEventSessionID sid) (\<lambda>sid. bind_result (normalizeEventQuery query) (\<lambda>query. Inr (sid, query)))"

definition es_look :: "event_codec \<Rightarrow> string \<times> event_query \<Rightarrow> event_store \<Rightarrow> event_page result option" where
  "es_look codec q s =
     (if evClosed s then Some (Inl (Wrapf ErrStoreClosed []))
      else let page = listAgentEvents codec (events_of s (fst q)) (snd q) in
        if length (epItems page) > 0 then Some (Inr page) else None)"

definition es_Close :: "event_store \<Rightarrow> event_store option" where
  "es_Close s =
     (if evClosed s then Some s
      else map_option (\<lambda>nt. s\<lparr>evClosed := True, evNotify := nt\<rparr>) (close_channels (ntChannels (evNotify s)) (evNotify s)))"

datatype es_call = EAppend ctx gotime string sdk_event | EClose

fun es_exec :: "event_codec \<Rightarrow> es_call \<Rightarrow> event_store \<Rightarrow> event_store option" where
  "es_exec codec (EAppend ctx clock sid event) s = map_option fst (es_Append codec ctx clock sid event s)"
| "es_exec codec EClose s = es_Close s"

section \<open>Pages\<close>

text \<open>What a reader after a cursor has not seen.\<close>

abbreviation pending :: "u64 \<Rightarrow> agent_event list \<Rightarrow> agent_event list" where
  "pending after events \<equiv> filter (\<lambda>e. after < aeSequence e) events"

lemma list_events_prefix:
  "\<exists>k. list_events codec query items enc events = items @ take k (pending (eqAfter query) events)"
proof (induction codec query items enc events rule: list_events.induct)
  case (2 codec query items enc e events)
  show ?case
  proof (cases "aeSequence e \<le> eqAfter query")
    case True
    then show ?thesis using 2(1) by (auto simp: not_less)
  next
    case False
    show ?thesis
    proof (cases "appendEventPageItem codec items e enc")
      case None
      then have "list_events codec query items enc (e # events) = items @ take 0 (pending (eqAfter query) (e # events))"
        using False by simp
      then show ?thesis by blast
    next
      case (Some p)
      then obtain enc' where p: "p = (items @ [e], enc')"
        by (auto simp: appendEventPageItem_def Let_def split: sum.splits if_splits)
      show ?thesis
      proof (cases "int (length (items @ [e])) = eqLimit query")
        case True
        then have "list_events codec query items enc (e # events) = items @ take 1 (pending (eqAfter query) (e # events))"
          using False Some p not_le [of "aeSequence e" "eqAfter query"] by simp
        then show ?thesis by blast
      next
        case more: False
        then obtain k where "list_events codec query (items @ [e]) enc' events = (items @ [e]) @ take k (pending (eqAfter query) events)"
          using 2(2) [OF False Some p [symmetric]] by auto
        then have "list_events codec query items enc (e # events) = items @ take (Suc k) (pending (eqAfter query) (e # events))"
          using False Some p more by simp
        then show ?thesis by blast
      qed
    qed
  qed
qed simp

text \<open>A page is empty only when nothing is pending or the next event cannot be encoded.\<close>

lemma list_events_empty:
  "list_events codec query [] enc events = [] \<longleftrightarrow>
   (case pending (eqAfter query) events of [] \<Rightarrow> True | e # _ \<Rightarrow> \<exists>err. mAgentEvent codec e = Inl err)"
proof (induction events)
  case (Cons e events)
  show ?case
  proof (cases "aeSequence e \<le> eqAfter query")
    case True
    then show ?thesis using Cons by (auto simp: not_less)
  next
    case False
    show ?thesis
    proof (cases "mAgentEvent codec e")
      case (Inr raw)
      obtain k where "list_events codec query [e] (enc + (int (length raw) + 1)) events = [e] @ take k (pending (eqAfter query) events)"
        using list_events_prefix by blast
      then show ?thesis using False Inr by (auto simp: appendEventPageItem_def not_le)
    qed (use False in \<open>auto simp: appendEventPageItem_def not_le\<close>)
  qed
qed simp

lemma list_events_limit:
  "int (length items) < eqLimit query \<Longrightarrow> int (length (list_events codec query items enc events)) \<le> eqLimit query"
proof (induction codec query items enc events rule: list_events.induct)
  case (2 codec query items enc e events)
  then show ?case by (auto simp: appendEventPageItem_def Let_def split: sum.splits option.splits if_splits)
qed simp

text \<open>The encoded size of a page with more than one event stays below the bound.\<close>

definition encoded_bytes :: "event_codec \<Rightarrow> agent_event list \<Rightarrow> int" where
  "encoded_bytes codec items =
     eventPageEnvelopeOverhead + sum_list (map (\<lambda>e. case mAgentEvent codec e of Inr raw \<Rightarrow> int (length raw) + 1 | Inl _ \<Rightarrow> 0) items)"

lemma list_events_bytes:
  "enc = encoded_bytes codec items \<Longrightarrow> length items \<le> 1 \<or> enc \<le> maxEncodedEventPageBytes \<Longrightarrow>
   (let items' = list_events codec query items enc events in
    length items' \<le> 1 \<or> encoded_bytes codec items' \<le> maxEncodedEventPageBytes)"
proof (induction codec query items enc events rule: list_events.induct)
  case (2 codec query items enc e events)
  show ?case
  proof (cases "aeSequence e \<le> eqAfter query \<or> appendEventPageItem codec items e enc = None")
    case True
    then show ?thesis using 2 by (auto simp: Let_def)
  next
    case False
    then obtain raw where raw: "mAgentEvent codec e = Inr raw" "appendEventPageItem codec items e enc = Some (items @ [e], enc + (int (length raw) + 1))"
      "items = [] \<or> enc + (int (length raw) + 1) \<le> maxEncodedEventPageBytes"
      by (auto simp: appendEventPageItem_def Let_def split: sum.splits if_splits)
    have enc: "enc + (int (length raw) + 1) = encoded_bytes codec (items @ [e])" using raw(1) 2(3) by (simp add: encoded_bytes_def)
    show ?thesis
    proof (cases "int (length (items @ [e])) = eqLimit query")
      case True
      then show ?thesis using False raw enc by (auto simp: Let_def)
    next
      case more: False
      then show ?thesis
        using 2(2) [OF _ raw(2) refl _ enc] False raw by (auto simp: Let_def)
    qed
  qed
qed (simp add: Let_def)

section \<open>Consistent streams\<close>

text \<open>
  What the code relies on \<open>encoding/json\<close> for: a decoded payload can be encoded again, into
  valid JSON that decodes, and an event whose payload is valid JSON can be encoded.
\<close>

definition codec_law :: "(json \<Rightarrow> 'p result) \<Rightarrow> ('p \<Rightarrow> 'p) \<Rightarrow> ('p \<Rightarrow> json result) \<Rightarrow> bool" where
  "codec_law um f m \<longleftrightarrow> (\<forall>raw p. um raw = Inr p \<longrightarrow>
     (\<exists>raw'. m (f p) = Inr raw' \<and> json_Valid raw' \<and> (\<exists>p'. um raw' = Inr p')))"

definition codec_ok :: "event_codec \<Rightarrow> bool" where
  "codec_ok codec \<longleftrightarrow> codec_law (umAgentStart codec) strip_before_agent_start (mAgentStart codec) \<and>
     codec_law (umAgentStart codec) strip_agent_start (mAgentStart codec) \<and>
     codec_law (umBeforeProvider codec) strip_before_provider (mBeforeProvider codec) \<and>
     codec_law (umTurnEnd codec) strip_turn_end (mTurnEnd codec) \<and>
     codec_law (umAgentEnd codec) strip_agent_end (mAgentEnd codec) \<and>
     (\<forall>e. json_Valid (aePayload e) \<longrightarrow> (\<exists>raw. mAgentEvent codec e = Inr raw))"

lemma remarshal_again:
  assumes "codec_law um f m" "remarshal um f m e = Inr n" "evPayload e' = evPayload n"
  shows "json_Valid (evPayload n) \<and> evID n = evID e \<and> evName n = evName e \<and> evGeneration n = evGeneration e \<and>
    (\<exists>n'. remarshal um f m e' = Inr n')"
proof -
  obtain p raw where p: "um (evPayload e) = Inr p" "m (f p) = Inr raw" "n = e\<lparr>evPayload := raw\<rparr>"
    using assms(2) by (auto simp: remarshal_def result_simps)
  then obtain p' where p': "json_Valid raw" "um raw = Inr p'" using assms(1) unfolding codec_law_def by fastforce
  then obtain raw' where "m (f p') = Inr raw'" using assms(1) unfolding codec_law_def by blast
  then show ?thesis using p p' assms(3) by (simp add: remarshal_def result_simps)
qed

lemma project_again:
  assumes "codec_ok codec" "projectRuntimeEventPayload codec e = Inr n" "json_Valid (evPayload e)"
    and "evName e' = evName n" "evPayload e' = evPayload n"
  shows "json_Valid (evPayload n) \<and> evID n = evID e \<and> evName n = evName e \<and> evGeneration n = evGeneration e \<and>
    (\<exists>n'. projectRuntimeEventPayload codec e' = Inr n')"
proof -
  have n: "evName n = evName e" using assms(2)
    by (auto simp: projectRuntimeEventPayload_def remarshal_def result_simps split: if_splits)
  note law = assms(1) [unfolded codec_ok_def]
  consider "evName e = ''before_agent_start''" | "evName e = ''agent_start''" | "evName e = ''before_provider''"
    | "evName e = ''turn_end''" | "evName e = ''agent_end''" | "projectRuntimeEventPayload codec e = Inr e" "projectRuntimeEventPayload codec e' = Inr e'"
    using n assms(4) by (cases "evName e \<in> {''before_agent_start'', ''agent_start'', ''before_provider'', ''turn_end'', ''agent_end''}")
      (auto simp: projectRuntimeEventPayload_def)
  then show ?thesis
  proof cases
    case 1
    then show ?thesis
      using remarshal_again [OF conjunct1 [OF law], of e n e'] assms n by (simp add: projectRuntimeEventPayload_def)
  next
    case 2
    then show ?thesis
      using remarshal_again [OF conjunct1 [OF conjunct2 [OF law]], of e n e'] assms n by (simp add: projectRuntimeEventPayload_def)
  next
    case 3
    then show ?thesis
      using remarshal_again [OF conjunct1 [OF conjunct2 [OF conjunct2 [OF law]]], of e n e'] assms n
      by (simp add: projectRuntimeEventPayload_def)
  next
    case 4
    then show ?thesis
      using remarshal_again [OF conjunct1 [OF conjunct2 [OF conjunct2 [OF conjunct2 [OF law]]]], of e n e'] assms n
      by (simp add: projectRuntimeEventPayload_def)
  next
    case 5
    then show ?thesis
      using remarshal_again [OF conjunct1 [OF conjunct2 [OF conjunct2 [OF conjunct2 [OF conjunct2 [OF law]]]]], of e n e'] assms n
      by (simp add: projectRuntimeEventPayload_def)
  qed (use assms in auto)
qed

text \<open>A normalised event can be normalised again: what is stored can be loaded.\<close>

lemma normalizeRuntimeEvent_again:
  assumes "codec_ok codec" "normalizeRuntimeEvent codec e = Inr n"
    and "evID e' = evID n" "evName e' = evName n" "evPayload e' = evPayload n"
  shows "json_Valid (evPayload n) \<and> (\<exists>n'. normalizeRuntimeEvent codec e' = Inr n') \<and>
    evID n = TrimSpace (evID e) \<and> evName n = TrimSpace (evName e) \<and> evGeneration n = evGeneration e"
proof -
  let ?e = "e\<lparr>evID := TrimSpace (evID e), evName := TrimSpace (evName e)\<rparr>"
  have e: "projectRuntimeEventPayload codec ?e = Inr n" "json_Valid (evPayload ?e)" "evName ?e \<noteq> []"
    "ValidateResourceName ''gateway runtime event'' (evID ?e) = None"
    using assms(2) by (auto simp: normalizeRuntimeEvent_def result_simps Let_def split: sum.splits)
  let ?e' = "e'\<lparr>evID := TrimSpace (evID e'), evName := TrimSpace (evName e')\<rparr>"
  have n: "evID n = evID ?e" "evName n = evName ?e" using project_again [OF assms(1) e(1,2) refl refl] by auto
  have e': "evName ?e' = evName n" "evPayload ?e' = evPayload n" "evID ?e' = evID n" using n assms(3-5) by simp_all
  note again = project_again [OF assms(1) e(1,2) e'(1,2)]
  then obtain n' where n': "projectRuntimeEventPayload codec ?e' = Inr n'" by blast
  have "normalizeRuntimeEvent codec e' = Inr n'"
    unfolding normalizeRuntimeEvent_def Let_def n' using e(3,4) again e' n by simp
  then show ?thesis using again n by simp
qed

definition event_ok :: "event_codec \<Rightarrow> string \<Rightarrow> agent_event \<Rightarrow> bool" where
  "event_ok codec sid e \<longleftrightarrow> aeSessionID e = sid \<and> aeCreatedAt e \<noteq> 0 \<and> json_Valid (aePayload e) \<and>
     (\<exists>n. normalizeRuntimeEvent codec (stored_event e) = Inr n)"

text \<open>Sequence numbers count from 1 without a gap, and the next one follows them.\<close>

definition events_ok :: "event_codec \<Rightarrow> string \<Rightarrow> event_stream \<Rightarrow> bool" where
  "events_ok codec sid st \<longleftrightarrow>
     map (\<lambda>e. unat (aeSequence e)) (esEvents st) = [1..<Suc (length (esEvents st))] \<and>
     unat (if esNextSequence st = 0 then 1 else esNextSequence st) = Suc (length (esEvents st)) \<and>
     distinct (map aeID (esEvents st)) \<and> (\<forall>e\<in>set (esEvents st). event_ok codec sid e)"

lemma events_ok_none [simp]: "events_ok codec sid no_events"
  by (simp add: events_ok_def no_events_def)

lemma events_ok_append:
  assumes "codec_ok codec" "events_ok codec sid st" "normalizeRuntimeEvent codec e = Inr n" "now \<noteq> 0"
    and "appendAgentEvent st sid n now = Inr (st', created, changed)"
  shows "events_ok codec sid st' \<and> (\<exists>es. esEvents st' = esEvents st @ es) \<and> (changed \<longrightarrow> esEvents st' = esEvents st @ [created])"
proof (cases "find (\<lambda>current. aeID current = evID n) (esEvents st)")
  case (Some current)
  then show ?thesis using assms(2,5) by (simp add: appendAgentEvent_def)
next
  case None
  define next_seq where "next_seq = (if esNextSequence st = 0 then 1 else esNextSequence st)"
  have seq: "unat next_seq = Suc (length (esEvents st))" using assms(2) unfolding next_seq_def events_ok_def by blast
  have st': "next_seq \<noteq> - 1" "esEvents st' = esEvents st @ [created]" "esNextSequence st' = next_seq + 1" "changed"
    "created = \<lparr>aeSequence = next_seq, aeSessionID = sid, aeID = evID n, aeName = evName n, aeGeneration = evGeneration n,
       aePayload = evPayload n, aeCreatedAt = now\<rparr>"
    using assms(5) None by (auto simp: appendAgentEvent_def next_seq_def Let_def split: if_splits)
  have "next_seq + 1 \<noteq> 0" using st'(1) by (metis add.inverse_unique add.commute)
  then have "unat (next_seq + 1) = Suc (Suc (length (esEvents st)))" "next_seq + 1 \<noteq> 0" using seq u64_no_wrap by auto
  moreover have "event_ok codec sid created"
  proof -
    have "evID (stored_event created) = evID n" "evName (stored_event created) = evName n" "evPayload (stored_event created) = evPayload n"
      by (simp_all add: st'(5) stored_event_def)
    note again = normalizeRuntimeEvent_again [OF assms(1,3) this]
    have "aeSessionID created = sid" "aeCreatedAt created \<noteq> 0" "aePayload created = evPayload n" using assms(4) by (simp_all add: st'(5))
    then show ?thesis using again unfolding event_ok_def by simp
  qed
  moreover have "evID n \<notin> aeID ` set (esEvents st)" using None by (auto simp: find_None_iff)
  ultimately show ?thesis using assms(2) st' seq by (auto simp: events_ok_def)
qed

lemma events_ok_pending:
  assumes "events_ok codec sid st"
  shows "pending after (esEvents st) = drop (unat after) (esEvents st)"
proof -
  have "filter (\<lambda>e. unat after < unat (aeSequence e)) es = drop (unat after - m) es"
    if "map (\<lambda>e. unat (aeSequence e)) es = [Suc m..<Suc (m + length es)]" for m es
    using that
  proof (induction es arbitrary: m)
    case (Cons e es)
    have "[Suc m..<Suc (m + length (e # es))] = Suc m # [Suc (Suc m)..<Suc (Suc m + length es)]" by (subst upt_conv_Cons) simp_all
    then have e: "unat (aeSequence e) = Suc m" "map (\<lambda>e. unat (aeSequence e)) es = [Suc (Suc m)..<Suc (Suc m + length es)]"
      using Cons.prems by simp_all
    then show ?case using Cons.IH [OF e(2)] by (cases "unat after \<le> m") (auto simp: Suc_diff_Suc drop_Cons' not_le)
  qed simp
  from this [of "esEvents st" 0] show ?thesis using assms by (simp add: events_ok_def word_less_nat_alt)
qed

end
