(* ===== verification/Checkpoints.thy ===== *)
theory Checkpoints
  imports Trajectory_Properties Gateway_Events
begin

text \<open>
  The durable checkpoint language of the runtime and the projection that rebuilds the
  model-visible conversation from a branch of a trajectory
  (\<open>sdk/runtime/internal/durability\<close>: \<open>checkpoint.go\<close>, \<open>execution_input.go\<close>,
  \<open>trajectory_projection.go\<close>).

  The trajectory store is an interface of the code; \<open>reader\<close> is the record of the methods
  that this package calls, with the optional \<open>TrajectoryEntryInspector\<close> as an option.
  \<open>json.Unmarshal\<close> at the payload types is a record of decoders. The trajectory ID that the
  functions of the package take for their error texts only is not an argument here.
\<close>

section \<open>Payloads\<close>

record tool_result =
  trContent :: string
  trIsError :: bool

definition ToolMessage :: "string \<Rightarrow> tool_result \<Rightarrow> message" where
  "ToolMessage toolCallID result =
     \<lparr>mgRole = RoleTool, mgContent = trContent result, mgToolCalls = None, mgToolCallID = toolCallID,
      mgIsError = trIsError result\<rparr>"

record usage =
  usInputTokens :: int
  usOutputTokens :: int

record model_request =
  mqMessages :: "message list"
  mqTools :: "tool_spec list"
  mqReasoningEffort :: string

record model_response =
  mrContent :: string
  mrToolCalls :: "tool_call list option"
  mrModel :: string
  mrFinishReason :: string
  mrUsage :: usage

record after_provider_payload =
  apvTurn :: int
  apvProvider :: string
  apvResponse :: "model_response option"
  apvError :: string

record before_tool_payload =
  btTurn :: int
  btCall :: tool_call

record after_tool_payload =
  atTurn :: int
  atCall :: tool_call
  atResult :: tool_result

datatype CheckpointMessageMode =
  CheckpointMessagesSnapshot | CheckpointMessagesBranch | CheckpointMessagesOther string

record checkpoint =
  ckMessages :: "message list"
  ckMessageMode :: CheckpointMessageMode
  ckSystem :: string
  ckProvider :: string
  ckOutput :: string
  ckTurns :: int
  ckToolCalls :: int
  ckInputTokens :: int
  ckOutputTokens :: int
  ckGeneration :: u64
  ckAction :: action
  ckContextInjections :: "context_injection list"
  ckConsumedContextInjectionIDs :: "string list"
  ckDependencies :: "string list"

record provider_request =
  prTurn :: int
  prProvider :: string
  prModel :: string
  prOperationKey :: string
  prCorrelationID :: string
  prMessageCount :: int
  prToolCount :: int
  prRequest :: "model_request option"

record provider_response =
  pvAfterProvider :: after_provider_payload
  pvCorrelationID :: string

record tool_call_entry =
  tlTurn :: int
  tlCall :: tool_call
  tlOperationKey :: string
  tlCorrelationID :: string

record tool_result_entry =
  rsAfterTool :: after_tool_payload
  rsCorrelationID :: string

record decision =
  dcTurn :: int
  dcAction :: action

text \<open>What \<open>EntryFields\<close> distinguishes by a type switch; every other type has no fields.\<close>

datatype payload =
    PProviderRequest provider_request
  | PProviderResponse provider_response
  | PAfterProvider after_provider_payload
  | PBeforeTool before_tool_payload
  | PToolCall tool_call_entry
  | PToolResult tool_result_entry
  | PAfterTool after_tool_payload
  | PDecision decision
  | PCheckpoint checkpoint
  | PAgentEnd agent_end_payload
  | POther

section \<open>Indexed fields\<close>

text \<open>The zero values of the two structs.\<close>

definition no_fields :: tj_fields where
  "no_fields = \<lparr>tfTurn = None, tfExecutionID = [], tfOperationKey = [], tfCorrelationID = [], tfProvider = [],
     tfModel = [], tfToolName = [], tfToolCallID = [], tfFinishReason = [], tfInputTokens = 0,
     tfOutputTokens = 0, tfIsError = None, tfCauseCode = [], tfActionKind = ActionKindOther []\<rparr>"

definition no_entry :: tj_entry where
  "no_entry = \<lparr>teID = [], teTrajectoryID = [], teParentID = [], teOrdinal = 0, teDepth = 0,
     teKind = KindOther [], teTimestamp = 0, teGeneration = 0, teFields = no_fields, teAudit = [],
     tePayloadVersion = 0, tePayload = [], teAttributes = []\<rparr>"

definition response_fields :: "model_response option \<Rightarrow> tj_fields \<Rightarrow> tj_fields" where
  "response_fields response f = (case response of
       None \<Rightarrow> f
     | Some r \<Rightarrow> f\<lparr>tfModel := mrModel r, tfFinishReason := mrFinishReason r,
         tfInputTokens := usInputTokens (mrUsage r), tfOutputTokens := usOutputTokens (mrUsage r)\<rparr>)"

definition action_fields :: "action \<Rightarrow> tj_fields \<Rightarrow> tj_fields" where
  "action_fields a f =
     (let f = f\<lparr>tfActionKind := action.acKind a\<rparr> in
      case acCause a of None \<Rightarrow> f | Some c \<Rightarrow> f\<lparr>tfCauseCode := csCode c\<rparr>)"

fun EntryFields :: "payload \<Rightarrow> tj_fields" where
  "EntryFields (PProviderRequest v) =
     no_fields\<lparr>tfTurn := Some (prTurn v), tfProvider := prProvider v, tfModel := prModel v,
       tfOperationKey := prOperationKey v,
       tfCorrelationID := (if prCorrelationID v = [] then prOperationKey v else prCorrelationID v)\<rparr>"
| "EntryFields (PProviderResponse v) =
     (let p = pvAfterProvider v in
      response_fields (apvResponse p)
        (no_fields\<lparr>tfTurn := Some (apvTurn p), tfProvider := apvProvider p,
           tfCorrelationID := pvCorrelationID v, tfIsError := Some (apvError p \<noteq> [])\<rparr>))"
| "EntryFields (PAfterProvider p) =
     response_fields (apvResponse p)
       (no_fields\<lparr>tfTurn := Some (apvTurn p), tfProvider := apvProvider p,
          tfIsError := Some (apvError p \<noteq> [])\<rparr>)"
| "EntryFields (PBeforeTool v) =
     no_fields\<lparr>tfTurn := Some (btTurn v), tfToolName := tcallName (btCall v), tfToolCallID := tcallID (btCall v)\<rparr>"
| "EntryFields (PToolCall v) =
     no_fields\<lparr>tfTurn := Some (tlTurn v), tfToolName := tcallName (tlCall v), tfToolCallID := tcallID (tlCall v),
       tfOperationKey := tlOperationKey v, tfCorrelationID := tlCorrelationID v\<rparr>"
| "EntryFields (PToolResult v) =
     (let p = rsAfterTool v in
      no_fields\<lparr>tfTurn := Some (atTurn p), tfToolName := tcallName (atCall p), tfToolCallID := tcallID (atCall p),
        tfCorrelationID := rsCorrelationID v, tfIsError := Some (trIsError (atResult p))\<rparr>)"
| "EntryFields (PAfterTool p) =
     no_fields\<lparr>tfTurn := Some (atTurn p), tfToolName := tcallName (atCall p), tfToolCallID := tcallID (atCall p),
       tfIsError := Some (trIsError (atResult p))\<rparr>"
| "EntryFields (PDecision v) =
     action_fields (dcAction v) (no_fields\<lparr>tfTurn := Some (dcTurn v)\<rparr>)"
| "EntryFields (PCheckpoint v) =
     action_fields (ckAction v)
       (if ckTurns v > 0 then no_fields\<lparr>tfTurn := Some (ckTurns v - 1)\<rparr> else no_fields)"
| "EntryFields (PAgentEnd v) = no_fields\<lparr>tfCauseCode := csCode (agCause v)\<rparr>"
| "EntryFields POther = no_fields"

section \<open>Decoding\<close>

record execution_input =
  eiMessage :: message
  eiBaseMessages :: "message list"
  eiEnvironment :: tj_environment

record decoded_input =
  diMessage :: message
  diBaseMessages :: "message list"
  diEnvironment :: "tj_environment option"
  diHasEnvelope :: bool
  diHasEnvironment :: bool

record checkpoint_codec =
  decCheckpoint :: "json \<Rightarrow> checkpoint result"
  decExecutionInput :: "json \<Rightarrow> execution_input result"
  decMessage :: "json \<Rightarrow> message result"
  decAgentStart :: "json \<Rightarrow> agent_start_payload result"
  decAfterProvider :: "json \<Rightarrow> after_provider_payload result"
  decAfterTool :: "json \<Rightarrow> after_tool_payload result"
  decAgentEnd :: "json \<Rightarrow> agent_end_payload result"

definition CloneMessage :: "message \<Rightarrow> message" where
  "CloneMessage m = m\<lparr>mgToolCalls := CloneToolCalls (mgToolCalls m)\<rparr>"

definition decode :: "string \<Rightarrow> (json \<Rightarrow> 'p result) \<Rightarrow> tj_entry \<Rightarrow> 'p result" where
  "decode failure unmarshal entry = (case unmarshal (tePayload entry) of
       Inl e \<Rightarrow> Inl (Nestf failure e)
     | Inr p \<Rightarrow> Inr p)"

definition decodeTrajectoryPayload :: "(json \<Rightarrow> 'p result) \<Rightarrow> tj_entry \<Rightarrow> 'p result" where
  "decodeTrajectoryPayload unmarshal entry = decode ''decode trajectory %q %s entry %q: %w'' unmarshal entry"

definition DecodeCheckpoint :: "checkpoint_codec \<Rightarrow> tj_entry \<Rightarrow> checkpoint result" where
  "DecodeCheckpoint c entry =
     bind_result (decode ''decode trajectory %q checkpoint %q: %w'' (decCheckpoint c) entry) (\<lambda>cp.
     if ckMessageMode cp \<noteq> CheckpointMessagesSnapshot \<and> ckMessageMode cp \<noteq> CheckpointMessagesBranch
     then Inl (Errorf ''decode trajectory %q checkpoint %q: unknown message mode %q'')
     else Inr (cp\<lparr>ckMessages := CloneMessages (ckMessages cp),
                  ckContextInjections := map CloneContextInjection (ckContextInjections cp)\<rparr>))"

definition Messages :: "checkpoint option \<Rightarrow> message list" where
  "Messages cp = (case cp of None \<Rightarrow> [] | Some cp \<Rightarrow> CloneMessages (ckMessages cp))"

definition NewExecutionInput :: "message \<Rightarrow> tj_environment \<Rightarrow> message list \<Rightarrow> execution_input" where
  "NewExecutionInput message environment baseMessages =
     \<lparr>eiMessage = CloneMessage message, eiBaseMessages = CloneMessages baseMessages,
      eiEnvironment = environment\<rparr>"

definition executionInputEnvelopeHasMessage :: "message \<Rightarrow> bool" where
  "executionInputEnvelopeHasMessage m \<longleftrightarrow>
     mgRole m \<noteq> RoleOther [] \<or> mgContent m \<noteq> [] \<or>
     (case mgToolCalls m of None \<Rightarrow> 0 | Some calls \<Rightarrow> length calls) \<noteq> 0 \<or>
     mgToolCallID m \<noteq> [] \<or> mgIsError m"

definition executionInputEnvelopeHasPayload :: "execution_input \<Rightarrow> bool" where
  "executionInputEnvelopeHasPayload input \<longleftrightarrow>
     executionInputEnvelopeHasMessage (eiMessage input) \<or>
     length (eiBaseMessages input) \<noteq> 0 \<or>
     envSDKAPIVersion (eiEnvironment input) \<noteq> 0 \<or>
     envCompositionDigest (eiEnvironment input) \<noteq> []"

text \<open>A legacy input leaves the environment at its zero value (\<open>None\<close>).\<close>

definition DecodeExecutionInput :: "checkpoint_codec \<Rightarrow> tj_entry \<Rightarrow> decoded_input result" where
  "DecodeExecutionInput c entry =
     (if teKind entry \<noteq> KindUserMessage
      then Inl (Errorf ''trajectory %q entry %q is %q, not %q'')
      else
        let legacy = bind_result (decode ''decode trajectory %q user message %q: %w'' (decMessage c) entry)
              (\<lambda>m. Inr \<lparr>diMessage = CloneMessage m, diBaseMessages = [], diEnvironment = None,
                        diHasEnvelope = False, diHasEnvironment = False\<rparr>) in
        case decExecutionInput c (tePayload entry) of
          Inl e \<Rightarrow> legacy
        | Inr input \<Rightarrow>
            if executionInputEnvelopeHasPayload input
            then Inr \<lparr>diMessage = CloneMessage (eiMessage input),
                      diBaseMessages = CloneMessages (eiBaseMessages input),
                      diEnvironment = Some (eiEnvironment input), diHasEnvelope = True,
                      diHasEnvironment = (envSDKAPIVersion (eiEnvironment input) \<noteq> 0 \<or>
                        envCompositionDigest (eiEnvironment input) \<noteq> [])\<rparr>
            else legacy)"

definition MessagesAfter :: "decoded_input \<Rightarrow> message list \<Rightarrow> message list" where
  "MessagesAfter input base =
     (let messages = (if diHasEnvelope input then CloneMessages (diBaseMessages input) else CloneMessages base)
      in messages @ [CloneMessage (diMessage input)])"

section \<open>The projection of a branch\<close>

definition branchMessagesAfterEntry ::
  "checkpoint_codec \<Rightarrow> message list \<Rightarrow> tj_entry \<Rightarrow> message list result" where
  "branchMessagesAfterEntry c messages entry = (case teKind entry of
       KindUserMessage \<Rightarrow>
         bind_result (DecodeExecutionInput c entry) (\<lambda>input. Inr (MessagesAfter input messages))
     | KindAgentStart \<Rightarrow>
         bind_result (decodeTrajectoryPayload (decAgentStart c) entry) (\<lambda>p. Inr (CloneMessages (apMessages p)))
     | KindProviderResponse \<Rightarrow>
         bind_result (decodeTrajectoryPayload (decAfterProvider c) entry) (\<lambda>p.
           case apvResponse p of
             None \<Rightarrow> Inr (CloneMessages messages)
           | Some r \<Rightarrow> Inr (CloneMessages messages @
               [\<lparr>mgRole = RoleAssistant, mgContent = mrContent r, mgToolCalls = CloneToolCalls (mrToolCalls r),
                 mgToolCallID = [], mgIsError = False\<rparr>]))
     | KindToolResult \<Rightarrow>
         bind_result (decodeTrajectoryPayload (decAfterTool c) entry) (\<lambda>p.
           Inr (CloneMessages messages @ [ToolMessage (tcallID (atCall p)) (atResult p)]))
     | KindCheckpoint \<Rightarrow>
         bind_result (DecodeCheckpoint c entry) (\<lambda>cp.
           if ckMessageMode cp = CheckpointMessagesBranch
           then Inr (CloneMessages messages @
                  (if action.acKind (ckAction cp) = ActionInject
                   then CloneMessages (acMessages (ckAction cp)) else []))
           else Inr (Messages (Some cp)))
     | KindTerminal \<Rightarrow>
         bind_result (decodeTrajectoryPayload (decAgentEnd c) entry) (\<lambda>p.
           if agMessages p = [] then Inr (CloneMessages messages) else Inr (CloneMessages (agMessages p)))
     | _ \<Rightarrow> Inr (CloneMessages messages))"

text \<open>
  The two loops of \<open>BranchMessages\<close>: backwards to the latest legacy snapshot, then
  forwards over the entries after it.
\<close>

fun scan_snapshot ::
  "checkpoint_codec \<Rightarrow> tj_entry list \<Rightarrow> tj_entry list \<Rightarrow> (message list \<times> tj_entry list) result" where
  "scan_snapshot c [] rest = Inr ([], rest)"
| "scan_snapshot c (entry # before) rest =
     (if teKind entry \<noteq> KindCheckpoint then scan_snapshot c before (entry # rest)
      else bind_result (DecodeCheckpoint c entry) (\<lambda>cp.
        if ckMessageMode cp = CheckpointMessagesSnapshot then Inr (Messages (Some cp), rest)
        else scan_snapshot c before (entry # rest)))"

fun replay :: "checkpoint_codec \<Rightarrow> message list \<Rightarrow> tj_entry list \<Rightarrow> message list result" where
  "replay c messages [] = Inr messages"
| "replay c messages (entry # rest) =
     bind_result (branchMessagesAfterEntry c messages entry) (\<lambda>updated. replay c updated rest)"

definition BranchMessages :: "checkpoint_codec \<Rightarrow> tj_entry list \<Rightarrow> message list result" where
  "BranchMessages c branch =
     bind_result (scan_snapshot c (rev branch) []) (\<lambda>(messages, rest).
     bind_result (replay c messages rest) (\<lambda>messages. Inr (CloneMessages messages)))"

section \<open>Closing tool calls\<close>

definition removePendingToolCall :: "string list \<Rightarrow> string \<Rightarrow> string list" where
  "removePendingToolCall waiting x = (if x = [] \<or> waiting = [] then waiting else remove1 x waiting)"

text \<open>The state of the loop: the result so far and the pending calls.\<close>

definition flush :: "string \<Rightarrow> message list \<times> string list \<Rightarrow> message list \<times> string list" where
  "flush placeholder = (\<lambda>(result, waiting).
     (result @ map (\<lambda>x. ToolMessage x \<lparr>trContent = placeholder, trIsError = False\<rparr>) waiting, []))"

definition called :: "message \<Rightarrow> string list" where
  "called m = filter (\<lambda>x. x \<noteq> []) (map tcallID (case mgToolCalls m of None \<Rightarrow> [] | Some calls \<Rightarrow> calls))"

definition close_step :: "string \<Rightarrow> message \<Rightarrow> message list \<times> string list \<Rightarrow> message list \<times> string list" where
  "close_step placeholder m s =
     (let (result, waiting) =
            (if mgRole m \<noteq> RoleTool \<and> length (snd s) > 0 then flush placeholder s else s);
          result = result @ [m]
      in case mgRole m of
           RoleAssistant \<Rightarrow> (result, waiting @ called m)
         | RoleTool \<Rightarrow> (result, removePendingToolCall waiting (mgToolCallID m))
         | _ \<Rightarrow> (result, waiting))"

definition effective_placeholder :: "string \<Rightarrow> string" where
  "effective_placeholder p = (if p = [] then ''Tool result omitted from trajectory branch projection.'' else p)"

definition CloseUnresolvedToolCalls :: "message list \<Rightarrow> string \<Rightarrow> message list" where
  "CloseUnresolvedToolCalls messages placeholder =
     (let placeholder = effective_placeholder placeholder
      in CloneMessages (fst (flush placeholder (fold (close_step placeholder) (CloneMessages messages) ([], [])))))"

definition ForkToolResultPlaceholder :: string where
  "ForkToolResultPlaceholder = ''Forked agent inherited this parent tool call without its result.''"

section \<open>Copies\<close>

lemma CloneMessages_append [simp]: "CloneMessages (a @ b) = CloneMessages a @ CloneMessages b"
  by (simp add: CloneMessages_def)

lemma CloneMessages_simps [simp]:
  "CloneMessages [] = []" "CloneMessages (m # ms) = CloneMessage m # CloneMessages ms"
  by (simp_all add: CloneMessages_def CloneMessage_def)

lemma CloneToolCalls_idem: "CloneToolCalls (CloneToolCalls calls) = CloneToolCalls calls"
  by (cases calls) (simp_all add: CloneToolCalls_def CloneToolCall_def)

lemma CloneMessage_idem [simp]: "CloneMessage (CloneMessage m) = CloneMessage m"
  by (simp add: CloneMessage_def CloneToolCalls_idem)

lemma CloneMessage_ToolMessage [simp]: "CloneMessage (ToolMessage x r) = ToolMessage x r"
  by (simp add: CloneMessage_def ToolMessage_def CloneToolCalls_def)

lemma clone_response:
  "CloneMessage \<lparr>mgRole = r, mgContent = t, mgToolCalls = CloneToolCalls calls, mgToolCallID = x, mgIsError = f\<rparr> =
     \<lparr>mgRole = r, mgContent = t, mgToolCalls = CloneToolCalls calls, mgToolCallID = x, mgIsError = f\<rparr>"
  by (simp add: CloneMessage_def CloneToolCalls_idem)

lemma after_entry_clone [simp]:
  "branchMessagesAfterEntry c (CloneMessages ms) e = branchMessagesAfterEntry c ms e"
  unfolding branchMessagesAfterEntry_def MessagesAfter_def CloneMessages_idem by (rule refl)

text \<open>Every projection step returns its own copy.\<close>

lemma after_entry_owned:
  assumes "branchMessagesAfterEntry c ms e = Inr r"
  shows "CloneMessages r = r"
  using assms unfolding branchMessagesAfterEntry_def
  by (auto simp: result_simps MessagesAfter_def Messages_def Let_def clone_response
      split: TrajectoryKind.splits option.splits if_splits)

section \<open>The projection as a fold\<close>

lemma scan_append:
  "scan_snapshot c before (rest @ tail) =
     bind_result (scan_snapshot c before rest) (\<lambda>(ms, rest). Inr (ms, rest @ tail))"
proof (induction before arbitrary: rest)
  case (Cons e before)
  then show ?case
    using Cons.IH [of "e # rest"] by (cases "DecodeCheckpoint c e") auto
qed simp

lemma replay_append:
  "replay c ms (xs @ ys) = bind_result (replay c ms xs) (\<lambda>ms. replay c ms ys)"
proof (induction xs arbitrary: ms)
  case (Cons e xs)
  then show ?case by (cases "branchMessagesAfterEntry c ms e") auto
qed simp

text \<open>A branch that ends in a snapshot shows the snapshot.\<close>

lemma BranchMessages_snapshot:
  assumes "teKind e = KindCheckpoint" "DecodeCheckpoint c e = Inr cp" "ckMessageMode cp = CheckpointMessagesSnapshot"
  shows "BranchMessages c (b @ [e]) = Inr (Messages (Some cp))"
  using assms by (simp add: BranchMessages_def Messages_def)

lemma DecodeCheckpoint_mode:
  "DecodeCheckpoint c e = Inr cp \<Longrightarrow>
     ckMessageMode cp = CheckpointMessagesSnapshot \<or> ckMessageMode cp = CheckpointMessagesBranch"
  by (auto simp: DecodeCheckpoint_def result_simps split: if_splits)

lemma scan_further:
  assumes "teKind e = KindCheckpoint \<Longrightarrow>
      \<exists>cp. DecodeCheckpoint c e = Inr cp \<and> ckMessageMode cp = CheckpointMessagesBranch"
  shows "scan_snapshot c (e # before) [] =
      bind_result (scan_snapshot c before []) (\<lambda>(ms, rest). Inr (ms, rest @ [e]))"
  using assms scan_append [of c before "[]" "[e]"] by (cases "teKind e = KindCheckpoint") auto

lemma BranchMessages_further:
  assumes "BranchMessages c b = Inr ms" and "teKind e = KindCheckpoint \<Longrightarrow>
      \<exists>cp. DecodeCheckpoint c e = Inr cp \<and> ckMessageMode cp = CheckpointMessagesBranch"
  shows "BranchMessages c (b @ [e]) = branchMessagesAfterEntry c ms e"
proof -
  obtain ms0 rest ms1 where s: "scan_snapshot c (rev b) [] = Inr (ms0, rest)" "replay c ms0 rest = Inr ms1"
    "ms = CloneMessages ms1"
    using assms(1) by (auto simp: BranchMessages_def result_simps)
  have "scan_snapshot c (rev (b @ [e])) [] = Inr (ms0, rest @ [e])"
    using scan_further [OF assms(2), of "rev b"] s(1) by simp
  then have "BranchMessages c (b @ [e]) =
      bind_result (branchMessagesAfterEntry c ms1 e) (\<lambda>ms. Inr (CloneMessages ms))"
    using s(2) by (cases "branchMessagesAfterEntry c ms1 e") (simp_all add: BranchMessages_def replay_append)
  moreover have "branchMessagesAfterEntry c ms1 e = branchMessagesAfterEntry c ms e" using s(3) by simp
  ultimately show ?thesis
    using after_entry_owned [of c ms e] by (cases "branchMessagesAfterEntry c ms e") auto
qed

lemma BranchMessages_snoc:
  assumes "BranchMessages c b = Inr ms"
  shows "BranchMessages c (b @ [e]) = branchMessagesAfterEntry c ms e"
proof (cases "teKind e = KindCheckpoint")
  case False
  then show ?thesis by (intro BranchMessages_further [OF assms]) simp
next
  case cp: True
  show ?thesis
  proof (cases "DecodeCheckpoint c e")
    case (Inl err)
    then show ?thesis using cp by (simp add: BranchMessages_def branchMessagesAfterEntry_def)
  next
    case (Inr k)
    then show ?thesis
      using DecodeCheckpoint_mode [OF Inr] BranchMessages_snapshot [OF cp Inr] BranchMessages_further [OF assms]
      by (auto simp: branchMessagesAfterEntry_def cp)
  qed
qed

lemma BranchMessages_Nil [simp]: "BranchMessages c [] = Inr []"
  by (simp add: BranchMessages_def)

text \<open>
  C19: The conversation of a branch is built entry by entry. Where the conversation at a
  head is known, one more entry, of any kind and with any payload, leads to what this entry
  alone makes of it, an error of decoding it included; and whenever the entries after that
  head replay one by one, the projection of the whole branch, which searches backwards for
  the latest legacy snapshot and starts there, succeeds with the same conversation. With the
  empty branch as the head this is the replay of the whole history.
\<close>

theorem BranchMessages_incremental:
  assumes "BranchMessages c b = Inr ms"
  shows "BranchMessages c (b @ [e]) = branchMessagesAfterEntry c ms e \<and>
    (replay c ms es = Inr r \<longrightarrow> BranchMessages c (b @ es) = Inr r)"
proof (intro conjI impI)
  show "BranchMessages c (b @ [e]) = branchMessagesAfterEntry c ms e"
    by (rule BranchMessages_snoc [OF assms])
  show "BranchMessages c (b @ es) = Inr r" if "replay c ms es = Inr r"
    using that assms
  proof (induction es arbitrary: b ms)
    case (Cons e es)
    then obtain u where u: "branchMessagesAfterEntry c ms e = Inr u" "replay c u es = Inr r"
      by (auto simp: result_simps)
    then have "BranchMessages c (b @ [e]) = Inr u" using BranchMessages_snoc [OF Cons.prems(2)] by simp
    from Cons.IH [OF u(2) this] show ?case by simp
  qed simp
qed

section \<open>Closed tool calls\<close>

text \<open>The loop as a recursion that yields the messages after the ones it has passed.\<close>

definition placeholder_for :: "string \<Rightarrow> string \<Rightarrow> message" where
  "placeholder_for p x = ToolMessage x \<lparr>trContent = p, trIsError = False\<rparr>"

fun close :: "string \<Rightarrow> string list \<Rightarrow> message list \<Rightarrow> message list" where
  "close p w [] = map (placeholder_for p) w"
| "close p w (m # ms) =
     (if mgRole m = RoleTool then m # close p (removePendingToolCall w (mgToolCallID m)) ms
      else map (placeholder_for p) w @ m # close p (if mgRole m = RoleAssistant then called m else []) ms)"

lemma close_loop:
  "fst (flush p (fold (close_step p) ms (result, w))) = result @ close p w ms"
proof (induction ms arbitrary: result w)
  case Nil
  then show ?case by (simp add: flush_def placeholder_for_def)
next
  case (Cons m ms)
  have "close_step p m (result, w) =
    (if mgRole m = RoleTool then (result @ [m], removePendingToolCall w (mgToolCallID m))
     else (result @ map (placeholder_for p) w @ [m], if mgRole m = RoleAssistant then called m else []))"
    by (cases "mgRole m"; cases w) (simp_all add: close_step_def flush_def placeholder_for_def)
  then show ?case using Cons.IH by simp
qed

text \<open>The IDs that the tool messages at the start of a conversation answer.\<close>

definition answers_first :: "message list \<Rightarrow> string set" where
  "answers_first ms = mgToolCallID ` set (takeWhile (\<lambda>m. mgRole m = RoleTool) ms)"

text \<open>
  A conversation is answered when the tool messages that directly follow an assistant
  message answer every call of it that has an ID.
\<close>

fun answered :: "message list \<Rightarrow> bool" where
  "answered [] \<longleftrightarrow> True"
| "answered (m # ms) \<longleftrightarrow> (mgRole m = RoleAssistant \<longrightarrow> set (called m) \<subseteq> answers_first ms) \<and> answered ms"

lemma placeholder_simps [simp]:
  "mgRole (placeholder_for p x) = RoleTool" "mgToolCallID (placeholder_for p x) = x"
  "CloneMessage (placeholder_for p x) = placeholder_for p x"
  by (simp_all add: placeholder_for_def) (simp_all add: ToolMessage_def)

lemma answers_first_simps [simp]:
  "answers_first [] = {}"
  "answers_first (m # ms) = (if mgRole m = RoleTool then insert (mgToolCallID m) (answers_first ms) else {})"
  by (auto simp: answers_first_def)

lemma answers_first_placeholders [simp]:
  "answers_first (map (placeholder_for p) w @ ms) = set w \<union> answers_first ms"
  by (induction w) auto

lemma answered_placeholders [simp]: "answered (map (placeholder_for p) w @ ms) = answered ms"
  by (induction w) simp_all

lemma called_nonempty [simp]: "[] \<notin> set (called m)"
  by (simp add: called_def)

lemma removePending_nonempty: "[] \<notin> set w \<Longrightarrow> [] \<notin> set (removePendingToolCall w x)"
  by (simp add: removePendingToolCall_def notin_set_remove1)

lemma removePending_set: "set w \<subseteq> insert x (set (removePendingToolCall w x))"
proof -
  have "set w \<subseteq> insert x (set (remove1 x w))" by (induction w) auto
  then show ?thesis by (auto simp: removePendingToolCall_def)
qed

lemma close_answers: "set w \<subseteq> answers_first (close p w ms)"
proof (induction ms arbitrary: w)
  case Nil
  then show ?case using answers_first_placeholders [of p w "[]"] by simp
next
  case (Cons m ms)
  then show ?case using removePending_set [of w "mgToolCallID m"] by fastforce
qed

lemma close_answered: "answered (close p w ms)"
proof (induction ms arbitrary: w)
  case Nil
  then show ?case using answered_placeholders [of p w "[]"] by simp
next
  case (Cons m ms)
  then show ?case using close_answers by simp
qed

lemma close_keeps: "\<exists>w'. close p w ms \<in> shuffles ms (map (placeholder_for p) w')"
proof (induction ms arbitrary: w)
  case (Cons m ms)
  have pre: "map (placeholder_for p) w @ m # zs \<in> shuffles (m # ms) (map (placeholder_for p) (w @ w'))"
    if "zs \<in> shuffles ms (map (placeholder_for p) w')" for w w' zs
    using that by (induction w) (auto intro: Cons_in_shuffles_leftI Cons_in_shuffles_rightI)
  show ?case
  proof (cases "mgRole m = RoleTool")
    case True
    obtain w' where "close p (removePendingToolCall w (mgToolCallID m)) ms \<in> shuffles ms (map (placeholder_for p) w')"
      using Cons.IH by blast
    then show ?thesis using True pre [of _ w' "[]"] by auto
  next
    case False
    obtain w' where "close p (if mgRole m = RoleAssistant then called m else []) ms \<in> shuffles ms (map (placeholder_for p) w')"
      using Cons.IH by blast
    from pre [OF this, of w] show ?thesis using False by (intro exI [of _ "w @ w'"]) simp
  qed
qed auto

lemma close_placeholders:
  "[] \<notin> set w \<Longrightarrow> close q w (map (placeholder_for p) w @ ms) = map (placeholder_for p) w @ close q [] ms"
  by (induction w) (auto simp: removePendingToolCall_def)

lemma close_idem: "[] \<notin> set w \<Longrightarrow> close q w (close p w ms) = close p w ms"
proof (induction ms arbitrary: w)
  case Nil
  then show ?case using close_placeholders [of w q p "[]"] by simp
next
  case (Cons m ms)
  then show ?case using removePending_nonempty by (simp add: close_placeholders)
qed

lemma CloneMessages_close: "CloneMessages (close p w (CloneMessages ms)) = close p w (CloneMessages ms)"
proof (induction ms arbitrary: w)
  case Nil
  show ?case by (induction w) simp_all
next
  case (Cons m ms)
  have "CloneMessages (map (placeholder_for p) w) = map (placeholder_for p) w" for w by (induction w) simp_all
  then show ?case using Cons.IH by simp
qed

lemma CloseUnresolvedToolCalls_close:
  "CloseUnresolvedToolCalls ms p = close (effective_placeholder p) [] (CloneMessages ms)"
  by (simp add: CloseUnresolvedToolCalls_def effective_placeholder_def close_loop CloneMessages_close)

text \<open>
  C21: Closing a conversation answers every tool call of it that has an ID, by tool messages
  directly after the assistant message that calls, before any later context. It keeps all
  messages in their order and adds nothing but placeholder results, and closing a closed
  conversation again, with any placeholder, changes nothing.
\<close>

theorem CloseUnresolvedToolCalls_closes:
  "answered (CloseUnresolvedToolCalls ms p) \<and>
   (\<exists>ids. CloseUnresolvedToolCalls ms p \<in> shuffles (CloneMessages ms)
      (map (placeholder_for (effective_placeholder p)) ids)) \<and>
   CloseUnresolvedToolCalls (CloseUnresolvedToolCalls ms p) p' = CloseUnresolvedToolCalls ms p"
proof (intro conjI)
  show "answered (CloseUnresolvedToolCalls ms p)"
    unfolding CloseUnresolvedToolCalls_close by (rule close_answered)
  show "\<exists>ids. CloseUnresolvedToolCalls ms p \<in> shuffles (CloneMessages ms)
      (map (placeholder_for (effective_placeholder p)) ids)"
    unfolding CloseUnresolvedToolCalls_close using close_keeps [of _ "[]" "CloneMessages ms"] by blast
  show "CloseUnresolvedToolCalls (CloseUnresolvedToolCalls ms p) p' = CloseUnresolvedToolCalls ms p"
    unfolding CloseUnresolvedToolCalls_close CloneMessages_close by (rule close_idem) simp
qed

section \<open>Stored fields\<close>

text \<open>
  The kind of entry that the runtime writes for a payload, and what the payload must carry
  for the fields of such an entry to be accepted.
\<close>

fun payload_kind :: "payload \<Rightarrow> TrajectoryKind option" where
  "payload_kind (PProviderRequest v) = Some KindProviderRequest"
| "payload_kind (PProviderResponse v) = Some KindProviderResponse"
| "payload_kind (PToolCall v) = Some KindToolCall"
| "payload_kind (PToolResult v) = Some KindToolResult"
| "payload_kind (PDecision v) = Some KindDecision"
| "payload_kind (PCheckpoint v) = Some KindCheckpoint"
| "payload_kind (PAgentEnd v) = Some KindTerminal"
| "payload_kind _ = None"

definition blank :: "string \<Rightarrow> bool" where
  "blank t \<longleftrightarrow> TrimSpace t = []"

fun payload_complete :: "payload \<Rightarrow> bool" where
  "payload_complete (PProviderRequest v) \<longleftrightarrow>
     0 \<le> prTurn v \<and> \<not> blank (prProvider v) \<and> \<not> blank (prOperationKey v)"
| "payload_complete (PProviderResponse v) \<longleftrightarrow>
     0 \<le> apvTurn (pvAfterProvider v) \<and> \<not> blank (apvProvider (pvAfterProvider v))"
| "payload_complete (PToolCall v) \<longleftrightarrow>
     0 \<le> tlTurn v \<and> \<not> blank (tcallName (tlCall v)) \<and> \<not> blank (tcallID (tlCall v)) \<and> \<not> blank (tlOperationKey v)"
| "payload_complete (PToolResult v) \<longleftrightarrow>
     0 \<le> atTurn (rsAfterTool v) \<and> \<not> blank (tcallName (atCall (rsAfterTool v))) \<and>
     \<not> blank (tcallID (atCall (rsAfterTool v)))"
| "payload_complete (PDecision v) \<longleftrightarrow> 0 \<le> dcTurn v"
| "payload_complete _ \<longleftrightarrow> True"

text \<open>The indexed fields of a payload are accepted by the store exactly when the payload is complete.\<close>

lemma EntryFields_accepted:
  assumes "teFields e = EntryFields p" "payload_kind p = Some (teKind e)"
  shows "ValidateTrajectoryEntryFields e = None \<longleftrightarrow> payload_complete p"
  using assms
  by (cases p) (auto simp: ValidateTrajectoryEntryFields_def requireTurn_def no_fields_def response_fields_def
      action_fields_def blank_def Let_def result_simps not_less split: option.splits)

section \<open>An example\<close>

definition message_demo :: "Role \<Rightarrow> string \<Rightarrow> message" where
  "message_demo r t = \<lparr>mgRole = r, mgContent = t, mgToolCalls = None, mgToolCallID = [], mgIsError = False\<rparr>"

definition call_demo :: tool_call where
  "call_demo = \<lparr>tcallID = ''k1'', tcallName = ''read'', tcallArguments = None\<rparr>"

definition checkpoint_demo :: "CheckpointMessageMode \<Rightarrow> message list \<Rightarrow> checkpoint" where
  "checkpoint_demo mode ms = \<lparr>ckMessages = ms, ckMessageMode = mode, ckSystem = [], ckProvider = ''p'', ckOutput = [],
     ckTurns = 1, ckToolCalls = 1, ckInputTokens = 0, ckOutputTokens = 0, ckGeneration = 1,
     ckAction = \<lparr>acKind = ActionStep, acCause = None, acMessages = []\<rparr>, ckContextInjections = [],
     ckConsumedContextInjectionIDs = [], ckDependencies = []\<rparr>"

text \<open>Decoders at which every payload has one meaning per kind of entry, but for two kinds of checkpoint.\<close>

definition codec_demo :: checkpoint_codec where
  "codec_demo = \<lparr>
     decCheckpoint = (\<lambda>j. Inr (if j = ''{}'' then checkpoint_demo CheckpointMessagesBranch []
        else checkpoint_demo CheckpointMessagesSnapshot [message_demo RoleUser ''earlier''])),
     decExecutionInput = (\<lambda>j. Inl (Errorf ''json'')),
     decMessage = (\<lambda>j. Inr (message_demo RoleUser ''hello'')),
     decAgentStart = (\<lambda>j. Inr \<lparr>apMessages = [message_demo RoleUser ''start''], apSystem = []\<rparr>),
     decAfterProvider = (\<lambda>j. Inr \<lparr>apvTurn = 0, apvProvider = ''p'', apvResponse = Some
        \<lparr>mrContent = ''let me look'', mrToolCalls = Some [call_demo], mrModel = [], mrFinishReason = [],
         mrUsage = \<lparr>usInputTokens = 0, usOutputTokens = 0\<rparr>\<rparr>, apvError = []\<rparr>),
     decAfterTool = (\<lambda>j. Inr \<lparr>atTurn = 0, atCall = call_demo, atResult = \<lparr>trContent = ''found'', trIsError = False\<rparr>\<rparr>),
     decAgentEnd = (\<lambda>j. Inl (Errorf ''json''))\<rparr>"

definition branch_demo :: "tj_entry list" where
  "branch_demo = [entry_demo ''u1'' [] KindUserMessage,
     (entry_demo ''c1'' ''u1'' KindCheckpoint)\<lparr>tePayload := ''{\"s\":1}''\<rparr>,
     entry_demo ''r1'' ''c1'' KindProviderResponse]"

theorem BranchMessages_incremental_witness:
  "map_sum id (map mgContent) (BranchMessages codec_demo (branch_demo @ [entry_demo ''k1'' ''r1'' KindToolResult])) =
     Inr [''earlier'', ''let me look'', ''found''] \<and>
   map_sum id (map mgContent) (BranchMessages codec_demo (branch_demo @
     [entry_demo ''k1'' ''r1'' KindToolResult, entry_demo ''c2'' ''k1'' KindCheckpoint])) =
     Inr [''earlier'', ''let me look'', ''found'']"
proof -
  obtain ms where ms: "BranchMessages codec_demo branch_demo = Inr ms"
    "map_sum id (map mgContent) (branchMessagesAfterEntry codec_demo ms (entry_demo ''k1'' ''r1'' KindToolResult)) =
      Inr [''earlier'', ''let me look'', ''found'']"
  proof -
    have "(case BranchMessages codec_demo branch_demo of Inl _ \<Rightarrow> False | Inr ms \<Rightarrow>
        map_sum id (map mgContent) (branchMessagesAfterEntry codec_demo ms (entry_demo ''k1'' ''r1'' KindToolResult)) =
          Inr [''earlier'', ''let me look'', ''found''])"
      by code_simp
    then show ?thesis using that by (auto split: sum.splits)
  qed
  obtain r where r: "replay codec_demo ms [entry_demo ''k1'' ''r1'' KindToolResult, entry_demo ''c2'' ''k1'' KindCheckpoint] = Inr r"
    "map mgContent r = [''earlier'', ''let me look'', ''found'']"
  proof -
    have "case bind_result (BranchMessages codec_demo branch_demo) (\<lambda>ms. replay codec_demo ms
        [entry_demo ''k1'' ''r1'' KindToolResult, entry_demo ''c2'' ''k1'' KindCheckpoint]) of
        Inl _ \<Rightarrow> False | Inr r \<Rightarrow> map mgContent r = [''earlier'', ''let me look'', ''found'']"
      by code_simp
    then show ?thesis using that ms(1) by (auto split: sum.splits)
  qed
  show ?thesis
    using BranchMessages_incremental [OF ms(1), of "entry_demo ''k1'' ''r1'' KindToolResult" _ r] ms(2) r by simp
qed

end
