(* ===== verification/Checkpoint_Recovery.thy ===== *)
theory Checkpoint_Recovery
  imports Checkpoints
begin

text \<open>
  Loading the conversation of a branch and the bases from which sessions resume and
  executions recover (\<open>sdk/runtime/internal/durability\<close>), over the methods of the
  trajectory store that the package calls. The locale \<open>branch_reader\<close> states what these
  methods promise each other; the in-memory trajectory store keeps the promises in every
  state that its operations reach.
\<close>

section \<open>The store\<close>

record inspection =
  ipID :: string
  ipTrajectoryID :: string
  ipParentID :: string
  ipOrdinal :: u64
  ipDepth :: u64
  ipKind :: TrajectoryKind
  ipTimestamp :: gotime
  ipGeneration :: u64
  ipFields :: tj_fields
  ipPayloadVersion :: u32
  ipPayloadBytes :: int
  ipAuditCount :: int
  ipAttributeCount :: int

record reader =
  rdLoadEntry :: "string \<Rightarrow> string \<Rightarrow> tj_entry outcome"
  rdLoadBranch :: "string \<Rightarrow> string \<Rightarrow> tj_entry list outcome"
  rdFindLatest :: "string \<Rightarrow> string \<Rightarrow> TrajectoryKind \<Rightarrow> tj_entry option outcome"
  rdInspect :: "(string \<Rightarrow> string \<Rightarrow> (tj_metadata \<times> inspection list) outcome) option"

definition bind_outcome :: "'a outcome \<Rightarrow> ('a \<Rightarrow> 'b outcome) \<Rightarrow> 'b outcome" where
  "bind_outcome r f = (case r of None \<Rightarrow> None | Some (Inl e) \<Rightarrow> Some (Inl e) | Some (Inr x) \<Rightarrow> f x)"

section \<open>Loading messages\<close>

definition messageProjectionEntryKind :: "TrajectoryKind \<Rightarrow> bool" where
  "messageProjectionEntryKind kind = (case kind of
       KindUserMessage \<Rightarrow> True | KindAgentStart \<Rightarrow> True | KindProviderResponse \<Rightarrow> True
     | KindToolResult \<Rightarrow> True | KindCheckpoint \<Rightarrow> True | KindTerminal \<Rightarrow> True | _ \<Rightarrow> False)"

text \<open>
  The loops of \<open>LoadInspectedBranchMessages\<close>: from index \<open>n - 1\<close> down to the latest
  snapshot, with the entries loaded on the way, and up again over the index from there.
\<close>

fun inspect_scan ::
  "checkpoint_codec \<Rightarrow> reader \<Rightarrow> string \<Rightarrow> inspection list \<Rightarrow> nat \<Rightarrow> (nat \<times> tj_entry) list \<Rightarrow>
   (nat \<times> (nat \<times> tj_entry) list) outcome" where
  "inspect_scan c store i branch 0 loaded = Some (Inr (0, loaded))"
| "inspect_scan c store i branch (Suc index) loaded =
     (if ipKind (branch ! index) \<noteq> KindCheckpoint then inspect_scan c store i branch index loaded
      else bind_outcome (rdLoadEntry store i (ipID (branch ! index))) (\<lambda>entry.
        case DecodeCheckpoint c entry of
          Inl e \<Rightarrow> Some (Inl e)
        | Inr cp \<Rightarrow>
            let loaded = AList.update index entry loaded in
            if ckMessageMode cp = CheckpointMessagesSnapshot then Some (Inr (index, loaded))
            else inspect_scan c store i branch index loaded))"

fun inspect_entries ::
  "reader \<Rightarrow> string \<Rightarrow> (nat \<times> tj_entry) list \<Rightarrow> nat \<Rightarrow> inspection list \<Rightarrow> tj_entry list outcome" where
  "inspect_entries store i loaded index [] = Some (Inr [])"
| "inspect_entries store i loaded index (inspection # rest) =
     (if \<not> messageProjectionEntryKind (ipKind inspection) then inspect_entries store i loaded (Suc index) rest
      else bind_outcome
        (case map_of loaded index of
           Some entry \<Rightarrow> Some (Inr entry)
         | None \<Rightarrow> rdLoadEntry store i (ipID inspection)) (\<lambda>entry.
        bind_outcome (inspect_entries store i loaded (Suc index) rest) (\<lambda>entries.
        Some (Inr (entry # entries)))))"

definition LoadInspectedBranchMessages ::
  "checkpoint_codec \<Rightarrow> reader option \<Rightarrow> string \<Rightarrow> inspection list \<Rightarrow> message list outcome" where
  "LoadInspectedBranchMessages c store i branch = (case store of
       None \<Rightarrow> Some (Inl (Errorf ''load inspected branch messages: store is nil''))
     | Some store \<Rightarrow>
         if i = [] then Some (Inl (Errorf ''load inspected branch messages: trajectory ID is empty''))
         else bind_outcome (inspect_scan c store i branch (length branch) []) (\<lambda>(start, loaded).
           bind_outcome (inspect_entries store i loaded start (drop start branch)) (\<lambda>entries.
           Some (BranchMessages c entries))))"

definition LoadBranchMessages ::
  "checkpoint_codec \<Rightarrow> reader \<Rightarrow> string \<Rightarrow> string \<Rightarrow> message list outcome" where
  "LoadBranchMessages c store i head =
     (if head = [] then Some (Inr [])
      else case rdInspect store of
        Some inspect \<Rightarrow>
          bind_outcome (inspect i head) (\<lambda>(metadata, branch).
            LoadInspectedBranchMessages c (Some store) i branch)
      | None \<Rightarrow> bind_outcome (rdLoadBranch store i head) (\<lambda>branch. Some (BranchMessages c branch)))"

section \<open>Checkpoints of a trajectory\<close>

definition HydrateCheckpointMessages ::
  "checkpoint_codec \<Rightarrow> reader \<Rightarrow> string \<Rightarrow> tj_entry \<Rightarrow> checkpoint option \<Rightarrow> checkpoint option outcome" where
  "HydrateCheckpointMessages c store i entry checkpoint = (case checkpoint of
       None \<Rightarrow> Some (Inr None)
     | Some cp \<Rightarrow>
         if ckMessageMode cp \<noteq> CheckpointMessagesBranch then Some (Inr (Some cp))
         else bind_outcome (LoadBranchMessages c store i (teID entry)) (\<lambda>messages.
           Some (Inr (Some (cp\<lparr>ckMessages := messages\<rparr>)))))"

definition LatestCheckpoint ::
  "checkpoint_codec \<Rightarrow> reader \<Rightarrow> tj_metadata \<Rightarrow> (tj_entry \<times> checkpoint option) outcome" where
  "LatestCheckpoint c store metadata =
     (if tmCheckpoint metadata = [] then Some (Inr (no_entry, None))
      else bind_outcome (rdLoadEntry store (tmID metadata) (tmCheckpoint metadata)) (\<lambda>entry.
        if teKind entry \<noteq> KindCheckpoint
        then Some (Inl (Errorf ''trajectory %q cached checkpoint %q is %q''))
        else bind_outcome (Some (DecodeCheckpoint c entry)) (\<lambda>checkpoint.
          bind_outcome (HydrateCheckpointMessages c store (tmID metadata) entry (Some checkpoint)) (\<lambda>checkpoint.
          Some (Inr (entry, checkpoint))))))"

definition LatestExecutionCheckpoint ::
  "checkpoint_codec \<Rightarrow> reader \<Rightarrow> tj_metadata \<Rightarrow> (tj_entry \<times> checkpoint option \<times> bool) outcome" where
  "LatestExecutionCheckpoint c store metadata = (case tmExecution metadata of
       None \<Rightarrow> Some (Inr (no_entry, None, False))
     | Some execution \<Rightarrow>
         if tmHead metadata = [] then Some (Inr (no_entry, None, False))
         else bind_outcome (rdFindLatest store (tmID metadata) (tmHead metadata) KindCheckpoint) (\<lambda>found.
           case found of
             None \<Rightarrow> Some (Inr (no_entry, None, False))
           | Some entry \<Rightarrow>
               if tfExecutionID (teFields entry) \<noteq> txID execution then Some (Inr (no_entry, None, False))
               else bind_outcome (Some (DecodeCheckpoint c entry)) (\<lambda>checkpoint.
                 bind_outcome (HydrateCheckpointMessages c store (tmID metadata) entry (Some checkpoint))
                   (\<lambda>checkpoint. Some (Inr (entry, checkpoint, True))))))"

section \<open>Bases\<close>

record branch_base =
  bbHead :: string
  bbMessages :: "message list"

record session_resume_base =
  srBranchBase :: branch_base
  srCheckpointEntry :: tj_entry
  srCheckpoint :: "checkpoint option"

record execution_recovery_base =
  xrHead :: string
  xrMessages :: "message list"
  xrMessage :: message
  xrCheckpointEntry :: tj_entry
  xrCheckpoint :: "checkpoint option"

definition LoadBranchBase :: "checkpoint_codec \<Rightarrow> reader \<Rightarrow> string \<Rightarrow> string \<Rightarrow> branch_base outcome" where
  "LoadBranchBase c store i head =
     bind_outcome (LoadBranchMessages c store i head) (\<lambda>messages.
     Some (Inr \<lparr>bbHead = head, bbMessages = messages\<rparr>))"

definition terminalExecutionResumeHead :: "tj_metadata \<Rightarrow> string option" where
  "terminalExecutionResumeHead metadata = (case tmExecution metadata of
       None \<Rightarrow> None
     | Some x \<Rightarrow> (case txState x of
           TrajectoryExecutionFailed \<Rightarrow> Some (txBaseHead x)
         | TrajectoryExecutionCancelled \<Rightarrow> Some (txBaseHead x)
         | _ \<Rightarrow> None))"

definition trajectoryOwnsEntry :: "tj_metadata \<Rightarrow> tj_entry \<Rightarrow> bool" where
  "trajectoryOwnsEntry metadata entry \<longleftrightarrow> teID entry \<noteq> [] \<and> teTrajectoryID entry = tmID metadata"

definition sessionResumeBranchHead :: "tj_metadata \<Rightarrow> tj_entry \<Rightarrow> string \<times> bool" where
  "sessionResumeBranchHead metadata checkpointEntry = (case terminalExecutionResumeHead metadata of
       Some resumeHead \<Rightarrow> (resumeHead, True)
     | None \<Rightarrow>
         if tmParentID metadata \<noteq> [] \<and> \<not> trajectoryOwnsEntry metadata checkpointEntry
         then (tmParentEntryID metadata, False)
         else (teID checkpointEntry, True))"

definition LoadSessionResumeBase ::
  "checkpoint_codec \<Rightarrow> reader \<Rightarrow> tj_metadata \<Rightarrow> session_resume_base outcome" where
  "LoadSessionResumeBase c store metadata =
     bind_outcome (LatestCheckpoint c store metadata) (\<lambda>(checkpointEntry, checkpoint).
     let (head, preserveCheckpoint) = sessionResumeBranchHead metadata checkpointEntry;
         base = \<lparr>srBranchBase = \<lparr>bbHead = teID checkpointEntry, bbMessages = Messages checkpoint\<rparr>,
                 srCheckpointEntry = checkpointEntry, srCheckpoint = checkpoint\<rparr> in
     bind_outcome
       (if head \<noteq> teID checkpointEntry \<or> \<not> preserveCheckpoint
        then (case LoadBranchBase c store (tmID metadata) head of
                None \<Rightarrow> None
              | Some (Inl e) \<Rightarrow> Some (Inl (if \<not> preserveCheckpoint
                  then Nestf ''project forked trajectory %q base branch at %q: %w'' e else e))
              | Some (Inr branchBase) \<Rightarrow>
                  Some (Inr (base\<lparr>srBranchBase := (if \<not> preserveCheckpoint
                    then branchBase\<lparr>bbMessages := CloseUnresolvedToolCalls (bbMessages branchBase) ForkToolResultPlaceholder\<rparr>
                    else branchBase)\<rparr>)))
        else Some (Inr base)) (\<lambda>base.
     Some (Inr (if \<not> preserveCheckpoint
       then base\<lparr>srCheckpointEntry := no_entry, srCheckpoint := None\<rparr> else base))))"

definition LoadExecutionCompletionBase ::
  "checkpoint_codec \<Rightarrow> reader \<Rightarrow> tj_metadata \<Rightarrow> branch_base outcome" where
  "LoadExecutionCompletionBase c store metadata = (case tmExecution metadata of
       None \<Rightarrow> Some (Inl (Wrapf ErrTrajectoryExecution ''%w: trajectory %s has no execution''))
     | Some x \<Rightarrow> LoadBranchBase c store (tmID metadata) (txBaseHead x))"

text \<open>The base messages and the message of an accepted input.\<close>

definition LoadAcceptedExecutionInput ::
  "checkpoint_codec \<Rightarrow> reader \<Rightarrow> string \<Rightarrow> string \<Rightarrow> tj_entry \<Rightarrow> (message list \<times> message) outcome" where
  "LoadAcceptedExecutionInput c store i baseHead entry =
     bind_outcome (Some (DecodeExecutionInput c entry)) (\<lambda>input.
     if diHasEnvelope input then Some (Inr (CloneMessages (diBaseMessages input), diMessage input))
     else if baseHead = [] then Some (Inr ([], diMessage input))
     else bind_outcome (LoadBranchMessages c store i baseHead) (\<lambda>messages.
       Some (Inr (messages, diMessage input))))"

definition no_message :: message where
  "no_message = \<lparr>mgRole = RoleOther [], mgContent = [], mgToolCalls = None, mgToolCallID = [], mgIsError = False\<rparr>"

definition LoadExecutionRecoveryBase ::
  "checkpoint_codec \<Rightarrow> reader \<Rightarrow> tj_metadata \<Rightarrow> tj_entry \<Rightarrow> execution_recovery_base outcome" where
  "LoadExecutionRecoveryBase c store metadata inputEntry = (case tmExecution metadata of
       None \<Rightarrow> Some (Inl (Wrapf ErrTrajectoryExecution ''%w: trajectory %s has no execution''))
     | Some execution \<Rightarrow>
         if teID inputEntry \<noteq> txInputEntryID execution
         then Some (Inl (Errorf ''trajectory %q recovery input entry = %q, want %q''))
         else bind_outcome (LatestExecutionCheckpoint c store metadata) (\<lambda>(checkpointEntry, checkpoint, found).
           if found
           then Some (Inr \<lparr>xrHead = teID checkpointEntry, xrMessages = Messages checkpoint, xrMessage = no_message,
                  xrCheckpointEntry = checkpointEntry, xrCheckpoint = checkpoint\<rparr>)
           else bind_outcome (LoadAcceptedExecutionInput c store (tmID metadata) (txBaseHead execution) inputEntry)
             (\<lambda>(baseMessages, message).
             Some (Inr \<lparr>xrHead = teID inputEntry, xrMessages = baseMessages, xrMessage = message,
               xrCheckpointEntry = no_entry, xrCheckpoint = None\<rparr>))))"

text \<open>Whether a head already represents an anchor.\<close>

definition HeadRestoresAnchor :: "reader \<Rightarrow> string \<Rightarrow> string \<Rightarrow> string \<Rightarrow> bool outcome" where
  "HeadRestoresAnchor store i head anchorID =
     (if head = [] then Some (Inr (anchorID = []))
      else if head = anchorID then Some (Inr True)
      else bind_outcome (rdLoadEntry store i head) (\<lambda>entry.
        Some (Inr ((teKind entry = KindRestore \<or> teKind entry = KindRollback) \<and> teParentID entry = anchorID))))"

section \<open>Outcomes\<close>

lemma bind_outcome_Some_Inr:
  "bind_outcome r f = Some (Inr y) \<longleftrightarrow> (\<exists>x. r = Some (Inr x) \<and> f x = Some (Inr y))"
  by (auto simp: bind_outcome_def split: option.split sum.split)

lemma bind_outcome_simps [simp]:
  "bind_outcome None f = None" "bind_outcome (Some (Inl e)) f = Some (Inl e)" "bind_outcome (Some (Inr x)) f = f x"
  by (simp_all add: bind_outcome_def)

definition returns :: "'a outcome \<Rightarrow> bool" where
  "returns r \<longleftrightarrow> r \<noteq> None"

lemma returns_Some [simp]: "returns (Some v)"
  by (simp add: returns_def)

lemma bind_outcome_returns [intro!]: "returns r \<Longrightarrow> (\<And>x. returns (f x)) \<Longrightarrow> returns (bind_outcome r f)"
  by (auto simp: returns_def bind_outcome_def split: option.split sum.split)

section \<open>The projection of an index\<close>

text \<open>What the index of a branch keeps of an entry.\<close>

definition inspection_of :: "tj_entry \<Rightarrow> inspection" where
  "inspection_of e = \<lparr>ipID = teID e, ipTrajectoryID = teTrajectoryID e, ipParentID = teParentID e,
     ipOrdinal = teOrdinal e, ipDepth = teDepth e, ipKind = teKind e, ipTimestamp = teTimestamp e,
     ipGeneration = teGeneration e, ipFields = teFields e, ipPayloadVersion = tePayloadVersion e,
     ipPayloadBytes = int (length (tePayload e)), ipAuditCount = int (length (teAudit e)),
     ipAttributeCount = int (length (teAttributes e))\<rparr>"

lemma inspection_of_simps [simp]: "ipID (inspection_of e) = teID e" "ipKind (inspection_of e) = teKind e"
  by (simp_all add: inspection_of_def)

definition projected :: "tj_entry \<Rightarrow> bool" where
  "projected e \<longleftrightarrow> messageProjectionEntryKind (teKind e)"

lemma projected_checkpoint [simp]: "teKind e = KindCheckpoint \<Longrightarrow> projected e"
  by (simp add: projected_def messageProjectionEntryKind_def)

lemma not_projected_after: "\<not> projected e \<Longrightarrow> branchMessagesAfterEntry c ms e = Inr (CloneMessages ms)"
  by (simp add: projected_def messageProjectionEntryKind_def branchMessagesAfterEntry_def split: TrajectoryKind.splits)

lemma scan_projected:
  "scan_snapshot c (filter projected before) (filter projected rest) =
     bind_result (scan_snapshot c before rest) (\<lambda>(ms, rest). Inr (ms, filter projected rest))"
proof (induction before arbitrary: rest)
  case (Cons e before)
  show ?case
  proof (cases "teKind e = KindCheckpoint")
    case False
    then show ?thesis using Cons.IH [of "e # rest"] by (auto split: if_splits)
  next
    case True
    then show ?thesis using Cons.IH [of "e # rest"] by (cases "DecodeCheckpoint c e") auto
  qed
qed simp

lemma replay_clone: "es \<noteq> [] \<Longrightarrow> replay c (CloneMessages ms) es = replay c ms es"
  by (cases es) simp_all

lemma replay_projected:
  "bind_result (replay c ms (filter projected es)) (\<lambda>ms. Inr (CloneMessages ms)) =
   bind_result (replay c ms es) (\<lambda>ms. Inr (CloneMessages ms))"
proof (induction es arbitrary: ms)
  case (Cons e es)
  show ?case
  proof (cases "projected e")
    case True
    then show ?thesis using Cons.IH by (cases "branchMessagesAfterEntry c ms e") simp_all
  next
    case False
    have "bind_result (replay c (CloneMessages ms) es) (\<lambda>ms. Inr (CloneMessages ms)) =
        bind_result (replay c ms es) (\<lambda>ms. Inr (CloneMessages ms))"
      by (cases "es = []") (simp_all add: replay_clone)
    then show ?thesis using False Cons.IH by (simp add: not_projected_after)
  qed
qed simp

lemma BranchMessages_projected: "BranchMessages c (filter projected b) = BranchMessages c b"
  using scan_projected [of c "rev b" "[]"] replay_projected
  by (cases "scan_snapshot c (rev b) []") (auto simp: BranchMessages_def rev_filter)

text \<open>Entries that were loaded are entries of the branch at their index.\<close>

definition loaded_from :: "tj_entry list \<Rightarrow> (nat \<times> tj_entry) list \<Rightarrow> bool" where
  "loaded_from b loaded \<longleftrightarrow> (\<forall>k e. map_of loaded k = Some e \<longrightarrow> k < length b \<and> e = b ! k)"

lemma inspect_scan_branch:
  assumes loads: "\<forall>e\<in>set b. rdLoadEntry store i (teID e) = Some (Inr e)"
    and "n \<le> length b" "loaded_from b loaded"
  shows "(\<exists>e. inspect_scan c store i (map inspection_of b) n loaded = Some (Inl e) \<and>
            (\<forall>rest. scan_snapshot c (rev (take n b)) rest = Inl e)) \<or>
         (\<exists>start loaded'. inspect_scan c store i (map inspection_of b) n loaded = Some (Inr (start, loaded')) \<and>
            loaded_from b loaded' \<and> start \<le> n \<and>
            (\<forall>rest. scan_snapshot c (rev (take n b)) rest = scan_snapshot c (rev (drop start (take n b))) rest))"
  using assms(2,3)
proof (induction n arbitrary: loaded)
  case (Suc n)
  let ?e = "b ! n"
  have n: "n < length b" "take (Suc n) b = take n b @ [?e]" "rdLoadEntry store i (teID ?e) = Some (Inr ?e)"
    using Suc.prems by (simp_all add: take_Suc_conv_app_nth loads)
  have dr: "drop start (take (Suc n) b) = drop start (take n b) @ [?e]" if "start \<le> n" for start
    using that n by simp
  have up: "loaded_from b (AList.update n ?e loaded)"
    using Suc.prems(2) n(1) by (auto simp: loaded_from_def update_conv)
  show ?case
  proof (cases "teKind ?e = KindCheckpoint")
    case False
    then show ?thesis
      using Suc.IH [of loaded] Suc.prems n dr by (auto simp: le_Suc_eq)
  next
    case cp: True
    show ?thesis
    proof (cases "DecodeCheckpoint c ?e")
      case (Inl err)
      then show ?thesis using cp n by (auto simp: Let_def)
    next
      case (Inr k)
      show ?thesis
      proof (cases "ckMessageMode k = CheckpointMessagesSnapshot")
        case True
        then show ?thesis using Inr cp n up dr [of n] by (auto simp: Let_def)
      next
        case False
        then show ?thesis
          using Suc.IH [OF _ up] Suc.prems(1) Inr cp n dr by (auto simp: Let_def le_Suc_eq)
      qed
    qed
  qed
qed simp

lemma inspect_entries_branch:
  assumes loads: "\<forall>e\<in>set b. rdLoadEntry store i (teID e) = Some (Inr e)" and l: "loaded_from b loaded"
  shows "start \<le> length b \<Longrightarrow> inspect_entries store i loaded start (map inspection_of (drop start b)) =
     Some (Inr (filter projected (drop start b)))"
proof (induction "length b - start" arbitrary: start)
  case (Suc n)
  then have s: "start < length b" "drop start b = b ! start # drop (Suc start) b"
    by (simp_all add: Cons_nth_drop_Suc)
  have "inspect_entries store i loaded (Suc start) (map inspection_of (drop (Suc start) b)) =
      Some (Inr (filter projected (drop (Suc start) b)))"
    using Suc s(1) by simp
  moreover have "(case map_of loaded start of Some entry \<Rightarrow> Some (Inr entry)
      | None \<Rightarrow> rdLoadEntry store i (ipID (inspection_of (b ! start)))) = Some (Inr (b ! start))"
    using l loads s(1) by (auto simp: loaded_from_def split: option.split)
  ultimately show ?case
    unfolding s(2) by (simp add: projected_def del: inspection_of_simps(1))
qed simp

lemma LoadInspected_branch:
  assumes loads: "\<forall>e\<in>set b. rdLoadEntry store i (teID e) = Some (Inr e)" and "i \<noteq> []"
  shows "LoadInspectedBranchMessages c (Some store) i (map inspection_of b) = Some (BranchMessages c b)"
proof -
  have "loaded_from b []" by (simp add: loaded_from_def)
  from inspect_scan_branch [OF loads order_refl this, of c] show ?thesis
  proof (elim disjE exE conjE)
    fix e assume "inspect_scan c store i (map inspection_of b) (length b) [] = Some (Inl e)"
      "\<forall>rest. scan_snapshot c (rev (take (length b) b)) rest = Inl e"
    then show ?thesis using assms(2) by (simp add: LoadInspectedBranchMessages_def BranchMessages_def)
  next
    fix start loaded
    assume s: "inspect_scan c store i (map inspection_of b) (length b) [] = Some (Inr (start, loaded))"
      "loaded_from b loaded" "start \<le> length b"
      "\<forall>rest. scan_snapshot c (rev (take (length b) b)) rest = scan_snapshot c (rev (drop start (take (length b) b))) rest"
    then have "BranchMessages c (drop start b) = BranchMessages c b" by (simp add: BranchMessages_def)
    then show ?thesis
      using s assms(2) inspect_entries_branch [OF loads s(2,3)]
      by (simp add: LoadInspectedBranchMessages_def BranchMessages_projected flip: drop_map)
  qed
qed

section \<open>What the store promises\<close>

text \<open>The conversation of a branch: the projection of the entries that the store returns for its head.\<close>

definition conversation :: "checkpoint_codec \<Rightarrow> reader \<Rightarrow> string \<Rightarrow> string \<Rightarrow> message list \<Rightarrow> bool" where
  "conversation c store i head ms \<longleftrightarrow> (if head = [] then ms = []
     else \<exists>b. rdLoadBranch store i head = Some (Inr b) \<and> BranchMessages c b = Inr ms)"

lemma BranchMessages_owned: "BranchMessages c b = Inr ms \<Longrightarrow> CloneMessages ms = ms"
  by (auto simp: BranchMessages_def result_simps)

lemma conversation_owned: "conversation c store i head ms \<Longrightarrow> CloneMessages ms = ms"
  by (auto simp: conversation_def BranchMessages_owned split: if_splits)

lemma BranchMessages_prefix:
  assumes "BranchMessages c (b @ [e]) = Inr ms" "teKind e \<noteq> KindCheckpoint"
  shows "\<exists>ms0. BranchMessages c b = Inr ms0"
  using assms scan_further [of e c "rev b"]
  by (auto simp: BranchMessages_def result_simps replay_append)

locale branch_reader =
  fixes ok :: "'s \<Rightarrow> bool" and rd :: "'s \<Rightarrow> reader"
  assumes entry_ends_branch: "ok s \<Longrightarrow> rdLoadEntry (rd s) i x = Some (Inr e) \<Longrightarrow>
      teID e = x \<and> x \<noteq> [] \<and> (\<exists>b. rdLoadBranch (rd s) i x = Some (Inr (b @ [e])) \<and>
        (if teParentID e = [] then b = [] else rdLoadBranch (rd s) i (teParentID e) = Some (Inr b)))"
    and branch_loads: "ok s \<Longrightarrow> rdLoadBranch (rd s) i h = Some (Inr b) \<Longrightarrow>
      i \<noteq> [] \<and> (\<forall>e\<in>set b. rdLoadEntry (rd s) i (teID e) = Some (Inr e))"
    and latest_loads: "ok s \<Longrightarrow> rdFindLatest (rd s) i h k = Some (Inr (Some e)) \<Longrightarrow>
      teKind e = k \<and> rdLoadEntry (rd s) i (teID e) = Some (Inr e)"
    and index_of_branch: "ok s \<Longrightarrow> rdInspect (rd s) = Some f \<Longrightarrow> f i h = Some (Inr (m, index)) \<Longrightarrow>
      \<exists>b. rdLoadBranch (rd s) i h = Some (Inr b) \<and> index = map inspection_of b"
    and reads_return: "ok s \<Longrightarrow> returns (rdLoadEntry (rd s) i x) \<and> returns (rdLoadBranch (rd s) i x) \<and>
      returns (rdFindLatest (rd s) i x k) \<and> (\<forall>f. rdInspect (rd s) = Some f \<longrightarrow> returns (f i x))"
begin

lemma inspected_branch:
  assumes "ok s" "rdLoadBranch (rd s) i h = Some (Inr b)"
  shows "LoadInspectedBranchMessages c (Some (rd s)) i (map inspection_of b) = Some (BranchMessages c b)"
  using LoadInspected_branch [of b "rd s" i c] branch_loads [OF assms] by blast

lemma loaded_conversation:
  assumes "ok s" "LoadBranchMessages c (rd s) i h = Some (Inr ms)"
  shows "conversation c (rd s) i h ms"
proof (cases "h = [] \<or> rdInspect (rd s) = None")
  case True
  then show ?thesis
    using assms(2) by (auto simp: LoadBranchMessages_def conversation_def bind_outcome_Some_Inr split: if_splits)
next
  case False
  then obtain f m index where f: "rdInspect (rd s) = Some f" "f i h = Some (Inr (m, index))"
    "LoadInspectedBranchMessages c (Some (rd s)) i index = Some (Inr ms)"
    using assms(2) by (auto simp: LoadBranchMessages_def bind_outcome_Some_Inr)
  obtain b where b: "rdLoadBranch (rd s) i h = Some (Inr b)" "index = map inspection_of b"
    using index_of_branch [OF assms(1) f(1,2)] by blast
  then show ?thesis using f(3) inspected_branch [OF assms(1) b(1), of c] False by (simp add: conversation_def)
qed

lemma hydrated_conversation:
  assumes "ok s" "rdLoadEntry (rd s) i x = Some (Inr e)" "teKind e = KindCheckpoint" "DecodeCheckpoint c e = Inr cp"
    and "HydrateCheckpointMessages c (rd s) i e (Some cp) = Some (Inr k)"
  shows "conversation c (rd s) i x (Messages k) \<and> k \<noteq> None"
proof (cases "ckMessageMode cp = CheckpointMessagesBranch")
  case True
  then obtain ms where ms: "LoadBranchMessages c (rd s) i (teID e) = Some (Inr ms)" "k = Some (cp\<lparr>ckMessages := ms\<rparr>)"
    using assms(5) by (auto simp: HydrateCheckpointMessages_def bind_outcome_Some_Inr)
  have "teID e = x" using entry_ends_branch [OF assms(1,2)] by simp
  then have "conversation c (rd s) i x ms" using loaded_conversation [OF assms(1) ms(1)] by simp
  then show ?thesis using ms(2) conversation_owned by (fastforce simp: Messages_def)
next
  case False
  then have k: "k = Some cp" "ckMessageMode cp = CheckpointMessagesSnapshot"
    using assms(5) DecodeCheckpoint_mode [OF assms(4)] by (auto simp: HydrateCheckpointMessages_def)
  obtain b where "rdLoadBranch (rd s) i x = Some (Inr (b @ [e]))" "x \<noteq> []"
    using entry_ends_branch [OF assms(1,2)] by blast
  then show ?thesis
    using BranchMessages_snapshot [OF assms(3,4) k(2), of b] k(1) by (simp add: conversation_def)
qed

lemma latest_checkpoint:
  assumes "ok s" "LatestCheckpoint c (rd s) m = Some (Inr (entry, k))"
  shows "teID entry = tmCheckpoint m \<and> conversation c (rd s) (tmID m) (teID entry) (Messages k) \<and>
    (k = None \<longleftrightarrow> teID entry = [])"
proof (cases "tmCheckpoint m = []")
  case True
  then show ?thesis using assms(2) by (auto simp: LatestCheckpoint_def no_entry_def conversation_def Messages_def)
next
  case False
  then obtain cp where cp: "rdLoadEntry (rd s) (tmID m) (tmCheckpoint m) = Some (Inr entry)" "teKind entry = KindCheckpoint"
    "DecodeCheckpoint c entry = Inr cp" "HydrateCheckpointMessages c (rd s) (tmID m) entry (Some cp) = Some (Inr k)"
    using assms(2) by (auto simp: LatestCheckpoint_def bind_outcome_Some_Inr split: if_splits)
  show ?thesis
    using hydrated_conversation [OF assms(1) cp] entry_ends_branch [OF assms(1) cp(1)] by simp
qed

text \<open>The conversation that a session resumes with.\<close>

lemma resume_conversation:
  assumes "ok s" "LoadSessionResumeBase c (rd s) m = Some (Inr base)"
  shows "\<exists>ms. conversation c (rd s) (tmID m) (bbHead (srBranchBase base)) ms \<and>
    (case terminalExecutionResumeHead m of
       Some h \<Rightarrow> bbHead (srBranchBase base) = h \<and> bbMessages (srBranchBase base) = ms
     | None \<Rightarrow>
         if tmParentID m \<noteq> [] \<and> srCheckpoint base = None
         then bbHead (srBranchBase base) = tmParentEntryID m \<and>
           bbMessages (srBranchBase base) = CloseUnresolvedToolCalls ms ForkToolResultPlaceholder
         else bbHead (srBranchBase base) = tmCheckpoint m \<and> bbMessages (srBranchBase base) = ms)"
proof -
  obtain entry k where k: "LatestCheckpoint c (rd s) m = Some (Inr (entry, k))"
    using assms(2) by (auto simp: LoadSessionResumeBase_def bind_outcome_Some_Inr)
  note entry = latest_checkpoint [OF assms(1) k]
  obtain h keep where h: "sessionResumeBranchHead m entry = (h, keep)" by (cases "sessionResumeBranchHead m entry")
  have base: "if h \<noteq> teID entry \<or> \<not> keep
      then \<exists>ms. LoadBranchMessages c (rd s) (tmID m) h = Some (Inr ms) \<and> bbHead (srBranchBase base) = h \<and>
        bbMessages (srBranchBase base) = (if keep then ms else CloseUnresolvedToolCalls ms ForkToolResultPlaceholder)
      else bbHead (srBranchBase base) = teID entry \<and> bbMessages (srBranchBase base) = Messages k"
    using assms(2) h
    by (auto simp: LoadSessionResumeBase_def k LoadBranchBase_def bind_outcome_Some_Inr
        split: if_splits option.splits sum.splits)
  have cp: "srCheckpoint base = (if keep then k else None)"
    using assms(2) h
    by (cases keep) (auto simp: LoadSessionResumeBase_def k Let_def bind_outcome_Some_Inr
        split: if_splits option.splits sum.splits)
  have "\<exists>ms. conversation c (rd s) (tmID m) h ms \<and> bbHead (srBranchBase base) = h \<and>
      bbMessages (srBranchBase base) = (if keep then ms else CloseUnresolvedToolCalls ms ForkToolResultPlaceholder)"
  proof (cases "h \<noteq> teID entry \<or> \<not> keep")
    case True
    then show ?thesis unfolding if_P [OF True] using base loaded_conversation [OF assms(1)] by (metis (full_types))
  next
    case False
    then show ?thesis using base entry by (intro exI [of _ "Messages k"]) auto
  qed
  then show ?thesis
    using h cp entry
    by (auto simp: sessionResumeBranchHead_def trajectoryOwnsEntry_def split: option.splits if_splits)
qed

text \<open>The conversation that an execution is replayed on.\<close>

lemma execution_checkpoint:
  assumes "ok s" "LatestExecutionCheckpoint c (rd s) m = Some (Inr (entry, k, found))" "tmExecution m = Some x"
  shows "if found then conversation c (rd s) (tmID m) (teID entry) (Messages k) \<and> k \<noteq> None \<and>
      tfExecutionID (teFields entry) = txID x \<and>
      rdFindLatest (rd s) (tmID m) (tmHead m) KindCheckpoint = Some (Inr (Some entry))
    else k = None"
proof (cases found)
  case True
  then obtain cp where cp: "rdFindLatest (rd s) (tmID m) (tmHead m) KindCheckpoint = Some (Inr (Some entry))"
    "DecodeCheckpoint c entry = Inr cp" "HydrateCheckpointMessages c (rd s) (tmID m) entry (Some cp) = Some (Inr k)"
    "tfExecutionID (teFields entry) = txID x"
    using assms(2,3) by (auto simp: LatestExecutionCheckpoint_def bind_outcome_Some_Inr split: if_splits option.splits)
  show ?thesis
    using hydrated_conversation [OF assms(1) _ _ cp(2,3)] latest_loads [OF assms(1) cp(1)] cp(1,4) True by auto
next
  case False
  then show ?thesis
    using assms(2) by (auto simp: LatestExecutionCheckpoint_def bind_outcome_Some_Inr split: if_splits option.splits)
qed

lemma accepted_input:
  assumes "ok s" "LoadAcceptedExecutionInput c (rd s) i h entry = Some (Inr (base, msg))"
    and "rdLoadEntry (rd s) i (teID entry) = Some (Inr entry)" "teParentID entry = h"
    and "conversation c (rd s) i (teID entry) ms"
  shows "ms = base @ [msg]"
proof -
  obtain input where input: "DecodeExecutionInput c entry = Inr input"
    using assms(2) by (auto simp: LoadAcceptedExecutionInput_def bind_outcome_Some_Inr)
  then have user: "teKind entry = KindUserMessage" and own: "CloneMessage (diMessage input) = diMessage input"
    by (auto simp: DecodeExecutionInput_def Let_def result_simps split: if_splits sum.splits)
  obtain b where b: "rdLoadBranch (rd s) i (teID entry) = Some (Inr (b @ [entry]))" "teID entry \<noteq> []"
    "if teParentID entry = [] then b = [] else rdLoadBranch (rd s) i (teParentID entry) = Some (Inr b)"
    using entry_ends_branch [OF assms(1,3)] by blast
  then have ms: "BranchMessages c (b @ [entry]) = Inr ms" using assms(5) by (simp add: conversation_def)
  then obtain ms0 where ms0: "BranchMessages c b = Inr ms0" using BranchMessages_prefix [OF ms] user by auto
  have "ms = MessagesAfter input ms0"
    using BranchMessages_snoc [OF ms0, of entry] ms user input by (simp add: branchMessagesAfterEntry_def)
  moreover have "conversation c (rd s) i h base" "base = ms0" if "\<not> diHasEnvelope input"
  proof -
    show "conversation c (rd s) i h base"
      using assms(2) that input loaded_conversation [OF assms(1)]
      by (auto simp: LoadAcceptedExecutionInput_def bind_outcome_Some_Inr conversation_def split: if_splits)
    then show "base = ms0" using b(3) ms0 assms(4) by (auto simp: conversation_def split: if_splits)
  qed
  ultimately show ?thesis
    using assms(2) input own BranchMessages_owned [OF ms0]
    by (cases "diHasEnvelope input")
      (auto simp: MessagesAfter_def LoadAcceptedExecutionInput_def bind_outcome_Some_Inr split: if_splits)
qed

lemma recovery_conversation:
  assumes "ok s" "LoadExecutionRecoveryBase c (rd s) m input = Some (Inr base)" "tmExecution m = Some x"
    and "rdLoadEntry (rd s) (tmID m) (teID input) = Some (Inr input)" "teParentID input = txBaseHead x"
  shows "(xrCheckpoint base \<noteq> None \<longrightarrow> conversation c (rd s) (tmID m) (xrHead base) (xrMessages base) \<and>
      tfExecutionID (teFields (xrCheckpointEntry base)) = txID x \<and>
      rdFindLatest (rd s) (tmID m) (tmHead m) KindCheckpoint = Some (Inr (Some (xrCheckpointEntry base)))) \<and>
    (xrCheckpoint base = None \<longrightarrow> xrHead base = teID input \<and>
      (\<forall>ms. conversation c (rd s) (tmID m) (teID input) ms \<longrightarrow> ms = xrMessages base @ [xrMessage base]))"
proof -
  obtain entry k found where k: "LatestExecutionCheckpoint c (rd s) m = Some (Inr (entry, k, found))"
    and base: "if found then base = \<lparr>xrHead = teID entry, xrMessages = Messages k, xrMessage = no_message,
        xrCheckpointEntry = entry, xrCheckpoint = k\<rparr>
      else \<exists>ms msg. LoadAcceptedExecutionInput c (rd s) (tmID m) (txBaseHead x) input = Some (Inr (ms, msg)) \<and>
        base = \<lparr>xrHead = teID input, xrMessages = ms, xrMessage = msg, xrCheckpointEntry = no_entry, xrCheckpoint = None\<rparr>"
    using assms(2,3) by (auto simp: LoadExecutionRecoveryBase_def bind_outcome_Some_Inr split: if_splits)
  show ?thesis
    using execution_checkpoint [OF assms(1) k assms(3)] base accepted_input [OF assms(1) _ assms(4,5)]
    by (auto split: if_splits)
qed

text \<open>Every load returns.\<close>

lemma inspect_scan_returns: "ok s \<Longrightarrow> returns (inspect_scan c (rd s) i index n loaded)"
  by (induction n arbitrary: loaded) (auto simp: Let_def reads_return split: sum.split)

lemma inspect_entries_returns: "ok s \<Longrightarrow> returns (inspect_entries (rd s) i loaded n index)"
  by (induction index arbitrary: n) (auto simp: reads_return split: option.split)

lemma messages_return: "ok s \<Longrightarrow> returns (LoadBranchMessages c (rd s) i h)"
  by (auto simp: LoadBranchMessages_def LoadInspectedBranchMessages_def reads_return
      inspect_scan_returns inspect_entries_returns split: option.split prod.split)

lemma hydrate_returns: "ok s \<Longrightarrow> returns (HydrateCheckpointMessages c (rd s) i e k)"
  by (auto simp: HydrateCheckpointMessages_def messages_return split: option.split)

lemma resume_returns: "ok s \<Longrightarrow> returns (LoadSessionResumeBase c (rd s) m)"
proof -
  assume ok: "ok s"
  have "returns (LatestCheckpoint c (rd s) m)"
    using ok by (auto simp: LatestCheckpoint_def reads_return hydrate_returns)
  moreover have "returns (LoadBranchBase c (rd s) i h)" for i h
    using messages_return [OF ok] by (auto simp: LoadBranchBase_def)
  then have "LoadBranchBase c (rd s) i h \<noteq> None" for i h
    by (simp add: returns_def)
  ultimately show ?thesis
    by (auto simp: LoadSessionResumeBase_def Let_def simp del: not_None_eq split: option.split sum.split prod.split)
qed

lemma recovery_returns: "ok s \<Longrightarrow> returns (LoadExecutionRecoveryBase c (rd s) m input)"
proof -
  assume ok: "ok s"
  have "returns (LatestExecutionCheckpoint c (rd s) m)"
    using ok by (auto simp: LatestExecutionCheckpoint_def reads_return hydrate_returns split: option.split)
  moreover have "returns (LoadAcceptedExecutionInput c (rd s) i h input)" for i h
    using messages_return [OF ok] by (auto simp: LoadAcceptedExecutionInput_def)
  ultimately show ?thesis
    by (auto simp: LoadExecutionRecoveryBase_def split: option.split prod.split)
qed

end

section \<open>The in-memory store\<close>

definition memory_reader :: "ctx \<Rightarrow> tj_store \<Rightarrow> reader" where
  "memory_reader ctx s = \<lparr>rdLoadEntry = (\<lambda>i x. ts_LoadEntry ctx i x s), rdLoadBranch = (\<lambda>i h. ts_LoadBranch ctx i h s),
     rdFindLatest = (\<lambda>i h k. ts_FindLatest ctx i h k s), rdInspect = None\<rparr>"

lemma memory_reader_simps [simp]:
  "rdLoadEntry (memory_reader None s) i x = ts_LoadEntry None i x s"
  "rdLoadBranch (memory_reader None s) i h = branchLocked i h s"
  "rdFindLatest (memory_reader None s) i h k = ts_FindLatest None i h k s"
  "rdInspect (memory_reader None s) = None"
  by (simp_all add: memory_reader_def ts_LoadBranch_def)

lemma loaded_view:
  assumes "ts_inv s" "ts_LoadEntry None i x s = Some (Inr e)"
  obtains n L where "sees (tmap s) n i L" "L x = Some e"
proof -
  have "lookupLocked s i x = Some (Inr (Some e))"
    using assms(2) by (auto simp: ts_LoadEntry_def split: option.splits sum.splits)
  moreover from this obtain t where "tmap s i = Some t" using lookupLocked_found by blast
  then obtain n L where "sees (tmap s) n i L" by (rule ts_invD [OF assms(1)])
  ultimately show ?thesis using that lookupLocked_answers by (auto simp: answers_def)
qed

lemma view_entry_loads:
  assumes "ts_inv s" "sees (tmap s) n i L" "L x = Some e"
  shows "ts_LoadEntry None i x s = Some (Inr e)"
proof -
  obtain j t where t: "tmap s j = Some t" "map_of (mtEntries t) x = Some e" using sees_origin [OF assms(2,3)] by blast
  have "local_ok j t" by (rule ts_invD [OF assms(1) t(1)])
  then have "entry_ok j e" using t(2) by (auto simp: local_ok_def)
  moreover have "teID e = x" by (rule gradedD(1) [OF sees_graded [OF assms(2)] assms(3)])
  ultimately have "resourceNamePattern x" by (auto simp: entry_ok_def)
  then show ?thesis using assms(3) by (simp add: ts_LoadEntry_sees [OF assms(2)] ValidateResourceName_def)
qed

lemma memory_entry_ends_branch:
  assumes "ts_inv s" "ts_LoadEntry None i x s = Some (Inr e)"
  shows "teID e = x \<and> x \<noteq> [] \<and> (\<exists>b. branchLocked i x s = Some (Inr (b @ [e])) \<and>
    (if teParentID e = [] then b = [] else branchLocked i (teParentID e) s = Some (Inr b)))"
proof -
  obtain n L where v: "sees (tmap s) n i L" "L x = Some e" by (rule loaded_view [OF assms])
  note g = gradedD [OF sees_graded [OF v(1)] v(2)]
  obtain es where es: "chain L x es" using graded_chain_exists [OF sees_graded [OF v(1)]] v(2) by auto
  then obtain es' where es': "es = e # es'" "chain L (teParentID e) es'" using v(2) g(2) by (cases es) auto
  then have "branchLocked i x s = Some (Inr (rev es' @ [e]))" "branchLocked i (teParentID e) s = Some (Inr (rev es'))"
    using branchLocked_sees [OF v(1) es] branchLocked_sees [OF v(1) es'(2)] by simp_all
  moreover have "rev es' = []" if "teParentID e = []" using es'(2) that by (cases es') auto
  ultimately show ?thesis using g(1,2) by auto
qed

lemma memory_branch_loads:
  assumes "ts_inv s" "branchLocked i h s = Some (Inr b)"
  shows "i \<noteq> [] \<and> (\<forall>e\<in>set b. ts_LoadEntry None i (teID e) s = Some (Inr e))"
proof -
  obtain t where "tmap s i = Some t" using branchLocked_found [OF assms(2)] by blast
  then obtain n L where v: "sees (tmap s) n i L" by (rule ts_invD [OF assms(1)])
  obtain es where es: "chain L h es" "b = rev es" by (rule branchLocked_Inr [OF v assms(2)])
  have "ts_LoadEntry None i (teID e) s = Some (Inr e)" if "e \<in> set b" for e
    using view_entry_loads [OF assms(1) v] chain_mem [OF sees_graded [OF v] es(1)] that es(2) by simp
  moreover have "i \<noteq> []" using sees_name [OF v] by auto
  ultimately show ?thesis by blast
qed

lemma memory_latest:
  assumes "ts_inv s"
  shows "returns (findLatestLocked i h k s) \<and> (\<forall>e. findLatestLocked i h k s = Some (Inr (Some e)) \<longrightarrow>
    teKind e = k \<and> ts_LoadEntry None i (teID e) s = Some (Inr e))"
proof (cases "trajectoryLocked i s")
  case (Inl err)
  then show ?thesis by (simp add: findLatestLocked_def)
next
  case (Inr t)
  then have "tmap s i = Some t" by (simp add: trajectoryLocked_Inr)
  then obtain n L where v: "sees (tmap s) n i L" by (rule ts_invD [OF assms])
  note g = sees_graded [OF v] and a = lookupLocked_answers [OF v]
  show ?thesis
  proof (cases "h = [] \<or> L h \<noteq> None")
    case True
    then obtain es where es: "chain L h es" using graded_chain_exists [OF g] by blast
    have "findLatestLocked i h k s = Some (Inr (find (\<lambda>e. teKind e = k) es))"
      using LatestEntry_chain [OF a g es sees_chain_fuel [OF v es]] Inr by (simp add: findLatestLocked_def)
    then show ?thesis
      using view_entry_loads [OF assms v] chain_mem [OF g es] by (auto simp: find_Some_iff)
  next
    case False
    then have "LatestEntry (branch_fuel s) h k (lookupLocked s i) = Some (Inl (branchUnknownEntryError []))"
      using a unfolding LatestEntry_def branch_fuel_def by (subst walkBranch.simps) (simp add: answers_def)
    then show ?thesis using Inr by (simp add: findLatestLocked_def)
  qed
qed

lemma memory_returns:
  assumes "ts_inv s"
  shows "returns (ts_LoadEntry None i x s)" "returns (branchLocked i x s)" "returns (ts_FindLatest None i x k s)"
proof -
  show "returns (branchLocked i x s)" using branchLocked_total [OF assms] by (simp add: returns_def)
  show "returns (ts_FindLatest None i x k s)"
    using memory_latest [OF assms] by (auto simp: ts_FindLatest_def split: option.split)
  show "returns (ts_LoadEntry None i x s)"
  proof (cases "trajectoryLocked i s")
    case (Inl err)
    then show ?thesis
      by (auto simp: ts_LoadEntry_def lookupLocked_def fork_fuel_def split: option.split)
  next
    case (Inr t)
    then have "tmap s i = Some t" by (simp add: trajectoryLocked_Inr)
    then obtain n L where v: "sees (tmap s) n i L" by (rule ts_invD [OF assms])
    then show ?thesis by (auto simp: ts_LoadEntry_sees split: option.split)
  qed
qed

interpretation mem: branch_reader ts_inv "memory_reader None"
proof unfold_locales
  fix s i x e
  assume "ts_inv s" "rdLoadEntry (memory_reader None s) i x = Some (Inr e)"
  then show "teID e = x \<and> x \<noteq> [] \<and> (\<exists>b. rdLoadBranch (memory_reader None s) i x = Some (Inr (b @ [e])) \<and>
      (if teParentID e = [] then b = [] else rdLoadBranch (memory_reader None s) i (teParentID e) = Some (Inr b)))"
    unfolding memory_reader_simps by (rule memory_entry_ends_branch)
next
  fix s i h k e
  assume "ts_inv s" "rdFindLatest (memory_reader None s) i h k = Some (Inr (Some e))"
  then show "teKind e = k \<and> rdLoadEntry (memory_reader None s) i (teID e) = Some (Inr e)"
    using memory_latest [of s i h k] by (auto simp: ts_FindLatest_def split: option.splits)
qed (use memory_branch_loads memory_returns in auto)

section \<open>Properties\<close>

text \<open>
  C20: The projection from a payload-free index agrees with the projection from the entries:
  for every head of every trajectory, in every state that the operations of the store
  reach, fetching only the payloads that the index shows to be needed yields the same
  conversation or the same error as projecting the whole branch.
\<close>

theorem LoadInspectedBranchMessages_exact:
  assumes "run_ok cs newMemoryTrajectoryStore" "s = run_calls ts_step cs newMemoryTrajectoryStore"
    and "ts_LoadBranch None i head s = Some (Inr branch)"
  shows "LoadInspectedBranchMessages c (Some (memory_reader None s)) i (map inspection_of branch) =
    Some (BranchMessages c branch)"
  using mem.inspected_branch [of s i head branch c] ts_run_inv [OF ts_inv_new assms(1)] assms(2,3)
  by (simp add: ts_LoadBranch_def)

text \<open>
  C17: A session resumes with the conversation of the head it resumes from. The load always
  returns; when it succeeds, the head is the base of a failed or cancelled execution, the
  fork point of a fork that has no checkpoint of its own, or the recorded checkpoint, and
  the messages are the projection of the branch at that head, whether they come from a
  legacy snapshot, from a hydrated checkpoint or from the branch; for a fork point the
  parent's open tool calls are closed.
\<close>

theorem LoadSessionResumeBase_conversation:
  assumes "run_ok cs newMemoryTrajectoryStore" "s = run_calls ts_step cs newMemoryTrajectoryStore"
  shows "\<exists>result. LoadSessionResumeBase c (memory_reader None s) m = Some result \<and>
    (case result of Inl e \<Rightarrow> True | Inr base \<Rightarrow>
      \<exists>ms. conversation c (memory_reader None s) (tmID m) (bbHead (srBranchBase base)) ms \<and>
      (case terminalExecutionResumeHead m of
         Some h \<Rightarrow> bbHead (srBranchBase base) = h \<and> bbMessages (srBranchBase base) = ms
       | None \<Rightarrow>
           if tmParentID m \<noteq> [] \<and> srCheckpoint base = None
           then bbHead (srBranchBase base) = tmParentEntryID m \<and>
             bbMessages (srBranchBase base) = CloseUnresolvedToolCalls ms ForkToolResultPlaceholder
           else bbHead (srBranchBase base) = tmCheckpoint m \<and> bbMessages (srBranchBase base) = ms))"
proof -
  have inv: "ts_inv s" using ts_run_inv [OF ts_inv_new assms(1)] assms(2) by simp
  obtain result where r: "LoadSessionResumeBase c (memory_reader None s) m = Some result"
    using mem.resume_returns [OF inv, of c m] by (auto simp: returns_def)
  then show ?thesis using mem.resume_conversation [OF inv, of c m] by (cases result) auto
qed

theorem LoadSessionResumeBase_conversation_witness:
  "\<exists>m base. ts_LoadMetadata None ''alt'' tj_demo = Inr m \<and>
     LoadSessionResumeBase codec_demo (memory_reader None tj_demo) m = Some (Inr base) \<and>
     bbHead (srBranchBase base) = ''u1'' \<and> map mgContent (bbMessages (srBranchBase base)) = [''hello''] \<and>
     (\<exists>ms. conversation codec_demo (memory_reader None tj_demo) ''alt'' ''u1'' ms)"
proof -
  have "(case ts_LoadMetadata None ''alt'' tj_demo of Inl e \<Rightarrow> False | Inr m \<Rightarrow>
      tmID m = ''alt'' \<and>
      map_option (map_sum id (\<lambda>base. (bbHead (srBranchBase base), map mgContent (bbMessages (srBranchBase base)))))
        (LoadSessionResumeBase codec_demo (memory_reader None tj_demo) m) = Some (Inr (''u1'', [''hello''])))"
    by code_simp
  then obtain m base where m: "ts_LoadMetadata None ''alt'' tj_demo = Inr m" "tmID m = ''alt''"
    "LoadSessionResumeBase codec_demo (memory_reader None tj_demo) m = Some (Inr base)"
    "bbHead (srBranchBase base) = ''u1''" "map mgContent (bbMessages (srBranchBase base)) = [''hello'']"
    by (auto split: sum.splits elim!: map_option_SomeE map_sum_InrE)
  then show ?thesis
    using LoadSessionResumeBase_conversation [OF run_ok_demo tj_demo_def, of codec_demo m] by auto
qed

theorem LoadInspectedBranchMessages_exact_witness:
  "\<exists>branch. ts_LoadBranch None ''main'' ''t1'' tj_demo = Some (Inr branch) \<and> length branch = 3 \<and>
     LoadInspectedBranchMessages codec_demo (Some (memory_reader None tj_demo)) ''main'' (map inspection_of branch) =
       Some (BranchMessages codec_demo branch)"
proof -
  have "map_option (map_sum id length) (ts_LoadBranch None ''main'' ''t1'' tj_demo) = Some (Inr 3)"
    by code_simp
  then obtain branch where b: "ts_LoadBranch None ''main'' ''t1'' tj_demo = Some (Inr branch)" "length branch = 3"
    by (auto elim!: map_option_SomeE map_sum_InrE)
  then show ?thesis using LoadInspectedBranchMessages_exact [OF run_ok_demo tj_demo_def b(1)] by blast
qed

text \<open>
  C18: Recovering an execution replays exactly what was durable. The load always returns;
  when it succeeds with a checkpoint, the messages are the conversation at the latest
  checkpoint on the active branch, which belongs to the execution. Without one it starts at
  the accepted input, and whenever the branch projects there, the base messages followed by
  the input message are its conversation, for envelopes that carry their own base and for
  legacy inputs whose base is rebuilt from the execution's base head alike.
\<close>

theorem LoadExecutionRecoveryBase_conversation:
  assumes "run_ok cs newMemoryTrajectoryStore" "s = run_calls ts_step cs newMemoryTrajectoryStore"
    and "tmExecution m = Some x" "ts_LoadEntry None (tmID m) (txInputEntryID x) s = Some (Inr input)"
    and "teParentID input = txBaseHead x"
  shows "\<exists>result. LoadExecutionRecoveryBase c (memory_reader None s) m input = Some result \<and>
    (case result of Inl e \<Rightarrow> True | Inr base \<Rightarrow>
      if xrCheckpoint base \<noteq> None
      then conversation c (memory_reader None s) (tmID m) (xrHead base) (xrMessages base) \<and>
        tfExecutionID (teFields (xrCheckpointEntry base)) = txID x \<and>
        ts_FindLatest None (tmID m) (tmHead m) KindCheckpoint s = Some (Inr (Some (xrCheckpointEntry base)))
      else xrHead base = txInputEntryID x \<and>
        (\<forall>ms. conversation c (memory_reader None s) (tmID m) (xrHead base) ms \<longrightarrow>
          ms = xrMessages base @ [xrMessage base]))"
proof -
  have inv: "ts_inv s" using ts_run_inv [OF ts_inv_new assms(1)] assms(2) by simp
  have input: "teID input = txInputEntryID x" using memory_entry_ends_branch [OF inv assms(4)] by simp
  obtain result where r: "LoadExecutionRecoveryBase c (memory_reader None s) m input = Some result"
    using mem.recovery_returns [OF inv, of c m input] by (auto simp: returns_def)
  show ?thesis
  proof (cases result)
    case (Inr base)
    have load: "rdLoadEntry (memory_reader None s) (tmID m) (teID input) = Some (Inr input)"
      using assms(4) input by simp
    have "LoadExecutionRecoveryBase c (memory_reader None s) m input = Some (Inr base)" using r Inr by simp
    from mem.recovery_conversation [OF inv this assms(3) load assms(5)] show ?thesis
      unfolding r Inr using input by simp
  qed (use r in simp)
qed

definition started_demo :: tj_store where
  "started_demo = run_calls ts_step (take 2 tj_calls_demo) newMemoryTrajectoryStore"

lemma run_ok_started: "run_ok (take 2 tj_calls_demo) newMemoryTrajectoryStore"
  by (simp add: run_ok_def tj_calls_demo_def newMemoryTrajectoryStore_def store_ids_def new_demo_def)

theorem LoadExecutionRecoveryBase_conversation_witness:
  "\<exists>m x input base. ts_LoadMetadata None ''main'' started_demo = Inr m \<and> tmExecution m = Some x \<and>
     LoadExecutionRecoveryBase codec_demo (memory_reader None started_demo) m input = Some (Inr base) \<and>
     xrHead base = ''u1'' \<and> xrMessages base = [] \<and> mgContent (xrMessage base) = ''hello'' \<and>
     (\<forall>ms. conversation codec_demo (memory_reader None started_demo) ''main'' ''u1'' ms \<longrightarrow> ms = [xrMessage base])"
proof -
  have "map_sum id (\<lambda>m. (tmID m, map_option (\<lambda>x. (txInputEntryID x, txBaseHead x)) (tmExecution m)))
      (ts_LoadMetadata None ''main'' started_demo) = Inr (''main'', Some (''u1'', []))"
    by code_simp
  then obtain m x where m: "ts_LoadMetadata None ''main'' started_demo = Inr m" "tmID m = ''main''"
    "tmExecution m = Some x" "txInputEntryID x = ''u1''" "txBaseHead x = []"
    by (auto elim!: map_option_SomeE map_sum_InrE)
  have "map_option (map_sum id teParentID) (ts_LoadEntry None ''main'' ''u1'' started_demo) = Some (Inr [])"
    by code_simp
  then obtain input where input: "ts_LoadEntry None ''main'' ''u1'' started_demo = Some (Inr input)" "teParentID input = []"
    by (auto elim!: map_option_SomeE map_sum_InrE)
  have "map_option (map_sum id (\<lambda>base. (xrHead base, xrMessages base, mgContent (xrMessage base), xrCheckpoint base = None)))
      (case ts_LoadMetadata None ''main'' started_demo of Inl e \<Rightarrow> None | Inr m \<Rightarrow>
        bind_outcome (ts_LoadEntry None ''main'' ''u1'' started_demo)
          (\<lambda>input. LoadExecutionRecoveryBase codec_demo (memory_reader None started_demo) m input)) =
      Some (Inr (''u1'', [], ''hello'', True))"
    by code_simp
  then obtain base where base: "LoadExecutionRecoveryBase codec_demo (memory_reader None started_demo) m input = Some (Inr base)"
    "xrHead base = ''u1''" "xrMessages base = []" "mgContent (xrMessage base) = ''hello''" "xrCheckpoint base = None"
    unfolding m input by (auto elim!: map_option_SomeE map_sum_InrE)
  have load: "ts_LoadEntry None (tmID m) (txInputEntryID x) started_demo = Some (Inr input)" "teParentID input = txBaseHead x"
    using input m by simp_all
  show ?thesis
    using LoadExecutionRecoveryBase_conversation [OF run_ok_started started_demo_def m(3) load, of codec_demo] base m
    by (intro exI conjI) auto
qed

end
