(* ===== verification/Context_Queue.thy ===== *)
theory Context_Queue
  imports Context_Injections
begin

text \<open>
  The context injection store refines a queue: \<open>ci_queue\<close> is the list of the stored
  injections in the order in which they were accepted, and every operation is one on this
  list. The contract of the queue is the locale \<open>injection_queue\<close>; its clients are the
  drains of the runtime.
\<close>

section \<open>The contract\<close>

locale injection_queue =
  fixes inv :: "'s \<Rightarrow> bool"
    and queue :: "'s \<Rightarrow> context_injection list"
    and add :: "context_injection list \<Rightarrow> 's \<Rightarrow> 's"
    and remove :: "string list \<Rightarrow> 's \<Rightarrow> 's"
    and room :: "'s \<Rightarrow> nat \<Rightarrow> bool"
  assumes ids_distinct: "inv s \<Longrightarrow> distinct (map ciID (queue s))"
    and add_queue: "inv s \<Longrightarrow> \<forall>x\<in>set xs. ci_normal x \<and> gm_wf (ciAttributes x) \<Longrightarrow> distinct (map ciID xs) \<Longrightarrow>
      room s (length xs) \<Longrightarrow>
      inv (add xs s) \<and> queue (add xs s) = queue s @ filter (\<lambda>x. ciID x \<notin> ciID ` set (queue s)) xs"
    and remove_queue: "inv s \<Longrightarrow> inv (remove ids s) \<and> queue (remove ids s) = filter (\<lambda>x. ciID x \<notin> set ids) (queue s)"
begin

text \<open>What was accepted once and not removed stays in the queue, in its place.\<close>

lemma add_keeps:
  assumes "inv s" "\<forall>x\<in>set xs. ci_normal x \<and> gm_wf (ciAttributes x)" "distinct (map ciID xs)" "room s (length xs)"
  shows "filter (\<lambda>x. x \<in> set (queue s)) (queue (add xs s)) = queue s"
proof -
  have "filter (\<lambda>x. x \<in> set (queue s)) (filter (\<lambda>x. ciID x \<notin> ciID ` set (queue s)) xs) = []"
    by (auto simp: filter_empty_conv)
  then show ?thesis using add_queue [OF assms] by simp
qed

text \<open>Adding the same again changes nothing.\<close>

lemma add_again:
  assumes "inv s" "\<forall>x\<in>set xs. ci_normal x \<and> gm_wf (ciAttributes x)" "distinct (map ciID xs)"
    and "room s (length xs)" "room (add xs s) (length xs)"
  shows "queue (add xs (add xs s)) = queue (add xs s)"
proof -
  have "filter (\<lambda>x. ciID x \<notin> ciID ` set (queue (add xs s))) xs = []"
    using add_queue [OF assms(1-4)] by (auto simp: filter_empty_conv)
  then show ?thesis using add_queue [OF conjunct1 [OF add_queue [OF assms(1-4)]] assms(2,3,5)] by simp
qed

text \<open>A removed injection does not come back unless it is added again.\<close>

lemma removed_gone:
  assumes "inv s" "x \<in> set (queue (remove ids s))"
  shows "ciID x \<notin> set ids \<and> x \<in> set (queue s)"
  using remove_queue [OF assms(1)] assms(2) by auto

end

section \<open>The store is a queue\<close>

definition ci_room :: "ci_store \<Rightarrow> nat \<Rightarrow> bool" where
  "ci_room s n \<longleftrightarrow> unat (cjNextSequence s) + n < 2 ^ 64"

lemma ci_inv_mem:
  assumes "ci_inv s"
  shows "map_of (cjInjections s) k = Some r \<longleftrightarrow> r \<in> set (map snd (cjInjections s)) \<and> ciID (crInjection r) = k"
proof -
  have "map_of (cjInjections s) k = Some r \<longleftrightarrow> (k, r) \<in> set (cjInjections s)"
    using gm_mem_iff assms by (metis ci_inv_def)
  also have "\<dots> \<longleftrightarrow> r \<in> set (map snd (cjInjections s)) \<and> ciID (crInjection r) = k"
    using assms by (force simp: ci_inv_def)
  finally show ?thesis .
qed

lemma set_SortRecords [simp]: "set (SortRecords rs) = set rs"
  by (simp add: SortRecords_def)

lemma ci_queue_ids:
  assumes "ci_inv s"
  shows "ciID ` set (ci_queue s) = dom (map_of (cjInjections s))"
  using ci_inv_mem [OF assms] by (auto simp: ci_queue_def image_image)

lemma update_fresh: "k \<notin> fst ` set m \<Longrightarrow> AList.update k v m = m @ [(k, v)]"
  by (induction m) auto

lemma ci_add_fresh:
  assumes "ci_inv s" "ci_normal x" "gm_wf (ciAttributes x)" "ci_room s 1" "map_of (cjInjections s) (ciID x) = None"
  shows "ci_inv (ci_add x s)" "ci_queue (ci_add x s) = ci_queue s @ [x]"
    "unat (cjNextSequence (ci_add x s)) = Suc (unat (cjNextSequence s))"
proof -
  let ?n = "cjNextSequence s + 1"
  let ?r = "\<lparr>crSequence = ?n, crInjection = x\<rparr>"
  have n: "unat ?n = Suc (unat (cjNextSequence s))" "?n \<noteq> 0"
    using assms(4) u64_succ [of "cjNextSequence s" 1] u64_room [of "cjNextSequence s" 1] by (simp_all add: ci_room_def)
  have fresh: "ciID x \<notin> fst ` set (cjInjections s)" using assms(5) by (simp add: map_of_eq_None_iff)
  have clone: "CloneContextInjection x = x" using assms(2) by (simp add: ci_normal_def)
  have add: "ci_add x s = s\<lparr>cjNextSequence := ?n, cjInjections := cjInjections s @ [(ciID x, ?r)]\<rparr>"
    using assms(5) update_fresh [OF fresh] by (simp add: ci_add_def Let_def clone)
  have less: "crSequence r < ?n" if "r \<in> snd ` set (cjInjections s)" for r
  proof -
    have "crSequence r \<le> cjNextSequence s" using assms(1) that by (auto simp: ci_inv_def)
    then have "unat (crSequence r) \<le> unat (cjNextSequence s)" by (simp add: word_le_nat_alt)
    then show ?thesis using n(1) by (simp add: word_less_nat_alt)
  qed
  have "?n \<notin> crSequence ` snd ` set (cjInjections s)" using less by fastforce
  moreover have "crSequence r \<le> ?n" if "r \<in> snd ` set (cjInjections s)" for r
    using less [OF that] by simp
  ultimately show "ci_inv (ci_add x s)"
    using assms(1-3) n(2) fresh unfolding add ci_inv_def by (auto simp: image_image) fastforce+
  have "SortRecords (map snd (cjInjections s) @ [?r]) = SortRecords (map snd (cjInjections s)) @ [?r]"
    by (rule SortRecords_last) (use assms(1) less in \<open>auto simp: ci_inv_def\<close>)
  then show "ci_queue (ci_add x s) = ci_queue s @ [x]" by (simp add: ci_queue_def add)
  show "unat (cjNextSequence (ci_add x s)) = Suc (unat (cjNextSequence s))" using n(1) by (simp add: add)
qed

lemma ci_add_known: "map_of (cjInjections s) (ciID x) \<noteq> None \<Longrightarrow> ci_add x s = s"
  by (simp add: ci_add_def)

lemma ci_add_all:
  assumes "ci_inv s" "\<forall>x\<in>set xs. ci_normal x \<and> gm_wf (ciAttributes x)" "distinct (map ciID xs)" "ci_room s (length xs)"
  shows "ci_inv (fold ci_add xs s) \<and>
    ci_queue (fold ci_add xs s) = ci_queue s @ filter (\<lambda>x. ciID x \<notin> ciID ` set (ci_queue s)) xs \<and>
    unat (cjNextSequence (fold ci_add xs s)) \<le> unat (cjNextSequence s) + length xs"
  using assms
proof (induction xs arbitrary: s)
  case (Cons x xs)
  show ?case
  proof (cases "map_of (cjInjections s) (ciID x)")
    case None
    have room: "ci_room s 1" using Cons.prems(4) by (simp add: ci_room_def)
    have x: "ci_normal x" "gm_wf (ciAttributes x)" using Cons.prems(2) by auto
    note add = ci_add_fresh [OF Cons.prems(1) x room None]
    have fresh: "ciID x \<notin> ciID ` set (ci_queue s)" using None ci_queue_ids [OF Cons.prems(1)] by auto
    have "ci_room (ci_add x s) (length xs)" using Cons.prems(4) add(3) by (simp add: ci_room_def)
    then have ih: "ci_inv (fold ci_add xs (ci_add x s))"
      "ci_queue (fold ci_add xs (ci_add x s)) = ci_queue s @ [x] @ filter (\<lambda>y. ciID y \<notin> ciID ` set (ci_queue s @ [x])) xs"
      "unat (cjNextSequence (fold ci_add xs (ci_add x s))) \<le> Suc (unat (cjNextSequence s)) + length xs"
      using Cons.IH [OF add(1)] Cons.prems(2,3) add(2,3) by auto
    have "filter (\<lambda>y. ciID y \<notin> ciID ` set (ci_queue s @ [x])) xs = filter (\<lambda>y. ciID y \<notin> ciID ` set (ci_queue s)) xs"
      using Cons.prems(3) by (intro filter_cong) (auto simp: image_iff)
    then show ?thesis using ih fresh by simp
  next
    case (Some r)
    then have "ciID x \<in> ciID ` set (ci_queue s)" using ci_queue_ids [OF Cons.prems(1)] by auto
    then show ?thesis
      using Cons.IH [OF Cons.prems(1)] Cons.prems(2-4) ci_add_known [of s x] Some by (simp add: ci_room_def)
  qed
qed simp

lemma fold_delete: "fold AList.delete ks m = filter (\<lambda>p. fst p \<notin> set ks) m"
proof (induction ks arbitrary: m)
  case (Cons k ks)
  have "AList.delete k m = filter (\<lambda>p. fst p \<noteq> k) m" by (auto simp: AList.delete_eq intro: filter_cong)
  then show ?case by (simp add: Cons conj_commute)
qed simp

definition ci_remove :: "string list \<Rightarrow> ci_store \<Rightarrow> ci_store" where
  "ci_remove ids s = s\<lparr>cjInjections := fold AList.delete ids (cjInjections s)\<rparr>"

lemma ci_remove_queue:
  assumes "ci_inv s"
  shows "ci_inv (ci_remove ids s)" "ci_queue (ci_remove ids s) = filter (\<lambda>x. ciID x \<notin> set ids) (ci_queue s)"
proof -
  let ?m = "cjInjections s"
  have d: "distinct (map crSequence (map snd ?m))" using assms by (simp add: ci_inv_def)
  have key: "ciID (crInjection r) = k" if "(k, r) \<in> set ?m" for k r using assms that by (auto simp: ci_inv_def)
  have "map snd (filter (\<lambda>p. fst p \<notin> set ids) ?m) = filter (\<lambda>r. ciID (crInjection r) \<notin> set ids) (map snd ?m)"
    unfolding filter_map by (rule arg_cong [of _ _ "map snd"], rule filter_cong) (use key in auto)
  then have "SortRecords (map snd (filter (\<lambda>p. fst p \<notin> set ids) ?m)) =
      filter (\<lambda>r. ciID (crInjection r) \<notin> set ids) (SortRecords (map snd ?m))"
    using SortRecords_filter [OF d] by simp
  then show "ci_queue (ci_remove ids s) = filter (\<lambda>x. ciID x \<notin> set ids) (ci_queue s)"
    by (simp add: ci_queue_def ci_remove_def fold_delete filter_map comp_def)
  have "distinct (map fst (filter (\<lambda>p. fst p \<notin> set ids) ?m))"
    "distinct (map crSequence (map snd (filter (\<lambda>p. fst p \<notin> set ids) ?m)))"
    using assms d by (auto simp: ci_inv_def distinct_map_filter)
  then show "ci_inv (ci_remove ids s)"
    using assms by (auto simp: ci_inv_def ci_remove_def fold_delete)
qed

interpretation ci: injection_queue ci_inv ci_queue "fold ci_add" ci_remove ci_room
proof
  fix s
  assume inv: "ci_inv s"
  have "mset (map ciID (ci_queue s)) = mset (map fst (cjInjections s))"
  proof -
    have "map (\<lambda>p. ciID (crInjection (snd p))) (cjInjections s) = map fst (cjInjections s)"
      by (rule map_cong) (use inv in \<open>auto simp: ci_inv_def\<close>)
    then have "map (\<lambda>r. ciID (crInjection r)) (map snd (cjInjections s)) = map fst (cjInjections s)" by (simp add: comp_def)
    moreover have "mset (map (\<lambda>r. ciID (crInjection r)) (SortRecords rs)) = mset (map (\<lambda>r. ciID (crInjection r)) rs)" for rs
      by (simp add: SortRecords_def)
    moreover have "map ciID (ci_queue s) = map (\<lambda>r. ciID (crInjection r)) (SortRecords (map snd (cjInjections s)))"
      by (simp add: ci_queue_def)
    ultimately show ?thesis by metis
  qed
  then show "distinct (map ciID (ci_queue s))"
    using mset_eq_imp_distinct_iff inv unfolding ci_inv_def by blast
next
  fix s :: ci_store and xs ids
  assume inv: "ci_inv s"
  show "ci_inv (ci_remove ids s) \<and> ci_queue (ci_remove ids s) = filter (\<lambda>x. ciID x \<notin> set ids) (ci_queue s)"
    using ci_remove_queue [OF inv] by blast
  assume "\<forall>x\<in>set xs. ci_normal x \<and> gm_wf (ciAttributes x)" "distinct (map ciID xs)" "ci_room s (length xs)"
  from ci_add_all [OF inv this] show "ci_inv (fold ci_add xs s) \<and>
      ci_queue (fold ci_add xs s) = ci_queue s @ filter (\<lambda>x. ciID x \<notin> ciID ` set (ci_queue s)) xs" by blast
qed

section \<open>Runs\<close>

text \<open>What every client satisfies: identifiers come from \<open>NewID\<close>, the clock is past the
  zero time, attributes are a map.\<close>

fun ci_call_ok :: "ci_call \<Rightarrow> bool" where
  "ci_call_ok (CIEnqueue ctx newID wall xs) \<longleftrightarrow>
     (\<forall>n. resourceNamePattern (newID n)) \<and> wall \<noteq> 0 \<and> (\<forall>x\<in>set xs. gm_wf (ciAttributes x))"
| "ci_call_ok (CIConsume ctx ids) \<longleftrightarrow> True"

fun ci_call_load :: "ci_call \<Rightarrow> nat" where
  "ci_call_load (CIEnqueue ctx newID wall xs) = length xs"
| "ci_call_load (CIConsume ctx ids) = 0"

lemma ci_Enqueue_cases:
  obtains (error) e where "ci_Enqueue ctx newID wall xs s = (s, Some e)"
  | (ok) prepared where "PrepareBatch newID wall xs wall = Inr prepared" "first_error (ci_conflict s) prepared = None"
      "ci_Enqueue ctx newID wall xs s = (fold ci_add prepared s, None)"
  by (cases "check ctx (PrepareBatch newID wall xs wall)"; cases "first_error (ci_conflict s) (projr (PrepareBatch newID wall xs wall))")
    (auto simp: ci_Enqueue_def result_simps split: option.splits)

lemma ConsumeContextInjections_cases:
  "ConsumeContextInjections ctx ids s = (case and_then ctx (ValidateConsumeIDs ids) of
     Some e \<Rightarrow> (s, Some e) | None \<Rightarrow> (ci_remove ids s, None))"
  by (simp add: ConsumeContextInjections_def ci_remove_def split: option.split)

lemma ci_step_inv:
  assumes "ci_inv s" "ci_call_ok c" "ci_room s (ci_call_load c)"
  shows "ci_inv (ci_step c s) \<and>
    unat (cjNextSequence (ci_step c s)) \<le> unat (cjNextSequence s) + ci_call_load c"
proof (cases c)
  case (CIEnqueue ctx newID wall xs)
  show ?thesis
  proof (rule ci_Enqueue_cases [of ctx newID wall xs s])
    fix prepared
    assume p: "PrepareBatch newID wall xs wall = Inr prepared"
      and e: "ci_Enqueue ctx newID wall xs s = (fold ci_add prepared s, None)"
    have ok: "(\<forall>y\<in>set prepared. ci_normal y \<and> gm_wf (ciAttributes y)) \<and> distinct (map ciID prepared) \<and>
        length prepared \<le> length xs"
      by (rule PrepareBatch_Inr [OF p]) (use assms(2) CIEnqueue in auto)
    then have "ci_room s (length prepared)" using assms(3) CIEnqueue by (simp add: ci_room_def)
    then show ?thesis using ci_add_all [OF assms(1)] ok CIEnqueue e by fastforce
  qed (use assms(1) CIEnqueue in simp)
next
  case (CIConsume ctx ids)
  then show ?thesis
    using assms(1) ci_remove_queue(1) [OF assms(1)]
    by (auto simp: ConsumeContextInjections_cases ci_remove_def split: option.split)
qed

lemma ci_run_inv:
  assumes "ci_inv s" "list_all ci_call_ok cs" "ci_room s (sum_list (map ci_call_load cs) + k)"
  shows "ci_inv (run_calls ci_step cs s) \<and> ci_room (run_calls ci_step cs s) k"
  using assms
proof (induction cs arbitrary: s)
  case (Cons c cs)
  have "ci_room s (ci_call_load c)" using Cons.prems(3) by (simp add: ci_room_def)
  then have "ci_inv (ci_step c s)" "unat (cjNextSequence (ci_step c s)) \<le> unat (cjNextSequence s) + ci_call_load c"
    using ci_step_inv Cons.prems by auto
  then show ?case using Cons by (simp add: ci_room_def)
qed simp

section \<open>Refinement\<close>

lemma ci_List_queue:
  assumes "ci_inv s" "ci_List None q s = Inr ys"
  shows "ys = (let matching = filter (\<lambda>x. MatchesQuery x q) (ci_queue s)
    in if cqLimit q > 0 then take (nat (cqLimit q)) matching else matching)"
proof -
  let ?rs = "filter (\<lambda>r. MatchesQuery (crInjection r) q) (map snd (cjInjections s))"
  have "distinct (map crSequence (map snd (cjInjections s)))" using assms(1) by (simp add: ci_inv_def)
  then have sorted: "SortRecords ?rs = filter (\<lambda>r. MatchesQuery (crInjection r) q) (SortRecords (map snd (cjInjections s)))"
    by (rule SortRecords_filter)
  have q: "map crInjection (SortRecords ?rs) = filter (\<lambda>x. MatchesQuery x q) (ci_queue s)"
    unfolding sorted by (simp add: ci_queue_def filter_map comp_def)
  have clone: "CloneContextInjection (crInjection r) = crInjection r" if "r \<in> set (SortRecords ?rs)" for r
    using assms(1) that by (auto simp: ci_inv_def ci_normal_def)
  have "map (\<lambda>r. CloneContextInjection (crInjection r)) (take n (SortRecords ?rs)) =
      take n (map crInjection (SortRecords ?rs))" for n
    unfolding take_map using clone by (intro map_cong) (auto dest: in_set_takeD)
  moreover have "map (\<lambda>r. CloneContextInjection (crInjection r)) (SortRecords ?rs) = map crInjection (SortRecords ?rs)"
    using clone by (intro map_cong) auto
  moreover have "length (SortRecords ?rs) = length (filter (\<lambda>x. MatchesQuery x q) (ci_queue s))"
    using q by (metis length_map)
  ultimately show ?thesis
    using assms(2) q by (auto simp: ci_List_def Let_def result_simps split: if_splits)
qed

text \<open>
  C32: The store is a queue. After any calls, an accepted batch is appended to the list of
  stored injections in its order, less what is stored already; consuming removes exactly the
  injections with the given IDs; listing yields the matching ones in the order of
  acceptance, up to the limit. IDs stay unique and every record is one that a store accepts
  when it loads it.
\<close>

theorem ci_refines_queue:
  assumes "list_all ci_call_ok (cs @ [CIEnqueue None newID wall xs])"
    and "sum_list (map ci_call_load cs) + length xs < 2 ^ 64"
    and "s = run_calls ci_step cs newMemoryContextInjectionStore"
  shows "(\<forall>s'. ci_Enqueue None newID wall xs s = (s', None) \<longrightarrow> (\<exists>prepared.
      PrepareBatch newID wall xs wall = Inr prepared \<and>
      ci_queue s' = ci_queue s @ filter (\<lambda>x. ciID x \<notin> ciID ` set (ci_queue s)) prepared)) \<and>
    (\<forall>s'. ConsumeContextInjections None ids s = (s', None) \<longrightarrow>
      ci_queue s' = filter (\<lambda>x. ciID x \<notin> set ids) (ci_queue s)) \<and>
    (\<forall>ys. ci_List None q s = Inr ys \<longrightarrow> ys = (let matching = filter (\<lambda>x. MatchesQuery x q) (ci_queue s)
      in if cqLimit q > 0 then take (nat (cqLimit q)) matching else matching)) \<and>
    distinct (map ciID (ci_queue s)) \<and>
    (\<forall>(k, r)\<in>set (cjInjections s). ci_ValidateLoadedRecord newID' wall' r = None)"
proof -
  have inv: "ci_inv s" and room: "ci_room s (length xs)"
    using ci_run_inv [OF ci_inv_new, of cs "length xs"] assms
    by (auto simp: ci_room_def newMemoryContextInjectionStore_def)
  have "\<exists>prepared. PrepareBatch newID wall xs wall = Inr prepared \<and>
      ci_queue s' = ci_queue s @ filter (\<lambda>x. ciID x \<notin> ciID ` set (ci_queue s)) prepared"
    if "ci_Enqueue None newID wall xs s = (s', None)" for s'
  proof (rule ci_Enqueue_cases [of None newID wall xs s])
    fix prepared
    assume p: "PrepareBatch newID wall xs wall = Inr prepared"
      and e: "ci_Enqueue None newID wall xs s = (fold ci_add prepared s, None)"
    have ok: "(\<forall>y\<in>set prepared. ci_normal y \<and> gm_wf (ciAttributes y)) \<and> distinct (map ciID prepared) \<and>
        length prepared \<le> length xs"
      by (rule PrepareBatch_Inr [OF p]) (use assms(1) in auto)
    then have "ci_room s (length prepared)" using room by (simp add: ci_room_def)
    then show ?thesis using ci.add_queue [OF inv] ok p e that by auto
  qed (use that in simp)
  moreover have "ci_queue s' = filter (\<lambda>x. ciID x \<notin> set ids) (ci_queue s)"
    if "ConsumeContextInjections None ids s = (s', None)" for s'
    using that ci_remove_queue(2) [OF inv] by (auto simp: ConsumeContextInjections_cases split: option.splits)
  moreover have "ci_ValidateLoadedRecord newID' wall' r = None" if "(k, r) \<in> set (cjInjections s)" for k r
    using inv that ci_normal_loads by (auto simp: ci_inv_def ci_ValidateLoadedRecord_def result_simps)
  ultimately show ?thesis using ci_List_queue [OF inv] ci.ids_distinct [OF inv] by blast
qed

definition injection_demo :: "string \<Rightarrow> ContextInjectionPriority \<Rightarrow> gotime \<Rightarrow> context_injection" where
  "injection_demo i p t = \<lparr>ciID = i, ciPriority = p, ciMode = ContextInjectionModeOther [], ciOrigin = ''host'',
     ciTargetSessionID = ''main'', ciTargetExecutionID = [], ciIsMeta = False,
     ciMessages = [\<lparr>mgRole = RoleUser, mgContent = ''hi'', mgToolCalls = None, mgToolCallID = [], mgIsError = False\<rparr>],
     ciAttributes = [], ciCreatedAt = t\<rparr>"

definition ci_calls_demo :: "ci_call list" where
  "ci_calls_demo = [CIEnqueue None (\<lambda>_. ''n'') 10 [injection_demo ''a'' ContextInjectionLater 5,
       injection_demo ''b'' ContextInjectionNow 6], CIConsume None [''a'']]"

theorem ci_refines_queue_witness:
  "\<exists>s s'. s = run_calls ci_step ci_calls_demo newMemoryContextInjectionStore \<and>
     ci_Enqueue None (\<lambda>_. ''n'') 20 [injection_demo ''b'' ContextInjectionNow 6, injection_demo ''a'' ContextInjectionNext 7] s = (s', None) \<and>
     map ciID (ci_queue s') = [''b'', ''a''] \<and> distinct (map ciID (ci_queue s))"
proof -
  let ?s = "run_calls ci_step ci_calls_demo newMemoryContextInjectionStore"
  let ?xs = "[injection_demo ''b'' ContextInjectionNow 6, injection_demo ''a'' ContextInjectionNext 7]"
  have n: "resourceNamePattern ''n''" by code_simp
  have r: "snd (ci_Enqueue None (\<lambda>_. ''n'') 20 ?xs ?s) = None \<and>
      map ciID (ci_queue (fst (ci_Enqueue None (\<lambda>_. ''n'') 20 ?xs ?s))) = [''b'', ''a'']"
    by code_simp
  have "distinct (map ciID (ci_queue ?s))"
    using ci_refines_queue [of ci_calls_demo "\<lambda>_. ''n''" 20 ?xs ?s] n
    by (simp add: ci_calls_demo_def injection_demo_def)
  then show ?thesis using r by (metis prod.collapse)
qed

section \<open>Idempotency\<close>

text \<open>An enqueue changes no record that is there.\<close>

lemma ci_add_keeps: "map_of (cjInjections s) k = Some r \<Longrightarrow> map_of (cjInjections (fold ci_add xs s)) k = Some r"
proof (induction xs arbitrary: s)
  case (Cons x xs)
  have "map_of (cjInjections (ci_add x s)) k = Some r" using Cons.prems by (auto simp: ci_add_def Let_def)
  then show ?case using Cons.IH by simp
qed simp

lemma ci_Enqueue_keeps:
  "map_of (cjInjections s) k = Some r \<Longrightarrow> map_of (cjInjections (fst (ci_Enqueue ctx newID wall xs s))) k = Some r"
  by (rule ci_Enqueue_cases [of ctx newID wall xs s]) (auto intro: ci_add_keeps)

lemma ci_add_stored:
  "x \<in> set xs \<Longrightarrow> \<exists>r. map_of (cjInjections (fold ci_add xs s)) (ciID x) = Some r"
proof (induction xs arbitrary: s)
  case (Cons y xs)
  have "\<exists>r. map_of (cjInjections (ci_add y s)) (ciID y) = Some r" by (auto simp: ci_add_def Let_def)
  then show ?case using Cons ci_add_keeps by (cases "x = y") fastforce+
qed simp

lemma ci_add_same:
  assumes "first_error (ci_conflict s) xs = None" "distinct (map ciID xs)"
    and "\<forall>x\<in>set xs. ci_normal x \<and> gm_wf (ciAttributes x)"
  shows "first_error (ci_conflict (fold ci_add xs s)) xs = None"
proof -
  have "ci_conflict (fold ci_add xs s) x = None" if x: "x \<in> set xs" for x
  proof -
    obtain us vs where xs: "xs = us @ x # vs" using x by (meson split_list)
    have ok: "ci_conflict s x = None" using assms(1) x by (simp add: result_simps)
    have other: "map_of (cjInjections (fold ci_add us s)) (ciID x) = map_of (cjInjections s) (ciID x)"
      if "ciID x \<notin> ciID ` set us" for us
      using that by (induction us arbitrary: s) (auto simp: ci_add_def Let_def)
    have us: "map_of (cjInjections (fold ci_add us s)) (ciID x) = map_of (cjInjections s) (ciID x)"
      using other assms(2) xs by auto
    show ?thesis
    proof (cases "map_of (cjInjections s) (ciID x)")
      case None
      have "CloneContextInjection x = x" "ci_SameIdentity x x"
        using assms(3) x ci_SameIdentity_refl by (auto simp: ci_normal_def)
      then have "map_of (cjInjections (ci_add x (fold ci_add us s))) (ciID x) =
          Some \<lparr>crSequence = cjNextSequence (fold ci_add us s) + 1, crInjection = x\<rparr>"
        using us None by (simp add: ci_add_def Let_def)
      from ci_add_keeps [OF this, of vs] show ?thesis
        using xs \<open>ci_SameIdentity x x\<close> by (simp add: ci_conflict_def)
    next
      case (Some r)
      then show ?thesis using ok ci_add_keeps [OF Some, of xs] by (simp add: ci_conflict_def)
    qed
  qed
  then show ?thesis by (simp add: result_simps)
qed

lemma ci_add_noop: "(\<And>x. x \<in> set xs \<Longrightarrow> map_of (cjInjections s) (ciID x) \<noteq> None) \<Longrightarrow> fold ci_add xs s = s"
  by (induction xs) (auto simp: ci_add_known)

text \<open>An injection with an ID and a creation time normalises to the same at any time.\<close>

lemma NormalizeContextInjection_dated:
  assumes "ciID x \<noteq> []" "ciCreatedAt x \<noteq> 0"
  shows "NormalizeContextInjection newID wall x now = NormalizeContextInjection newID' wall' x now'"
  using assms by (simp add: NormalizeContextInjection_def)

lemma PrepareBatch_dated:
  assumes "\<forall>x\<in>set xs. ciID x \<noteq> [] \<and> ciCreatedAt x \<noteq> 0"
  shows "PrepareBatch newID wall xs now = PrepareBatch newID' wall' xs now'"
proof -
  have "ci_prepare newID wall now n seen xs = ci_prepare newID' wall' now' n seen xs" for wall wall' now now' n seen
    using assms
  proof (induction xs arbitrary: n seen)
    case (Cons x xs)
    then show ?case
      using NormalizeContextInjection_dated [of x "newID n" wall now "newID' n" wall' now'] by (simp cong: option.case_cong if_cong)
  qed simp
  then show ?thesis unfolding PrepareBatch_def by (rule if_cong [OF refl refl])
qed

fun is_enqueue :: "ci_call \<Rightarrow> bool" where
  "is_enqueue (CIEnqueue ctx newID wall xs) \<longleftrightarrow> True"
| "is_enqueue (CIConsume ctx ids) \<longleftrightarrow> False"

text \<open>
  Enqueueing is idempotent for injections that carry an ID and a creation time: a batch
  that was accepted is accepted again later, whatever was enqueued in between, and
  changes nothing.
\<close>

theorem ci_Enqueue_idempotent:
  assumes "ci_Enqueue ctx newID wall xs s = (s1, None)" "\<forall>x\<in>set xs. ciID x \<noteq> [] \<and> ciCreatedAt x \<noteq> 0"
    and "ci_call_ok (CIEnqueue ctx newID wall xs)" "list_all is_enqueue cs" "s2 = run_calls ci_step cs s1"
  shows "ci_Enqueue None newID' wall' xs s2 = (s2, None)"
proof -
  have enq: "ctx = None" and "\<exists>prepared. PrepareBatch newID wall xs wall = Inr prepared \<and>
      first_error (ci_conflict s) prepared = None \<and> s1 = fold ci_add prepared s"
    using assms(1) by (auto simp: ci_Enqueue_def result_simps split: sum.splits option.splits)
  then obtain prepared where p: "PrepareBatch newID wall xs wall = Inr prepared"
    "first_error (ci_conflict s) prepared = None" "s1 = fold ci_add prepared s" by blast
  have ok: "(\<forall>y\<in>set prepared. ci_normal y \<and> gm_wf (ciAttributes y)) \<and> distinct (map ciID prepared) \<and>
      length prepared \<le> length xs"
    by (rule PrepareBatch_Inr [OF p(1)]) (use assms(3) in auto)
  have s1: "first_error (ci_conflict s1) prepared = None" using ci_add_same [OF p(2)] ok p(3) by blast
  have keeps: "map_of (cjInjections s2) k = Some r" if "map_of (cjInjections s1) k = Some r" for k r
    unfolding assms(5) using that
  proof (rule run_calls_invariant)
    fix c and t :: ci_store
    assume c: "c \<in> set cs" and t: "map_of (cjInjections t) k = Some r"
    have "is_enqueue c" using assms(4) c by (simp add: list_all_iff)
    then obtain ctx newID wall xs where "c = CIEnqueue ctx newID wall xs" by (rule is_enqueue.elims) simp
    then show "map_of (cjInjections (ci_step c t)) k = Some r" using ci_Enqueue_keeps [OF t] by simp
  qed
  have stored: "\<exists>r. map_of (cjInjections s1) (ciID x) = Some r" if "x \<in> set prepared" for x
    using ci_add_stored [OF that] p(3) by blast
  have "ci_conflict s2 x = None" if x: "x \<in> set prepared" for x
  proof -
    have "ci_conflict s1 x = None" using s1 x by (simp add: result_simps)
    then show ?thesis using stored [OF x] keeps by (auto simp: ci_conflict_def)
  qed
  then have "first_error (ci_conflict s2) prepared = None" by (simp add: result_simps)
  moreover have "fold ci_add prepared s2 = s2"
    by (rule ci_add_noop) (use stored keeps in fastforce)
  moreover have "PrepareBatch newID' wall' xs wall' = Inr prepared"
    using p(1) PrepareBatch_dated [OF assms(2), of newID' wall' wall' newID wall wall] by simp
  ultimately show ?thesis by (simp add: ci_Enqueue_def)
qed

theorem ci_Enqueue_idempotent_witness:
  "\<exists>s1. ci_Enqueue None (\<lambda>_. ''n'') 10 [injection_demo ''a'' ContextInjectionNow 5] newMemoryContextInjectionStore = (s1, None) \<and>
     ci_Enqueue None (\<lambda>_. ''m'') 99 [injection_demo ''a'' ContextInjectionNow 5] s1 = (s1, None)"
proof -
  let ?r = "ci_Enqueue None (\<lambda>_. ''n'') 10 [injection_demo ''a'' ContextInjectionNow 5] newMemoryContextInjectionStore"
  have "snd ?r = None" by code_simp
  then obtain s1 where s1: "?r = (s1, None)" by (metis prod.collapse)
  have "resourceNamePattern ''n''" by code_simp
  then show ?thesis
    using s1 ci_Enqueue_idempotent [OF s1, of "[]" s1 "\<lambda>_. ''m''" 99] by (simp add: injection_demo_def)
qed

text \<open>
  Without a creation time the store fills in the clock and then takes the repetition for a
  different injection under the same ID.
\<close>

theorem ci_Enqueue_undated_rejected:
  "\<exists>s1 e. ci_Enqueue None (\<lambda>_. ''n'') 10 [injection_demo ''a'' ContextInjectionNow 0] newMemoryContextInjectionStore = (s1, None) \<and>
     ci_Enqueue None (\<lambda>_. ''m'') 11 [injection_demo ''a'' ContextInjectionNow 0] s1 = (s1, Some e)"
proof -
  let ?r = "ci_Enqueue None (\<lambda>_. ''n'') 10 [injection_demo ''a'' ContextInjectionNow 0] newMemoryContextInjectionStore"
  have "snd ?r = None \<and> snd (ci_Enqueue None (\<lambda>_. ''m'') 11 [injection_demo ''a'' ContextInjectionNow 0] (fst ?r)) =
      Some (Errorf ''context injection %q already exists with different identity'')" by code_simp
  moreover have "fst (ci_Enqueue ctx newID wall xs s) = s" if "snd (ci_Enqueue ctx newID wall xs s) = Some e" for ctx newID wall xs s e
    by (rule ci_Enqueue_cases [of ctx newID wall xs s]) (use that in auto)
  ultimately show ?thesis by (metis prod.collapse)
qed

end
