(* ===== verification/Trajectory_Fencing.thy ===== *)
theory Trajectory_Fencing
  imports Trajectory_Properties
begin

text \<open>
  Concurrent writers of a trajectory: the expected head of appends and commits, and the
  lease of the execution. The store is an \<open>aggregate_store\<close> of executions, so what
  \<open>leased_aggregate\<close> says of an execution holds of every run of the store.
\<close>

section \<open>The head\<close>

lemma append_new_head:
  assumes "sees (tmap s) n i L" "head_ok t L" "length (store_ids s) + length es < 2 ^ 64"
    and "appendLocked wall t i h es s = Some (Inr (t1, new))"
  shows "tjHead (mtTrajectory t) = h" "tjHead (mtTrajectory t1) = new" "L new = None" "new \<noteq> []"
proof -
  obtain prepared cp where p: "tjHead (mtTrajectory t) = h" "prepared_ok i (length (mtOrder t)) L es prepared"
    "new = teID (last prepared)" "t1 = appended prepared cp t"
    by (rule appendLocked_Inr [OF assms])
  have e: "prepared \<noteq> []" "\<forall>e\<in>set prepared. L (teID e) = None" "list_all (entry_ok i) prepared"
    using p(2) unfolding prepared_ok_def by blast+
  then have "last prepared \<in> set prepared" by simp
  then show "L new = None" "new \<noteq> []" using e p(3) by (auto simp: list_all_iff entry_ok_def)
  show "tjHead (mtTrajectory t) = h" "tjHead (mtTrajectory t1) = new" using p by simp_all
qed

lemma ts_Append_stale:
  assumes "tmap s i = Some t" "tjHead (mtTrajectory t) \<noteq> h"
  shows "\<exists>e. ts_Append ctx wall i h es s = Some (s, Inl e)"
proof (cases "trajectoryLocked i s")
  case (Inr t')
  then have "t' = t" using assms(1) by (simp add: trajectoryLocked_Inr)
  then show ?thesis
    using Inr assms(2) by (cases ctx; cases "active_execution t")
      (auto simp: ts_Append_def with_outcome_def lift_error_def appendLocked_def)
qed (cases ctx; simp add: ts_Append_def with_outcome_def lift_error_def)

lemma outcome_error: "(\<And>x. r \<noteq> Inr x) \<Longrightarrow> \<exists>e. with_outcome (Some r) s f = Some (s, Inl e)"
  by (cases r) (auto simp: with_outcome_def lift_error_def)

lemma ts_Commit_stale:
  assumes "tmap s (tcTrajectoryID commit) = Some t" "tjHead (mtTrajectory t) \<noteq> tcExpectedHead commit"
  shows "\<exists>e. ts_CommitExecution ctx now wall commit s = Some (s, Inl e)"
  unfolding ts_CommitExecution_def
  by (rule outcome_error) (use assms in \<open>auto simp: result_simps trajectoryLocked_Inr\<close>)

text \<open>
  The head is compared and swapped. After an append that expected head \<open>h\<close> succeeded,
  every append and every commit that still expects \<open>h\<close> fails and changes nothing, whatever
  calls happen in between: of concurrent writers on one head one wins, and a head
  never returns to an earlier value.
\<close>

theorem ts_head_compare_and_swap:
  assumes "run_ok (cs @ TAppend ctx wall i h es # ds) newMemoryTrajectoryStore"
    and "s = run_calls ts_step cs newMemoryTrajectoryStore"
    and "ts_Append ctx wall i h es s = Some (s1, Inr new)"
    and "list_all (\<lambda>c. \<not> deletes i c) ds" "s2 = run_calls ts_step ds s1"
  shows "(\<exists>e. ts_Append ctx' wall' i h es' s2 = Some (s2, Inl e)) \<and>
    (tcTrajectoryID commit = i \<longrightarrow> tcExpectedHead commit = h \<longrightarrow>
     (\<exists>e. ts_CommitExecution ctx' now wall' commit s2 = Some (s2, Inl e)))"
proof -
  have ok: "run_ok cs newMemoryTrajectoryStore" "run_ok (TAppend ctx wall i h es # ds) s"
    using run_ok_append [OF ts_inv_new assms(1)] assms(2) by auto
  have inv: "ts_inv s" using ts_run_inv [OF ts_inv_new ok(1)] assms(2) by simp
  have s1: "ts_step (TAppend ctx wall i h es) s = s1" using assms(3) by (simp add: after_def)
  note ok1 = run_ok_Cons [OF ok(2) inv, unfolded s1]
  have room: "length (store_ids s) + length es < 2 ^ 64" using ok1(2) by simp
  obtain t t1 where t: "tmap s i = Some t" "appendLocked wall t i h es s = Some (Inr (t1, new))" "tmap s1 i = Some t1"
    using assms(3)
    by (auto simp: ts_Append_def with_outcome_def lift_error_def result_simps trajectoryLocked_Inr
        split: option.splits sum.splits)
  obtain n L where v: "sees (tmap s) n i L" "head_ok t L" by (rule ts_invD [OF inv t(1)])
  note new = append_new_head [OF v room t(2)]
  have vis: "h = [] \<or> L h \<noteq> None" using v(2) new(1) by (auto simp: head_ok_def elim: chain.elims)
  have "extends s s1 i" using ts_step_preserves [OF inv ok1(1,2)] s1 by simp
  then obtain L1 where v1: "sees (tmap s1) n i L1" "L \<subseteq>\<^sub>m L1" using t v(1) unfolding extends_def by blast
  have "\<not> deletes i c" if "c \<in> set ds" for c using assms(4) that by (auto simp: list_all_iff)
  then obtain t2 where t2: "tmap s2 i = Some t2" "tjHead (mtTrajectory t2) = tjHead (mtTrajectory t1) \<or>
      tjHead (mtTrajectory t2) \<noteq> [] \<and> L1 (tjHead (mtTrajectory t2)) = None"
    using ts_run_extends [OF ok1(4,3) _ t(3) v1(1)] assms(5) by blast
  have "tjHead (mtTrajectory t2) \<noteq> h"
    using t2(2) new vis v1(2) by (metis domIff map_le_def)
  then show ?thesis using ts_Append_stale [OF t2(1)] ts_Commit_stale t2(1) by metis
qed

theorem ts_head_compare_and_swap_witness:
  "\<exists>s1 e. ts_Append None (\<lambda>_. 120) ''alt'' ''a1'' [entry_demo ''a2'' ''a1'' KindTerminal] tj_demo = Some (s1, Inr ''a2'') \<and>
     ts_Append None (\<lambda>_. 121) ''alt'' ''a1'' [entry_demo ''a3'' ''a1'' KindTerminal] s1 = Some (s1, Inl e)"
proof -
  let ?r = "ts_Append None (\<lambda>_. 120) ''alt'' ''a1'' [entry_demo ''a2'' ''a1'' KindTerminal] tj_demo"
  have "map_option snd ?r = Some (Inr ''a2'')" by code_simp
  then obtain s1 where s1: "?r = Some (s1, Inr ''a2'')" by (elim map_option_SomeE) auto
  have "run_ok (tj_calls_demo @ [TAppend None (\<lambda>_. 120) ''alt'' ''a1'' [entry_demo ''a2'' ''a1'' KindTerminal]])
      newMemoryTrajectoryStore"
    using run_ok_demo by (simp add: run_ok_def tj_calls_demo_def commit_demo_def newMemoryTrajectoryStore_def store_ids_def)
  from ts_head_compare_and_swap [OF this tj_demo_def s1] s1 show ?thesis by auto
qed

section \<open>The execution\<close>

text \<open>
  The event that a call applies to the execution of a trajectory, if the call succeeds. A
  call that returns an error changes nothing.
\<close>

definition ok_event :: "(tj_store \<times> 'a result) option \<Rightarrow> string \<times> tx_event \<Rightarrow> (string \<times> tx_event) option" where
  "ok_event r e = (case r of Some (s', Inr v) \<Rightarrow> Some e | _ \<Rightarrow> None)"

fun tx_event_of :: "tj_call \<Rightarrow> tj_store \<Rightarrow> (string \<times> tx_event) option" where
  "tx_event_of (TBegin ctx now wall i head start input) s =
     (case PrepareTrajectoryExecutionStart start head (teID input) now of
        Inl e \<Rightarrow> None
      | Inr x \<Rightarrow> ok_event (ts_BeginExecution ctx now wall i head start input s) (i, TxBegin x))"
| "tx_event_of (TClaim ctx newID wall i owner now ttl) s =
     ok_event (ts_ClaimExecution ctx newID wall i owner now ttl s)
       (i, TxClaim wall (if now = 0 then wall else now) owner newID ttl)"
| "tx_event_of (TRenew ctx wall i x token now ttl) s =
     ok_event (ts_RenewExecution ctx wall i x token now ttl s) (i, TxRenew x token (if now = 0 then wall else now) ttl)"
| "tx_event_of (TCommit ctx now wall commit) s =
     (case BindTrajectoryExecutionEntries (tcExecutionID commit) (tcEntries commit) of
        Inl e \<Rightarrow> None
      | Inr es \<Rightarrow> ok_event (ts_CommitExecution ctx now wall commit s)
          (tcTrajectoryID commit, TxCommit (commit\<lparr>tcEntries := es\<rparr>) now))"
| "tx_event_of (TCancel ctx clock wall commit) s =
     ok_event (ts_CancelExecution ctx clock wall commit s)
       (ccTrajectoryID commit, TxCancel (ccExecutionID commit) (ccReason commit) (tj_NormalizeMutationTime clock (ccAt commit)))"
| "tx_event_of c s = None"

definition tx_lookup :: "tj_store \<Rightarrow> string \<Rightarrow> tj_execution option option" where
  "tx_lookup s i = map_option (\<lambda>t. tjExecution (mtTrajectory t)) (tmap s i)"

fun tx_forgets :: "tj_call \<Rightarrow> bool" where
  "tx_forgets (TDelete ctx i) \<longleftrightarrow> True"
| "tx_forgets _ \<longleftrightarrow> False"

lemma ok_event_Some: "ok_event r e = Some e' \<longleftrightarrow> e' = e \<and> (\<exists>s' v. r = Some (s', Inr v))"
  by (auto simp: ok_event_def split: option.splits sum.splits prod.splits)

text \<open>An append does not touch the execution.\<close>

lemma appendLocked_execution:
  "appendLocked wall t i h es s = Some (Inr (t1, new)) \<Longrightarrow> tjExecution (mtTrajectory t1) = tjExecution (mtTrajectory t)"
  by (auto simp: appendLocked_def Let_def split: if_splits option.splits sum.splits)

lemma with_outcome_Some:
  "with_outcome r s f = Some (s', v) \<longleftrightarrow>
     (\<exists>e. r = Some (Inl e) \<and> s' = s \<and> v = Inl e) \<or> (\<exists>x. r = Some (Inr x) \<and> f x = Some (s', v))"
  by (auto simp: with_outcome_def lift_error_def split: option.split sum.split)

lemma tx_lookup_put [simp]: "tx_lookup (put_trajectory i t s) k = (if k = i then Some (tjExecution (mtTrajectory t)) else tx_lookup s k)"
  by (simp add: tx_lookup_def)

lemma tx_set_simps [simp]:
  "tjExecution (mtTrajectory (set_execution x t)) = Some x"
  "tjExecution (mtTrajectory (set_updated now t)) = tjExecution (mtTrajectory t)"
  by (simp_all add: set_execution_def set_updated_def)

text \<open>What a call that succeeds does to the executions.\<close>

lemma Begin_applies:
  assumes "ts_BeginExecution ctx now wall i head start input s = Some (s', Inr v)"
  shows "\<exists>x t. PrepareTrajectoryExecutionStart start head (teID input) now = Inr x \<and> tmap s i = Some t \<and>
    \<not> active (tjExecution (mtTrajectory t)) \<and> tx_lookup s' = (tx_lookup s)(i \<mapsto> Some x)"
  using assms
  by (auto simp: ts_BeginExecution_def with_outcome_Some result_simps trajectoryLocked_Inr active_execution_def
      Let_def fun_eq_iff)

lemma Claim_applies:
  assumes "ts_ClaimExecution ctx newID wall i owner now ttl s = Some (s', Inr v)"
  shows "\<exists>x t. tmap s i = Some t \<and> tjExecution (mtTrajectory t) = Some x \<and>
    ClaimTrajectoryExecution newID wall x owner (if now = 0 then wall else now) ttl = Inr v \<and>
    tx_lookup s' = (tx_lookup s)(i \<mapsto> Some v)"
  using assms
  by (auto simp: ts_ClaimExecution_def with_outcome_Some result_simps trajectoryLocked_Inr execution_of_Inr
      Let_def fun_eq_iff split: if_splits)

lemma Renew_applies:
  assumes "ts_RenewExecution ctx wall i xid token now ttl s = Some (s', Inr v)"
  shows "\<exists>x t. tmap s i = Some t \<and> tjExecution (mtTrajectory t) = Some x \<and>
    RenewTrajectoryExecution x xid token (if now = 0 then wall else now) ttl = Inr v \<and>
    tx_lookup s' = (tx_lookup s)(i \<mapsto> Some v)"
  using assms
  by (auto simp: ts_RenewExecution_def with_outcome_Some result_simps trajectoryLocked_Inr execution_of_Inr
      Let_def fun_eq_iff split: if_splits)

lemma Commit_applies:
  assumes "ts_CommitExecution ctx now wall commit s = Some (s', Inr v)"
  shows "\<exists>es x x' t. BindTrajectoryExecutionEntries (tcExecutionID commit) (tcEntries commit) = Inr es \<and>
    tmap s (tcTrajectoryID commit) = Some t \<and> tjExecution (mtTrajectory t) = Some x \<and>
    CommitTrajectoryExecution x (commit\<lparr>tcEntries := es\<rparr>) now = Inr x' \<and>
    tx_lookup s' = (tx_lookup s)(tcTrajectoryID commit \<mapsto> Some x')"
  using assms
  by (auto simp: ts_CommitExecution_def with_outcome_Some result_simps trajectoryLocked_Inr execution_of_Inr
      Let_def fun_eq_iff split: if_splits)

lemma Cancel_applies:
  assumes "ts_CancelExecution ctx clock wall commit s = Some (s', Inr v)"
  shows "\<exists>x x' t. tmap s (ccTrajectoryID commit) = Some t \<and> tjExecution (mtTrajectory t) = Some x \<and>
    CancelTrajectoryExecution x (ccExecutionID commit) (ccReason commit) (tj_NormalizeMutationTime clock (ccAt commit)) =
      Inr (x', crChanged v) \<and>
    tx_lookup s' = (tx_lookup s)(ccTrajectoryID commit \<mapsto> Some x')"
  using assms
  by (auto simp: ts_CancelExecution_def with_outcome_Some result_simps trajectoryLocked_Inr execution_of_Inr
      Let_def fun_eq_iff CancelTrajectoryExecution_Inr tx_lookup_def split: if_splits)

text \<open>A call that fails leaves the store as it was.\<close>

lemma errors_keep:
  "ts_Create ctx wall1 t s = Some (s', Inl e) \<Longrightarrow> s' = s"
  "ts_Append ctx wall i h es s = Some (s', Inl e) \<Longrightarrow> s' = s"
  "ts_BeginExecution ctx now wall i h start input s = Some (s', Inl e) \<Longrightarrow> s' = s"
  "ts_ClaimExecution ctx newID wall1 i owner now ttl s = Some (s', Inl e) \<Longrightarrow> s' = s"
  "ts_RenewExecution ctx wall1 i xid token now ttl s = Some (s', Inl e) \<Longrightarrow> s' = s"
  "ts_CommitExecution ctx now wall commit s = Some (s', Inl e) \<Longrightarrow> s' = s"
  "ts_CancelExecution ctx now wall cancel s = Some (s', Inl e) \<Longrightarrow> s' = s"
  by (auto simp: ts_Create_def ts_Append_def ts_BeginExecution_def ts_ClaimExecution_def ts_RenewExecution_def
      ts_CommitExecution_def ts_CancelExecution_def with_outcome_Some lift_error_def Let_def split: if_splits)

lemma Append_applies:
  assumes "ts_Append ctx wall i h es s = Some (s', Inr v)"
  shows "tx_lookup s' = tx_lookup s"
  using assms
  by (auto simp: ts_Append_def with_outcome_Some result_simps trajectoryLocked_Inr fun_eq_iff tx_lookup_def
      dest: appendLocked_execution)

lemma PrepareNewTrajectoryFork_ID:
  "PrepareNewTrajectoryFork prepared branch = Inr prepared' \<Longrightarrow>
   tjID (ptTrajectory prepared') = tjID (ptTrajectory prepared)"
  by (auto simp: PrepareNewTrajectoryFork_def Let_def split: if_splits option.splits)

lemma Create_applies:
  assumes "ts_Create ctx wall t s = Some (s', Inr v)" "tx_lookup s k = Some r"
  shows "tx_lookup s' k = Some r"
  using assms by (fastforce simp: ts_Create_def with_outcome_Some lift_error_def Let_def tx_lookup_def
      dest: PrepareNewTrajectoryFork_ID split: if_splits option.splits sum.splits)

lemma after_Inr:
  assumes "\<And>s' e. r = Some (s', Inl e) \<Longrightarrow> s' = s" "after s r \<noteq> s"
  obtains s' v where "r = Some (s', Inr v)" "after s r = s'"
proof (cases r)
  case (Some p)
  then show ?thesis using assms that by (cases p; cases "snd p") (auto simp: after_def)
qed (use assms in \<open>simp add: after_def\<close>)

lemma after_error:
  assumes "ok_event r e = None" "\<And>s' e. r = Some (s', Inl e) \<Longrightarrow> s' = s"
  shows "after s r = s"
  using assms by (auto simp: ok_event_def after_def split: option.splits sum.splits)

lemma no_event_keeps:
  "ok_event (ts_BeginExecution ctx now wall i h start input s) e = None \<Longrightarrow>
   after s (ts_BeginExecution ctx now wall i h start input s) = s"
  "ok_event (ts_ClaimExecution ctx newID wall1 i owner now ttl s) e = None \<Longrightarrow>
   after s (ts_ClaimExecution ctx newID wall1 i owner now ttl s) = s"
  "ok_event (ts_RenewExecution ctx wall1 i xid token now ttl s) e = None \<Longrightarrow>
   after s (ts_RenewExecution ctx wall1 i xid token now ttl s) = s"
  "ok_event (ts_CommitExecution ctx now wall commit s) e = None \<Longrightarrow>
   after s (ts_CommitExecution ctx now wall commit s) = s"
  "ok_event (ts_CancelExecution ctx now wall cancel s) e = None \<Longrightarrow>
   after s (ts_CancelExecution ctx now wall cancel s) = s"
  by (erule after_error, erule errors_keep)+

text \<open>A call that applies an event succeeds as the transition of the execution.\<close>

lemma tx_event_applies:
  assumes "tx_event_of c s = Some (k, e)"
  shows "\<exists>t x'. tmap s k = Some t \<and> tx_apply e (tjExecution (mtTrajectory t)) = Inr x' \<and>
    tx_lookup (ts_step c s) = (tx_lookup s)(k \<mapsto> x')"
  using assms
proof (cases "(c, s)" rule: tx_event_of.cases)
  case (1 ctx now wall i head start input s)
  then show ?thesis using assms Begin_applies [of ctx now wall i head start input s] PrepareTrajectoryExecutionStart_Inr
    by (fastforce simp: ok_event_Some after_def split: sum.splits)
next
  case (2 ctx newID wall i owner now ttl s)
  then show ?thesis using assms Claim_applies [of ctx newID wall i owner now ttl s]
    by (fastforce simp: ok_event_Some after_def)
next
  case (3 ctx wall i x token now ttl s)
  then show ?thesis using assms Renew_applies [of ctx wall i x token now ttl s]
    by (fastforce simp: ok_event_Some after_def)
next
  case (4 ctx now wall commit s)
  then show ?thesis using assms Commit_applies [of ctx now wall commit s]
    by (fastforce simp: ok_event_Some after_def split: sum.splits)
next
  case (5 ctx clock wall commit s)
  then show ?thesis using assms Cancel_applies [of ctx clock wall commit s]
    by (fastforce simp: ok_event_Some after_def)
qed auto

lemma tx_untouched:
  assumes "tx_lookup s k = Some r" "\<not> tx_forgets c" "\<And>e. tx_event_of c s \<noteq> Some (k, e)"
  shows "tx_lookup (ts_step c s) k = Some r"
proof (cases "\<exists>k' e. tx_event_of c s = Some (k', e)")
  case True
  then obtain k' e where e: "tx_event_of c s = Some (k', e)" by blast
  then have "k' \<noteq> k" using assms(3) by blast
  then show ?thesis using tx_event_applies [OF e] assms(1) by fastforce
next
  case False
  then have none: "tx_event_of c s = None" by (cases "tx_event_of c s") auto
  show ?thesis
  proof (cases "ts_step c s = s")
    case changed: False
    show ?thesis
    proof (cases c)
      case (TCreate ctx wall t)
      then show ?thesis using changed Create_applies [OF _ assms(1)] errors_keep(1)
        by (auto elim: after_Inr [rotated])
    next
      case (TAppend ctx wall i h es)
      then show ?thesis using changed Append_applies errors_keep(2) assms(1)
        by (auto elim: after_Inr [rotated])
    next
      case (TBegin ctx now wall i h start input)
      then have "ok_event (ts_BeginExecution ctx now wall i h start input s) (i, TxCancel i h now) = None"
        using none Begin_applies [of ctx now wall i h start input s]
        by (auto simp: ok_event_def split: sum.splits option.splits)
      then show ?thesis using TBegin changed no_event_keeps(1) by fastforce
    next
      case (TClaim ctx newID wall i owner now ttl)
      then show ?thesis using none changed no_event_keeps(2) by fastforce
    next
      case (TRenew ctx wall i x token now ttl)
      then show ?thesis using none changed no_event_keeps(3) by fastforce
    next
      case (TCommit ctx now wall commit)
      then have "ok_event (ts_CommitExecution ctx now wall commit s) (k, TxCommit commit now) = None"
        using none Commit_applies [of ctx now wall commit s]
        by (auto simp: ok_event_def split: sum.splits option.splits)
      then show ?thesis using TCommit changed no_event_keeps(4) by fastforce
    next
      case (TCancel ctx clock wall commit)
      then show ?thesis using none changed no_event_keeps(5) by fastforce
    next
      case (TDelete ctx i)
      then show ?thesis using assms(2) by simp
    qed
  qed (use assms(1) in simp)
qed

interpretation tx_store: aggregate_store "\<lambda>s. True" tx_lookup ts_step tx_apply tx_event_of tx_forgets
proof
  fix s :: tj_store and c k e r
  assume e: "tx_event_of c s = Some (k, e)" and r: "tx_lookup s k = Some r"
  obtain t x' where t: "tmap s k = Some t" "tx_apply e (tjExecution (mtTrajectory t)) = Inr x'"
    "tx_lookup (ts_step c s) = (tx_lookup s)(k \<mapsto> x')"
    using tx_event_applies [OF e] by blast
  then show "tx_lookup (ts_step c s) k = Some (run_events tx_apply [e] r)"
    using r by (simp add: tx_lookup_def [of s])
qed (auto intro: tx_untouched)

section \<open>Properties of executions\<close>

fun claim_token :: "tj_call \<Rightarrow> string option" where
  "claim_token (TClaim ctx newID wall i owner now ttl) = Some newID"
| "claim_token _ = None"

lemma tx_event_grants: "tx_event_of c s = Some (k, e) \<Longrightarrow> tx_grants e = Some token \<Longrightarrow> claim_token c = Some token"
  by (cases "(c, s)" rule: tx_event_of.cases) (auto simp: ok_event_Some split: sum.splits)

text \<open>
  C37: A worker that lost its execution is locked out. Once the execution of a trajectory
  was claimed under a new token, renewing or committing with any other token fails and
  changes nothing, after any further calls (none of which deletes a trajectory or draws
  the old token again).
\<close>

theorem ts_stale_executor_fenced:
  assumes "ts_ClaimExecution ctx newID wall i owner now ttl s = Some (s1, Inr x)" "newID \<noteq> token"
    and "list_all (\<lambda>c. \<not> tx_forgets c \<and> claim_token c \<noteq> Some token) cs" "s2 = run_calls ts_step cs s1"
    and "tcTrajectoryID commit = i" "tcLeaseToken commit = token"
  shows "(\<exists>e. ts_CommitExecution ctx' now' wall' commit s2 = Some (s2, Inl e)) \<and>
    (\<exists>e. ts_RenewExecution ctx' wall'' i xid token now'' ttl' s2 = Some (s2, Inl e))"
proof -
  let ?es = "events_at tx_event_of ts_step i cs s1"
  obtain x0 t where "ClaimTrajectoryExecution newID wall x0 owner (if now = 0 then wall else now) ttl = Inr x"
    and s1: "tx_lookup s1 i = Some (Some x)"
    using Claim_applies [OF assms(1)] by auto
  then have holder: "tx_holder (Some x) \<noteq> Some token" using assms(2) by (auto simp: ClaimTrajectoryExecution_Inr)
  have "tx_grants e \<noteq> Some token" if e: "e \<in> set ?es" for e
  proof -
    obtain c s where "c \<in> set cs" "tx_event_of c s = Some (i, e)" using events_at_in [OF e] by blast
    then show ?thesis using tx_event_grants [of c s i e token] assms(3) by (auto simp: list_all_iff)
  qed
  then have lost: "tx_holder (run_events tx_apply ?es (Some x)) \<noteq> Some token"
    using tx_leases.never_regains [OF holder] by blast
  have "tx_lookup s2 i = Some (run_events tx_apply ?es (Some x))"
    using tx_store.run_projects [OF _ s1] assms(3,4) by (auto simp: list_all_iff)
  then obtain t2 where t2: "tmap s2 i = Some t2" "tx_holder (tjExecution (mtTrajectory t2)) \<noteq> Some token"
    using lost by (auto simp: tx_lookup_def)
  have "CommitTrajectoryExecution y (commit\<lparr>tcEntries := es\<rparr>) now' \<noteq> Inr y'"
    "RenewTrajectoryExecution y xid token n ttl' \<noteq> Inr y'"
    if "tjExecution (mtTrajectory t2) = Some y" for y y' es n
    using that t2(2) CommitTrajectoryExecution_Inr(2,3) [of y "commit\<lparr>tcEntries := es\<rparr>" now' y'] assms(6)
    by (auto simp: RenewTrajectoryExecution_Inr)
  then show ?thesis
    unfolding ts_CommitExecution_def ts_RenewExecution_def Let_def
    by (intro conjI outcome_error)
      (use t2(1) assms(5) in \<open>auto simp: result_simps trajectoryLocked_Inr execution_of_Inr\<close>)
qed

theorem ts_stale_executor_fenced_witness:
  "\<exists>s1 x e. ts_ClaimExecution None ''k2'' 200 ''main'' ''w2'' 200 60 tj_demo = Some (s1, Inr x) \<and>
     ts_CommitExecution None 201 (\<lambda>_. 201) ((commit_demo ''k1'')\<lparr>tcExpectedHead := ''t1''\<rparr>) s1 = Some (s1, Inl e)"
proof -
  let ?r = "ts_ClaimExecution None ''k2'' 200 ''main'' ''w2'' 200 60 tj_demo"
  have "map_option (map_sum id txOwner \<circ> snd) ?r = Some (Inr ''w2'')" by code_simp
  then obtain s1 x where s1: "?r = Some (s1, Inr x)" by (elim map_option_SomeE) (auto elim: map_sum_InrE)
  then show ?thesis
    using ts_stale_executor_fenced [OF s1, of "''k1''" "[]" s1 "(commit_demo ''k1'')\<lparr>tcExpectedHead := ''t1''\<rparr>"]
    by (auto simp: commit_demo_def)
qed

lemma claim_valid:
  assumes "ValidateTrajectoryExecution x = None" "TrimSpace owner \<noteq> []" "newID \<noteq> []" "now \<noteq> 0" "now + ttl \<noteq> 0"
    and "txRevision x + 1 \<noteq> 0"
  shows "ValidateTrajectoryExecution (x\<lparr>txState := TrajectoryExecutionRunning, txRevision := txRevision x + 1,
    txOwner := owner, txLeaseToken := newID, txLeaseExpiresAt := now + ttl, txUpdatedAt := now\<rparr>) = None"
  using assms by (auto simp: ValidateTrajectoryExecution_def result_simps)

lemma tx_RecoverableAt_running:
  "tx_RecoverableAt wall x now \<longleftrightarrow> \<not> tx_Terminal x \<and>
     \<not> (txState x = TrajectoryExecutionRunning \<and> (if now = 0 then wall else now) < txLeaseExpiresAt x)"
  by (auto simp: tx_RecoverableAt_def tx_RecoveryDelay_def Let_def)

text \<open>
  Recovery finds the executions that can be claimed, and only those: a trajectory is in
  the list of recoverable ones at a time exactly when a worker that claims its execution
  at that time succeeds, and then it holds the lease until \<open>now + ttl\<close> (the worker is
  named, its lease has a positive length and a token, and the revision counter does not wrap
  around).
\<close>

theorem ts_ListRecoverable_claimable:
  assumes "run_ok cs newMemoryTrajectoryStore" "s = run_calls ts_step cs newMemoryTrajectoryStore"
    and "tmap s i = Some t" "TrimSpace owner \<noteq> []" "0 < ttl" "newID \<noteq> []" "now \<noteq> 0" "now + ttl \<noteq> 0"
    and "\<And>x. tjExecution (mtTrajectory t) = Some x \<Longrightarrow> txRevision x + 1 \<noteq> 0"
  shows "(\<exists>ms. ts_ListRecoverable None wall now s = Inr ms \<and> (\<exists>m\<in>set ms. tmID m = i)) \<longleftrightarrow>
    (\<exists>s' x. ts_ClaimExecution None newID wall i owner now ttl s = Some (s', Inr x) \<and>
       txLeaseToken x = newID \<and> txOwner x = owner \<and> txLeaseExpiresAt x = now + ttl)"
proof -
  have inv: "ts_inv s" using ts_run_inv [OF ts_inv_new assms(1)] assms(2) by simp
  obtain n L where ok: "local_ok i t" "sees (tmap s) n i L" by (rule ts_invD [OF inv assms(3)])
  have tl: "trajectoryLocked i s = Inr t" using sees_name [OF ok(2)] assms(3) by (simp add: trajectoryLocked_Inr)
  let ?rec = "case tjExecution (mtTrajectory t) of None \<Rightarrow> False | Some x \<Rightarrow> tx_RecoverableAt wall x now"
  have mem: "(j, u) \<in> set (msTrajectories s) \<longleftrightarrow> tmap s j = Some u" for j u
    by (rule gm_mem_iff) (use inv in \<open>simp add: ts_inv_def\<close>)
  have "tmID (stored_metadata u) = j" if "tmap s j = Some u" for j u
    using ts_invD [OF inv that] by (auto simp: stored_metadata_def TrajectoryMetadata_def local_ok_def)
  then have "(\<exists>ms. ts_ListRecoverable None wall now s = Inr ms \<and> (\<exists>m\<in>set ms. tmID m = i)) \<longleftrightarrow> ?rec"
    using assms(3,7) mem by (fastforce simp: ts_ListRecoverable_def Let_def split: option.splits)
  also have "\<dots> \<longleftrightarrow> (\<exists>s' x. ts_ClaimExecution None newID wall i owner now ttl s = Some (s', Inr x) \<and>
       txLeaseToken x = newID \<and> txOwner x = owner \<and> txLeaseExpiresAt x = now + ttl)"
  proof (cases "tjExecution (mtTrajectory t)")
    case None
    then show ?thesis using Claim_applies assms(3) by fastforce
  next
    case (Some x)
    have "ValidateTrajectoryExecution x = None" using ok(1) Some by (simp add: local_ok_def)
    note v = claim_valid [OF this assms(4,6,7,8) assms(9) [OF Some]]
    show ?thesis
    proof (cases "tx_RecoverableAt wall x now")
      case True
      then have "\<exists>x'. ClaimTrajectoryExecution newID wall x owner now ttl = Inr x' \<and>
          txLeaseToken x' = newID \<and> txOwner x' = owner \<and> txLeaseExpiresAt x' = now + ttl"
        using assms(4,5) v by (simp add: ClaimTrajectoryExecution_Inr)
      then show ?thesis
        using True Some tl assms(7) by (auto simp: ts_ClaimExecution_def with_outcome_def execution_of_def)
    next
      case False
      then show ?thesis
        using Some assms(3,7) Claim_applies [of None newID wall i owner now ttl s]
        by (auto simp: ClaimTrajectoryExecution_Inr)
    qed
  qed
  finally show ?thesis .
qed

theorem ts_ListRecoverable_claimable_witness:
  "(\<exists>ms. ts_ListRecoverable None 200 200 tj_demo = Inr ms \<and> (\<exists>m\<in>set ms. tmID m = ''main'')) \<longleftrightarrow>
    (\<exists>s' x. ts_ClaimExecution None ''k2'' 200 ''main'' ''w2'' 200 60 tj_demo = Some (s', Inr x) \<and>
       txLeaseToken x = ''k2'' \<and> txOwner x = ''w2'' \<and> txLeaseExpiresAt x = 260)"
proof -
  have "map_option (\<lambda>t. map_option txRevision (tjExecution (mtTrajectory t))) (tmap tj_demo ''main'') = Some (Some 3)"
    by code_simp
  then obtain t x where t: "tmap tj_demo ''main'' = Some t" "tjExecution (mtTrajectory t) = Some x" "txRevision x = 3"
    by auto
  have "TrimSpace ''w2'' \<noteq> []" by code_simp
  with t show ?thesis
    using ts_ListRecoverable_claimable [OF run_ok_demo tj_demo_def t(1), of "''w2''" 60 "''k2''" 200 200] by simp
qed

end
