(* ===== verification/Context_Drain.thy ===== *)
theory Context_Drain
  imports Context_Queue Trajectory_Fencing
begin

text \<open>
  How the runtime takes context injections into an execution
  (\<open>sdk/runtime/context_injection.go\<close> and the part of \<open>session_projection.go\<close> that
  remembers what was consumed). An injection for an execution is accepted when the
  trajectory store says that the execution is active; the agent loop drains the queue
  before it calls the provider and after a turn, writes the injected messages to a
  checkpoint, and only then removes them from the queue. Whether the checkpoint was
  written is an argument of the drain.
\<close>

section \<open>Targets\<close>

definition contextInjectionMatchesExecution :: "context_injection \<Rightarrow> string \<Rightarrow> bool" where
  "contextInjectionMatchesExecution i executionID \<longleftrightarrow>
     ciTargetExecutionID i = [] \<or> ciTargetExecutionID i = executionID"

definition contextInjectionMatchesSession :: "context_injection \<Rightarrow> string \<Rightarrow> bool" where
  "contextInjectionMatchesSession i sessionID \<longleftrightarrow>
     ciTargetSessionID i = [] \<or> ciTargetSessionID i = sessionID"

definition validateContextInjectionTarget :: "string \<Rightarrow> context_injection \<Rightarrow> error option" where
  "validateContextInjectionTarget sessionID i =
     reject_if (\<not> contextInjectionMatchesSession i sessionID)
       (Errorf ''context injection targets session %q, not %q'')"

definition normalizeContextInjectionForExecution ::
  "string \<Rightarrow> gotime \<Rightarrow> string \<Rightarrow> string \<Rightarrow> context_injection \<Rightarrow> context_injection result" where
  "normalizeContextInjectionForExecution newID wall sessionID executionID injection =
     bind_result (NormalizeContextInjection newID wall injection wall) (\<lambda>normalized.
     check (validateContextInjectionTarget sessionID normalized)
     (let normalized = (if ciTargetSessionID normalized = [] then normalized\<lparr>ciTargetSessionID := sessionID\<rparr> else normalized) in
      if executionID \<noteq> [] then
        if ciTargetExecutionID normalized = []
        then Inr (CloneContextInjection (normalized\<lparr>ciTargetExecutionID := executionID\<rparr>))
        else if ciTargetExecutionID normalized \<noteq> executionID
        then Inl (Errorf ''context injection targets execution %q, not %q'')
        else Inr (CloneContextInjection normalized)
      else Inr (CloneContextInjection normalized)))"

text \<open>The check against the trajectory store.\<close>

definition validateContextInjectionExecutionStoreTarget ::
  "ctx \<Rightarrow> tj_store \<Rightarrow> string \<Rightarrow> string \<Rightarrow> error option" where
  "validateContextInjectionExecutionStoreTarget ctx store trajectoryID executionID =
     (if executionID = [] then Some (Errorf ''context injection execution ID is empty'')
      else case ts_LoadMetadata ctx trajectoryID store of
        Inl e \<Rightarrow> Some e
      | Inr metadata \<Rightarrow>
          (case tmExecution metadata of
             None \<Rightarrow> Some (Wrapf ErrExecutionNotFound ''%w: trajectory %s execution %s is not active'')
           | Some x \<Rightarrow> reject_if (txID x \<noteq> executionID \<or> tx_Terminal x)
               (Wrapf ErrExecutionNotFound ''%w: trajectory %s execution %s is not active'')))"

text \<open>\<open>ExecutionLifecycle.EnqueueContextInjection\<close> on the two stores.\<close>

definition EnqueueContextInjection ::
  "ctx \<Rightarrow> string \<Rightarrow> gotime \<Rightarrow> tj_store \<Rightarrow> string \<Rightarrow> string \<Rightarrow> context_injection \<Rightarrow> ci_store \<Rightarrow> ci_store \<times> error option" where
  "EnqueueContextInjection ctx newID wall trajectories trajectoryID executionID injection s =
     (case check (validateContextInjectionExecutionStoreTarget ctx trajectories trajectoryID executionID)
         (normalizeContextInjectionForExecution newID wall trajectoryID executionID injection) of
        Inl e \<Rightarrow> (s, Some e)
      | Inr normalized \<Rightarrow> ci_Enqueue ctx (\<lambda>_. newID) wall [normalized] s)"

section \<open>Draining\<close>

datatype contextInjectionDrainBoundary = contextInjectionBeforeProvider | contextInjectionAfterTurn

definition contextInjectionEligible :: "context_injection \<Rightarrow> contextInjectionDrainBoundary \<Rightarrow> bool" where
  "contextInjectionEligible i boundary = (case boundary of
       contextInjectionBeforeProvider \<Rightarrow> ciPriority i = ContextInjectionNow \<or> ciPriority i = ContextInjectionNext
     | contextInjectionAfterTurn \<Rightarrow> True)"

definition contextInjectionPriorityRank :: "ContextInjectionPriority \<Rightarrow> nat" where
  "contextInjectionPriorityRank p = (case p of
       ContextInjectionNow \<Rightarrow> 0 | ContextInjectionNext \<Rightarrow> 1 | ContextInjectionLater \<Rightarrow> 2 | _ \<Rightarrow> 1)"

text \<open>What a session remembers: the IDs it has consumed and the injections it has taken in.\<close>

record drain_session =
  dsID :: string
  dsExecutionID :: string
  dsConsumed :: "string list"
  dsInjections :: "context_injection list"

definition pending_of ::
  "drain_session \<Rightarrow> contextInjectionDrainBoundary \<Rightarrow> nat \<Rightarrow> context_injection \<Rightarrow> bool" where
  "pending_of session boundary rank i \<longleftrightarrow>
     contextInjectionPriorityRank (ciPriority i) = rank \<and> contextInjectionMatchesSession i (dsID session) \<and>
     contextInjectionMatchesExecution i (dsExecutionID session) \<and> contextInjectionEligible i boundary \<and>
     ciID i \<notin> set (dsConsumed session)"

definition pendingContextInjections ::
  "ctx \<Rightarrow> contextInjectionDrainBoundary \<Rightarrow> drain_session \<Rightarrow> ci_store \<Rightarrow> context_injection list result" where
  "pendingContextInjections ctx boundary session s =
     bind_result (ci_List ctx \<lparr>cqTargetSessionID = dsID session, cqTargetExecutionID = dsExecutionID session,
         cqLimit = 0\<rparr> s) (\<lambda>listed.
       Inr (concat (map (\<lambda>rank. map CloneContextInjection (filter (pending_of session boundary rank) listed)) [0, 1, 2])))"

definition messagesFromContextInjections :: "context_injection list \<Rightarrow> message list" where
  "messagesFromContextInjections injections = concat (map (\<lambda>i. CloneMessages (ciMessages i)) injections)"

definition hasContextInjectionProjection :: "drain_session \<Rightarrow> string \<Rightarrow> bool" where
  "hasContextInjectionProjection session i \<longleftrightarrow> i \<noteq> [] \<and> list_ex (\<lambda>j. ciID j = i) (dsInjections session)"

fun markContextInjectionsConsumed :: "context_injection list \<Rightarrow> drain_session \<Rightarrow> drain_session" where
  "markContextInjectionsConsumed [] session = session"
| "markContextInjectionsConsumed (i # injections) session =
     (if ciID i = [] then markContextInjectionsConsumed injections session
      else
        let session = session\<lparr>dsConsumed := List.insert (ciID i) (dsConsumed session)\<rparr>;
            session = (if hasContextInjectionProjection session (ciID i) then session
                       else session\<lparr>dsInjections := dsInjections session @ [CloneContextInjection i]\<rparr>)
        in markContextInjectionsConsumed injections session)"

text \<open>A failed removal is logged and otherwise ignored.\<close>

definition consumeContextInjections :: "ctx \<Rightarrow> context_injection list \<Rightarrow> ci_store \<Rightarrow> ci_store" where
  "consumeContextInjections ctx injections s =
     (let ids = filter (\<lambda>i. i \<noteq> []) (map ciID injections) in
      if length ids = 0 then s else fst (ConsumeContextInjections ctx ids s))"

text \<open>
  The drain. \<open>ctx\<close> is the context when the queue is listed and \<open>late\<close> the same context when
  the injections are removed, which may have been cancelled in between; \<open>checkpoint\<close> is the outcome of \<open>checkpointTrajectory\<close> for the extended
  conversation; the results are the session, the queue, the conversation and whether
  anything was taken in.
\<close>

definition checkpointQueuedContext ::
  "ctx \<Rightarrow> ctx \<Rightarrow> (message list \<Rightarrow> context_injection list \<Rightarrow> error option) \<Rightarrow> contextInjectionDrainBoundary \<Rightarrow>
   message list \<Rightarrow> drain_session \<Rightarrow> ci_store \<Rightarrow> drain_session \<times> ci_store \<times> message list \<times> bool result" where
  "checkpointQueuedContext ctx late checkpoint boundary messages session s =
     (case pendingContextInjections ctx boundary session s of
        Inl e \<Rightarrow> (session, s, messages, Inl e)
      | Inr injections \<Rightarrow>
          if length injections = 0 then (session, s, messages, Inr False)
          else
            let messages' = messages @ messagesFromContextInjections injections in
            case checkpoint messages' injections of
              Some e \<Rightarrow> (session, s, messages, Inl e)
            | None \<Rightarrow> (markContextInjectionsConsumed injections session, consumeContextInjections late injections s,
                messages', Inr True))"

section \<open>What a drain takes\<close>

definition takes :: "drain_session \<Rightarrow> contextInjectionDrainBoundary \<Rightarrow> context_injection \<Rightarrow> bool" where
  "takes session boundary i \<longleftrightarrow> contextInjectionMatchesSession i (dsID session) \<and>
     contextInjectionMatchesExecution i (dsExecutionID session) \<and> contextInjectionEligible i boundary \<and>
     ciID i \<notin> set (dsConsumed session)"

abbreviation rank_of :: "context_injection \<Rightarrow> nat" where
  "rank_of i \<equiv> contextInjectionPriorityRank (ciPriority i)"

lemma rank_of_less: "rank_of i < 3"
  by (auto simp: contextInjectionPriorityRank_def split: ContextInjectionPriority.split)

lemma pending_of_takes: "pending_of session boundary k i \<longleftrightarrow> takes session boundary i \<and> rank_of i = k"
  by (auto simp: pending_of_def takes_def)

lemma takes_MatchesQuery:
  "takes session boundary i \<Longrightarrow>
   MatchesQuery i \<lparr>cqTargetSessionID = dsID session, cqTargetExecutionID = dsExecutionID session, cqLimit = 0\<rparr>"
  by (auto simp: takes_def MatchesQuery_def contextInjectionMatchesSession_def contextInjectionMatchesExecution_def)

lemma pending_ranks:
  assumes inv: "ci_inv s" and ok: "pendingContextInjections None boundary session s = Inr xs"
  shows "xs = concat (map (\<lambda>k. filter (\<lambda>i. takes session boundary i \<and> rank_of i = k) (ci_queue s)) [0..<3])"
proof -
  let ?q = "\<lparr>cqTargetSessionID = dsID session, cqTargetExecutionID = dsExecutionID session, cqLimit = 0\<rparr>"
  let ?take = "\<lambda>k i. takes session boundary i \<and> rank_of i = k"
  obtain listed where l: "ci_List None ?q s = Inr listed"
    and xs: "xs = concat (map (\<lambda>k. map CloneContextInjection (filter (?take k) listed)) [0, 1, 2])"
    using ok by (auto simp: pendingContextInjections_def result_simps pending_of_takes [abs_def])
  have listed: "listed = filter (\<lambda>i. MatchesQuery i ?q) (ci_queue s)"
    using ci_List_queue [OF inv l] by simp
  have f: "filter (?take k) listed = filter (?take k) (ci_queue s)" for k
    unfolding listed filter_filter by (rule filter_cong) (auto dest: takes_MatchesQuery)
  have c: "map CloneContextInjection (filter P (ci_queue s)) = filter P (ci_queue s)" for P
  proof (rule map_idI)
    fix x
    assume "x \<in> set (filter P (ci_queue s))"
    then show "CloneContextInjection x = x" using inv by (auto simp: ci_queue_def ci_inv_def ci_normal_def)
  qed
  have "[0..<3] = [0, 1, 2 :: nat]" by (simp add: upt_rec)
  then show ?thesis unfolding xs f c by simp
qed

lemma concat_ranks_filter:
  "filter (\<lambda>x. rank x = k) (concat (map (\<lambda>k. filter (\<lambda>x. P x \<and> rank x = k) xs) [0..<n])) =
   (if k < n then filter (\<lambda>x. P x \<and> rank x = k) xs else [])" for k n :: nat
proof (induction n)
  case (Suc n)
  have "filter (\<lambda>x. rank x = k) (filter (\<lambda>x. P x \<and> rank x = n) xs) = (if k = n then filter (\<lambda>x. P x \<and> rank x = n) xs else [])"
    by (induction xs) auto
  then show ?case using Suc by (auto simp: less_Suc_eq)
qed simp

lemma concat_ranks_sorted:
  "sorted (map rank (concat (map (\<lambda>k. filter (\<lambda>x. P x \<and> rank x = k) xs) [0..<n])))" for n :: nat
proof (induction n)
  case (Suc n)
  have "rank x < n" if "x \<in> set (concat (map (\<lambda>k. filter (\<lambda>x. P x \<and> rank x = k) xs) [0..<n]))" for x
    using that by auto
  moreover have "sorted (map rank (filter (\<lambda>x. P x \<and> rank x = n) xs))"
    by (rule sorted_wrt_mono_rel [of _ "\<lambda>_ _. True"]) (auto simp: sorted_wrt_true)
  ultimately show ?case using Suc by (auto simp: sorted_append)
qed simp

lemma concat_ranks_mset:
  "mset (concat (map (\<lambda>k. filter (\<lambda>x. P x \<and> rank x = k) xs) [0..<n])) = mset (filter (\<lambda>x. P x \<and> rank x < n) xs)" for n :: nat
proof (induction n)
  case (Suc n)
  have "mset (filter (\<lambda>x. P x \<and> rank x < n) xs) + mset (filter (\<lambda>x. P x \<and> rank x = n) xs) =
      mset (filter (\<lambda>x. P x \<and> rank x < Suc n) xs)"
    by (induction xs) (auto simp: less_Suc_eq)
  then show ?case using Suc by simp
qed simp

lemma pending_mset:
  assumes "ci_inv s" "pendingContextInjections None boundary session s = Inr xs"
  shows "mset xs = mset (filter (takes session boundary) (ci_queue s))"
  using concat_ranks_mset [of "takes session boundary" rank_of "ci_queue s" 3] pending_ranks [OF assms] rank_of_less by simp

lemma pending_distinct:
  assumes "ci_inv s" "pendingContextInjections None boundary session s = Inr xs"
  shows "distinct (map ciID xs)"
proof -
  have "mset (map ciID xs) = mset (map ciID (filter (takes session boundary) (ci_queue s)))"
    using pending_mset [OF assms] by (metis mset_map)
  moreover have "distinct (map ciID (filter (takes session boundary) (ci_queue s)))"
    using ci.ids_distinct [OF assms(1)] by (rule distinct_map_filter)
  ultimately show ?thesis using mset_eq_imp_distinct_iff by blast
qed

text \<open>
  A drain takes exactly the stored injections that are meant for the session and its
  execution, may enter at the boundary and were not consumed before: each once, those of
  higher priority first and those of one priority in the order in which they were accepted.
\<close>

theorem pending_in_priority_order:
  assumes "list_all ci_call_ok cs" "sum_list (map ci_call_load cs) < 2 ^ 64"
    and "s = run_calls ci_step cs newMemoryContextInjectionStore"
    and "pendingContextInjections None boundary session s = Inr xs"
  shows "(\<forall>i. i \<in> set xs \<longleftrightarrow> i \<in> set (ci_queue s) \<and> takes session boundary i) \<and> distinct (map ciID xs) \<and>
    sorted (map rank_of xs) \<and>
    (\<forall>k. filter (\<lambda>i. rank_of i = k) xs = filter (\<lambda>i. takes session boundary i \<and> rank_of i = k) (ci_queue s))"
proof -
  have inv: "ci_inv s"
    using ci_run_inv [OF ci_inv_new, of cs 0] assms(1-3) by (simp add: ci_room_def newMemoryContextInjectionStore_def)
  have "set xs = set (filter (takes session boundary) (ci_queue s))"
    using pending_mset [OF inv assms(4)] by (metis set_mset_mset)
  moreover have "filter (\<lambda>i. rank_of i = k) xs = filter (\<lambda>i. takes session boundary i \<and> rank_of i = k) (ci_queue s)" for k
  proof (cases "k < 3")
    case True
    then show ?thesis
      unfolding pending_ranks [OF inv assms(4)] concat_ranks_filter by simp
  next
    case False
    then have "filter (\<lambda>i. takes session boundary i \<and> rank_of i = k) (ci_queue s) = []"
      using rank_of_less by (auto simp: filter_empty_conv)
    then show ?thesis using False unfolding pending_ranks [OF inv assms(4)] concat_ranks_filter by simp
  qed
  moreover have "sorted (map rank_of xs)"
    unfolding pending_ranks [OF inv assms(4)] by (rule concat_ranks_sorted)
  ultimately show ?thesis using pending_distinct [OF inv assms(4)] by auto
qed

definition session_demo :: drain_session where
  "session_demo = \<lparr>dsID = ''main'', dsExecutionID = ''x1'', dsConsumed = [], dsInjections = []\<rparr>"

definition drain_calls_demo :: "ci_call list" where
  "drain_calls_demo = [CIEnqueue None (\<lambda>_. ''n'') 10 [injection_demo ''a'' ContextInjectionLater 5,
     injection_demo ''b'' ContextInjectionNext 6, injection_demo ''c'' ContextInjectionNow 7, injection_demo ''d'' ContextInjectionNext 8]]"

lemma drain_demo_ok: "list_all ci_call_ok drain_calls_demo"
proof -
  have "resourceNamePattern ''n''" by code_simp
  then show ?thesis by (simp add: drain_calls_demo_def injection_demo_def)
qed

theorem pending_in_priority_order_witness:
  "\<exists>xs. pendingContextInjections None contextInjectionAfterTurn session_demo
       (run_calls ci_step drain_calls_demo newMemoryContextInjectionStore) = Inr xs \<and>
     map ciID xs = [''c'', ''b'', ''d'', ''a''] \<and> sorted (map rank_of xs)"
proof -
  let ?s = "run_calls ci_step drain_calls_demo newMemoryContextInjectionStore"
  have "map_sum id (map ciID) (pendingContextInjections None contextInjectionAfterTurn session_demo ?s) =
      Inr [''c'', ''b'', ''d'', ''a'']" by code_simp
  then obtain xs where xs: "pendingContextInjections None contextInjectionAfterTurn session_demo ?s = Inr xs"
    "map ciID xs = [''c'', ''b'', ''d'', ''a'']" by (elim map_sum_InrE) auto
  then show ?thesis using pending_in_priority_order [OF drain_demo_ok _ refl xs(1)] by (simp add: drain_calls_demo_def)
qed

section \<open>From acceptance to the conversation\<close>

lemma target_active:
  assumes "validateContextInjectionExecutionStoreTarget ctx store tid xid = None"
  obtains t x where "ctx = None" "tmap store tid = Some t" "resourceNamePattern tid"
    "tjExecution (mtTrajectory t) = Some x" "txID x = xid" "\<not> tx_Terminal x" "xid \<noteq> []"
proof -
  obtain t x where t: "check ctx (trajectoryLocked tid store) = Inr t" "tjExecution (mtTrajectory t) = Some x"
    "txID x = xid" "\<not> tx_Terminal x" "xid \<noteq> []"
    using assms by (auto simp: validateContextInjectionExecutionStoreTarget_def ts_LoadMetadata_def result_simps
        stored_metadata_def TrajectoryMetadata_def split: if_splits sum.splits option.splits)
  then show ?thesis using that [of t x] by (simp add: result_simps trajectoryLocked_Inr)
qed

lemma normalizeForExecution_Inr:
  assumes "normalizeContextInjectionForExecution newID wall tid xid i = Inr j" "xid \<noteq> []"
  shows "ciTargetSessionID j = tid" "ciTargetExecutionID j = xid"
  using assms
  by (auto simp: normalizeContextInjectionForExecution_def result_simps Let_def validateContextInjectionTarget_def
      contextInjectionMatchesSession_def split: if_splits)

lemma Normalize_targets:
  assumes "NormalizeContextInjection newID wall i now = Inr j"
  shows "ciTargetSessionID j = ciTargetSessionID i" "ciTargetExecutionID j = ciTargetExecutionID i"
    "optional_name ''context injection target session'' (ciTargetSessionID i) = None"
    "optional_name ''context injection target execution'' (ciTargetExecutionID i) = None"
  using assms by (auto simp: NormalizeContextInjection_def Let_def result_simps split: if_splits)

lemma ci_List_ok:
  "optional_name ''context injection target session'' ss = None \<Longrightarrow>
   optional_name ''context injection target execution'' x = None \<Longrightarrow>
   \<exists>ys. ci_List None \<lparr>cqTargetSessionID = ss, cqTargetExecutionID = x, cqLimit = 0\<rparr> s = Inr ys"
  by (simp add: ci_List_def ci_ValidateQuery_def)

text \<open>What an accepted injection leaves in the queue.\<close>

lemma ci_Enqueue_one:
  assumes "ci_inv s" "ci_Enqueue None (\<lambda>_. newID) wall [i] s = (s', None)"
    and "resourceNamePattern newID" "wall \<noteq> 0" "gm_wf (ciAttributes i)" "ci_room s 1"
  shows "\<exists>j z. NormalizeContextInjection newID wall i wall = Inr z \<and> ci_inv s' \<and> j \<in> set (ci_queue s') \<and> ci_SameIdentity j z"
proof -
  obtain z where z: "NormalizeContextInjection newID wall i wall = Inr z" "first_error (ci_conflict s) [z] = None"
    "s' = fold ci_add [z] s"
    using assms(2,4) by (auto simp: ci_Enqueue_def PrepareBatch_def result_simps split: sum.splits option.splits)
  have n: "ci_normal z" "gm_wf (ciAttributes z)"
    using NormalizeContextInjection_Inr(1,2) [OF z(1) assms(3)] assms(4,5) by auto
  have "ci_inv s' \<and> ci_queue s' = ci_queue s @ filter (\<lambda>x. ciID x \<notin> ciID ` set (ci_queue s)) [z]"
    unfolding z(3) by (rule ci.add_queue [OF assms(1)]) (use n assms(6) in auto)
  then have s': "ci_inv s'" "ci_queue s' = ci_queue s @ filter (\<lambda>x. ciID x \<notin> ciID ` set (ci_queue s)) [z]" by auto
  show ?thesis
  proof (cases "map_of (cjInjections s) (ciID z)")
    case None
    then have "z \<in> set (ci_queue s')" using s'(2) ci_queue_ids [OF assms(1)] by auto
    then show ?thesis using z(1) s'(1) ci_SameIdentity_refl [OF n(2)] by blast
  next
    case (Some r)
    then have "ci_SameIdentity (crInjection r) z" using z(2) by (simp add: ci_conflict_def result_simps)
    moreover have "crInjection r \<in> set (ci_queue s')"
      using Some ci_inv_mem [OF assms(1)] s'(2) by (auto simp: ci_queue_def)
    ultimately show ?thesis using z(1) s'(1) by blast
  qed
qed

text \<open>
  C33: Accepted context reaches the conversation. An injection for an execution is accepted only
  while the trajectory store has that execution as an active one; then it is queued,
  addressed to the session and the execution, and the next drain of that execution after a
  turn takes it in (before a call of the provider too, unless its priority is to wait),
  provided the session has not consumed its ID.
\<close>

theorem accepted_context_is_drained:
  assumes "list_all ci_call_ok cs" "sum_list (map ci_call_load cs) + 1 < 2 ^ 64"
    and "s = run_calls ci_step cs newMemoryContextInjectionStore"
    and "EnqueueContextInjection ctx newID wall trajectories tid xid injection s = (s', None)"
    and "resourceNamePattern newID" "wall \<noteq> 0" "gm_wf (ciAttributes injection)"
    and "dsID session = tid" "dsExecutionID session = xid"
  shows "\<exists>t x j z. tmap trajectories tid = Some t \<and> tjExecution (mtTrajectory t) = Some x \<and> txID x = xid \<and>
    \<not> tx_Terminal x \<and> normalizeContextInjectionForExecution newID wall tid xid injection = Inr z \<and>
    ciID j = ciID z \<and> ciMessages j = ciMessages z \<and> ciPriority j = ciPriority z \<and> ciTargetSessionID j = tid \<and> ciTargetExecutionID j = xid \<and>
    (\<forall>boundary. ciID j \<notin> set (dsConsumed session) \<longrightarrow>
      boundary = contextInjectionAfterTurn \<or> ciPriority j \<noteq> ContextInjectionLater \<longrightarrow>
      (\<exists>xs. pendingContextInjections None boundary session s' = Inr xs \<and> j \<in> set xs))"
proof -
  have inv: "ci_inv s" "ci_room s 1"
    using ci_run_inv [OF ci_inv_new, of cs 1] assms(1-3) by (auto simp: ci_room_def newMemoryContextInjectionStore_def)
  obtain z where target: "validateContextInjectionExecutionStoreTarget ctx trajectories tid xid = None"
    and z: "normalizeContextInjectionForExecution newID wall tid xid injection = Inr z"
    and enq: "ci_Enqueue ctx (\<lambda>_. newID) wall [z] s = (s', None)"
    using assms(4) by (auto simp: EnqueueContextInjection_def result_simps split: sum.splits)
  obtain t x where t: "ctx = None" "tmap trajectories tid = Some t" "resourceNamePattern tid"
    "tjExecution (mtTrajectory t) = Some x" "txID x = xid" "\<not> tx_Terminal x" "xid \<noteq> []"
    by (rule target_active [OF target])
  obtain y where y: "NormalizeContextInjection newID wall injection wall = Inr y"
    using z by (auto simp: normalizeContextInjectionForExecution_def result_simps)
  have zy: "ciAttributes z = ciAttributes y" "ciMessages z = CloneMessages (ciMessages y)" "ciID z = ciID y"
    "CloneContextInjection z = z" "ciPriority z = ciPriority y" "ciMode z = ciMode y" "ciCreatedAt z = ciCreatedAt y"
    using z y by (auto simp: normalizeContextInjectionForExecution_def result_simps Let_def CloneContextInjection_def split: if_splits)
  have "ciAttributes y = ciAttributes injection" using NormalizeContextInjection_Inr(2) [OF y] assms(5,6) by simp
  then have wf: "gm_wf (ciAttributes z)" using assms(7) zy(1) by simp
  obtain j w where w: "NormalizeContextInjection newID wall z wall = Inr w" "ci_inv s'" "j \<in> set (ci_queue s')" "ci_SameIdentity j w"
    using ci_Enqueue_one [OF inv(1) enq [unfolded t(1)] assms(5,6) wf inv(2)] by blast
  have "ci_normal z"
    using NormalizeContextInjection_Inr(1) [OF y assms(5)] Normalize_targets(3,4) [OF w(1)] assms(6) zy
    by (auto simp: ci_normal_def)
  then have "w = z" using NormalizeContextInjection_normal w(1) by simp
  note zt = normalizeForExecution_Inr [OF z t(7)]
  have j: "ciID j = ciID z" "ciMessages j = ciMessages z" "ciPriority j = ciPriority z" "ciTargetSessionID j = tid" "ciTargetExecutionID j = xid"
    using w(4) \<open>w = z\<close> zt by (auto simp: ci_SameIdentity_def)
  have jn: "ci_normal j" using w(2,3) by (auto simp: ci_queue_def ci_inv_def)
  have "\<exists>xs. pendingContextInjections None boundary session s' = Inr xs \<and> j \<in> set xs"
    if c: "ciID j \<notin> set (dsConsumed session)" and b: "boundary = contextInjectionAfterTurn \<or> ciPriority j \<noteq> ContextInjectionLater"
    for boundary
  proof -
    have "takes session boundary j"
      using c b j jn assms(8,9) by (auto simp: takes_def contextInjectionMatchesSession_def contextInjectionMatchesExecution_def
          contextInjectionEligible_def ci_normal_def split: contextInjectionDrainBoundary.split)
    moreover obtain xs where xs: "pendingContextInjections None boundary session s' = Inr xs"
      using ci_List_ok [of tid xid s'] jn j assms(8,9) by (auto simp: pendingContextInjections_def ci_normal_def)
    moreover have "set xs = set (filter (takes session boundary) (ci_queue s'))"
      using pending_mset [OF w(2) xs] by (metis set_mset_mset)
    ultimately show ?thesis using w(3) by auto
  qed
  then show ?thesis using t z j by blast
qed

theorem accepted_context_is_drained_witness:
  "\<exists>s' xs j. EnqueueContextInjection None ''n'' 150 tj_demo ''main'' ''x1'' (injection_demo ''a'' ContextInjectionNow 5)
       newMemoryContextInjectionStore = (s', None) \<and>
     pendingContextInjections None contextInjectionBeforeProvider session_demo s' = Inr xs \<and> j \<in> set xs \<and> ciID j = ''a''"
proof -
  let ?i = "injection_demo ''a'' ContextInjectionNow 5"
  let ?r = "EnqueueContextInjection None ''n'' 150 tj_demo ''main'' ''x1'' ?i newMemoryContextInjectionStore"
  have r: "snd ?r = None" by code_simp
  have z: "map_sum id (\<lambda>z. (ciID z, ciPriority z)) (normalizeContextInjectionForExecution ''n'' 150 ''main'' ''x1'' ?i) =
      Inr (''a'', ContextInjectionNow)" by code_simp
  have n: "resourceNamePattern ''n''" by code_simp
  obtain s' where s': "?r = (s', None)" using r by (metis prod.collapse)
  from accepted_context_is_drained [of "[]" newMemoryContextInjectionStore, OF _ _ _ s' n, of session_demo] z
  show ?thesis using s' by (auto simp: session_demo_def injection_demo_def elim!: map_sum_InrE) blast
qed

end
