(* ===== verification/Context_Projection.thy ===== *)
theory Context_Projection
  imports Context_Drain Checkpoints
begin

text \<open>
  What a session remembers of the context it has taken in
  (\<open>sdk/runtime/session_projection.go\<close>): every checkpoint records the injections and the
  consumed IDs, and the session is set back to a checkpoint when it is rolled back and when
  an execution fails.
\<close>

section \<open>The projection\<close>

fun project_new :: "string list \<Rightarrow> context_injection list \<Rightarrow> context_injection list" where
  "project_new seen [] = []"
| "project_new seen (i # injections) =
     (if ciID i = [] \<or> ciID i \<in> set seen then project_new seen injections
      else CloneContextInjection i # project_new (ciID i # seen) injections)"

definition contextInjectionProjection :: "drain_session \<Rightarrow> context_injection list \<Rightarrow> context_injection list" where
  "contextInjectionProjection session injections =
     (let result = map CloneContextInjection (dsInjections session) in
      result @ project_new (filter (\<lambda>i. i \<noteq> []) (map ciID result)) injections)"

fun consume_new :: "string list \<Rightarrow> context_injection list \<Rightarrow> string list" where
  "consume_new seen [] = []"
| "consume_new seen (i # injections) =
     (if ciID i = [] \<or> ciID i \<in> set seen then consume_new seen injections
      else ciID i # consume_new (ciID i # seen) injections)"

definition consumedContextInjectionIDs :: "drain_session \<Rightarrow> context_injection list \<Rightarrow> string list" where
  "consumedContextInjectionIDs session injections =
     (let ids = filter (\<lambda>i. i \<noteq> []) (dsConsumed session) in sort (ids @ consume_new ids injections))"

text \<open>
  The checkpoint that \<open>checkpointTrajectory\<close> writes; \<open>commit\<close> has the other fields. One of mode
  branch is written without messages, and loading it restores them from the branch
  (\<open>HydrateCheckpointMessages\<close>): \<open>read_back\<close> is the value that loading returns.
\<close>

definition checkpointTrajectory ::
  "checkpoint \<Rightarrow> drain_session \<Rightarrow> message list \<Rightarrow> context_injection list \<Rightarrow> checkpoint" where
  "checkpointTrajectory commit session messages injections =
     commit\<lparr>ckMessages := (if ckMessageMode commit = CheckpointMessagesBranch then [] else CloneMessages messages),
       ckContextInjections := map CloneContextInjection (contextInjectionProjection session injections),
       ckConsumedContextInjectionIDs := consumedContextInjectionIDs session injections\<rparr>"

definition read_back :: "message list \<Rightarrow> checkpoint \<Rightarrow> checkpoint" where
  "read_back messages cp = cp\<lparr>ckMessages := CloneMessages messages\<rparr>"

definition applyContextInjectionProjection :: "checkpoint option \<Rightarrow> drain_session \<Rightarrow> drain_session" where
  "applyContextInjectionProjection checkpoint session = (case checkpoint of
       None \<Rightarrow> session\<lparr>dsConsumed := [], dsInjections := []\<rparr>
     | Some cp \<Rightarrow>
         let injections = map CloneContextInjection (ckContextInjections cp) in
         session\<lparr>dsInjections := injections,
           dsConsumed := fold List.insert (filter (\<lambda>i. i \<noteq> []) (ckConsumedContextInjectionIDs cp @ map ciID injections)) []\<rparr>)"

text \<open>The projections, on the session and its messages; the configuration is left out.\<close>

definition applyCheckpointProjection :: "checkpoint \<Rightarrow> drain_session \<Rightarrow> drain_session \<times> message list" where
  "applyCheckpointProjection cp session =
     (applyContextInjectionProjection (Some cp) session, CloneMessages (ckMessages cp))"

definition applyExecutionBaseProjection ::
  "message list \<Rightarrow> checkpoint option \<Rightarrow> drain_session \<Rightarrow> drain_session \<times> message list" where
  "applyExecutionBaseProjection base checkpoint session =
     (applyContextInjectionProjection checkpoint session, CloneMessages base)"

section \<open>The life of a session\<close>

text \<open>
  A session with its queue and the checkpoints of its trajectory. Checkpoints carry, as a
  history that nobody reads, the IDs of the injections that drains added on the way to
  their conversation; \<open>csTaken\<close> has these IDs for the current conversation. \<open>csLatest\<close> is the
  latest checkpoint of the active branch, \<open>csBase\<close> what an execution started from: the
  conversation, its history, and the latest checkpoint then.
\<close>

type_synonym saved = "string list \<times> checkpoint"

record context_session =
  csSession :: drain_session
  csQueue :: ci_store
  csMessages :: "message list"
  csTaken :: "string list"
  csSaved :: "saved list"
  csLatest :: "saved option"
  csBase :: "message list \<times> string list \<times> saved option"

datatype session_call =
    SQueue ci_call
  | SAccept string
  | SMessages "message list"
  | SCheckpoint checkpoint
  | SDrain ctx ctx "error option" checkpoint contextInjectionDrainBoundary
  | SComplete
  | SFail bool
  | SRollback nat

text \<open>
  Clients use the queue; an execution is accepted; the loop changes the conversation
  (answers of the provider, results of tools, hooks); a turn ends with a checkpoint; the
  queue is drained, where the checkpoint may fail and the context be cancelled before the
  removal; the execution completes, or fails and the session returns to its base while the
  trajectory's head is moved back or, in a graceful shutdown, left; and \<open>Session.Rollback\<close>,
  which the trajectory store refuses while an execution is active.
\<close>

fun session_step :: "session_call \<Rightarrow> context_session \<Rightarrow> context_session" where
  "session_step (SQueue c) st = st\<lparr>csQueue := ci_step c (csQueue st)\<rparr>"
| "session_step (SAccept x) st =
     (if x = [] \<or> dsExecutionID (csSession st) \<noteq> [] then st
      else st\<lparr>csSession := (csSession st)\<lparr>dsExecutionID := x\<rparr>, csBase := (csMessages st, csTaken st, csLatest st)\<rparr>)"
| "session_step (SMessages messages) st = st\<lparr>csMessages := messages\<rparr>"
| "session_step (SCheckpoint commit) st =
     (let cp = (csTaken st, read_back (csMessages st) (checkpointTrajectory commit (csSession st) (csMessages st) [])) in
      st\<lparr>csSaved := csSaved st @ [cp], csLatest := Some cp\<rparr>)"
| "session_step (SDrain ctx late outcome commit boundary) st =
     (case checkpointQueuedContext ctx late (\<lambda>_ _. outcome) boundary (csMessages st) (csSession st) (csQueue st) of
        (session, s, messages, r) \<Rightarrow>
          if r = Inr True then
            let injections = projr (pendingContextInjections ctx boundary (csSession st) (csQueue st));
                taken = csTaken st @ map ciID injections;
                cp = (taken, read_back messages (checkpointTrajectory commit (csSession st) messages injections))
            in st\<lparr>csSession := session, csQueue := s, csMessages := messages, csTaken := taken,
                  csSaved := csSaved st @ [cp], csLatest := Some cp\<rparr>
          else st\<lparr>csSession := session, csQueue := s\<rparr>)"
| "session_step SComplete st = st\<lparr>csSession := (csSession st)\<lparr>dsExecutionID := []\<rparr>\<rparr>"
| "session_step (SFail restored) st =
     (if dsExecutionID (csSession st) = [] then st
      else case csBase st of (base, taken, latest) \<Rightarrow>
        let (session, messages) = applyExecutionBaseProjection base (map_option snd (csLatest st)) (csSession st) in
        st\<lparr>csSession := session\<lparr>dsExecutionID := []\<rparr>, csMessages := messages, csTaken := taken,
           csLatest := (if restored then latest else csLatest st)\<rparr>)"
| "session_step (SRollback n) st =
     (if n < length (csSaved st) \<and> dsExecutionID (csSession st) = [] then
        let (taken, cp) = csSaved st ! n; (session, messages) = applyCheckpointProjection cp (csSession st) in
        st\<lparr>csSession := session, csMessages := messages, csTaken := taken, csLatest := Some (taken, cp)\<rparr>
      else st)"

fun session_queue_call :: "session_call \<Rightarrow> ci_call list" where
  "session_queue_call (SQueue c) = [c]"
| "session_queue_call _ = []"

section \<open>What checkpoints remember\<close>

lemma set_consume_new: "set ids \<union> set (consume_new ids xs) = set ids \<union> (ciID ` set xs - {[]})"
  by (induction ids xs rule: consume_new.induct) auto

lemma set_consumedContextInjectionIDs:
  "set (consumedContextInjectionIDs session xs) = (set (dsConsumed session) \<union> ciID ` set xs) - {[]}"
  using set_consume_new [of "filter (\<lambda>i. i \<noteq> []) (dsConsumed session)" xs]
  by (auto simp: consumedContextInjectionIDs_def Let_def)

definition recorded :: "saved option \<Rightarrow> string set" where
  "recorded sv = (case sv of None \<Rightarrow> {} | Some (_, cp) \<Rightarrow> set (ckConsumedContextInjectionIDs cp))"

lemma recorded_checkpoint [simp]:
  "recorded (Some (taken, read_back ms (checkpointTrajectory commit session messages xs))) =
     (set (dsConsumed session) \<union> ciID ` set xs) - {[]}"
  by (simp add: recorded_def checkpointTrajectory_def read_back_def set_consumedContextInjectionIDs)

lemma set_fold_insert: "set (fold List.insert xs acc) = set xs \<union> set acc"
  by (induction xs arbitrary: acc) auto

lemma applied_consumed:
  "recorded sv - {[]} \<subseteq> set (dsConsumed (applyContextInjectionProjection (map_option snd sv) session))"
  by (auto simp: recorded_def applyContextInjectionProjection_def Let_def set_fold_insert split: option.split)

lemma applied_execution [simp]:
  "dsExecutionID (applyContextInjectionProjection cp session) = dsExecutionID session"
  by (simp add: applyContextInjectionProjection_def Let_def split: option.split)

lemma consume_inv:
  assumes "ci_inv s"
  shows "ci_inv (consumeContextInjections ctx xs s) \<and>
    cjNextSequence (consumeContextInjections ctx xs s) = cjNextSequence s"
  using assms ci_remove_queue(1) [OF assms]
  by (auto simp: consumeContextInjections_def ConsumeContextInjections_cases Let_def ci_remove_def split: option.split)

lemma pending_error: "pendingContextInjections (Some e) boundary session s = Inl e"
  by (simp add: pendingContextInjections_def ci_List_def)

lemma mark_consumed:
  "set (dsConsumed (markContextInjectionsConsumed xs session)) = set (dsConsumed session) \<union> (ciID ` set xs - {[]})"
  "dsExecutionID (markContextInjectionsConsumed xs session) = dsExecutionID session"
  by (induction xs session rule: markContextInjectionsConsumed.induct) (auto simp: Let_def)

section \<open>At most once\<close>

definition saved_ok :: "saved \<Rightarrow> bool" where
  "saved_ok sv \<longleftrightarrow> distinct (fst sv) \<and> [] \<notin> set (fst sv) \<and> set (fst sv) \<subseteq> recorded (Some sv)"

text \<open>
  The history of the conversation is free of duplicates and known to the session and to the
  latest checkpoint, and so is that of every checkpoint and of the base of an execution.
\<close>

definition session_inv :: "context_session \<Rightarrow> bool" where
  "session_inv st \<longleftrightarrow> ci_inv (csQueue st) \<and> list_all saved_ok (csSaved st) \<and>
     distinct (csTaken st) \<and> [] \<notin> set (csTaken st) \<and>
     set (csTaken st) \<subseteq> set (dsConsumed (csSession st)) \<inter> recorded (csLatest st) \<and>
     (dsExecutionID (csSession st) \<noteq> [] \<longrightarrow> (case csBase st of (_, taken, latest) \<Rightarrow>
        distinct taken \<and> [] \<notin> set taken \<and>
        set taken \<subseteq> set (dsConsumed (csSession st)) \<inter> recorded (csLatest st) \<inter> recorded latest))"

lemma session_invD:
  assumes "session_inv st"
  shows "ci_inv (csQueue st)" "list_all saved_ok (csSaved st)" "distinct (csTaken st)" "[] \<notin> set (csTaken st)"
    "set (csTaken st) \<subseteq> set (dsConsumed (csSession st))" "set (csTaken st) \<subseteq> recorded (csLatest st)"
  using assms by (simp_all add: session_inv_def)

lemma session_inv_base:
  assumes "session_inv st" "dsExecutionID (csSession st) \<noteq> []" "csBase st = (ms, taken, latest)"
  shows "distinct taken" "[] \<notin> set taken" "set taken \<subseteq> set (dsConsumed (csSession st))"
    "set taken \<subseteq> recorded (csLatest st)" "set taken \<subseteq> recorded latest"
  using assms by (auto simp: session_inv_def)

lemma SDrain_cases:
  fixes st :: context_session
  assumes inv: "ci_inv (csQueue st)"
  obtains (idle) "session_step (SDrain ctx late outcome commit boundary) st = st"
  | (drained) xs where "pendingContextInjections None boundary (csSession st) (csQueue st) = Inr xs"
    "session_step (SDrain ctx late outcome commit boundary) st =
       (let ms = csMessages st @ messagesFromContextInjections xs;
            cp = (csTaken st @ map ciID xs, read_back ms (checkpointTrajectory commit (csSession st) ms xs))
        in st\<lparr>csSession := markContextInjectionsConsumed xs (csSession st),
            csQueue := consumeContextInjections late xs (csQueue st),
            csMessages := ms,
            csTaken := csTaken st @ map ciID xs, csSaved := csSaved st @ [cp], csLatest := Some cp\<rparr>)"
proof (cases "pendingContextInjections ctx boundary (csSession st) (csQueue st)")
  case (Inl e)
  then show thesis using idle by (simp add: checkpointQueuedContext_def)
next
  case (Inr xs)
  have p: "pendingContextInjections None boundary (csSession st) (csQueue st) = Inr xs"
    using Inr by (cases ctx) (auto simp: pending_error)
  show thesis
  proof (cases "xs = [] \<or> outcome \<noteq> None")
    case True
    then show thesis using idle Inr by (auto simp: checkpointQueuedContext_def Let_def)
  next
    case False
    then show thesis using drained [OF p] Inr by (simp add: checkpointQueuedContext_def Let_def)
  qed
qed

lemma pending_new:
  assumes "session_inv st" "pendingContextInjections None boundary (csSession st) (csQueue st) = Inr xs"
  shows "distinct (map ciID xs)" "[] \<notin> ciID ` set xs" "ciID ` set xs \<inter> set (dsConsumed (csSession st)) = {}"
proof -
  note inv = session_invD(1) [OF assms(1)]
  show "distinct (map ciID xs)" by (rule pending_distinct [OF inv assms(2)])
  have xs: "set xs = set (filter (takes (csSession st) boundary) (ci_queue (csQueue st)))"
    using pending_mset [OF inv assms(2)] by (metis set_mset_mset)
  then show "ciID ` set xs \<inter> set (dsConsumed (csSession st)) = {}" by (auto simp: takes_def)
  have "ciID x \<noteq> []" if "x \<in> set xs" for x
    using that inv xs by (auto simp: ci_queue_def ci_inv_def ci_normal_def)
  then show "[] \<notin> ciID ` set xs" by (metis imageE)
qed

lemma session_inv_drain:
  assumes st: "session_inv st"
  shows "session_inv (session_step (SDrain ctx late outcome commit boundary) st)"
  using session_invD(1) [OF st]
proof (cases rule: SDrain_cases [of st ctx late outcome commit boundary])
  case idle
  then show ?thesis using st by simp
next
  case (drained xs)
  let ?s = "csSession st" let ?taken = "csTaken st @ map ciID xs"
  let ?ms = "csMessages st @ messagesFromContextInjections xs"
  let ?cp = "(?taken, read_back ?ms (checkpointTrajectory commit ?s ?ms xs))"
  note new = pending_new [OF st drained(1)] and old = session_invD [OF st]
  have taken: "distinct ?taken" "[] \<notin> set ?taken" "set ?taken \<subseteq> set (dsConsumed (markContextInjectionsConsumed xs ?s))"
    "set ?taken \<subseteq> recorded (Some ?cp)"
    using new old(3-5) by (auto simp: mark_consumed) (metis image_eqI)
  have "set (dsConsumed ?s) - {[]} \<subseteq> recorded (Some ?cp)" by auto
  then have base: "set t \<subseteq> set (dsConsumed (markContextInjectionsConsumed xs ?s)) \<inter> recorded (Some ?cp) \<inter> recorded latest"
    if "dsExecutionID ?s \<noteq> []" "csBase st = (ms, t, latest)" for ms t latest
    using session_inv_base [OF st that] by (auto simp: mark_consumed)
  show ?thesis
    unfolding drained(2) Let_def session_inv_def
    using taken base consume_inv [OF old(1), of late xs] old(2) st
    by (auto simp: saved_ok_def mark_consumed(2) session_inv_def split: prod.splits)
qed

lemma saved_recorded: "saved_ok (taken, cp) \<Longrightarrow> set taken \<subseteq> recorded (Some (taken, cp)) - {[]}"
  by (auto simp: saved_ok_def)

lemma session_step_inv:
  assumes st: "session_inv st" and "list_all ci_call_ok (session_queue_call c)"
    and "ci_room (csQueue st) (sum_list (map ci_call_load (session_queue_call c)) + k)"
  shows "session_inv (session_step c st) \<and> ci_room (csQueue (session_step c st)) k"
proof (cases c)
  case (SQueue q)
  then have "ci_inv (ci_step q (csQueue st)) \<and> ci_room (ci_step q (csQueue st)) k"
    using ci_run_inv [of "csQueue st" "[q]" k] assms session_invD(1) [OF st] by simp
  then show ?thesis using st SQueue by (simp add: session_inv_def)
next
  case (SAccept x)
  then show ?thesis using assms by (auto simp: session_inv_def)
next
  case (SCheckpoint commit)
  let ?cp = "(csTaken st, read_back (csMessages st) (checkpointTrajectory commit (csSession st) (csMessages st) []))"
  have "set (csTaken st) \<subseteq> recorded (Some ?cp)" using session_invD(4,5) [OF st] by auto
  moreover have "set t \<subseteq> recorded (Some ?cp)"
    if "dsExecutionID (csSession st) \<noteq> []" "csBase st = (ms, t, latest)" for ms t latest
    using session_inv_base [OF st that] by auto
  ultimately show ?thesis
    using assms SCheckpoint by (auto simp: session_inv_def saved_ok_def Let_def)
next
  case (SDrain ctx late outcome commit boundary)
  have "cjNextSequence (csQueue (session_step c st)) = cjNextSequence (csQueue st)"
    unfolding SDrain using session_invD(1) [OF st]
    by (cases rule: SDrain_cases [of st ctx late outcome commit boundary])
      (use consume_inv [OF session_invD(1) [OF st]] in \<open>auto simp: Let_def\<close>)
  then show ?thesis
    using session_inv_drain [OF st] assms(3) SDrain by (simp add: ci_room_def)
next
  case (SFail restored)
  obtain ms t latest where b: "csBase st = (ms, t, latest)" by (metis prod_cases3)
  show ?thesis
  proof (cases "dsExecutionID (csSession st) = []")
    case False
    note base = session_inv_base [OF st False b]
    have "set t \<subseteq> set (dsConsumed (applyContextInjectionProjection (map_option snd (csLatest st)) (csSession st)))"
      using applied_consumed [of "csLatest st" "csSession st"] base(2,4) by blast
    then show ?thesis
      using base session_invD(1,2) [OF st] assms(3) SFail b False
      by (simp add: session_inv_def applyExecutionBaseProjection_def)
  qed (use assms SFail in simp)
next
  case (SRollback n)
  show ?thesis
  proof (cases "n < length (csSaved st) \<and> dsExecutionID (csSession st) = []")
    case True
    obtain taken cp where n: "csSaved st ! n = (taken, cp)" by (cases "csSaved st ! n")
    have ok: "saved_ok (taken, cp)"
      using session_invD(2) [OF st] True n nth_mem by (fastforce simp: list_all_iff)
    have "set taken \<subseteq> set (dsConsumed (applyContextInjectionProjection (Some cp) (csSession st)))"
      using applied_consumed [of "Some (taken, cp)" "csSession st"] saved_recorded [OF ok] by auto
    then show ?thesis
      using ok session_invD(1,2) [OF st] assms(3) SRollback True n
      by (auto simp: session_inv_def saved_ok_def applyCheckpointProjection_def)
  qed (use assms SRollback in auto)
qed (use assms in \<open>auto simp: session_inv_def\<close>)

lemma session_run_inv:
  assumes "session_inv st" "list_all ci_call_ok (concat (map session_queue_call cs))"
    and "ci_room (csQueue st) (sum_list (map ci_call_load (concat (map session_queue_call cs))))"
  shows "session_inv (run_calls session_step cs st)"
  using assms
proof (induction cs arbitrary: st)
  case (Cons c cs)
  then show ?case using session_step_inv [OF Cons.prems(1), of c] by simp
qed simp

definition new_session :: "string \<Rightarrow> message list \<Rightarrow> context_session" where
  "new_session i messages = \<lparr>csSession = \<lparr>dsID = i, dsExecutionID = [], dsConsumed = [], dsInjections = []\<rparr>,
     csQueue = newMemoryContextInjectionStore, csMessages = messages, csTaken = [], csSaved = [], csLatest = None,
     csBase = ([], [], None)\<rparr>"

text \<open>
  C34: An injection enters the conversation of a session at most once. However clients enqueue
  injections (again), executions are accepted, complete or fail, checkpoints cannot be
  written, injections cannot be removed from the queue because the context was cancelled
  after the checkpoint, and the session is rolled back to any of its checkpoints: no ID
  occurs twice among the injections that drains have added on the way to the current
  conversation, all of them are in the session's consumed set, and every checkpoint records
  the IDs of its own conversation. An injection can only be taken again after a rollback or
  a failed execution has removed its messages from the conversation. This is about one session
  object; one that is resumed from its trajectory by another process is not part of it.
\<close>

theorem drain_at_most_once:
  assumes "list_all ci_call_ok (concat (map session_queue_call cs))"
    and "sum_list (map ci_call_load (concat (map session_queue_call cs))) < 2 ^ 64"
    and "st = run_calls session_step cs (new_session i messages)"
  shows "distinct (csTaken st) \<and> set (csTaken st) \<subseteq> set (dsConsumed (csSession st)) \<and>
    (\<forall>(taken, cp)\<in>set (csSaved st). distinct taken \<and> set taken \<subseteq> set (ckConsumedContextInjectionIDs cp)) \<and>
    (\<forall>boundary xs. pendingContextInjections None boundary (csSession st) (csQueue st) = Inr xs \<longrightarrow>
       distinct (csTaken st @ map ciID xs))"
proof -
  have "session_inv (new_session i messages)" using ci_inv_new by (simp add: session_inv_def new_session_def)
  from session_run_inv [OF this assms(1)] have st: "session_inv st"
    using assms(2,3) by (simp add: ci_room_def newMemoryContextInjectionStore_def new_session_def)
  have "distinct taken \<and> set taken \<subseteq> set (ckConsumedContextInjectionIDs cp)"
    if "(taken, cp) \<in> set (csSaved st)" for taken cp
    using session_invD(2) [OF st] that by (fastforce simp: list_all_iff saved_ok_def recorded_def)
  moreover have "distinct (csTaken st @ map ciID xs)"
    if "pendingContextInjections None boundary (csSession st) (csQueue st) = Inr xs" for boundary xs
    using pending_new [OF st that] session_invD(3,5) [OF st] by auto
  ultimately show ?thesis using session_invD(3,5) [OF st] by auto
qed

text \<open>
  A drain whose removal is cancelled, another one, then a rollback to the checkpoint before
  both, and a new execution that takes the injections that are still queued.
\<close>

definition commit_demo :: checkpoint where
  "commit_demo = checkpoint_demo CheckpointMessagesBranch []"

definition session_queue_demo :: ci_call where
  "session_queue_demo = CIEnqueue None (\<lambda>_. ''n'') 10
     [injection_demo ''a'' ContextInjectionLater 5, injection_demo ''b'' ContextInjectionNow 6]"

definition session_run_demo :: "session_call list" where
  "session_run_demo = [SQueue session_queue_demo, SAccept ''x1'', SCheckpoint commit_demo,
     SDrain None (Some (Wrapf Canceled ''context canceled'')) None commit_demo contextInjectionBeforeProvider,
     SDrain None None None commit_demo contextInjectionAfterTurn, SComplete, SRollback 0,
     SAccept ''x1'', SDrain None None None commit_demo contextInjectionAfterTurn]"

theorem drain_at_most_once_witness:
  "\<exists>st. st = run_calls session_step session_run_demo (new_session ''main'' []) \<and>
     map fst (csSaved st) = [[], [''b''], [''b'', ''a''], [''b'']] \<and>
     csTaken st = [''b''] \<and> set (csTaken st) \<subseteq> set (dsConsumed (csSession st))"
proof -
  obtain st where st: "st = run_calls session_step session_run_demo (new_session ''main'' [])" by blast
  have "(\<lambda>st. (map fst (csSaved st), csTaken st)) (run_calls session_step session_run_demo (new_session ''main'' [])) =
      ([[], [''b''], [''b'', ''a''], [''b'']], [''b''])"
    by code_simp
  then have "map fst (csSaved st) = [[], [''b''], [''b'', ''a''], [''b'']]" "csTaken st = [''b'']"
    unfolding st [symmetric] by simp_all
  moreover have "list_all ci_call_ok (concat (map session_queue_call session_run_demo))"
    "sum_list (map ci_call_load (concat (map session_queue_call session_run_demo))) < 2 ^ 64"
    using drain_demo_ok by (simp_all add: session_run_demo_def session_queue_demo_def drain_calls_demo_def injection_demo_def)
  ultimately show ?thesis using drain_at_most_once [OF _ _ st] st by metis
qed

end
