(* ===== verification/Delivery_Store.thy ===== *)
theory Delivery_Store
  imports Deliveries Stores
begin

text \<open>
  The in-memory delivery queue of \<open>sdk/storage/delivery_memory.go\<close>: per-partition FIFO
  order, leases, retry and dead-lettering.
\<close>

section \<open>The store\<close>

record dv_store =
  dsDeliveries :: "delivery gomap"
  dsNextSequence :: u64

definition newMemoryDeliveryStore :: dv_store where
  "newMemoryDeliveryStore = \<lparr>dsDeliveries = [], dsNextSequence = 0\<rparr>"

text \<open>The two loops of \<open>Enqueue\<close>: reject conflicting identities, then add what is new.\<close>

fun enqueue_conflict :: "dv_store \<Rightarrow> delivery list \<Rightarrow> error option" where
  "enqueue_conflict s [] = None"
| "enqueue_conflict s (d # ds) =
     (case map_of (dsDeliveries s) (dvID d) of
        None \<Rightarrow> enqueue_conflict s ds
      | Some e \<Rightarrow> if SameIdentity e d then enqueue_conflict s ds
          else Some (Errorf ''delivery %q already exists with different identity''))"

fun enqueue_all :: "delivery list \<Rightarrow> dv_store \<Rightarrow> dv_store" where
  "enqueue_all [] s = s"
| "enqueue_all (d # ds) s =
     (case map_of (dsDeliveries s) (dvID d) of
        None \<Rightarrow> let n = dsNextSequence s + 1 in
          enqueue_all ds (s\<lparr>dsNextSequence := n,
            dsDeliveries := AList.update (dvID d) (d\<lparr>dvSequence := n\<rparr>) (dsDeliveries s)\<rparr>)
      | Some e \<Rightarrow> enqueue_all ds s)"

definition ds_Enqueue :: "ctx \<Rightarrow> gotime \<Rightarrow> delivery list \<Rightarrow> dv_store \<Rightarrow> dv_store \<times> error option" where
  "ds_Enqueue ctx wall ds s =
     (case check ctx (PrepareNewBatch wall ds wall) of
        Inl e \<Rightarrow> (s, Some e)
      | Inr prepared \<Rightarrow>
          (case enqueue_conflict s prepared of
             Some e \<Rightarrow> (s, Some e)
           | None \<Rightarrow> (enqueue_all prepared s, None)))"

text \<open>The first loop of \<open>Lease\<close>: the head of every partition.\<close>

fun scan_heads :: "delivery list \<Rightarrow> delivery gomap \<Rightarrow> delivery gomap" where
  "scan_heads [] heads = heads"
| "scan_heads (d # ds) heads =
     (if dv_Terminal d then scan_heads ds heads
      else case map_of heads (dv_Partition d) of
             None \<Rightarrow> scan_heads ds (AList.update (dv_Partition d) d heads)
           | Some h \<Rightarrow> if dvSequence d < dvSequence h
               then scan_heads ds (AList.update (dv_Partition d) d heads)
               else scan_heads ds heads)"

definition lease_candidates :: "gotime \<Rightarrow> gotime \<Rightarrow> dv_store \<Rightarrow> delivery list" where
  "lease_candidates wall now s =
     filter (\<lambda>d. LeaseAvailable wall d now) (map snd (scan_heads (map snd (dsDeliveries s)) []))"

definition ds_Lease ::
  "ctx \<Rightarrow> string \<Rightarrow> gotime \<Rightarrow> gotime \<Rightarrow> duration \<Rightarrow> dv_store \<Rightarrow> dv_store \<times> delivery result" where
  "ds_Lease ctx newID wall now dur s =
     (case and_then ctx (dv_ValidateLeaseDuration dur) of
        Some e \<Rightarrow> (s, Inl e)
      | None \<Rightarrow>
          let now = dv_NormalizeMutationTime wall now;
              candidates = lease_candidates wall now s
          in if candidates = [] then (s, Inl (Wrapf ErrNoDelivery []))
             else (case dv_Lease wall (hd (sort_func dv_Compare candidates)) newID now dur of
                     Inl e \<Rightarrow> (s, Inl e)
                   | Inr d \<Rightarrow>
                       (s\<lparr>dsDeliveries := AList.update (dvID d) d (dsDeliveries s)\<rparr>, Inr d)))"

definition ds_transition ::
  "ctx \<Rightarrow> gotime \<Rightarrow> string \<Rightarrow> string \<Rightarrow> gotime \<Rightarrow> DeliveryState \<Rightarrow> gotime \<Rightarrow> string \<Rightarrow> dv_store \<Rightarrow>
   dv_store \<times> error option" where
  "ds_transition ctx wall i token now st availableAt lastError s =
     (case check ctx (case map_of (dsDeliveries s) i of
          None \<Rightarrow> Inl (Wrapf ErrDeliveryLease ''%w: %s'')
        | Some d \<Rightarrow> FinishLease wall d token now st availableAt lastError) of
        Inl e \<Rightarrow> (s, Some e)
      | Inr d \<Rightarrow> (s\<lparr>dsDeliveries := AList.update i d (dsDeliveries s)\<rparr>, None))"

definition ds_Ack ::
  "ctx \<Rightarrow> gotime \<Rightarrow> string \<Rightarrow> string \<Rightarrow> gotime \<Rightarrow> dv_store \<Rightarrow> dv_store \<times> error option" where
  "ds_Ack ctx wall i token now = ds_transition ctx wall i token now DeliveryDelivered 0 []"

definition ds_Retry ::
  "ctx \<Rightarrow> gotime \<Rightarrow> string \<Rightarrow> string \<Rightarrow> gotime \<Rightarrow> string \<Rightarrow> dv_store \<Rightarrow> dv_store \<times> error option" where
  "ds_Retry ctx wall i token availableAt lastError =
     ds_transition ctx wall i token wall DeliveryPending availableAt lastError"

definition ds_DeadLetter ::
  "ctx \<Rightarrow> gotime \<Rightarrow> string \<Rightarrow> string \<Rightarrow> gotime \<Rightarrow> string \<Rightarrow> dv_store \<Rightarrow> dv_store \<times> error option" where
  "ds_DeadLetter ctx wall i token now lastError =
     ds_transition ctx wall i token now DeliveryDeadLetter 0 lastError"

definition ds_List :: "ctx \<Rightarrow> dv_store \<Rightarrow> delivery list result" where
  "ds_List ctx s = check ctx (Inr (sort_func dv_Compare (map snd (dsDeliveries s))))"

definition ds_ListNonTerminal :: "ctx \<Rightarrow> dv_store \<Rightarrow> delivery list result" where
  "ds_ListNonTerminal ctx s =
     check ctx (Inr (sort_func dv_Compare (filter (\<lambda>d. \<not> dv_Terminal d) (map snd (dsDeliveries s)))))"

definition ds_ListPage :: "ctx \<Rightarrow> page_request \<Rightarrow> dv_store \<Rightarrow> (delivery list \<times> string) result" where
  "ds_ListPage ctx request s =
     bind_result (ds_List ctx s) (\<lambda>items. pageWindow items request dvID)"

fun purge_deliveries :: "gotime \<Rightarrow> (string \<times> delivery) list \<Rightarrow> dv_store \<Rightarrow> int \<Rightarrow> dv_store \<times> int" where
  "purge_deliveries before [] s removed = (s, removed)"
| "purge_deliveries before ((i, d) # entries) s removed =
     (if dv_Terminal d \<and> dvUpdatedAt d < before
      then purge_deliveries before entries
             (s\<lparr>dsDeliveries := AList.delete i (dsDeliveries s)\<rparr>) (removed + 1)
      else purge_deliveries before entries s removed)"

definition ds_PurgeTerminal :: "ctx \<Rightarrow> gotime \<Rightarrow> dv_store \<Rightarrow> dv_store \<times> int result" where
  "ds_PurgeTerminal ctx before s =
     (case and_then ctx (reject_if (before = 0) (Errorf ''delivery purge cutoff is required'')) of
        Some e \<Rightarrow> (s, Inl e)
      | None \<Rightarrow> (case purge_deliveries before (dsDeliveries s) s 0 of (s', n) \<Rightarrow> (s', Inr n)))"

section \<open>Calls\<close>

datatype dv_call =
    DEnqueue ctx gotime "delivery list"
  | DLease ctx string gotime gotime duration
  | DAck ctx gotime string string gotime
  | DRetry ctx gotime string string gotime string
  | DDeadLetter ctx gotime string string gotime string
  | DPurge ctx gotime

fun ds_step :: "dv_call \<Rightarrow> dv_store \<Rightarrow> dv_store" where
  "ds_step (DEnqueue ctx wall ds) s = fst (ds_Enqueue ctx wall ds s)"
| "ds_step (DLease ctx newID wall now dur) s = fst (ds_Lease ctx newID wall now dur s)"
| "ds_step (DAck ctx wall i token now) s = fst (ds_Ack ctx wall i token now s)"
| "ds_step (DRetry ctx wall i token at err) s = fst (ds_Retry ctx wall i token at err s)"
| "ds_step (DDeadLetter ctx wall i token now err) s = fst (ds_DeadLetter ctx wall i token now err s)"
| "ds_step (DPurge ctx before) s = fst (ds_PurgeTerminal ctx before s)"

fun ds_event :: "dv_call \<Rightarrow> dv_store \<Rightarrow> (string \<times> dv_event_call) option" where
  "ds_event (DLease None newID wall now dur) s =
     (let now = dv_NormalizeMutationTime wall now; candidates = lease_candidates wall now s in
      if dv_ValidateLeaseDuration dur \<noteq> None \<or> candidates = [] then None
      else Some (dvID (hd (sort_func dv_Compare candidates)), EvLease wall now newID dur))"
| "ds_event (DAck None wall i token now) s = Some (i, EvFinish wall now token DeliveryDelivered 0 [])"
| "ds_event (DRetry None wall i token at err) s = Some (i, EvFinish wall wall token DeliveryPending at err)"
| "ds_event (DDeadLetter None wall i token now err) s =
     Some (i, EvFinish wall now token DeliveryDeadLetter 0 err)"
| "ds_event _ s = None"

fun ds_forgets :: "dv_call \<Rightarrow> bool" where
  "ds_forgets (DPurge ctx before) \<longleftrightarrow> True"
| "ds_forgets _ \<longleftrightarrow> False"

section \<open>Partition heads\<close>

text \<open>\<open>scan_heads\<close> finds, for every partition, a live delivery of least sequence.\<close>

definition is_head :: "delivery set \<Rightarrow> delivery \<Rightarrow> bool" where
  "is_head D d \<longleftrightarrow> d \<in> D \<and> \<not> dv_Terminal d \<and>
     (\<forall>x\<in>D. \<not> dv_Terminal x \<longrightarrow> dv_Partition x = dv_Partition d \<longrightarrow> dvSequence d \<le> dvSequence x)"

definition heads_of :: "delivery set \<Rightarrow> delivery gomap \<Rightarrow> bool" where
  "heads_of D heads \<longleftrightarrow> gm_wf heads \<and>
     (\<forall>p d. map_of heads p = Some d \<longrightarrow> dv_Partition d = p \<and> is_head D d) \<and>
     (\<forall>x\<in>D. \<not> dv_Terminal x \<longrightarrow> map_of heads (dv_Partition x) \<noteq> None)"

lemma scan_heads_step:
  assumes "heads_of D heads" "\<not> dv_Terminal d"
    and "case map_of heads (dv_Partition d) of None \<Rightarrow> True | Some h \<Rightarrow> dvSequence d < dvSequence h"
  shows "heads_of (insert d D) (AList.update (dv_Partition d) d heads)"
proof -
  have new: "is_head (insert d D) d"
    unfolding is_head_def
  proof (intro conjI ballI impI)
    fix x
    assume x: "x \<in> insert d D" "\<not> dv_Terminal x" "dv_Partition x = dv_Partition d"
    show "dvSequence d \<le> dvSequence x"
    proof (cases "x = d")
      case False
      then obtain h where h: "map_of heads (dv_Partition d) = Some h"
        using assms(1) x unfolding heads_of_def by fastforce
      then have "dvSequence h \<le> dvSequence x"
        using assms(1) x False unfolding heads_of_def is_head_def by auto
      with h assms(3) show ?thesis by simp
    qed simp
  qed (use assms(2) in auto)
  have old: "is_head (insert d D) x" if "is_head D x" "dv_Partition x \<noteq> dv_Partition d" for x
    using that by (auto simp: is_head_def)
  show ?thesis
    using assms(1) new old unfolding heads_of_def by auto
qed

lemma scan_heads_keep:
  assumes "heads_of D heads"
    and "dv_Terminal d \<or> (\<exists>h. map_of heads (dv_Partition d) = Some h \<and> dvSequence h \<le> dvSequence d)"
  shows "heads_of (insert d D) heads"
proof -
  have "is_head (insert d D) x" if "map_of heads p = Some x" for p x
    using that assms unfolding heads_of_def is_head_def by fastforce
  then show ?thesis
    using assms unfolding heads_of_def by auto
qed

lemma scan_heads_correct:
  "heads_of D heads \<Longrightarrow> heads_of (D \<union> set ds) (scan_heads ds heads)"
proof (induction ds heads arbitrary: D rule: scan_heads.induct)
  case (2 d ds heads)
  show ?case
  proof (cases "dv_Terminal d")
    case True
    then show ?thesis using 2(1) [of "insert d D"] scan_heads_keep [OF 2(5)] by simp
  next
    case False
    show ?thesis
    proof (cases "map_of heads (dv_Partition d)")
      case None
      then show ?thesis
        using False 2(2) [of "insert d D"] scan_heads_step [OF 2(5) False] by simp
    next
      case (Some h)
      then show ?thesis
        using False 2(3) [of h "insert d D"] 2(4) [of h "insert d D"]
          scan_heads_step [OF 2(5) False] scan_heads_keep [OF 2(5)]
        by (simp add: not_less)
    qed
  qed
qed simp

lemma heads_of_store:
  assumes "gm_wf (dsDeliveries s)"
  shows "heads_of (ran (map_of (dsDeliveries s))) (scan_heads (map snd (dsDeliveries s)) [])"
proof -
  have "set (map snd (dsDeliveries s)) = ran (map_of (dsDeliveries s))"
    using gm_values_iff [OF assms] by (auto simp: ran_def)
  then show ?thesis
    using scan_heads_correct [of "{}" "[]" "map snd (dsDeliveries s)"] by (simp add: heads_of_def)
qed

lemma lease_candidates_iff:
  assumes "gm_wf (dsDeliveries s)"
  shows "d \<in> set (lease_candidates wall now s) \<longleftrightarrow> LeaseAvailable wall d now \<and>
    map_of (scan_heads (map snd (dsDeliveries s)) []) (dv_Partition d) = Some d"
proof -
  let ?h = "scan_heads (map snd (dsDeliveries s)) []"
  have h: "gm_wf ?h" "\<And>p x. map_of ?h p = Some x \<Longrightarrow> dv_Partition x = p"
    using heads_of_store [OF assms] by (auto simp: heads_of_def)
  have "d \<in> set (lease_candidates wall now s) \<longleftrightarrow> LeaseAvailable wall d now \<and> d \<in> snd ` set ?h"
    by (force simp: lease_candidates_def)
  then show ?thesis using h(2) unfolding gm_values_iff [OF h(1)] by blast
qed

text \<open>The delivery that \<open>Lease\<close> selects.\<close>

lemma lease_selects:
  assumes "gm_wf (dsDeliveries s)" "lease_candidates wall now s \<noteq> []"
    and "d = hd (sort_func dv_Compare (lease_candidates wall now s))"
  shows "LeaseAvailable wall d now" "is_head (ran (map_of (dsDeliveries s))) d"
    "\<And>x. x \<in> set (lease_candidates wall now s) \<Longrightarrow> dv_Compare d x \<le> 0"
proof -
  have "d \<in> set (lease_candidates wall now s)"
    using assms(2,3) by (metis hd_in_set length_0_conv length_sort_func set_sort_func)
  then show "LeaseAvailable wall d now" "is_head (ran (map_of (dsDeliveries s))) d"
    using heads_of_store [OF assms(1)]
    by (auto simp: lease_candidates_iff [OF assms(1)] heads_of_def)
  show "dv_Compare d x \<le> 0" if "x \<in> set (lease_candidates wall now s)" for x
    using dv_order.sort_func_hd_min [OF assms(2) that] assms(3) by simp
qed

section \<open>The state as a map of aggregates\<close>

definition ds_keyed :: "dv_store \<Rightarrow> bool" where
  "ds_keyed s \<longleftrightarrow> gm_wf (dsDeliveries s) \<and> (\<forall>i d. map_of (dsDeliveries s) i = Some d \<longrightarrow> dvID d = i)"

lemma ds_keyed_put:
  "ds_keyed s \<Longrightarrow> dvID d = i \<Longrightarrow> ds_keyed (s\<lparr>dsDeliveries := AList.update i d (dsDeliveries s)\<rparr>)"
  by (simp add: ds_keyed_def)

lemma enqueue_all_keyed: "ds_keyed s \<Longrightarrow> ds_keyed (enqueue_all ds s)"
proof (induction ds s rule: enqueue_all.induct)
  case (2 d ds s)
  have "ds_keyed (s\<lparr>dsNextSequence := n, dsDeliveries := AList.update (dvID d) x (dsDeliveries s)\<rparr>)"
    if "dvID x = dvID d" for n x
    using 2(3) that by (simp add: ds_keyed_def)
  with 2 show ?case by (simp add: Let_def split: option.split)
qed simp

lemma enqueue_all_keeps:
  "map_of (dsDeliveries s) i = Some d \<Longrightarrow> map_of (dsDeliveries (enqueue_all ds s)) i = Some d"
proof (induction ds s rule: enqueue_all.induct)
  case (2 x ds s)
  then show ?case by (cases "map_of (dsDeliveries s) (dvID x)"; cases "i = dvID x") (simp_all add: Let_def)
qed simp

lemma ds_transition_fst:
  "fst (ds_transition None wall i token now st at err s) =
     (case map_of (dsDeliveries s) i of None \<Rightarrow> s
      | Some d \<Rightarrow> (case dv_apply (EvFinish wall now token st at err) d of Inl _ \<Rightarrow> s
          | Inr d' \<Rightarrow> s\<lparr>dsDeliveries := AList.update i d' (dsDeliveries s)\<rparr>))"
  by (simp add: ds_transition_def split: option.splits sum.splits)

lemma ds_transition_ctx [simp]: "ds_transition (Some e) wall i token now st at err s = (s, Some e)"
  by (simp add: ds_transition_def)

text \<open>Every call that has an event applies it to the delivery under its key.\<close>

lemma ds_Lease_selected:
  assumes "dv_ValidateLeaseDuration dur = None"
    and "lease_candidates wall (dv_NormalizeMutationTime wall now) s \<noteq> []"
    and "d = hd (sort_func dv_Compare (lease_candidates wall (dv_NormalizeMutationTime wall now) s))"
  shows "ds_Lease None newID wall now dur s =
    (case dv_Lease wall d newID (dv_NormalizeMutationTime wall now) dur of
       Inl e \<Rightarrow> (s, Inl e)
     | Inr d' \<Rightarrow> (s\<lparr>dsDeliveries := AList.update (dvID d') d' (dsDeliveries s)\<rparr>, Inr d'))"
  using assms by (simp add: ds_Lease_def Let_def)

lemma ds_Lease_ctx: "ds_Lease (Some e) newID wall now dur s = (s, Inl e)"
  by (simp add: ds_Lease_def)

lemma ds_Lease_none:
  assumes "dv_ValidateLeaseDuration dur \<noteq> None \<or>
      lease_candidates wall (dv_NormalizeMutationTime wall now) s = []"
  shows "fst (ds_Lease None newID wall now dur s) = s"
  using assms by (cases "dv_ValidateLeaseDuration dur") (auto simp: ds_Lease_def Let_def)

lemma ds_event_cases:
  assumes "ds_event c s = Some (i, e)"
  obtains (lease) newID wall now dur where "c = DLease None newID wall now dur"
    "dv_ValidateLeaseDuration dur = None"
    "lease_candidates wall (dv_NormalizeMutationTime wall now) s \<noteq> []"
    "i = dvID (hd (sort_func dv_Compare (lease_candidates wall (dv_NormalizeMutationTime wall now) s)))"
    "e = EvLease wall (dv_NormalizeMutationTime wall now) newID dur"
  | (finish) wall now token st at err where "e = EvFinish wall now token st at err"
    "ds_step c s = fst (ds_transition None wall i token now st at err s)"
proof (cases "(c, s)" rule: ds_event.cases)
  case (1 newID wall now dur s')
  with assms lease show thesis by (auto simp: Let_def split: if_splits)
next
  case (2 wall j token now s')
  with assms finish show thesis by (auto simp: ds_Ack_def)
next
  case (3 wall j token at err s')
  with assms finish show thesis by (auto simp: ds_Retry_def)
next
  case (4 wall j token now err s')
  with assms finish show thesis by (auto simp: ds_DeadLetter_def)
qed (use assms in simp_all)

lemma ds_step_event:
  assumes "ds_keyed s" "ds_event c s = Some (i, e)"
  shows "ds_step c s = (case map_of (dsDeliveries s) i of None \<Rightarrow> s
      | Some d \<Rightarrow> (case dv_apply e d of Inl _ \<Rightarrow> s
          | Inr d' \<Rightarrow> s\<lparr>dsDeliveries := AList.update i d' (dsDeliveries s)\<rparr>))"
  using assms(2)
proof (cases rule: ds_event_cases)
  case (lease newID wall now dur)
  let ?d = "hd (sort_func dv_Compare (lease_candidates wall (dv_NormalizeMutationTime wall now) s))"
  have "?d \<in> ran (map_of (dsDeliveries s))"
    using lease_selects(2) [OF _ lease(3) refl] assms(1) by (simp add: ds_keyed_def is_head_def)
  then have "map_of (dsDeliveries s) i = Some ?d"
    using assms(1) lease(4) by (auto simp: ds_keyed_def ran_def)
  moreover have "dvID d' = i" if "dv_apply e ?d = Inr d'" for d'
    using dv_apply_identity(5) [OF that] lease(4) by simp
  ultimately show ?thesis
    unfolding lease(1) ds_step.simps ds_Lease_selected [OF lease(2,3) refl]
    by (cases "dv_apply e ?d") (auto simp: lease(5))
next
  case (finish wall now token st at err)
  then show ?thesis by (simp only: ds_transition_fst)
qed

lemma ds_step_no_event:
  assumes "ds_event c s = None"
  shows "(\<exists>ctx wall ds. c = DEnqueue ctx wall ds) \<or> (\<exists>ctx before. c = DPurge ctx before) \<or>
    ds_step c s = s"
  using assms
  by (cases "(c, s)" rule: ds_event.cases)
    (auto simp: ds_Lease_none Let_def ds_Lease_ctx ds_Ack_def ds_Retry_def
      ds_DeadLetter_def split: if_splits)

lemma ds_Enqueue_fst:
  "fst (ds_Enqueue ctx wall ds s) = s \<or>
   (\<exists>prepared. PrepareNewBatch wall ds wall = Inr prepared \<and>
      enqueue_conflict s prepared = None \<and> fst (ds_Enqueue ctx wall ds s) = enqueue_all prepared s)"
  by (cases ctx) (auto simp: ds_Enqueue_def split: sum.splits option.splits)

lemma purge_deliveries_lookup:
  "map_of (dsDeliveries (fst (purge_deliveries before es s n))) i =
     (if \<exists>d. (i, d) \<in> set es \<and> dv_Terminal d \<and> dvUpdatedAt d < before then None
      else map_of (dsDeliveries s) i)"
  "dsNextSequence (fst (purge_deliveries before es s n)) = dsNextSequence s"
  "gm_wf (dsDeliveries s) \<Longrightarrow> gm_wf (dsDeliveries (fst (purge_deliveries before es s n)))"
  by (induction before es s n rule: purge_deliveries.induct) auto

lemma purged_deliveries:
  assumes "gm_wf (dsDeliveries s)"
  shows "map_of (dsDeliveries (fst (purge_deliveries before (dsDeliveries s) s n))) i =
    (case map_of (dsDeliveries s) i of None \<Rightarrow> None
     | Some d \<Rightarrow> if dv_Terminal d \<and> dvUpdatedAt d < before then None else Some d)"
  unfolding purge_deliveries_lookup gm_mem_iff [OF assms] by (auto split: option.split)

lemma ds_purge_step:
  "ds_step (DPurge ctx before) s = s \<or>
   ds_step (DPurge ctx before) s = fst (purge_deliveries before (dsDeliveries s) s 0)"
  by (auto simp: ds_PurgeTerminal_def case_prod_unfold split: option.split)

lemma ds_keyed_step: "ds_keyed s \<Longrightarrow> ds_keyed (ds_step c s)"
proof (cases "ds_event c s")
  case None
  assume s: "ds_keyed s"
  from ds_step_no_event [OF None] consider ctx wall ds where "c = DEnqueue ctx wall ds"
    | ctx before where "c = DPurge ctx before" | "ds_step c s = s" by blast
  then show ?thesis
  proof cases
    case 1
    then show ?thesis using ds_Enqueue_fst [of ctx wall ds s] s by (auto simp: enqueue_all_keyed)
  next
    case 2
    have "ds_keyed (fst (purge_deliveries before (dsDeliveries s) s 0))"
      using s unfolding ds_keyed_def
      by (auto simp: purged_deliveries purge_deliveries_lookup(3) split: option.splits if_splits)
    then show ?thesis using 2 s ds_purge_step [of ctx before s] by metis
  qed (use s in simp)
next
  case (Some ie)
  assume s: "ds_keyed s"
  obtain i e where ie: "ie = (i, e)" by (cases ie)
  show ?thesis
    unfolding ds_step_event [OF s Some [unfolded ie]]
    using s dv_apply_identity(5) by (auto simp: ds_keyed_def split: option.splits sum.splits)
qed

interpretation dv_records: aggregate_store ds_keyed "\<lambda>s. map_of (dsDeliveries s)" ds_step dv_apply
  ds_event ds_forgets
proof
  show "ds_keyed s \<Longrightarrow> ds_keyed (ds_step c s)" for s c by (rule ds_keyed_step)
next
  fix c s k e d
  assume "ds_keyed s" "ds_event c s = Some (k, e)" "map_of (dsDeliveries s) k = Some d"
  then show "map_of (dsDeliveries (ds_step c s)) k = Some (run_events dv_apply [e] d)"
    by (auto simp: ds_step_event split: sum.splits)
next
  fix s k d c
  assume s: "ds_keyed s" and d: "map_of (dsDeliveries s) k = Some d" and keep: "\<not> ds_forgets c"
    and no: "\<And>e. ds_event c s \<noteq> Some (k, e)"
  show "map_of (dsDeliveries (ds_step c s)) k = Some d"
  proof (cases "ds_event c s")
    case None
    with keep consider ctx wall ds where "c = DEnqueue ctx wall ds" | "ds_step c s = s"
      using ds_step_no_event [of c s] by auto
    then show ?thesis
      using d ds_Enqueue_fst enqueue_all_keeps [OF d] by cases (auto, metis)
  next
    case (Some ie)
    with no obtain i e where "ie = (i, e)" "i \<noteq> k" by (cases ie) auto
    with Some s d show ?thesis
      by (auto simp: ds_step_event split: sum.splits option.splits)
  qed
qed

section \<open>Per-partition order\<close>

text \<open>
  On the map of deliveries and the sequence counter: deliveries are filed under their IDs,
  are valid, carry different sequence numbers up to the counter, and only the head of a
  partition can be leased.
\<close>

definition dv_fifo :: "(string \<rightharpoonup> delivery) \<Rightarrow> u64 \<Rightarrow> bool" where
  "dv_fifo m n \<longleftrightarrow>
     (\<forall>i d. m i = Some d \<longrightarrow> dvID d = i \<and> dv_ValidateLoaded d = None \<and> dvSequence d \<le> n) \<and>
     (\<forall>i j d x. m i = Some d \<longrightarrow> m j = Some x \<longrightarrow> dvSequence d = dvSequence x \<longrightarrow> i = j) \<and>
     (\<forall>i d. m i = Some d \<longrightarrow> dvState d = DeliveryLeased \<longrightarrow> is_head (ran m) d)"

lemma dv_fifoD:
  assumes "dv_fifo m n" "m i = Some d"
  shows "dvID d = i" "dv_ValidateLoaded d = None" "dvSequence d \<le> n"
    "dvState d = DeliveryLeased \<Longrightarrow> is_head (ran m) d"
    "m j = Some x \<Longrightarrow> dvSequence d = dvSequence x \<Longrightarrow> i = j"
  using assms unfolding dv_fifo_def by blast+

lemma dv_fifoI:
  assumes "\<And>i d. m i = Some d \<Longrightarrow> dvID d = i \<and> dv_ValidateLoaded d = None \<and> dvSequence d \<le> n"
    and "\<And>i j d x. m i = Some d \<Longrightarrow> m j = Some x \<Longrightarrow> dvSequence d = dvSequence x \<Longrightarrow> i = j"
    and "\<And>i d. m i = Some d \<Longrightarrow> dvState d = DeliveryLeased \<Longrightarrow> is_head (ran m) d"
  shows "dv_fifo m n"
  using assms unfolding dv_fifo_def by blast

lemma dv_fifo_add:
  assumes m: "dv_fifo m n" and i: "m i = None" "dvID d = i" and d: "dv_ValidateLoaded d = None"
    "dvState d = DeliveryPending" "dvSequence d = n + 1" and room: "n + 1 \<noteq> 0"
  shows "dv_fifo (m(i \<mapsto> d)) (n + 1)"
proof -
  have n: "n < n + 1" using u64_less_Suc [OF room] .
  have below: "dvSequence x < n + 1" if "m j = Some x" for j x
    using dv_fifoD(3) [OF m that] n by simp
  have ran: "ran (m(i \<mapsto> d)) = insert d (ran m)" using i(1) by simp
  show ?thesis
  proof (rule dv_fifoI)
    fix j x
    assume x: "(m(i \<mapsto> d)) j = Some x"
    then show "dvID x = j \<and> dv_ValidateLoaded x = None \<and> dvSequence x \<le> n + 1"
      using dv_fifoD(1,2) [OF m] below d i by (auto simp: less_imp_le split: if_splits)
    assume leased: "dvState x = DeliveryLeased"
    then have "m j = Some x" using x d by (auto split: if_splits)
    then show "is_head (ran (m(i \<mapsto> d))) x"
      using dv_fifoD(4) [OF m _ leased] below [of j x] d(3) unfolding ran
      by (auto simp: is_head_def less_imp_le)
  next
    fix j k x y
    assume xy: "(m(i \<mapsto> d)) j = Some x" "(m(i \<mapsto> d)) k = Some y" "dvSequence x = dvSequence y"
    have "j = i \<and> x = d \<or> m j = Some x" "k = i \<and> y = d \<or> m k = Some y"
      using xy(1,2) by (auto split: if_splits)
    moreover have False if "m j = Some z" "dvSequence z = dvSequence d" for j z
      using below [OF that(1)] that(2) d(3) by simp
    ultimately show "j = k"
      using dv_fifoD(5) [OF m] xy(3) by metis
  qed
qed

lemma is_head_replace:
  assumes "is_head (ran m) x" "m i = Some d" "m j = Some x" "i \<noteq> j" "\<not> dv_Terminal d"
    and "dvSequence d' = dvSequence d" "dv_Partition d' = dv_Partition d"
  shows "is_head (ran (m(i \<mapsto> d'))) x"
proof -
  have "x \<in> ran (m(i \<mapsto> d'))" using assms(3,4) by (auto simp: ran_def)
  moreover have "dvSequence x \<le> dvSequence y"
    if y: "y \<in> ran (m(i \<mapsto> d'))" "\<not> dv_Terminal y" "dv_Partition y = dv_Partition x" for y
  proof (cases "y = d'")
    case True
    then show ?thesis
      using assms(1,2,5,6,7) y(3) unfolding is_head_def by (auto dest: ranI)
  next
    case False
    then have "y \<in> ran m" using y(1) by (auto simp: ran_def split: if_splits)
    then show ?thesis using assms(1) y(2,3) unfolding is_head_def by blast
  qed
  ultimately show ?thesis using assms(1) unfolding is_head_def by blast
qed

lemma is_head_self:
  assumes "is_head (ran m) d" "m i = Some d" "\<not> dv_Terminal d'"
    and "dvSequence d' = dvSequence d" "dv_Partition d' = dv_Partition d"
  shows "is_head (ran (m(i \<mapsto> d'))) d'"
proof -
  have "d' \<in> ran (m(i \<mapsto> d'))" by (auto simp: ran_def)
  moreover have "dvSequence d' \<le> dvSequence y"
    if y: "y \<in> ran (m(i \<mapsto> d'))" "\<not> dv_Terminal y" "dv_Partition y = dv_Partition d'" for y
  proof (cases "y = d'")
    case False
    then have "y \<in> ran m" using y(1) by (auto simp: ran_def split: if_splits)
    then show ?thesis using assms(1,4,5) y(2,3) unfolding is_head_def by auto
  qed simp
  ultimately show ?thesis using assms(3) unfolding is_head_def by blast
qed

lemma dv_fifo_update:
  assumes m: "dv_fifo m n" and d: "m i = Some d" "\<not> dv_Terminal d"
    and d': "dvID d' = i" "dv_ValidateLoaded d' = None"
    "dvSequence d' = dvSequence d" "dv_Partition d' = dv_Partition d"
    and head: "dvState d' = DeliveryLeased \<Longrightarrow> is_head (ran m) d"
  shows "dv_fifo (m(i \<mapsto> d')) n"
proof (rule dv_fifoI)
  fix j x
  assume x: "(m(i \<mapsto> d')) j = Some x"
  then show "dvID x = j \<and> dv_ValidateLoaded x = None \<and> dvSequence x \<le> n"
    using dv_fifoD(1-3) [OF m] d d' by (auto split: if_splits)
  assume leased: "dvState x = DeliveryLeased"
  show "is_head (ran (m(i \<mapsto> d'))) x"
  proof (cases "j = i")
    case True
    then have "x = d'" using x by simp
    moreover have "\<not> dv_Terminal x" using leased by (simp add: dv_Terminal_def)
    ultimately show ?thesis
      using is_head_self [OF head d(1)] leased d' by blast
  next
    case False
    then have "m j = Some x" using x by simp
    then show ?thesis
      using is_head_replace [OF dv_fifoD(4) [OF m _ leased] d(1) _ _ d(2) d'(3,4)] False by metis
  qed
next
  fix j k x y
  assume xy: "(m(i \<mapsto> d')) j = Some x" "(m(i \<mapsto> d')) k = Some y" "dvSequence x = dvSequence y"
  obtain x' y' where "m j = Some x'" "dvSequence x' = dvSequence x" "m k = Some y'"
    "dvSequence y' = dvSequence y"
    using xy(1,2) d(1) d'(3) by (auto split: if_splits)
  then show "j = k" using dv_fifoD(5) [OF m] xy(3) by metis
qed

lemma dv_fifo_restrict:
  assumes "dv_fifo m n" "\<And>i d. m' i = Some d \<Longrightarrow> m i = Some d"
  shows "dv_fifo m' n"
proof (rule dv_fifoI)
  fix j x
  assume x: "m' j = Some x"
  then show "dvID x = j \<and> dv_ValidateLoaded x = None \<and> dvSequence x \<le> n"
    using dv_fifoD(1-3) [OF assms(1)] assms(2) by blast
  assume "dvState x = DeliveryLeased"
  then have "is_head (ran m) x" using dv_fifoD(4) [OF assms(1)] assms(2) [OF x] by blast
  moreover have "ran m' \<subseteq> ran m" using assms(2) by (auto simp: ran_def)
  moreover have "x \<in> ran m'" using x by (rule ranI)
  ultimately show "is_head (ran m') x" unfolding is_head_def by blast
next
  fix j k x y
  assume "m' j = Some x" "m' k = Some y" "dvSequence x = dvSequence y"
  then show "j = k" using dv_fifoD(5) [OF assms(1)] assms(2) by blast
qed

definition ds_inv :: "dv_store \<Rightarrow> bool" where
  "ds_inv s \<longleftrightarrow> gm_wf (dsDeliveries s) \<and> dv_fifo (map_of (dsDeliveries s)) (dsNextSequence s)"

lemma ds_inv_keyed: "ds_inv s \<Longrightarrow> ds_keyed s"
  unfolding ds_inv_def ds_keyed_def dv_fifo_def by blast

lemma prepare_batch_Cons:
  "prepare_batch wall now byID (d # ds) = Inr ps \<longleftrightarrow>
     (\<exists>n ns. ps = n # ns \<and> dv_PrepareNew wall d now = Inr n \<and>
        (\<forall>e. map_of byID (dvID n) = Some e \<longrightarrow> SameIdentity e n) \<and>
        prepare_batch wall now (AList.update (dvID n) n byID) ds = Inr ns)"
  by (auto simp: result_simps split: option.splits)

lemma prepare_batch_Inr:
  assumes "prepare_batch wall now byID ds = Inr ps"
  shows "length ps = length ds \<and>
    list_all (\<lambda>p. dv_ValidateLoaded p = None \<and> dvState p = DeliveryPending) ps"
  using assms
proof (induction ds arbitrary: byID ps)
  case (Cons d ds)
  then obtain n ns where n: "dv_PrepareNew wall d now = Inr n" "ps = n # ns"
    "prepare_batch wall now (AList.update (dvID n) n byID) ds = Inr ns"
    unfolding prepare_batch_Cons by blast
  with Cons.IH [OF n(3)] show ?case by (simp add: dv_PrepareNew_Inr(1,2) [OF n(1)])
qed simp

lemma dv_ValidateLoaded_sequence [simp]: "dv_ValidateLoaded (d\<lparr>dvSequence := n\<rparr>) = dv_ValidateLoaded d"
  by (simp add: dv_ValidateLoaded_def dv_ValidateNew_def split: DeliveryState.split)

lemma enqueue_all_inv:
  assumes "ds_inv s" "list_all (\<lambda>p. dv_ValidateLoaded p = None \<and> dvState p = DeliveryPending) ps"
    and "unat (dsNextSequence s) + length ps < 2 ^ 64"
  shows "ds_inv (enqueue_all ps s) \<and>
    unat (dsNextSequence (enqueue_all ps s)) \<le> unat (dsNextSequence s) + length ps"
  using assms
proof (induction ps s rule: enqueue_all.induct)
  case (2 d ds s)
  show ?case
  proof (cases "map_of (dsDeliveries s) (dvID d)")
    case None
    let ?s = "s\<lparr>dsNextSequence := dsNextSequence s + 1,
      dsDeliveries := AList.update (dvID d) (d\<lparr>dvSequence := dsNextSequence s + 1\<rparr>) (dsDeliveries s)\<rparr>"
    have room: "dsNextSequence s + 1 \<noteq> 0" "unat (dsNextSequence s + 1) = unat (dsNextSequence s) + 1"
      using 2(5) u64_room u64_succ by (metis length_Cons zero_less_Suc)+
    have "ds_inv ?s"
      using 2(3,4) None room(1) dv_fifo_add [of "map_of (dsDeliveries s)"]
      by (simp add: ds_inv_def map_of_put)
    then show ?thesis
      using 2(1) [OF None refl] 2(4,5) None room(2) by (simp add: Let_def)
  next
    case (Some x)
    then show ?thesis using 2(2) [OF Some] 2(3-5) by simp
  qed
qed simp

lemma ds_inv_event:
  assumes inv: "ds_inv s" and c: "ds_event c s = Some (i, e)"
  shows "ds_inv (ds_step c s)" "dsNextSequence (ds_step c s) = dsNextSequence s"
proof -
  note step = ds_step_event [OF ds_inv_keyed [OF inv] c]
  show "dsNextSequence (ds_step c s) = dsNextSequence s"
    unfolding step by (auto split: option.split sum.split)
  show "ds_inv (ds_step c s)"
  proof (cases "map_of (dsDeliveries s) i")
    case (Some d)
    have m: "dv_fifo (map_of (dsDeliveries s)) (dsNextSequence s)" using inv by (simp add: ds_inv_def)
    have "dv_fifo ((map_of (dsDeliveries s))(i \<mapsto> d')) (dsNextSequence s)"
      if ok: "dv_apply e d = Inr d'" for d'
    proof (rule dv_fifo_update [OF m Some])
      show "\<not> dv_Terminal d" using ok
        by (cases e) (auto simp: dv_Lease_Inr FinishLease_Inr LeaseAvailable_def dv_Terminal_def Let_def)
      show "dvID d' = i" using dv_apply_identity(5) [OF ok] dv_fifoD(1) [OF m Some] by simp
      assume leased: "dvState d' = DeliveryLeased"
      show "is_head (ran (map_of (dsDeliveries s))) d"
        using c
      proof (cases rule: ds_event_cases)
        case (lease newID wall now dur)
        then show ?thesis
          using lease_selects(2) [OF _ lease(3) refl] inv dv_fifoD(1) [OF m] Some
          by (auto simp: ds_inv_def is_head_def ran_def)
      next
        case (finish wall now token st at err)
        then show ?thesis using ok leased by (auto simp: FinishLease_Inr)
      qed
    qed (use dv_apply_identity [OF ok] in auto)
    then show ?thesis
      using inv step Some by (auto simp: ds_inv_def map_of_put split: sum.split)
  qed (use inv step in simp)
qed

text \<open>The number of deliveries that a call may add.\<close>

fun batch_size :: "dv_call \<Rightarrow> nat" where
  "batch_size (DEnqueue ctx wall ds) = length ds"
| "batch_size _ = 0"

lemma ds_inv_step:
  assumes inv: "ds_inv s" and room: "unat (dsNextSequence s) + batch_size c < 2 ^ 64"
  shows "ds_inv (ds_step c s) \<and>
    unat (dsNextSequence (ds_step c s)) \<le> unat (dsNextSequence s) + batch_size c"
proof (cases "ds_event c s")
  case None
  then consider ctx wall ds where "c = DEnqueue ctx wall ds" | ctx before where "c = DPurge ctx before"
    | "ds_step c s = s" using ds_step_no_event by blast
  then show ?thesis
  proof cases
    case 1
    then show ?thesis
      using ds_Enqueue_fst [of ctx wall ds s] inv room enqueue_all_inv [OF inv] prepare_batch_Inr
      by (fastforce simp: PrepareNewBatch_def)
  next
    case 2
    have wf: "gm_wf (dsDeliveries s)" using inv by (simp add: ds_inv_def)
    have "dv_fifo (map_of (dsDeliveries (fst (purge_deliveries before (dsDeliveries s) s 0))))
        (dsNextSequence s)"
      by (rule dv_fifo_restrict [of "map_of (dsDeliveries s)"])
        (use inv in \<open>auto simp: ds_inv_def purged_deliveries [OF wf] split: option.splits if_splits\<close>)
    then have "ds_inv (fst (purge_deliveries before (dsDeliveries s) s 0))"
      using wf by (simp add: ds_inv_def purge_deliveries_lookup(2,3))
    then show ?thesis
      using 2 inv ds_purge_step [of ctx before s] purge_deliveries_lookup(2) by auto
  qed (use inv in simp)
next
  case (Some ie)
  then show ?thesis using ds_inv_event [OF inv] by (cases ie) auto
qed

lemma ds_inv_run:
  assumes "ds_inv s" "unat (dsNextSequence s) + sum_list (map batch_size cs) < 2 ^ 64"
  shows "ds_inv (run_calls ds_step cs s)"
  using assms
proof (induction cs arbitrary: s)
  case (Cons c cs)
  then show ?case using ds_inv_step [of s c] by fastforce
qed simp

lemma ds_inv_reachable:
  assumes "sum_list (map batch_size cs) < 2 ^ 64"
  shows "ds_inv (run_calls ds_step cs newMemoryDeliveryStore)"
  using assms
  by (intro ds_inv_run) (simp_all add: ds_inv_def dv_fifo_def newMemoryDeliveryStore_def)

section \<open>Properties\<close>

lemma ds_Lease_Inr:
  assumes "ds_inv s" "ds_Lease None newID wall now dur s = (s', Inr d')"
  obtains d where "map_of (dsDeliveries s) (dvID d') = Some d"
    "is_head (ran (map_of (dsDeliveries s))) d"
    "dv_Lease wall d newID (dv_NormalizeMutationTime wall now) dur = Inr d'"
    "s' = s\<lparr>dsDeliveries := AList.update (dvID d') d' (dsDeliveries s)\<rparr>"
proof -
  let ?now = "dv_NormalizeMutationTime wall now"
  let ?d = "hd (sort_func dv_Compare (lease_candidates wall ?now s))"
  have ok: "dv_ValidateLeaseDuration dur = None" "lease_candidates wall ?now s \<noteq> []"
    using assms(2) by (auto simp: ds_Lease_def Let_def split: option.splits if_splits)
  have wf: "gm_wf (dsDeliveries s)" and m: "dv_fifo (map_of (dsDeliveries s)) (dsNextSequence s)"
    using assms(1) by (auto simp: ds_inv_def)
  have d: "dv_Lease wall ?d newID ?now dur = Inr d'"
    "s' = s\<lparr>dsDeliveries := AList.update (dvID d') d' (dsDeliveries s)\<rparr>"
    using assms(2) unfolding ds_Lease_selected [OF ok refl] by (auto split: sum.splits)
  have "is_head (ran (map_of (dsDeliveries s))) ?d" by (rule lease_selects(2) [OF wf ok(2) refl])
  moreover have "dvID d' = dvID ?d" using dv_apply_identity(5) [of "EvLease wall ?now newID dur"] d(1) by simp
  moreover from calculation have "map_of (dsDeliveries s) (dvID d') = Some ?d"
    using dv_fifoD(1) [OF m] by (auto simp: is_head_def ran_def)
  ultimately show thesis using that d by blast
qed

lemma is_head_strict:
  assumes "ds_inv s" "is_head (ran (map_of (dsDeliveries s))) d" "map_of (dsDeliveries s) j = Some x"
    and "\<not> dv_Terminal x" "dv_Partition x = dv_Partition d" "j \<noteq> dvID d"
  shows "dvSequence d < dvSequence x"
proof -
  have m: "dv_fifo (map_of (dsDeliveries s)) (dsNextSequence s)"
    using assms(1) by (auto simp: ds_inv_def)
  obtain i where i: "map_of (dsDeliveries s) i = Some d"
    using assms(2) by (auto simp: is_head_def ran_def)
  have "dvSequence d \<le> dvSequence x"
    using assms(2-5) unfolding is_head_def by (blast intro: ranI)
  moreover have "dvSequence d \<noteq> dvSequence x"
    using dv_fifoD(5) [OF m i assms(3)] dv_fifoD(1) [OF m i] assms(6) by auto
  ultimately show ?thesis by simp
qed

text \<open>
  C30: Per-partition FIFO. In every reachable queue a leased delivery comes before all other
  unfinished deliveries of its partition, so at most one delivery of a partition is leased.
\<close>

theorem ds_partition_exclusive:
  assumes "sum_list (map batch_size cs) < 2 ^ 64"
    and "s = run_calls ds_step cs newMemoryDeliveryStore"
    and "map_of (dsDeliveries s) i = Some d" "dvState d = DeliveryLeased"
    and "map_of (dsDeliveries s) j = Some x" "\<not> dv_Terminal x"
    and "dv_Partition x = dv_Partition d" "i \<noteq> j"
  shows "dvSequence d < dvSequence x \<and> dvState x \<noteq> DeliveryLeased"
proof -
  have inv: "ds_inv s" using ds_inv_reachable [OF assms(1)] assms(2) by simp
  then have m: "dv_fifo (map_of (dsDeliveries s)) (dsNextSequence s)" by (simp add: ds_inv_def)
  have less: "dvSequence d < dvSequence x"
    using is_head_strict [OF inv dv_fifoD(4) [OF m assms(3,4)] assms(5-7)]
      dv_fifoD(1) [OF m assms(3)] assms(8) by simp
  moreover have "\<not> dvSequence x < dvSequence d"
    using less by simp
  then have "dvState x \<noteq> DeliveryLeased"
    using is_head_strict [OF inv dv_fifoD(4) [OF m assms(5)] assms(3)] assms(4,7,8)
      dv_fifoD(1) [OF m assms(5)] by (auto simp: dv_Terminal_def)
  ultimately show ?thesis by blast
qed

text \<open>
  What \<open>Lease\<close> hands out: the stored delivery is the first unfinished one of its
  partition, it was due, and no delivery of the partition is held under an unexpired lease.
  The new lease carries the fresh token and the attempt counter grew by one.
\<close>

theorem ds_Lease_head_of_line:
  assumes "ds_inv s" "ds_Lease None newID wall now dur s = (s', Inr d')"
  shows "\<exists>d. map_of (dsDeliveries s) (dvID d') = Some d \<and>
    LeaseAvailable wall d (dv_NormalizeMutationTime wall now) \<and>
    dvState d' = DeliveryLeased \<and> dvLeaseToken d' = newID \<and> dvAttempt d' = dvAttempt d + 1 \<and>
    map_of (dsDeliveries s') (dvID d') = Some d' \<and>
    (\<forall>j x. map_of (dsDeliveries s) j = Some x \<longrightarrow> j \<noteq> dvID d' \<longrightarrow> \<not> dv_Terminal x \<longrightarrow>
       dv_Partition x = dv_Partition d' \<longrightarrow>
       dvSequence d' < dvSequence x \<and> dvState x \<noteq> DeliveryLeased)"
proof -
  obtain d where d: "map_of (dsDeliveries s) (dvID d') = Some d"
    "is_head (ran (map_of (dsDeliveries s))) d"
    "dv_Lease wall d newID (dv_NormalizeMutationTime wall now) dur = Inr d'"
    "s' = s\<lparr>dsDeliveries := AList.update (dvID d') d' (dsDeliveries s)\<rparr>"
    using ds_Lease_Inr [OF assms] .
  have m: "dv_fifo (map_of (dsDeliveries s)) (dsNextSequence s)"
    using assms(1) by (simp add: ds_inv_def)
  have same: "dvSequence d' = dvSequence d" "dv_Partition d' = dv_Partition d"
    using dv_apply_identity [of "EvLease wall (dv_NormalizeMutationTime wall now) newID dur" d d'] d(3)
    by simp_all
  have "dvSequence d' < dvSequence x \<and> dvState x \<noteq> DeliveryLeased"
    if x: "map_of (dsDeliveries s) j = Some x" "j \<noteq> dvID d'" "\<not> dv_Terminal x"
      "dv_Partition x = dv_Partition d'" for j x
  proof -
    have less: "dvSequence d < dvSequence x"
      using is_head_strict [OF assms(1) d(2) x(1,3)] x(2,4) same dv_fifoD(1) [OF m d(1)] by simp
    have "\<not> dv_Terminal d" using d(2) by (simp add: is_head_def)
    then have "\<not> is_head (ran (map_of (dsDeliveries s))) x"
      using is_head_strict [OF assms(1) _ d(1), of x] less x(2,4) same(2) dv_fifoD(1) [OF m x(1)]
      by (metis order_less_asym)
    then have "dvState x \<noteq> DeliveryLeased" using dv_fifoD(4) [OF m x(1)] by blast
    with less same show ?thesis by simp
  qed
  moreover have "LeaseAvailable wall d (dv_NormalizeMutationTime wall now)"
    using d(3) by (simp add: dv_Lease_Inr dv_NormalizeMutationTime_def split: if_splits)
  moreover have "dvState d' = DeliveryLeased" "dvLeaseToken d' = newID" "dvAttempt d' = dvAttempt d + 1"
    using d(3) by (simp_all add: dv_Lease_Inr)
  moreover have "map_of (dsDeliveries s') (dvID d') = Some d'" using d(4) by simp
  ultimately show ?thesis using d(1) by blast
qed

lemma dv_Lease_available:
  assumes "dv_ValidateLoaded d = None" "LeaseAvailable wall d now" "0 < dur" "newID \<noteq> []"
    and "dv_NormalizeMutationTime wall now + dur \<noteq> 0"
    and "dv_NormalizeMutationTime wall now = now"
  shows "\<exists>d'. dv_Lease wall d newID now dur = Inr d'"
  using assms by (auto simp: dv_Lease_Inr dv_ValidateLoaded_def dv_ValidateNew_def result_simps
      split: DeliveryState.splits)

text \<open>
  \<open>Lease\<close> finds work whenever there is some: with a positive duration and a
  generated token it reports \<open>ErrNoDelivery\<close> exactly when no partition's first
  unfinished delivery is due (the expiry must not be the zero time).
\<close>

theorem ds_Lease_finds_work:
  assumes "ds_inv s" "0 < dur" "newID \<noteq> []" "now \<noteq> 0" "now + dur \<noteq> 0"
  shows "(\<exists>d. snd (ds_Lease None newID wall now dur s) = Inr d) \<longleftrightarrow>
    (\<exists>i d. map_of (dsDeliveries s) i = Some d \<and> LeaseAvailable wall d now \<and>
       is_head (ran (map_of (dsDeliveries s))) d)"
proof -
  have n: "dv_NormalizeMutationTime wall now = now" using assms(4) by (simp add: dv_NormalizeMutationTime_def)
  have wf: "gm_wf (dsDeliveries s)" and m: "dv_fifo (map_of (dsDeliveries s)) (dsNextSequence s)"
    using assms(1) by (auto simp: ds_inv_def)
  have dur: "dv_ValidateLeaseDuration dur = None" using assms(2) by (simp add: dv_ValidateLeaseDuration_def)
  show ?thesis
  proof
    assume "\<exists>d. snd (ds_Lease None newID wall now dur s) = Inr d"
    then obtain s' d' where l: "ds_Lease None newID wall now dur s = (s', Inr d')"
      by (metis prod.collapse)
    obtain d where "map_of (dsDeliveries s) (dvID d') = Some d"
      "is_head (ran (map_of (dsDeliveries s))) d" "dv_Lease wall d newID now dur = Inr d'"
      using ds_Lease_Inr [OF assms(1) l] n by metis
    then show "\<exists>i d. map_of (dsDeliveries s) i = Some d \<and> LeaseAvailable wall d now \<and>
        is_head (ran (map_of (dsDeliveries s))) d"
      using n by (auto simp: dv_Lease_Inr)
  next
    assume "\<exists>i d. map_of (dsDeliveries s) i = Some d \<and> LeaseAvailable wall d now \<and>
        is_head (ran (map_of (dsDeliveries s))) d"
    then obtain i d where d: "map_of (dsDeliveries s) i = Some d" "LeaseAvailable wall d now"
      "is_head (ran (map_of (dsDeliveries s))) d" by blast
    have "map_of (scan_heads (map snd (dsDeliveries s)) []) (dv_Partition d) \<noteq> None"
      using heads_of_store [OF wf] d(3) unfolding heads_of_def is_head_def by blast
    then obtain h where h: "map_of (scan_heads (map snd (dsDeliveries s)) []) (dv_Partition d) = Some h"
      by blast
    then have hh: "is_head (ran (map_of (dsDeliveries s))) h" "dv_Partition h = dv_Partition d"
      using heads_of_store [OF wf] unfolding heads_of_def by auto
    then have "h = d"
    proof -
      obtain j where j: "map_of (dsDeliveries s) j = Some h"
        using hh(1) by (auto simp: is_head_def ran_def)
      have "dvSequence h = dvSequence d"
        using hh d(1,3) j unfolding is_head_def by (metis order_antisym ranI)
      then show ?thesis using dv_fifoD(5) [OF m j d(1)] j d(1) by simp
    qed
    then have c: "lease_candidates wall now s \<noteq> []"
      using lease_candidates_iff [OF wf, of d wall now] d(2) h by auto
    let ?x = "hd (sort_func dv_Compare (lease_candidates wall now s))"
    have x: "LeaseAvailable wall ?x now" "is_head (ran (map_of (dsDeliveries s))) ?x"
      using lease_selects(1,2) [OF wf c refl] .
    then obtain k where "map_of (dsDeliveries s) k = Some ?x" by (auto simp: is_head_def ran_def)
    then have "dv_ValidateLoaded ?x = None" by (rule dv_fifoD(2) [OF m])
    then obtain d' where "dv_Lease wall ?x newID now dur = Inr d'"
      using dv_Lease_available [OF _ x(1) assms(2,3)] n assms(5) by auto
    then show "\<exists>d. snd (ds_Lease None newID wall now dur s) = Inr d"
      using ds_Lease_selected [OF dur, of wall now s ?x newID] c n by simp
  qed
qed

section \<open>Idempotent enqueue\<close>

text \<open>A batch that was accepted once is accepted again with the same identities.\<close>

lemma prepare_batch_again:
  assumes "prepare_batch wall now byID ds = Inr ps"
    and "\<And>k. rel_option SameIdentity (map_of byID' k) (map_of byID k)"
  shows "\<exists>ps'. prepare_batch wall' now' byID' ds = Inr ps' \<and> list_all2 SameIdentity ps' ps"
  using assms
proof (induction ds arbitrary: byID byID' ps)
  case (Cons d ds)
  then obtain n ns where n: "dv_PrepareNew wall d now = Inr n" "ps = n # ns"
    "prepare_batch wall now (AList.update (dvID n) n byID) ds = Inr ns"
    "\<And>e. map_of byID (dvID n) = Some e \<Longrightarrow> SameIdentity e n"
    unfolding prepare_batch_Cons by blast
  obtain n' where n': "dv_PrepareNew wall' d now' = Inr n'" "SameIdentity n' n"
    using dv_PrepareNew_again [OF n(1)] by blast
  have i: "dvID n' = dvID n" using n'(2) by (simp add: SameIdentity_def)
  have "\<And>k. rel_option SameIdentity (map_of (AList.update (dvID n') n' byID') k)
      (map_of (AList.update (dvID n) n byID) k)"
    using Cons.prems(2) n'(2) i by simp
  then obtain ns' where ns': "prepare_batch wall' now' (AList.update (dvID n') n' byID') ds = Inr ns'"
    "list_all2 SameIdentity ns' ns"
    using Cons.IH [OF n(3)] by blast
  have "SameIdentity e n'" if e: "map_of byID' (dvID n') = Some e" for e
  proof -
    obtain e' where "map_of byID (dvID n) = Some e'" "SameIdentity e e'"
      using Cons.prems(2) [of "dvID n"] e i by (auto simp: option_rel_Some1)
    then show ?thesis using n(4) n'(2) by (simp add: SameIdentity_def)
  qed
  then show ?case
    using n'(1) ns' n'(2) n(2) unfolding prepare_batch_Cons by auto
qed simp

lemma prepare_batch_consistent:
  assumes "prepare_batch wall now byID ds = Inr ps"
  shows "(\<forall>p\<in>set ps. \<forall>e. map_of byID (dvID p) = Some e \<longrightarrow> SameIdentity e p) \<and>
    (\<forall>p\<in>set ps. \<forall>q\<in>set ps. dvID p = dvID q \<longrightarrow> SameIdentity p q)"
  using assms
proof (induction ds arbitrary: byID ps)
  case (Cons d ds)
  then obtain n ns where n: "ps = n # ns"
    "prepare_batch wall now (AList.update (dvID n) n byID) ds = Inr ns"
    "\<And>e. map_of byID (dvID n) = Some e \<Longrightarrow> SameIdentity e n"
    unfolding prepare_batch_Cons by blast
  have later: "SameIdentity n p" if "p \<in> set ns" "dvID p = dvID n" for p
    using Cons.IH [OF n(2)] that by auto
  have "SameIdentity e p" if "p \<in> set ns" "map_of byID (dvID p) = Some e" for p e
  proof (cases "dvID p = dvID n")
    case True
    then show ?thesis using n(3) that later SameIdentity_trans by metis
  next
    case False
    then show ?thesis using Cons.IH [OF n(2)] that by simp
  qed
  then show ?case
    using n(1,3) later Cons.IH [OF n(2)] SameIdentity_sym by auto
qed simp

text \<open>Whether a delivery is stored with the given identity.\<close>

definition held :: "dv_store \<Rightarrow> delivery \<Rightarrow> bool" where
  "held s p \<longleftrightarrow> (\<exists>d. map_of (dsDeliveries s) (dvID p) = Some d \<and> SameIdentity d p)"

lemma enqueue_conflict_None:
  "enqueue_conflict s ps = None \<longleftrightarrow>
     list_all (\<lambda>p. map_of (dsDeliveries s) (dvID p) = None \<or> held s p) ps"
  by (induction ps) (auto simp: held_def split: option.splits)

lemma enqueue_all_held_unchanged: "list_all (held s) ps \<Longrightarrow> enqueue_all ps s = s"
  by (induction ps) (auto simp: held_def)

lemma enqueue_all_holds:
  assumes "list_all (\<lambda>p. map_of (dsDeliveries s) (dvID p) = None \<or> held s p) ps"
    and "\<forall>p\<in>set ps. \<forall>q\<in>set ps. dvID p = dvID q \<longrightarrow> SameIdentity p q"
  shows "list_all (held (enqueue_all ps s)) ps"
  using assms
proof (induction ps s rule: enqueue_all.induct)
  case (2 d ds s)
  show ?case
  proof (cases "map_of (dsDeliveries s) (dvID d)")
    case (Some e)
    then have "held (enqueue_all ds s) d"
      using 2(3) enqueue_all_keeps unfolding held_def by fastforce
    then show ?thesis using 2 Some by simp
  next
    case None
    let ?d = "d\<lparr>dvSequence := dsNextSequence s + 1\<rparr>"
    let ?s = "s\<lparr>dsNextSequence := dsNextSequence s + 1,
      dsDeliveries := AList.update (dvID d) ?d (dsDeliveries s)\<rparr>"
    have d: "map_of (dsDeliveries ?s) (dvID d) = Some ?d" "\<And>q. SameIdentity d q \<Longrightarrow> SameIdentity ?d q"
      by (simp_all add: SameIdentity_def)
    have "list_all (\<lambda>p. map_of (dsDeliveries ?s) (dvID p) = None \<or> held ?s p) ds"
      using 2(3,4) d(2) by (auto simp: list_all_iff held_def)
    then have "list_all (held (enqueue_all ds ?s)) ds"
      using 2(1) [OF None refl] 2(4) by simp
    moreover have "held (enqueue_all ds ?s) d"
      using enqueue_all_keeps [OF d(1)] d(2) [OF SameIdentity_refl] unfolding held_def by blast
    ultimately show ?thesis using None by (simp add: Let_def)
  qed
qed simp

lemma run_events_dv_identity:
  "SameIdentity (run_events dv_apply es d) d"
  by (rule run_events_invariant [where P = "\<lambda>x. SameIdentity x d"])
    (auto dest: dv_apply_identity(1) intro: SameIdentity_trans)

lemma held_run:
  assumes "ds_keyed s" "held s p" "list_all (\<lambda>c. \<not> ds_forgets c) cs"
  shows "held (run_calls ds_step cs s) p"
proof -
  obtain d where d: "map_of (dsDeliveries s) (dvID p) = Some d" "SameIdentity d p"
    using assms(2) by (auto simp: held_def)
  then show ?thesis
    using dv_records.run_projects [OF assms(1) d(1) assms(3)] run_events_dv_identity SameIdentity_trans
    unfolding held_def by blast
qed

lemma held_identity: "SameIdentity p q \<Longrightarrow> held s q \<Longrightarrow> held s p"
  unfolding held_def by (auto simp: SameIdentity_def)

text \<open>
  Enqueueing is idempotent: after a batch was accepted, enqueueing the same batch again,
  at any time and whatever calls ran in between (purging apart), succeeds and changes
  nothing, even when the batch repeats a delivery.
\<close>

theorem ds_Enqueue_idempotent:
  assumes "ds_keyed s" "ds_Enqueue None wall ds s = (s', None)"
    and "list_all (\<lambda>c. \<not> ds_forgets c) cs"
  shows "ds_Enqueue None wall' ds (run_calls ds_step cs s') = (run_calls ds_step cs s', None)"
proof -
  let ?s = "run_calls ds_step cs s'"
  obtain ps where ps: "prepare_batch wall wall [] ds = Inr ps" "enqueue_conflict s ps = None"
    "s' = enqueue_all ps s"
    using assms(2) by (auto simp: ds_Enqueue_def PrepareNewBatch_def split: sum.splits option.splits)
  have "list_all (held s') ps"
    unfolding ps(3) using enqueue_all_holds prepare_batch_consistent [OF ps(1)] ps(2)
    by (simp add: enqueue_conflict_None)
  then have held: "list_all (held ?s) ps"
    using held_run enqueue_all_keyed [OF assms(1)] ps(3) assms(3) by (auto simp: list_all_iff)
  obtain ps' where ps': "prepare_batch wall' wall' [] ds = Inr ps'" "list_all2 SameIdentity ps' ps"
    using prepare_batch_again [OF ps(1), of "[]"] by auto
  then have "list_all (held ?s) ps'"
    using held held_identity by (auto simp: list_all_length list_all2_conv_all_nth)
  then have "enqueue_conflict ?s ps' = None" "enqueue_all ps' ?s = ?s"
    by (auto simp: enqueue_conflict_None list_all_iff enqueue_all_held_unchanged)
  then show ?thesis using ps'(1) by (simp add: ds_Enqueue_def PrepareNewBatch_def)
qed

text \<open>
  Fencing in the queue. When a delivery is leased again under a new token, the previous
  holder's token is rejected by \<open>Ack\<close>, \<open>Retry\<close> and \<open>DeadLetter\<close> for ever,
  whatever calls run in between, and its late calls change nothing.
\<close>

theorem ds_stale_lease_rejected:
  assumes "ds_inv s" "ds_Lease None t' wall now dur s = (s', Inr d)" "t' \<noteq> t"
    and "list_all (\<lambda>c. \<not> ds_forgets c) cs"
    and "\<forall>c\<in>set cs. \<forall>s. \<forall>e. ds_event c s = Some (dvID d, e) \<longrightarrow> dv_grants e \<noteq> Some t"
    and "s'' = run_calls ds_step cs s'"
  shows "(\<exists>err. ds_Ack None wall' (dvID d) t now' s'' = (s'', Some err)) \<and>
    (\<exists>err. ds_Retry None wall' (dvID d) t at lastError s'' = (s'', Some err)) \<and>
    (\<exists>err. ds_DeadLetter None wall' (dvID d) t now' lastError s'' = (s'', Some err))"
proof -
  obtain d0 where d0: "dv_Lease wall d0 t' (dv_NormalizeMutationTime wall now) dur = Inr d"
    "s' = s\<lparr>dsDeliveries := AList.update (dvID d) d (dsDeliveries s)\<rparr>"
    using ds_Lease_Inr [OF assms(1,2)] by metis
  then have d: "map_of (dsDeliveries s') (dvID d) = Some d" "ds_keyed s'"
    using ds_keyed_put [OF ds_inv_keyed [OF assms(1)]] by simp_all
  let ?es = "events_at ds_event ds_step (dvID d) cs s'"
  have x: "map_of (dsDeliveries s'') (dvID d) = Some (run_events dv_apply ?es d)"
    using dv_records.run_projects [OF d(2,1) assms(4)] assms(6) by simp
  have "\<forall>e\<in>set ?es. dv_grants e \<noteq> Some t"
    using events_at_in assms(5) by metis
  then have "\<exists>err. FinishLease wall' (run_events dv_apply ?es d) t n st a l = Inl err" for n st a l
    using dv_leases.takeover_fences [of "EvLease wall (dv_NormalizeMutationTime wall now) t' dur" d0 d t' t
        ?es "EvFinish wall' n t st a l"] d0(1) assms(3) by simp
  then have "\<exists>err. ds_transition None wall' (dvID d) t n st a l s'' = (s'', Some err)" for n st a l
    using x by (simp add: ds_transition_def) (metis old.sum.simps(5))
  then show ?thesis by (simp add: ds_Ack_def ds_Retry_def ds_DeadLetter_def)
qed

lemma lease_candidates_reordered:
  assumes "ds_inv s" "reordered (dsDeliveries s) (dsDeliveries s')"
  shows "set (lease_candidates wall now s) = set (lease_candidates wall now s')"
proof -
  have wf: "gm_wf (dsDeliveries s)" "gm_wf (dsDeliveries s')"
    and m: "dv_fifo (map_of (dsDeliveries s)) (dsNextSequence s)"
    and eq: "map_of (dsDeliveries s') = map_of (dsDeliveries s)"
    using assms(1) reordered_wf [OF assms(2)] reordered_lookup [OF assms(2)] by (auto simp: ds_inv_def)
  have unique: "h = h'" if hh: "is_head (ran (map_of (dsDeliveries s))) h" "is_head (ran (map_of (dsDeliveries s))) h'"
    "dv_Partition h = dv_Partition h'" for h h'
  proof -
    obtain i j where ij: "map_of (dsDeliveries s) i = Some h" "map_of (dsDeliveries s) j = Some h'"
      using hh by (auto simp: is_head_def ran_def)
    have "dvSequence h = dvSequence h'"
      using hh unfolding is_head_def by (metis order_antisym)
    then have "i = j" by (rule dv_fifoD(5) [OF m ij])
    with ij show ?thesis by simp
  qed
  have head: "map_of (scan_heads (map snd (dsDeliveries q)) []) (dv_Partition d) = Some d \<longleftrightarrow>
      is_head (ran (map_of (dsDeliveries s))) d"
    if q: "q = s \<or> q = s'" for q d
  proof -
    have h: "heads_of (ran (map_of (dsDeliveries s))) (scan_heads (map snd (dsDeliveries q)) [])"
      using heads_of_store [OF wf(1)] heads_of_store [OF wf(2)] eq q by auto
    show ?thesis
    proof
      assume d: "is_head (ran (map_of (dsDeliveries s))) d"
      then obtain h' where "map_of (scan_heads (map snd (dsDeliveries q)) []) (dv_Partition d) = Some h'"
        using h unfolding heads_of_def is_head_def by blast
      moreover from this have "h' = d" using h d unique unfolding heads_of_def by metis
      ultimately show "map_of (scan_heads (map snd (dsDeliveries q)) []) (dv_Partition d) = Some d" by simp
    qed (use h in \<open>auto simp: heads_of_def\<close>)
  qed
  show ?thesis
    by (intro set_eqI) (simp only: lease_candidates_iff [OF wf(1)] lease_candidates_iff [OF wf(2)] head simp_thms)
qed

lemma lease_choice_reordered:
  assumes "ds_inv s" "reordered (dsDeliveries s) (dsDeliveries s')" "lease_candidates wall now s \<noteq> []"
  shows "hd (sort_func dv_Compare (lease_candidates wall now s)) =
    hd (sort_func dv_Compare (lease_candidates wall now s'))" (is "?x = ?y")
proof -
  have wf: "gm_wf (dsDeliveries s)" "gm_wf (dsDeliveries s')"
    and m: "dv_fifo (map_of (dsDeliveries s)) (dsNextSequence s)"
    and eq: "map_of (dsDeliveries s') = map_of (dsDeliveries s)"
    using assms(1) reordered_wf [OF assms(2)] reordered_lookup [OF assms(2)] by (auto simp: ds_inv_def)
  note same = lease_candidates_reordered [OF assms(1,2), of wall now]
  have ne: "lease_candidates wall now s' \<noteq> []" using same assms(3) by (metis set_empty)
  have mem: "?x \<in> set (lease_candidates wall now s)" "?y \<in> set (lease_candidates wall now s')"
    using assms(3) ne by (metis hd_in_set length_0_conv length_sort_func set_sort_func)+
  have "dv_Compare ?x ?y \<le> 0" "dv_Compare ?y ?x \<le> 0"
    using lease_selects(3) [OF wf(1) assms(3) refl] lease_selects(3) [OF wf(2) ne refl] mem same
    by blast+
  then have "dv_Compare ?x ?y = 0" using dv_order.cmp_flip [of ?x ?y] by linarith
  then have "dvSequence ?x = dvSequence ?y" by (simp add: dv_Compare_eq)
  moreover obtain i j where ij: "map_of (dsDeliveries s) i = Some ?x" "map_of (dsDeliveries s) j = Some ?y"
    using lease_selects(2) [OF wf(1) assms(3) refl] lease_selects(2) [OF wf(2) ne refl] eq
    by (auto simp: is_head_def ran_def)
  ultimately have "i = j" using dv_fifoD(5) [OF m ij] by blast
  with ij show ?thesis by simp
qed

lemma sort_deliveries_reordered:
  assumes "ds_inv s" "reordered (dsDeliveries s) (dsDeliveries s')"
  shows "sort_func dv_Compare (filter P (map snd (dsDeliveries s))) =
    sort_func dv_Compare (filter P (map snd (dsDeliveries s')))"
proof (rule dv_order.sort_func_unique)
  show "mset (filter P (map snd (dsDeliveries s))) = mset (filter P (map snd (dsDeliveries s')))"
    using assms(2) unfolding reordered_def by (metis mset_filter mset_map)
next
  fix x y
  assume xy: "x \<in> set (filter P (map snd (dsDeliveries s)))" "y \<in> set (filter P (map snd (dsDeliveries s)))"
    and 0: "dv_Compare x y = 0"
  have wf: "gm_wf (dsDeliveries s)" and m: "dv_fifo (map_of (dsDeliveries s)) (dsNextSequence s)"
    using assms(1) by (auto simp: ds_inv_def)
  obtain i j where ij: "map_of (dsDeliveries s) i = Some x" "map_of (dsDeliveries s) j = Some y"
    using xy gm_values_iff [OF wf] by (metis filter_is_subset list.set_map subsetD)
  have "dvSequence x = dvSequence y" using 0 by (simp add: dv_Compare_eq)
  then have "i = j" by (rule dv_fifoD(5) [OF m ij])
  with ij show "x = y" by simp
qed

text \<open>
  Go's map iteration order does not matter: two queues with the same entries in another
  order lease the same delivery and list the same deliveries.
\<close>

theorem ds_order_independent:
  assumes "ds_inv s" "reordered (dsDeliveries s) (dsDeliveries s')"
  shows "snd (ds_Lease ctx newID wall now dur s) = snd (ds_Lease ctx newID wall now dur s') \<and>
    map_of (dsDeliveries (fst (ds_Lease ctx newID wall now dur s))) =
    map_of (dsDeliveries (fst (ds_Lease ctx newID wall now dur s'))) \<and>
    ds_List ctx s = ds_List ctx s' \<and> ds_ListNonTerminal ctx s = ds_ListNonTerminal ctx s'"
proof -
  let ?now = "dv_NormalizeMutationTime wall now"
  have lookup: "map_of (dsDeliveries s') = map_of (dsDeliveries s)"
    using reordered_lookup [OF assms(2)] assms(1) by (simp add: ds_inv_def)
  have empty: "lease_candidates wall ?now s = [] \<longleftrightarrow> lease_candidates wall ?now s' = []"
    using lease_candidates_reordered [OF assms, of wall ?now] by (metis set_empty)
  have "snd (ds_Lease ctx newID wall now dur s) = snd (ds_Lease ctx newID wall now dur s') \<and>
    map_of (dsDeliveries (fst (ds_Lease ctx newID wall now dur s))) =
    map_of (dsDeliveries (fst (ds_Lease ctx newID wall now dur s')))"
    using empty lease_choice_reordered [OF assms, of wall ?now] lookup
    by (auto simp: ds_Lease_def Let_def map_of_put split: option.split sum.split)
  moreover have "ds_List ctx s = ds_List ctx s'"
    using sort_deliveries_reordered [OF assms, of "\<lambda>_. True"] by (simp add: ds_List_def)
  moreover have "ds_ListNonTerminal ctx s = ds_ListNonTerminal ctx s'"
    using sort_deliveries_reordered [OF assms] by (simp add: ds_ListNonTerminal_def)
  ultimately show ?thesis by blast
qed

section \<open>Samples\<close>

definition sample_delivery :: "string \<Rightarrow> delivery" where
  "sample_delivery i = target_Record
     \<lparr>tgPlugin = ''mail'', tgPluginVersion = ''v1'', tgSubscription = ''inbox'', tgResourceRevision = []\<rparr>
     \<lparr>evID = i, evName = ''session.done'', evSessionID = ''s1'', evGeneration = 1, evPayload = ''{}''\<rparr> 5"

definition sample_calls :: "dv_call list" where
  "sample_calls = [DEnqueue None 5 [sample_delivery ''e1'', sample_delivery ''e2''],
     DLease None ''t1'' 10 10 30]"

definition sample_first :: delivery where
  "sample_first = (sample_delivery ''e1'')\<lparr>dvSequence := 1, dvState := DeliveryLeased, dvAttempt := 1,
     dvAvailableAt := 5, dvLeaseToken := ''t1'', dvLeaseExpiresAt := 40, dvUpdatedAt := 10\<rparr>"

definition sample_second :: delivery where
  "sample_second = (sample_delivery ''e2'')\<lparr>dvSequence := 2, dvState := DeliveryPending,
     dvAvailableAt := 5, dvUpdatedAt := 5\<rparr>"

definition sample_queue :: dv_store where
  "sample_queue = \<lparr>dsDeliveries = [(''e1.inbox'', sample_first), (''e2.inbox'', sample_second)],
     dsNextSequence = 2\<rparr>"

lemma sample_queue_run: "sample_queue = run_calls ds_step sample_calls newMemoryDeliveryStore"
  by code_simp

lemma sample_queue_inv: "ds_inv sample_queue"
  unfolding sample_queue_run by (rule ds_inv_reachable) (simp add: sample_calls_def)

definition sample_second_try :: delivery where
  "sample_second_try = sample_first\<lparr>dvAttempt := 2, dvLeaseToken := ''t2'', dvLeaseExpiresAt := 80,
     dvUpdatedAt := 50\<rparr>"

lemma sample_lease_again:
  "ds_Lease None ''t2'' 50 50 30 sample_queue =
     (sample_queue\<lparr>dsDeliveries := [(''e1.inbox'', sample_second_try), (''e2.inbox'', sample_second)]\<rparr>,
      Inr sample_second_try)"
  by code_simp

theorem ds_partition_exclusive_witness:
  "dvSequence sample_first < dvSequence sample_second \<and> dvState sample_second \<noteq> DeliveryLeased"
  by (rule ds_partition_exclusive [OF _ sample_queue_run, of "''e1.inbox''" _ "''e2.inbox''"])
    (simp_all add: sample_calls_def sample_queue_def sample_first_def sample_second_def
      dv_Terminal_def dv_Partition_def sample_delivery_def target_Record_def target_partition_def)

theorem ds_Lease_head_of_line_witness:
  "\<exists>d. map_of (dsDeliveries sample_queue) (dvID sample_second_try) = Some d \<and>
     LeaseAvailable 50 d (dv_NormalizeMutationTime 50 50) \<and> dvAttempt sample_second_try = dvAttempt d + 1"
  using ds_Lease_head_of_line [OF sample_queue_inv sample_lease_again] by blast

theorem ds_Lease_finds_work_witness:
  "\<exists>i d. map_of (dsDeliveries sample_queue) i = Some d \<and> LeaseAvailable 50 d 50 \<and>
     is_head (ran (map_of (dsDeliveries sample_queue))) d"
  using ds_Lease_finds_work [OF sample_queue_inv, of 30 "''t2''" 50 50] sample_lease_again by simp

theorem ds_Enqueue_idempotent_witness:
  "ds_Enqueue None 90 [sample_delivery ''e1'', sample_delivery ''e2''] sample_queue = (sample_queue, None)"
proof -
  have q: "sample_queue = run_calls ds_step [DLease None ''t1'' 10 10 30]
      (fst (ds_Enqueue None 5 [sample_delivery ''e1'', sample_delivery ''e2''] newMemoryDeliveryStore))"
    unfolding sample_queue_run sample_calls_def by simp
  have "ds_Enqueue None 5 [sample_delivery ''e1'', sample_delivery ''e2''] newMemoryDeliveryStore =
      (fst (ds_Enqueue None 5 [sample_delivery ''e1'', sample_delivery ''e2''] newMemoryDeliveryStore), None)"
    by code_simp
  from ds_Enqueue_idempotent [OF _ this, of "[DLease None ''t1'' 10 10 30]" 90] show ?thesis
    unfolding q [symmetric] by (simp add: ds_keyed_def newMemoryDeliveryStore_def)
qed

theorem ds_stale_lease_rejected_witness:
  "\<exists>err s''. s'' = fst (ds_Lease None ''t2'' 50 50 30 sample_queue) \<and>
     ds_Ack None 55 (dvID sample_second_try) ''t1'' 55 s'' = (s'', Some err)"
  using ds_stale_lease_rejected [OF sample_queue_inv sample_lease_again, of "''t1''" "[]" _ 55 55 60 "[]"]
  by (simp add: sample_lease_again)

theorem ds_order_independent_witness:
  "snd (ds_Lease None ''t2'' 50 50 30 sample_queue) = snd (ds_Lease None ''t2'' 50 50 30
     (sample_queue\<lparr>dsDeliveries := [(''e2.inbox'', sample_second), (''e1.inbox'', sample_first)]\<rparr>))"
  using ds_order_independent [OF sample_queue_inv, of
      "sample_queue\<lparr>dsDeliveries := [(''e2.inbox'', sample_second), (''e1.inbox'', sample_first)]\<rparr>"]
  by (simp add: reordered_def sample_queue_def)

end
