(* ===== verification/Delivery_Worker.thy ===== *)
theory Delivery_Worker
  imports Delivery_Store
begin

text \<open>
  The delivery worker of \<open>internal/deliveryworker/runner.go\<close> on the queue of
  \<open>Delivery_Store\<close>. The subscriber is an argument: what it returns for a delivery. A
  panic of the handler is an outcome too. The finalization context \<open>fin\<close> is detached from
  the worker's context. Logging has no effect on the state and is left out.
\<close>

section \<open>Definitions\<close>

record dv_runner =
  rnLease :: duration
  rnPoll :: duration
  rnMaxAttempts :: int

text \<open>What a handler does: return nil, an error, \<open>Permanent(cause)\<close>, or panic; the string is
  the text of the error that \<open>invokeHandler\<close> makes of it.\<close>

datatype handler_outcome =
  HandlerOk | HandlerError string | HandlerPermanent string | HandlerPanic string

text \<open>The error that \<open>invokeHandler\<close> returns, with \<open>permanentCause\<close> of it.\<close>

fun invokeHandler :: "handler_outcome \<Rightarrow> (string \<times> bool) option" where
  "invokeHandler HandlerOk = None"
| "invokeHandler (HandlerError e) = Some (e, False)"
| "invokeHandler (HandlerPermanent e) = Some (e, True)"
| "invokeHandler (HandlerPanic e) = Some (e, False)"

definition maxRetryDelay :: duration where
  "maxRetryDelay = 30 * 1000000000"

text \<open>A product of two \<open>int64\<close> values wraps around.\<close>

definition wrap64 :: "int \<Rightarrow> int" where
  "wrap64 x = (x + 2 ^ 63) mod 2 ^ 64 - 2 ^ 63"

definition retryDelay :: "duration \<Rightarrow> int \<Rightarrow> duration" where
  "retryDelay poll attempt =
     (let shift = nat (min (max (attempt - 1) 0) 10);
          delay = wrap64 (poll * 2 ^ shift)
      in min delay maxRetryDelay)"

definition cancelledDeliveryError :: "string option \<Rightarrow> string option \<Rightarrow> string" where
  "cancelledDeliveryError ctxError cause =
     (case cause of Some c \<Rightarrow> c
      | None \<Rightarrow> (case ctxError of Some e \<Rightarrow> e | None \<Rightarrow> ''delivery worker cancelled''))"

definition worker_deadLetter :: "ctx \<Rightarrow> gotime \<Rightarrow> delivery \<Rightarrow> string \<Rightarrow> dv_store \<Rightarrow> dv_store" where
  "worker_deadLetter fin wall d cause s =
     fst (ds_DeadLetter fin wall (dvID d) (dvLeaseToken d) wall cause s)"

definition worker_retry ::
  "dv_runner \<Rightarrow> ctx \<Rightarrow> gotime \<Rightarrow> delivery \<Rightarrow> string \<Rightarrow> dv_store \<Rightarrow> dv_store" where
  "worker_retry rn fin wall d cause s =
     (let now = wall in
      if dvAttempt d \<ge> rnMaxAttempts rn
      then fst (ds_DeadLetter fin wall (dvID d) (dvLeaseToken d) now cause s)
      else fst (ds_Retry fin wall (dvID d) (dvLeaseToken d)
             (now + retryDelay (rnPoll rn) (dvAttempt d)) cause s))"

definition releaseCancelled ::
  "ctx \<Rightarrow> ctx \<Rightarrow> gotime \<Rightarrow> delivery \<Rightarrow> string \<Rightarrow> dv_store \<Rightarrow> dv_store \<times> bool" where
  "releaseCancelled ctx fin wall d cause s =
     (if ctx = None then (s, False)
      else (fst (ds_Retry fin wall (dvID d) (dvLeaseToken d) wall
              (cancelledDeliveryError None (Some cause)) s), True))"

definition worker_deliver ::
  "dv_runner \<Rightarrow> ctx \<Rightarrow> ctx \<Rightarrow> gotime \<Rightarrow> delivery \<Rightarrow> (delivery \<Rightarrow> handler_outcome) \<Rightarrow> dv_store \<Rightarrow> dv_store" where
  "worker_deliver rn ctx fin wall d handle s =
     (case invokeHandler (handle d) of
        None \<Rightarrow> fst (ds_Ack fin wall (dvID d) (dvLeaseToken d) wall s)
      | Some (cause, permanent) \<Rightarrow>
          (case releaseCancelled ctx fin wall d cause s of
             (s', released) \<Rightarrow>
               if released then s'
               else if permanent then worker_deadLetter fin wall d cause s'
               else worker_retry rn fin wall d cause s'))"

text \<open>Whether \<open>Run\<close> goes on: stop, go on at once, or wait for the poll interval first.\<close>

datatype worker_next = WorkerStop | WorkerAgain | WorkerWait

text \<open>\<open>late\<close> is the worker's context after the call of \<open>Lease\<close> and during the handler.\<close>

definition worker_runOnce ::
  "dv_runner \<Rightarrow> ctx \<Rightarrow> ctx \<Rightarrow> ctx \<Rightarrow> string \<Rightarrow> gotime \<Rightarrow> gotime \<Rightarrow> (delivery \<Rightarrow> handler_outcome) \<Rightarrow>
   dv_store \<Rightarrow> dv_store \<times> worker_next" where
  "worker_runOnce rn ctx late fin newID wall wall' handle s =
     (if ctx \<noteq> None then (s, WorkerStop)
      else case ds_Lease ctx newID wall wall (rnLease rn) s of
             (s', Inl e) \<Rightarrow>
               (s', if errors_is e ErrNoDelivery then WorkerWait
                    else if late \<noteq> None then WorkerStop else WorkerWait)
           | (s', Inr d) \<Rightarrow> (worker_deliver rn late fin wall' d handle s', WorkerAgain))"

section \<open>Retry delays\<close>

lemma wrap64_id: "- (2 ^ 63) \<le> x \<Longrightarrow> x < 2 ^ 63 \<Longrightarrow> wrap64 x = x"
  by (simp add: wrap64_def)

lemma retryDelay_eq:
  assumes "0 \<le> poll" "poll \<le> 2 ^ 52"
  shows "retryDelay poll attempt = min (poll * 2 ^ nat (min (max (attempt - 1) 0) 10)) maxRetryDelay"
proof -
  let ?n = "nat (min (max (attempt - 1) 0) 10)"
  have "(2::int) ^ ?n \<le> 2 ^ 10" by (intro power_increasing) auto
  then have "poll * 2 ^ ?n \<le> 2 ^ 52 * 2 ^ 10" using assms by (intro mult_mono) auto
  then have "poll * 2 ^ ?n < 2 ^ 63" by simp
  moreover have "0 \<le> poll * 2 ^ ?n" using assms by simp
  ultimately show ?thesis using wrap64_id [of "poll * 2 ^ ?n"] by (simp add: retryDelay_def Let_def)
qed

text \<open>
  The retry delay backs off exponentially: for a positive poll interval of at most
  \<open>2 ^ 52\<close> nanoseconds it is positive, never more than thirty seconds, doubles with
  every attempt until the cap or the tenth doubling, and never decreases.
\<close>

theorem retryDelay_bounds:
  assumes "0 < poll" "poll \<le> 2 ^ 52"
  shows "0 < retryDelay poll attempt \<and> retryDelay poll attempt \<le> 30000000000 \<and>
    (attempt \<le> attempt' \<longrightarrow> retryDelay poll attempt \<le> retryDelay poll attempt') \<and>
    (1 \<le> attempt \<and> attempt \<le> 10 \<longrightarrow>
       retryDelay poll (attempt + 1) = min (2 * retryDelay poll attempt) 30000000000)"
proof -
  have e: "retryDelay poll a = min (poll * 2 ^ nat (min (max (a - 1) 0) 10)) 30000000000" for a
    using retryDelay_eq assms by (simp add: maxRetryDelay_def)
  have "retryDelay poll attempt \<le> retryDelay poll attempt'" if "attempt \<le> attempt'"
  proof -
    have "(2::int) ^ nat (min (max (attempt - 1) 0) 10) \<le> 2 ^ nat (min (max (attempt' - 1) 0) 10)"
      using that by (intro power_increasing) auto
    then have "poll * 2 ^ nat (min (max (attempt - 1) 0) 10) \<le>
        poll * 2 ^ nat (min (max (attempt' - 1) 0) 10)"
      using assms(1) by (intro mult_left_mono) auto
    then show ?thesis unfolding e by linarith
  qed
  moreover have "retryDelay poll (attempt + 1) = min (2 * retryDelay poll attempt) 30000000000"
    if "1 \<le> attempt" "attempt \<le> 10"
  proof -
    have "nat (min (max (attempt + 1 - 1) 0) 10) = Suc (nat (min (max (attempt - 1) 0) 10))"
      using that by auto
    then show ?thesis unfolding e by (simp add: min_def)
  qed
  moreover have "0 < poll * 2 ^ nat (min (max (attempt - 1) 0) 10)" using assms(1) by simp
  then have "0 < retryDelay poll attempt \<and> retryDelay poll attempt \<le> 30000000000"
    unfolding e by auto
  ultimately show ?thesis by blast
qed

theorem retryDelay_bounds_witness:
  "0 < retryDelay 1000000 3 \<and> retryDelay 1000000 4 = min (2 * retryDelay 1000000 3) 30000000000"
  using retryDelay_bounds [of 1000000 3 4] by simp

section \<open>One round of a worker\<close>

lemma FinishLease_ok:
  assumes "dv_ValidateLoaded d = None" "dvState d = DeliveryLeased"
    and "st \<in> {DeliveryPending, DeliveryDelivered, DeliveryDeadLetter}"
  shows "\<exists>d'. FinishLease wall d (dvLeaseToken d) now st at err = Inr d' \<and> dvID d' = dvID d \<and>
    dvState d' = st \<and> dvAvailableAt d' = at \<and> dvAttempt d' = dvAttempt d"
  using assms
  by (auto simp: FinishLease_Inr dv_ValidateLoaded_def dv_ValidateNew_def result_simps
      split: DeliveryState.splits)

text \<open>What becomes of the leased delivery: the state and the time it is due again.\<close>

definition worker_verdict ::
  "dv_runner \<Rightarrow> ctx \<Rightarrow> gotime \<Rightarrow> delivery \<Rightarrow> handler_outcome \<Rightarrow> DeliveryState \<times> gotime" where
  "worker_verdict rn late wall d outcome =
     (case invokeHandler outcome of
        None \<Rightarrow> (DeliveryDelivered, 0)
      | Some (cause, permanent) \<Rightarrow>
          if late \<noteq> None then (DeliveryPending, wall)
          else if permanent \<or> rnMaxAttempts rn \<le> dvAttempt d then (DeliveryDeadLetter, 0)
          else (DeliveryPending, wall + retryDelay (rnPoll rn) (dvAttempt d)))"

lemma worker_deliver_transition:
  "\<exists>cause. worker_deliver rn late None wall d handle s =
     fst (ds_transition None wall (dvID d) (dvLeaseToken d) wall
       (fst (worker_verdict rn late wall d (handle d)))
       (snd (worker_verdict rn late wall d (handle d))) cause s)"
  by (cases "handle d")
    (auto simp: worker_deliver_def worker_verdict_def releaseCancelled_def worker_deadLetter_def
      worker_retry_def ds_Ack_def ds_DeadLetter_def ds_Retry_def Let_def)

lemma worker_verdict_states:
  "fst (worker_verdict rn late wall d out) \<in> {DeliveryPending, DeliveryDelivered, DeliveryDeadLetter}"
  by (cases out) (auto simp: worker_verdict_def)

lemma worker_deliver_outcome:
  assumes "map_of (dsDeliveries s) (dvID d) = Some d" "dv_ValidateLoaded d = None"
    and "dvState d = DeliveryLeased"
  shows "\<exists>d'. worker_deliver rn late None wall d handle s =
      s\<lparr>dsDeliveries := AList.update (dvID d) d' (dsDeliveries s)\<rparr> \<and> dvID d' = dvID d \<and>
    (dvState d', dvAvailableAt d') = worker_verdict rn late wall d (handle d) \<and>
    dvAttempt d' = dvAttempt d"
proof -
  let ?v = "worker_verdict rn late wall d (handle d)"
  obtain cause where t: "worker_deliver rn late None wall d handle s =
     fst (ds_transition None wall (dvID d) (dvLeaseToken d) wall (fst ?v) (snd ?v) cause s)"
    using worker_deliver_transition by blast
  obtain d' where "FinishLease wall d (dvLeaseToken d) wall (fst ?v) (snd ?v) cause = Inr d'"
    "dvID d' = dvID d" "dvState d' = fst ?v" "dvAvailableAt d' = snd ?v" "dvAttempt d' = dvAttempt d"
    using FinishLease_ok [OF assms(2,3) worker_verdict_states] by metis
  then show ?thesis using assms(1) t by (intro exI [of _ d']) (simp add: ds_transition_fst)
qed

text \<open>
  A worker's round settles what it leased. When a round finds a delivery, that delivery
  is afterwards delivered, dead-lettered or rescheduled exactly as the handler's outcome,
  the attempt count and the worker's context demand, with one more attempt counted, and no
  other delivery of the queue changed.
\<close>

theorem worker_round_settles:
  assumes "ds_inv s" "ds_Lease None newID wall wall (rnLease rn) s = (s', Inr d)"
    and "worker_runOnce rn None late None newID wall wall' handle s = (s'', next)"
  shows "next = WorkerAgain \<and>
    (\<exists>d0 d'. map_of (dsDeliveries s) (dvID d) = Some d0 \<and>
      map_of (dsDeliveries s'') (dvID d) = Some d' \<and>
      (dvState d', dvAvailableAt d') = worker_verdict rn late wall' d (handle d) \<and>
      dvAttempt d' = dvAttempt d0 + 1) \<and>
    (\<forall>j. j \<noteq> dvID d \<longrightarrow> map_of (dsDeliveries s'') j = map_of (dsDeliveries s) j)"
proof -
  obtain d0 where d0: "map_of (dsDeliveries s) (dvID d) = Some d0"
    "dv_Lease wall d0 newID (dv_NormalizeMutationTime wall wall) (rnLease rn) = Inr d"
    "s' = s\<lparr>dsDeliveries := AList.update (dvID d) d (dsDeliveries s)\<rparr>"
    using ds_Lease_Inr [OF assms(1,2)] by metis
  then have d: "map_of (dsDeliveries s') (dvID d) = Some d" "dv_ValidateLoaded d = None"
    "dvState d = DeliveryLeased" "dvAttempt d = dvAttempt d0 + 1"
    by (auto simp: dv_Lease_Inr)
  have s'': "s'' = worker_deliver rn late None wall' d handle s'" "next = WorkerAgain"
    using assms(2,3) by (auto simp: worker_runOnce_def)
  obtain d' where d': "s'' = s'\<lparr>dsDeliveries := AList.update (dvID d) d' (dsDeliveries s')\<rparr>"
    "(dvState d', dvAvailableAt d') = worker_verdict rn late wall' d (handle d)"
    "dvAttempt d' = dvAttempt d"
    using worker_deliver_outcome [OF d(1-3), of rn late wall' handle] s''(1) by auto
  have "map_of (dsDeliveries s'') j = map_of (dsDeliveries s) j" if "j \<noteq> dvID d" for j
    using that d0(3) d'(1) by simp
  moreover have "map_of (dsDeliveries s'') (dvID d) = Some d'" using d'(1) by simp
  ultimately show ?thesis using s''(2) d0(1) d'(2,3) d(4) by metis
qed

definition sample_runner :: dv_runner where
  "sample_runner = \<lparr>rnLease = 30, rnPoll = 1000000, rnMaxAttempts = 2\<rparr>"

theorem worker_round_settles_witness:
  "\<exists>s'' d'. worker_runOnce sample_runner None None None ''t2'' 50 60 (\<lambda>_. HandlerError ''refused'') sample_queue =
     (s'', WorkerAgain) \<and> map_of (dsDeliveries s'') (dvID sample_second_try) = Some d' \<and>
     dvState d' = DeliveryDeadLetter"
proof -
  obtain s'' n where r: "worker_runOnce sample_runner None None None ''t2'' 50 60
      (\<lambda>_. HandlerError ''refused'') sample_queue = (s'', n)" by fastforce
  have l: "ds_Lease None ''t2'' 50 50 (rnLease sample_runner) sample_queue =
     (sample_queue\<lparr>dsDeliveries := [(''e1.inbox'', sample_second_try), (''e2.inbox'', sample_second)]\<rparr>,
      Inr sample_second_try)"
    using sample_lease_again by (simp add: sample_runner_def)
  have "worker_verdict sample_runner None 60 sample_second_try (HandlerError ''refused'') = (DeliveryDeadLetter, 0)"
    by (simp add: worker_verdict_def sample_runner_def sample_second_try_def)
  then show ?thesis using worker_round_settles [OF sample_queue_inv l r] r by auto
qed

end
