(* ===== verification/Delivery_Attempts.thy ===== *)
theory Delivery_Attempts
  imports Delivery_Worker
begin

text \<open>
  How often the workers of \<open>internal/deliveryworker/runner.go\<close> try a delivery. A round of a
  worker is not atomic: it leases a delivery, runs the subscriber for as long as that takes,
  and then settles the delivery with the store. In between, other workers and producers call
  the store, the lease may expire and be taken over, the worker's context may be cancelled,
  and the process may die.
\<close>

section \<open>Workers that share a queue\<close>

text \<open>
  How a lease ended: settled by the worker that held it after a run of the subscriber that
  was not cut short, given back because the worker was cancelled, or taken over after it
  had expired.
\<close>

datatype lease_end = EndTried | EndReleased | EndTakenOver

text \<open>
  The queue, the deliveries that workers have leased and not yet settled, and a history of
  how leases ended, by the sequence number of their delivery. No operation reads the history.
\<close>

record worker_system =
  wkStore :: dv_store
  wkHeld :: "delivery list"
  wkHistory :: "(u64 \<times> lease_end) list"

definition newWorkerSystem :: worker_system where
  "newWorkerSystem = \<lparr>wkStore = newMemoryDeliveryStore, wkHeld = [], wkHistory = []\<rparr>"

text \<open>
  The first half of \<open>runOnce\<close>; the second half for the \<open>n\<close>-th delivery that is held, with
  the worker's context \<open>late\<close> and the finalization context \<open>fin\<close> as they are by then; the
  death of the worker that holds it; and the calls of producers and maintenance.
\<close>

datatype worker_call =
    WEnqueue ctx gotime "delivery list"
  | WLease ctx string gotime
  | WSettle nat ctx ctx gotime "delivery \<Rightarrow> handler_outcome"
  | WCrash nat
  | WPurge ctx gotime

definition is_leased :: "string \<Rightarrow> dv_store \<Rightarrow> bool" where
  "is_leased i s \<longleftrightarrow> (case map_of (dsDeliveries s) i of
     None \<Rightarrow> False | Some d \<Rightarrow> dvState d = DeliveryLeased)"

definition drop_nth :: "nat \<Rightarrow> 'a list \<Rightarrow> 'a list" where
  "drop_nth n xs = take n xs @ drop (Suc n) xs"

fun worker_step :: "dv_runner \<Rightarrow> worker_call \<Rightarrow> worker_system \<Rightarrow> worker_system" where
  "worker_step rn (WEnqueue ctx wall ds) w = w\<lparr>wkStore := fst (ds_Enqueue ctx wall ds (wkStore w))\<rparr>"
| "worker_step rn (WLease ctx newID wall) w =
     (if ctx \<noteq> None then w
      else case ds_Lease ctx newID wall wall (rnLease rn) (wkStore w) of
             (s, Inl e) \<Rightarrow> w\<lparr>wkStore := s\<rparr>
           | (s, Inr d) \<Rightarrow> w\<lparr>wkStore := s, wkHeld := wkHeld w @ [d],
               wkHistory := (if is_leased (dvID d) (wkStore w) then [(dvSequence d, EndTakenOver)] else [])
                 @ wkHistory w\<rparr>)"
| "worker_step rn (WSettle n late fin wall handle) w =
     (if n < length (wkHeld w)
      then let d = wkHeld w ! n; s = worker_deliver rn late fin wall d handle (wkStore w) in
           w\<lparr>wkStore := s, wkHeld := drop_nth n (wkHeld w),
             wkHistory := (if is_leased (dvID d) (wkStore w) \<and> \<not> is_leased (dvID d) s
               then [(dvSequence d, if late \<noteq> None \<and> invokeHandler (handle d) \<noteq> None
                                    then EndReleased else EndTried)] else [])
               @ wkHistory w\<rparr>
      else w)"
| "worker_step rn (WCrash n) w = w\<lparr>wkHeld := drop_nth n (wkHeld w)\<rparr>"
| "worker_step rn (WPurge ctx before) w = w\<lparr>wkStore := fst (ds_PurgeTerminal ctx before (wkStore w))\<rparr>"

fun worker_batch :: "worker_call \<Rightarrow> nat" where
  "worker_batch (WEnqueue ctx wall ds) = length ds"
| "worker_batch _ = 0"

text \<open>The lease tokens that the calls draw.\<close>

fun lease_tokens :: "worker_call list \<Rightarrow> string list" where
  "lease_tokens [] = []"
| "lease_tokens (WLease ctx newID wall # cs) = newID # lease_tokens cs"
| "lease_tokens (c # cs) = lease_tokens cs"

text \<open>A round that nothing interrupts is \<open>runOnce\<close>.\<close>

lemma worker_runOnce_split:
  "wkStore (run_calls (worker_step rn)
      [WLease ctx newID wall, WSettle (length (wkHeld w)) late fin wall' handle] w) =
    fst (worker_runOnce rn ctx late fin newID wall wall' handle (wkStore w))"
  by (cases "ds_Lease ctx newID wall wall (rnLease rn) (wkStore w)")
    (auto simp: worker_runOnce_def Let_def split: sum.split)

section \<open>Counting\<close>

abbreviation tries :: "u64 \<Rightarrow> (u64 \<times> lease_end) list \<Rightarrow> nat" where
  "tries q h \<equiv> count_list h (q, EndTried)"

abbreviation interruptions :: "u64 \<Rightarrow> (u64 \<times> lease_end) list \<Rightarrow> nat" where
  "interruptions q h \<equiv> count_list h (q, EndReleased) + count_list h (q, EndTakenOver)"

text \<open>
  The history accounts for every attempt, for a limit \<open>m\<close>: each attempt is a lease that
  ended, but for the current one; nobody is tried more than \<open>m\<close> times, and who is not
  finished fewer times.
\<close>

definition accounted :: "int \<Rightarrow> (u64 \<times> lease_end) list \<Rightarrow> dv_store \<Rightarrow> bool" where
  "accounted m h s \<longleftrightarrow> (\<forall>q. int (tries q h) \<le> m) \<and> (\<forall>q e. (q, e) \<in> set h \<longrightarrow> q \<le> dsNextSequence s) \<and>
     (\<forall>i d. map_of (dsDeliveries s) i = Some d \<longrightarrow>
        dvAttempt d = int (tries (dvSequence d) h) + int (interruptions (dvSequence d) h)
          + (if dvState d = DeliveryLeased then 1 else 0) \<and>
        (\<not> dv_Terminal d \<longrightarrow> int (tries (dvSequence d) h) < m))"

text \<open>Who holds the current token of a delivery holds that delivery.\<close>

definition holders :: "string set \<Rightarrow> delivery list \<Rightarrow> dv_store \<Rightarrow> bool" where
  "holders T hs s \<longleftrightarrow>
     (\<forall>d\<in>set hs. dvLeaseToken d \<in> T \<and> (\<forall>x. map_of (dsDeliveries s) (dvID d) = Some x \<longrightarrow>
        dvState x = DeliveryLeased \<longrightarrow> dvLeaseToken x = dvLeaseToken d \<longrightarrow> x = d))"

definition wk_inv :: "int \<Rightarrow> string set \<Rightarrow> worker_system \<Rightarrow> bool" where
  "wk_inv m T w \<longleftrightarrow> ds_inv (wkStore w) \<and> accounted m (wkHistory w) (wkStore w) \<and>
     holders T (wkHeld w) (wkStore w)"

lemma set_drop_nth: "set (drop_nth n xs) \<subseteq> set xs"
  unfolding drop_nth_def by (auto dest: in_set_takeD in_set_dropD)

lemma holders_subset: "holders T hs s \<Longrightarrow> set hs' \<subseteq> set hs \<Longrightarrow> holders T hs' s"
  unfolding holders_def by blast

text \<open>One delivery changes and its lease ends in a way that \<open>es\<close> records.\<close>

lemma accounted_update:
  assumes inv: "ds_inv s" and acc: "accounted m h s" and d: "map_of (dsDeliveries s) i = Some d"
    and d': "dvSequence d' = dvSequence d"
      "dvAttempt d' = int (tries (dvSequence d) (es @ h)) + int (interruptions (dvSequence d) (es @ h))
          + (if dvState d' = DeliveryLeased then 1 else 0)"
      "\<not> dv_Terminal d' \<longrightarrow> int (tries (dvSequence d) (es @ h)) < m"
      "int (tries (dvSequence d) (es @ h)) \<le> m"
    and es: "\<forall>qe\<in>set es. fst qe = dvSequence d"
  shows "accounted m (es @ h) (s\<lparr>dsDeliveries := AList.update i d' (dsDeliveries s)\<rparr>)"
proof -
  have m: "dv_fifo (map_of (dsDeliveries s)) (dsNextSequence s)" using inv by (simp add: ds_inv_def)
  have other: "count_list es (q, e) = 0" if "q \<noteq> dvSequence d" for q e
    using es that by (auto simp: count_list_0_iff)
  have seq: "dvSequence x \<noteq> dvSequence d" if "map_of (dsDeliveries s) j = Some x" "j \<noteq> i" for j x
    using dv_fifoD(5) [OF m d that(1)] that(2) by auto
  have "int (tries q (es @ h)) \<le> m" for q
    using acc d'(4) other [of q] by (cases "q = dvSequence d") (auto simp: accounted_def)
  moreover have "q \<le> dsNextSequence s" if "(q, e) \<in> set (es @ h)" for q e
    using that acc es dv_fifoD(3) [OF m d] by (auto simp: accounted_def)
  ultimately show ?thesis
    using acc d' seq other unfolding accounted_def by auto
qed

lemma holders_update:
  assumes "holders T hs s" "d' = d \<or> dvState d' \<noteq> DeliveryLeased \<or> dvLeaseToken d' \<notin> T"
    and "map_of (dsDeliveries s) i = Some d"
  shows "holders T hs (s\<lparr>dsDeliveries := AList.update i d' (dsDeliveries s)\<rparr>)"
  using assms unfolding holders_def by auto

section \<open>Every call keeps the account\<close>

lemma ds_Lease_failed: "ds_Lease ctx newID wall now dur s = (s', Inl e) \<Longrightarrow> s' = s"
  by (auto simp: ds_Lease_def Let_def split: option.splits if_splits sum.splits)

lemma prepare_batch_attempts:
  assumes "prepare_batch wall now byID ds = Inr ps"
  shows "list_all (\<lambda>p. dvAttempt p = 0 \<and> dvState p = DeliveryPending) ps"
  using assms
proof (induction ds arbitrary: byID ps)
  case (Cons d ds)
  then obtain n ns where n: "dv_PrepareNew wall d now = Inr n" "ps = n # ns"
    "prepare_batch wall now (AList.update (dvID n) n byID) ds = Inr ns"
    unfolding prepare_batch_Cons by blast
  with Cons.IH [OF n(3)] show ?case by (auto simp: dv_PrepareNew_def Let_def result_simps)
qed simp

lemma u64_bound: "unat (q :: u64) < 2 ^ 64"
  using unsigned_less [of q, where 'a = nat] by simp

lemma enqueue_all_new:
  assumes "unat (dsNextSequence s) + length ps < 2 ^ 64"
    and "list_all (\<lambda>p. dvAttempt p = 0 \<and> dvState p = DeliveryPending) ps"
  shows "dsNextSequence s \<le> dsNextSequence (enqueue_all ps s) \<and>
    (\<forall>i d. map_of (dsDeliveries (enqueue_all ps s)) i = Some d \<longrightarrow> map_of (dsDeliveries s) i = Some d \<or>
       dsNextSequence s < dvSequence d \<and> dvAttempt d = 0 \<and> dvState d = DeliveryPending)"
  using assms
proof (induction ps s rule: enqueue_all.induct)
  case (2 d ds s)
  show ?case
  proof (cases "map_of (dsDeliveries s) (dvID d)")
    case None
    let ?s = "s\<lparr>dsNextSequence := dsNextSequence s + 1,
      dsDeliveries := AList.update (dvID d) (d\<lparr>dvSequence := dsNextSequence s + 1\<rparr>) (dsDeliveries s)\<rparr>"
    have room: "dsNextSequence s + 1 \<noteq> 0" "unat (dsNextSequence s + 1) = unat (dsNextSequence s) + 1"
      using 2(3) u64_room u64_succ by (metis length_Cons zero_less_Suc)+
    note n = u64_less_Suc [OF room(1)]
    have IH: "dsNextSequence s + 1 \<le> dsNextSequence (enqueue_all ds ?s)"
      "\<And>i x. map_of (dsDeliveries (enqueue_all ds ?s)) i = Some x \<Longrightarrow> map_of (dsDeliveries ?s) i = Some x \<or>
         dsNextSequence s + 1 < dvSequence x \<and> dvAttempt x = 0 \<and> dvState x = DeliveryPending"
      using 2(1) [OF None refl] 2(3,4) room(2) by (simp_all add: Let_def)
    have "map_of (dsDeliveries s) i = Some x \<or>
        dsNextSequence s < dvSequence x \<and> dvAttempt x = 0 \<and> dvState x = DeliveryPending"
      if "map_of (dsDeliveries (enqueue_all ds ?s)) i = Some x" for i x
      using IH(2) [OF that] n 2(4) by (auto split: if_splits dest: order.strict_trans)
    then show ?thesis using None IH(1) n by (simp add: Let_def)
  next
    case (Some x)
    then show ?thesis using 2(2) [OF Some] 2(3,4) by simp
  qed
qed simp

lemma accounted_grow:
  assumes "accounted m h s" "0 < m" "dsNextSequence s \<le> dsNextSequence s'"
    and "\<forall>i d. map_of (dsDeliveries s') i = Some d \<longrightarrow> map_of (dsDeliveries s) i = Some d \<or>
      dsNextSequence s < dvSequence d \<and> dvAttempt d = 0 \<and> dvState d = DeliveryPending"
  shows "accounted m h s'"
proof -
  have new: "count_list h (q, e) = 0" if "dsNextSequence s < q" for q e
    using assms(1) that unfolding accounted_def count_list_0_iff by (metis leD)
  have "dvAttempt d = int (tries (dvSequence d) h) + int (interruptions (dvSequence d) h)
          + (if dvState d = DeliveryLeased then 1 else 0) \<and>
        (\<not> dv_Terminal d \<longrightarrow> int (tries (dvSequence d) h) < m)"
    if d: "map_of (dsDeliveries s') i = Some d" for i d
  proof (cases "map_of (dsDeliveries s) i = Some d")
    case True
    then show ?thesis using assms(1) unfolding accounted_def by blast
  next
    case False
    then have "dsNextSequence s < dvSequence d \<and> dvAttempt d = 0 \<and> dvState d = DeliveryPending"
      using assms(4) d by blast
    then show ?thesis using new assms(2) by simp
  qed
  moreover have "q \<le> dsNextSequence s'" if "(q, e) \<in> set h" for q e
    using that assms(1,3) unfolding accounted_def by (meson order.trans)
  ultimately show ?thesis using assms(1) unfolding accounted_def by blast
qed

lemma holders_grow:
  assumes "holders T hs s"
    and "\<forall>i d. map_of (dsDeliveries s') i = Some d \<longrightarrow> map_of (dsDeliveries s) i = Some d \<or>
      dvState d = DeliveryPending"
  shows "holders T hs s'"
  using assms unfolding holders_def by fastforce

lemma wk_enqueue:
  assumes "wk_inv m T w" "0 < m" "unat (dsNextSequence (wkStore w)) + length ds < 2 ^ 64"
  shows "wk_inv m T (worker_step rn (WEnqueue ctx wall ds) w)"
proof -
  let ?s = "wkStore w" let ?s' = "fst (ds_Enqueue ctx wall ds (wkStore w))"
  have inv: "ds_inv ?s" using assms(1) by (simp add: wk_inv_def)
  have "dsNextSequence ?s \<le> dsNextSequence ?s' \<and>
      (\<forall>i d. map_of (dsDeliveries ?s') i = Some d \<longrightarrow> map_of (dsDeliveries ?s) i = Some d \<or>
         dsNextSequence ?s < dvSequence d \<and> dvAttempt d = 0 \<and> dvState d = DeliveryPending)"
    using ds_Enqueue_fst [of ctx wall ds ?s]
  proof (elim disjE exE conjE)
    fix ps
    assume ps: "PrepareNewBatch wall ds wall = Inr ps" "?s' = enqueue_all ps ?s"
    show ?thesis
      unfolding ps(2) using ps(1) assms(3) prepare_batch_attempts prepare_batch_Inr
      by (intro enqueue_all_new) (auto simp: PrepareNewBatch_def)
  qed simp
  moreover have "ds_inv ?s'" using ds_inv_step [OF inv, of "DEnqueue ctx wall ds"] assms(3) by simp
  ultimately show ?thesis
    using assms(1,2) accounted_grow [of m "wkHistory w" ?s ?s'] holders_grow [of T "wkHeld w" ?s ?s']
    unfolding wk_inv_def worker_step.simps by auto
qed

lemma wk_purge:
  assumes "wk_inv m T w" "0 < m"
  shows "wk_inv m T (worker_step rn (WPurge ctx before) w)"
proof -
  let ?s = "wkStore w" let ?s' = "fst (ds_PurgeTerminal ctx before (wkStore w))"
  have inv: "ds_inv ?s" using assms(1) by (simp add: wk_inv_def)
  have "dsNextSequence ?s' = dsNextSequence ?s \<and>
      (\<forall>i d. map_of (dsDeliveries ?s') i = Some d \<longrightarrow> map_of (dsDeliveries ?s) i = Some d)"
    using ds_purge_step [of ctx before ?s] inv
    by (auto simp: purged_deliveries purge_deliveries_lookup(2) ds_inv_def split: option.splits if_splits)
  moreover have "ds_inv ?s'"
    using ds_inv_step [OF inv, of "DPurge ctx before"] u64_bound [of "dsNextSequence ?s"] by simp
  ultimately show ?thesis
    using assms accounted_grow [of m "wkHistory w" ?s ?s'] holders_grow [of T "wkHeld w" ?s ?s']
    unfolding wk_inv_def worker_step.simps by auto
qed

lemma wk_crash: "wk_inv m T w \<Longrightarrow> wk_inv m T (worker_step rn (WCrash n) w)"
  unfolding wk_inv_def using holders_subset [OF _ set_drop_nth] by auto

lemma ds_Lease_inv: "ds_inv s \<Longrightarrow> ds_inv (fst (ds_Lease ctx newID wall now dur s))"
  using ds_inv_step [of s "DLease ctx newID wall now dur"] u64_bound [of "dsNextSequence s"] by simp

lemma worker_deliver_call:
  "\<exists>c. batch_size c = 0 \<and> worker_deliver rn late fin wall d handle s = ds_step c s"
proof (cases "invokeHandler (handle d)")
  case None
  then show ?thesis
    by (intro exI [of _ "DAck fin wall (dvID d) (dvLeaseToken d) wall"]) (simp add: worker_deliver_def)
next
  case (Some cp)
  obtain cause permanent where cp: "cp = (cause, permanent)" by (cases cp)
  show ?thesis
  proof (cases "late = None \<and> (permanent \<or> rnMaxAttempts rn \<le> dvAttempt d)")
    case True
    then show ?thesis using Some cp
      by (intro exI [of _ "DDeadLetter fin wall (dvID d) (dvLeaseToken d) wall cause"])
        (auto simp: worker_deliver_def releaseCancelled_def worker_deadLetter_def worker_retry_def Let_def)
  next
    case False
    let ?at = "if late = None then wall + retryDelay (rnPoll rn) (dvAttempt d) else wall"
    show ?thesis using False Some cp
      by (intro exI [of _ "DRetry fin wall (dvID d) (dvLeaseToken d) ?at cause"])
        (auto simp: worker_deliver_def releaseCancelled_def worker_retry_def cancelledDeliveryError_def Let_def)
  qed
qed

lemma worker_deliver_inv: "ds_inv s \<Longrightarrow> ds_inv (worker_deliver rn late fin wall d handle s)"
  using worker_deliver_call [of rn late fin wall d handle s] ds_inv_step [of s]
    u64_bound [of "dsNextSequence s"] by fastforce

lemma holders_insert: "holders T hs s \<Longrightarrow> holders (insert t T) hs s"
  unfolding holders_def by blast

lemma wk_lease:
  assumes w: "wk_inv m T w" and m: "0 < m" and fresh: "newID \<notin> T"
  shows "wk_inv m (insert newID T) (worker_step rn (WLease ctx newID wall) w)"
proof (cases "ds_Lease None newID wall wall (rnLease rn) (wkStore w)")
  case (Pair s' r)
  let ?s = "wkStore w" let ?h = "wkHistory w"
  have inv: "ds_inv ?s" "accounted m ?h ?s" "holders T (wkHeld w) ?s" "ds_inv s'"
    using w ds_Lease_inv [of ?s None newID wall wall "rnLease rn"] Pair by (simp_all add: wk_inv_def)
  show ?thesis
  proof (cases "ctx = None \<and> (\<exists>d. r = Inr d)")
    case False
    then have "worker_step rn (WLease ctx newID wall) w = w"
      using Pair ds_Lease_failed by (cases r) auto
    then show ?thesis using w holders_insert by (simp add: wk_inv_def)
  next
    case True
    then obtain d where d: "ctx = None" "r = Inr d" by blast
    obtain d0 where d0: "map_of (dsDeliveries ?s) (dvID d) = Some d0"
      "dv_Lease wall d0 newID (dv_NormalizeMutationTime wall wall) (rnLease rn) = Inr d"
      "s' = ?s\<lparr>dsDeliveries := AList.update (dvID d) d (dsDeliveries ?s)\<rparr>"
      using ds_Lease_Inr [OF inv(1) Pair [unfolded d(2)]] by metis
    have new: "dvState d = DeliveryLeased" "dvLeaseToken d = newID" "dvSequence d = dvSequence d0"
      "dvAttempt d = dvAttempt d0 + 1" "\<not> dv_Terminal d0" "\<not> dv_Terminal d"
      using d0(2) by (auto simp: dv_Lease_Inr dv_Terminal_def LeaseAvailable_def)
    let ?es = "if is_leased (dvID d) ?s then [(dvSequence d, EndTakenOver)] else []"
    have old: "dvAttempt d0 = int (tries (dvSequence d0) ?h) + int (interruptions (dvSequence d0) ?h)
        + (if dvState d0 = DeliveryLeased then 1 else 0)" "int (tries (dvSequence d0) ?h) < m"
      using inv(2) d0(1) new(5) unfolding accounted_def by blast+
    have "accounted m (?es @ ?h) s'"
      unfolding d0(3) by (rule accounted_update [OF inv(1,2) d0(1)])
        (use new old d0(1) in \<open>auto simp: is_leased_def\<close>)
    moreover have "holders (insert newID T) (wkHeld w @ [d]) s'"
      using holders_update [OF inv(3) _ d0(1), of d] new(2) fresh unfolding d0(3) holders_def by auto
    moreover have "worker_step rn (WLease ctx newID wall) w =
        w\<lparr>wkStore := s', wkHeld := wkHeld w @ [d], wkHistory := ?es @ ?h\<rparr>"
      using d Pair by simp
    ultimately show ?thesis using inv(4) by (simp add: wk_inv_def)
  qed
qed

lemma worker_deliver_cases:
  assumes "worker_deliver rn late fin wall d handle s \<noteq> s"
  obtains x x' where "map_of (dsDeliveries s) (dvID d) = Some x" "dvState x = DeliveryLeased"
    "dvLeaseToken x = dvLeaseToken d" "dvSequence x' = dvSequence x" "dvAttempt x' = dvAttempt x"
    "worker_deliver rn late fin wall d handle s = s\<lparr>dsDeliveries := AList.update (dvID d) x' (dsDeliveries s)\<rparr>"
    "dvState x' = fst (worker_verdict rn late wall d (handle d))"
proof -
  let ?v = "worker_verdict rn late wall d (handle d)"
  have fin: "fin = None"
    using assms by (cases fin; cases "handle d") (auto simp: worker_deliver_def releaseCancelled_def
        worker_deadLetter_def worker_retry_def ds_Ack_def ds_DeadLetter_def ds_Retry_def Let_def)
  obtain cause where t: "worker_deliver rn late fin wall d handle s =
     fst (ds_transition None wall (dvID d) (dvLeaseToken d) wall (fst ?v) (snd ?v) cause s)"
    using worker_deliver_transition fin by blast
  obtain x x' where x: "map_of (dsDeliveries s) (dvID d) = Some x"
    "FinishLease wall x (dvLeaseToken d) wall (fst ?v) (snd ?v) cause = Inr x'"
    "worker_deliver rn late fin wall d handle s = s\<lparr>dsDeliveries := AList.update (dvID d) x' (dsDeliveries s)\<rparr>"
    using assms unfolding t ds_transition_fst by (auto split: option.splits sum.splits)
  have "dvState x = DeliveryLeased" "dvLeaseToken x = dvLeaseToken d" "dvSequence x' = dvSequence x"
    "dvAttempt x' = dvAttempt x" "dvState x' = fst ?v"
    using x(2) by (auto simp: FinishLease_Inr)
  with x show thesis using that by blast
qed

lemma worker_verdict_tried:
  assumes "late = None \<or> invokeHandler out = None" "fst (worker_verdict rn late wall d out) = DeliveryPending"
  shows "dvAttempt d < rnMaxAttempts rn"
  using assms by (auto simp: worker_verdict_def split: option.splits if_splits)

lemma accounted_end:
  assumes "ds_inv s" and acc: "accounted m h s" and x: "map_of (dsDeliveries s) i = Some x"
    "dvState x = DeliveryLeased"
    and x': "dvSequence x' = dvSequence x" "dvAttempt x' = dvAttempt x" "dvState x' \<noteq> DeliveryLeased"
      "\<not> dv_Terminal x' \<Longrightarrow> e = EndTried \<Longrightarrow> dvAttempt x < m"
  shows "accounted m ((dvSequence x, e) # h) (s\<lparr>dsDeliveries := AList.update i x' (dsDeliveries s)\<rparr>)"
proof -
  have live: "\<not> dv_Terminal x" using x(2) by (simp add: dv_Terminal_def)
  have old: "dvAttempt x = int (tries (dvSequence x) h) + int (interruptions (dvSequence x) h) + 1"
    "int (tries (dvSequence x) h) < m"
    using acc x live unfolding accounted_def by auto
  have "accounted m ([(dvSequence x, e)] @ h) (s\<lparr>dsDeliveries := AList.update i x' (dsDeliveries s)\<rparr>)"
    by (rule accounted_update [OF assms(1,2) x(1)]; cases e) (use old x' in auto)
  then show ?thesis by simp
qed

lemma wk_settle:
  assumes w: "wk_inv (rnMaxAttempts rn) T w"
  shows "wk_inv (rnMaxAttempts rn) T (worker_step rn (WSettle n late fin wall handle) w)"
proof (cases "n < length (wkHeld w)")
  case True
  let ?m = "rnMaxAttempts rn" let ?s = "wkStore w" let ?h = "wkHistory w" let ?d = "wkHeld w ! n"
  let ?s' = "worker_deliver rn late fin wall ?d handle ?s"
  let ?e = "if late \<noteq> None \<and> invokeHandler (handle ?d) \<noteq> None then EndReleased else EndTried"
  let ?es = "if is_leased (dvID ?d) ?s \<and> \<not> is_leased (dvID ?d) ?s' then [(dvSequence ?d, ?e)] else []"
  have inv: "ds_inv ?s" "accounted ?m ?h ?s" "holders T (wkHeld w) ?s" "ds_inv ?s'"
    using w worker_deliver_inv by (simp_all add: wk_inv_def)
  have "accounted ?m (?es @ ?h) ?s' \<and> holders T (wkHeld w) ?s'"
  proof (cases "?s' = ?s")
    case True
    then show ?thesis using inv by simp
  next
    case False
    obtain x x' where x: "map_of (dsDeliveries ?s) (dvID ?d) = Some x" "dvState x = DeliveryLeased"
      "dvLeaseToken x = dvLeaseToken ?d" "dvSequence x' = dvSequence x" "dvAttempt x' = dvAttempt x"
      "?s' = ?s\<lparr>dsDeliveries := AList.update (dvID ?d) x' (dsDeliveries ?s)\<rparr>"
      "dvState x' = fst (worker_verdict rn late wall ?d (handle ?d))"
      using worker_deliver_cases [OF False] .
    have xd: "x = ?d" using inv(3) x(1-3) True unfolding holders_def by simp
    have st: "dvState x' \<in> {DeliveryPending, DeliveryDelivered, DeliveryDeadLetter}"
      unfolding x(7) by (rule worker_verdict_states)
    have es: "?es = [(dvSequence x, ?e)]" using x(1,2,6) xd st by (auto simp: is_leased_def)
    have "dvAttempt x < ?m" if "\<not> dv_Terminal x'" "?e = EndTried"
    proof -
      have "dvState x' = DeliveryPending" using that(1) st by (auto simp: dv_Terminal_def)
      moreover have "late = None \<or> invokeHandler (handle ?d) = None" using that(2) by (rule contrapos_pp) simp
      ultimately show ?thesis
        using worker_verdict_tried [of late "handle ?d" rn wall ?d] x(7) xd by simp
    qed
    then have "accounted ?m ((dvSequence x, ?e) # ?h) ?s'"
      unfolding x(6) using st by (intro accounted_end [OF inv(1,2) x(1,2,4,5)]) auto
    then have "accounted ?m (?es @ ?h) ?s'" unfolding es by simp
    moreover have "holders T (wkHeld w) ?s'"
      unfolding x(6) using holders_update [OF inv(3) _ x(1)] st by auto
    ultimately show ?thesis by blast
  qed
  moreover have "worker_step rn (WSettle n late fin wall handle) w =
      w\<lparr>wkStore := ?s', wkHeld := drop_nth n (wkHeld w), wkHistory := ?es @ ?h\<rparr>"
    using True by (simp add: Let_def)
  ultimately show ?thesis
    using inv(4) holders_subset [OF _ set_drop_nth] by (auto simp: wk_inv_def)
qed (use w in simp)

section \<open>Bounded attempts\<close>

lemma worker_step_sequence:
  assumes "ds_inv (wkStore w)" "unat (dsNextSequence (wkStore w)) + worker_batch c < 2 ^ 64"
  shows "unat (dsNextSequence (wkStore (worker_step rn c w))) \<le>
    unat (dsNextSequence (wkStore w)) + worker_batch c"
proof (cases c)
  case (WEnqueue ctx wall ds)
  then show ?thesis using ds_inv_step [OF assms(1), of "DEnqueue ctx wall ds"] assms(2) by simp
next
  case (WLease ctx newID wall)
  then show ?thesis
    using ds_inv_step [OF assms(1), of "DLease ctx newID wall wall (rnLease rn)"] assms(2)
    by (cases "ds_Lease None newID wall wall (rnLease rn) (wkStore w)") (auto split: sum.split)
next
  case (WSettle n late fin wall handle)
  then show ?thesis
    using worker_deliver_call [of rn late fin wall "wkHeld w ! n" handle "wkStore w"]
      ds_inv_step [OF assms(1)] assms(2) by (auto simp: Let_def) (metis add_0_right)
next
  case (WPurge ctx before)
  then show ?thesis using ds_inv_step [OF assms(1), of "DPurge ctx before"] assms(2) by simp
qed simp

lemma wk_step:
  assumes "wk_inv (rnMaxAttempts rn) T w" "0 < rnMaxAttempts rn"
    and "unat (dsNextSequence (wkStore w)) + worker_batch c < 2 ^ 64"
    and "set (lease_tokens [c]) \<inter> T = {}"
  shows "wk_inv (rnMaxAttempts rn) (set (lease_tokens [c]) \<union> T) (worker_step rn c w)"
  using assms wk_enqueue wk_lease wk_settle wk_crash wk_purge by (cases c) simp_all

lemma lease_tokens_Cons: "lease_tokens (c # cs) = lease_tokens [c] @ lease_tokens cs"
  by (cases c) simp_all

lemma wk_run:
  assumes "wk_inv (rnMaxAttempts rn) T w" "0 < rnMaxAttempts rn"
    and "unat (dsNextSequence (wkStore w)) + sum_list (map worker_batch cs) < 2 ^ 64"
    and "distinct (lease_tokens cs)" "set (lease_tokens cs) \<inter> T = {}"
  shows "\<exists>T. wk_inv (rnMaxAttempts rn) T (run_calls (worker_step rn) cs w)"
  using assms
proof (induction cs arbitrary: T w)
  case (Cons c cs)
  have room: "unat (dsNextSequence (wkStore w)) + worker_batch c < 2 ^ 64" using Cons.prems(3) by simp
  note tokens = Cons.prems(4,5) [unfolded lease_tokens_Cons [of c cs]]
  have "ds_inv (wkStore w)" using Cons.prems(1) by (simp add: wk_inv_def)
  from worker_step_sequence [OF this room, of rn]
  show ?case
    using Cons.IH [OF wk_step [OF Cons.prems(1,2) room]] tokens Cons.prems(2,3) by auto
qed auto

text \<open>
  C31: How often a delivery is tried. For workers with a positive \<open>MaxAttempts\<close>, in every
  interleaving of the halves of their rounds with enqueues and purges, with any contexts, any
  handlers, leases that expire and are taken over, and workers that die (lease tokens are
  fresh, and fewer than \<open>2 ^ 64\<close> deliveries are enqueued): the history holds at most
  \<open>MaxAttempts\<close> tries of any delivery, and fewer of one that is not finished, so that a
  failing delivery becomes a dead letter instead of blocking its partition for ever. The
  attempt counter of a stored delivery counts these tries, the rounds given back by cancelled
  workers, the leases taken over, and the current lease; it exceeds \<open>MaxAttempts\<close> at most by
  the number of cancelled rounds and takeovers, which are not limited by \<open>MaxAttempts\<close>.
\<close>

theorem worker_attempts_bounded:
  assumes "0 < rnMaxAttempts rn" "sum_list (map worker_batch cs) < 2 ^ 64" "distinct (lease_tokens cs)"
    and "w = run_calls (worker_step rn) cs newWorkerSystem"
  shows "int (tries q (wkHistory w)) \<le> rnMaxAttempts rn \<and>
    (\<forall>i d. map_of (dsDeliveries (wkStore w)) i = Some d \<longrightarrow>
       (\<not> dv_Terminal d \<longrightarrow> int (tries (dvSequence d) (wkHistory w)) < rnMaxAttempts rn) \<and>
       dvAttempt d = int (tries (dvSequence d) (wkHistory w)) + int (interruptions (dvSequence d) (wkHistory w))
         + (if dvState d = DeliveryLeased then 1 else 0) \<and>
       dvAttempt d \<le> rnMaxAttempts rn + int (interruptions (dvSequence d) (wkHistory w)))"
proof -
  have "wk_inv (rnMaxAttempts rn) {} newWorkerSystem"
    using assms(1) ds_inv_reachable [of "[]"]
    by (simp add: wk_inv_def accounted_def holders_def newWorkerSystem_def newMemoryDeliveryStore_def)
  from wk_run [OF this assms(1), of cs] have acc: "accounted (rnMaxAttempts rn) (wkHistory w) (wkStore w)"
    using assms(2-4) by (auto simp: wk_inv_def newWorkerSystem_def newMemoryDeliveryStore_def)
  have "dvAttempt d \<le> rnMaxAttempts rn + int (interruptions (dvSequence d) (wkHistory w))"
    if "map_of (dsDeliveries (wkStore w)) i = Some d" for i d
    using acc that unfolding accounted_def by (cases "dv_Terminal d") (fastforce simp: dv_Terminal_def)+
  with acc show ?thesis unfolding accounted_def by blast
qed

text \<open>
  Two workers with two attempts at most: the first is cancelled while it runs, its second
  lease expires and is taken over, so that its late answer is refused, and the third attempt
  fails for good.
\<close>

definition sample_cancelled :: "worker_call list" where
  "sample_cancelled = [WEnqueue None 5 [sample_delivery ''e1''], WLease None ''t1'' 10,
     WSettle 0 (Some (Wrapf Canceled ''context canceled'')) None 11 (\<lambda>_. HandlerError ''stopped'')]"

definition sample_overtaken :: "worker_call list" where
  "sample_overtaken = [WLease None ''t2'' 12, WLease None ''t3'' 60,
     WSettle 0 None None 61 (\<lambda>_. HandlerOk), WSettle 0 None None 62 (\<lambda>_. HandlerError ''refused'')]"

definition sample_released :: worker_system where
  "sample_released = \<lparr>wkStore = \<lparr>dsDeliveries = [(''e1.inbox'', (sample_delivery ''e1'')\<lparr>dvSequence := 1,
       dvState := DeliveryPending, dvAttempt := 1, dvAvailableAt := 11, dvLastError := ''stopped'',
       dvUpdatedAt := 11\<rparr>)], dsNextSequence = 1\<rparr>, wkHeld = [], wkHistory = [(1, EndReleased)]\<rparr>"

lemma sample_cancelled_run:
  "run_calls (worker_step sample_runner) sample_cancelled newWorkerSystem = sample_released"
  by code_simp

lemma sample_overtaken_run:
  "(\<lambda>w. (map (\<lambda>(i, d). (i, dvState d, dvAttempt d, dvSequence d)) (dsDeliveries (wkStore w)), wkHistory w))
     (run_calls (worker_step sample_runner) sample_overtaken sample_released) =
   ([(''e1.inbox'', DeliveryDeadLetter, 3, 1)], [(1, EndTried), (1, EndTakenOver), (1, EndReleased)])"
  by code_simp

definition sample_rounds :: "worker_call list" where
  "sample_rounds = sample_cancelled @ sample_overtaken"

lemma sample_rounds_run:
  "(\<lambda>w. (map (\<lambda>(i, d). (i, dvState d, dvAttempt d, dvSequence d)) (dsDeliveries (wkStore w)), wkHistory w))
     (run_calls (worker_step sample_runner) sample_rounds newWorkerSystem) =
   ([(''e1.inbox'', DeliveryDeadLetter, 3, 1)], [(1, EndTried), (1, EndTakenOver), (1, EndReleased)])"
  unfolding sample_rounds_def run_calls_append sample_cancelled_run by (rule sample_overtaken_run)

theorem worker_attempts_bounded_witness:
  "\<exists>w d. w = run_calls (worker_step sample_runner) sample_rounds newWorkerSystem \<and>
     map_of (dsDeliveries (wkStore w)) ''e1.inbox'' = Some d \<and> dvState d = DeliveryDeadLetter \<and>
     dvAttempt d = 3 \<and> tries (dvSequence d) (wkHistory w) = 1 \<and>
     dvAttempt d \<le> 2 + int (interruptions (dvSequence d) (wkHistory w))"
proof -
  obtain w where w: "w = run_calls (worker_step sample_runner) sample_rounds newWorkerSystem" by blast
  obtain d where d: "map_of (dsDeliveries (wkStore w)) ''e1.inbox'' = Some d"
    "dvState d = DeliveryDeadLetter" "dvAttempt d = 3" "dvSequence d = 1"
    using sample_rounds_run unfolding w [symmetric] by auto
  have "0 < rnMaxAttempts sample_runner" "rnMaxAttempts sample_runner = 2"
    "sum_list (map worker_batch sample_rounds) < 2 ^ 64" "distinct (lease_tokens sample_rounds)"
    by (simp_all add: sample_runner_def sample_rounds_def sample_cancelled_def sample_overtaken_def)
  with worker_attempts_bounded [OF _ _ _ w] d(1)
  have "dvAttempt d \<le> 2 + int (interruptions (dvSequence d) (wkHistory w))" by metis
  moreover have "tries (dvSequence d) (wkHistory w) = 1"
    using sample_rounds_run d(4) unfolding w [symmetric] by simp
  ultimately show ?thesis using w d by blast
qed

end
