(* ===== verification/Delivery_Completion.thy ===== *)
theory Delivery_Completion
  imports Delivery_Store
begin

text \<open>
  In which order the delivery queue of \<open>sdk/storage/delivery_memory.go\<close> lets deliveries
  finish. The calls of any number of workers and producers interleave; what they finish is
  recorded as a trace, and the trace of every partition is in the order of enqueueing.
\<close>

section \<open>The trace of finished deliveries\<close>

text \<open>
  The delivery that a call finishes: \<open>Ack\<close> and \<open>DeadLetter\<close> finish the delivery they
  name when they return no error. A retried delivery is not finished.
\<close>

fun ds_completes :: "dv_call \<Rightarrow> dv_store \<Rightarrow> delivery option" where
  "ds_completes (DAck ctx wall i token now) s =
     (case ds_Ack ctx wall i token now s of
        (s', None) \<Rightarrow> map_of (dsDeliveries s') i | (_, Some _) \<Rightarrow> None)"
| "ds_completes (DDeadLetter ctx wall i token now err) s =
     (case ds_DeadLetter ctx wall i token now err s of
        (s', None) \<Rightarrow> map_of (dsDeliveries s') i | (_, Some _) \<Rightarrow> None)"
| "ds_completes _ s = None"

fun completions :: "dv_call list \<Rightarrow> dv_store \<Rightarrow> delivery list" where
  "completions [] s = []"
| "completions (c # cs) s =
     (case ds_completes c s of None \<Rightarrow> [] | Some d \<Rightarrow> [d]) @ completions cs (ds_step c s)"

section \<open>Sequence numbers of unfinished deliveries\<close>

text \<open>What a step leaves unfinished was unfinished before, or is new and comes last.\<close>

definition live_from :: "dv_store \<Rightarrow> dv_store \<Rightarrow> bool" where
  "live_from s s' \<longleftrightarrow> dsNextSequence s \<le> dsNextSequence s' \<and>
     (\<forall>j x. map_of (dsDeliveries s') j = Some x \<longrightarrow> \<not> dv_Terminal x \<longrightarrow>
        dsNextSequence s < dvSequence x \<or>
        (\<exists>y. map_of (dsDeliveries s) j = Some y \<and> \<not> dv_Terminal y \<and>
           dvSequence x = dvSequence y \<and> dv_Partition x = dv_Partition y))"

lemma live_from_refl [simp]: "live_from s s"
  unfolding live_from_def by blast

lemma live_from_trans: "live_from s s' \<Longrightarrow> live_from s' s'' \<Longrightarrow> live_from s s''"
proof -
  assume a: "live_from s s'" and b: "live_from s' s''"
  have le: "dsNextSequence s \<le> dsNextSequence s'" "dsNextSequence s' \<le> dsNextSequence s''"
    using a b unfolding live_from_def by simp_all
  have "dsNextSequence s < dvSequence x \<or> (\<exists>y. map_of (dsDeliveries s) j = Some y \<and> \<not> dv_Terminal y \<and>
      dvSequence x = dvSequence y \<and> dv_Partition x = dv_Partition y)"
    if x: "map_of (dsDeliveries s'') j = Some x" "\<not> dv_Terminal x" for j x
  proof (cases "dsNextSequence s' < dvSequence x")
    case False
    then obtain y where "map_of (dsDeliveries s') j = Some y" "\<not> dv_Terminal y"
      "dvSequence x = dvSequence y" "dv_Partition x = dv_Partition y"
      using b x unfolding live_from_def by blast
    then show ?thesis using a unfolding live_from_def by auto
  qed (use le in \<open>auto dest: order.strict_trans1\<close>)
  then show ?thesis using le unfolding live_from_def by auto
qed

lemma live_from_enqueue:
  assumes "unat (dsNextSequence s) + length ps < 2 ^ 64"
  shows "live_from s (enqueue_all ps s)"
  using assms
proof (induction ps s rule: enqueue_all.induct)
  case (2 d ds s)
  show ?case
  proof (cases "map_of (dsDeliveries s) (dvID d)")
    case None
    let ?s = "s\<lparr>dsNextSequence := dsNextSequence s + 1,
      dsDeliveries := AList.update (dvID d) (d\<lparr>dvSequence := dsNextSequence s + 1\<rparr>) (dsDeliveries s)\<rparr>"
    have room: "dsNextSequence s + 1 \<noteq> 0" "unat (dsNextSequence s + 1) = unat (dsNextSequence s) + 1"
      using 2(3) u64_room u64_succ by (metis length_Cons zero_less_Suc)+
    have "live_from s ?s"
      using u64_less_Suc [OF room(1)] by (auto simp: live_from_def)
    moreover have "live_from ?s (enqueue_all ds ?s)"
      using 2(1) [OF None refl] 2(3) room(2) by (simp add: Let_def)
    ultimately show ?thesis using None live_from_trans by (simp add: Let_def)
  next
    case (Some x)
    then show ?thesis using 2(2) [OF Some] 2(3) by simp
  qed
qed simp

lemma live_from_event:
  assumes "ds_inv s" "ds_event c s = Some (i, e)"
  shows "live_from s (ds_step c s)"
proof -
  have "\<not> dv_Terminal d" if "dv_apply e d = Inr d'" for d d'
    using that by (cases e)
      (auto simp: dv_Lease_Inr FinishLease_Inr LeaseAvailable_def dv_Terminal_def Let_def)
  then show ?thesis
    unfolding ds_step_event [OF ds_inv_keyed [OF assms(1)] assms(2)]
    using dv_apply_identity by (auto simp: live_from_def split: option.split sum.split)
qed

lemma live_from_step:
  assumes "ds_inv s" "unat (dsNextSequence s) + batch_size c < 2 ^ 64"
  shows "live_from s (ds_step c s)"
proof (cases "ds_event c s")
  case None
  then consider ctx wall ds where "c = DEnqueue ctx wall ds" | ctx before where "c = DPurge ctx before"
    | "ds_step c s = s" using ds_step_no_event by blast
  then show ?thesis
  proof cases
    case 1
    then show ?thesis
      using ds_Enqueue_fst [of ctx wall ds s] assms(2) live_from_enqueue prepare_batch_Inr
      by (auto simp: PrepareNewBatch_def)
  next
    case 2
    have "live_from s (fst (purge_deliveries before (dsDeliveries s) s 0))"
      using assms(1) by (auto simp: live_from_def purged_deliveries purge_deliveries_lookup(2) ds_inv_def
          split: option.splits if_splits)
    then show ?thesis using 2 ds_purge_step [of ctx before s] by auto
  qed simp
next
  case (Some ie)
  then show ?thesis using live_from_event [OF assms(1)] by (cases ie) blast
qed

section \<open>In-order completion\<close>

text \<open>A partition has passed \<open>d\<close>: all it still has to do was enqueued later.\<close>

definition passed :: "delivery \<Rightarrow> dv_store \<Rightarrow> bool" where
  "passed d s \<longleftrightarrow> dvSequence d \<le> dsNextSequence s \<and>
     (\<forall>j x. map_of (dsDeliveries s) j = Some x \<longrightarrow> \<not> dv_Terminal x \<longrightarrow>
        dv_Partition x = dv_Partition d \<longrightarrow> dvSequence d < dvSequence x)"

lemma passed_live: "passed d s \<Longrightarrow> live_from s s' \<Longrightarrow> passed d s'"
  unfolding passed_def live_from_def by (force dest: order.strict_trans1)

lemma ds_transition_ok:
  assumes "ds_transition ctx wall i token now st at err s = (s', None)"
  shows "\<exists>d d'. map_of (dsDeliveries s) i = Some d \<and> FinishLease wall d token now st at err = Inr d' \<and>
    s' = s\<lparr>dsDeliveries := AList.update i d' (dsDeliveries s)\<rparr>"
  using assms by (cases ctx) (auto simp: ds_transition_def split: option.splits sum.splits)

lemma ds_completes_event:
  assumes "ds_completes c s = Some d'"
  obtains i wall now token st err d where "st = DeliveryDelivered \<or> st = DeliveryDeadLetter"
    "map_of (dsDeliveries s) i = Some d" "FinishLease wall d token now st 0 err = Inr d'"
    "ds_step c s = s\<lparr>dsDeliveries := AList.update i d' (dsDeliveries s)\<rparr>"
proof -
  obtain ctx i wall now token st err s' where t: "st = DeliveryDelivered \<or> st = DeliveryDeadLetter"
    "ds_transition ctx wall i token now st 0 err s = (s', None)" "ds_step c s = s'"
    "map_of (dsDeliveries s') i = Some d'"
    using assms by (cases "(c, s)" rule: ds_completes.cases)
      (fastforce simp: ds_Ack_def ds_DeadLetter_def split: option.splits prod.splits)+
  obtain d x where d: "map_of (dsDeliveries s) i = Some d" "FinishLease wall d token now st 0 err = Inr x"
    "s' = s\<lparr>dsDeliveries := AList.update i x (dsDeliveries s)\<rparr>"
    using ds_transition_ok [OF t(2)] by blast
  moreover have "x = d'" using t(4) unfolding d(3) by simp
  ultimately show thesis using that [OF t(1) d(1)] t(3) by metis
qed

lemma ds_completes_passed:
  assumes inv: "ds_inv s" and c: "ds_completes c s = Some d'"
  shows "dv_Terminal d' \<and> passed d' (ds_step c s) \<and>
    (\<exists>d. map_of (dsDeliveries s) (dvID d') = Some d \<and> \<not> dv_Terminal d \<and>
       dvSequence d' = dvSequence d \<and> dv_Partition d' = dv_Partition d)"
proof -
  obtain i wall now token st err d where f: "st = DeliveryDelivered \<or> st = DeliveryDeadLetter"
    "map_of (dsDeliveries s) i = Some d" "FinishLease wall d token now st 0 err = Inr d'"
    "ds_step c s = s\<lparr>dsDeliveries := AList.update i d' (dsDeliveries s)\<rparr>"
    using ds_completes_event [OF c] .
  have m: "dv_fifo (map_of (dsDeliveries s)) (dsNextSequence s)"
    using inv by (simp add: ds_inv_def)
  have same: "dvID d' = i" "dvSequence d' = dvSequence d" "dv_Partition d' = dv_Partition d"
    using dv_apply_identity [of "EvFinish wall now token st 0 err" d d'] f(3) dv_fifoD(1) [OF m f(2)]
    by simp_all
  have st: "dvState d = DeliveryLeased" "dv_Terminal d'"
    using f(1,3) by (auto simp: FinishLease_Inr dv_Terminal_def)
  have head: "is_head (ran (map_of (dsDeliveries s))) d"
    by (rule dv_fifoD(4) [OF m f(2) st(1)])
  have "passed d' (ds_step c s)"
    unfolding passed_def f(4)
    using is_head_strict [OF inv head] dv_fifoD(1,3) [OF m f(2)] same st(2)
    by auto
  then show ?thesis using st f(2) same by (auto simp: dv_Terminal_def)
qed

lemma completions_after:
  assumes "ds_inv s" "unat (dsNextSequence s) + sum_list (map batch_size cs) < 2 ^ 64"
    and "passed d s" "x \<in> set (completions cs s)" "dv_Partition x = dv_Partition d"
  shows "dvSequence d < dvSequence x"
  using assms
proof (induction cs arbitrary: s)
  case (Cons c cs)
  have room: "unat (dsNextSequence s) + batch_size c < 2 ^ 64" using Cons.prems(2) by simp
  show ?case
  proof (cases "ds_completes c s = Some x")
    case True
    then show ?thesis
      using ds_completes_passed [OF Cons.prems(1) True] Cons.prems(3,5) unfolding passed_def by metis
  next
    case False
    then have x: "x \<in> set (completions cs (ds_step c s))"
      using Cons.prems(4) by (auto split: option.splits)
    show ?thesis
      using Cons.IH [OF _ _ passed_live [OF Cons.prems(3) live_from_step [OF Cons.prems(1) room]] x Cons.prems(5)]
        ds_inv_step [OF Cons.prems(1) room] Cons.prems(2) by simp
  qed
qed simp

lemma completions_sorted:
  assumes "ds_inv s" "unat (dsNextSequence s) + sum_list (map batch_size cs) < 2 ^ 64"
  shows "list_all dv_Terminal (completions cs s) \<and>
    sorted_wrt (\<lambda>x y. dv_Partition y = dv_Partition x \<longrightarrow> dvSequence x < dvSequence y) (completions cs s)"
  using assms
proof (induction cs arbitrary: s)
  case (Cons c cs)
  have room: "unat (dsNextSequence s) + batch_size c < 2 ^ 64" using Cons.prems(2) by simp
  note inv = ds_inv_step [OF Cons.prems(1) room]
  then have room': "unat (dsNextSequence (ds_step c s)) + sum_list (map batch_size cs) < 2 ^ 64"
    using Cons.prems(2) by simp
  show ?case
    using Cons.IH [OF conjunct1 [OF inv] room'] ds_completes_passed [OF Cons.prems(1), of c]
      completions_after [OF conjunct1 [OF inv] room']
    by (auto split: option.split)
qed simp

text \<open>
  C4: Deliveries of one partition finish in the order in which they were enqueued. In every
  interleaving of enqueues, leases, acknowledgements, retries, dead-lettering and purges
  from the empty queue (with fewer than \<open>2 ^ 64\<close> enqueued deliveries, so that the sequence
  counter does not wrap), whatever tokens and times the callers present, the deliveries that
  successful \<open>Ack\<close> and \<open>DeadLetter\<close> calls finish, listed in the order of these calls, have
  strictly increasing sequence numbers within each partition; so none overtakes an earlier
  one, and none finishes twice. Each of them is terminal from then on.
\<close>

theorem ds_completion_in_order:
  assumes "sum_list (map batch_size cs) < 2 ^ 64"
  shows "list_all dv_Terminal (completions cs newMemoryDeliveryStore) \<and>
    sorted_wrt (\<lambda>x y. dv_Partition y = dv_Partition x \<longrightarrow> dvSequence x < dvSequence y)
      (completions cs newMemoryDeliveryStore)"
  by (rule completions_sorted)
    (use assms ds_inv_reachable [of "[]"] in \<open>simp_all add: newMemoryDeliveryStore_def\<close>)

text \<open>
  Two deliveries of one partition: an early attempt to finish the second and a second
  acknowledgement of the first do nothing, the trace has both in order.
\<close>

definition sample_completions :: "dv_call list" where
  "sample_completions = sample_calls @
     [DAck None 20 ''e2.inbox'' [] 20, DLease None ''t2'' 21 21 30, DAck None 22 ''e1.inbox'' ''t1'' 22,
      DAck None 23 ''e1.inbox'' ''t1'' 23, DLease None ''t3'' 24 24 30,
      DDeadLetter None 25 ''e2.inbox'' ''t3'' 25 ''refused'']"

lemma sample_completions_run:
  "map (\<lambda>d. (dvID d, dvState d, dv_Partition d = dv_Partition sample_first))
     (completions sample_completions newMemoryDeliveryStore) =
   [(''e1.inbox'', DeliveryDelivered, True), (''e2.inbox'', DeliveryDeadLetter, True)]"
  by code_simp

theorem ds_completion_in_order_witness:
  "\<exists>x y. completions sample_completions newMemoryDeliveryStore = [x, y] \<and>
     dvID x = ''e1.inbox'' \<and> dvID y = ''e2.inbox'' \<and> dvSequence x < dvSequence y"
proof -
  obtain x y where xy: "completions sample_completions newMemoryDeliveryStore = [x, y]"
    "dvID x = ''e1.inbox''" "dvID y = ''e2.inbox''" "dv_Partition y = dv_Partition x"
    using sample_completions_run by (auto simp: map_eq_Cons_conv)
  have "sum_list (map batch_size sample_completions) < 2 ^ 64"
    by (simp add: sample_completions_def sample_calls_def)
  from ds_completion_in_order [OF this] show ?thesis using xy by simp
qed

end
