(* ===== verification/Event_Dispatch.thy ===== *)
theory Event_Dispatch
  imports Gateway_Events Delivery_Store
begin

text \<open>
  The dispatch of runtime events to hooks and subscribers
  (\<open>sdk/runtime/execution_events.go\<close>, \<open>event_postcommit.go\<close>, the planning of deliveries in
  \<open>delivery_worker.go\<close>, the choice of the next action in \<open>execution_prompt.go\<close>).

  What a hook answers is a function of the hook and the event: a dispatch calls a hook at
  most once. \<open>dispatch_env\<close> holds what the standard library computes: the SHA-256 sum of
  a payload in hexadecimal, decoding into and encoding of \<open>map[string]json.RawMessage\<close> (a JSON
  \<open>null\<close> decodes into the nil map, \<open>None\<close>), the text of an error, and the time a hook took.
  A panic of the dispatcher itself is the outcome \<open>None\<close>. Tracing, metrics, logging and the
  observer's goroutine are left out.
\<close>

section \<open>Values\<close>

record block =
  bkReason :: string
  bkKind :: string

record effect =
  efPatch :: "json gomap"
  efBlock :: "block option"
  efAction :: "action option"

record owned_hook =
  ohPlugin :: string
  ohPluginVersion :: string
  ohSpec :: hook_spec
  ohSeq :: u64

record owned_subscriber =
  obPlugin :: string
  obPluginVersion :: string
  obSpec :: subscriber_spec
  obRevision :: string

text \<open>The part of a registry snapshot that the dispatch reads.\<close>

record registry_snapshot =
  rsGeneration :: u64
  rsHooks :: "owned_hook list gomap"
  rsSubscribers :: "owned_subscriber gomap"
  rsEvents :: "event_contract gomap"

record dispatch_env =
  deSum :: "json \<Rightarrow> string"
  deObject :: "json \<Rightarrow> json gomap option result"
  deMarshal :: "json gomap \<Rightarrow> json result"
  deText :: "error \<Rightarrow> string"
  deTook :: "owned_hook \<Rightarrow> duration"

datatype eventDispatchScope = eventDispatchEmit | eventDispatchExecution | eventDispatchPostCommit

record event_dispatch_options =
  eoScope :: eventDispatchScope
  eoEnqueueSubscriberDeliveries :: bool
  eoInvokeHooks :: bool

record dispatch_result =
  drEvent :: sdk_event
  drBlock :: "block option"
  drActions :: "action list"
  drAudit :: event_audit
  drActionSteps :: "int list"

definition CloneAction :: "action \<Rightarrow> action" where
  "CloneAction a = a\<lparr>acMessages := CloneMessages (acMessages a)\<rparr>"

definition CloneEffect :: "effect \<Rightarrow> effect" where
  "CloneEffect e = e\<lparr>efAction := map_option CloneAction (efAction e)\<rparr>"

definition AllowsEffect :: "event_contract \<Rightarrow> bool" where
  "AllowsEffect contract \<longleftrightarrow>
     length (ecMutableFields contract) \<noteq> 0 \<or> ecAllowBlock contract \<or> ecAllowAction contract"

section \<open>The hooks of a snapshot\<close>

definition PriorityNormal :: int where "PriorityNormal = 500"

definition normalizeHookSpec :: "hook_spec \<Rightarrow> event_contract \<Rightarrow> duration \<Rightarrow> hook_spec" where
  "normalizeHookSpec spec contract defaultTimeout =
     (let spec = (if hsPriority spec = 0 then spec\<lparr>hsPriority := PriorityNormal\<rparr> else spec);
          spec = (if hsFailurePolicy spec = FailurePolicyOther []
                  then spec\<lparr>hsFailurePolicy :=
                    (if AllowsEffect contract then FailurePolicyFailClosed else FailurePolicyContinue)\<rparr>
                  else spec)
      in if hsTimeout spec = 0 then spec\<lparr>hsTimeout := defaultTimeout\<rparr> else spec)"

definition compareOwnedHooks :: "owned_hook \<Rightarrow> owned_hook \<Rightarrow> int" where
  "compareOwnedHooks = compare_then (compare_on (\<lambda>h. hsPriority (ohSpec h))) (compare_on ohSeq)"

text \<open>
  The last loop of a mount: the plugin's hooks in their order, each normalised, numbered
  and sorted into the list of its event. An unknown event has the zero contract.
\<close>

definition no_contract :: event_contract where
  "no_contract = \<lparr>ecName = [], ecMutableFields = [], ecAllowBlock = False, ecAllowAction = False\<rparr>"

fun add_hooks ::
  "duration \<Rightarrow> string \<Rightarrow> string \<Rightarrow> hook_spec list \<Rightarrow> registry_snapshot \<times> u64 \<Rightarrow> registry_snapshot \<times> u64" where
  "add_hooks defaultTimeout plugin version [] s = s"
| "add_hooks defaultTimeout plugin version (spec # specs) (snapshot, seq) =
     (let event = hsEvent spec;
          contract = (case map_of (rsEvents snapshot) event of None \<Rightarrow> no_contract | Some c \<Rightarrow> c);
          hook = \<lparr>ohPlugin = plugin, ohPluginVersion = version,
                  ohSpec = normalizeHookSpec spec contract defaultTimeout, ohSeq = seq\<rparr>;
          hooks = (case map_of (rsHooks snapshot) event of None \<Rightarrow> [] | Some hs \<Rightarrow> hs)
      in add_hooks defaultTimeout plugin version specs
           (snapshot\<lparr>rsHooks := AList.update event (sort_func compareOwnedHooks (hooks @ [hook])) (rsHooks snapshot)\<rparr>,
            seq + 1))"

section \<open>Audits\<close>

definition payloadHash :: "dispatch_env \<Rightarrow> json \<Rightarrow> string" where
  "payloadHash env payload = ''sha256:'' @ deSum env payload"

definition no_resolution :: effect_resolution where
  "no_resolution = \<lparr>erOutcome = EffectResolutionOther [], erBlock = None, erBlockStep = None, erAction = None,
     erActionSteps = [], erActionRule = [], erPatchFields = [], erError = []\<rparr>"

definition newEventAudit :: "dispatch_env \<Rightarrow> sdk_event \<Rightarrow> event_audit" where
  "newEventAudit env event =
     (let hash = payloadHash env (evPayload event) in
      \<lparr>eaEventID = evID event, eaEventName = evName event, eaGeneration = evGeneration event, eaInputHash = hash,
       eaOutputHash = hash, eaSteps = [],
       eaResolution = no_resolution\<lparr>erOutcome := EffectResolutionNoEffect\<rparr>\<rparr>)"

definition newHookAuditStep :: "dispatch_env \<Rightarrow> nat \<Rightarrow> owned_hook \<Rightarrow> json \<Rightarrow> hook_audit_step" where
  "newHookAuditStep env index owned payload =
     (let hash = payloadHash env payload in
      \<lparr>haIndex = int index, haPlugin = ohPlugin owned, haPluginVersion = ohPluginVersion owned,
       haHook = hsName (ohSpec owned), haPriority = hsPriority (ohSpec owned), haSequence = ohSeq owned,
       haFailurePolicy = hsFailurePolicy (ohSpec owned), haDuration = 0, haInputHash = hash, haOutputHash = hash,
       haPatchFields = [], haOverwrites = [], haBlock = None, haAction = None, haError = [],
       haOutcome = HookAuditNoEffect, haAttributes = []\<rparr>)"

definition append_step :: "hook_audit_step \<Rightarrow> event_audit \<Rightarrow> event_audit" where
  "append_step step audit = audit\<lparr>eaSteps := eaSteps audit @ [step]\<rparr>"

fun appendSkippedHookAuditSteps ::
  "dispatch_env \<Rightarrow> nat \<Rightarrow> owned_hook list \<Rightarrow> json \<Rightarrow> event_audit \<Rightarrow> event_audit" where
  "appendSkippedHookAuditSteps env index [] payload audit = audit"
| "appendSkippedHookAuditSteps env index (h # hooks) payload audit =
     appendSkippedHookAuditSteps env (Suc index) hooks payload
       (append_step ((newHookAuditStep env index h payload)\<lparr>haOutcome := HookAuditSkipped\<rparr>) audit)"

definition hookAuditOutcome :: "effect \<Rightarrow> HookAuditOutcome" where
  "hookAuditOutcome e =
     (if efBlock e \<noteq> None then HookAuditBlocked
      else if efAction e \<noteq> None then HookAuditAction
      else if length (efPatch e) > 0 then HookAuditPatched
      else HookAuditNoEffect)"

definition sortedPatchFields :: "json gomap \<Rightarrow> string list" where
  "sortedPatchFields patch = sort (map fst patch)"

definition overwrittenPatchFields :: "string list \<Rightarrow> nat gomap \<Rightarrow> string list" where
  "overwrittenPatchFields fs patchedBy = filter (\<lambda>f. map_of patchedBy f \<noteq> None) fs"

definition auditPatchFields :: "event_audit \<Rightarrow> string list" where
  "auditPatchFields audit = sort (remdups (concat (map haPatchFields (eaSteps audit))))"

definition hasHookAuditOutcome :: "event_audit \<Rightarrow> HookAuditOutcome \<Rightarrow> bool" where
  "hasHookAuditOutcome audit outcome = list_ex (\<lambda>step. haOutcome step = outcome) (eaSteps audit)"

definition summarizeBlock :: "block option \<Rightarrow> block_summary option" where
  "summarizeBlock = map_option (\<lambda>b. \<lparr>bsReason = bkReason b, bsKind = bkKind b\<rparr>)"

definition summarizeAction :: "action option \<Rightarrow> action_summary option" where
  "summarizeAction = map_option (\<lambda>a.
     \<lparr>action_summary.acKind = action.acKind a,
      acCauseCode = (case acCause a of None \<Rightarrow> [] | Some c \<Rightarrow> csCode c),
      acCauseFinal = (case acCause a of None \<Rightarrow> False | Some c \<Rightarrow> csFinal c),
      acMessageCount = int (length (acMessages a))\<rparr>)"

definition errorEffectResolution :: "dispatch_env \<Rightarrow> error \<Rightarrow> effect_resolution" where
  "errorEffectResolution env e = no_resolution\<lparr>erOutcome := EffectResolutionError, erError := deText env e\<rparr>"

definition finalizeDispatchAudit :: "dispatch_env \<Rightarrow> dispatch_result \<Rightarrow> dispatch_result" where
  "finalizeDispatchAudit env r =
     (let audit = (drAudit r)\<lparr>eaOutputHash := payloadHash env (evPayload (drEvent r))\<rparr>;
          old = eaResolution audit; fields' = auditPatchFields audit;
          resolution =
            (if erOutcome old = EffectResolutionBlocked \<or> erOutcome old = EffectResolutionError
             then (if length (erPatchFields old) = 0 then old\<lparr>erPatchFields := fields'\<rparr> else old)
             else if length (drActions r) > 0
             then no_resolution\<lparr>erOutcome := EffectResolutionAction, erAction := summarizeAction (Some (last (drActions r))),
                    erActionSteps := drActionSteps r, erActionRule := ''proposed'', erPatchFields := fields'\<rparr>
             else if hasHookAuditOutcome audit HookAuditError
             then no_resolution\<lparr>erOutcome := EffectResolutionError, erPatchFields := fields'\<rparr>
             else if length fields' > 0
             then no_resolution\<lparr>erOutcome := EffectResolutionPatched, erPatchFields := fields'\<rparr>
             else no_resolution\<lparr>erOutcome := EffectResolutionNoEffect\<rparr>)
      in r\<lparr>drAudit := audit\<lparr>eaResolution := resolution\<rparr>\<rparr>)"

section \<open>Effects\<close>

definition validate_action :: "action \<Rightarrow> error option" where
  "validate_action a = (case action.acKind a of
       ActionStep \<Rightarrow> reject_if (acCause a \<noteq> None \<or> length (acMessages a) \<noteq> 0)
         (Errorf ''step action cannot carry cause or messages'')
     | ActionStop \<Rightarrow> reject_if (case acCause a of None \<Rightarrow> True | Some c \<Rightarrow> csCode c = [])
         (Errorf ''stop action requires a cause'')
     | ActionInject \<Rightarrow> reject_if (length (acMessages a) = 0) (Errorf ''inject action requires messages'')
     | ActionKindOther k \<Rightarrow> Some (Errorf ''unknown action kind %q''))"

definition validateEffect :: "event_contract \<Rightarrow> effect \<Rightarrow> error option" where
  "validateEffect contract e =
     and_then (reject_if (list_ex (\<lambda>(f, v). f \<notin> set (ecMutableFields contract)) (efPatch e))
       (Errorf ''event %q does not allow field %q to be patched''))
     (and_then (case efBlock e of
        None \<Rightarrow> None
      | Some b \<Rightarrow> and_then (reject_if (\<not> ecAllowBlock contract) (Errorf ''event %q does not allow blocking''))
          (reject_if (bkReason b = []) (Errorf ''block reason is empty'')))
      (case efAction e of
         None \<Rightarrow> None
       | Some a \<Rightarrow> and_then (reject_if (\<not> ecAllowAction contract) (Errorf ''event %q does not allow actions''))
           (validate_action a)))"

text \<open>
  The loop of \<open>applyPatch\<close>; assigning to the nil map that \<open>null\<close> decodes into panics. The
  binary search in the sorted list of allowed fields is membership.
\<close>

fun patch_fields :: "string list \<Rightarrow> json gomap \<Rightarrow> json gomap option \<Rightarrow> json gomap option result option" where
  "patch_fields allowed [] object = Some (Inr object)"
| "patch_fields allowed ((field, v) # patch) object =
     (if field \<notin> set allowed then Some (Inl (Errorf ''field %q is not mutable''))
      else if \<not> json_Valid v then Some (Inl (Errorf ''patch field %q is not valid JSON''))
      else case object of
        None \<Rightarrow> None
      | Some m \<Rightarrow> patch_fields allowed patch (Some (AList.update field v m)))"

definition applyPatch :: "dispatch_env \<Rightarrow> json \<Rightarrow> json gomap \<Rightarrow> string list \<Rightarrow> json result option" where
  "applyPatch env payload patch mutableFields =
     (case deObject env payload of
        Inl e \<Rightarrow> Some (Inl (Nestf ''decode event payload for patch: %w'' e))
      | Inr object \<Rightarrow>
          (case patch_fields mutableFields patch object of
             None \<Rightarrow> None
           | Some (Inl e) \<Rightarrow> Some (Inl e)
           | Some (Inr None) \<Rightarrow> Some (Inr ''null'')
           | Some (Inr (Some m)) \<Rightarrow>
               (case deMarshal env m of
                  Inl e \<Rightarrow> Some (Inl (Nestf ''encode patched event payload: %w'' e))
                | Inr raw \<Rightarrow> Some (Inr raw))))"

definition marshalEventPayload :: "dispatch_env \<Rightarrow> json result \<Rightarrow> json result" where
  "marshalEventPayload env encoded =
     bind_result encoded (\<lambda>raw. case deObject env raw of
       Inl e \<Rightarrow> Inl (Errorf ''event payload must encode as a JSON object'')
     | Inr m \<Rightarrow> Inr raw)"

section \<open>Dispatch\<close>

text \<open>What the policy around a hook makes of its answer; a panic is an error.\<close>

type_synonym hook_calls = "owned_hook \<Rightarrow> sdk_event \<Rightarrow> effect result"

definition HandleHook :: "hook_calls \<Rightarrow> owned_hook \<Rightarrow> sdk_event \<Rightarrow> effect result" where
  "HandleHook call owned event = (case call owned event of Inl e \<Rightarrow> Inl e | Inr e \<Rightarrow> Inr (CloneEffect e))"

text \<open>The result and, unless the failure is handled, the error to return.\<close>

definition handleHookDispatchError ::
  "dispatch_env \<Rightarrow> event_dispatch_options \<Rightarrow> owned_hook \<Rightarrow> hook_audit_step \<Rightarrow> error \<Rightarrow> error \<Rightarrow> bool \<Rightarrow>
   dispatch_result \<Rightarrow> dispatch_result \<times> error option" where
  "handleHookDispatchError env options owned step auditErr dispatchErr allowFailurePolicyContinue r =
     (let step = step\<lparr>haError := deText env auditErr, haOutcome := HookAuditError\<rparr>;
          r = r\<lparr>drAudit := append_step step (drAudit r)\<rparr>
      in if eoScope options = eventDispatchPostCommit \<or>
            (allowFailurePolicyContinue \<and> hsFailurePolicy (ohSpec owned) = FailurePolicyContinue)
         then (r, None)
         else (r\<lparr>drAudit := (drAudit r)\<lparr>eaResolution := errorEffectResolution env dispatchErr,
                   eaOutputHash := payloadHash env (evPayload (drEvent r))\<rparr>\<rparr>, Some dispatchErr))"

datatype hook_verdict =
    HookNext dispatch_result "nat gomap"
  | HookBlocked dispatch_result
  | HookFailed dispatch_result error
  | HookPanic

definition hook_failure ::
  "dispatch_env \<Rightarrow> event_dispatch_options \<Rightarrow> owned_hook \<Rightarrow> hook_audit_step \<Rightarrow> error \<Rightarrow> error \<Rightarrow> bool \<Rightarrow>
   nat gomap \<Rightarrow> dispatch_result \<Rightarrow> hook_verdict" where
  "hook_failure env options owned step auditErr dispatchErr allow patchedBy r =
     (case handleHookDispatchError env options owned step auditErr dispatchErr allow r of
        (r, None) \<Rightarrow> HookNext r patchedBy
      | (r, Some e) \<Rightarrow> HookFailed r e)"

text \<open>The end of a turn of the loop, with the payload that the hook leaves behind.\<close>

definition accept_effect ::
  "dispatch_env \<Rightarrow> nat \<Rightarrow> effect \<Rightarrow> hook_audit_step \<Rightarrow> json \<Rightarrow> nat gomap \<Rightarrow> dispatch_result \<Rightarrow> hook_verdict" where
  "accept_effect env index e step raw patchedBy r =
     (let patchedBy = (if length (efPatch e) > 0
            then fold (\<lambda>f m. AList.update f index m) (haPatchFields step) patchedBy else patchedBy);
          r = r\<lparr>drEvent := (drEvent r)\<lparr>evPayload := raw\<rparr>\<rparr>;
          step = step\<lparr>haOutputHash := payloadHash env raw, haOutcome := hookAuditOutcome e\<rparr>;
          audit = append_step step (drAudit r);
          r = r\<lparr>drAudit := audit\<rparr>
      in if drBlock r = None \<and> efBlock e \<noteq> None
         then HookBlocked (r\<lparr>drBlock := efBlock e,
                drAudit := audit\<lparr>eaResolution := no_resolution\<lparr>erOutcome := EffectResolutionBlocked,
                  erBlock := summarizeBlock (efBlock e), erBlockStep := Some (int index),
                  erPatchFields := auditPatchFields audit\<rparr>\<rparr>\<rparr>)
         else (case efAction e of
             None \<Rightarrow> HookNext r patchedBy
           | Some a \<Rightarrow> HookNext (r\<lparr>drActions := drActions r @ [CloneAction a],
                                  drActionSteps := drActionSteps r @ [int index]\<rparr>) patchedBy))"

definition hook_turn ::
  "dispatch_env \<Rightarrow> hook_calls \<Rightarrow> event_contract \<Rightarrow> event_dispatch_options \<Rightarrow> nat \<Rightarrow> owned_hook \<Rightarrow>
   dispatch_result \<Rightarrow> nat gomap \<Rightarrow> hook_verdict" where
  "hook_turn env call contract options index owned r patchedBy =
     (let event = drEvent r;
          step = (newHookAuditStep env index owned (evPayload event))\<lparr>haDuration := deTook env owned\<rparr>
      in case HandleHook call owned event of
           Inl hookErr \<Rightarrow>
             hook_failure env options owned step hookErr
               (Nestf ''hook %q from plugin %q failed on event %q: %w'' hookErr) True patchedBy r
         | Inr e \<Rightarrow>
             let patchFields = sortedPatchFields (efPatch e);
                 step = step\<lparr>haPatchFields := patchFields, haOverwrites := overwrittenPatchFields patchFields patchedBy,
                   haBlock := summarizeBlock (efBlock e), haAction := summarizeAction (efAction e)\<rparr>
             in case validateEffect contract e of
                  Some err \<Rightarrow>
                    let err = Nestf ''hook %q from plugin %q returned invalid effect: %w'' err
                    in hook_failure env options owned step err err False patchedBy r
                | None \<Rightarrow>
                    (case (if length (efPatch e) > 0
                           then applyPatch env (evPayload event) (efPatch e) (ecMutableFields contract)
                           else Some (Inr (evPayload event))) of
                       None \<Rightarrow> HookPanic
                     | Some (Inl err) \<Rightarrow>
                         let err = Nestf ''hook %q from plugin %q returned invalid patch: %w'' err
                         in hook_failure env options owned step err err False patchedBy r
                     | Some (Inr raw) \<Rightarrow> accept_effect env index e step raw patchedBy r))"

fun dispatch_hooks ::
  "dispatch_env \<Rightarrow> hook_calls \<Rightarrow> event_contract \<Rightarrow> event_dispatch_options \<Rightarrow> nat \<Rightarrow> owned_hook list \<Rightarrow>
   dispatch_result \<Rightarrow> nat gomap \<Rightarrow> (dispatch_result \<times> error option) option" where
  "dispatch_hooks env call contract options index [] r patchedBy = Some (r, None)"
| "dispatch_hooks env call contract options index (owned # hooks) r patchedBy =
     (case hook_turn env call contract options index owned r patchedBy of
        HookNext r patchedBy \<Rightarrow> dispatch_hooks env call contract options (Suc index) hooks r patchedBy
      | HookBlocked r \<Rightarrow>
          Some (r\<lparr>drAudit := appendSkippedHookAuditSteps env (Suc index) hooks (evPayload (drEvent r)) (drAudit r)\<rparr>, None)
      | HookFailed r e \<Rightarrow> Some (r, Some e)
      | HookPanic \<Rightarrow> None)"

section \<open>Subscribers\<close>

definition newSubscriberDeliveryTarget :: "string \<Rightarrow> owned_subscriber \<Rightarrow> dv_target" where
  "newSubscriberDeliveryTarget name owned = \<lparr>tgPlugin = obPlugin owned, tgPluginVersion = obPluginVersion owned,
     tgSubscription = name, tgResourceRevision = obRevision owned\<rparr>"

definition planSubscriberDeliveries :: "registry_snapshot option \<Rightarrow> sdk_event \<Rightarrow> gotime \<Rightarrow> delivery list" where
  "planSubscriberDeliveries snapshot event now = (case snapshot of
       None \<Rightarrow> []
     | Some s \<Rightarrow>
         let names = sort (map fst (filter (\<lambda>(n, owned). evName event \<in> set (ssEvents (obSpec owned))) (rsSubscribers s)))
         in map (\<lambda>n. target_Record (newSubscriberDeliveryTarget n (the (map_of (rsSubscribers s) n))) event now) names)"

definition enqueueSubscribers ::
  "ctx \<Rightarrow> gotime \<Rightarrow> registry_snapshot option \<Rightarrow> sdk_event \<Rightarrow> dv_store \<Rightarrow> dv_store \<times> error option" where
  "enqueueSubscribers ctx now snapshot event s =
     (let deliveries = planSubscriberDeliveries snapshot event now in
      if length deliveries = 0 then (s, None)
      else case ds_Enqueue ctx now deliveries s of
        (s, None) \<Rightarrow> (s, None)
      | (s, Some e) \<Rightarrow> (s, Some (Nestf ''persist subscriber deliveries for event %s: %w'' e)))"

section \<open>Dispatching an event\<close>

definition no_event :: sdk_event where
  "no_event = \<lparr>evID = [], evName = [], evSessionID = [], evGeneration = 0, evPayload = []\<rparr>"

definition no_audit :: event_audit where
  "no_audit = \<lparr>eaEventID = [], eaEventName = [], eaGeneration = 0, eaInputHash = [], eaOutputHash = [], eaSteps = [],
     eaResolution = no_resolution\<rparr>"

definition no_result :: dispatch_result where
  "no_result = \<lparr>drEvent = no_event, drBlock = None, drActions = [], drAudit = no_audit, drActionSteps = []\<rparr>"

definition start_result :: "dispatch_env \<Rightarrow> sdk_event \<Rightarrow> dispatch_result" where
  "start_result env event =
     \<lparr>drEvent = event, drBlock = None, drActions = [], drAudit = newEventAudit env event, drActionSteps = []\<rparr>"

definition returnSubscriberFailures :: "event_dispatch_options \<Rightarrow> bool" where
  "returnSubscriberFailures options \<longleftrightarrow> eoScope options \<noteq> eventDispatchExecution"

definition dispatchPreparedEvent ::
  "dispatch_env \<Rightarrow> hook_calls \<Rightarrow> ctx \<Rightarrow> gotime \<Rightarrow> registry_snapshot option \<Rightarrow> sdk_event \<Rightarrow> event_dispatch_options \<Rightarrow>
   dv_store \<Rightarrow> (dv_store \<times> dispatch_result \<times> error option) option" where
  "dispatchPreparedEvent env call deliveryCtx now snapshot event options s = (case snapshot of
       None \<Rightarrow> Some (s, no_result, Some (Errorf ''event registry snapshot is nil''))
     | Some sn \<Rightarrow>
         (case map_of (rsEvents sn) (evName event) of
            None \<Rightarrow> Some (s, no_result, Some (Errorf ''event %q is not registered''))
          | Some contract \<Rightarrow>
              let hooks = (if eoInvokeHooks options
                    then (case map_of (rsHooks sn) (evName event) of None \<Rightarrow> [] | Some hs \<Rightarrow> hs) else [])
              in case dispatch_hooks env call contract options 0 hooks (start_result env event) [] of
                   None \<Rightarrow> None
                 | Some (r, Some e) \<Rightarrow> Some (s, r, Some e)
                 | Some (r, None) \<Rightarrow>
                     let r = finalizeDispatchAudit env r in
                     if eoEnqueueSubscriberDeliveries options
                     then (case enqueueSubscribers deliveryCtx now snapshot (drEvent r) s of
                             (s, Some e) \<Rightarrow> if returnSubscriberFailures options
                               then Some (s, no_result, Some e) else Some (s, r, None)
                           | (s, None) \<Rightarrow> Some (s, r, None))
                     else Some (s, r, None)))"

definition newDispatchEvent ::
  "dispatch_env \<Rightarrow> string \<Rightarrow> registry_snapshot option \<Rightarrow> string \<Rightarrow> string \<Rightarrow> json result \<Rightarrow> sdk_event result" where
  "newDispatchEvent env newID snapshot eventName sessionID payload = (case snapshot of
       None \<Rightarrow> Inl (Errorf ''event registry snapshot is nil'')
     | Some sn \<Rightarrow>
         if map_of (rsEvents sn) eventName = None then Inl (Errorf ''event %q is not registered'')
         else case marshalEventPayload env payload of
           Inl e \<Rightarrow> Inl (Nestf ''encode %s event: %w'' e)
         | Inr raw \<Rightarrow> Inr \<lparr>evID = newID, evName = eventName, evSessionID = sessionID,
             evGeneration = rsGeneration sn, evPayload = raw\<rparr>)"

definition dispatchEvent ::
  "dispatch_env \<Rightarrow> hook_calls \<Rightarrow> ctx \<Rightarrow> gotime \<Rightarrow> string \<Rightarrow> registry_snapshot option \<Rightarrow> string \<Rightarrow> string \<Rightarrow>
   json result \<Rightarrow> event_dispatch_options \<Rightarrow> dv_store \<Rightarrow> (dv_store \<times> dispatch_result \<times> error option) option" where
  "dispatchEvent env call deliveryCtx now newID snapshot eventName sessionID payload options s =
     (case newDispatchEvent env newID snapshot eventName sessionID payload of
        Inl e \<Rightarrow> Some (s, no_result, Some e)
      | Inr event \<Rightarrow> dispatchPreparedEvent env call deliveryCtx now snapshot event options s)"

definition emitEventDispatchOptions :: event_dispatch_options where
  "emitEventDispatchOptions =
     \<lparr>eoScope = eventDispatchEmit, eoEnqueueSubscriberDeliveries = True, eoInvokeHooks = True\<rparr>"

definition executionEventDispatchOptions :: event_dispatch_options where
  "executionEventDispatchOptions =
     \<lparr>eoScope = eventDispatchExecution, eoEnqueueSubscriberDeliveries = True, eoInvokeHooks = True\<rparr>"

definition executionObservationEventDispatchOptions :: event_dispatch_options where
  "executionObservationEventDispatchOptions =
     \<lparr>eoScope = eventDispatchExecution, eoEnqueueSubscriberDeliveries = True, eoInvokeHooks = False\<rparr>"

section \<open>Events around a commit\<close>

datatype postCommitDeliveryBoundary = BoundaryAfterDispatch | BoundaryHostOutbox

record post_commit_delivery =
  pcAfterDispatch :: bool
  pcHostOutbox :: "delivery list"

record post_commit_plan =
  ppSnapshot :: "registry_snapshot option"
  ppEvent :: sdk_event
  ppDelivery :: post_commit_delivery

definition postCommitEventDispatchOptions :: "post_commit_delivery \<Rightarrow> event_dispatch_options" where
  "postCommitEventDispatchOptions d =
     \<lparr>eoScope = eventDispatchPostCommit, eoEnqueueSubscriberDeliveries = pcAfterDispatch d, eoInvokeHooks = True\<rparr>"

definition subscriberDeliveryStableBeforeDispatch :: "registry_snapshot option \<Rightarrow> string \<Rightarrow> bool" where
  "subscriberDeliveryStableBeforeDispatch snapshot eventName = (case snapshot of
       None \<Rightarrow> False
     | Some sn \<Rightarrow> (case map_of (rsEvents sn) eventName of
           None \<Rightarrow> False
         | Some contract \<Rightarrow> \<not> AllowsEffect contract))"

definition newPostCommitDelivery ::
  "gotime \<Rightarrow> registry_snapshot option \<Rightarrow> sdk_event \<Rightarrow> postCommitDeliveryBoundary \<Rightarrow> post_commit_delivery" where
  "newPostCommitDelivery now snapshot event boundary =
     (if boundary = BoundaryHostOutbox \<and> subscriberDeliveryStableBeforeDispatch snapshot (evName event)
      then \<lparr>pcAfterDispatch = False, pcHostOutbox = planSubscriberDeliveries snapshot event now\<rparr>
      else \<lparr>pcAfterDispatch = True, pcHostOutbox = []\<rparr>)"

definition preparePostCommitEventPlan ::
  "dispatch_env \<Rightarrow> gotime \<Rightarrow> string \<Rightarrow> registry_snapshot option \<Rightarrow> string \<Rightarrow> string \<Rightarrow> json result \<Rightarrow>
   postCommitDeliveryBoundary \<Rightarrow> post_commit_plan result" where
  "preparePostCommitEventPlan env now newID snapshot eventName sessionID payload boundary =
     (case newDispatchEvent env newID snapshot eventName sessionID payload of
        Inl e \<Rightarrow> Inl (Nestf ''prepare post-commit %s event: %w'' e)
      | Inr event \<Rightarrow> Inr \<lparr>ppSnapshot = snapshot, ppEvent = event,
          ppDelivery = newPostCommitDelivery now snapshot event boundary\<rparr>)"

text \<open>An error of the dispatch is logged.\<close>

definition plan_dispatchAfterCommit ::
  "dispatch_env \<Rightarrow> hook_calls \<Rightarrow> ctx \<Rightarrow> gotime \<Rightarrow> post_commit_plan \<Rightarrow> dv_store \<Rightarrow> dv_store option" where
  "plan_dispatchAfterCommit env call deliveryCtx now plan s =
     (if evID (ppEvent plan) = [] then Some s
      else case dispatchPreparedEvent env call deliveryCtx now (ppSnapshot plan) (ppEvent plan)
             (postCommitEventDispatchOptions (ppDelivery plan)) s of
        None \<Rightarrow> None
      | Some (s, r) \<Rightarrow> Some s)"

fun bundle_dispatchAfterCommit ::
  "dispatch_env \<Rightarrow> hook_calls \<Rightarrow> ctx \<Rightarrow> gotime \<Rightarrow> post_commit_plan list \<Rightarrow> dv_store \<Rightarrow> dv_store option" where
  "bundle_dispatchAfterCommit env call deliveryCtx now [] s = Some s"
| "bundle_dispatchAfterCommit env call deliveryCtx now (plan # plans) s =
     (case plan_dispatchAfterCommit env call deliveryCtx now plan s of
        None \<Rightarrow> None
      | Some s \<Rightarrow> bundle_dispatchAfterCommit env call deliveryCtx now plans s)"

definition bundle_hostOutboxDeliveries :: "post_commit_plan list \<Rightarrow> delivery list" where
  "bundle_hostOutboxDeliveries plans =
     concat (map (\<lambda>plan. pcHostOutbox (ppDelivery plan)) (filter (\<lambda>plan. evID (ppEvent plan) \<noteq> []) plans))"

section \<open>The next action\<close>

definition CauseModelEnd :: string where "CauseModelEnd = ''model_end''"
definition CauseMaxTurns :: string where "CauseMaxTurns = ''max_turns''"

definition actionResolution :: "action \<Rightarrow> int list \<Rightarrow> string \<Rightarrow> effect_resolution" where
  "actionResolution a steps rule = no_resolution\<lparr>erOutcome := EffectResolutionAction,
     erAction := summarizeAction (Some a), erActionSteps := steps, erActionRule := rule\<rparr>"

definition actionStepAt :: "int list \<Rightarrow> nat \<Rightarrow> int" where
  "actionStepAt steps index = (if index < length steps then steps ! index else int index)"

text \<open>The indices of the actions of a kind.\<close>

definition of_kind :: "ActionKind \<Rightarrow> action list \<Rightarrow> nat list" where
  "of_kind k actions = filter (\<lambda>j. action.acKind (actions ! j) = k) [0..<length actions]"

definition injected_messages :: "action list \<Rightarrow> message list" where
  "injected_messages actions =
     concat (map (\<lambda>a. if action.acKind a = ActionInject then CloneMessages (acMessages a) else []) actions)"

definition resolveAction :: "action \<Rightarrow> action list \<Rightarrow> int list \<Rightarrow> action \<times> effect_resolution" where
  "resolveAction defaultAction actions actionSteps =
     (let injected = injected_messages actions
      in if action.acKind defaultAction = ActionStop \<and> (case acCause defaultAction of None \<Rightarrow> False | Some c \<Rightarrow> csFinal c)
         then (CloneAction defaultAction, actionResolution (CloneAction defaultAction) [] ''default_final_stop'')
         else if of_kind ActionStop actions \<noteq> []
         then let stopIndex = last (of_kind ActionStop actions); a = CloneAction (actions ! stopIndex)
              in (a, actionResolution a [actionStepAt actionSteps stopIndex] ''last_stop'')
         else if length injected > 0
         then let a = \<lparr>acKind = ActionInject, acCause = None, acMessages = injected\<rparr>
              in (a, actionResolution a (map (actionStepAt actionSteps) (of_kind ActionInject actions)) ''inject_merge'')
         else if of_kind ActionStep actions \<noteq> []
         then let a = \<lparr>acKind = ActionStep, acCause = None, acMessages = []\<rparr>
              in (a, actionResolution a [actionStepAt actionSteps (hd (of_kind ActionStep actions))] ''first_step'')
         else (CloneAction defaultAction, actionResolution (CloneAction defaultAction) [] ''default''))"

definition max_turns_stop :: action where
  "max_turns_stop = \<lparr>acKind = ActionStop,
     acCause = Some \<lparr>csCode = CauseMaxTurns, csDetail = [], csFinal = True\<rparr>, acMessages = []\<rparr>"

text \<open>
  \<open>decide\<close> around the dispatch of its event: the default action, and the action with its
  resolution once the hooks have proposed theirs. The committed entry is not part of it.
\<close>

definition decide_default :: "int \<Rightarrow> int \<Rightarrow> nat \<Rightarrow> action" where
  "decide_default maxTurns turn toolCalls =
     (if toolCalls > 0
      then if maxTurns > 0 \<and> turn + 1 \<ge> maxTurns then max_turns_stop
           else \<lparr>acKind = ActionStep, acCause = None, acMessages = []\<rparr>
      else \<lparr>acKind = ActionStop, acCause = Some \<lparr>csCode = CauseModelEnd, csDetail = [], csFinal = False\<rparr>, acMessages = []\<rparr>)"

definition decide_action :: "int \<Rightarrow> int \<Rightarrow> nat \<Rightarrow> action list \<Rightarrow> int list \<Rightarrow> action \<times> effect_resolution" where
  "decide_action maxTurns turn toolCalls actions actionSteps =
     (let (a, resolution) = resolveAction (decide_default maxTurns turn toolCalls) actions actionSteps
      in if maxTurns > 0 \<and> turn + 1 \<ge> maxTurns \<and> action.acKind a \<noteq> ActionStop
         then (max_turns_stop, actionResolution max_turns_stop (erActionSteps resolution) ''max_turns_override'')
         else (a, resolution))"

end
