(* ===== verification/Event_Dispatch_Properties.thy ===== *)
theory Event_Dispatch_Properties
  imports Event_Dispatch
begin

text \<open>
  What a dispatch guarantees: the audit names every hook once and its payload hashes form a
  chain; a payload field changes only by an accepted, audited patch of a mutable field; a
  hook that fails where failures are tolerated leaves no trace but its audit step;
  deliveries that are planned before a commit are the ones the dispatch would have planned;
  and the action that is chosen respects the stops and the limit of turns.
\<close>

section \<open>Order of the hooks\<close>

interpretation hooks: comparator compareOwnedHooks
  unfolding compareOwnedHooks_def
  by unfold_locales (auto simp: compare_then_def compare_on_def split: if_splits)

definition hooks_sorted :: "registry_snapshot \<Rightarrow> bool" where
  "hooks_sorted s \<longleftrightarrow> (\<forall>event hs. map_of (rsHooks s) event = Some hs \<longrightarrow>
     sorted_wrt (\<lambda>a b. compareOwnedHooks a b \<le> 0) hs)"

lemma add_hooks_sorted: "hooks_sorted (fst s) \<Longrightarrow> hooks_sorted (fst (add_hooks d plugin version specs s))"
proof (induction specs arbitrary: s)
  case (Cons spec specs)
  obtain snapshot seq where s: "s = (snapshot, seq)" by (cases s)
  have "hooks_sorted (snapshot\<lparr>rsHooks := AList.update k (sort_func compareOwnedHooks hs) (rsHooks snapshot)\<rparr>)" for k hs
    using Cons.prems s by (auto simp: hooks_sorted_def update_conv hooks.sorted_sort_func)
  then show ?case unfolding s add_hooks.simps Let_def by (intro Cons.IH) simp
qed simp

section \<open>One turn\<close>

text \<open>The step that a turn appends.\<close>

definition step_of :: "dispatch_env \<Rightarrow> nat \<Rightarrow> owned_hook \<Rightarrow> json \<Rightarrow> json \<Rightarrow> hook_audit_step \<Rightarrow> bool" where
  "step_of env index owned p p' step \<longleftrightarrow>
     haIndex step = int index \<and> haPlugin step = ohPlugin owned \<and> haHook step = hsName (ohSpec owned) \<and>
     haSequence step = ohSeq owned \<and> haInputHash step = payloadHash env p \<and> haOutputHash step = payloadHash env p'"

abbreviation payload_of :: "dispatch_result \<Rightarrow> json" where
  "payload_of r \<equiv> evPayload (drEvent r)"

abbreviation steps_of :: "dispatch_result \<Rightarrow> hook_audit_step list" where
  "steps_of r \<equiv> eaSteps (drAudit r)"

definition stops :: "hook_audit_step \<Rightarrow> bool" where
  "stops step \<longleftrightarrow> haOutcome step = HookAuditBlocked \<or> haOutcome step = HookAuditSkipped"

text \<open>What a turn does to the event, its audit and the payload, in terms of the one step it appends.\<close>

definition turned :: "dispatch_env \<Rightarrow> event_contract \<Rightarrow> nat \<Rightarrow> owned_hook \<Rightarrow> dispatch_result \<Rightarrow> dispatch_result \<Rightarrow>
    hook_audit_step \<Rightarrow> bool" where
  "turned env contract index owned r r' step \<longleftrightarrow>
     steps_of r' = steps_of r @ [step] \<and> step_of env index owned (payload_of r) (payload_of r') step \<and>
     drEvent r' = (drEvent r)\<lparr>evPayload := payload_of r'\<rparr> \<and>
     eaInputHash (drAudit r') = eaInputHash (drAudit r) \<and>
     (payload_of r' = payload_of r \<or>
      haOutcome step \<noteq> HookAuditError \<and> set (haPatchFields step) \<subseteq> set (ecMutableFields contract) \<and>
      (\<exists>patch. set (haPatchFields step) = fst ` set patch \<and> patch \<noteq> [] \<and>
         applyPatch env (payload_of r) patch (ecMutableFields contract) = Some (Inr (payload_of r'))))"

lemma validateEffect_fields:
  "validateEffect contract e = None \<Longrightarrow> fst ` set (efPatch e) \<subseteq> set (ecMutableFields contract)"
  by (auto simp: validateEffect_def result_simps list_ex_iff)

lemma event_unchanged [simp]: "(e :: sdk_event)\<lparr>evPayload := evPayload e\<rparr> = e"
  by simp

lemma newHookAuditStep_step:
  "step_of env index owned p p (newHookAuditStep env index owned p)"
  by (simp add: step_of_def newHookAuditStep_def Let_def)

lemma step_of_update [simp]:
  "step_of env index owned p q (step\<lparr>haDuration := d\<rparr>) = step_of env index owned p q step"
  "step_of env index owned p q (step\<lparr>haPatchFields := fs\<rparr>) = step_of env index owned p q step"
  "step_of env index owned p q (step\<lparr>haOverwrites := fs\<rparr>) = step_of env index owned p q step"
  "step_of env index owned p q (step\<lparr>haBlock := b\<rparr>) = step_of env index owned p q step"
  "step_of env index owned p q (step\<lparr>haAction := a\<rparr>) = step_of env index owned p q step"
  "step_of env index owned p q (step\<lparr>haError := t\<rparr>) = step_of env index owned p q step"
  "step_of env index owned p q (step\<lparr>haOutcome := k\<rparr>) = step_of env index owned p q step"
  by (simp_all add: step_of_def)

lemma step_of_accept:
  "step_of env index owned p p' step \<Longrightarrow> step_of env index owned p q (step\<lparr>haOutputHash := payloadHash env q\<rparr>)"
  by (simp add: step_of_def)

lemma failure_turned:
  assumes "step_of env index owned (payload_of r) (payload_of r) step"
  shows "case hook_failure env options owned step a d allow patchedBy r of
      HookNext r' p \<Rightarrow> \<exists>st. turned env contract index owned r r' st \<and> \<not> stops st \<and> drBlock r' = drBlock r
    | HookFailed r' e \<Rightarrow> (\<exists>st. turned env contract index owned r r' st \<and> \<not> stops st) \<and> drBlock r' = drBlock r \<and>
        eaOutputHash (drAudit r') = payloadHash env (payload_of r')
    | _ \<Rightarrow> False"
  using assms
  by (auto simp: hook_failure_def handleHookDispatchError_def Let_def append_step_def turned_def stops_def)

lemma accept_turned:
  assumes "step_of env index owned (payload_of r) (payload_of r) step" "drBlock r = None"
    and "raw = payload_of r \<or> efPatch e \<noteq> [] \<and> applyPatch env (payload_of r) (efPatch e) (ecMutableFields contract) = Some (Inr raw)"
    and "haPatchFields step = sortedPatchFields (efPatch e)" "validateEffect contract e = None"
  shows "case accept_effect env index e step raw patchedBy r of
      HookNext r' p \<Rightarrow> \<exists>st. turned env contract index owned r r' st \<and> \<not> stops st \<and> drBlock r' = None
    | HookBlocked r' \<Rightarrow> \<exists>st. turned env contract index owned r r' st \<and> haOutcome st = HookAuditBlocked \<and> drBlock r' \<noteq> None
    | _ \<Rightarrow> False"
proof -
  let ?st = "step\<lparr>haOutputHash := payloadHash env raw, haOutcome := hookAuditOutcome e\<rparr>"
  have st: "step_of env index owned (payload_of r) raw ?st" using step_of_accept [OF assms(1)] by simp
  have set: "set (haPatchFields ?st) = fst ` set (efPatch e)" using assms(4) by (simp add: sortedPatchFields_def)
  have ch: "raw = payload_of r \<or> haOutcome ?st \<noteq> HookAuditError \<and> set (haPatchFields ?st) \<subseteq> set (ecMutableFields contract) \<and>
      (\<exists>patch. set (haPatchFields ?st) = fst ` set patch \<and> patch \<noteq> [] \<and>
         applyPatch env (payload_of r) patch (ecMutableFields contract) = Some (Inr raw))"
    using assms(3) set validateEffect_fields [OF assms(5)] by (auto simp: hookAuditOutcome_def)
  have t: "turned env contract index owned r r' ?st"
    if "steps_of r' = steps_of r @ [?st]" "drEvent r' = (drEvent r)\<lparr>evPayload := raw\<rparr>"
      "eaInputHash (drAudit r') = eaInputHash (drAudit r)" for r'
    using that st ch by (simp add: turned_def)
  show ?thesis
  proof (cases "efBlock e")
    case None
    then have "\<not> stops ?st" by (simp add: stops_def hookAuditOutcome_def)
    then show ?thesis
      using None assms(2) by (auto simp: accept_effect_def Let_def append_step_def intro!: exI [of _ ?st] t split: option.split)
  next
    case (Some b)
    then have "haOutcome ?st = HookAuditBlocked" by (simp add: hookAuditOutcome_def)
    then show ?thesis
      using Some assms(2) by (auto simp: accept_effect_def Let_def append_step_def intro!: exI [of _ ?st] t)
  qed
qed

lemma hook_turn_turned:
  assumes "drBlock r = None"
  shows "case hook_turn env call contract options index owned r patchedBy of
      HookNext r' p \<Rightarrow> \<exists>st. turned env contract index owned r r' st \<and> \<not> stops st \<and> drBlock r' = None
    | HookBlocked r' \<Rightarrow> \<exists>st. turned env contract index owned r r' st \<and> haOutcome st = HookAuditBlocked \<and> drBlock r' \<noteq> None
    | HookFailed r' e \<Rightarrow> (\<exists>st. turned env contract index owned r r' st \<and> \<not> stops st) \<and> drBlock r' = None \<and>
        eaOutputHash (drAudit r') = payloadHash env (payload_of r')
    | HookPanic \<Rightarrow> True"
proof -
  have f: "?thesis" if "hook_turn env call contract options index owned r patchedBy = hook_failure env options owned step a d allow patchedBy r"
    "step_of env index owned (payload_of r) (payload_of r) step" for step a d allow
    using failure_turned [OF that(2), where options = options and a = a and d = d and allow = allow
        and patchedBy = patchedBy and contract = contract] that(1) assms
    by (auto split: hook_verdict.splits)
  have s0: "step_of env index owned (payload_of r) (payload_of r)
      ((newHookAuditStep env index owned (payload_of r))\<lparr>haDuration := deTook env owned\<rparr>)"
    by (simp add: newHookAuditStep_step)
  show ?thesis
  proof (cases "HandleHook call owned (drEvent r)")
    case (Inl err)
    then show ?thesis by (intro f [OF _ s0]) (auto simp: hook_turn_def)
  next
    case (Inr e)
    let ?step = "(newHookAuditStep env index owned (payload_of r))\<lparr>haDuration := deTook env owned,
        haPatchFields := sortedPatchFields (efPatch e), haOverwrites := overwrittenPatchFields (sortedPatchFields (efPatch e)) patchedBy,
        haBlock := summarizeBlock (efBlock e), haAction := summarizeAction (efAction e)\<rparr>"
    have s1: "step_of env index owned (payload_of r) (payload_of r) ?step" by (simp add: newHookAuditStep_step)
    show ?thesis
    proof (cases "validateEffect contract e")
      case (Some err)
      then show ?thesis using Inr by (intro f [OF _ s1]) (auto simp: hook_turn_def Let_def)
    next
      case None
      let ?a = "if length (efPatch e) > 0 then applyPatch env (payload_of r) (efPatch e) (ecMutableFields contract)
          else Some (Inr (payload_of r))"
      show ?thesis
      proof (cases ?a)
        case out: (Some v)
        show ?thesis
        proof (cases v)
          case (Inl err)
          then show ?thesis using out None \<open>HandleHook call owned (drEvent r) = Inr e\<close>
            by (intro f [OF _ s1]) (auto simp: hook_turn_def Let_def)
        next
          case raw: (Inr raw)
          have "hook_turn env call contract options index owned r patchedBy = accept_effect env index e ?step raw patchedBy r"
            using out raw None Inr by (simp add: hook_turn_def Let_def)
          moreover have "raw = payload_of r \<or> efPatch e \<noteq> [] \<and> applyPatch env (payload_of r) (efPatch e) (ecMutableFields contract) = Some (Inr raw)"
            using out raw by (auto split: if_splits)
          ultimately show ?thesis
            using accept_turned [OF s1 assms, of raw e contract patchedBy] None by (auto split: hook_verdict.splits)
        qed
      qed (use Inr None in \<open>simp add: hook_turn_def Let_def\<close>)
    qed
  qed
qed

section \<open>The audit of a dispatch\<close>

text \<open>
  The steps are those of the first hooks, in order and with their positions, and every step
  starts from the payload that the one before left, from one hash to another.
\<close>

fun audited :: "nat \<Rightarrow> owned_hook list \<Rightarrow> string \<Rightarrow> hook_audit_step list \<Rightarrow> string \<Rightarrow> bool" where
  "audited index hooks h [] h' \<longleftrightarrow> h = h'"
| "audited index [] h (st # sts) h' \<longleftrightarrow> False"
| "audited index (owned # hooks) h (st # sts) h' \<longleftrightarrow>
     haIndex st = int index \<and> haPlugin st = ohPlugin owned \<and> haHook st = hsName (ohSpec owned) \<and>
     haSequence st = ohSeq owned \<and> haInputHash st = h \<and> audited (Suc index) hooks (haOutputHash st) sts h'"

text \<open>Nothing was blocked, or one step was and exactly the hooks after it were skipped.\<close>

definition stopped_at :: "block option \<Rightarrow> hook_audit_step list \<Rightarrow> bool" where
  "stopped_at b sts \<longleftrightarrow> (case b of
       None \<Rightarrow> list_all (\<lambda>st. \<not> stops st) sts
     | Some _ \<Rightarrow> \<exists>pre st post. sts = pre @ st # post \<and> list_all (\<lambda>st. \<not> stops st) pre \<and>
         haOutcome st = HookAuditBlocked \<and> list_all (\<lambda>st. haOutcome st = HookAuditSkipped) post)"

lemma stopped_at_Cons: "\<not> stops st \<Longrightarrow> stopped_at b sts \<Longrightarrow> stopped_at b (st # sts)"
proof (cases b)
  case (Some x)
  assume "\<not> stops st" "stopped_at b sts"
  then obtain pre s post where "sts = pre @ s # post" "list_all (\<lambda>st. \<not> stops st) (st # pre)"
    "haOutcome s = HookAuditBlocked" "list_all (\<lambda>st. haOutcome st = HookAuditSkipped) post"
    using Some by (auto simp: stopped_at_def)
  then have "st # sts = (st # pre) @ s # post" by simp
  then show ?thesis using Some \<open>list_all _ (st # pre)\<close> \<open>haOutcome s = _\<close> \<open>list_all _ post\<close>
    unfolding stopped_at_def by (simp only: option.case) blast
qed (simp add: stopped_at_def)

lemma skipped_steps:
  "\<exists>sk. appendSkippedHookAuditSteps env index hooks p audit = audit\<lparr>eaSteps := eaSteps audit @ sk\<rparr> \<and>
     audited index hooks (payloadHash env p) sk (payloadHash env p) \<and> length sk = length hooks \<and>
     list_all (\<lambda>st. haOutcome st = HookAuditSkipped \<and> haPatchFields st = []) sk"
proof (induction hooks arbitrary: index audit)
  case Nil
  then show ?case by (intro exI [of _ "[]"]) simp
next
  case (Cons h hooks)
  let ?st = "(newHookAuditStep env index h p)\<lparr>haOutcome := HookAuditSkipped\<rparr>"
  obtain sk where sk: "appendSkippedHookAuditSteps env (Suc index) hooks p (append_step ?st audit) =
      (append_step ?st audit)\<lparr>eaSteps := eaSteps (append_step ?st audit) @ sk\<rparr>"
    "audited (Suc index) hooks (payloadHash env p) sk (payloadHash env p)" "length sk = length hooks"
    "list_all (\<lambda>st. haOutcome st = HookAuditSkipped \<and> haPatchFields st = []) sk"
    using Cons.IH by blast
  then show ?case
    by (intro exI [of _ "?st # sk"]) (simp add: append_step_def newHookAuditStep_def Let_def)
qed

lemma turned_audited:
  assumes "turned env contract index owned r r1 st"
    and "steps_of r' = steps_of r1 @ sts" "audited (Suc index) hooks (payloadHash env (payload_of r1)) sts h'"
  shows "steps_of r' = steps_of r @ st # sts \<and> audited index (owned # hooks) (payloadHash env (payload_of r)) (st # sts) h'"
  using assms by (simp add: turned_def step_of_def)

lemma turned_event:
  "turned env contract index owned r r1 st \<Longrightarrow> drEvent r' = (drEvent r1)\<lparr>evPayload := payload_of r'\<rparr> \<Longrightarrow>
   drEvent r' = (drEvent r)\<lparr>evPayload := payload_of r'\<rparr> \<and> eaInputHash (drAudit r1) = eaInputHash (drAudit r)"
  unfolding turned_def by (metis sdk_event.fold_congs(5) sdk_event.surjective sdk_event.update_convs(5))

lemma dispatch_audited:
  assumes "drBlock r = None" "dispatch_hooks env call contract options index hooks r patchedBy = Some (r', err)"
  shows "\<exists>new. steps_of r' = steps_of r @ new \<and>
    audited index hooks (payloadHash env (payload_of r)) new (payloadHash env (payload_of r')) \<and>
    (err = None \<longrightarrow> length new = length hooks) \<and> stopped_at (drBlock r') new \<and>
    eaInputHash (drAudit r') = eaInputHash (drAudit r) \<and>
    (err \<noteq> None \<longrightarrow> eaOutputHash (drAudit r') = payloadHash env (payload_of r')) \<and>
    drEvent r' = (drEvent r)\<lparr>evPayload := payload_of r'\<rparr>"
  using assms
proof (induction hooks arbitrary: index r patchedBy)
  case Nil
  then show ?case by (intro exI [of _ "[]"]) (simp add: stopped_at_def)
next
  case (Cons owned hooks)
  note t = hook_turn_turned [OF Cons.prems(1), where env = env and call = call and contract = contract and options = options
      and index = index and owned = owned and patchedBy = patchedBy]
  show ?case
  proof (cases "hook_turn env call contract options index owned r patchedBy")
    case (HookNext r1 p)
    then obtain st where st: "turned env contract index owned r r1 st" "\<not> stops st" "drBlock r1 = None" using t by auto
    have "dispatch_hooks env call contract options (Suc index) hooks r1 p = Some (r', err)"
      using HookNext Cons.prems(2) by simp
    then obtain new where new: "steps_of r' = steps_of r1 @ new"
      "audited (Suc index) hooks (payloadHash env (payload_of r1)) new (payloadHash env (payload_of r'))"
      "err = None \<longrightarrow> length new = length hooks" "stopped_at (drBlock r') new"
      "eaInputHash (drAudit r') = eaInputHash (drAudit r1)"
      "err \<noteq> None \<longrightarrow> eaOutputHash (drAudit r') = payloadHash env (payload_of r')"
      "drEvent r' = (drEvent r1)\<lparr>evPayload := payload_of r'\<rparr>"
      using Cons.IH [OF st(3)] by blast
    show ?thesis
      using turned_audited [OF st(1) new(1,2)] turned_event [OF st(1) new(7)] stopped_at_Cons [OF st(2) new(4)] new(3,5,6)
      by (intro exI [of _ "st # new"]) simp
  next
    case (HookBlocked r1)
    then obtain st where st: "turned env contract index owned r r1 st" "haOutcome st = HookAuditBlocked" "drBlock r1 \<noteq> None"
      using t by auto
    have r': "r' = r1\<lparr>drAudit := appendSkippedHookAuditSteps env (Suc index) hooks (payload_of r1) (drAudit r1)\<rparr>" "err = None"
      using HookBlocked Cons.prems(2) by simp_all
    obtain sk where sk: "appendSkippedHookAuditSteps env (Suc index) hooks (payload_of r1) (drAudit r1) =
        (drAudit r1)\<lparr>eaSteps := steps_of r1 @ sk\<rparr>"
      "audited (Suc index) hooks (payloadHash env (payload_of r1)) sk (payloadHash env (payload_of r1))"
      "length sk = length hooks" "list_all (\<lambda>st. haOutcome st = HookAuditSkipped \<and> haPatchFields st = []) sk"
      using skipped_steps by blast
    have s: "steps_of r' = steps_of r1 @ sk" "payload_of r' = payload_of r1" "drEvent r' = drEvent r1"
      "drBlock r' = drBlock r1" "eaInputHash (drAudit r') = eaInputHash (drAudit r1)"
      using r'(1) sk(1) by simp_all
    have "stopped_at (drBlock r') (st # sk)"
      using st(2,3) sk(4) s(4) by (auto simp: stopped_at_def list_all_iff intro!: exI [of _ "[]"])
    moreover have "drEvent r1 = (drEvent r)\<lparr>evPayload := payload_of r1\<rparr>" "eaInputHash (drAudit r1) = eaInputHash (drAudit r)"
      using st(1) by (simp_all add: turned_def)
    ultimately show ?thesis
      using turned_audited [OF st(1) s(1), of hooks "payloadHash env (payload_of r1)"] sk(2,3) s r'(2)
      by (intro exI [of _ "st # sk"]) simp
  next
    case (HookFailed r1 e)
    then obtain st where st: "turned env contract index owned r r1 st" "\<not> stops st" "drBlock r1 = None"
      "eaOutputHash (drAudit r1) = payloadHash env (payload_of r1)" using t by auto
    have r': "r' = r1" "err = Some e" using HookFailed Cons.prems(2) by simp_all
    show ?thesis
      using st unfolding r' by (intro exI [of _ "[st]"]) (simp add: turned_def step_of_def stopped_at_def)
  qed (use Cons.prems in simp)
qed

lemma finalize_simps [simp]:
  "drEvent (finalizeDispatchAudit env r) = drEvent r" "drBlock (finalizeDispatchAudit env r) = drBlock r"
  "drActions (finalizeDispatchAudit env r) = drActions r" "steps_of (finalizeDispatchAudit env r) = steps_of r"
  "eaInputHash (drAudit (finalizeDispatchAudit env r)) = eaInputHash (drAudit r)"
  "eaOutputHash (drAudit (finalizeDispatchAudit env r)) = payloadHash env (payload_of r)"
  by (simp_all add: finalizeDispatchAudit_def Let_def)

lemma start_simps [simp]:
  "drEvent (start_result env event) = event" "drBlock (start_result env event) = None"
  "drActions (start_result env event) = []" "steps_of (start_result env event) = []"
  "eaInputHash (drAudit (start_result env event)) = payloadHash env (evPayload event)"
  by (simp_all add: start_result_def newEventAudit_def Let_def)

text \<open>The hooks that a dispatch runs.\<close>

definition run_hooks :: "registry_snapshot \<Rightarrow> sdk_event \<Rightarrow> event_dispatch_options \<Rightarrow> owned_hook list" where
  "run_hooks sn event options = (if eoInvokeHooks options
     then (case map_of (rsHooks sn) (evName event) of None \<Rightarrow> [] | Some hs \<Rightarrow> hs) else [])"

lemma enqueueSubscribers_error:
  "enqueueSubscribers ctx now sn event s = (s', Some e) \<Longrightarrow> s' = s"
  by (auto simp: enqueueSubscribers_def Let_def ds_Enqueue_def split: if_splits prod.splits option.splits sum.splits)

text \<open>A dispatch is the loop over the hooks, then the deliveries for the event that it leaves.\<close>

lemma dispatchPreparedEvent_loop:
  assumes "map_of (rsEvents sn) (evName event) = Some contract"
  shows "dispatchPreparedEvent env call ctx now (Some sn) event options s =
    (case dispatch_hooks env call contract options 0 (run_hooks sn event options) (start_result env event) [] of
       None \<Rightarrow> None
     | Some (r, Some e) \<Rightarrow> Some (s, r, Some e)
     | Some (r, None) \<Rightarrow>
         if eoEnqueueSubscriberDeliveries options
         then (case enqueueSubscribers ctx now (Some sn) (drEvent r) s of
                 (s, Some e) \<Rightarrow> if returnSubscriberFailures options
                   then Some (s, no_result, Some e) else Some (s, finalizeDispatchAudit env r, None)
               | (s, None) \<Rightarrow> Some (s, finalizeDispatchAudit env r, None))
         else Some (s, finalizeDispatchAudit env r, None))"
  unfolding dispatchPreparedEvent_def run_hooks_def Let_def using assms
  by (auto split: option.split prod.split)

lemma dispatch_succeeds:
  assumes "dispatchPreparedEvent env call ctx now snapshot event options s = Some (s', r, None)"
  obtains sn contract r0 where "snapshot = Some sn" "map_of (rsEvents sn) (evName event) = Some contract"
    "dispatch_hooks env call contract options 0 (run_hooks sn event options) (start_result env event) [] = Some (r0, None)"
    "r = finalizeDispatchAudit env r0"
proof -
  obtain sn where sn: "snapshot = Some sn" using assms by (cases snapshot) (auto simp: dispatchPreparedEvent_def)
  obtain contract where c: "map_of (rsEvents sn) (evName event) = Some contract"
    using assms sn by (cases "map_of (rsEvents sn) (evName event)") (auto simp: dispatchPreparedEvent_def)
  obtain r0 where "dispatch_hooks env call contract options 0 (run_hooks sn event options) (start_result env event) [] = Some (r0, None)"
    "r = finalizeDispatchAudit env r0"
    using assms unfolding sn dispatchPreparedEvent_loop [OF c] by (auto split: option.splits prod.splits if_splits)
  then show ?thesis using that sn c by blast
qed

text \<open>
  C13: The audit of a dispatch is complete. When a dispatch succeeds, its audit has exactly
  one step for every hook of the event, in the order of the hooks and with their positions;
  the hash of the payload before and after every step links it to its neighbours, from the
  payload of the event to the one that is returned; and when a hook blocks, exactly the
  hooks after it are recorded as skipped. The event keeps its identity. A dispatch that
  fails stores no delivery.
\<close>

theorem dispatch_audit_complete:
  assumes "dispatchPreparedEvent env call ctx now (Some sn) event options s = Some (s', r, err)"
  shows "if err = None
    then length (steps_of r) = length (run_hooks sn event options) \<and>
      audited 0 (run_hooks sn event options) (eaInputHash (drAudit r)) (steps_of r) (eaOutputHash (drAudit r)) \<and>
      eaInputHash (drAudit r) = payloadHash env (evPayload event) \<and>
      eaOutputHash (drAudit r) = payloadHash env (payload_of r) \<and>
      stopped_at (drBlock r) (steps_of r) \<and> drEvent r = event\<lparr>evPayload := payload_of r\<rparr>
    else s' = s"
proof (cases err)
  case None
  obtain sn' contract r0 where r0: "Some sn = Some sn'" "map_of (rsEvents sn') (evName event) = Some contract"
    "dispatch_hooks env call contract options 0 (run_hooks sn' event options) (start_result env event) [] = Some (r0, None)"
    "r = finalizeDispatchAudit env r0"
    using assms unfolding None by (rule dispatch_succeeds)
  show ?thesis using dispatch_audited [OF _ r0(3)] r0(1,4) None by simp
next
  case (Some e)
  show ?thesis
  proof (cases "map_of (rsEvents sn) (evName event)")
    case (Some contract)
    then show ?thesis
      using assms \<open>err = Some e\<close> enqueueSubscribers_error unfolding dispatchPreparedEvent_loop [OF Some]
      by (auto split: option.splits prod.splits if_splits)
  qed (use assms Some in \<open>simp add: dispatchPreparedEvent_def\<close>)
qed

section \<open>Protected fields\<close>

text \<open>
  What a step may do to the payload. It leaves every byte as it is, or it was accepted, names
  mutable fields only, and replaces the payload by the encoding of the map that the payload
  decodes to, in which no other field was touched and the named ones hold valid JSON.
\<close>

definition patched_by :: "dispatch_env \<Rightarrow> event_contract \<Rightarrow> hook_audit_step \<Rightarrow> json \<Rightarrow> json \<Rightarrow> bool" where
  "patched_by env contract st p p' \<longleftrightarrow> p' = p \<or>
     haOutcome st \<noteq> HookAuditError \<and> haOutcome st \<noteq> HookAuditSkipped \<and>
     set (haPatchFields st) \<subseteq> set (ecMutableFields contract) \<and>
     (\<exists>m m'. deObject env p = Inr (Some m) \<and> deMarshal env m' = Inr p' \<and>
        (\<forall>k. k \<notin> set (haPatchFields st) \<longrightarrow> map_of m' k = map_of m k) \<and>
        (\<forall>k\<in>set (haPatchFields st). \<exists>v. map_of m' k = Some v \<and> json_Valid v))"

text \<open>The payloads between the steps, with the hashes that the audit has of them.\<close>

fun payload_chain :: "dispatch_env \<Rightarrow> event_contract \<Rightarrow> json \<Rightarrow> hook_audit_step list \<Rightarrow> json \<Rightarrow> bool" where
  "payload_chain env contract p [] p' \<longleftrightarrow> p' = p"
| "payload_chain env contract p (st # sts) p' \<longleftrightarrow>
     (\<exists>q. haInputHash st = payloadHash env p \<and> haOutputHash st = payloadHash env q \<and>
        patched_by env contract st p q \<and> payload_chain env contract q sts p')"

lemma patch_fields_other:
  "patch_fields allowed patch object = Some (Inr object') \<Longrightarrow> k \<notin> fst ` set patch \<Longrightarrow>
   (case object of None \<Rightarrow> object' = None | Some m \<Rightarrow> \<exists>m'. object' = Some m' \<and> map_of m' k = map_of m k)"
proof (induction patch arbitrary: object)
  case (Cons fv patch)
  obtain f v where fv: "fv = (f, v)" by (cases fv)
  with Cons.prems obtain m where m: "object = Some m" "patch_fields allowed patch (Some (AList.update f v m)) = Some (Inr object')"
    by (auto split: if_splits option.splits)
  then show ?case using Cons.IH [OF m(2)] Cons.prems(2) fv by (auto simp: update_conv)
qed (simp split: option.split)

lemma patch_fields_nonempty: "patch \<noteq> [] \<Longrightarrow> patch_fields allowed patch None \<noteq> Some (Inr object')"
  by (cases patch) (auto split: if_splits)

lemma applyPatch_Inr:
  assumes "applyPatch env p patch allowed = Some (Inr p')" "patch \<noteq> []"
  shows "\<exists>m m'. deObject env p = Inr (Some m) \<and> patch_fields allowed patch (Some m) = Some (Inr (Some m')) \<and>
    deMarshal env m' = Inr p'"
proof -
  obtain object object' where o: "deObject env p = Inr object" "patch_fields allowed patch object = Some (Inr object')"
    using assms(1) by (auto simp: applyPatch_def split: sum.splits option.splits)
  obtain m where m: "object = Some m" using o(2) patch_fields_nonempty [OF assms(2)] by (cases object) auto
  obtain k where k: "k \<notin> fst ` set patch" using ex_new_if_finite [OF infinite_UNIV_listI] by (metis finite_imageI finite_set)
  obtain m' where m': "object' = Some m'" using patch_fields_other [OF o(2) k] m by auto
  show ?thesis using assms(1) o m m' by (auto simp: applyPatch_def split: sum.splits)
qed

lemma patch_fields_named:
  assumes "patch_fields allowed patch (Some m) = Some (Inr (Some m'))" "k \<in> fst ` set patch"
  shows "\<exists>v. map_of m' k = Some v \<and> json_Valid v"
  using assms
proof (induction patch arbitrary: m)
  case (Cons fv patch)
  obtain f v where fv: "fv = (f, v)" by (cases fv)
  with Cons.prems have p: "json_Valid v" "patch_fields allowed patch (Some (AList.update f v m)) = Some (Inr (Some m'))"
    by (auto split: if_splits)
  show ?case
  proof (cases "k \<in> fst ` set patch")
    case True
    then show ?thesis using Cons.IH [OF p(2)] by blast
  next
    case False
    then have "k = f" using Cons.prems(2) fv by auto
    then show ?thesis using patch_fields_other [OF p(2) False] p(1) by (simp add: update_conv)
  qed
qed simp

lemma turned_patched:
  assumes "turned env contract index owned r r' st" "haOutcome st \<noteq> HookAuditSkipped"
  shows "patched_by env contract st (payload_of r) (payload_of r')"
proof (cases "payload_of r' = payload_of r")
  case False
  then obtain patch where p: "set (haPatchFields st) = fst ` set patch" "patch \<noteq> []"
    "applyPatch env (payload_of r) patch (ecMutableFields contract) = Some (Inr (payload_of r'))"
    "haOutcome st \<noteq> HookAuditError" "set (haPatchFields st) \<subseteq> set (ecMutableFields contract)"
    using assms(1) by (auto simp: turned_def)
  obtain m m' where m: "deObject env (payload_of r) = Inr (Some m)"
    "patch_fields (ecMutableFields contract) patch (Some m) = Some (Inr (Some m'))" "deMarshal env m' = Inr (payload_of r')"
    using applyPatch_Inr [OF p(3,2)] by blast
  have "map_of m' k = map_of m k" if "k \<notin> set (haPatchFields st)" for k
    using patch_fields_other [OF m(2), of k] that p(1) by simp
  then show ?thesis
    using p(1,4,5) m assms(2) patch_fields_named [OF m(2)] unfolding patched_by_def by blast
qed (simp add: patched_by_def)

lemma turned_chain:
  assumes "turned env contract index owned r r' st" "haOutcome st \<noteq> HookAuditSkipped"
    and "payload_chain env contract (payload_of r') sts p"
  shows "payload_chain env contract (payload_of r) (st # sts) p"
  using turned_patched [OF assms(1,2)] assms by (auto simp: turned_def step_of_def)

lemma skipped_chain:
  assumes "list_all (\<lambda>st. haInputHash st = payloadHash env p \<and> haOutputHash st = payloadHash env p) sts"
  shows "payload_chain env contract p sts p"
  using assms by (induction sts) (auto simp: patched_by_def)

lemma skipped_hashes:
  "\<exists>sk. appendSkippedHookAuditSteps env index hooks p audit = audit\<lparr>eaSteps := eaSteps audit @ sk\<rparr> \<and>
     list_all (\<lambda>st. haInputHash st = payloadHash env p \<and> haOutputHash st = payloadHash env p) sk"
proof (induction hooks arbitrary: index audit)
  case Nil
  then show ?case by (intro exI [of _ "[]"]) simp
next
  case (Cons h hooks)
  let ?st = "(newHookAuditStep env index h p)\<lparr>haOutcome := HookAuditSkipped\<rparr>"
  obtain sk where "appendSkippedHookAuditSteps env (Suc index) hooks p (append_step ?st audit) =
      (append_step ?st audit)\<lparr>eaSteps := eaSteps (append_step ?st audit) @ sk\<rparr>"
    "list_all (\<lambda>st. haInputHash st = payloadHash env p \<and> haOutputHash st = payloadHash env p) sk"
    using Cons.IH by blast
  then show ?case
    by (intro exI [of _ "?st # sk"]) (simp add: append_step_def newHookAuditStep_def Let_def)
qed

lemma dispatch_chain:
  assumes "drBlock r = None" "dispatch_hooks env call contract options index hooks r patchedBy = Some (r', err)"
  shows "\<exists>new. steps_of r' = steps_of r @ new \<and> payload_chain env contract (payload_of r) new (payload_of r')"
  using assms
proof (induction hooks arbitrary: index r patchedBy)
  case Nil
  then show ?case by simp
next
  case (Cons owned hooks)
  note t = hook_turn_turned [OF Cons.prems(1), where env = env and call = call and contract = contract and options = options
      and index = index and owned = owned and patchedBy = patchedBy]
  have extend: "\<exists>new. steps_of r' = steps_of r @ new \<and> payload_chain env contract (payload_of r) new (payload_of r')"
    if "turned env contract index owned r r1 st" "haOutcome st \<noteq> HookAuditSkipped"
      "steps_of r' = steps_of r1 @ sts" "payload_chain env contract (payload_of r1) sts (payload_of r')" for r1 st sts
    using turned_chain [OF that(1,2,4)] that(1,3) by (intro exI [of _ "st # sts"]) (simp add: turned_def)
  show ?case
  proof (cases "hook_turn env call contract options index owned r patchedBy")
    case (HookNext r1 p)
    then obtain st where st: "turned env contract index owned r r1 st" "\<not> stops st" "drBlock r1 = None" using t by auto
    have "dispatch_hooks env call contract options (Suc index) hooks r1 p = Some (r', err)"
      using HookNext Cons.prems(2) by simp
    from Cons.IH [OF st(3) this] show ?thesis using extend [OF st(1)] st(2) by (auto simp: stops_def)
  next
    case (HookBlocked r1)
    then obtain st where st: "turned env contract index owned r r1 st" "haOutcome st = HookAuditBlocked" using t by auto
    have r': "r' = r1\<lparr>drAudit := appendSkippedHookAuditSteps env (Suc index) hooks (payload_of r1) (drAudit r1)\<rparr>"
      using HookBlocked Cons.prems(2) by simp
    obtain sk where sk: "appendSkippedHookAuditSteps env (Suc index) hooks (payload_of r1) (drAudit r1) =
        (drAudit r1)\<lparr>eaSteps := steps_of r1 @ sk\<rparr>"
      "list_all (\<lambda>st. haInputHash st = payloadHash env (payload_of r1) \<and> haOutputHash st = payloadHash env (payload_of r1)) sk"
      using skipped_hashes by blast
    have "steps_of r' = steps_of r1 @ sk" "payload_of r' = payload_of r1" using r' sk(1) by simp_all
    then show ?thesis using extend [OF st(1)] st(2) skipped_chain [OF sk(2)] by simp
  next
    case (HookFailed r1 e)
    then obtain st where st: "turned env contract index owned r r1 st" "\<not> stops st" using t by auto
    have "r' = r1" using HookFailed Cons.prems(2) by simp
    then show ?thesis using extend [OF st(1), of "[]"] st(2) by (simp add: stops_def)
  qed (use Cons.prems in simp)
qed

text \<open>
  C12: No hook changes what the contract protects, and every change is on record. From the
  payload of the event to the payload that a successful dispatch returns, the audit steps
  form a chain of payloads with the hashes that the audit has of them: a step leaves the
  payload byte for byte, or it is neither a failed nor a skipped one, its patched fields are
  all mutable by the contract of the event, and the next payload is the encoding of the
  decoded payload in which only these fields were replaced, by valid JSON. So the rejected
  patches of failed hooks leave nothing behind. Nothing is assumed of the JSON codec.
\<close>

theorem dispatch_fields_protected:
  assumes "dispatchPreparedEvent env call ctx now (Some sn) event options s = Some (s', r, None)"
    and "map_of (rsEvents sn) (evName event) = Some contract"
  shows "payload_chain env contract (evPayload event) (steps_of r) (payload_of r)"
proof -
  obtain sn' contract' r0 where r0: "Some sn = Some sn'" "map_of (rsEvents sn') (evName event) = Some contract'"
    "dispatch_hooks env call contract' options 0 (run_hooks sn' event options) (start_result env event) [] = Some (r0, None)"
    "r = finalizeDispatchAudit env r0"
    using assms(1) by (rule dispatch_succeeds)
  then have "contract' = contract" using assms(2) by simp
  then show ?thesis using dispatch_chain [OF _ r0(3)] r0(4) by simp
qed

section \<open>Tolerated failures\<close>

text \<open>What a dispatch decides, without its audit.\<close>

definition essence :: "dispatch_result \<Rightarrow> sdk_event \<times> block option \<times> action list" where
  "essence r = (drEvent r, drBlock r, drActions r)"

fun verdict_essence :: "hook_verdict \<Rightarrow> (nat \<times> (sdk_event \<times> block option \<times> action list) \<times> error option) option" where
  "verdict_essence (HookNext r p) = Some (0, essence r, None)"
| "verdict_essence (HookBlocked r) = Some (1, essence r, None)"
| "verdict_essence (HookFailed r e) = Some (2, essence r, Some e)"
| "verdict_essence HookPanic = None"

definition dispatch_essence where
  "dispatch_essence env call contract options index hooks r patchedBy =
     map_option (\<lambda>(r, e). (essence r, e)) (dispatch_hooks env call contract options index hooks r patchedBy)"

lemma failure_essence:
  "verdict_essence (hook_failure env options owned step a d allow patchedBy r) =
     (if eoScope options = eventDispatchPostCommit \<or> (allow \<and> hsFailurePolicy (ohSpec owned) = FailurePolicyContinue)
      then Some (0, essence r, None) else Some (2, essence r, Some d))"
  by (simp add: hook_failure_def handleHookDispatchError_def Let_def essence_def)

lemma accept_essence:
  "verdict_essence (accept_effect env index e step raw patchedBy r) =
     (let event = (drEvent r)\<lparr>evPayload := raw\<rparr> in
      if drBlock r = None \<and> efBlock e \<noteq> None then Some (1, (event, efBlock e, drActions r), None)
      else Some (0, (event, drBlock r, drActions r @ (case efAction e of None \<Rightarrow> [] | Some a \<Rightarrow> [CloneAction a])), None))"
  by (auto simp: accept_effect_def Let_def essence_def split: option.split)

lemma turn_essence:
  assumes "essence r = essence r2"
  shows "verdict_essence (hook_turn env call contract options index owned r p) =
    verdict_essence (hook_turn env call contract options index2 owned r2 p2)"
proof -
  have "drEvent r = drEvent r2" "drBlock r = drBlock r2" "drActions r = drActions r2"
    using assms by (simp_all add: essence_def)
  then show ?thesis
    by (auto simp: hook_turn_def Let_def failure_essence accept_essence assms split: option.split sum.split)
qed

lemma dispatch_essence_Cons:
  "dispatch_essence env call contract options index (owned # hooks) r p =
     (case hook_turn env call contract options index owned r p of
        HookNext r p \<Rightarrow> dispatch_essence env call contract options (Suc index) hooks r p
      | HookBlocked r \<Rightarrow> Some (essence r, None)
      | HookFailed r e \<Rightarrow> Some (essence r, Some e)
      | HookPanic \<Rightarrow> None)"
  by (auto simp: dispatch_essence_def essence_def split: hook_verdict.split)

lemma dispatch_essence_cong:
  "essence r = essence r2 \<Longrightarrow>
   dispatch_essence env call contract options index hooks r p = dispatch_essence env call contract options index2 hooks r2 p2"
proof (induction hooks arbitrary: index index2 r r2 p p2)
  case Nil
  then show ?case by (simp add: dispatch_essence_def)
next
  case (Cons owned hooks)
  note e = turn_essence [OF Cons.prems, of env call contract options index owned p index2 p2]
  show ?case
    unfolding dispatch_essence_Cons using e Cons.IH
    by (cases "hook_turn env call contract options index owned r p";
        cases "hook_turn env call contract options index2 owned r2 p2") auto
qed

text \<open>
  A hook fails on an event when its call fails, when its effect is invalid, or when its patch
  cannot be applied. After the commit every failure is tolerated; before it, a failed call of
  a hook whose policy is to continue.
\<close>

definition tolerated :: "dispatch_env \<Rightarrow> event_contract \<Rightarrow> event_dispatch_options \<Rightarrow> hook_calls \<Rightarrow> owned_hook \<Rightarrow> sdk_event \<Rightarrow> bool" where
  "tolerated env contract options call owned event \<longleftrightarrow> (case call owned event of
       Inl _ \<Rightarrow> eoScope options = eventDispatchPostCommit \<or> hsFailurePolicy (ohSpec owned) = FailurePolicyContinue
     | Inr e \<Rightarrow> eoScope options = eventDispatchPostCommit \<and>
         (validateEffect contract (CloneEffect e) \<noteq> None \<or>
          efPatch e \<noteq> [] \<and> (case applyPatch env (evPayload event) (efPatch e) (ecMutableFields contract) of
             Some (Inl _) \<Rightarrow> True | _ \<Rightarrow> False)))"

definition no_effect :: effect where
  "no_effect = \<lparr>efPatch = [], efBlock = None, efAction = None\<rparr>"

text \<open>The same hooks, with an empty effect for every failure that is tolerated.\<close>

definition silenced :: "dispatch_env \<Rightarrow> event_contract \<Rightarrow> event_dispatch_options \<Rightarrow> hook_calls \<Rightarrow> hook_calls" where
  "silenced env contract options call owned event =
     (if tolerated env contract options call owned event then Inr no_effect else call owned event)"

lemma no_effect_answer:
  assumes "call owned (drEvent r) = Inr no_effect"
  shows "verdict_essence (hook_turn env call contract options index owned r p) = Some (0, essence r, None)"
  using assms
  by (simp add: hook_turn_def HandleHook_def CloneEffect_def no_effect_def validateEffect_def Let_def accept_essence result_simps)
    (simp add: essence_def)

lemma tolerated_turn:
  assumes "tolerated env contract options call owned (drEvent r)"
  shows "verdict_essence (hook_turn env call contract options index owned r p) = Some (0, essence r, None)"
proof (cases "call owned (drEvent r)")
  case (Inl e)
  then show ?thesis using assms by (auto simp: tolerated_def hook_turn_def HandleHook_def failure_essence)
next
  case (Inr e)
  have post: "eoScope options = eventDispatchPostCommit" using assms Inr by (simp add: tolerated_def)
  show ?thesis
  proof (cases "validateEffect contract (CloneEffect e)")
    case None
    then obtain err where "efPatch e \<noteq> []"
      "applyPatch env (payload_of r) (efPatch e) (ecMutableFields contract) = Some (Inl err)"
      using assms Inr by (auto simp: tolerated_def split: option.splits sum.splits)
    then show ?thesis
      using Inr None post by (simp add: hook_turn_def HandleHook_def Let_def failure_essence CloneEffect_def)
  qed (use Inr post in \<open>simp add: hook_turn_def HandleHook_def Let_def failure_essence\<close>)
qed

lemma silenced_turn:
  "verdict_essence (hook_turn env (silenced env contract options call) contract options index owned r p) =
   verdict_essence (hook_turn env call contract options index owned r p)"
proof (cases "tolerated env contract options call owned (drEvent r)")
  case True
  then show ?thesis
    using tolerated_turn [OF True] no_effect_answer [of "silenced env contract options call" owned r]
    by (simp add: silenced_def)
next
  case False
  then have "silenced env contract options call owned (drEvent r) = call owned (drEvent r)"
    by (simp add: silenced_def)
  then show ?thesis by (simp add: hook_turn_def HandleHook_def)
qed

lemma dispatch_silenced:
  "dispatch_essence env (silenced env contract options call) contract options index hooks r p =
   dispatch_essence env call contract options index hooks r p"
proof (induction hooks arbitrary: index r p)
  case Nil
  then show ?case by (simp add: dispatch_essence_def)
next
  case (Cons owned hooks)
  note e = silenced_turn [of env contract options call index owned r p]
  have next_same: "dispatch_essence env (silenced env contract options call) contract options (Suc index) hooks r1 p1 =
      dispatch_essence env call contract options (Suc index) hooks r2 p2" if "essence r1 = essence r2" for r1 p1 r2 p2
    using Cons.IH dispatch_essence_cong [OF that] by simp
  show ?case
    unfolding dispatch_essence_Cons using e next_same
    by (cases "hook_turn env (silenced env contract options call) contract options index owned r p";
        cases "hook_turn env call contract options index owned r p") auto
qed

text \<open>
  C14: A tolerated failure is invisible. A failure of a hook on an event is tolerated when
  the event is already committed (a failed call, an invalid effect or a patch that cannot be
  applied) or when it is a failed call and the hook's policy is to continue. Whatever the
  hooks answer, on whichever events they fail or succeed, the dispatch has the outcome it
  would have if each tolerated failure were an empty effect instead: the same event and
  payload, block and proposed actions, the same error or panic, and the same deliveries for
  the subscribers. Only the audit tells the two apart.
\<close>

theorem dispatch_tolerates_failures:
  assumes "map_of (rsEvents sn) (evName event) = Some contract"
  shows "map_option (\<lambda>(s, r, e). (s, drEvent r, drBlock r, drActions r, e))
     (dispatchPreparedEvent env call ctx now (Some sn) event options s) =
   map_option (\<lambda>(s, r, e). (s, drEvent r, drBlock r, drActions r, e))
     (dispatchPreparedEvent env (silenced env contract options call) ctx now (Some sn) event options s)"
proof -
  let ?d = "\<lambda>call. dispatch_hooks env call contract options 0 (run_hooks sn event options) (start_result env event) []"
  have e: "map_option (\<lambda>(r, e). (essence r, e)) (?d call) =
      map_option (\<lambda>(r, e). (essence r, e)) (?d (silenced env contract options call))"
    using dispatch_silenced [of env contract options call 0] by (simp add: dispatch_essence_def)
  show ?thesis
  proof (cases "?d call")
    case None
    then have "?d (silenced env contract options call) = None" using e by (metis option.map_disc_iff)
    then show ?thesis unfolding dispatchPreparedEvent_loop [OF assms] None by simp
  next
    case (Some rx)
    obtain r x where rx: "?d call = Some (r, x)" using Some by (cases rx) simp
    obtain r2 where r2: "?d (silenced env contract options call) = Some (r2, x)" "essence r = essence r2"
      using e [symmetric] unfolding rx by (auto simp: map_option_eq_Some)
    have same: "drEvent r2 = drEvent r" "drBlock r2 = drBlock r" "drActions r2 = drActions r"
      using r2(2) by (simp_all add: essence_def)
    show ?thesis
      unfolding dispatchPreparedEvent_loop [OF assms] rx r2(1)
      by (cases x; cases "enqueueSubscribers ctx now (Some sn) (drEvent r) s"; cases "snd (enqueueSubscribers ctx now (Some sn) (drEvent r) s)")
        (simp_all add: same)
  qed
qed

section \<open>Deliveries around a commit\<close>

lemma validateEffect_none:
  assumes "\<not> AllowsEffect contract" "validateEffect contract e = None"
  shows "efPatch e = [] \<and> efBlock e = None \<and> efAction e = None"
  using assms validateEffect_fields [OF assms(2)]
  by (cases "efPatch e") (auto simp: AllowsEffect_def validateEffect_def result_simps split: option.splits)

lemma no_effect_turn:
  assumes "\<not> AllowsEffect contract" "eoScope options = eventDispatchPostCommit"
  shows "verdict_essence (hook_turn env call contract options index owned r p) = Some (0, essence r, None)"
proof (cases "HandleHook call owned (drEvent r)")
  case (Inr e)
  show ?thesis
  proof (cases "validateEffect contract e")
    case None
    note n = validateEffect_none [OF assms(1) None]
    have "(drEvent r)\<lparr>evPayload := payload_of r\<rparr> = drEvent r" by simp
    then show ?thesis
      using Inr None n by (simp add: hook_turn_def Let_def accept_essence) (simp add: essence_def)
  qed (use Inr assms in \<open>simp add: hook_turn_def Let_def failure_essence\<close>)
qed (use assms in \<open>simp add: hook_turn_def Let_def failure_essence\<close>)

lemma no_effect_dispatch:
  assumes "\<not> AllowsEffect contract" "eoScope options = eventDispatchPostCommit"
  shows "dispatch_essence env call contract options index hooks r p = Some (essence r, None)"
proof (induction hooks arbitrary: index r p)
  case (Cons owned hooks)
  show ?case
    using no_effect_turn [OF assms, of env call index owned r p] Cons.IH
    by (cases "hook_turn env call contract options index owned r p") (auto simp: dispatch_essence_Cons)
qed (simp add: dispatch_essence_def)

text \<open>
  C15: Subscribers get the event once, whichever side of the commit it is sent from. A plan
  either leaves the deliveries to the dispatch after the commit and puts none into the
  outbox of the commit, or the dispatch after the commit succeeds without storing any, and
  the deliveries in the outbox are exactly those that it would have planned: the hooks,
  whatever they answer, have not changed the event, blocked it or proposed an action.
\<close>

theorem post_commit_outbox_exact:
  assumes "preparePostCommitEventPlan env now newID snapshot eventName sessionID payload boundary = Inr plan"
  shows "if pcAfterDispatch (ppDelivery plan) then pcHostOutbox (ppDelivery plan) = []
    else \<exists>r. dispatchPreparedEvent env call ctx later (ppSnapshot plan) (ppEvent plan)
          (postCommitEventDispatchOptions (ppDelivery plan)) s = Some (s, r, None) \<and>
        drEvent r = ppEvent plan \<and> drBlock r = None \<and> drActions r = [] \<and>
        pcHostOutbox (ppDelivery plan) = planSubscriberDeliveries (ppSnapshot plan) (drEvent r) now"
proof -
  obtain event where event: "plan = \<lparr>ppSnapshot = snapshot, ppEvent = event,
      ppDelivery = newPostCommitDelivery now snapshot event boundary\<rparr>"
    using assms by (auto simp: preparePostCommitEventPlan_def split: sum.splits)
  let ?d = "newPostCommitDelivery now snapshot event boundary" and ?o = "postCommitEventDispatchOptions (newPostCommitDelivery now snapshot event boundary)"
  show ?thesis
  proof (cases "pcAfterDispatch ?d")
    case True
    then have "pcHostOutbox ?d = []" by (auto simp: newPostCommitDelivery_def split: if_splits)
    then show ?thesis using event True by simp
  next
    case False
    then have d: "?d = \<lparr>pcAfterDispatch = False, pcHostOutbox = planSubscriberDeliveries snapshot event now\<rparr>"
      "subscriberDeliveryStableBeforeDispatch snapshot (evName event)"
      by (simp_all add: newPostCommitDelivery_def split: if_splits)
    then obtain sn contract where sn: "snapshot = Some sn" "map_of (rsEvents sn) (evName event) = Some contract"
      "\<not> AllowsEffect contract"
      by (auto simp: subscriberDeliveryStableBeforeDispatch_def split: option.splits)
    have o: "eoScope ?o = eventDispatchPostCommit" "\<not> eoEnqueueSubscriberDeliveries ?o"
      by (simp_all add: postCommitEventDispatchOptions_def d(1))
    obtain r where r: "dispatch_hooks env call contract ?o 0 (run_hooks sn event ?o) (start_result env event) [] = Some (r, None)"
      "essence r = essence (start_result env event)"
      using no_effect_dispatch [OF sn(3) o(1), of env call 0 "run_hooks sn event ?o" "start_result env event" "[]"]
      by (auto simp: dispatch_essence_def)
    have "dispatchPreparedEvent env call ctx later (Some sn) event ?o s = Some (s, finalizeDispatchAudit env r, None)"
      unfolding dispatchPreparedEvent_loop [OF sn(2)] using r(1) o(2) by simp
    then show ?thesis
      using False event d(1) r(2) sn(1)
      by (auto simp: essence_def intro!: exI [of _ "finalizeDispatchAudit env r"])
  qed
qed

section \<open>The choice of an action\<close>



lemma CloneAction_kind [simp]: "action.acKind (CloneAction a) = action.acKind a"
  by (simp add: CloneAction_def)




section \<open>A payload that is no object\<close>

text \<open>
  \<open>null\<close> passes the check that a payload encodes as an object, because it decodes into the nil
  map; the first patch then assigns to that map, and the dispatch panics.
\<close>

lemma null_payload_panics:
  assumes "deObject env ''null'' = Inr None" "payload_of r = ''null''"
    and "call h (drEvent r) = Inr \<lparr>efPatch = [(f, v)], efBlock = None, efAction = None\<rparr>"
    and "f \<in> set (ecMutableFields contract)" "json_Valid v"
  shows "marshalEventPayload env (Inr ''null'') = Inr ''null'' \<and>
    dispatch_hooks env call contract options index (h # hooks) r p = None"
proof -
  let ?e = "\<lparr>efPatch = [(f, v)], efBlock = None, efAction = None\<rparr>"
  have "HandleHook call h (drEvent r) = Inr ?e" using assms(3) by (simp add: HandleHook_def CloneEffect_def)
  moreover have "validateEffect contract ?e = None" using assms(4) by (simp add: validateEffect_def result_simps)
  moreover have "applyPatch env ''null'' (efPatch ?e) (ecMutableFields contract) = None"
    using assms(1,4,5) by (simp add: applyPatch_def)
  ultimately have "hook_turn env call contract options index h r p = HookPanic"
    using assms(2) by (simp add: hook_turn_def Let_def)
  then show ?thesis using assms(1) by (simp add: marshalEventPayload_def)
qed

section \<open>An example\<close>

definition env_demo2 :: dispatch_env where
  "env_demo2 = \<lparr>deSum = (\<lambda>p. p),
     deObject = (\<lambda>p. if p = ''{\"a\":1}'' then Inr (Some [(''a'', ''1'')])
        else if p = ''{\"a\":2}'' then Inr (Some [(''a'', ''2'')]) else Inl (Errorf ''json'')),
     deMarshal = (\<lambda>m. if m = [(''a'', ''1'')] then Inr ''{\"a\":1}''
        else if m = [(''a'', ''2'')] then Inr ''{\"a\":2}'' else Inl (Errorf ''json'')),
     deText = (\<lambda>e. ''error''), deTook = (\<lambda>h. 1)\<rparr>"

definition hook_demo :: "string \<Rightarrow> FailurePolicy \<Rightarrow> u64 \<Rightarrow> owned_hook" where
  "hook_demo n policy seq = \<lparr>ohPlugin = ''p'', ohPluginVersion = ''1'',
     ohSpec = \<lparr>hsName = n, hsEvent = ''tool.before'', hsPriority = 500, hsFailurePolicy = policy, hsTimeout = 0\<rparr>, ohSeq = seq\<rparr>"

definition snapshot_demo :: "bool \<Rightarrow> registry_snapshot" where
  "snapshot_demo effects = \<lparr>rsGeneration = 1,
     rsHooks = [(''tool.before'', [hook_demo ''patch'' FailurePolicyFailClosed 1, hook_demo ''broken'' FailurePolicyContinue 2,
        hook_demo ''guard'' FailurePolicyFailClosed 3, hook_demo ''late'' FailurePolicyFailClosed 4])],
     rsSubscribers = [(''log'', \<lparr>obPlugin = ''p'', obPluginVersion = ''1'',
        obSpec = \<lparr>ssName = ''log'', ssEvents = [''tool.before''], ssTimeout = 0\<rparr>, obRevision = []\<rparr>)],
     rsEvents = [(''tool.before'', \<lparr>ecName = ''tool.before'', ecMutableFields = (if effects then [''a''] else []),
        ecAllowBlock = effects, ecAllowAction = False\<rparr>)]\<rparr>"

definition calls_demo :: hook_calls where
  "calls_demo h e = (if hsName (ohSpec h) = ''patch'' then Inr \<lparr>efPatch = [(''a'', ''2'')], efBlock = None, efAction = None\<rparr>
     else if hsName (ohSpec h) = ''guard''
     then Inr \<lparr>efPatch = [], efBlock = Some \<lparr>bkReason = ''no'', bkKind = []\<rparr>, efAction = None\<rparr>
     else Inl (Errorf ''broken''))"

definition event_demo2 :: sdk_event where
  "event_demo2 = \<lparr>evID = ''e1'', evName = ''tool.before'', evSessionID = ''s1'', evGeneration = 1, evPayload = ''{\"a\":1}''\<rparr>"

definition dispatch_demo where
  "dispatch_demo = dispatchPreparedEvent env_demo2 calls_demo None 100 (Some (snapshot_demo True)) event_demo2
     emitEventDispatchOptions newMemoryDeliveryStore"

lemma dispatch_demo_result:
  obtains s' r where "dispatch_demo = Some (s', r, None)" "map haOutcome (steps_of r) =
      [HookAuditPatched, HookAuditError, HookAuditBlocked, HookAuditSkipped]"
    "payload_of r = ''{\"a\":2}''" "length (dsDeliveries s') = 1"
proof -
  have "map_option (\<lambda>(s, r, e). (length (dsDeliveries s), map haOutcome (steps_of r), payload_of r, e)) dispatch_demo =
      Some (1, [HookAuditPatched, HookAuditError, HookAuditBlocked, HookAuditSkipped], ''{\"a\":2}'', None)"
    by code_simp
  then show ?thesis using that by auto
qed

theorem dispatch_audit_complete_witness:
  "\<exists>s' r. dispatch_demo = Some (s', r, None) \<and> length (steps_of r) = 4 \<and>
     audited 0 (run_hooks (snapshot_demo True) event_demo2 emitEventDispatchOptions)
       (eaInputHash (drAudit r)) (steps_of r) (eaOutputHash (drAudit r)) \<and> stopped_at (drBlock r) (steps_of r)"
proof -
  obtain s' r where r: "dispatch_demo = Some (s', r, None)" "map haOutcome (steps_of r) =
      [HookAuditPatched, HookAuditError, HookAuditBlocked, HookAuditSkipped]" by (rule dispatch_demo_result)
  have "length (steps_of r) = 4" using arg_cong [OF r(2), of length] by simp
  then show ?thesis
    using dispatch_audit_complete [OF r(1) [unfolded dispatch_demo_def]] r(1) by auto
qed

definition contract_demo :: event_contract where
  "contract_demo = \<lparr>ecName = ''tool.before'', ecMutableFields = [''a''], ecAllowBlock = True, ecAllowAction = False\<rparr>"

lemma contract_demo_found:
  "map_of (rsEvents (snapshot_demo True)) (evName event_demo2) = Some contract_demo"
  by (simp add: snapshot_demo_def event_demo2_def contract_demo_def)

theorem dispatch_fields_protected_witness:
  "\<exists>s' r. dispatch_demo = Some (s', r, None) \<and> payload_of r = ''{\"a\":2}'' \<and>
     payload_chain env_demo2 contract_demo ''{\"a\":1}'' (steps_of r) ''{\"a\":2}''"
proof -
  obtain s' r where r: "dispatch_demo = Some (s', r, None)" "payload_of r = ''{\"a\":2}''" by (rule dispatch_demo_result)
  from dispatch_fields_protected [OF r(1) [unfolded dispatch_demo_def] contract_demo_found] r show ?thesis
    by (auto simp: event_demo2_def)
qed

text \<open>Before the commit the failed call is tolerated; after it, an invalid effect is too.\<close>

definition calls_demo2 :: hook_calls where
  "calls_demo2 h e = (if hsName (ohSpec h) = ''broken'' then Inr \<lparr>efPatch = [(''b'', ''2'')], efBlock = None, efAction = None\<rparr>
     else calls_demo h e)"

theorem dispatch_tolerates_failures_witness:
  "tolerated env_demo2 contract_demo emitEventDispatchOptions calls_demo (hook_demo ''broken'' FailurePolicyContinue 2) event_demo2 \<and>
   \<not> tolerated env_demo2 contract_demo emitEventDispatchOptions calls_demo2 (hook_demo ''broken'' FailurePolicyContinue 2) event_demo2 \<and>
   (\<exists>s' r. dispatch_demo = Some (s', r, None) \<and>
      map_option (\<lambda>(s, r, e). (s, drEvent r, drBlock r, drActions r, e))
        (dispatchPreparedEvent env_demo2 (silenced env_demo2 contract_demo emitEventDispatchOptions calls_demo) None 100
           (Some (snapshot_demo True)) event_demo2 emitEventDispatchOptions newMemoryDeliveryStore) =
      Some (s', drEvent r, drBlock r, drActions r, None))"
proof -
  obtain s' r where r: "dispatch_demo = Some (s', r, None)" by (rule dispatch_demo_result)
  have "tolerated env_demo2 contract_demo emitEventDispatchOptions calls_demo (hook_demo ''broken'' FailurePolicyContinue 2) event_demo2"
    by code_simp
  moreover have "\<not> tolerated env_demo2 contract_demo emitEventDispatchOptions calls_demo2 (hook_demo ''broken'' FailurePolicyContinue 2) event_demo2"
    by code_simp
  moreover note same = dispatch_tolerates_failures [OF contract_demo_found, of env_demo2 calls_demo None 100
      emitEventDispatchOptions newMemoryDeliveryStore, unfolded r [unfolded dispatch_demo_def] option.map prod.case]
  ultimately show ?thesis by (intro conjI exI [of _ s'] exI [of _ r] r same [symmetric])
qed

theorem post_commit_outbox_exact_witness:
  "\<exists>plan r. preparePostCommitEventPlan env_demo2 100 ''e1'' (Some (snapshot_demo False)) ''tool.before'' ''s1''
       (Inr ''{\"a\":1}'') BoundaryHostOutbox = Inr plan \<and>
     dispatchPreparedEvent env_demo2 calls_demo None 200 (ppSnapshot plan) (ppEvent plan)
       (postCommitEventDispatchOptions (ppDelivery plan)) newMemoryDeliveryStore = Some (newMemoryDeliveryStore, r, None) \<and>
     length (pcHostOutbox (ppDelivery plan)) = 1 \<and>
     pcHostOutbox (ppDelivery plan) = planSubscriberDeliveries (ppSnapshot plan) (drEvent r) 100"
proof -
  have "map_sum id (\<lambda>plan. (pcAfterDispatch (ppDelivery plan), length (pcHostOutbox (ppDelivery plan))))
      (preparePostCommitEventPlan env_demo2 100 ''e1'' (Some (snapshot_demo False)) ''tool.before'' ''s1''
       (Inr ''{\"a\":1}'') BoundaryHostOutbox) = Inr (False, 1)"
    by code_simp
  then obtain plan where p: "preparePostCommitEventPlan env_demo2 100 ''e1'' (Some (snapshot_demo False)) ''tool.before'' ''s1''
       (Inr ''{\"a\":1}'') BoundaryHostOutbox = Inr plan" "\<not> pcAfterDispatch (ppDelivery plan)"
      "length (pcHostOutbox (ppDelivery plan)) = 1"
    by (cases "preparePostCommitEventPlan env_demo2 100 ''e1'' (Some (snapshot_demo False)) ''tool.before'' ''s1''
       (Inr ''{\"a\":1}'') BoundaryHostOutbox") auto
  then show ?thesis
    using post_commit_outbox_exact [OF p(1), of calls_demo None 200 newMemoryDeliveryStore] by auto
qed


end
