(* ===== verification/Go_Json_Text.thy ===== *)
theory Go_Json_Text
  imports Resource_Names Go_Json
begin

text \<open>
  \<open>json.Marshal\<close> of strings: UTF-8 bytes, with the characters that HTML or JavaScript treat
  specially escaped and bytes that are not UTF-8 replaced. Reading the result back gives the
  string with its bad bytes replaced, so the encoding is injective on valid text.
\<close>

section \<open>UTF-8\<close>

abbreviation cont :: "char \<Rightarrow> bool" where
  "cont c \<equiv> CHR 0x80 \<le> c \<and> c \<le> CHR 0xBF"

definition rune2 :: "char \<Rightarrow> char \<Rightarrow> bool" where
  "rune2 a b \<longleftrightarrow> CHR 0xC2 \<le> a \<and> a \<le> CHR 0xDF \<and> cont b"

definition rune3 :: "char \<Rightarrow> char \<Rightarrow> char \<Rightarrow> bool" where
  "rune3 a b c \<longleftrightarrow> CHR 0xE0 \<le> a \<and> a \<le> CHR 0xEF \<and> cont b \<and> cont c \<and>
     (a = CHR 0xE0 \<longrightarrow> CHR 0xA0 \<le> b) \<and> (a = CHR 0xED \<longrightarrow> b \<le> CHR 0x9F)"

definition rune4 :: "char \<Rightarrow> char \<Rightarrow> char \<Rightarrow> char \<Rightarrow> bool" where
  "rune4 a b c d \<longleftrightarrow> CHR 0xF0 \<le> a \<and> a \<le> CHR 0xF4 \<and> cont b \<and> cont c \<and> cont d \<and>
     (a = CHR 0xF0 \<longrightarrow> CHR 0x90 \<le> b) \<and> (a = CHR 0xF4 \<longrightarrow> b \<le> CHR 0x8F)"

text \<open>
  The size of the rune that \<open>utf8.DecodeRuneInString\<close> finds at the front of a string that
  starts with a byte above 0x7F; 0 stands for \<open>RuneError\<close> of size 1.
\<close>

fun rune_size :: "string \<Rightarrow> nat" where
  "rune_size (a # b # c # d # r) =
     (if rune2 a b then 2 else if rune3 a b c then 3 else if rune4 a b c d then 4 else 0)"
| "rune_size [a, b, c] = (if rune2 a b then 2 else if rune3 a b c then 3 else 0)"
| "rune_size [a, b] = (if rune2 a b then 2 else 0)"
| "rune_size s = 0"

text \<open>The bytes that \<open>utf8.AppendRune\<close> adds for a code point below 0x10000 that is not a surrogate.\<close>

definition rune_bytes :: "nat \<Rightarrow> string" where
  "rune_bytes n =
     (if n < 0x80 then [char_of n]
      else if n < 0x800 then [char_of (0xC0 + n div 64), char_of (0x80 + n mod 64)]
      else [char_of (0xE0 + n div 4096), char_of (0x80 + n div 64 mod 64), char_of (0x80 + n mod 64)])"

lemma rune_bytes_3:
  "rune_bytes 0x2028 = [CHR 0xE2, CHR 0x80, CHR 0xA8]" "rune_bytes 0x2029 = [CHR 0xE2, CHR 0x80, CHR 0xA9]"
  "rune_bytes 0xFFFD = [CHR 0xEF, CHR 0xBF, CHR 0xBD]"
  by (simp_all add: rune_bytes_def char_of_def bit_0)

lemma rune_size_le: "rune_size s \<le> length s"
  by (induction s rule: rune_size.induct) auto

text \<open>The bytes of a rune say where it ends.\<close>

lemma rune_size_take:
  assumes "rune_size s = n" "n \<noteq> 0"
  shows "rune_size (take n s @ r) = n"
proof -
  have "rune_size (a # b # r) = 2" if "rune2 a b" for a b r
    using that by (cases r; cases "tl r") auto
  moreover have "rune_size (a # b # c # r) = 3" if "\<not> rune2 a b" "rune3 a b c" for a b c r
    using that by (cases r) auto
  ultimately show ?thesis
    using assms by (cases s rule: rune_size.cases) (auto split: if_splits simp: numeral_eq_Suc)
qed

section \<open>Quoting\<close>

definition hex4 :: "nat \<Rightarrow> string" where
  "hex4 n = [hextable ! (n div 4096 mod 16), hextable ! (n div 256 mod 16), hextable ! (n div 16 mod 16), hextable ! (n mod 16)]"

definition htmlSafe :: "char \<Rightarrow> bool" where
  "htmlSafe c \<longleftrightarrow> CHR 0x20 \<le> c \<and> c \<le> CHR 0x7F \<and> c \<notin> {CHR 0x22, CHR ''&'', CHR ''<'', CHR ''>'', CHR 0x5C}"

definition escape_byte :: "char \<Rightarrow> string" where
  "escape_byte c =
     (if htmlSafe c then [c]
      else if c = CHR 0x5C \<or> c = CHR 0x22 then [CHR 0x5C, c]
      else if c = CHR 0x08 then [CHR 0x5C, CHR ''b'']
      else if c = CHR 0x0C then [CHR 0x5C, CHR ''f'']
      else if c = CHR 0x0A then [CHR 0x5C, CHR ''n'']
      else if c = CHR 0x0D then [CHR 0x5C, CHR ''r'']
      else if c = CHR 0x09 then [CHR 0x5C, CHR ''t'']
      else CHR 0x5C # CHR ''u'' # hex4 (of_char c))"

definition line_separators :: "string list" where
  "line_separators = [rune_bytes 0x2028, rune_bytes 0x2029]"

function escape_string :: "string \<Rightarrow> string" where
  "escape_string [] = []"
| "escape_string (c # s) =
     (if c < CHR 0x80 then escape_byte c @ escape_string s
      else let n = rune_size (c # s) in
        if n = 0 then CHR 0x5C # CHR ''u'' # hex4 0xFFFD @ escape_string s
        else (if take n (c # s) = rune_bytes 0x2028 then CHR 0x5C # CHR ''u'' # hex4 0x2028
              else if take n (c # s) = rune_bytes 0x2029 then CHR 0x5C # CHR ''u'' # hex4 0x2029
              else take n (c # s)) @ escape_string (drop n (c # s)))"
  by pat_completeness auto
termination by (relation "measure length") auto

definition json_string :: "string \<Rightarrow> string" where
  "json_string s = CHR 0x22 # escape_string s @ [CHR 0x22]"

section \<open>Reading\<close>

fun unhex :: "char \<Rightarrow> nat option" where
  "unhex c =
     (if CHR ''0'' \<le> c \<and> c \<le> CHR ''9'' then Some (of_char c - 48)
      else if CHR ''a'' \<le> c \<and> c \<le> CHR ''f'' then Some (of_char c - 87) else None)"

definition unhex4 :: "char \<Rightarrow> char \<Rightarrow> char \<Rightarrow> char \<Rightarrow> nat option" where
  "unhex4 a b c d =
     (case (unhex a, unhex b, unhex c, unhex d) of
        (Some a, Some b, Some c, Some d) \<Rightarrow> Some (((a * 16 + b) * 16 + c) * 16 + d)
      | _ \<Rightarrow> None)"

definition unescape :: "char \<Rightarrow> char option" where
  "unescape c =
     (if c \<in> {CHR 0x22, CHR 0x5C, CHR ''/''} then Some c
      else if c = CHR ''b'' then Some (CHR 0x08) else if c = CHR ''f'' then Some (CHR 0x0C)
      else if c = CHR ''n'' then Some (CHR 0x0A) else if c = CHR ''r'' then Some (CHR 0x0D)
      else if c = CHR ''t'' then Some (CHR 0x09) else None)"

text \<open>One character of a quoted string and what follows it.\<close>

definition read_char :: "string \<Rightarrow> (string \<times> string) option" where
  "read_char s =
     (case s of
        [] \<Rightarrow> None
      | c # s' \<Rightarrow>
          if c = CHR 0x5C then
            (case s' of
               [] \<Rightarrow> None
             | e # r \<Rightarrow>
                 if e = CHR ''u'' then
                   (case r of h1 # h2 # h3 # h4 # r \<Rightarrow> map_option (\<lambda>n. (rune_bytes n, r)) (unhex4 h1 h2 h3 h4) | _ \<Rightarrow> None)
                 else map_option (\<lambda>c. ([c], r)) (unescape e))
          else if c < CHR 0x80 then Some ([c], s')
          else if rune_size s = 0 then None
          else Some (take (rune_size s) s, drop (rune_size s) s))"

text \<open>The characters up to the closing quote; a character takes at least a byte, so the length is fuel enough.\<close>

fun read_chars :: "nat \<Rightarrow> string \<Rightarrow> (string \<times> string) option" where
  "read_chars 0 s = None"
| "read_chars (Suc k) s =
     (case s of
        [] \<Rightarrow> None
      | c # r \<Rightarrow>
          if c = CHR 0x22 then Some ([], r)
          else case read_char s of
            None \<Rightarrow> None
          | Some (bytes, r) \<Rightarrow> map_option (\<lambda>(t, r). (bytes @ t, r)) (read_chars k r))"

definition read_string :: "string \<Rightarrow> (string \<times> string) option" where
  "read_string s = (case s of c # r \<Rightarrow> if c = CHR 0x22 then read_chars (length r) r else None | [] \<Rightarrow> None)"

section \<open>The round trip\<close>

text \<open>\<open>strings.ToValidUTF8\<close> with the replacement character, byte by byte.\<close>

function coerce_utf8 :: "string \<Rightarrow> string" where
  "coerce_utf8 [] = []"
| "coerce_utf8 (c # s) =
     (if c < CHR 0x80 then c # coerce_utf8 s
      else let n = rune_size (c # s) in
        if n = 0 then rune_bytes 0xFFFD @ coerce_utf8 s
        else take n (c # s) @ coerce_utf8 (drop n (c # s)))"
  by pat_completeness auto
termination by (relation "measure length") auto

definition valid_utf8 :: "string \<Rightarrow> bool" where
  "valid_utf8 s \<longleftrightarrow> coerce_utf8 s = s"

declare escape_string.simps [simp del] coerce_utf8.simps [simp del]

lemma unhex_hextable: "i < 16 \<Longrightarrow> unhex (hextable ! i) = Some i"
proof -
  assume "i < 16"
  moreover have "list_all (\<lambda>i. unhex (hextable ! i) = Some i) [0..<16]" by code_simp
  ultimately show ?thesis by (simp add: list_all_iff)
qed

lemma unhex4_hex4:
  assumes "n < 65536" "hex4 n = [a, b, c, d]"
  shows "unhex4 a b c d = Some n"
proof -
  have abcd: "a = hextable ! (n div 4096 mod 16)" "b = hextable ! (n div 256 mod 16)" "c = hextable ! (n div 16 mod 16)"
    "d = hextable ! (n mod 16)" using assms(2) by (simp_all add: hex4_def)
  have "n div 256 = n div 16 div 16" "n div 4096 = n div 16 div 16 div 16" by (simp_all flip: div_mult2_eq)
  moreover have "n div 4096 mod 16 = n div 4096" using assms(1) by (intro mod_less) simp
  ultimately have "((n div 4096 mod 16 * 16 + n div 256 mod 16) * 16 + n div 16 mod 16) * 16 + n mod 16 = n"
    by (simp only: div_mult_mod_eq)
  moreover have "unhex a = Some (n div 4096 mod 16)" "unhex b = Some (n div 256 mod 16)" "unhex c = Some (n div 16 mod 16)"
    "unhex d = Some (n mod 16)"
    unfolding abcd by (simp_all add: unhex_hextable del: unhex.simps)
  ultimately show ?thesis by (simp only: unhex4_def prod.case option.case)
qed

lemma read_char_hex4: "n < 65536 \<Longrightarrow> read_char (CHR 0x5C # CHR ''u'' # hex4 n @ r) = Some (rune_bytes n, r)"
  using unhex4_hex4 [of n] by (simp add: read_char_def hex4_def)

lemma read_char_escape_byte:
  assumes "c < CHR 0x80"
  shows "read_char (escape_byte c @ r) = Some ([c], r)"
proof (cases "htmlSafe c \<or> c \<in> {CHR 0x5C, CHR 0x22, CHR 0x08, CHR 0x0C, CHR 0x0A, CHR 0x0D, CHR 0x09}")
  case True
  then show ?thesis using assms by (auto simp: escape_byte_def read_char_def unescape_def htmlSafe_def)
next
  case False
  have c: "of_char c < (128::nat)" using assms by (simp add: less_char_def)
  have "escape_byte c = CHR 0x5C # CHR ''u'' # hex4 (of_char c)" using False by (simp add: escape_byte_def)
  moreover have "rune_bytes (of_char c) = [c]" using c by (simp add: rune_bytes_def)
  ultimately show ?thesis using read_char_hex4 [of "of_char c" r] c by simp
qed

lemma escape_byte_head: "c < CHR 0x80 \<Longrightarrow> \<exists>d r. escape_byte c = d # r \<and> d \<noteq> CHR 0x22"
  by (auto simp: escape_byte_def htmlSafe_def)

lemma read_chars_step:
  assumes "read_char (x @ s) = Some (b, s)" "x = d # y" "d \<noteq> CHR 0x22" "read_chars k s = Some (t, r)"
  shows "read_chars (Suc k) (x @ s) = Some (b @ t, r)"
  using assms by simp

lemma read_chars_escape:
  "length (escape_string s) < k \<Longrightarrow> read_chars k (escape_string s @ CHR 0x22 # r) = Some (coerce_utf8 s, r)"
proof (induction s arbitrary: k rule: escape_string.induct)
  case 1
  then show ?case by (cases k) (simp_all add: escape_string.simps coerce_utf8.simps)
next
  case (2 c s)
  from 2(4) obtain m where k: "k = Suc m" by (cases k) simp_all
  show ?case
  proof (cases "c < CHR 0x80")
    case True
    obtain d x where d: "escape_byte c = d # x" "d \<noteq> CHR 0x22" using escape_byte_head [OF True] by blast
    have "read_chars m (escape_string s @ CHR 0x22 # r) = Some (coerce_utf8 s, r)"
      using 2(1) [OF True, of m] 2(4) k d True by (simp add: escape_string.simps)
    then show ?thesis
      using read_chars_step [OF read_char_escape_byte [OF True] d] True
      by (simp add: k escape_string.simps coerce_utf8.simps)
  next
    case high: False
    let ?n = "rune_size (c # s)"
    show ?thesis
    proof (cases "?n = 0")
      case True
      let ?bad = "CHR 0x5C # CHR ''u'' # hex4 0xFFFD"
      have e: "escape_string (c # s) = ?bad @ escape_string s" "coerce_utf8 (c # s) = rune_bytes 0xFFFD @ coerce_utf8 s"
        using high True by (simp_all add: escape_string.simps coerce_utf8.simps)
      have "read_chars m (escape_string s @ CHR 0x22 # r) = Some (coerce_utf8 s, r)"
        using 2(2) [OF high refl True, of m] 2(4) k by (simp add: e)
      then show ?thesis
        unfolding e k append_assoc
          by (rule read_chars_step [rotated 3, where d = "CHR 0x5C"]) (simp_all add: read_char_hex4)
    next
      case False
      let ?x = "take ?n (c # s)" and ?rest = "drop ?n (c # s)"
      define y where "y = (if ?x = rune_bytes 0x2028 then CHR 0x5C # CHR ''u'' # hex4 0x2028
              else if ?x = rune_bytes 0x2029 then CHR 0x5C # CHR ''u'' # hex4 0x2029 else ?x)"
      have e: "escape_string (c # s) = y @ escape_string ?rest" "coerce_utf8 (c # s) = ?x @ coerce_utf8 ?rest"
        using high False by (simp_all add: escape_string.simps coerce_utf8.simps y_def Let_def)
      have x: "?x = c # take (?n - 1) s" using False by (cases ?n) simp_all
      have c: "c \<noteq> CHR 0x22" "c \<noteq> CHR 0x5C" using high by auto
      have y: "read_char (y @ t) = Some (?x, t)" for t
      proof (cases "?x = rune_bytes 0x2028 \<or> ?x = rune_bytes 0x2029")
        case True
        moreover have "rune_bytes 0x2028 \<noteq> rune_bytes 0x2029" by (simp add: rune_bytes_3)
        ultimately have "\<exists>n\<in>{0x2028, 0x2029}. ?x = rune_bytes n \<and> y = CHR 0x5C # CHR ''u'' # hex4 n" unfolding y_def by auto
        then obtain n where "?x = rune_bytes n" "y = CHR 0x5C # CHR ''u'' # hex4 n" "n < 65536" by auto
        then show ?thesis using read_char_hex4 [of n t] by simp
      next
        case plain: False
        have "rune_size (?x @ t) = ?n" by (rule rune_size_take [OF refl False])
        moreover have "length ?x = ?n" using rune_size_le [of "c # s"] by simp
        ultimately have "take (rune_size (?x @ t)) (?x @ t) = ?x" "drop (rune_size (?x @ t)) (?x @ t) = t" "rune_size (?x @ t) \<noteq> 0"
          using False by simp_all
        then show ?thesis using plain high c unfolding y_def x by (simp add: read_char_def)
      qed
      obtain d z where d: "y = d # z" "d \<noteq> CHR 0x22" using c x by (cases y) (auto simp: y_def split: if_splits)
      have "read_chars m (escape_string ?rest @ CHR 0x22 # r) = Some (coerce_utf8 ?rest, r)"
        using 2(3) [OF high refl False, of m] 2(4) k d by (simp add: e)
      then show ?thesis using read_chars_step [OF y d] by (simp only: e k append_assoc)
    qed
  qed
qed

lemma read_string_json: "read_string (json_string s @ r) = Some (coerce_utf8 s, r)"
  by (simp add: read_string_def json_string_def read_chars_escape del: read_chars.simps)

lemma json_string_inject: "json_string s @ r = json_string t @ q \<longleftrightarrow> json_string s = json_string t \<and> r = q"
  by (metis read_string_json option.inject prod.inject append_same_eq)

text \<open>Strings with the same encoding agree up to bytes that are not UTF-8.\<close>

lemma json_string_eq_coerce: "json_string s = json_string t \<Longrightarrow> coerce_utf8 s = coerce_utf8 t"
proof -
  assume eq: "json_string s = json_string t"
  have "Some (coerce_utf8 s, []) = Some (coerce_utf8 t, [] :: string)"
    unfolding read_string_json [of s "[]", symmetric] read_string_json [of t "[]", symmetric] eq by (rule refl)
  then show ?thesis by simp
qed

lemma json_string_eq_valid: "valid_utf8 s \<Longrightarrow> valid_utf8 t \<Longrightarrow> json_string s = json_string t \<longleftrightarrow> s = t"
  using json_string_eq_coerce [of s t] by (auto simp: valid_utf8_def)

lemma coerce_utf8_rune:
  assumes "rune_size x = length x" "x = c # y" "\<not> c < CHR 0x80"
  shows "coerce_utf8 (x @ t) = x @ coerce_utf8 t"
proof -
  have "rune_size (x @ t) = length x" using rune_size_take [OF assms(1), of t] assms(2) by simp
  then show ?thesis using assms(2,3) coerce_utf8.simps(2) [of c "y @ t"] by (simp add: Let_def)
qed

lemma coerce_utf8_idem: "coerce_utf8 (coerce_utf8 s) = coerce_utf8 s"
proof (induction s rule: coerce_utf8.induct)
  case (2 c s)
  show ?case
  proof (cases "c < CHR 0x80")
    case True
    then show ?thesis using 2(1) by (simp add: coerce_utf8.simps)
  next
    case high: False
    let ?n = "rune_size (c # s)"
    show ?thesis
    proof (cases "?n = 0")
      case True
      have "rune_size (rune_bytes 0xFFFD) = length (rune_bytes 0xFFFD)" "rune_bytes 0xFFFD = CHR 0xEF # CHR 0xBF # [CHR 0xBD]"
        by (simp_all add: rune_bytes_3 rune2_def rune3_def)
      then have "coerce_utf8 (rune_bytes 0xFFFD @ coerce_utf8 s) = rune_bytes 0xFFFD @ coerce_utf8 (coerce_utf8 s)"
        by (intro coerce_utf8_rune) auto
      then show ?thesis using 2(2) [OF high refl True] high True by (simp add: coerce_utf8.simps)
    next
      case False
      have "rune_size (take ?n (c # s)) = length (take ?n (c # s))"
        using rune_size_take [OF refl False, of "[]"] rune_size_le [of "c # s"] by simp
      then have "coerce_utf8 (take ?n (c # s) @ t) = take ?n (c # s) @ coerce_utf8 t" for t
        using high False by (intro coerce_utf8_rune [of _ c "take (?n - 1) s"]) (simp_all add: take_Cons')
      then show ?thesis using 2(3) [OF high refl False] high False by (simp add: coerce_utf8.simps(2) [of c s] Let_def)
    qed
  qed
qed (simp add: coerce_utf8.simps)

text \<open>
  Reading a string that \<open>json.Marshal\<close> wrote gives the string back, with every byte that is
  not UTF-8 replaced by U+FFFD; valid text survives the round trip unchanged, and the closing
  quote is found whatever follows.
\<close>

theorem json_string_roundtrip:
  "read_string (json_string s @ r) = Some (coerce_utf8 s, r) \<and> coerce_utf8 (coerce_utf8 s) = coerce_utf8 s"
  by (simp add: read_string_json coerce_utf8_idem)

end
