(* ===== verification/Gateway_Interactions.thy ===== *)
theory Gateway_Interactions
  imports Gateway_Inputs Gateway_Notify Go_Json_Text Stores
begin

text \<open>
  Questions to the user: the transitions of \<open>gateway/interaction.go\<close> on one session's stream
  and the store of \<open>gateway/interaction_store_memory.go\<close>. An interaction is created pending
  and answered or cancelled once, by a caller that knows its revision. The Go code writes the
  changed interaction into the slice in place; the model returns the new list.
\<close>

section \<open>Data\<close>

datatype InteractionKind = InteractionQuestion | InteractionConfirmation | InteractionPermission | InteractionKindOther string

datatype InteractionState = InteractionPending | InteractionResolved | InteractionCancelled | InteractionStateOther string

definition it_Terminal :: "InteractionState \<Rightarrow> bool" where
  "it_Terminal st \<longleftrightarrow> st = InteractionResolved \<or> st = InteractionCancelled"

record interaction_option =
  ioID :: string
  ioLabel :: string
  ioDescription :: string

record interaction_answer =
  iaOptionID :: string
  iaText :: string

record interaction =
  itID :: string
  itSessionID :: string
  itExecutionID :: string
  itSequence :: u64
  itKind :: InteractionKind
  itPrompt :: string
  itOptions :: "interaction_option list"
  itState :: InteractionState
  itAnswer :: "interaction_answer option"
  itRevision :: u64
  itCreatedAt :: gotime
  itUpdatedAt :: gotime

record interaction_query =
  nqAfter :: u64
  nqLimit :: int
  nqState :: InteractionState

record interaction_page =
  ipItems :: "interaction list"
  ipNext :: u64

record interaction_stream =
  tsNextSequence :: u64
  tsItems :: "interaction list"

definition no_interactions :: interaction_stream where
  "no_interactions = \<lparr>tsNextSequence = 0, tsItems = []\<rparr>"

section \<open>Normalisation\<close>

text \<open>The loop over the options; the IDs seen so far are distinct.\<close>

fun normalize_options :: "string list \<Rightarrow> interaction_option list \<Rightarrow> interaction_option list result" where
  "normalize_options seen [] = Inr []"
| "normalize_options seen (x # xs) =
     (let x = \<lparr>ioID = TrimSpace (ioID x), ioLabel = TrimSpace (ioLabel x), ioDescription = TrimSpace (ioDescription x)\<rparr> in
      check (ValidateResourceName ''gateway interaction option'' (ioID x))
      (check (reject_if (ioLabel x = []) (Errorf ''gateway interaction option label is empty''))
      (check (reject_if (ioID x \<in> set seen) (Errorf ''gateway interaction contains duplicate option %q''))
      (bind_result (normalize_options (ioID x # seen) xs) (\<lambda>xs. Inr (x # xs))))))"

definition normalizeInteraction :: "string \<Rightarrow> interaction \<Rightarrow> interaction result" where
  "normalizeInteraction newID v =
     (let v = v\<lparr>itID := TrimSpace (itID v)\<rparr>;
          v = (if itID v = [] then v\<lparr>itID := newID\<rparr> else v) in
      check (ValidateResourceName ''gateway interaction'' (itID v))
      (bind_result (normalizeEventSessionID (itSessionID v)) (\<lambda>sid.
       let v = v\<lparr>itSessionID := sid, itExecutionID := TrimSpace (itExecutionID v)\<rparr> in
       check (ValidateResourceName ''gateway interaction execution'' (itExecutionID v))
       (let v = (if itKind v = InteractionKindOther [] then v\<lparr>itKind := InteractionQuestion\<rparr> else v) in
        check (case itKind v of InteractionKindOther k \<Rightarrow> Some (Errorf ''unknown gateway interaction kind %q'') | _ \<Rightarrow> None)
        (let v = v\<lparr>itPrompt := TrimSpace (itPrompt v)\<rparr> in
         check (reject_if (itPrompt v = []) (Errorf ''gateway interaction prompt is empty''))
         (bind_result (normalize_options [] (itOptions v)) (\<lambda>opts. Inr (v\<lparr>itOptions := opts\<rparr>))))))))"

definition defaultInteractionPageSize :: int where "defaultInteractionPageSize = 100"
definition maxInteractionPageSize :: int where "maxInteractionPageSize = 1000"

definition normalizeInteractionQuery :: "interaction_query \<Rightarrow> interaction_query result" where
  "normalizeInteractionQuery query =
     (let query = (if nqLimit query = 0 then query\<lparr>nqLimit := defaultInteractionPageSize\<rparr> else query) in
      check (reject_if (nqLimit query < 1 \<or> nqLimit query > maxInteractionPageSize)
        (Errorf ''gateway interaction page limit must be between 1 and %d''))
      (check (case nqState query of InteractionStateOther s \<Rightarrow>
          reject_if (s \<noteq> []) (Errorf ''unknown gateway interaction state %q'') | _ \<Rightarrow> None)
       (Inr query)))"

section \<open>The JSON of a request\<close>

text \<open>
  \<open>json.Marshal\<close> of the anonymous struct with the kind, the prompt and the options. An
  option's description is left out when it is empty; no options are a nil slice.
\<close>

definition kind_text :: "InteractionKind \<Rightarrow> string" where
  "kind_text k = (case k of InteractionQuestion \<Rightarrow> ''question'' | InteractionConfirmation \<Rightarrow> ''confirmation''
     | InteractionPermission \<Rightarrow> ''permission'' | InteractionKindOther s \<Rightarrow> s)"

definition json_field :: "string \<Rightarrow> string \<Rightarrow> string" where
  "json_field name v = json_string name @ '':'' @ v"

definition option_json :: "interaction_option \<Rightarrow> string" where
  "option_json x = ''{'' @ json_field ''id'' (json_string (ioID x)) @ '','' @ json_field ''label'' (json_string (ioLabel x)) @
     (if ioDescription x = [] then [] else '','' @ json_field ''description'' (json_string (ioDescription x))) @ ''}''"

fun options_json :: "interaction_option list \<Rightarrow> string" where
  "options_json [] = '']''"
| "options_json [x] = option_json x @ '']''"
| "options_json (x # xs) = option_json x @ '','' @ options_json xs"

definition request_json :: "interaction \<Rightarrow> string" where
  "request_json v = ''{'' @ json_field ''Kind'' (json_string (kind_text (itKind v))) @ '','' @
     json_field ''Prompt'' (json_string (itPrompt v)) @ '','' @
     json_field ''Options'' (if itOptions v = [] then ''null'' else ''['' @ options_json (itOptions v)) @ ''}''"

section \<open>Transitions of a stream\<close>

definition createInteraction ::
  "interaction_stream \<Rightarrow> interaction \<Rightarrow> gotime \<Rightarrow> (interaction_stream \<times> interaction \<times> bool) result" where
  "createInteraction stream v now =
     (case find (\<lambda>current. itID current = itID v) (tsItems stream) of
        Some current \<Rightarrow>
          if request_json current = request_json v \<and> itSessionID current = itSessionID v \<and>
             itExecutionID current = itExecutionID v
          then Inr (stream, current, False)
          else Inl (Wrapf ErrInteractionConflict ''%w: interaction ID %s was reused'')
      | None \<Rightarrow>
          let stream = (if tsNextSequence stream = 0 then stream\<lparr>tsNextSequence := 1\<rparr> else stream);
              v = v\<lparr>itSequence := tsNextSequence stream, itState := InteractionPending, itAnswer := None, itRevision := 1,
                    itCreatedAt := now, itUpdatedAt := now\<rparr>
          in Inr (stream\<lparr>tsNextSequence := tsNextSequence stream + 1, tsItems := tsItems stream @ [v]\<rparr>, v, True))"

text \<open>The loop of \<open>listInteractions\<close>; \<open>n\<close> is the room left on the page.\<close>

fun list_interactions :: "interaction_query \<Rightarrow> nat \<Rightarrow> interaction list \<Rightarrow> interaction list" where
  "list_interactions query n [] = []"
| "list_interactions query n (x # xs) =
     (if itSequence x \<le> nqAfter query \<or> nqState query \<noteq> InteractionStateOther [] \<and> itState x \<noteq> nqState query
      then list_interactions query n xs
      else if n = 1 then [x] else x # list_interactions query (n - 1) xs)"

definition listInteractions :: "interaction_stream \<Rightarrow> interaction_query \<Rightarrow> interaction_page" where
  "listInteractions stream query =
     (let items = list_interactions query (nat (nqLimit query)) (tsItems stream) in
      \<lparr>ipItems = items, ipNext = (if items \<noteq> [] then itSequence (last items) else 0)\<rparr>)"

definition resolveInteraction ::
  "interaction_stream \<Rightarrow> string \<Rightarrow> u64 \<Rightarrow> interaction_answer \<Rightarrow> gotime \<Rightarrow> (interaction_stream \<times> interaction \<times> bool) result" where
  "resolveInteraction stream i expectedRevision answer now =
     (let answer = \<lparr>iaOptionID = TrimSpace (iaOptionID answer), iaText = TrimSpace (iaText answer)\<rparr> in
      update_first (\<lambda>x. itID x = i)
        (\<lambda>x. if itRevision x \<noteq> expectedRevision
             then Inl (Wrapf ErrInteractionConflict ''%w: interaction %s has revision %d, expected %d'')
             else if itState x \<noteq> InteractionPending then Inl (Wrapf ErrInteractionConflict ''%w: interaction %s is %s'')
             else if iaOptionID answer = [] \<and> iaText answer = [] then Inl (Errorf ''gateway interaction answer is empty'')
             else if iaOptionID answer \<noteq> [] \<and> \<not> list_ex (\<lambda>opt. ioID opt = iaOptionID answer) (itOptions x)
             then Inl (Errorf ''gateway interaction option %q is unavailable'')
             else Inr (x\<lparr>itState := InteractionResolved, itAnswer := Some answer, itRevision := itRevision x + 1,
                         itUpdatedAt := now\<rparr>, True))
        (Inl (Wrapf ErrInteractionNotFound ''%w: %s''))
        (\<lambda>xs x changed. (stream\<lparr>tsItems := xs\<rparr>, x, changed))
        (tsItems stream))"

definition cancelInteraction ::
  "interaction_stream \<Rightarrow> string \<Rightarrow> u64 \<Rightarrow> gotime \<Rightarrow> (interaction_stream \<times> interaction \<times> bool) result" where
  "cancelInteraction stream i expectedRevision now =
     update_first (\<lambda>x. itID x = i)
       (\<lambda>x. if itRevision x \<noteq> expectedRevision
            then Inl (Wrapf ErrInteractionConflict ''%w: interaction %s has revision %d, expected %d'')
            else if itState x \<noteq> InteractionPending then Inl (Wrapf ErrInteractionConflict ''%w: interaction %s is %s'')
            else Inr (x\<lparr>itState := InteractionCancelled, itAnswer := None, itRevision := itRevision x + 1, itUpdatedAt := now\<rparr>, True))
       (Inl (Wrapf ErrInteractionNotFound ''%w: %s''))
       (\<lambda>xs x changed. (stream\<lparr>tsItems := xs\<rparr>, x, changed))
       (tsItems stream)"

definition getInteraction :: "interaction_stream \<Rightarrow> string \<Rightarrow> interaction result" where
  "getInteraction stream i =
     (case find (\<lambda>x. itID x = i) (tsItems stream) of
        Some x \<Rightarrow> Inr x | None \<Rightarrow> Inl (Wrapf ErrInteractionNotFound ''%w: %s''))"

section \<open>The store\<close>

record interaction_store =
  isnStreams :: "interaction_stream gomap"
  isnNotify :: notify
  isnClosed :: bool

definition NewMemoryInteractionStore :: interaction_store where
  "NewMemoryInteractionStore = \<lparr>isnStreams = [], isnNotify = no_notify, isnClosed = False\<rparr>"

definition interactions_of :: "interaction_store \<Rightarrow> string \<Rightarrow> interaction_stream" where
  "interactions_of s sid = (case map_of (isnStreams s) sid of Some st \<Rightarrow> st | None \<Rightarrow> no_interactions)"

text \<open>The end that the three mutations share: store the stream and signal when it changed.\<close>

definition it_put ::
  "string \<Rightarrow> (interaction_stream \<times> interaction \<times> bool) result \<Rightarrow> interaction_store \<Rightarrow> (interaction_store \<times> interaction result) option" where
  "it_put sid r s =
     (case r of
        Inl e \<Rightarrow> Some (s, Inl e)
      | Inr (stream, v, changed) \<Rightarrow>
          if changed
          then map_option (\<lambda>nt. (s\<lparr>isnStreams := AList.update sid stream (isnStreams s), isnNotify := nt\<rparr>, Inr v))
            (signalLocked sid (isnNotify s))
          else Some (s, Inr v))"

definition it_Create ::
  "ctx \<Rightarrow> string \<Rightarrow> gotime \<Rightarrow> interaction \<Rightarrow> interaction_store \<Rightarrow> (interaction_store \<times> interaction result) option" where
  "it_Create ctx newID clock v s =
     (case check ctx (normalizeInteraction newID v) of
        Inl e \<Rightarrow> Some (s, Inl e)
      | Inr v \<Rightarrow>
          if isnClosed s then Some (s, Inl (Wrapf ErrStoreClosed []))
          else it_put (itSessionID v) (createInteraction (interactions_of s (itSessionID v)) v clock) s)"

definition it_Get :: "ctx \<Rightarrow> string \<Rightarrow> string \<Rightarrow> interaction_store \<Rightarrow> interaction result" where
  "it_Get ctx sid i s =
     check ctx (check (reject_if (isnClosed s) (Wrapf ErrStoreClosed [])) (getInteraction (interactions_of s sid) i))"

definition it_List :: "ctx \<Rightarrow> string \<Rightarrow> interaction_query \<Rightarrow> interaction_store \<Rightarrow> interaction_page result" where
  "it_List ctx sid query s =
     check ctx (bind_result (normalizeInteractionQuery query) (\<lambda>query.
       check (reject_if (isnClosed s) (Wrapf ErrStoreClosed [])) (Inr (listInteractions (interactions_of s sid) query))))"

text \<open>What the loop's body of \<open>Wait\<close> finds under the lock.\<close>

definition it_look :: "string \<times> string \<Rightarrow> interaction_store \<Rightarrow> interaction result option" where
  "it_look q s =
     (if isnClosed s then Some (Inl (Wrapf ErrStoreClosed []))
      else case getInteraction (interactions_of s (fst q)) (snd q) of
        Inr item \<Rightarrow> if it_Terminal (itState item) then Some (Inr item) else None
      | Inl e \<Rightarrow> Some (Inl e))"

definition it_Resolve ::
  "ctx \<Rightarrow> gotime \<Rightarrow> string \<Rightarrow> string \<Rightarrow> u64 \<Rightarrow> interaction_answer \<Rightarrow> interaction_store \<Rightarrow> (interaction_store \<times> interaction result) option" where
  "it_Resolve ctx clock sid i expectedRevision answer s =
     (case and_then ctx (reject_if (isnClosed s) (Wrapf ErrStoreClosed [])) of
        Some e \<Rightarrow> Some (s, Inl e)
      | None \<Rightarrow> it_put sid (resolveInteraction (interactions_of s sid) i expectedRevision answer clock) s)"

definition it_Cancel ::
  "ctx \<Rightarrow> gotime \<Rightarrow> string \<Rightarrow> string \<Rightarrow> u64 \<Rightarrow> interaction_store \<Rightarrow> (interaction_store \<times> interaction result) option" where
  "it_Cancel ctx clock sid i expectedRevision s =
     (case and_then ctx (reject_if (isnClosed s) (Wrapf ErrStoreClosed [])) of
        Some e \<Rightarrow> Some (s, Inl e)
      | None \<Rightarrow> it_put sid (cancelInteraction (interactions_of s sid) i expectedRevision clock) s)"

definition it_Close :: "interaction_store \<Rightarrow> interaction_store option" where
  "it_Close s =
     (if isnClosed s then Some s
      else map_option (\<lambda>nt. s\<lparr>isnClosed := True, isnNotify := nt\<rparr>) (close_channels (ntChannels (isnNotify s)) (isnNotify s)))"

datatype it_call =
    NCreate ctx string gotime interaction
  | NResolve ctx gotime string string u64 interaction_answer
  | NCancel ctx gotime string string u64
  | NClose

fun it_exec :: "it_call \<Rightarrow> interaction_store \<Rightarrow> interaction_store option" where
  "it_exec (NCreate ctx newID clock v) s = map_option fst (it_Create ctx newID clock v s)"
| "it_exec (NResolve ctx clock sid i rv answer) s = map_option fst (it_Resolve ctx clock sid i rv answer s)"
| "it_exec (NCancel ctx clock sid i rv) s = map_option fst (it_Cancel ctx clock sid i rv s)"
| "it_exec NClose s = it_Close s"

section \<open>The request's JSON tells requests apart\<close>

definition option_valid :: "interaction_option \<Rightarrow> bool" where
  "option_valid x \<longleftrightarrow> valid_utf8 (ioID x) \<and> valid_utf8 (ioLabel x) \<and> valid_utf8 (ioDescription x)"

lemma json_string_inj:
  "valid_utf8 s \<Longrightarrow> valid_utf8 t \<Longrightarrow> json_string s @ r = json_string t @ q \<longleftrightarrow> s = t \<and> r = q"
  using json_string_inject [of s r t q] json_string_eq_valid [of s t] by blast

lemma option_json_inj:
  assumes "option_valid x" "option_valid y" "option_json x @ r = option_json y @ q"
  shows "x = y \<and> r = q"
proof -
  have "ioID x = ioID y \<and> ioLabel x = ioLabel y \<and> ioDescription x = ioDescription y \<and> r = q"
    using assms
    by (auto simp: option_json_def option_valid_def json_field_def json_string_inj split: if_splits)
  then show ?thesis by simp
qed

lemma options_json_head: "ys \<noteq> [] \<Longrightarrow> \<exists>t. options_json ys = CHR ''{'' # t"
  by (cases ys rule: options_json.cases) (simp_all add: option_json_def)

lemma options_json_inj:
  assumes "list_all option_valid xs" "list_all option_valid ys" "options_json xs @ r = options_json ys @ q"
  shows "xs = ys \<and> r = q"
  using assms
proof (induction xs arbitrary: ys rule: options_json.induct)
  case 1
  show ?case
  proof (cases "ys = []")
    case False
    then obtain t where "options_json ys = CHR ''{'' # t" using options_json_head by blast
    then show ?thesis using 1 by simp
  qed (use 1 in simp)
next
  case (2 x)
  show ?case
  proof (cases ys rule: options_json.cases)
    case 1
    then show ?thesis using 2(3) by (simp add: option_json_def)
  next
    case (2 y)
    then show ?thesis using "2.prems" option_json_inj [of x y "'']'' @ r" "'']'' @ q"] by simp
  next
    case (3 y y' zs)
    then show ?thesis using "2.prems" option_json_inj [of x y "'']'' @ r" "'','' @ options_json (y' # zs) @ q"] by simp
  qed
next
  case (3 x x' xs)
  show ?case
  proof (cases ys rule: options_json.cases)
    case 1
    then show ?thesis using 3(4) by (simp add: option_json_def)
  next
    case (2 y)
    then show ?thesis using "3.prems" option_json_inj [of x y "'','' @ options_json (x' # xs) @ r" "'']'' @ q"] by simp
  next
    case ys: (3 y y' zs)
    then have "x = y \<and> options_json (x' # xs) @ r = options_json (y' # zs) @ q"
      using "3.prems" option_json_inj [of x y "'','' @ options_json (x' # xs) @ r" "'','' @ options_json (y' # zs) @ q"] by simp
    then show ?thesis using "3.IH" [of "y' # zs"] "3.prems" ys by simp
  qed
qed

definition request_valid :: "interaction \<Rightarrow> bool" where
  "request_valid v \<longleftrightarrow> (\<forall>k. itKind v \<noteq> InteractionKindOther k) \<and> valid_utf8 (itPrompt v) \<and> list_all option_valid (itOptions v)"

lemma request_json_inj:
  assumes "request_valid v" "request_valid u"
  shows "request_json v = request_json u \<longleftrightarrow> itKind v = itKind u \<and> itPrompt v = itPrompt u \<and> itOptions v = itOptions u"
proof
  assume eq: "request_json v = request_json u"
  let ?opts = "\<lambda>v. if itOptions v = [] then ''null'' else ''['' @ options_json (itOptions v)"
  have kind: "json_string (kind_text (itKind v)) @ r = json_string (kind_text (itKind u)) @ q \<Longrightarrow> itKind v = itKind u \<and> r = q" for r q
  proof -
    have "valid_utf8 ''question''" "valid_utf8 ''confirmation''" "valid_utf8 ''permission''"
      by (simp_all add: valid_utf8_def coerce_utf8.simps)
    then have "valid_utf8 (kind_text (itKind v))" "valid_utf8 (kind_text (itKind u))"
      using assms by (auto simp: request_valid_def kind_text_def split: InteractionKind.splits)
    moreover assume "json_string (kind_text (itKind v)) @ r = json_string (kind_text (itKind u)) @ q"
    ultimately have "kind_text (itKind v) = kind_text (itKind u)" "r = q" using json_string_inj by blast+
    then show "itKind v = itKind u \<and> r = q"
      using assms by (auto simp: request_valid_def kind_text_def split: InteractionKind.splits)
  qed
  let ?B = "\<lambda>v. '','' @ json_string ''Options'' @ '':'' @ ?opts v @ ''}''"
  let ?A = "\<lambda>v. '','' @ json_string ''Prompt'' @ '':'' @ json_string (itPrompt v) @ ?B v"
  have "request_json v = ''{'' @ json_string ''Kind'' @ '':'' @ json_string (kind_text (itKind v)) @ ?A v" for v
    unfolding request_json_def json_field_def by (simp only: append_assoc)
  then have "json_string (kind_text (itKind v)) @ ?A v = json_string (kind_text (itKind u)) @ ?A u"
    using eq by (simp only: same_append_eq)
  from kind [OF this] have k: "itKind v = itKind u" "json_string (itPrompt v) @ ?B v = json_string (itPrompt u) @ ?B u"
    by (simp_all only: same_append_eq)
  then have p: "itPrompt v = itPrompt u" "?opts v @ ''}'' = ?opts u @ ''}''"
    using json_string_inj [of "itPrompt v" "itPrompt u" "?B v" "?B u"] assms by (simp_all only: request_valid_def same_append_eq simp_thms)
  have "itOptions v = itOptions u"
  proof (cases "itOptions v = [] \<or> itOptions u = []")
    case True
    then show ?thesis using p(2) by (auto split: if_splits)
  next
    case False
    then have "options_json (itOptions v) @ ''}'' = options_json (itOptions u) @ ''}''" using p(2) by simp
    then show ?thesis using options_json_inj assms unfolding request_valid_def by blast
  qed
  then show "itKind v = itKind u \<and> itPrompt v = itPrompt u \<and> itOptions v = itOptions u" using k(1) p(1) by simp
qed (simp add: request_json_def)

end
