(* ===== verification/Gateway_Interaction_Store.thy ===== *)
theory Gateway_Interaction_Store
  imports Gateway_Interactions
begin

text \<open>
  What the interaction store promises: an interaction is settled once, with an answer that fits
  the question, by the caller that names its revision; a request ID stands for one request; and
  whoever waits for an answer is woken.
\<close>

section \<open>Lookups\<close>

definition it_lookup :: "interaction_store \<Rightarrow> string \<Rightarrow> string \<Rightarrow> interaction option" where
  "it_lookup s sid i = find (\<lambda>x. itID x = i) (tsItems (interactions_of s sid))"

definition it_step :: "it_call \<Rightarrow> interaction_store \<Rightarrow> interaction_store" where
  "it_step c s = (case it_exec c s of Some s' \<Rightarrow> s' | None \<Rightarrow> s)"

text \<open>What a settlement changes.\<close>

definition settles :: "interaction \<Rightarrow> interaction \<Rightarrow> bool" where
  "settles x y \<longleftrightarrow> itState x = InteractionPending \<and> itRevision y = itRevision x + 1 \<and>
     y = x\<lparr>itState := itState y, itAnswer := itAnswer y, itRevision := itRevision y, itUpdatedAt := itUpdatedAt y\<rparr> \<and>
     (case itAnswer y of
        None \<Rightarrow> itState y = InteractionCancelled
      | Some a \<Rightarrow> itState y = InteractionResolved \<and> (iaOptionID a \<noteq> [] \<or> iaText a \<noteq> []) \<and>
          (iaOptionID a = [] \<or> iaOptionID a \<in> ioID ` set (itOptions x)))"

lemma settles_simps:
  assumes "settles x y"
  shows "itID y = itID x" "itSessionID y = itSessionID x" "itOptions y = itOptions x" "it_Terminal (itState y)"
    "itKind y = itKind x" "itPrompt y = itPrompt x" "itExecutionID y = itExecutionID x" "itSequence y = itSequence x"
proof -
  have y: "y = x\<lparr>itState := itState y, itAnswer := itAnswer y, itRevision := itRevision y, itUpdatedAt := itUpdatedAt y\<rparr>"
    using assms unfolding settles_def by blast
  show "itID y = itID x" "itSessionID y = itSessionID x" "itOptions y = itOptions x"
    "itKind y = itKind x" "itPrompt y = itPrompt x" "itExecutionID y = itExecutionID x" "itSequence y = itSequence x"
    by (subst y, simp)+
  show "it_Terminal (itState y)" using assms by (auto simp: settles_def it_Terminal_def split: option.splits)
qed

text \<open>The effect of a settling call on the list.\<close>

definition settled :: "string \<Rightarrow> interaction list \<Rightarrow> interaction list \<Rightarrow> interaction \<Rightarrow> bool" where
  "settled i xs ys y \<longleftrightarrow> (\<exists>pre x post. xs = pre @ x # post \<and> ys = pre @ y # post \<and> (\<forall>z\<in>set pre. itID z \<noteq> i) \<and>
     itID x = i \<and> settles x y)"

lemma find_skip: "\<forall>z\<in>set pre. \<not> P z \<Longrightarrow> find P (pre @ xs) = find P xs"
  by (induction pre) auto

lemma settled_find:
  assumes "settled i xs ys y"
  shows "find (\<lambda>x. itID x = i) ys = Some y" "\<exists>x. find (\<lambda>x. itID x = i) xs = Some x \<and> settles x y"
    "j \<noteq> i \<Longrightarrow> find (\<lambda>x. itID x = j) ys = find (\<lambda>x. itID x = j) xs"
proof -
  obtain pre x post where l: "xs = pre @ x # post" "ys = pre @ y # post" "\<forall>z\<in>set pre. itID z \<noteq> i" "itID x = i" "settles x y"
    using assms unfolding settled_def by blast
  have y: "itID y = i" using settles_simps(1) [OF l(5)] l(4) by simp
  show "find (\<lambda>x. itID x = i) ys = Some y" using l(2,3) y by (simp add: find_skip)
  show "\<exists>x. find (\<lambda>x. itID x = i) xs = Some x \<and> settles x y" using l by (simp add: find_skip)
  have other: "find P (pre @ a # post) = find P (pre @ b # post)" if "\<not> P a" "\<not> P b" for P and a b :: interaction
    using that by (induction pre) auto
  show "j \<noteq> i \<Longrightarrow> find (\<lambda>x. itID x = j) ys = find (\<lambda>x. itID x = j) xs"
    unfolding l(1,2) by (rule other) (simp_all add: y l(4))
qed

text \<open>The loop that resolving and cancelling share.\<close>

lemma update_first_settled:
  assumes "update_first (\<lambda>x. itID x = i) f (Inl e) (\<lambda>xs x changed. (st\<lparr>tsItems := xs\<rparr>, x, changed)) (tsItems st) = Inr (st', y, changed)"
    and "\<And>x y c. f x = Inr (y, c) \<Longrightarrow> c \<and> settles x y \<and> P y"
  shows "changed \<and> settled i (tsItems st) (tsItems st') y \<and> tsNextSequence st' = tsNextSequence st \<and> P y"
proof -
  obtain pre x post y' c where u: "tsItems st = pre @ x # post" "\<forall>z\<in>set pre. itID z \<noteq> i" "itID x = i" "f x = Inr (y', c)"
    "(st', y, changed) = (st\<lparr>tsItems := pre @ y' # post\<rparr>, y', c)"
    using update_first_Inr [OF assms(1)] by blast
  show ?thesis using assms(2) [OF u(4)] u by (auto simp: settled_def)
qed

lemma resolveInteraction_settled:
  assumes "resolveInteraction st i rv answer now = Inr (st', y, changed)"
  shows "changed \<and> settled i (tsItems st) (tsItems st') y \<and> tsNextSequence st' = tsNextSequence st \<and>
    itAnswer y = Some \<lparr>iaOptionID = TrimSpace (iaOptionID answer), iaText = TrimSpace (iaText answer)\<rparr> \<and> itRevision y = rv + 1"
  by (rule update_first_settled [OF assms [unfolded resolveInteraction_def Let_def]])
    (auto simp: settles_def list_ex_iff split: if_splits, (metis image_eqI)+)

lemma cancelInteraction_settled:
  assumes "cancelInteraction st i rv now = Inr (st', y, changed)"
  shows "changed \<and> settled i (tsItems st) (tsItems st') y \<and> tsNextSequence st' = tsNextSequence st \<and> itAnswer y = None \<and>
    itRevision y = rv + 1"
  by (rule update_first_settled [OF assms [unfolded cancelInteraction_def]])
    (auto simp: settles_def split: if_splits)

lemma createInteraction_appends:
  assumes "createInteraction st v now = Inr (st', y, changed)"
  shows "if changed then tsItems st' = tsItems st @ [y] \<and> find (\<lambda>x. itID x = itID v) (tsItems st) = None \<and> itID y = itID v \<and>
      itSessionID y = itSessionID v \<and> itState y = InteractionPending \<and> itRevision y = 1 \<and> itAnswer y = None \<and> itOptions y = itOptions v
    else st' = st \<and> find (\<lambda>x. itID x = itID v) (tsItems st) = Some y"
  using assms by (auto simp: createInteraction_def Let_def split: option.splits if_splits)

section \<open>Effects of calls\<close>

text \<open>A call does nothing, appends a new pending interaction, settles one, or closes the store.\<close>

definition it_creates :: "string \<Rightarrow> gotime \<Rightarrow> interaction \<Rightarrow> interaction_store \<Rightarrow> interaction_store \<Rightarrow> bool" where
  "it_creates newID clock v s s' \<longleftrightarrow> (\<exists>n st y nt. normalizeInteraction newID v = Inr n \<and>
     createInteraction (interactions_of s (itSessionID n)) n clock = Inr (st, y, True) \<and>
     signalLocked (itSessionID n) (isnNotify s) = Some nt \<and>
     s' = s\<lparr>isnStreams := AList.update (itSessionID n) st (isnStreams s), isnNotify := nt\<rparr>)"

definition it_settles :: "string \<Rightarrow> string \<Rightarrow> interaction \<Rightarrow> interaction_store \<Rightarrow> interaction_store \<Rightarrow> bool" where
  "it_settles sid i y s s' \<longleftrightarrow> (\<exists>st nt. settled i (tsItems (interactions_of s sid)) (tsItems st) y \<and>
     tsNextSequence st = tsNextSequence (interactions_of s sid) \<and> signalLocked sid (isnNotify s) = Some nt \<and>
     s' = s\<lparr>isnStreams := AList.update sid st (isnStreams s), isnNotify := nt\<rparr>)"

lemma it_put_effect:
  assumes "it_put sid r s = Some (s', q)"
  shows "s' = s \<and> (\<forall>st y. r \<noteq> Inr (st, y, True)) \<or> (\<exists>st y nt. r = Inr (st, y, True) \<and> q = Inr y \<and> signalLocked sid (isnNotify s) = Some nt \<and>
    s' = s\<lparr>isnStreams := AList.update sid st (isnStreams s), isnNotify := nt\<rparr>)"
  using assms by (auto simp: it_put_def split: sum.splits prod.splits if_splits)

lemma it_Resolve_effect:
  assumes "it_Resolve ctx clock sid i rv answer s = Some (s', r)"
  shows "s' = s \<and> (\<exists>e. r = Inl e) \<or> (\<exists>y. r = Inr y \<and> it_settles sid i y s s' \<and> itRevision y = rv + 1 \<and>
    itAnswer y = Some \<lparr>iaOptionID = TrimSpace (iaOptionID answer), iaText = TrimSpace (iaText answer)\<rparr>)"
proof (cases "resolveInteraction (interactions_of s sid) i rv answer clock")
  case (Inl e)
  then show ?thesis using assms by (auto simp: it_Resolve_def it_put_def split: option.splits)
next
  case (Inr p)
  obtain st y c where p: "p = (st, y, c)" by (metis prod_cases3)
  note set = resolveInteraction_settled [OF Inr [unfolded p]]
  show ?thesis
    using assms set Inr p by (auto simp: it_Resolve_def it_put_def it_settles_def split: option.splits)
qed

lemma it_Cancel_effect:
  assumes "it_Cancel ctx clock sid i rv s = Some (s', r)"
  shows "s' = s \<and> (\<exists>e. r = Inl e) \<or> (\<exists>y. r = Inr y \<and> it_settles sid i y s s' \<and> itRevision y = rv + 1 \<and> itAnswer y = None)"
proof (cases "cancelInteraction (interactions_of s sid) i rv clock")
  case (Inl e)
  then show ?thesis using assms by (auto simp: it_Cancel_def it_put_def split: option.splits)
next
  case (Inr p)
  obtain st y c where p: "p = (st, y, c)" by (metis prod_cases3)
  note set = cancelInteraction_settled [OF Inr [unfolded p]]
  show ?thesis
    using assms set Inr p by (auto simp: it_Cancel_def it_put_def it_settles_def split: option.splits)
qed

lemma it_exec_effect:
  assumes "it_exec c s = Some s'"
  shows "s' = s \<or> (\<exists>newID clock v. it_creates newID clock v s s') \<or> (\<exists>sid i y. it_settles sid i y s s') \<or>
    isnStreams s' = isnStreams s \<and> isnClosed s'"
proof (cases c)
  case (NCreate ctx newID clock v)
  then obtain r where "it_Create ctx newID clock v s = Some (s', r)" using assms by auto
  then have "s' = s \<or> it_creates newID clock v s s'"
    by (auto simp: it_Create_def it_creates_def result_simps dest!: it_put_effect split: sum.splits if_splits)
  then show ?thesis by blast
next
  case (NResolve ctx clock sid i rv answer)
  then obtain r where "it_Resolve ctx clock sid i rv answer s = Some (s', r)" using assms by auto
  then show ?thesis using it_Resolve_effect by blast
next
  case (NCancel ctx clock sid i rv)
  then obtain r where "it_Cancel ctx clock sid i rv s = Some (s', r)" using assms by auto
  then show ?thesis using it_Cancel_effect by blast
next
  case NClose
  then show ?thesis using assms by (auto simp: it_Close_def split: if_splits)
qed

lemma interactions_of_put: "interactions_of (s\<lparr>isnStreams := AList.update sid st (isnStreams s), isnNotify := nt\<rparr>) k =
    (if k = sid then st else interactions_of s k)"
  by (simp add: interactions_of_def)

lemma it_settles_lookup:
  assumes "it_settles sid i y s s'"
  shows "it_lookup s' sid i = Some y" "\<exists>x. it_lookup s sid i = Some x \<and> settles x y"
    "(k, j) \<noteq> (sid, i) \<Longrightarrow> it_lookup s' k j = it_lookup s k j"
proof -
  obtain st nt where st: "settled i (tsItems (interactions_of s sid)) (tsItems st) y"
    "s' = s\<lparr>isnStreams := AList.update sid st (isnStreams s), isnNotify := nt\<rparr>" using assms unfolding it_settles_def by blast
  note f = settled_find [OF st(1)]
  show "it_lookup s' sid i = Some y" "\<exists>x. it_lookup s sid i = Some x \<and> settles x y"
    using f st(2) by (simp_all add: it_lookup_def interactions_of_put)
  show "(k, j) \<noteq> (sid, i) \<Longrightarrow> it_lookup s' k j = it_lookup s k j"
    using f(3) st(2) by (auto simp: it_lookup_def interactions_of_put)
qed

lemma find_snoc_some: "find P xs = Some x \<Longrightarrow> find P (xs @ ys) = Some x"
  by (induction xs) (auto split: if_splits)

lemma it_creates_lookup:
  assumes "it_creates newID clock v s s'" "it_lookup s k j = Some x"
  shows "it_lookup s' k j = Some x"
proof -
  obtain n st y nt where n: "createInteraction (interactions_of s (itSessionID n)) n clock = Inr (st, y, True)"
    "s' = s\<lparr>isnStreams := AList.update (itSessionID n) st (isnStreams s), isnNotify := nt\<rparr>"
    using assms(1) unfolding it_creates_def by blast
  have "tsItems st = tsItems (interactions_of s (itSessionID n)) @ [y]" using createInteraction_appends [OF n(1)] by simp
  then show ?thesis using assms(2) n(2) find_snoc_some by (auto simp: it_lookup_def interactions_of_put)
qed

text \<open>Along a run an interaction stays as it is or is settled.\<close>

lemma it_exec_lookup:
  assumes "it_exec c s = Some s'" "it_lookup s k j = Some x"
  shows "\<exists>y. it_lookup s' k j = Some y \<and> (y = x \<or> settles x y)"
  using it_exec_effect [OF assms(1)]
proof (elim disjE exE)
  fix sid i y
  assume "it_settles sid i y s s'"
  note f = it_settles_lookup [OF this]
  show ?thesis using f assms(2) by (cases "(k, j) = (sid, i)") auto
next
  assume "isnStreams s' = isnStreams s \<and> isnClosed s'"
  then show ?thesis using assms(2) by (simp add: it_lookup_def interactions_of_def)
qed (use it_creates_lookup assms(2) in auto)

lemma it_step_lookup:
  "it_lookup s k j = Some x \<Longrightarrow> \<exists>y. it_lookup (it_step c s) k j = Some y \<and> (y = x \<or> settles x y)"
  using it_exec_lookup [of c s] by (auto simp: it_step_def split: option.splits)

lemma it_terminal_run:
  assumes "it_lookup s k j = Some x" "it_Terminal (itState x)"
  shows "it_lookup (run_calls it_step cs s) k j = Some x"
proof (rule run_calls_invariant)
  fix c s assume "it_lookup s k j = Some x"
  then show "it_lookup (it_step c s) k j = Some x"
    using it_step_lookup [of s k j x c] assms(2) by (auto simp: settles_def it_Terminal_def)
qed (rule assms(1))

section \<open>Settling\<close>

lemma update_first_found:
  assumes "find P xs = Some x"
  shows "update_first P f missing k xs =
    (case f x of Inl e \<Rightarrow> Inl e | Inr (y, c) \<Rightarrow> Inr (k (takeWhile (\<lambda>z. \<not> P z) xs @ y # tl (dropWhile (\<lambda>z. \<not> P z) xs)) y c))"
  using assms
proof (induction xs arbitrary: k)
  case (Cons a xs)
  then show ?case by (cases "f x") (auto split: if_splits)
qed simp

lemma terminal_conflict:
  assumes "it_lookup s sid i = Some x" "it_Terminal (itState x)" "\<not> isnClosed s"
  shows "\<exists>e. it_Resolve None clock sid i rv answer s = Some (s, Inl e) \<and> errors_is e ErrInteractionConflict"
    "\<exists>e. it_Cancel None clock sid i rv s = Some (s, Inl e) \<and> errors_is e ErrInteractionConflict"
  using assms
  by (auto simp: it_Resolve_def it_Cancel_def resolveInteraction_def cancelInteraction_def it_lookup_def it_put_def Let_def
      update_first_found it_Terminal_def)

text \<open>
  C23: An interaction is settled once. When resolving (or cancelling) it succeeds, the interaction
  was pending at the revision the caller named, and from then on, whatever is called, it reads
  the same, and every attempt to resolve or cancel it again, with whatever revision, is a
  conflict that changes nothing. So of two users who answer the same question one wins and the
  other is told.
\<close>

theorem it_settled_once:
  assumes "it_Resolve ctx clock sid i rv answer s = Some (s', Inr y) \<or> it_Cancel ctx clock sid i rv s = Some (s', Inr y)"
    and "s'' = run_calls it_step cs s'" "\<not> isnClosed s''"
  shows "(\<exists>x. it_lookup s sid i = Some x \<and> itState x = InteractionPending \<and> itRevision x = rv) \<and>
    it_Get None sid i s'' = Inr y \<and> it_Terminal (itState y) \<and>
    (\<exists>e. it_Resolve None clock' sid i rv' answer' s'' = Some (s'', Inl e) \<and> errors_is e ErrInteractionConflict) \<and>
    (\<exists>e. it_Cancel None clock' sid i rv' s'' = Some (s'', Inl e) \<and> errors_is e ErrInteractionConflict)"
proof -
  have e: "it_settles sid i y s s'" "itRevision y = rv + 1"
    using assms(1) it_Resolve_effect it_Cancel_effect by blast+
  note l = it_settles_lookup [OF e(1)]
  obtain x where x: "it_lookup s sid i = Some x" "settles x y" using l(2) by blast
  have y: "it_Terminal (itState y)" by (rule settles_simps(4) [OF x(2)])
  have later: "it_lookup s'' sid i = Some y" unfolding assms(2) by (rule it_terminal_run [OF l(1) y])
  have "itState x = InteractionPending" "itRevision x = rv" using x(2) e(2) by (auto simp: settles_def)
  moreover have "it_Get None sid i s'' = Inr y"
    using later assms(3) by (simp add: it_Get_def getInteraction_def it_lookup_def)
  ultimately show ?thesis using x(1) y terminal_conflict [OF later y assms(3)] by blast
qed

text \<open>A resolution succeeds whenever it should.\<close>

theorem it_Resolve_succeeds:
  assumes "it_lookup s sid i = Some x" "itState x = InteractionPending" "\<not> isnClosed s" "notify_ok (isnNotify s)"
    and "TrimSpace (iaOptionID answer) \<noteq> [] \<or> TrimSpace (iaText answer) \<noteq> []"
    and "TrimSpace (iaOptionID answer) = [] \<or> TrimSpace (iaOptionID answer) \<in> ioID ` set (itOptions x)"
  shows "\<exists>s' y. it_Resolve None clock sid i (itRevision x) answer s = Some (s', Inr y)"
proof -
  obtain nt where nt: "signalLocked sid (isnNotify s) = Some nt" using signalLocked_ok [OF assms(4)] by blast
  have x: "find (\<lambda>x. itID x = i) (tsItems (interactions_of s sid)) = Some x" using assms(1) by (simp add: it_lookup_def)
  have "TrimSpace (iaOptionID answer) \<noteq> [] \<longrightarrow> list_ex (\<lambda>opt. ioID opt = TrimSpace (iaOptionID answer)) (itOptions x)"
    using assms(6) by (auto simp: list_ex_iff)
  then show ?thesis
    using assms(2,3,5) by (auto simp: it_Resolve_def resolveInteraction_def it_put_def Let_def update_first_found [OF x] nt)
qed

section \<open>Consistent interactions\<close>

definition item_ok :: "string \<Rightarrow> interaction \<Rightarrow> bool" where
  "item_ok sid x \<longleftrightarrow> itSessionID x = sid \<and> resourceNamePattern (itID x) \<and> itPrompt x \<noteq> [] \<and>
     (\<forall>k. itKind x \<noteq> InteractionKindOther k) \<and> distinct (map ioID (itOptions x)) \<and>
     (case itState x of
        InteractionPending \<Rightarrow> itRevision x = 1 \<and> itAnswer x = None
      | InteractionResolved \<Rightarrow> itRevision x = 2 \<and> (\<exists>a. itAnswer x = Some a \<and> (iaOptionID a \<noteq> [] \<or> iaText a \<noteq> []) \<and>
          (iaOptionID a = [] \<or> iaOptionID a \<in> ioID ` set (itOptions x)))
      | InteractionCancelled \<Rightarrow> itRevision x = 2 \<and> itAnswer x = None
      | InteractionStateOther st \<Rightarrow> False)"

definition items_ok :: "string \<Rightarrow> interaction list \<Rightarrow> bool" where
  "items_ok sid xs \<longleftrightarrow> distinct (map itID xs) \<and> (\<forall>x\<in>set xs. item_ok sid x)"

definition it_inv :: "interaction_store \<Rightarrow> bool" where
  "it_inv s \<longleftrightarrow> (\<forall>sid. items_ok sid (tsItems (interactions_of s sid)))"

lemma item_ok_settles: "item_ok sid x \<Longrightarrow> settles x y \<Longrightarrow> item_ok sid y"
proof -
  assume x: "item_ok sid x" and s: "settles x y"
  have "itState x = InteractionPending" "itRevision y = itRevision x + 1"
    and c: "case itAnswer y of None \<Rightarrow> itState y = InteractionCancelled
      | Some a \<Rightarrow> itState y = InteractionResolved \<and> (iaOptionID a \<noteq> [] \<or> iaText a \<noteq> []) \<and>
          (iaOptionID a = [] \<or> iaOptionID a \<in> ioID ` set (itOptions x))"
    using s unfolding settles_def by blast+
  then have "itRevision y = 2" using x by (simp add: item_ok_def)
  then show ?thesis using x c settles_simps [OF s] by (cases "itAnswer y") (simp_all add: item_ok_def)
qed

lemma normalize_options_distinct:
  "normalize_options seen xs = Inr ys \<Longrightarrow> distinct (map ioID ys) \<and> ioID ` set ys \<inter> set seen = {}"
proof (induction xs arbitrary: seen ys)
  case (Cons a xs)
  let ?x = "\<lparr>ioID = TrimSpace (ioID a), ioLabel = TrimSpace (ioLabel a), ioDescription = TrimSpace (ioDescription a)\<rparr>"
  obtain zs where z: "normalize_options (ioID ?x # seen) xs = Inr zs" "ys = ?x # zs" "ioID ?x \<notin> set seen"
    using Cons.prems by (auto simp: result_simps Let_def)
  then show ?case using Cons.IH [OF z(1)] by auto
qed simp

lemma normalizeInteraction_ok:
  assumes "normalizeInteraction newID v = Inr n"
  shows "resourceNamePattern (itID n) \<and> itPrompt n \<noteq> [] \<and> (\<forall>k. itKind n \<noteq> InteractionKindOther k) \<and> distinct (map ioID (itOptions n)) \<and>
    resourceNamePattern (itSessionID n)"
  using assms normalize_options_distinct
  by (auto simp: normalizeInteraction_def normalizeEventSessionID_def Let_def result_simps split: if_splits InteractionKind.splits)

lemma items_ok_settled:
  assumes "items_ok sid xs" "settled i xs ys y"
  shows "items_ok sid ys"
proof -
  obtain pre x post where l: "xs = pre @ x # post" "ys = pre @ y # post" "settles x y" using assms(2) unfolding settled_def by blast
  then show ?thesis using assms(1) item_ok_settles [of sid x y] settles_simps(1) [OF l(3)] by (auto simp: items_ok_def)
qed

lemma it_inv_exec:
  assumes "it_inv s" "it_exec c s = Some s'"
  shows "it_inv s'"
  using it_exec_effect [OF assms(2)]
proof (elim disjE exE)
  fix newID clock v assume "it_creates newID clock v s s'"
  then obtain n st y nt where n: "normalizeInteraction newID v = Inr n"
    "createInteraction (interactions_of s (itSessionID n)) n clock = Inr (st, y, True)"
    "s' = s\<lparr>isnStreams := AList.update (itSessionID n) st (isnStreams s), isnNotify := nt\<rparr>" unfolding it_creates_def by blast
  have y: "y = n\<lparr>itSequence := itSequence y, itState := InteractionPending, itAnswer := None, itRevision := 1, itCreatedAt := clock, itUpdatedAt := clock\<rparr>"
    "tsItems st = tsItems (interactions_of s (itSessionID n)) @ [y]" "itID n \<notin> itID ` set (tsItems (interactions_of s (itSessionID n)))"
    using n(2) by (auto simp: createInteraction_def Let_def find_None_iff split: option.splits if_splits)
  have "item_ok (itSessionID n) y" by (subst y(1)) (use normalizeInteraction_ok [OF n(1)] in \<open>simp add: item_ok_def\<close>)
  moreover have "itID y = itID n" by (subst y(1)) simp
  moreover have "items_ok (itSessionID n) (tsItems (interactions_of s (itSessionID n)))" using assms(1) by (simp add: it_inv_def)
  ultimately have "items_ok (itSessionID n) (tsItems st)" using y(2,3) by (auto simp: items_ok_def)
  then show ?thesis using assms(1) n(3) by (simp add: it_inv_def interactions_of_put)
next
  fix sid i y assume "it_settles sid i y s s'"
  then obtain st nt where st: "settled i (tsItems (interactions_of s sid)) (tsItems st) y"
    "s' = s\<lparr>isnStreams := AList.update sid st (isnStreams s), isnNotify := nt\<rparr>" unfolding it_settles_def by blast
  have "items_ok sid (tsItems st)" using items_ok_settled [OF _ st(1)] assms(1) by (simp add: it_inv_def)
  then show ?thesis using assms(1) st(2) by (simp add: it_inv_def interactions_of_put)
qed (use assms(1) in \<open>auto simp: it_inv_def interactions_of_def\<close>)

lemma it_inv_new: "it_inv NewMemoryInteractionStore"
  by (simp add: it_inv_def items_ok_def NewMemoryInteractionStore_def interactions_of_def no_interactions_def)

text \<open>
  Whatever is called, every interaction of the store is well formed: it is pending at
  revision 1 without an answer, or cancelled without one, or resolved with an answer that says
  something and names, if it names an option, one of the options of the question; and no two
  interactions of a session share an ID.
\<close>

theorem it_run_consistent:
  shows "items_ok sid (tsItems (interactions_of (run_calls it_step cs NewMemoryInteractionStore) sid))"
proof -
  have "it_inv (run_calls it_step cs NewMemoryInteractionStore)"
  proof (rule run_calls_invariant)
    fix c s assume "it_inv s"
    then show "it_inv (it_step c s)" using it_inv_exec by (auto simp: it_step_def split: option.splits)
  qed (rule it_inv_new)
  then show ?thesis by (simp add: it_inv_def)
qed

section \<open>Identity of requests\<close>

text \<open>
  An interaction ID stands for one request. Creating an interaction whose ID is taken
  returns the stored one, unchanged, when session, execution, kind, prompt and options are
  the same, and fails as a conflict otherwise: comparing the requests by their JSON text
  tells apart any two requests in valid UTF-8.
\<close>

theorem it_Create_identity:
  assumes "normalizeInteraction newID v = Inr n" "it_lookup s (itSessionID n) (itID n) = Some x" "it_inv s" "\<not> isnClosed s"
    and "valid_utf8 (itPrompt x)" "list_all option_valid (itOptions x)" "valid_utf8 (itPrompt n)" "list_all option_valid (itOptions n)"
  shows "it_Create None newID clock v s = Some (s,
    if itKind x = itKind n \<and> itPrompt x = itPrompt n \<and> itOptions x = itOptions n \<and> itExecutionID x = itExecutionID n
    then Inr x else Inl (Wrapf ErrInteractionConflict ''%w: interaction ID %s was reused''))"
proof -
  have found: "find (\<lambda>x. itID x = itID n) (tsItems (interactions_of s (itSessionID n))) = Some x" using assms(2) by (simp add: it_lookup_def)
  then have "x \<in> set (tsItems (interactions_of s (itSessionID n)))" by (auto simp: find_Some_iff)
  then have "item_ok (itSessionID n) x" using assms(3) by (simp add: it_inv_def items_ok_def)
  then have x: "itSessionID x = itSessionID n" "\<forall>k. itKind x \<noteq> InteractionKindOther k" unfolding item_ok_def by blast+
  have "request_json x = request_json n \<longleftrightarrow> itKind x = itKind n \<and> itPrompt x = itPrompt n \<and> itOptions x = itOptions n"
    using x(2) normalizeInteraction_ok [OF assms(1)] assms(5-8) by (intro request_json_inj) (simp_all add: request_valid_def)
  then show ?thesis
    using assms(1,4) x(1) by (auto simp: it_Create_def createInteraction_def found it_put_def)
qed

section \<open>Waiting\<close>

definition it_ready :: "string \<times> string \<Rightarrow> interaction_store \<Rightarrow> bool" where
  "it_ready q s \<longleftrightarrow> isnClosed s \<or> (\<exists>x. it_lookup s (fst q) (snd q) = Some x \<and> it_Terminal (itState x))"

lemma it_look_None: "it_look q s = None \<longleftrightarrow> \<not> isnClosed s \<and> (\<exists>x. it_lookup s (fst q) (snd q) = Some x \<and> \<not> it_Terminal (itState x))"
  by (auto simp: it_look_def getInteraction_def it_lookup_def split: option.splits)

lemma it_exec_closed: "it_exec c s = Some s' \<Longrightarrow> isnClosed s \<Longrightarrow> isnClosed s'"
  using it_exec_effect [of c s s'] by (auto simp: it_creates_def it_settles_def)

lemma it_exec_ready:
  assumes "it_exec c s = Some s'" "it_ready q s"
  shows "it_ready q s'"
proof (cases "isnClosed s")
  case True
  then show ?thesis using it_exec_closed [OF assms(1)] by (simp add: it_ready_def)
next
  case False
  then obtain x where x: "it_lookup s (fst q) (snd q) = Some x" "it_Terminal (itState x)" using assms(2) by (auto simp: it_ready_def)
  then show ?thesis using it_exec_lookup [OF assms(1) x(1)] by (auto simp: it_ready_def settles_def it_Terminal_def)
qed

lemma it_put_notify:
  assumes "notify_ok (isnNotify s)"
  shows "\<exists>s' r'. it_put sid r s = Some (s', r') \<and> notify_ok (isnNotify s') \<and> follows (isnNotify s) (isnNotify s') \<and>
    (s' = s \<or> (\<forall>k. k \<noteq> sid \<longrightarrow> interactions_of s' k = interactions_of s k) \<and> isnClosed s' = isnClosed s \<and>
      (\<forall>ch. map_of (ntChannels (isnNotify s)) sid = Some ch \<longrightarrow> ch \<in> set (ntClosed (isnNotify s'))))"
proof (cases "\<exists>st y. r = Inr (st, y, True)")
  case True
  then obtain st y where r: "r = Inr (st, y, True)" by blast
  obtain nt where nt: "signalLocked sid (isnNotify s) = Some nt" "notify_ok nt" "follows (isnNotify s) nt"
    "\<And>ch. map_of (ntChannels (isnNotify s)) sid = Some ch \<Longrightarrow> ch \<in> set (ntClosed nt)" using signalLocked_ok [OF assms] by blast
  then show ?thesis by (simp add: it_put_def r interactions_of_put)
next
  case False
  then have "\<exists>q. it_put sid r s = Some (s, q)" by (auto simp: it_put_def split: sum.splits prod.splits)
  then show ?thesis using assms by auto
qed

text \<open>A call signals the one session that it changes, or closes every channel.\<close>

lemma it_exec_notify:
  assumes "notify_ok (isnNotify s)"
  shows "\<exists>s'. it_exec c s = Some s' \<and> notify_ok (isnNotify s') \<and> follows (isnNotify s) (isnNotify s') \<and>
    (s' = s \<or> (\<forall>k ch. map_of (ntChannels (isnNotify s)) k = Some ch \<longrightarrow> ch \<in> set (ntClosed (isnNotify s')) \<or>
      interactions_of s' k = interactions_of s k \<and> isnClosed s' = isnClosed s))"
proof -
  have put: "\<exists>s'. map_option fst (it_put sid r s) = Some s' \<and> notify_ok (isnNotify s') \<and> follows (isnNotify s) (isnNotify s') \<and>
    (s' = s \<or> (\<forall>k ch. map_of (ntChannels (isnNotify s)) k = Some ch \<longrightarrow> ch \<in> set (ntClosed (isnNotify s')) \<or>
      interactions_of s' k = interactions_of s k \<and> isnClosed s' = isnClosed s))" for sid r
  proof -
    obtain s' q where p: "it_put sid r s = Some (s', q)" "notify_ok (isnNotify s')" "follows (isnNotify s) (isnNotify s')"
      "s' = s \<or> (\<forall>k. k \<noteq> sid \<longrightarrow> interactions_of s' k = interactions_of s k) \<and> isnClosed s' = isnClosed s \<and>
        (\<forall>ch. map_of (ntChannels (isnNotify s)) sid = Some ch \<longrightarrow> ch \<in> set (ntClosed (isnNotify s')))"
      using it_put_notify [OF assms, of sid r] by blast
    have "s' = s \<or> (\<forall>k ch. map_of (ntChannels (isnNotify s)) k = Some ch \<longrightarrow> ch \<in> set (ntClosed (isnNotify s')) \<or>
      interactions_of s' k = interactions_of s k \<and> isnClosed s' = isnClosed s)"
      using p(4) by metis
    then show ?thesis using p(1-3) by simp
  qed
  have same: ?thesis if "it_exec c s = Some s" using that assms by auto
  show ?thesis
  proof (cases c)
    case (NCreate ctx newID clock v)
    show ?thesis
    proof (cases "check ctx (normalizeInteraction newID v)")
      case (Inl e)
      show ?thesis by (rule same) (simp add: NCreate it_Create_def Inl)
    next
      case (Inr n)
      show ?thesis
      proof (cases "isnClosed s")
        case True
        show ?thesis by (rule same) (simp add: NCreate it_Create_def Inr True)
      next
        case False
        then have "it_exec c s = map_option fst (it_put (itSessionID n) (createInteraction (interactions_of s (itSessionID n)) n clock) s)"
          by (simp add: NCreate it_Create_def Inr)
        then show ?thesis using put by metis
      qed
    qed
  next
    case (NResolve ctx clock sid i rv answer)
    show ?thesis
    proof (cases "and_then ctx (reject_if (isnClosed s) (Wrapf ErrStoreClosed []))")
      case None
      then have "it_exec c s = map_option fst (it_put sid (resolveInteraction (interactions_of s sid) i rv answer clock) s)"
        by (simp add: NResolve it_Resolve_def)
      then show ?thesis using put by metis
    next
      case (Some e)
      show ?thesis by (rule same) (simp add: NResolve it_Resolve_def Some)
    qed
  next
    case (NCancel ctx clock sid i rv)
    show ?thesis
    proof (cases "and_then ctx (reject_if (isnClosed s) (Wrapf ErrStoreClosed []))")
      case None
      then have "it_exec c s = map_option fst (it_put sid (cancelInteraction (interactions_of s sid) i rv clock) s)"
        by (simp add: NCancel it_Cancel_def)
      then show ?thesis using put by metis
    next
      case (Some e)
      show ?thesis by (rule same) (simp add: NCancel it_Cancel_def Some)
    qed
  next
    case NClose
    obtain nt where "close_channels (ntChannels (isnNotify s)) (isnNotify s) = Some nt" "notify_ok nt" "follows (isnNotify s) nt"
      "\<And>sid ch. map_of (ntChannels (isnNotify s)) sid = Some ch \<Longrightarrow> ch \<in> set (ntClosed nt)" using close_channels_follows [OF assms] by blast
    then show ?thesis using NClose assms by (auto simp: it_Close_def)
  qed
qed

interpretation it: waitable it_exec it_look fst isnNotify "\<lambda>n s. s\<lparr>isnNotify := n\<rparr>" it_ready
proof
  fix s :: interaction_store and q and c and s' and ch and n
  show "isnNotify (s\<lparr>isnNotify := n\<rparr>) = n" by simp
  show "it_ready q (s\<lparr>isnNotify := n\<rparr>) = it_ready q s" by (simp add: it_ready_def it_lookup_def interactions_of_def)
  show "it_look q (s\<lparr>isnNotify := n\<rparr>) = it_look q s" by (simp add: it_look_def interactions_of_def)
  show "it_ready q s \<Longrightarrow> it_look q s \<noteq> None" by (auto simp: it_look_None it_ready_def)
  show "notify_ok (isnNotify s) \<Longrightarrow> \<exists>s'. it_exec c s = Some s' \<and> notify_ok (isnNotify s') \<and> follows (isnNotify s) (isnNotify s')"
    using it_exec_notify by blast
  show "it_exec c s = Some s' \<Longrightarrow> it_ready q s \<Longrightarrow> it_ready q s'" by (rule it_exec_ready)
  assume a: "notify_ok (isnNotify s)" "it_exec c s = Some s'" "it_look q s = None" "map_of (ntChannels (isnNotify s)) (fst q) = Some ch"
  then obtain x where x: "it_lookup s (fst q) (snd q) = Some x" by (auto simp: it_look_None)
  show "it_look q s' = None \<or> it_ready q s' \<and> ch \<in> set (ntClosed (isnNotify s'))"
  proof (cases "it_look q s'")
    case (Some r)
    then have "it_ready q s'"
      using it_exec_lookup [OF a(2) x] it_look_None [of q s'] by (auto simp: it_ready_def)
    moreover have "s' \<noteq> s" using Some a(3) by auto
    moreover have "\<not> (interactions_of s' (fst q) = interactions_of s (fst q) \<and> isnClosed s' = isnClosed s)"
    proof
      assume "interactions_of s' (fst q) = interactions_of s (fst q) \<and> isnClosed s' = isnClosed s"
      then have "it_look q s' = it_look q s" by (simp add: it_look_def)
      then show False using Some a(3) by simp
    qed
    ultimately show ?thesis using it_exec_notify [OF a(1), of c] a(2,4) by auto
  qed simp
qed

abbreviation it_waits ::
  "(interaction_store, string \<times> string, interaction) wait_system \<Rightarrow> (interaction_store, string \<times> string, interaction) wait_system \<Rightarrow> bool" where
  "it_waits \<equiv> wait_step it_exec it_look fst isnNotify (\<lambda>n s. s\<lparr>isnNotify := n\<rparr>)"

text \<open>
  Whoever waits for an interaction gets its outcome, under every interleaving. What
  \<open>Wait\<close> returned is the settled interaction, and it stays so. A waiter that is blocked when
  the interaction is settled or the store is closed is woken, and every later look returns; and
  no call panics.
\<close>

theorem it_Wait_correct:
  assumes "wait_reachable it_exec it_look fst isnNotify (\<lambda>n s. s\<lparr>isnNotify := n\<rparr>) NewMemoryInteractionStore w"
  shows "(((sid, i), WaitDone (Inr x)) \<in> set (wsWaiters w) \<longrightarrow> it_Terminal (itState x) \<and> it_lookup (wsStore w) sid i = Some x) \<and>
    (k < length (wsWaiters w) \<longrightarrow> wsWaiters w ! k = ((sid, i), WaitBlocked ch) \<longrightarrow>
      isnClosed (wsStore w) \<or> (\<exists>y. it_lookup (wsStore w) sid i = Some y \<and> it_Terminal (itState y)) \<longrightarrow>
      it_waits w (w\<lparr>wsWaiters := (wsWaiters w)[k := ((sid, i), WaitLooking)]\<rparr>) \<and>
      (\<forall>w'. it_waits\<^sup>*\<^sup>* w w' \<longrightarrow> (\<exists>r. it_look (sid, i) (wsStore w') = Some r))) \<and>
    it_exec c (wsStore w) \<noteq> None"
proof (intro conjI impI)
  have ok: "notify_ok (isnNotify NewMemoryInteractionStore)" by (simp add: NewMemoryInteractionStore_def)
  show "it_exec c (wsStore w) \<noteq> None" by (rule it.reachable_no_panic [OF assms ok])
  let ?P = "\<lambda>s. it_Terminal (itState x) \<and> it_lookup s sid i = Some x"
  have "?P (wsStore w)" if "((sid, i), WaitDone (Inr x)) \<in> set (wsWaiters w)"
  proof (rule it.reachable_results [OF assms that, where I = "\<lambda>_. True"])
    show "?P s" if "it_look (sid, i) s = Some (Inr x)" for s
      using that by (auto simp: it_look_def getInteraction_def it_lookup_def split: if_splits option.splits)
    show "True \<and> (?P s \<longrightarrow> ?P s')" if "it_exec c s = Some s'" for c s s'
      using it_exec_lookup [OF that, of sid i x] by (auto simp: settles_def it_Terminal_def)
    show "?P (s\<lparr>isnNotify := n\<rparr>) = ?P s" for n s by (simp add: it_lookup_def interactions_of_def)
  qed simp_all
  then show "((sid, i), WaitDone (Inr x)) \<in> set (wsWaiters w) \<Longrightarrow> it_Terminal (itState x)"
    "((sid, i), WaitDone (Inr x)) \<in> set (wsWaiters w) \<Longrightarrow> it_lookup (wsStore w) sid i = Some x" by blast+
  assume k: "k < length (wsWaiters w)" "wsWaiters w ! k = ((sid, i), WaitBlocked ch)"
    "isnClosed (wsStore w) \<or> (\<exists>y. it_lookup (wsStore w) sid i = Some y \<and> it_Terminal (itState y))"
  have ready: "it_ready (sid, i) (wsStore w)" using k(3) by (simp add: it_ready_def)
  then have look: "it_look (sid, i) (wsStore w) \<noteq> None" by (rule it.ready_look)
  show "it_waits w (w\<lparr>wsWaiters := (wsWaiters w)[k := ((sid, i), WaitLooking)]\<rparr>)"
    by (rule it.no_lost_wakeup [OF assms ok k(1,2) look])
  show "\<forall>w'. it_waits\<^sup>*\<^sup>* w w' \<longrightarrow> (\<exists>r. it_look (sid, i) (wsStore w') = Some r)"
    using it.ready_stays_run [OF _ ready] by blast
qed

section \<open>A sample run\<close>

definition question_demo :: interaction where
  "question_demo = \<lparr>itID = ''q1'', itSessionID = ''s1'', itExecutionID = ''x1'', itSequence = 0, itKind = InteractionKindOther [],
     itPrompt = ''Go on?'', itOptions = [\<lparr>ioID = ''a'', ioLabel = ''Yes '', ioDescription = []\<rparr>, \<lparr>ioID = ''b'', ioLabel = ''No'', ioDescription = ''stop''\<rparr>],
     itState = InteractionStateOther [], itAnswer = None, itRevision = 0, itCreatedAt = 0, itUpdatedAt = 0\<rparr>"

definition answer_demo :: interaction_answer where
  "answer_demo = \<lparr>iaOptionID = '' a'', iaText = []\<rparr>"

definition it_demo :: interaction_store where
  "it_demo = it_step (NCreate None ''n'' 10 question_demo) NewMemoryInteractionStore"

theorem it_settled_once_witness:
  "\<exists>s' y e. it_Resolve None 11 ''s1'' ''q1'' 1 answer_demo it_demo = Some (s', Inr y) \<and>
     it_Cancel None 12 ''s1'' ''q1'' 1 s' = Some (s', Inl e) \<and> errors_is e ErrInteractionConflict"
proof -
  let ?r = "it_Resolve None 11 ''s1'' ''q1'' 1 answer_demo it_demo"
  have "map_option (\<lambda>(s, r). (isnClosed s, map_sum id itID r)) ?r = Some (False, Inr ''q1'')" by code_simp
  then obtain s' y where r: "?r = Some (s', Inr y)" "\<not> isnClosed s'" by (cases ?r; cases "snd (the ?r)") auto
  have "s' = run_calls it_step [] s'" by simp
  then show ?thesis using it_settled_once [OF disjI1 [OF r(1)] _ r(2)] r(1) by blast
qed

text \<open>The same request again, and another under the same ID.\<close>

lemma it_demo_inv: "it_inv it_demo"
  using it_inv_exec [OF it_inv_new, of "NCreate None ''n'' 10 question_demo"] by (auto simp: it_demo_def it_step_def it_inv_new split: option.splits)

theorem it_Create_identity_witness:
  "\<exists>x. it_lookup it_demo ''s1'' ''q1'' = Some x \<and> it_Create None ''n'' 20 question_demo it_demo = Some (it_demo, Inr x) \<and>
     it_Create None ''n'' 20 (question_demo\<lparr>itPrompt := ''Stop?''\<rparr>) it_demo =
       Some (it_demo, Inl (Wrapf ErrInteractionConflict ''%w: interaction ID %s was reused''))"
proof -
  let ?key = "\<lambda>x. (itKind x, itPrompt x, itOptions x, itExecutionID x)"
  let ?n = "normalizeInteraction ''n'' question_demo" and ?n' = "normalizeInteraction ''n'' (question_demo\<lparr>itPrompt := ''Stop?''\<rparr>)"
  let ?opts = "[\<lparr>ioID = ''a'', ioLabel = ''Yes'', ioDescription = []\<rparr>, \<lparr>ioID = ''b'', ioLabel = ''No'', ioDescription = ''stop''\<rparr>]"
  have "map_option ?key (it_lookup it_demo ''s1'' ''q1'') = Some (InteractionQuestion, ''Go on?'', ?opts, ''x1'')" by code_simp
  then obtain x where x: "it_lookup it_demo ''s1'' ''q1'' = Some x" "?key x = (InteractionQuestion, ''Go on?'', ?opts, ''x1'')" by auto
  have "map_sum id (\<lambda>n. (itSessionID n, itID n, ?key n)) ?n = Inr (''s1'', ''q1'', InteractionQuestion, ''Go on?'', ?opts, ''x1'')" by code_simp
  then obtain n where n: "?n = Inr n" "itSessionID n = ''s1''" "itID n = ''q1''" "?key n = ?key x" using x(2) by (cases ?n) auto
  have "map_sum id (\<lambda>n. (itSessionID n, itID n, ?key n)) ?n' = Inr (''s1'', ''q1'', InteractionQuestion, ''Stop?'', ?opts, ''x1'')" by code_simp
  then obtain n' where n': "?n' = Inr n'" "itSessionID n' = ''s1''" "itID n' = ''q1''" "?key n' = (InteractionQuestion, ''Stop?'', ?opts, ''x1'')"
    by (cases ?n') auto
  have v: "valid_utf8 ''Go on?''" "valid_utf8 ''Stop?''" "list_all option_valid ?opts"
    by (simp_all add: valid_utf8_def option_valid_def coerce_utf8.simps)
  have open': "\<not> isnClosed it_demo" by code_simp
  have look: "it_lookup it_demo (itSessionID n) (itID n) = Some x" "it_lookup it_demo (itSessionID n') (itID n') = Some x" using x n n' by simp_all
  show ?thesis
    using it_Create_identity [OF n(1) look(1) it_demo_inv open'] it_Create_identity [OF n'(1) look(2) it_demo_inv open'] x n n' v by auto
qed

text \<open>A waiter blocks on the pending question, then it is answered.\<close>

theorem it_Wait_correct_witness:
  "\<exists>w. wait_reachable it_exec it_look fst isnNotify (\<lambda>n s. s\<lparr>isnNotify := n\<rparr>) NewMemoryInteractionStore w \<and>
     wsWaiters w = [((''s1'', ''q1''), WaitBlocked 1)] \<and> it_waits w (w\<lparr>wsWaiters := [((''s1'', ''q1''), WaitLooking)]\<rparr>)"
proof -
  let ?q = "(''s1'', ''q1'')" and ?c = "NCreate None ''n'' 10 question_demo" and ?d = "NResolve None 11 ''s1'' ''q1'' 1 answer_demo"
  let ?nt = "fst (notifyLocked ''s1'' (isnNotify it_demo))"
  let ?s1 = "it_demo\<lparr>isnNotify := ?nt\<rparr>"
  have "it_exec ?c NewMemoryInteractionStore \<noteq> None" by code_simp
  then have c: "it_exec ?c NewMemoryInteractionStore = Some it_demo" unfolding it_demo_def it_step_def by force
  have 1: "it_waits \<lparr>wsStore = NewMemoryInteractionStore, wsWaiters = []\<rparr> \<lparr>wsStore = it_demo, wsWaiters = []\<rparr>"
    using wait_call [of it_exec ?c "\<lparr>wsStore = NewMemoryInteractionStore, wsWaiters = []\<rparr>" it_demo] c by simp
  have 2: "it_waits \<lparr>wsStore = it_demo, wsWaiters = []\<rparr> \<lparr>wsStore = it_demo, wsWaiters = [(?q, WaitLooking)]\<rparr>"
    using wait_start [of _ _ _ _ _ "\<lparr>wsStore = it_demo, wsWaiters = []\<rparr>" ?q] by simp
  have "it_look ?q it_demo = None" by code_simp
  moreover have "snd (notifyLocked (fst ?q) (isnNotify it_demo)) = 1" by code_simp
  then have "notifyLocked (fst ?q) (isnNotify it_demo) = (?nt, 1)" by (metis fst_conv prod.collapse)
  ultimately have 3: "it_waits \<lparr>wsStore = it_demo, wsWaiters = [(?q, WaitLooking)]\<rparr> \<lparr>wsStore = ?s1, wsWaiters = [(?q, WaitBlocked 1)]\<rparr>"
    using wait_block [of 0 "\<lparr>wsStore = it_demo, wsWaiters = [(?q, WaitLooking)]\<rparr>" ?q it_look fst isnNotify ?nt 1 it_exec "\<lambda>n s. s\<lparr>isnNotify := n\<rparr>"] by simp
  have "map_option (\<lambda>s. map_option (\<lambda>x. it_Terminal (itState x)) (it_lookup s ''s1'' ''q1'')) (it_exec ?d ?s1) = Some (Some True)" by code_simp
  then obtain s2 y where s2: "it_exec ?d ?s1 = Some s2" "it_lookup s2 ''s1'' ''q1'' = Some y" "it_Terminal (itState y)" by auto
  let ?w = "\<lparr>wsStore = s2, wsWaiters = [(?q, WaitBlocked 1)]\<rparr>"
  have 4: "it_waits \<lparr>wsStore = ?s1, wsWaiters = [(?q, WaitBlocked 1)]\<rparr> ?w"
    using wait_call [of it_exec ?d "\<lparr>wsStore = ?s1, wsWaiters = [(?q, WaitBlocked 1)]\<rparr>" s2] s2(1) by simp
  have w: "wait_reachable it_exec it_look fst isnNotify (\<lambda>n s. s\<lparr>isnNotify := n\<rparr>) NewMemoryInteractionStore ?w"
    unfolding wait_reachable_def using 1 2 3 4 by (meson converse_rtranclp_into_rtranclp rtranclp.rtrancl_refl)
  have "it_waits ?w (?w\<lparr>wsWaiters := [(?q, WaitLooking)]\<rparr>)"
    using it_Wait_correct [OF w, of "''s1''" "''q1''" _ 0 1] s2(2,3) by simp
  then show ?thesis using w by (metis wait_system.select_convs(2))
qed

end
