(* ===== verification/Gateway_Event_Store.thy ===== *)
theory Gateway_Event_Store
  imports Gateway_Events Stores
begin

text \<open>
  What the event store promises its clients, for every run and every interleaving: stored
  streams load again, events keep their number and content, a reader who follows the cursor
  sees every event once and in order, and a waiting reader is always woken.
\<close>

section \<open>Effects of calls\<close>

definition es_step :: "event_codec \<Rightarrow> es_call \<Rightarrow> event_store \<Rightarrow> event_store" where
  "es_step codec c s = (case es_exec codec c s of Some s' \<Rightarrow> s' | None \<Rightarrow> s)"

text \<open>The clock never shows the zero time.\<close>

fun es_clock_ok :: "es_call \<Rightarrow> bool" where
  "es_clock_ok (EAppend ctx clock sid event) \<longleftrightarrow> clock \<noteq> 0"
| "es_clock_ok EClose \<longleftrightarrow> True"

definition appended :: "event_codec \<Rightarrow> gotime \<Rightarrow> sdk_event \<Rightarrow> string \<Rightarrow> event_store \<Rightarrow> event_store \<Rightarrow> agent_event \<Rightarrow> bool" where
  "appended codec clock event sid s s' created \<longleftrightarrow> \<not> evClosed s \<and>
     (\<exists>n st nt. normalizeRuntimeEvent codec event = Inr n \<and> resourceNamePattern sid \<and>
        appendAgentEvent (events_of s sid) sid n clock = Inr (st, created, True) \<and> signalLocked sid (evNotify s) = Some nt \<and>
        s' = s\<lparr>evStreams := AList.update sid st (evStreams s), evNotify := nt\<rparr>)"

lemma es_Append_effect:
  assumes "es_Append codec ctx clock sid event s = Some (s', r)"
  shows "s' = s \<or> (\<exists>created. r = Inr created \<and> appended codec clock event (TrimSpace sid) s s' created)"
  using assms
  by (auto simp: es_Append_def appended_def normalizeEventSessionID_def Let_def result_simps
      split: sum.splits prod.splits if_splits)

lemma appendedE:
  assumes "appended codec clock event sid s s' created"
  obtains n st nt where "\<not> evClosed s" "normalizeRuntimeEvent codec event = Inr n" "resourceNamePattern sid"
    "appendAgentEvent (events_of s sid) sid n clock = Inr (st, created, True)" "signalLocked sid (evNotify s) = Some nt"
    "s' = s\<lparr>evStreams := AList.update sid st (evStreams s), evNotify := nt\<rparr>"
    "\<And>k. events_of s' k = (if k = sid then st else events_of s k)"
  using assms unfolding appended_def by (auto simp: events_of_def)

lemma events_of_Close: "es_Close s = Some s' \<Longrightarrow> events_of s' k = events_of s k"
  by (auto simp: es_Close_def events_of_def split: if_splits)

lemma append_extends:
  "appendAgentEvent st sid n clock = Inr (st', created, changed) \<Longrightarrow> \<exists>es. esEvents st' = esEvents st @ es"
  by (auto simp: appendAgentEvent_def Let_def split: option.splits if_splits)

text \<open>Streams only grow.\<close>

lemma es_exec_extends:
  assumes "es_exec codec c s = Some s'"
  shows "\<exists>es. esEvents (events_of s' k) = esEvents (events_of s k) @ es"
proof (cases c)
  case (EAppend ctx clock sid event)
  then obtain r where "es_Append codec ctx clock sid event s = Some (s', r)" using assms by auto
  from es_Append_effect [OF this] show ?thesis
    by (auto elim!: appendedE dest: append_extends)
next
  case EClose
  then show ?thesis using events_of_Close assms by simp
qed

definition es_inv :: "event_codec \<Rightarrow> event_store \<Rightarrow> bool" where
  "es_inv codec s \<longleftrightarrow> (\<forall>sid. events_ok codec sid (events_of s sid))"

lemma es_inv_new: "es_inv codec NewMemoryEventStore"
  by (simp add: es_inv_def NewMemoryEventStore_def events_of_def)

lemma es_inv_exec:
  assumes "codec_ok codec" "es_inv codec s" "es_clock_ok c" "es_exec codec c s = Some s'"
  shows "es_inv codec s'"
proof (cases c)
  case (EAppend ctx clock sid event)
  then obtain r where "es_Append codec ctx clock sid event s = Some (s', r)" using assms(4) by auto
  from es_Append_effect [OF this] show ?thesis
  proof
    assume "\<exists>created. r = Inr created \<and> appended codec clock event (TrimSpace sid) s s' created"
    then obtain created where "appended codec clock event (TrimSpace sid) s s' created" by blast
    then obtain n st nt where a: "normalizeRuntimeEvent codec event = Inr n"
      "appendAgentEvent (events_of s (TrimSpace sid)) (TrimSpace sid) n clock = Inr (st, created, True)"
      "\<And>k. events_of s' k = (if k = TrimSpace sid then st else events_of s k)" by (elim appendedE) blast
    have "events_ok codec (TrimSpace sid) (events_of s (TrimSpace sid))" using assms(2) by (simp add: es_inv_def)
    from events_ok_append [OF assms(1) this a(1) _ a(2)] show ?thesis using assms(2,3) EAppend a(3) by (simp add: es_inv_def)
  qed (use assms(2) in simp)
next
  case EClose
  then show ?thesis using assms(2,4) events_of_Close by (simp add: es_inv_def)
qed

lemma es_step_extends: "\<exists>es. esEvents (events_of (es_step codec c s) k) = esEvents (events_of s k) @ es"
  using es_exec_extends [of codec c s] by (cases "es_exec codec c s") (auto simp: es_step_def)

lemma es_run_extends: "\<exists>es. esEvents (events_of (run_calls (es_step codec) cs s) k) = esEvents (events_of s k) @ es"
proof (induction cs arbitrary: s)
  case (Cons c cs)
  then show ?case using es_step_extends [of codec c s k] by (metis append.assoc run_calls.simps(2))
qed simp

lemma es_inv_run:
  assumes "codec_ok codec" "list_all es_clock_ok cs" "es_inv codec s"
  shows "es_inv codec (run_calls (es_step codec) cs s)"
proof (rule run_calls_invariant)
  fix c s assume "c \<in> set cs" "es_inv codec s"
  then show "es_inv codec (es_step codec c s)"
    using es_inv_exec [OF assms(1)] assms(2) by (auto simp: es_step_def list_all_iff split: option.splits)
qed (rule assms(3))

section \<open>Stored streams\<close>

lemma validate_events_ok:
  assumes "map (\<lambda>e. unat (aeSequence e)) es = [Suc (unat m)..<Suc (unat m + length es)]" "distinct (map aeID es)"
    and "aeID ` set es \<inter> set seen = {}" "\<forall>e\<in>set es. event_ok codec sid e"
  shows "\<exists>q. validate_events codec sid m seen es = Inr q \<and> unat q = unat m + length es"
  using assms
proof (induction es arbitrary: m seen)
  case (Cons e es)
  have "[Suc (unat m)..<Suc (unat m + length (e # es))] = Suc (unat m) # [Suc (Suc (unat m))..<Suc (Suc (unat m) + length es)]"
    by (subst upt_conv_Cons) simp_all
  then have e: "unat (aeSequence e) = Suc (unat m)"
    "map (\<lambda>e. unat (aeSequence e)) es = [Suc (unat (aeSequence e))..<Suc (unat (aeSequence e) + length es)]"
    using Cons.prems(1) by simp_all
  then have "\<not> aeSequence e \<le> m" "aeSequence e \<noteq> 0" by (auto simp: word_le_nat_alt)
  then show ?case
    using Cons.IH [OF e(2), of "aeID e # seen"] Cons.prems e(1) by (auto simp: event_ok_def)
qed simp

text \<open>
  C26: Whatever was appended, in any order and by anyone, each session's stream is one that the
  gateway accepts when it loads it: numbered from 1 without gaps, no event ID twice, every
  event with a valid payload.
\<close>

theorem es_run_validates:
  assumes "codec_ok codec" "list_all es_clock_ok cs"
    and "map_of (evStreams (run_calls (es_step codec) cs NewMemoryEventStore)) sid = Some stream"
  shows "map (\<lambda>e. unat (aeSequence e)) (esEvents stream) = [1..<Suc (length (esEvents stream))] \<and>
    (\<exists>loaded. validateStoredEventStream codec sid stream = Inr loaded \<and> esEvents loaded = esEvents stream)"
proof -
  have ok: "events_ok codec sid stream"
    using es_inv_run [OF assms(1,2) es_inv_new] assms(3) unfolding es_inv_def events_of_def by (metis option.simps(5))
  then obtain q where q: "validate_events codec sid 0 [] (esEvents stream) = Inr q" "unat q = length (esEvents stream)"
    using validate_events_ok [of "esEvents stream" 0 "[]" codec sid] by (auto simp: events_ok_def)
  let ?next = "if esNextSequence stream = 0 then 1 else esNextSequence stream"
  have "q < ?next" unfolding word_less_nat_alt q(2) using ok unfolding events_ok_def by linarith
  moreover have "map (\<lambda>e. unat (aeSequence e)) (esEvents stream) = [1..<Suc (length (esEvents stream))]"
    using ok unfolding events_ok_def by blast
  ultimately show ?thesis using q(1) by (auto simp: validateStoredEventStream_def Let_def simp del: upt_Suc split: if_splits)
qed

lemma normalize_ID: "normalizeRuntimeEvent codec e = Inr n \<Longrightarrow> evID n = TrimSpace (evID e)"
  by (auto simp: normalizeRuntimeEvent_def projectRuntimeEventPayload_def remarshal_def result_simps Let_def
      split: sum.splits if_splits)

lemma find_append: "find P xs = Some x \<Longrightarrow> find P (xs @ ys) = Some x"
  by (induction xs) (auto split: if_splits)

lemma find_snoc: "find P xs = None \<Longrightarrow> P x \<Longrightarrow> find P (xs @ [x]) = Some x"
  by (induction xs) (auto split: if_splits)

lemma appendAgentEvent_find:
  assumes "appendAgentEvent st sid n clock = Inr (st', created, changed)"
  shows "find (\<lambda>c. aeID c = evID n) (esEvents st') = Some created"
proof (cases "find (\<lambda>c. aeID c = evID n) (esEvents st)")
  case None
  have "esEvents st' = esEvents st @ [created] \<and> aeID created = evID n"
    using assms None by (auto simp: appendAgentEvent_def Let_def split: if_splits)
  then show ?thesis using find_snoc [OF None] by simp
qed (use assms in \<open>simp add: appendAgentEvent_def\<close>)

lemma append_unchanged: "appendAgentEvent st sid n clock = Inr (st', created, False) \<Longrightarrow> st' = st"
  by (auto simp: appendAgentEvent_def Let_def split: option.splits if_splits)

lemma es_Append_find:
  assumes "es_Append codec ctx clock sid event s = Some (s', Inr created)"
  shows "find (\<lambda>c. aeID c = TrimSpace (evID event)) (esEvents (events_of s' (TrimSpace sid))) = Some created"
proof -
  obtain n st changed where a: "normalizeRuntimeEvent codec event = Inr n"
    "appendAgentEvent (events_of s (TrimSpace sid)) (TrimSpace sid) n clock = Inr (st, created, changed)"
    "if changed then map_of (evStreams s') (TrimSpace sid) = Some st else s' = s"
    using assms by (auto simp: es_Append_def normalizeEventSessionID_def Let_def result_simps
        split: sum.splits prod.splits if_splits)
  then have "events_of s' (TrimSpace sid) = st"
    using append_unchanged [of "events_of s (TrimSpace sid)" "TrimSpace sid" n clock st created]
    by (cases changed) (auto simp: events_of_def [of s'])
  show ?thesis using appendAgentEvent_find [OF a(2)] normalize_ID [OF a(1)] \<open>events_of s' (TrimSpace sid) = st\<close> by simp
qed

text \<open>
  Appending is idempotent by event ID. Once an append returned an event, every later
  append with that ID on the session, whatever its content, returns the very same event and
  changes nothing, no matter what was called in between.
\<close>

theorem es_Append_idempotent:
  assumes "es_Append codec None clock sid event s = Some (s', Inr created)"
    and "es_Append codec None clock' sid event' (run_calls (es_step codec) cs s') = Some (s'', Inr again)"
    and "TrimSpace (evID event') = TrimSpace (evID event)"
  shows "again = created \<and> s'' = run_calls (es_step codec) cs s'"
proof -
  let ?sid = "TrimSpace sid" and ?same = "\<lambda>c. aeID c = TrimSpace (evID event)" and ?s = "run_calls (es_step codec) cs s'"
  have first: "find ?same (esEvents (events_of s' ?sid)) = Some created" by (rule es_Append_find [OF assms(1)])
  obtain es where "esEvents (events_of ?s ?sid) = esEvents (events_of s' ?sid) @ es" using es_run_extends by blast
  then have later: "find ?same (esEvents (events_of ?s ?sid)) = Some created" using first by (simp add: find_append)
  obtain n where n: "normalizeRuntimeEvent codec event' = Inr n" "evID n = TrimSpace (evID event)"
    using assms(2,3) normalize_ID by (fastforce simp: es_Append_def result_simps split: sum.splits prod.splits)
  then have "appendAgentEvent (events_of ?s ?sid) ?sid n clock' = Inr (events_of ?s ?sid, created, False)"
    using later by (simp add: appendAgentEvent_def)
  then show ?thesis
    using assms(2) n by (auto simp: es_Append_def normalizeEventSessionID_def Let_def result_simps split: sum.splits prod.splits if_splits)
qed

section \<open>Following the cursor\<close>

text \<open>
  A client reads pages with \<open>List\<close> and goes on from each page's \<open>Next\<close>. Between two
  pages others call the store; a page that fails is asked for again.
\<close>

fun es_follow ::
  "event_codec \<Rightarrow> string \<Rightarrow> int \<Rightarrow> u64 \<Rightarrow> es_call list list \<Rightarrow> event_store \<Rightarrow> agent_event list \<times> u64 \<times> event_store" where
  "es_follow codec sid limit after [] s = ([], after, s)"
| "es_follow codec sid limit after (cs # css) s =
     (let s = run_calls (es_step codec) cs s in
      case es_List codec None sid \<lparr>eqAfter = after, eqLimit = limit\<rparr> s of
        Inl e \<Rightarrow> es_follow codec sid limit after css s
      | Inr page \<Rightarrow>
          if epItems page = [] then es_follow codec sid limit after css s
          else case es_follow codec sid limit (epNext page) css s of
            (items, cursor, s') \<Rightarrow> (epItems page @ items, cursor, s'))"

lemma es_List_page:
  assumes "codec_ok codec" "es_inv codec s" "es_List codec None sid query s = Inr page"
  shows "\<exists>k. epItems page = take k (drop (unat (eqAfter query)) (esEvents (events_of s (TrimSpace sid)))) \<and>
    (k = 0 \<longrightarrow> drop (unat (eqAfter query)) (esEvents (events_of s (TrimSpace sid))) = [])"
proof -
  obtain q where "normalizeEventQuery query = Inr q" "page = listAgentEvents codec (events_of s (TrimSpace sid)) q"
    using assms(3) by (auto simp: es_List_def normalizeEventSessionID_def Let_def result_simps)
  then have q: "eqAfter q = eqAfter query" "page = listAgentEvents codec (events_of s (TrimSpace sid)) q"
    by (auto simp: normalizeEventQuery_def Let_def result_simps split: if_splits)
  let ?events = "esEvents (events_of s (TrimSpace sid))"
  have ok: "events_ok codec (TrimSpace sid) (events_of s (TrimSpace sid))" using assms(2) by (simp add: es_inv_def)
  have items: "epItems page = list_events codec q [] eventPageEnvelopeOverhead ?events" by (simp add: q(2) listAgentEvents_def Let_def)
  then obtain k where k: "epItems page = take k (pending (eqAfter q) ?events)" using list_events_prefix by (metis append_Nil)
  have "pending (eqAfter q) ?events = []" if "epItems page = []"
  proof (cases "pending (eqAfter q) ?events")
    case (Cons e es)
    have "e \<in> set (pending (eqAfter q) ?events)" unfolding Cons by simp
    then have "e \<in> set ?events" by simp
    then obtain raw where "mAgentEvent codec e = Inr raw" using ok assms(1) unfolding events_ok_def event_ok_def codec_ok_def by blast
    then show ?thesis using that items list_events_empty [of codec q eventPageEnvelopeOverhead ?events] Cons by simp
  qed simp
  then show ?thesis using k events_ok_pending [OF ok] q(1) by (metis take0)
qed

lemma es_List_next:
  assumes "codec_ok codec" "es_inv codec s" "es_List codec None sid query s = Inr page" "epItems page \<noteq> []"
  shows "unat (epNext page) = unat (eqAfter query) + length (epItems page)"
proof -
  let ?events = "esEvents (events_of s (TrimSpace sid))" and ?a = "unat (eqAfter query)"
  obtain k where k: "epItems page = take k (drop ?a ?events)" using es_List_page [OF assms(1-3)] by blast
  have next_seq: "epNext page = aeSequence (last (epItems page))"
    using assms(3,4) by (auto simp: es_List_def listAgentEvents_def Let_def result_simps)
  define m where "m = length (epItems page) - 1"
  have m: "m < length (epItems page)" "length (epItems page) = Suc m" using assms(4) by (simp_all add: m_def)
  then have i: "?a + m < length ?events" "m < k" using k by simp_all
  have "last (epItems page) = epItems page ! m" using assms(4) by (simp add: last_conv_nth m_def)
  also have "\<dots> = ?events ! (?a + m)" using k i by simp
  finally have "last (epItems page) = ?events ! (?a + m)" .
  moreover have "unat (aeSequence (?events ! j)) = Suc j" if "j < length ?events" for j
    using assms(2) that nth_map [of j ?events "\<lambda>e. unat (aeSequence e)"] by (simp add: es_inv_def events_ok_def del: upt_Suc)
  ultimately show ?thesis using i(1) next_seq m(2) by simp
qed

lemma es_follow_run: "\<exists>cs. snd (snd (es_follow codec sid limit after css s)) = run_calls (es_step codec) cs s \<and> set cs \<subseteq> set (concat css)"
proof (induction css arbitrary: after s)
  case Nil
  have "s = run_calls (es_step codec) [] s" by simp
  then show ?case by (metis empty_subsetI es_follow.simps(1) list.set(1) snd_conv)
next
  case (Cons cs css)
  let ?s = "run_calls (es_step codec) cs s"
  have rest: "\<exists>ds. snd (snd (es_follow codec sid limit a css ?s)) = run_calls (es_step codec) ds s \<and> set ds \<subseteq> set (concat (cs # css))" for a
  proof -
    obtain ds where "snd (snd (es_follow codec sid limit a css ?s)) = run_calls (es_step codec) ds ?s" "set ds \<subseteq> set (concat css)"
      using Cons.IH by blast
    then show ?thesis by (intro exI [of _ "cs @ ds"]) (auto simp: run_calls_append)
  qed
  have "\<exists>a. snd (snd (es_follow codec sid limit after (cs # css) s)) = snd (snd (es_follow codec sid limit a css ?s))"
    by (auto simp: Let_def split: sum.splits prod.splits if_splits) (metis snd_conv)+
  then show ?case using rest by metis
qed

lemma es_follow_reads:
  assumes "codec_ok codec" "es_inv codec s" "list_all es_clock_ok (concat css)" 
    and "es_follow codec sid limit after css s = (items, cursor, s')"
  shows "items = take (length items) (drop (unat after) (esEvents (events_of s' (TrimSpace sid)))) \<and>
    unat cursor = unat after + length items"
  using assms(2-4)
proof (induction css arbitrary: after s items)
  case (Cons cs css)
  let ?s = "run_calls (es_step codec) cs s" and ?k = "TrimSpace sid"
  have inv: "es_inv codec ?s" using es_inv_run [OF assms(1) _ Cons.prems(1)] Cons.prems(2) by simp
  have clocks: "list_all es_clock_ok (concat css)" using Cons.prems(2) by simp
  let ?page = "es_List codec None sid \<lparr>eqAfter = after, eqLimit = limit\<rparr> ?s"
  show ?case
  proof (cases "\<exists>page. ?page = Inr page \<and> epItems page \<noteq> []")
    case False
    then have "es_follow codec sid limit after css ?s = (items, cursor, s')"
      using Cons.prems(3) by (auto simp: Let_def split: sum.splits if_splits)
    then show ?thesis using Cons.IH [OF inv clocks] by blast
  next
    case True
    then obtain page where page: "?page = Inr page" "epItems page \<noteq> []" by blast
    obtain items' where rest: "es_follow codec sid limit (epNext page) css ?s = (items', cursor, s')" "items = epItems page @ items'"
      using Cons.prems(3) page by (auto simp: Let_def split: prod.splits)
    note n = es_List_next [OF assms(1) inv page]
    obtain k where k: "epItems page = take k (drop (unat after) (esEvents (events_of ?s ?k)))"
      using es_List_page [OF assms(1) inv page(1)] by auto
    obtain es where es: "esEvents (events_of s' ?k) = esEvents (events_of ?s ?k) @ es"
      using es_follow_run [of codec sid limit "epNext page" css ?s] rest(1) es_run_extends [of codec] by (metis snd_conv)
    have front: "take (length (epItems page)) (drop (unat after) (esEvents (events_of s' ?k))) = epItems page"
      using k by (auto simp: es min_def)
    have "items' = take (length items') (drop (unat (epNext page)) (esEvents (events_of s' ?k)))" "unat cursor = unat (epNext page) + length items'"
      using Cons.IH [OF inv clocks rest(1)] by blast+
    then have "items' = take (length items') (drop (length (epItems page)) (drop (unat after) (esEvents (events_of s' ?k))))"
      "unat cursor = unat after + length items"
      using n rest(2) by (simp_all add: add.commute)
    then show ?thesis unfolding rest(2) length_append take_add front by simp
  qed
qed simp

text \<open>
  C27: A client that follows the cursor misses nothing and sees nothing twice. Whatever others
  append between its pages, the events it has read are the session's events after its first
  cursor, in order and without a gap, up to its cursor; and when a page comes back empty it has
  read everything there is.
\<close>

theorem es_cursor_complete:
  assumes "codec_ok codec" "list_all es_clock_ok (cs @ concat css)"
    and "es_follow codec sid limit after css (run_calls (es_step codec) cs NewMemoryEventStore) = (items, cursor, s')"
  shows "items = take (length items) (drop (unat after) (esEvents (events_of s' (TrimSpace sid)))) \<and>
    unat cursor = unat after + length items \<and>
    (\<forall>page. es_List codec None sid \<lparr>eqAfter = cursor, eqLimit = limit\<rparr> s' = Inr page \<longrightarrow> epItems page = [] \<longrightarrow>
      items = drop (unat after) (esEvents (events_of s' (TrimSpace sid))))"
proof -
  let ?s = "run_calls (es_step codec) cs NewMemoryEventStore" and ?events = "esEvents (events_of s' (TrimSpace sid))"
  have inv: "es_inv codec ?s" using es_inv_run [OF assms(1) _ es_inv_new] assms(2) by simp
  have clocks: "list_all es_clock_ok (concat css)" using assms(2) by simp
  note reads = es_follow_reads [OF assms(1) inv clocks assms(3)]
  obtain ds where ds: "s' = run_calls (es_step codec) ds ?s" "set ds \<subseteq> set (concat css)"
    using es_follow_run [of codec sid limit after css ?s] assms(3) by auto
  have "list_all es_clock_ok ds" using ds(2) clocks unfolding list_all_iff by blast
  then have "es_inv codec s'" using es_inv_run [OF assms(1) _ inv] ds(1) by simp
  then have "drop (unat cursor) ?events = []"
    if "es_List codec None sid \<lparr>eqAfter = cursor, eqLimit = limit\<rparr> s' = Inr page" "epItems page = []" for page
    using es_List_page [OF assms(1) _ that(1)] that(2) by fastforce
  moreover have "items = drop (unat after) ?events" if "drop (unat cursor) ?events = []"
  proof -
    have "length ?events \<le> unat after + length items" using that reads by simp
    then have "take (length items) (drop (unat after) ?events) = drop (unat after) ?events" by simp
    then show ?thesis using reads by metis
  qed
  ultimately show ?thesis using reads by blast
qed

section \<open>Waiting\<close>

definition es_ready :: "event_codec \<Rightarrow> string \<times> event_query \<Rightarrow> event_store \<Rightarrow> bool" where
  "es_ready codec q s \<longleftrightarrow> evClosed s \<or> epItems (listAgentEvents codec (events_of s (fst q)) (snd q)) \<noteq> []"

lemma es_look_iff: "es_look codec q s \<noteq> None \<longleftrightarrow> es_ready codec q s"
  by (simp add: es_look_def es_ready_def Let_def)

lemma es_ready_grows:
  assumes "esEvents (events_of s' (fst q)) = esEvents (events_of s (fst q)) @ es" "evClosed s \<longrightarrow> evClosed s'" "es_ready codec q s"
  shows "es_ready codec q s'"
proof -
  have "list_events codec (snd q) [] eventPageEnvelopeOverhead (xs @ ys) = [] \<Longrightarrow>
    list_events codec (snd q) [] eventPageEnvelopeOverhead xs = []" for xs ys
    unfolding list_events_empty by (auto split: list.splits)
  then show ?thesis using assms unfolding es_ready_def listAgentEvents_def by (auto simp: Let_def)
qed

lemma es_exec_closed: "es_exec codec c s = Some s' \<Longrightarrow> evClosed s \<Longrightarrow> evClosed s'"
  by (cases c) (auto simp: es_Close_def dest!: es_Append_effect elim!: appendedE split: if_splits)

lemma es_exec_notify:
  assumes "notify_ok (evNotify s)"
  shows "\<exists>s'. es_exec codec c s = Some s' \<and> notify_ok (evNotify s') \<and> follows (evNotify s) (evNotify s') \<and>
    (\<forall>q ch. \<not> es_ready codec q s \<and> map_of (ntChannels (evNotify s)) (fst q) = Some ch \<and> es_ready codec q s' \<longrightarrow>
      ch \<in> set (ntClosed (evNotify s')))"
proof (cases c)
  case (EAppend ctx clock sid event)
  show ?thesis
  proof (cases "\<exists>sid' st created. es_Append codec ctx clock sid event s =
      map_option (\<lambda>nt. (s\<lparr>evStreams := AList.update sid' st (evStreams s), evNotify := nt\<rparr>, Inr created)) (signalLocked sid' (evNotify s))")
    case True
    then obtain sid' st created where a: "es_Append codec ctx clock sid event s =
      map_option (\<lambda>nt. (s\<lparr>evStreams := AList.update sid' st (evStreams s), evNotify := nt\<rparr>, Inr created)) (signalLocked sid' (evNotify s))"
      by blast
    obtain nt where nt: "signalLocked sid' (evNotify s) = Some nt" "notify_ok nt" "follows (evNotify s) nt"
      "\<And>ch. map_of (ntChannels (evNotify s)) sid' = Some ch \<Longrightarrow> ch \<in> set (ntClosed nt)" using signalLocked_ok [OF assms] by blast
    let ?s = "s\<lparr>evStreams := AList.update sid' st (evStreams s), evNotify := nt\<rparr>"
    have "es_ready codec q ?s = es_ready codec q s" if "fst q \<noteq> sid'" for q
      using that by (simp add: es_ready_def events_of_def)
    then have "ch \<in> set (ntClosed nt)"
      if "\<not> es_ready codec q s" "map_of (ntChannels (evNotify s)) (fst q) = Some ch" "es_ready codec q ?s" for q ch
      using that nt(4) [of ch] by (cases "fst q = sid'") auto
    then show ?thesis using EAppend a nt(1-3) by (simp del: split_paired_All) blast
  next
    case False
    then have "\<exists>r. es_Append codec ctx clock sid event s = Some (s, r)"
      unfolding es_Append_def by (auto split: sum.splits prod.splits if_splits)
    then show ?thesis using EAppend assms by auto
  qed
next
  case EClose
  show ?thesis
  proof (cases "evClosed s")
    case True
    then show ?thesis using EClose assms by (auto simp: es_Close_def)
  next
    case False
    obtain nt where nt: "close_channels (ntChannels (evNotify s)) (evNotify s) = Some nt" "notify_ok nt" "follows (evNotify s) nt"
      "\<And>sid ch. map_of (ntChannels (evNotify s)) sid = Some ch \<Longrightarrow> ch \<in> set (ntClosed nt)" using close_channels_follows [OF assms] by blast
    then show ?thesis using EClose False by (auto simp: es_Close_def)
  qed
qed

interpretation ev: waitable "es_exec codec" "es_look codec" fst evNotify "\<lambda>n s. s\<lparr>evNotify := n\<rparr>" "es_ready codec" for codec
proof
  fix s :: event_store and q and c and s' and ch and n
  show "evNotify (s\<lparr>evNotify := n\<rparr>) = n" by simp
  show ready: "es_ready codec q (s\<lparr>evNotify := n\<rparr>) = es_ready codec q s" by (simp add: es_ready_def events_of_def)
  show "es_look codec q (s\<lparr>evNotify := n\<rparr>) = es_look codec q s" by (simp add: es_look_def events_of_def)
  show "es_ready codec q s \<Longrightarrow> es_look codec q s \<noteq> None" by (simp only: es_look_iff)
  show "notify_ok (evNotify s) \<Longrightarrow> \<exists>s'. es_exec codec c s = Some s' \<and> notify_ok (evNotify s') \<and> follows (evNotify s) (evNotify s')"
    using es_exec_notify by blast
  show "es_exec codec c s = Some s' \<Longrightarrow> es_ready codec q s \<Longrightarrow> es_ready codec q s'"
    using es_exec_extends [of codec c s s' "fst q"] es_exec_closed es_ready_grows by blast
  assume a: "notify_ok (evNotify s)" "es_exec codec c s = Some s'" "es_look codec q s = None" "map_of (ntChannels (evNotify s)) (fst q) = Some ch"
  then have "\<not> es_ready codec q s" using es_look_iff [of codec q s] by simp
  moreover have "\<forall>q ch. \<not> es_ready codec q s \<and> map_of (ntChannels (evNotify s)) (fst q) = Some ch \<and> es_ready codec q s' \<longrightarrow>
      ch \<in> set (ntClosed (evNotify s'))"
    using es_exec_notify [OF a(1), of codec c] a(2) by simp
  ultimately have "es_ready codec q s' \<Longrightarrow> ch \<in> set (ntClosed (evNotify s'))" using a(4) by blast
  then show "es_look codec q s' = None \<or> es_ready codec q s' \<and> ch \<in> set (ntClosed (evNotify s'))"
    using es_look_iff [of codec q s'] by blast
qed

lemma es_look_page:
  assumes "es_look codec (sid, query) s = Some (Inr page)"
  shows "epItems page \<noteq> [] \<and> (\<exists>rest. pending (eqAfter query) (esEvents (events_of s sid)) = epItems page @ rest)"
proof -
  have page: "page = listAgentEvents codec (events_of s sid) query" "epItems page \<noteq> []"
    using assms by (auto simp: es_look_def Let_def split: if_splits)
  obtain k where "epItems page = take k (pending (eqAfter query) (esEvents (events_of s sid)))"
    using list_events_prefix [of codec query "[]" eventPageEnvelopeOverhead "esEvents (events_of s sid)"] page(1)
    by (auto simp: listAgentEvents_def Let_def)
  then show ?thesis using page(2) append_take_drop_id by metis
qed

abbreviation es_waits ::
  "event_codec \<Rightarrow> (event_store, string \<times> event_query, event_page) wait_system \<Rightarrow>
   (event_store, string \<times> event_query, event_page) wait_system \<Rightarrow> bool" where
  "es_waits codec \<equiv> wait_step (es_exec codec) (es_look codec) fst evNotify (\<lambda>n s. s\<lparr>evNotify := n\<rparr>)"

text \<open>
  C28: \<open>Wait\<close> is correct under every interleaving of appends, closes and other waiters. A page
  that it returned holds the first events after the cursor. A waiter that is blocked while a
  page is there for it, or while the store is closed, is woken: its channel is closed, and
  from then on every look finds a result, so that its next step returns. And no call panics
  by closing a channel twice.
\<close>

theorem es_Wait_correct:
  assumes "wait_reachable (es_exec codec) (es_look codec) fst evNotify (\<lambda>n s. s\<lparr>evNotify := n\<rparr>) NewMemoryEventStore w"
  shows "(((sid, query), WaitDone (Inr page)) \<in> set (wsWaiters w) \<longrightarrow> epItems page \<noteq> [] \<and>
      (\<exists>rest. pending (eqAfter query) (esEvents (events_of (wsStore w) sid)) = epItems page @ rest)) \<and>
    (i < length (wsWaiters w) \<longrightarrow> wsWaiters w ! i = ((sid, query), WaitBlocked ch) \<longrightarrow>
      evClosed (wsStore w) \<or> epItems (listAgentEvents codec (events_of (wsStore w) sid) query) \<noteq> [] \<longrightarrow>
      es_waits codec w (w\<lparr>wsWaiters := (wsWaiters w)[i := ((sid, query), WaitLooking)]\<rparr>) \<and>
      (\<forall>w'. (es_waits codec)\<^sup>*\<^sup>* w w' \<longrightarrow> (\<exists>r. es_look codec (sid, query) (wsStore w') = Some r))) \<and>
    es_exec codec c (wsStore w) \<noteq> None"
proof (intro conjI impI)
  have ok: "notify_ok (evNotify NewMemoryEventStore)" by (simp add: NewMemoryEventStore_def)
  show "es_exec codec c (wsStore w) \<noteq> None" by (rule ev.reachable_no_panic [OF assms ok])
  let ?P = "\<lambda>s. epItems page \<noteq> [] \<and> (\<exists>rest. pending (eqAfter query) (esEvents (events_of s sid)) = epItems page @ rest)"
  have "?P (wsStore w)" if "((sid, query), WaitDone (Inr page)) \<in> set (wsWaiters w)"
  proof (rule ev.reachable_results [OF assms that, where I = "\<lambda>_. True"])
    show "?P s" if "es_look codec (sid, query) s = Some (Inr page)" for s by (rule es_look_page [OF that])
    show "True \<and> (?P s \<longrightarrow> ?P s')" if "es_exec codec c s = Some s'" for c s s'
      using es_exec_extends [OF that, of sid] by auto
    show "?P (s\<lparr>evNotify := n\<rparr>) = ?P s" for n s by (simp add: events_of_def)
  qed simp_all
  then show "((sid, query), WaitDone (Inr page)) \<in> set (wsWaiters w) \<Longrightarrow> epItems page \<noteq> []"
    "((sid, query), WaitDone (Inr page)) \<in> set (wsWaiters w) \<Longrightarrow>
      \<exists>rest. pending (eqAfter query) (esEvents (events_of (wsStore w) sid)) = epItems page @ rest" by blast+
  assume i: "i < length (wsWaiters w)" "wsWaiters w ! i = ((sid, query), WaitBlocked ch)"
    "evClosed (wsStore w) \<or> epItems (listAgentEvents codec (events_of (wsStore w) sid) query) \<noteq> []"
  have ready: "es_ready codec (sid, query) (wsStore w)" using i(3) by (simp add: es_ready_def)
  then have look: "es_look codec (sid, query) (wsStore w) \<noteq> None" by (simp only: es_look_iff)
  show "es_waits codec w (w\<lparr>wsWaiters := (wsWaiters w)[i := ((sid, query), WaitLooking)]\<rparr>)"
    by (rule ev.no_lost_wakeup [OF assms ok i(1,2) look])
  show "\<forall>w'. (es_waits codec)\<^sup>*\<^sup>* w w' \<longrightarrow> (\<exists>r. es_look codec (sid, query) (wsStore w') = Some r)"
    using ev.ready_stays_run [OF _ ready] by blast
qed

section \<open>A sample run\<close>

text \<open>A codec that forgets the fields it decodes, enough to run the store.\<close>

definition codec_demo :: event_codec where
  "codec_demo =
     \<lparr>umAgentStart = (\<lambda>_. Inr \<lparr>apMessages = [], apSystem = []\<rparr>), mAgentStart = (\<lambda>_. Inr ''{}''),
      umBeforeProvider = (\<lambda>_. Inr \<lparr>bpTurn = 0, bpMessages = [], bpProvider = [], bpSystem = [], bpTools = []\<rparr>),
      mBeforeProvider = (\<lambda>_. Inr ''{}''),
      umTurnEnd = (\<lambda>_. Inr \<lparr>tpTurn = 0, tpMessages = [], tpAction = \<lparr>acKind = ActionStop, acCause = None, acMessages = []\<rparr>\<rparr>),
      mTurnEnd = (\<lambda>_. Inr ''{}''),
      umAgentEnd = (\<lambda>_. Inr \<lparr>agMessages = [], agContextInjections = [], agOutput = [], agTurns = 0, agToolCalls = 0,
        agInputTokens = 0, agOutputTokens = 0, agCause = \<lparr>csCode = [], csDetail = [], csFinal = False\<rparr>\<rparr>),
      mAgentEnd = (\<lambda>_. Inr ''{}''), mAgentEvent = (\<lambda>e. Inr (aePayload e))\<rparr>"

lemma codec_demo_ok: "codec_ok codec_demo"
proof -
  have "json_Valid ''{}''" by code_simp
  then show ?thesis by (simp add: codec_ok_def codec_law_def codec_demo_def)
qed

definition event_demo :: "string \<Rightarrow> string \<Rightarrow> sdk_event" where
  "event_demo i name = \<lparr>evID = i, evName = name, evSessionID = [], evGeneration = 1, evPayload = ''{}''\<rparr>"

definition es_calls_demo :: "es_call list" where
  "es_calls_demo = [EAppend None 10 ''s1'' (event_demo ''e1'' ''agent_start''), EAppend None 11 '' s1'' (event_demo ''e2'' ''note''),
     EAppend None 12 ''s1'' (event_demo ''e1'' ''other'')]"

definition es_demo :: event_store where
  "es_demo = run_calls (es_step codec_demo) es_calls_demo NewMemoryEventStore"

lemma es_demo_clocks: "list_all es_clock_ok es_calls_demo"
  by (simp add: es_calls_demo_def)

theorem es_run_validates_witness:
  "\<exists>stream loaded. map_of (evStreams es_demo) ''s1'' = Some stream \<and> map aeID (esEvents stream) = [''e1'', ''e2''] \<and>
     validateStoredEventStream codec_demo ''s1'' stream = Inr loaded \<and> esEvents loaded = esEvents stream"
proof -
  have "map_option (\<lambda>st. map aeID (esEvents st)) (map_of (evStreams es_demo) ''s1'') = Some [''e1'', ''e2'']" by code_simp
  then obtain stream where st: "map_of (evStreams es_demo) ''s1'' = Some stream" "map aeID (esEvents stream) = [''e1'', ''e2'']" by auto
  obtain loaded where "validateStoredEventStream codec_demo ''s1'' stream = Inr loaded" "esEvents loaded = esEvents stream"
    using es_run_validates [OF codec_demo_ok es_demo_clocks, of "''s1''" stream] st(1) unfolding es_demo_def by auto
  then show ?thesis using st by auto
qed

lemma es_Append_InrE:
  assumes "map_option (\<lambda>(s', r). map_sum id f r) (es_Append codec ctx clock sid event s) = Some (Inr x)"
  obtains s' created where "es_Append codec ctx clock sid event s = Some (s', Inr created)" "f created = x"
  using assms that by (cases "es_Append codec ctx clock sid event s"; cases "snd (the (es_Append codec ctx clock sid event s))") auto

theorem es_Append_idempotent_witness:
  "\<exists>s' created s'' again. es_Append codec_demo None 10 ''s1'' (event_demo ''e1'' ''agent_start'') NewMemoryEventStore = Some (s', Inr created) \<and>
     es_Append codec_demo None 20 ''s1'' (event_demo '' e1'' ''other'') (run_calls (es_step codec_demo) es_calls_demo s') = Some (s'', Inr again) \<and>
     again = created"
proof -
  let ?a = "es_Append codec_demo None 10 ''s1'' (event_demo ''e1'' ''agent_start'') NewMemoryEventStore"
  let ?b = "\<lambda>s'. es_Append codec_demo None 20 ''s1'' (event_demo '' e1'' ''other'') (run_calls (es_step codec_demo) es_calls_demo s')"
  have "map_option (\<lambda>(s', r). map_sum id aeID r) ?a = Some (Inr ''e1'')" by code_simp
  then obtain s' created where a: "?a = Some (s', Inr created)" by (rule es_Append_InrE)
  have "(case ?a of Some (s', _) \<Rightarrow> map_option (\<lambda>(s', r). map_sum id aeID r) (?b s') | None \<Rightarrow> None) = Some (Inr ''e1'')" by code_simp
  then have "map_option (\<lambda>(s', r). map_sum id aeID r) (?b s') = Some (Inr ''e1'')" by (simp add: a)
  then obtain s'' again where b: "?b s' = Some (s'', Inr again)" by (rule es_Append_InrE)
  have "TrimSpace (evID (event_demo '' e1'' ''other'')) = TrimSpace (evID (event_demo ''e1'' ''agent_start''))" by code_simp
  from es_Append_idempotent [OF a b this] show ?thesis using a b by blast
qed

theorem es_cursor_complete_witness:
  "\<exists>items cursor s'. es_follow codec_demo ''s1'' 1 0 [[], [EAppend None 13 ''s1'' (event_demo ''e3'' ''note'')], []] es_demo = (items, cursor, s') \<and>
     map aeID items = [''e1'', ''e2'', ''e3''] \<and> items = take (length items) (esEvents (events_of s' ''s1'')) \<and> unat cursor = 3"
proof -
  let ?f = "es_follow codec_demo ''s1'' 1 0 [[], [EAppend None 13 ''s1'' (event_demo ''e3'' ''note'')], []] es_demo"
  obtain items cursor s' where f: "?f = (items, cursor, s')" by (metis prod_cases3)
  have "map aeID (fst ?f) = [''e1'', ''e2'', ''e3'']" by code_simp
  then have ids: "map aeID items = [''e1'', ''e2'', ''e3'']" using f by simp
  then have "length items = 3" by (metis length_map length_Cons list.size(3) numeral_3_eq_3)
  moreover have "TrimSpace ''s1'' = ''s1''" by code_simp
  ultimately show ?thesis
    using es_cursor_complete [OF codec_demo_ok _ f [unfolded es_demo_def]] es_demo_clocks f ids by simp
qed

definition es_query_demo :: "string \<times> event_query" where
  "es_query_demo = (''s1'', \<lparr>eqAfter = 0, eqLimit = 10\<rparr>)"

text \<open>A waiter blocks on the empty store; then a call makes a result.\<close>

abbreviation es_blocked_demo :: "event_store \<Rightarrow> (event_store, string \<times> event_query, event_page) wait_system" where
  "es_blocked_demo s \<equiv> \<lparr>wsStore = s, wsWaiters = [(es_query_demo, WaitBlocked 0)]\<rparr>"

definition es_waited_demo :: event_store where
  "es_waited_demo = NewMemoryEventStore\<lparr>evNotify := fst (notifyLocked ''s1'' no_notify)\<rparr>"

lemma es_blocked_demo_reachable:
  assumes "es_exec codec_demo c es_waited_demo = Some s"
  shows "wait_reachable (es_exec codec_demo) (es_look codec_demo) fst evNotify (\<lambda>n s. s\<lparr>evNotify := n\<rparr>)
    NewMemoryEventStore (es_blocked_demo s)"
proof -
  let ?R = "es_waits codec_demo" and ?q = es_query_demo
  let ?s0 = "NewMemoryEventStore" and ?nt = "fst (notifyLocked ''s1'' no_notify)"
  have 1: "?R \<lparr>wsStore = ?s0, wsWaiters = []\<rparr> \<lparr>wsStore = ?s0, wsWaiters = [(?q, WaitLooking)]\<rparr>"
    using wait_start [of _ _ _ _ _ "\<lparr>wsStore = ?s0, wsWaiters = []\<rparr>" ?q] by simp
  have "es_look codec_demo ?q ?s0 = None" by code_simp
  moreover have "notifyLocked (fst ?q) (evNotify ?s0) = (?nt, 0)"
    by (simp add: es_query_demo_def NewMemoryEventStore_def no_notify_def notifyLocked_def make_chan_def)
  ultimately have 2: "?R \<lparr>wsStore = ?s0, wsWaiters = [(?q, WaitLooking)]\<rparr> (es_blocked_demo es_waited_demo)"
    using wait_block [of 0 "\<lparr>wsStore = ?s0, wsWaiters = [(?q, WaitLooking)]\<rparr>" ?q "es_look codec_demo"]
    by (simp add: es_waited_demo_def)
  have 3: "?R (es_blocked_demo es_waited_demo) (es_blocked_demo s)"
    using wait_call [of "es_exec codec_demo" c "es_blocked_demo es_waited_demo" s] assms by simp
  show ?thesis
    unfolding wait_reachable_def using 1 2 3 by (meson converse_rtranclp_into_rtranclp rtranclp.rtrancl_refl)
qed

theorem es_Wait_correct_witness:
  "\<exists>s s'. es_exec codec_demo (EAppend None 10 ''s1'' (event_demo ''e1'' ''note'')) es_waited_demo = Some s \<and>
     es_waits codec_demo (es_blocked_demo s) ((es_blocked_demo s)\<lparr>wsWaiters := [(es_query_demo, WaitLooking)]\<rparr>) \<and>
     es_exec codec_demo EClose es_waited_demo = Some s' \<and>
     es_waits codec_demo (es_blocked_demo s') ((es_blocked_demo s')\<lparr>wsWaiters := [(es_query_demo, WaitLooking)]\<rparr>)"
proof -
  let ?q = es_query_demo
  have woken: "es_waits codec_demo (es_blocked_demo s) ((es_blocked_demo s)\<lparr>wsWaiters := [(?q, WaitLooking)]\<rparr>)"
    if "es_exec codec_demo c es_waited_demo = Some s"
      "evClosed s \<or> epItems (listAgentEvents codec_demo (events_of s (fst ?q)) (snd ?q)) \<noteq> []" for c s
    using es_Wait_correct [OF es_blocked_demo_reachable [OF that(1)], of "fst ?q" "snd ?q" _ 0 0] that(2) by simp
  have "map_option (\<lambda>s. epItems (listAgentEvents codec_demo (events_of s (fst ?q)) (snd ?q)) \<noteq> [])
      (es_exec codec_demo (EAppend None 10 ''s1'' (event_demo ''e1'' ''note'')) es_waited_demo) = Some True"
    by code_simp
  moreover have "map_option evClosed (es_exec codec_demo EClose es_waited_demo) = Some True" by code_simp
  ultimately obtain s s' where
    s: "es_exec codec_demo (EAppend None 10 ''s1'' (event_demo ''e1'' ''note'')) es_waited_demo = Some s"
      "epItems (listAgentEvents codec_demo (events_of s (fst ?q)) (snd ?q)) \<noteq> []"
    and s': "es_exec codec_demo EClose es_waited_demo = Some s'" "evClosed s'"
    unfolding map_option_eq_Some by metis
  show ?thesis using s(1) s'(1) woken [OF s(1)] woken [OF s'(1)] s(2) s'(2) by blast
qed

end
