(* ===== verification/Gateway_Interaction_Manager.thy ===== *)
theory Gateway_Interaction_Manager
  imports Gateway_Interaction_Store Gateway_Event_Store
begin

text \<open>
  \<open>gateway/interaction_manager.go\<close>: a blocking request on the interaction store, with an event
  for each change, and the tool \<open>ask_user\<close> on top of it (\<open>gateway/interaction_tool.go\<close>).
  Other clients call both stores between the manager's own calls: \<open>mg_others\<close>. The JSON of an
  interaction and the digest in an event's ID are arguments.
\<close>

section \<open>The manager\<close>

record ia_manager =
  imStore :: interaction_store
  imEvents :: event_store

record ia_env =
  ieCodec :: event_codec
  ieMarshal :: "interaction \<Rightarrow> json result"
  ieEventID :: "string \<Rightarrow> json \<Rightarrow> string"

datatype mg_other = OnInteractions it_call | OnEvents es_call

fun mg_other_step :: "ia_env \<Rightarrow> mg_other \<Rightarrow> ia_manager \<Rightarrow> ia_manager" where
  "mg_other_step env (OnInteractions c) m = m\<lparr>imStore := it_step c (imStore m)\<rparr>"
| "mg_other_step env (OnEvents c) m = m\<lparr>imEvents := es_step (ieCodec env) c (imEvents m)\<rparr>"

abbreviation mg_others :: "ia_env \<Rightarrow> mg_other list \<Rightarrow> ia_manager \<Rightarrow> ia_manager" where
  "mg_others env \<equiv> run_calls (mg_other_step env)"

text \<open>What happens to the event is ignored.\<close>

definition mg_emit :: "ia_env \<Rightarrow> ctx \<Rightarrow> gotime \<Rightarrow> string \<Rightarrow> string \<Rightarrow> interaction \<Rightarrow> ia_manager \<Rightarrow> ia_manager option" where
  "mg_emit env ctx clock sid name v m =
     (case ieMarshal env v of
        Inl e \<Rightarrow> Some m
      | Inr raw \<Rightarrow>
          map_option (\<lambda>(s, _). m\<lparr>imEvents := s\<rparr>)
            (es_Append (ieCodec env) ctx clock sid
              \<lparr>evID = ieEventID env name raw, evName = name, evSessionID = sid, evGeneration = 0, evPayload = raw\<rparr> (imEvents m)))"

definition mg_cancelPending ::
  "ia_env \<Rightarrow> (nat \<Rightarrow> ctx) \<Rightarrow> gotime \<Rightarrow> mg_other list \<Rightarrow> mg_other list \<Rightarrow> string \<Rightarrow> string \<Rightarrow> ia_manager \<Rightarrow> ia_manager option" where
  "mg_cancelPending env ctx clock before_get before_cancel sid i m =
     (let m = mg_others env before_get m in
      case it_Get (ctx 0) sid i (imStore m) of
        Inl e \<Rightarrow> Some m
      | Inr current \<Rightarrow>
          if itState current \<noteq> InteractionPending then Some m
          else let m = mg_others env before_cancel m in
            case it_Cancel (ctx 1) clock sid i (itRevision current) (imStore m) of
              None \<Rightarrow> None
            | Some (s, Inl e) \<Rightarrow> Some (m\<lparr>imStore := s\<rparr>)
            | Some (s, Inr cancelled) \<Rightarrow> mg_emit env (ctx 2) clock sid ''gateway_interaction_cancelled'' cancelled (m\<lparr>imStore := s\<rparr>))"

text \<open>
  \<open>Request\<close>: create, announce, wait, and clean up after a failure. \<open>stop\<close> is the error of the
  context when it ends the wait; otherwise the wait ends with what a look finds after the
  calls \<open>meanwhile\<close>. \<open>None\<close>: still waiting, or a panic.
\<close>

definition mg_Request ::
  "ia_env \<Rightarrow> ctx \<Rightarrow> string \<Rightarrow> gotime \<Rightarrow> interaction \<Rightarrow> mg_other list \<Rightarrow> ctx \<Rightarrow> (nat \<Rightarrow> ctx) \<Rightarrow> mg_other list \<Rightarrow> mg_other list \<Rightarrow>
   ia_manager \<Rightarrow> (ia_manager \<times> interaction_answer result) option" where
  "mg_Request env ctx newID clock request meanwhile stop cleanup before_get before_cancel m =
     (case it_Create ctx newID clock request (imStore m) of
        None \<Rightarrow> None
      | Some (s, Inl e) \<Rightarrow> Some (m\<lparr>imStore := s\<rparr>, Inl e)
      | Some (s, Inr created) \<Rightarrow>
          (case (if itState created = InteractionPending
             then mg_emit env ctx clock (itSessionID created) ''gateway_interaction_requested'' created (m\<lparr>imStore := s\<rparr>)
             else Some (m\<lparr>imStore := s\<rparr>)) of
             None \<Rightarrow> None
           | Some m \<Rightarrow>
               let m = mg_others env meanwhile m in
               case (case stop of Some e \<Rightarrow> Some (Inl e) | None \<Rightarrow> it_look (itSessionID created, itID created) (imStore m)) of
                 None \<Rightarrow> None
               | Some (Inl e) \<Rightarrow>
                   map_option (\<lambda>m. (m, Inl e))
                     (mg_cancelPending env cleanup clock before_get before_cancel (itSessionID created) (itID created) m)
               | Some (Inr resolved) \<Rightarrow>
                   Some (m, case itAnswer resolved of
                     Some answer \<Rightarrow> if itState resolved \<noteq> InteractionResolved
                       then Inl (Errorf ''gateway interaction was cancelled'') else Inr answer
                   | None \<Rightarrow> Inl (Errorf ''gateway interaction was cancelled''))))"

definition mg_Resolve ::
  "ia_env \<Rightarrow> ctx \<Rightarrow> gotime \<Rightarrow> string \<Rightarrow> string \<Rightarrow> u64 \<Rightarrow> interaction_answer \<Rightarrow> ia_manager \<Rightarrow> (ia_manager \<times> interaction result) option" where
  "mg_Resolve env ctx clock sid i expectedRevision answer m =
     (case it_Resolve ctx clock sid i expectedRevision answer (imStore m) of
        None \<Rightarrow> None
      | Some (s, Inl e) \<Rightarrow> Some (m\<lparr>imStore := s\<rparr>, Inl e)
      | Some (s, Inr resolved) \<Rightarrow>
          map_option (\<lambda>m. (m, Inr resolved))
            (mg_emit env ctx clock sid ''gateway_interaction_resolved'' resolved (m\<lparr>imStore := s\<rparr>)))"

text \<open>
  The answer that \<open>ask_user\<close> gives the model. The options are those of the arguments, which
  \<open>normalizeInteraction\<close> has trimmed in place.
\<close>

definition ask_user_content :: "interaction_option list \<Rightarrow> interaction_answer \<Rightarrow> string" where
  "ask_user_content options answer =
     (if iaOptionID answer \<noteq> [] then
        (case find (\<lambda>opt. ioID opt = iaOptionID answer) options of Some opt \<Rightarrow> ioLabel opt | None \<Rightarrow> iaOptionID answer)
      else TrimSpace (iaText answer))"

section \<open>Lemmas\<close>

lemma it_lookup_run:
  assumes "it_lookup s k j = Some x"
  shows "\<exists>y. it_lookup (run_calls it_step cs s) k j = Some y \<and> itKind y = itKind x \<and> itPrompt y = itPrompt x \<and> itOptions y = itOptions x"
proof (rule run_calls_invariant)
  fix c s assume "\<exists>y. it_lookup s k j = Some y \<and> itKind y = itKind x \<and> itPrompt y = itPrompt x \<and> itOptions y = itOptions x"
  then obtain y where y: "it_lookup s k j = Some y" "itKind y = itKind x" "itPrompt y = itPrompt x" "itOptions y = itOptions x" by blast
  obtain z where z: "it_lookup (it_step c s) k j = Some z" "z = y \<or> settles y z" using it_step_lookup [OF y(1)] by blast
  then show "\<exists>y. it_lookup (it_step c s) k j = Some y \<and> itKind y = itKind x \<and> itPrompt y = itPrompt x \<and> itOptions y = itOptions x"
    using y settles_simps [of y z] by auto
qed (use assms in blast)

lemma mg_emit_store: "mg_emit env ctx clock sid name v m = Some m' \<Longrightarrow> imStore m' = imStore m"
  by (auto simp: mg_emit_def split: sum.splits)

lemma mg_others_store: "\<exists>cs. imStore (mg_others env os m) = run_calls it_step cs (imStore m)"
proof (induction os arbitrary: m)
  case Nil
  have "imStore m = run_calls it_step [] (imStore m)" by simp
  then show ?case by (metis run_calls.simps(1))
next
  case (Cons x os)
  obtain cs where cs: "imStore (mg_others env os (mg_other_step env x m)) = run_calls it_step cs (imStore (mg_other_step env x m))"
    using Cons.IH by blast
  have "imStore (mg_other_step env x m) = run_calls it_step (case x of OnInteractions c \<Rightarrow> [c] | OnEvents _ \<Rightarrow> []) (imStore m)"
    by (cases x) simp_all
  then show ?case using cs by (metis run_calls.simps(2) run_calls_append)
qed

lemma it_inv_run: "it_inv s \<Longrightarrow> it_inv (run_calls it_step cs s)"
proof (erule run_calls_invariant)
  fix c s assume "it_inv s"
  then show "it_inv (it_step c s)" using it_inv_exec by (auto simp: it_step_def split: option.splits)
qed

text \<open>What was created, or was there, can be found.\<close>

lemma it_Create_lookup:
  assumes "it_inv s" "it_Create ctx newID clock v s = Some (s', Inr x)"
  shows "it_lookup s' (itSessionID x) (itID x) = Some x \<and> it_inv s' \<and> (\<exists>n. normalizeInteraction newID v = Inr n \<and>
    itID x = itID n \<and> itSessionID x = itSessionID n \<and> itExecutionID x = itExecutionID n \<and> request_json x = request_json n)"
proof -
  obtain n where n: "normalizeInteraction newID v = Inr n"
    "it_put (itSessionID n) (createInteraction (interactions_of s (itSessionID n)) n clock) s = Some (s', Inr x)"
    using assms(2) by (auto simp: it_Create_def result_simps split: sum.splits if_splits)
  have inv: "it_inv s'" using it_inv_exec [OF assms(1), of "NCreate ctx newID clock v" s'] assms(2) by simp
  let ?items = "tsItems (interactions_of s (itSessionID n))"
  show ?thesis
  proof (cases "find (\<lambda>current. itID current = itID n) ?items")
    case (Some current)
    then have x: "s' = s" "x = current" "request_json x = request_json n" "itSessionID x = itSessionID n" "itExecutionID x = itExecutionID n"
      using n(2) by (auto simp: it_put_def createInteraction_def split: if_splits)
    moreover have "itID x = itID n" using Some x(2) by (auto simp: find_Some_iff)
    ultimately show ?thesis using Some n(1) inv by (simp add: it_lookup_def)
  next
    case None
    then obtain st y where y: "createInteraction (interactions_of s (itSessionID n)) n clock = Inr (st, y, True)"
      "tsItems st = ?items @ [y]" "itID y = itID n" "itSessionID y = itSessionID n" "itExecutionID y = itExecutionID n"
      "request_json y = request_json n"
      by (simp add: createInteraction_def Let_def request_json_def)
    then obtain nt where "x = y" "s' = s\<lparr>isnStreams := AList.update (itSessionID n) st (isnStreams s), isnNotify := nt\<rparr>"
      using n(2) by (auto simp: it_put_def)
    note x = y(2-6) [folded this(1)] this(2)
    have "find (\<lambda>y. itID y = itID n) (?items @ [x]) = Some x" using None x(2) by (intro find_snoc) auto
    then show ?thesis using n(1) inv x by (simp add: it_lookup_def interactions_of_put)
  qed
qed

lemma mg_cancelPending_cases:
  assumes "mg_cancelPending env ctx clock os1 os2 sid i m = Some m'"
  shows "(imStore m' = imStore (mg_others env os1 m) \<and>
      (\<forall>current. it_Get (ctx 0) sid i (imStore m') = Inr current \<longrightarrow> itState current \<noteq> InteractionPending)) \<or>
    (\<exists>current r. it_Get (ctx 0) sid i (imStore (mg_others env os1 m)) = Inr current \<and> itState current = InteractionPending \<and>
      it_Cancel (ctx 1) clock sid i (itRevision current) (imStore (mg_others env os2 (mg_others env os1 m))) = Some (imStore m', r))"
  using assms
  by (auto simp: mg_cancelPending_def Let_def dest!: mg_emit_store split: sum.splits option.splits if_splits prod.splits)

text \<open>The announcement touches only the events.\<close>

definition mg_announced :: "ia_env \<Rightarrow> ctx \<Rightarrow> gotime \<Rightarrow> interaction \<Rightarrow> ia_manager \<Rightarrow> ia_manager option" where
  "mg_announced env ctx clock created m =
     (if itState created = InteractionPending
      then mg_emit env ctx clock (itSessionID created) ''gateway_interaction_requested'' created m else Some m)"

lemma mg_announced_store: "mg_announced env ctx clock created m = Some m' \<Longrightarrow> imStore m' = imStore m"
  by (auto simp: mg_announced_def dest: mg_emit_store split: if_splits)

lemma mg_Request_created:
  assumes "it_Create ctx newID clock request (imStore m) = Some (s, Inr created)"
    "mg_announced env ctx clock created (m\<lparr>imStore := s\<rparr>) = Some m1"
  shows "mg_Request env ctx newID clock request meanwhile stop cleanup os1 os2 m =
    (let m = mg_others env meanwhile m1 in
     case (case stop of Some e \<Rightarrow> Some (Inl e) | None \<Rightarrow> it_look (itSessionID created, itID created) (imStore m)) of
       None \<Rightarrow> None
     | Some (Inl e) \<Rightarrow> map_option (\<lambda>m. (m, Inl e)) (mg_cancelPending env cleanup clock os1 os2 (itSessionID created) (itID created) m)
     | Some (Inr resolved) \<Rightarrow>
         Some (m, case itAnswer resolved of
           Some answer \<Rightarrow> if itState resolved \<noteq> InteractionResolved
             then Inl (Errorf ''gateway interaction was cancelled'') else Inr answer
         | None \<Rightarrow> Inl (Errorf ''gateway interaction was cancelled'')))"
  unfolding mg_Request_def assms(1) option.case prod.case sum.case assms(2) [unfolded mg_announced_def] by (rule refl)

lemma mg_Request_starts:
  assumes "mg_Request env ctx newID clock request meanwhile stop cleanup os1 os2 m = Some (m', r)"
    "it_Create ctx newID clock request (imStore m) = Some (s, Inr created)"
  obtains m1 where "mg_announced env ctx clock created (m\<lparr>imStore := s\<rparr>) = Some m1" "imStore m1 = s"
proof -
  obtain m1 where "mg_announced env ctx clock created (m\<lparr>imStore := s\<rparr>) = Some m1"
    using assms unfolding mg_Request_def mg_announced_def [symmetric]
    by (cases "mg_announced env ctx clock created (m\<lparr>imStore := s\<rparr>)") (auto simp: mg_announced_def split: if_splits)
  then show thesis using that mg_announced_store by fastforce
qed

lemma mg_Request_Inr:
  assumes "mg_Request env ctx newID clock request meanwhile stop cleanup os1 os2 m = Some (m', Inr answer)"
  shows "\<exists>s created x cs. it_Create ctx newID clock request (imStore m) = Some (s, Inr created) \<and> imStore m' = run_calls it_step cs s \<and>
    it_look (itSessionID created, itID created) (imStore m') = Some (Inr x) \<and> itAnswer x = Some answer \<and> itState x = InteractionResolved"
proof -
  obtain s created where c: "it_Create ctx newID clock request (imStore m) = Some (s, Inr created)"
    using assms by (auto simp: mg_Request_def split: option.splits prod.splits sum.splits)
  obtain m1 where m1: "mg_announced env ctx clock created (m\<lparr>imStore := s\<rparr>) = Some m1" "imStore m1 = s"
    by (rule mg_Request_starts [OF assms c])
  note r = assms [unfolded mg_Request_created [OF c m1(1)] Let_def]
  obtain x where x: "it_look (itSessionID created, itID created) (imStore (mg_others env meanwhile m1)) = Some (Inr x)"
    "itAnswer x = Some answer" "itState x = InteractionResolved" "m' = mg_others env meanwhile m1"
    using r by (cases stop; cases "it_look (itSessionID created, itID created) (imStore (mg_others env meanwhile m1))")
      (auto split: sum.splits option.splits if_splits)
  obtain cs where "imStore m' = run_calls it_step cs s" using mg_others_store [of env meanwhile m1] x(4) m1(2) by auto
  then show ?thesis using c x by blast
qed

text \<open>
  C24: A request returns only what the user answered. When \<open>Request\<close> succeeds, the interaction
  that stands in the store for the request is resolved with just that answer, and the answer
  is one of the question's options or a text: when it names an option, \<open>ask_user\<close> hands the
  label of that option to the model.
\<close>

theorem mg_Request_answer:
  assumes "imStore m = run_calls it_step cs NewMemoryInteractionStore"
    and "mg_Request env ctx newID clock request meanwhile stop cleanup os1 os2 m = Some (m', Inr answer)"
  shows "\<exists>n x. normalizeInteraction newID request = Inr n \<and> it_lookup (imStore m') (itSessionID n) (itID n) = Some x \<and>
    itState x = InteractionResolved \<and> itAnswer x = Some answer \<and> request_json x = request_json n \<and>
    (iaOptionID answer \<noteq> [] \<longrightarrow> (\<exists>opt\<in>set (itOptions x). ioID opt = iaOptionID answer \<and> ask_user_content (itOptions x) answer = ioLabel opt))"
proof -
  have inv: "it_inv (imStore m)" unfolding assms(1) by (rule it_inv_run [OF it_inv_new])
  obtain s created x ds where c: "it_Create ctx newID clock request (imStore m) = Some (s, Inr created)" "imStore m' = run_calls it_step ds s"
    "it_look (itSessionID created, itID created) (imStore m') = Some (Inr x)" "itAnswer x = Some answer" "itState x = InteractionResolved"
    using mg_Request_Inr [OF assms(2)] by blast
  note cr = it_Create_lookup [OF inv c(1)]
  obtain n where n: "normalizeInteraction newID request = Inr n" "itID created = itID n" "itSessionID created = itSessionID n"
    "request_json created = request_json n" using cr by blast
  have x: "it_lookup (imStore m') (itSessionID n) (itID n) = Some x"
    using c(3) n(2,3) by (auto simp: it_look_def getInteraction_def it_lookup_def split: if_splits option.splits)
  have inv': "it_inv (imStore m')" using it_inv_run cr c(2) by simp
  then have "x \<in> set (tsItems (interactions_of (imStore m') (itSessionID n)))" using x by (auto simp: it_lookup_def find_Some_iff)
  then have ok: "item_ok (itSessionID n) x" using inv' by (simp add: it_inv_def items_ok_def)
  have same: "request_json x = request_json n"
    using it_lookup_run [of s "itSessionID n" "itID n" created ds] cr n x c(2) by (auto simp: request_json_def)
  have "\<exists>opt\<in>set (itOptions x). ioID opt = iaOptionID answer \<and> ask_user_content (itOptions x) answer = ioLabel opt" if "iaOptionID answer \<noteq> []"
  proof -
    have "iaOptionID answer \<in> ioID ` set (itOptions x)" using ok c(4,5) that by (simp add: item_ok_def)
    then obtain opt where opt: "find (\<lambda>opt. ioID opt = iaOptionID answer) (itOptions x) = Some opt"
      by (cases "find (\<lambda>opt. ioID opt = iaOptionID answer) (itOptions x)") (auto simp: find_None_iff)
    then have "opt \<in> set (itOptions x)" "ioID opt = iaOptionID answer" by (auto simp: find_Some_iff)
    then show ?thesis using opt that by (auto simp: ask_user_content_def)
  qed
  then show ?thesis using n(1) x c(4,5) same by blast
qed

lemma it_run_closed: "isnClosed s \<Longrightarrow> isnClosed (run_calls it_step cs s)"
proof (erule run_calls_invariant)
  fix c and s :: interaction_store assume "isnClosed s"
  then show "isnClosed (it_step c s)" using it_exec_closed by (auto simp: it_step_def split: option.splits)
qed

lemma it_lookup_item:
  assumes "it_inv s" "it_lookup s sid i = Some x"
  shows "item_ok sid x"
proof -
  have "x \<in> set (tsItems (interactions_of s sid))" using assms(2) by (auto simp: it_lookup_def find_Some_iff)
  then show ?thesis using assms(1) by (simp add: it_inv_def items_ok_def)
qed

lemma item_ok_settled_iff: "item_ok sid x \<Longrightarrow> itState x \<noteq> InteractionPending \<longleftrightarrow> it_Terminal (itState x)"
  by (cases "itState x") (auto simp: item_ok_def it_Terminal_def)

text \<open>A cancellation that fails on an open store, for an interaction that is there, lost to a settlement.\<close>

lemma it_Cancel_settled:
  assumes "it_inv s" "it_lookup s sid i = Some x" "\<not> isnClosed s" "itState x = InteractionPending \<longrightarrow> itRevision x = rv"
    and "it_Cancel None clock sid i rv s = Some (s', r)"
  shows "\<exists>y. it_lookup s' sid i = Some y \<and> it_Terminal (itState y)"
proof (cases "itState x = InteractionPending")
  case True
  have x: "find (\<lambda>x. itID x = i) (tsItems (interactions_of s sid)) = Some x" using assms(2) by (simp add: it_lookup_def)
  have "\<exists>y. r = Inr y"
    using assms(3-5) True by (auto simp: it_Cancel_def cancelInteraction_def it_put_def update_first_found [OF x])
  then obtain y where "it_settles sid i y s s'" using it_Cancel_effect [OF assms(5)] by blast
  then show ?thesis using it_settles_lookup [of sid i y s s'] settles_simps(4) by blast
next
  case False
  then have t: "it_Terminal (itState x)" using item_ok_settled_iff it_lookup_item [OF assms(1,2)] by blast
  have "it_lookup s' sid i = Some x"
    using it_terminal_run [OF assms(2) t, of "[NCancel None clock sid i rv]"] assms(5) by (simp add: it_step_def)
  then show ?thesis using t by blast
qed

text \<open>
  C25: A request that is given up does not stay open. When the context ends the wait, \<open>Request\<close>
  returns the context's error, and, unless the store was closed, the interaction is settled:
  cancelled by the clean-up, or settled by whoever came first, however the calls of others
  fall between the clean-up's own.
\<close>

theorem mg_Request_abandoned:
  assumes "imStore m = run_calls it_step cs NewMemoryInteractionStore"
    and "it_Create ctx newID clock request (imStore m) = Some (s, Inr created)"
    and "mg_Request env ctx newID clock request meanwhile (Some e) cleanup os1 os2 m = Some (m', r)"
    and "cleanup 0 = None" "cleanup 1 = None" "\<not> isnClosed (imStore m')"
  shows "r = Inl e \<and> (\<exists>x. it_lookup (imStore m') (itSessionID created) (itID created) = Some x \<and> it_Terminal (itState x))"
proof -
  let ?sid = "itSessionID created" and ?i = "itID created"
  have inv: "it_inv (imStore m)" unfolding assms(1) by (rule it_inv_run [OF it_inv_new])
  note cr = it_Create_lookup [OF inv assms(2)]
  obtain m1 where m1: "mg_announced env ctx clock created (m\<lparr>imStore := s\<rparr>) = Some m1" "imStore m1 = s"
    by (rule mg_Request_starts [OF assms(3,2)])
  let ?m = "mg_others env meanwhile m1"
  let ?a = "mg_others env os1 ?m" let ?b = "mg_others env os2 ?a"
  have r: "r = Inl e" "mg_cancelPending env cleanup clock os1 os2 ?sid ?i ?m = Some m'"
    using assms(3) unfolding mg_Request_created [OF assms(2) m1(1)] Let_def by auto
  obtain as where a: "imStore ?a = run_calls it_step as s"
    using mg_others_store [of env meanwhile m1] mg_others_store [of env os1 ?m] m1(2) by (metis run_calls_append)
  obtain bs where b: "imStore ?b = run_calls it_step bs (imStore ?a)" using mg_others_store by blast
  have inv_a: "it_inv (imStore ?a)" and inv_b: "it_inv (imStore ?b)" using cr it_inv_run a b by simp_all
  obtain y where y: "it_lookup (imStore ?a) ?sid ?i = Some y" using it_lookup_run cr a by metis
  from mg_cancelPending_cases [OF r(2)] show ?thesis
  proof (elim disjE conjE exE)
    assume A: "imStore m' = imStore ?a" "\<forall>current. it_Get (cleanup 0) ?sid ?i (imStore m') = Inr current \<longrightarrow> itState current \<noteq> InteractionPending"
    have "it_Get (cleanup 0) ?sid ?i (imStore m') = Inr y"
      using y A(1) assms(4,6) by (simp add: it_Get_def getInteraction_def it_lookup_def)
    then show ?thesis using A y r(1) item_ok_settled_iff it_lookup_item [OF inv_a y] by auto
  next
    fix current q
    assume B: "it_Get (cleanup 0) ?sid ?i (imStore ?a) = Inr current" "itState current = InteractionPending"
      "it_Cancel (cleanup 1) clock ?sid ?i (itRevision current) (imStore ?b) = Some (imStore m', q)"
    have cur: "current = y" using B(1) y assms(4) by (auto simp: it_Get_def getInteraction_def it_lookup_def result_simps)
    obtain z where z: "it_lookup (imStore ?b) ?sid ?i = Some z" using it_lookup_run y b by metis
    have "itState z = InteractionPending \<longrightarrow> itRevision z = itRevision current"
      using it_lookup_item [OF inv_a y] it_lookup_item [OF inv_b z] B(2) cur by (auto simp: item_ok_def)
    moreover have "\<not> isnClosed (imStore ?b)"
      using it_exec_closed [of "NCancel (cleanup 1) clock ?sid ?i (itRevision current)" "imStore ?b"] B(3) assms(6) by auto
    ultimately show ?thesis using it_Cancel_settled [OF inv_b z _ _ B(3) [unfolded assms(5)]] r(1) by blast
  qed
qed

section \<open>A sample run\<close>

definition ia_env_demo :: ia_env where
  "ia_env_demo = \<lparr>ieCodec = codec_demo, ieMarshal = (\<lambda>v. Inr ''{}''), ieEventID = (\<lambda>name raw. ''manager-1'')\<rparr>"

definition ia_manager_demo :: ia_manager where
  "ia_manager_demo = \<lparr>imStore = NewMemoryInteractionStore, imEvents = NewMemoryEventStore\<rparr>"

lemma ia_manager_demo_store: "imStore ia_manager_demo = run_calls it_step [] NewMemoryInteractionStore"
  by (simp add: ia_manager_demo_def)

theorem mg_Request_answer_witness:
  "\<exists>m' answer x. mg_Request ia_env_demo None ''n'' 10 question_demo [OnInteractions (NResolve None 11 ''s1'' ''q1'' 1 answer_demo)]
       None (\<lambda>_. None) [] [] ia_manager_demo = Some (m', Inr answer) \<and> iaOptionID answer = ''a'' \<and>
     it_lookup (imStore m') ''s1'' ''q1'' = Some x \<and> itAnswer x = Some answer \<and> ask_user_content (itOptions x) answer = ''Yes''"
proof -
  let ?r = "mg_Request ia_env_demo None ''n'' 10 question_demo [OnInteractions (NResolve None 11 ''s1'' ''q1'' 1 answer_demo)]
       None (\<lambda>_. None) [] [] ia_manager_demo"
  have "map_option (\<lambda>(m', r). (map_sum id iaOptionID r, map_option (\<lambda>x. map (\<lambda>p. (ioID p, ioLabel p)) (itOptions x))
      (it_lookup (imStore m') ''s1'' ''q1''))) ?r = Some (Inr ''a'', Some [(''a'', ''Yes''), (''b'', ''No'')])"
    by code_simp
  then obtain m' answer where r: "?r = Some (m', Inr answer)" "iaOptionID answer = ''a''"
    and opts: "map_option (\<lambda>x. map (\<lambda>p. (ioID p, ioLabel p)) (itOptions x)) (it_lookup (imStore m') ''s1'' ''q1'') = Some [(''a'', ''Yes''), (''b'', ''No'')]"
    by (cases ?r; cases "snd (the ?r)") auto
  have "map_sum id (\<lambda>n. (itSessionID n, itID n)) (normalizeInteraction ''n'' question_demo) = Inr (''s1'', ''q1'')" by code_simp
  then obtain n where n: "normalizeInteraction ''n'' question_demo = Inr n" "itSessionID n = ''s1''" "itID n = ''q1''"
    by (cases "normalizeInteraction ''n'' question_demo") auto
  obtain x opt where x: "it_lookup (imStore m') ''s1'' ''q1'' = Some x" "itAnswer x = Some answer" "opt \<in> set (itOptions x)"
    "ioID opt = iaOptionID answer" "ask_user_content (itOptions x) answer = ioLabel opt"
    using mg_Request_answer [OF ia_manager_demo_store r(1)] r(2) n by auto
  have "(ioID opt, ioLabel opt) \<in> set (map (\<lambda>p. (ioID p, ioLabel p)) (itOptions x))" using x(3) by simp
  then have "ioLabel opt = ''Yes''" using opts x(1,4) r(2) by auto
  then show ?thesis using r x by metis
qed

theorem mg_Request_abandoned_witness:
  "\<exists>m' e x. mg_Request ia_env_demo None ''n'' 10 question_demo [] (Some (Errorf ''context canceled'')) (\<lambda>_. None) [] [] ia_manager_demo =
       Some (m', Inl (Errorf ''context canceled'')) \<and> it_lookup (imStore m') ''s1'' ''q1'' = Some x \<and> it_Terminal (itState x)"
proof -
  let ?c = "it_Create None ''n'' 10 question_demo (imStore ia_manager_demo)"
  let ?r = "mg_Request ia_env_demo None ''n'' 10 question_demo [] (Some (Errorf ''context canceled'')) (\<lambda>_. None) [] [] ia_manager_demo"
  have "map_option (\<lambda>(s, r). map_sum id (\<lambda>x. (itSessionID x, itID x)) r) ?c = Some (Inr (''s1'', ''q1''))" by code_simp
  then obtain s created where c: "?c = Some (s, Inr created)" "itSessionID created = ''s1''" "itID created = ''q1''"
    by (cases ?c; cases "snd (the ?c)") auto
  have "map_option (\<lambda>(m, r). isnClosed (imStore m)) ?r = Some False" by code_simp
  then obtain m' r where r: "?r = Some (m', r)" "\<not> isnClosed (imStore m')" by auto
  show ?thesis using mg_Request_abandoned [OF ia_manager_demo_store c(1) r(1) refl refl r(2)] c(2,3) r(1) by auto
qed

end
