(* ===== verification/Gateway_Request_Text.thy ===== *)
theory Gateway_Request_Text
  imports Gateway_Interactions
begin

text \<open>
  A reader for the JSON by which the gateway compares requests, and the round trip: the text
  determines the kind, the prompt and the options, up to bytes that are not UTF-8.
\<close>

section \<open>Reading a request\<close>

fun expect :: "string \<Rightarrow> string \<Rightarrow> string option" where
  "expect [] s = Some s"
| "expect (c # cs) [] = None"
| "expect (c # cs) (d # s) = (if c = d then expect cs s else None)"

definition read_field :: "string \<Rightarrow> string \<Rightarrow> (string \<times> string) option" where
  "read_field name s = do { s \<leftarrow> expect (json_field name []) s; read_string s }"

definition read_option :: "string \<Rightarrow> (interaction_option \<times> string) option" where
  "read_option s =
     do {
       s \<leftarrow> expect ''{'' s;
       (i, s) \<leftarrow> read_field ''id'' s;
       s \<leftarrow> expect '','' s;
       (l, s) \<leftarrow> read_field ''label'' s;
       (d, s) \<leftarrow> (case expect '','' s of Some s \<Rightarrow> read_field ''description'' s | None \<Rightarrow> Some ([], s));
       s \<leftarrow> expect ''}'' s;
       Some (\<lparr>ioID = i, ioLabel = l, ioDescription = d\<rparr>, s)
     }"

fun read_options :: "nat \<Rightarrow> string \<Rightarrow> (interaction_option list \<times> string) option" where
  "read_options 0 s = None"
| "read_options (Suc k) s =
     do {
       (x, s) \<leftarrow> read_option s;
       case expect '','' s of
         Some s \<Rightarrow> map_option (\<lambda>(xs, s). (x # xs, s)) (read_options k s)
       | None \<Rightarrow> map_option (\<lambda>s. ([x], s)) (expect '']'' s)
     }"

definition read_request :: "string \<Rightarrow> (string \<times> string \<times> interaction_option list) option" where
  "read_request s =
     do {
       s \<leftarrow> expect ''{'' s;
       (k, s) \<leftarrow> read_field ''Kind'' s;
       s \<leftarrow> expect '','' s;
       (p, s) \<leftarrow> read_field ''Prompt'' s;
       s \<leftarrow> expect ('','' @ json_field ''Options'' []) s;
       (xs, s) \<leftarrow> (case expect ''null'' s of
         Some s \<Rightarrow> Some ([], s) | None \<Rightarrow> do { s \<leftarrow> expect ''['' s; read_options (length s) s });
       s \<leftarrow> expect ''}'' s;
       if s = [] then Some (k, p, xs) else None
     }"

section \<open>The round trip\<close>

definition coerce_option :: "interaction_option \<Rightarrow> interaction_option" where
  "coerce_option x = \<lparr>ioID = coerce_utf8 (ioID x), ioLabel = coerce_utf8 (ioLabel x), ioDescription = coerce_utf8 (ioDescription x)\<rparr>"

lemma expect_append [simp]: "expect p (p @ s) = Some s"
  by (induction p) auto

lemma coerce_utf8_Nil_iff: "coerce_utf8 s = [] \<longleftrightarrow> s = []"
  by (cases s) (auto simp: coerce_utf8.simps Let_def rune_bytes_def)

lemma read_field_json: "read_field name (json_field name (json_string v) @ r) = Some (coerce_utf8 v, r)"
proof -
  have "json_field name (json_string v) @ r = json_field name [] @ json_string v @ r" by (simp add: json_field_def)
  then show ?thesis by (simp add: read_field_def read_string_json)
qed

lemma read_option_json: "read_option (option_json x @ r) = Some (coerce_option x, r)"
proof (cases "ioDescription x = []")
  case True
  then have "option_json x @ r = ''{'' @ json_field ''id'' (json_string (ioID x)) @ '','' @ json_field ''label'' (json_string (ioLabel x)) @ ''}'' @ r"
    by (simp add: option_json_def)
  then show ?thesis using True by (simp add: read_option_def read_field_json coerce_option_def coerce_utf8.simps)
next
  case False
  then have "option_json x @ r = ''{'' @ json_field ''id'' (json_string (ioID x)) @ '','' @ json_field ''label'' (json_string (ioLabel x)) @
      '','' @ json_field ''description'' (json_string (ioDescription x)) @ ''}'' @ r"
    by (simp add: option_json_def)
  then show ?thesis by (simp add: read_option_def read_field_json coerce_option_def)
qed

lemma read_options_json: "xs \<noteq> [] \<Longrightarrow> length xs \<le> k \<Longrightarrow> read_options k (options_json xs @ r) = Some (map coerce_option xs, r)"
proof (induction xs arbitrary: k rule: options_json.induct)
  case (2 x)
  then show ?case by (cases k) (simp_all add: read_option_json)
next
  case (3 x x' xs)
  then obtain k' where k: "k = Suc k'" "length (x' # xs) \<le> k'" by (cases k) auto
  then show ?case using "3.IH" [of k'] by (simp add: read_option_json)
qed simp

lemma length_options_json: "xs \<noteq> [] \<Longrightarrow> length xs \<le> length (options_json xs)"
  by (induction xs rule: options_json.induct) (simp_all add: option_json_def)

text \<open>
  C36: The text by which requests are compared loses nothing: read back, it gives the kind, the
  prompt and the options of the interaction, each with its bytes that are not UTF-8 replaced.
\<close>

theorem request_json_roundtrip:
  "read_request (request_json v) =
   Some (coerce_utf8 (kind_text (itKind v)), coerce_utf8 (itPrompt v), map coerce_option (itOptions v))"
proof -
  let ?opts = "if itOptions v = [] then ''null'' else ''['' @ options_json (itOptions v)"
  have "request_json v = ''{'' @ json_field ''Kind'' (json_string (kind_text (itKind v))) @ '','' @
      json_field ''Prompt'' (json_string (itPrompt v)) @ ('','' @ json_field ''Options'' []) @ ?opts @ ''}''"
    by (simp add: request_json_def json_field_def)
  moreover have "read_options (length (options_json (itOptions v) @ ''}'')) (options_json (itOptions v) @ ''}'') =
      Some (map coerce_option (itOptions v), ''}'')" if "itOptions v \<noteq> []"
    using length_options_json [OF that] by (intro read_options_json [OF that]) simp
  ultimately show ?thesis by (simp add: read_request_def read_field_json del: read_options.simps)
qed

end
