(* ===== verification/Topological_Order.thy ===== *)
theory Topological_Order
  imports Go_Base
begin

text \<open>
  The ordering of an invocation graph (\<open>sortInvocationGraphNodes\<close> of \<open>sdk/invocation_graph.go\<close>):
  count the predecessors of every node, keep the nodes whose predecessors are all placed
  in a sorted list, and place its first one. The loop is bounded by the number of nodes;
  \<open>None\<close> would be a loop that goes on.
\<close>

section \<open>Counting predecessors\<close>

definition get_count :: "int gomap \<Rightarrow> string \<Rightarrow> int" where
  "get_count m k = (case map_of m k of Some n \<Rightarrow> n | None \<Rightarrow> 0)"

definition get_list :: "string list gomap \<Rightarrow> string \<Rightarrow> string list" where
  "get_list m k = (case map_of m k of Some xs \<Rightarrow> xs | None \<Rightarrow> [])"

definition addOrderEdge ::
  "'n gomap \<Rightarrow> string \<Rightarrow> string \<Rightarrow> int gomap \<times> string list gomap \<Rightarrow> int gomap \<times> string list gomap" where
  "addOrderEdge nodes from to st =
     (case st of (inbound, outbound) \<Rightarrow>
        if from = [] \<or> to = [] \<or> from = to \<or> map_of nodes from = None \<or> map_of nodes to = None then (inbound, outbound)
        else if to \<in> set (get_list outbound from) then (inbound, outbound)
        else (AList.update to (get_count inbound to + 1) inbound, AList.update from (get_list outbound from @ [to]) outbound))"

text \<open>Placing a node: one predecessor less for each of its targets.\<close>

fun relax :: "string list \<Rightarrow> string list \<Rightarrow> int gomap \<Rightarrow> string list \<times> int gomap" where
  "relax [] ready inbound = (ready, inbound)"
| "relax (target # targets) ready inbound =
     (let n = get_count inbound target - 1 in
      relax targets (if n = 0 then ready @ [target] else ready) (AList.update target n inbound))"

fun place_nodes ::
  "(string \<Rightarrow> string \<Rightarrow> int) \<Rightarrow> string list gomap \<Rightarrow> nat \<Rightarrow> string list \<Rightarrow> int gomap \<Rightarrow> string list \<Rightarrow> string list option" where
  "place_nodes compare outbound 0 ready inbound ordered = None"
| "place_nodes compare outbound (Suc k) ready inbound ordered =
     (case ready of
        [] \<Rightarrow> Some ordered
      | i # ready \<Rightarrow>
          (case relax (sort_func compare (get_list outbound i)) ready inbound of
             (ready, inbound) \<Rightarrow> place_nodes compare outbound k (sort_func compare ready) inbound (ordered @ [i])))"

section \<open>The edges\<close>

text \<open>The edges that count: between two different nodes of the graph.\<close>

definition real_edges :: "'n gomap \<Rightarrow> (string \<times> string) list \<Rightarrow> (string \<times> string) set" where
  "real_edges nodes es = {(u, v). (u, v) \<in> set es \<and> u \<noteq> [] \<and> v \<noteq> [] \<and> u \<noteq> v \<and> map_of nodes u \<noteq> None \<and> map_of nodes v \<noteq> None}"

definition preds :: "(string \<times> string) set \<Rightarrow> string \<Rightarrow> string set" where
  "preds E v = {u. (u, v) \<in> E}"

definition counted :: "(string \<times> string) set \<Rightarrow> int gomap \<times> string list gomap \<Rightarrow> bool" where
  "counted E st \<longleftrightarrow> (\<forall>u. distinct (get_list (snd st) u) \<and> set (get_list (snd st) u) = {v. (u, v) \<in> E}) \<and>
     (\<forall>v. get_count (fst st) v = int (card (preds E v)))"

lemma finite_real_edges [simp]: "finite (real_edges nodes es)"
  by (rule finite_subset [of _ "set es"]) (auto simp: real_edges_def)

lemma finite_preds: "finite E \<Longrightarrow> finite (preds E v)"
  by (rule finite_subset [of _ "fst ` E"]) (auto simp: preds_def intro: rev_image_eqI)

lemma real_edges_snoc:
  "real_edges nodes (es @ [(u, v)]) = real_edges nodes es \<union> (if u = [] \<or> v = [] \<or> u = v \<or> map_of nodes u = None \<or> map_of nodes v = None then {} else {(u, v)})"
  by (auto simp: real_edges_def)

lemma get_count_put: "get_count (AList.update k n m) v = (if v = k then n else get_count m v)"
  by (simp add: get_count_def)

lemma get_list_put: "get_list (AList.update k n m) v = (if v = k then n else get_list m v)"
  by (simp add: get_list_def)

lemma addOrderEdge_counted:
  assumes "counted (real_edges nodes es) st"
  shows "counted (real_edges nodes (es @ [(u, v)])) (addOrderEdge nodes u v st)"
proof -
  let ?E = "real_edges nodes es" and ?F = "real_edges nodes (es @ [(u, v)])"
  obtain inb out where st: "st = (inb, out)" by fastforce
  have out: "distinct (get_list out x)" "set (get_list out x) = {y. (x, y) \<in> ?E}" for x using assms by (auto simp: counted_def st)
  have inb: "get_count inb y = int (card (preds ?E y))" for y using assms by (auto simp: counted_def st)
  show ?thesis
  proof (cases "u = [] \<or> v = [] \<or> u = v \<or> map_of nodes u = None \<or> map_of nodes v = None")
    case True
    have "?F = ?E" unfolding real_edges_snoc if_P [OF True] by (rule Un_empty_right)
    moreover have "addOrderEdge nodes u v st = st" unfolding addOrderEdge_def st prod.case if_P [OF True] by (rule refl)
    ultimately show ?thesis using assms by simp
  next
    case ok: False
    have F: "?F = insert (u, v) ?E" unfolding real_edges_snoc if_not_P [OF ok] by simp
    show ?thesis
    proof (cases "(u, v) \<in> ?E")
      case True
      have "?F = ?E" unfolding F by (rule insert_absorb [OF True])
      moreover have "addOrderEdge nodes u v st = st" unfolding addOrderEdge_def st prod.case if_not_P [OF ok] using True out(2) [of u] by simp
      ultimately show ?thesis using assms by simp
    next
      case False
      then have v: "v \<notin> set (get_list out u)" using out(2) by simp
      have new: "addOrderEdge nodes u v st = (AList.update v (get_count inb v + 1) inb, AList.update u (get_list out u @ [v]) out)"
        unfolding addOrderEdge_def st prod.case if_not_P [OF ok] if_not_P [OF v] by (rule refl)
      have "preds ?F y = (if y = v then insert u (preds ?E v) else preds ?E y)" for y by (auto simp: preds_def F)
      moreover have "u \<notin> preds ?E v" using False by (simp add: preds_def)
      ultimately have "get_count (fst (addOrderEdge nodes u v st)) y = int (card (preds ?F y))" for y
        using inb finite_preds [of ?E v] by (simp add: new get_count_put)
      moreover have "distinct (get_list (snd (addOrderEdge nodes u v st)) x) \<and>
          set (get_list (snd (addOrderEdge nodes u v st)) x) = {y. (x, y) \<in> ?F}" for x
        using v out [of x] by (cases "x = u") (auto simp: new get_list_put F)
      ultimately show ?thesis by (simp add: counted_def)
    qed
  qed
qed

lemma counted_edges:
  assumes "counted {} st"
  shows "counted (real_edges nodes es) (foldl (\<lambda>st (u, v). addOrderEdge nodes u v st) st es)"
proof (induction es rule: rev_induct)
  case Nil
  have "real_edges nodes [] = {}" by (simp add: real_edges_def)
  then show ?case using assms by simp
next
  case (snoc e es)
  then show ?case using addOrderEdge_counted by (cases e) simp
qed

lemma addOrderEdge_keys:
  assumes "\<And>k. map_of (fst st) k \<noteq> None \<longleftrightarrow> map_of nodes k \<noteq> None"
  shows "map_of (fst (addOrderEdge nodes u v st)) k \<noteq> None \<longleftrightarrow> map_of nodes k \<noteq> None"
  using assms by (cases st) (auto simp: addOrderEdge_def)

section \<open>The loop\<close>

lemma relax_result:
  assumes "distinct ts"
  shows "relax ts ready inb = (ready @ filter (\<lambda>t. get_count inb t = 1) ts, snd (relax ts ready inb)) \<and>
    (\<forall>v. get_count (snd (relax ts ready inb)) v = get_count inb v - (if v \<in> set ts then 1 else 0))"
  using assms
proof (induction ts arbitrary: ready inb)
  case (Cons t ts)
  let ?inb = "AList.update t (get_count inb t - 1) inb"
  have "filter (\<lambda>x. get_count ?inb x = 1) ts = filter (\<lambda>x. get_count inb x = 1) ts"
    using Cons.prems by (auto simp: get_count_put intro!: filter_cong)
  then show ?case
    using Cons.IH [of "if get_count inb t - 1 = 0 then ready @ [t] else ready" ?inb] Cons.prems
    by (auto simp: Let_def get_count_put)
qed simp

text \<open>
  What holds at every turn: the nodes placed and ready are those without an unplaced
  predecessor, the counts say how many a node still has, and placed nodes follow
  their predecessors.
\<close>

definition placing ::
  "(string \<times> string) set \<Rightarrow> string set \<Rightarrow> string list \<Rightarrow> int gomap \<Rightarrow> string list \<Rightarrow> bool" where
  "placing E V ready inb ordered \<longleftrightarrow> distinct (ordered @ ready) \<and> set ordered \<union> set ready \<subseteq> V \<and>
     (\<forall>v\<in>V. get_count inb v = int (card (preds E v - set ordered))) \<and>
     (\<forall>v\<in>V. v \<in> set ordered \<union> set ready \<longleftrightarrow> preds E v \<subseteq> set ordered) \<and>
     (\<forall>i<length ordered. preds E (ordered ! i) \<subseteq> set (take i ordered))"

lemma placing_step:
  assumes "placing E V (i # ready) inb ordered" "finite E" "E \<subseteq> V \<times> V" "distinct ts" "set ts = {v. (i, v) \<in> E}"
    and "relax ts ready inb = (ready', inb')" "mset ready'' = mset ready'"
  shows "placing E V ready'' inb' (ordered @ [i])"
proof -
  note p = assms(1) [unfolded placing_def]
  have r: "ready' = ready @ filter (\<lambda>t. get_count inb t = 1) ts" "get_count inb' v = get_count inb v - (if v \<in> set ts then 1 else 0)" for v
    using relax_result [OF assms(4), of ready inb] assms(6) by auto
  have i: "i \<in> V" "i \<notin> set ordered" "i \<notin> set ready" "preds E i \<subseteq> set ordered" using p by auto
  have "i \<notin> preds E v" if "v \<in> set ordered \<union> set (i # ready)" for v
  proof -
    have "v \<in> V" using p that by auto
    then show ?thesis using p that i(2) by blast
  qed
  then have fresh: "v \<notin> set ordered \<union> set (i # ready)" if "v \<in> set ts" for v using that assms(5) by (auto simp: preds_def)
  have count: "get_count inb' v = int (card (preds E v - set (ordered @ [i])))" if "v \<in> V" for v
  proof (cases "v \<in> set ts")
    case True
    then have "i \<in> preds E v - set ordered" using assms(5) i(2) by (auto simp: preds_def)
    moreover have "preds E v - set (ordered @ [i]) = (preds E v - set ordered) - {i}" by auto
    ultimately have "card (preds E v - set (ordered @ [i])) = card (preds E v - set ordered) - 1" "0 < card (preds E v - set ordered)"
      using finite_preds [OF assms(2), of v] by (auto simp: card_gt_0_iff)
    then show ?thesis using r(2) [of v] True p that by auto
  next
    case False
    then have "preds E v - set (ordered @ [i]) = preds E v - set ordered" using assms(5) by (auto simp: preds_def)
    then show ?thesis using r(2) [of v] False p that by auto
  qed
  have ready: "set ready'' = set ready \<union> {t \<in> set ts. get_count inb t = 1}" "distinct ready''"
  proof -
    show "set ready'' = set ready \<union> {t \<in> set ts. get_count inb t = 1}" using mset_eq_setD [OF assms(7)] r(1) by auto
    have "distinct ready'" using r(1) p assms(4) fresh by auto
    then show "distinct ready''" using mset_eq_imp_distinct_iff [OF assms(7)] by simp
  qed
  have avail: "v \<in> set (ordered @ [i]) \<union> set ready'' \<longleftrightarrow> preds E v \<subseteq> set (ordered @ [i])" if v: "v \<in> V" for v
  proof (cases "v \<in> set ordered \<union> set (i # ready)")
    case True
    then have "preds E v \<subseteq> set ordered" using p v by blast
    then show ?thesis using True ready(1) by auto
  next
    case False
    then have "\<not> preds E v \<subseteq> set ordered" using p v by blast
    moreover have "v \<in> set ts \<longleftrightarrow> i \<in> preds E v" using assms(5) by (simp add: preds_def)
    moreover have "get_count inb v = 1 \<longleftrightarrow> preds E v - set (ordered @ [i]) = {}" if "v \<in> set ts"
    proof -
      have "card (preds E v - set (ordered @ [i])) = 0 \<longleftrightarrow> preds E v - set (ordered @ [i]) = {}"
        using finite_preds [OF assms(2), of v] by simp
      moreover have "get_count inb v = int (card (preds E v - set (ordered @ [i]))) + 1" using count [OF v] r(2) [of v] that by simp
      ultimately show ?thesis by linarith
    qed
    ultimately show ?thesis using False ready(1) by auto
  qed
  have sub: "set (ordered @ [i]) \<union> set ready'' \<subseteq> V" using p ready(1) assms(3,5) by auto
  have dist: "distinct ((ordered @ [i]) @ ready'')" using p ready fresh i by auto
  have topo: "preds E ((ordered @ [i]) ! j) \<subseteq> set (take j (ordered @ [i]))" if "j < length (ordered @ [i])" for j
    using p i(4) that by (cases "j < length ordered") (auto simp: nth_append less_Suc_eq)
  show ?thesis unfolding placing_def using dist sub count avail topo by blast
qed

lemma placing_bound: "placing E V ready inb ordered \<Longrightarrow> finite V \<Longrightarrow> length ordered + length ready \<le> card V"
  unfolding placing_def by (metis card_mono distinct_card length_append set_append)

text \<open>A reference: always take the least node that is not placed and whose predecessors are.\<close>

fun least_first :: "(string \<Rightarrow> string \<Rightarrow> int) \<Rightarrow> (string \<times> string) set \<Rightarrow> string list \<Rightarrow> nat \<Rightarrow> string list \<Rightarrow> string list" where
  "least_first compare E V 0 ordered = ordered"
| "least_first compare E V (Suc k) ordered =
     (case sort_func compare (filter (\<lambda>v. v \<notin> set ordered \<and> preds E v \<subseteq> set ordered) V) of
        [] \<Rightarrow> ordered
      | v # _ \<Rightarrow> least_first compare E V k (ordered @ [v]))"

lemma place_nodes_correct:
  assumes "placing E (set V) ready inb ordered" "finite E" "E \<subseteq> set V \<times> set V" "distinct V"
    and "\<And>u. distinct (get_list out u) \<and> set (get_list out u) = {v. (u, v) \<in> E}" "length V < length ordered + k"
    and "comparator compare" "\<And>u v. u \<in> set V \<Longrightarrow> v \<in> set V \<Longrightarrow> compare u v = 0 \<Longrightarrow> u = v" "ready = sort_func compare ready"
  shows "\<exists>inb' ordered'. place_nodes compare out k ready inb ordered = Some ordered' \<and> placing E (set V) [] inb' ordered' \<and>
    ordered' = least_first compare E V k ordered"
  using assms(1,6,9)
proof (induction k arbitrary: ready inb ordered)
  case 0
  then show ?case using placing_bound [OF 0(1)] assms(4) by (simp add: distinct_card)
next
  case (Suc k)
  let ?avail = "filter (\<lambda>v. v \<notin> set ordered \<and> preds E v \<subseteq> set ordered) V"
  have "set ready = set ?avail" "distinct ready" using Suc.prems(1) unfolding placing_def by auto
  then have "mset ready = mset ?avail" using set_eq_iff_mset_eq_distinct [of ready ?avail] distinct_filter [OF assms(4)] by blast
  then have "sort_func compare ready = sort_func compare ?avail"
  proof (rule comparator.sort_func_unique [OF assms(7)])
    have "set ready \<subseteq> set V" using Suc.prems(1) by (auto simp: placing_def)
    then show "x = y" if "x \<in> set ready" "y \<in> set ready" "compare x y = 0" for x y using assms(8) that by blast
  qed
  then have avail: "sort_func compare ?avail = ready" using Suc.prems(3) by simp
  show ?case
  proof (cases ready)
    case Nil
    then show ?thesis using Suc.prems(1) avail by auto
  next
    case (Cons i rest)
    obtain ready' inb' where r: "relax (sort_func compare (get_list out i)) rest inb = (ready', inb')" by fastforce
    have "placing E (set V) (sort_func compare ready') inb' (ordered @ [i])"
      by (rule placing_step [OF Suc.prems(1) [unfolded Cons] assms(2,3) _ _ r])
        (use assms(5) [of i] distinct_map_sort_func [of id compare "get_list out i"] in auto)
    moreover have "sort_func compare ready' = sort_func compare (sort_func compare ready')"
      by (rule comparator.sort_func_sorted [OF assms(7) comparator.sorted_sort_func [OF assms(7)], symmetric])
    ultimately obtain inb'' ordered' where "place_nodes compare out k (sort_func compare ready') inb' (ordered @ [i]) = Some ordered'"
      "placing E (set V) [] inb'' ordered'" "ordered' = least_first compare E V k (ordered @ [i])"
      using Suc.IH [of "sort_func compare ready'" inb' "ordered @ [i]"] Suc.prems(2) by auto
    then show ?thesis using Cons r avail by auto
  qed
qed

text \<open>When nothing is ready any more, everything is placed just if the edges have no cycle.\<close>

lemma placing_done_iff:
  assumes "placing E V [] inb ordered" "finite E" "finite V" "E \<subseteq> V \<times> V"
  shows "length ordered = card V \<longleftrightarrow> acyclic E"
proof
  assume len: "length ordered = card V"
  have p: "distinct ordered" "set ordered \<subseteq> V" "\<And>i. i < length ordered \<Longrightarrow> preds E (ordered ! i) \<subseteq> set (take i ordered)"
    using assms(1) by (auto simp: placing_def)
  then have V: "set ordered = V" using len assms(3) by (metis card_subset_eq distinct_card)
  define pos where "pos v = (THE i. i < length ordered \<and> ordered ! i = v)" for v
  have pos: "pos (ordered ! i) = i" if "i < length ordered" for i
    unfolding pos_def using that p(1) by (intro the_equality) (auto simp: nth_eq_iff_index_eq)
  have "pos u < pos v" if "(u, v) \<in> E" for u v
  proof -
    have "v \<in> set ordered" using that assms(4) V by auto
    then obtain i where i: "i < length ordered" "ordered ! i = v" by (auto simp: in_set_conv_nth)
    then have "u \<in> set (take i ordered)" using p(3) [OF i(1)] that by (auto simp: preds_def)
    then obtain j where "j < i" "ordered ! j = u" using i(1) by (auto simp: in_set_conv_nth)
    then show ?thesis using pos i by auto
  qed
  then have "E \<subseteq> measure pos" by auto
  then show "acyclic E" by (metis acyclic_subset wf_acyclic wf_measure)
next
  assume "acyclic E"
  have "set ordered = V"
  proof (rule ccontr)
    assume "set ordered \<noteq> V"
    then obtain x where x: "x \<in> V - set ordered" using assms(1) by (auto simp: placing_def)
    have wf: "wf E" using finite_acyclic_wf [OF assms(2) \<open>acyclic E\<close>] .
    obtain z where z: "z \<in> V - set ordered" "\<And>y. (y, z) \<in> E \<Longrightarrow> y \<notin> V - set ordered" by (rule wfE_min [OF wf x]) blast
    then have "preds E z \<subseteq> set ordered" using assms(4) by (auto simp: preds_def)
    then show False using z(1) assms(1) by (auto simp: placing_def)
  qed
  then show "length ordered = card V" using assms(1) by (auto simp: placing_def distinct_card)
qed

text \<open>The reference reads its list of nodes as a set, and its comparison only on them.\<close>

lemma insert_by_cong:
  assumes "\<And>y. y \<in> set ys \<Longrightarrow> c x y = d x y"
  shows "insert_by c x ys = insert_by d x ys"
  using assms by (induction ys) auto

lemma sort_func_cong:
  assumes "\<And>x y. x \<in> set xs \<Longrightarrow> y \<in> set xs \<Longrightarrow> c x y = d x y"
  shows "sort_func c xs = sort_func d xs"
  using assms
proof (induction xs)
  case (Cons x xs)
  then have "sort_func c xs = sort_func d xs" by simp
  moreover have "insert_by c x (sort_func d xs) = insert_by d x (sort_func d xs)" using Cons.prems by (intro insert_by_cong) simp
  ultimately show ?case by simp
qed simp

lemma least_first_cong:
  assumes "comparator c" "\<And>x y. x \<in> set V \<Longrightarrow> y \<in> set V \<Longrightarrow> c x y = 0 \<Longrightarrow> x = y"
    and "mset V = mset W" "\<And>x y. x \<in> set V \<Longrightarrow> y \<in> set V \<Longrightarrow> c x y = d x y"
  shows "least_first c E V k ordered = least_first d E W k ordered"
proof (induction k arbitrary: ordered)
  case (Suc k)
  let ?P = "\<lambda>v. v \<notin> set ordered \<and> preds E v \<subseteq> set ordered"
  have "sort_func c (filter ?P V) = sort_func c (filter ?P W)"
    by (rule comparator.sort_func_unique [OF assms(1)]) (use assms(2,3) in \<open>auto simp: mset_filter\<close>)
  also have "\<dots> = sort_func d (filter ?P W)" using assms(4) mset_eq_setD [OF assms(3)] by (intro sort_func_cong) auto
  finally show ?case using Suc by (auto split: list.split)
qed simp

end
