(* ===== verification/Invocations.thy ===== *)
theory Invocations
  imports Resource_Names
begin

text \<open>Invocation identities (\<open>sdk/invocation.go\<close>).\<close>

record invocation =
  invID :: string
  invRootID :: string
  invParentID :: string
  invGroupID :: string
  invSessionID :: string
  invTargetSessionID :: string
  invExecutionID :: string
  invDependencies :: "string list"
  invOrdinal :: u32

definition no_invocation :: invocation where
  "no_invocation = \<lparr>invID = [], invRootID = [], invParentID = [], invGroupID = [],
     invSessionID = [], invTargetSessionID = [], invExecutionID = [],
     invDependencies = [], invOrdinal = 0\<rparr>"

definition InvocationEmpty :: "invocation \<Rightarrow> bool" where
  "InvocationEmpty i \<longleftrightarrow> invID i = [] \<and> invRootID i = [] \<and> invParentID i = [] \<and>
     invGroupID i = [] \<and> invSessionID i = [] \<and> invTargetSessionID i = [] \<and>
     invExecutionID i = [] \<and> length (invDependencies i) = 0 \<and> invOrdinal i = 0"

definition required_field :: "string \<times> string \<Rightarrow> error option" where
  "required_field f =
     and_then (reject_if (snd f = []) (Errorf ''%s is empty''))
       (ValidateResourceName (fst f) (snd f))"

definition optional_field :: "string \<times> string \<Rightarrow> error option" where
  "optional_field f = (if snd f \<noteq> [] then ValidateResourceName (fst f) (snd f) else None)"

fun valid_dependencies :: "string \<Rightarrow> string list \<Rightarrow> string list \<Rightarrow> error option" where
  "valid_dependencies self seen [] = None"
| "valid_dependencies self seen (d # ds) =
     and_then (ValidateResourceName ''invocation dependency'' d)
     (and_then (reject_if (d = self) (Errorf ''invocation %q cannot depend on itself''))
     (and_then (reject_if (d \<in> set seen)
        (Errorf ''invocation %q contains duplicate dependency %q''))
      (valid_dependencies self (d # seen) ds)))"

definition ValidateInvocation :: "invocation \<Rightarrow> error option" where
  "ValidateInvocation i =
     (if InvocationEmpty i then None
      else and_then (reject_if (invID i = []) (Errorf ''invocation ID is empty''))
       (and_then (first_error required_field
          [(''invocation'', invID i), (''invocation root'', invRootID i),
           (''invocation session'', invSessionID i),
           (''invocation execution'', invExecutionID i)])
       (and_then (first_error optional_field
          [(''invocation parent'', invParentID i), (''invocation group'', invGroupID i),
           (''invocation target session'', invTargetSessionID i)])
        (valid_dependencies (invID i) [] (invDependencies i)))))"

lemma valid_dependencies_None:
  "valid_dependencies self seen ds = None \<longleftrightarrow>
     distinct ds \<and> self \<notin> set ds \<and> set seen \<inter> set ds = {} \<and>
     (\<forall>d\<in>set ds. resourceNamePattern d)"
  by (induction ds arbitrary: seen) (auto simp: result_simps)

lemma required_field_None [result_simps]:
  "required_field f = None \<longleftrightarrow> resourceNamePattern (snd f)"
  by (auto simp: required_field_def result_simps)

lemma optional_field_None [result_simps]:
  "optional_field f = None \<longleftrightarrow> snd f = [] \<or> resourceNamePattern (snd f)"
  by (auto simp: optional_field_def result_simps)

text \<open>
  An invocation is accepted exactly when it is the zero invocation or names its
  identity, root, session and execution, its optional references are names, and its
  dependencies are distinct names other than its own.
\<close>

theorem ValidateInvocation_iff:
  "ValidateInvocation i = None \<longleftrightarrow>
     InvocationEmpty i \<or>
     (list_all resourceNamePattern [invID i, invRootID i, invSessionID i, invExecutionID i] \<and>
      list_all (\<lambda>s. s = [] \<or> resourceNamePattern s)
        [invParentID i, invGroupID i, invTargetSessionID i] \<and>
      distinct (invDependencies i) \<and> invID i \<notin> set (invDependencies i) \<and>
      list_all resourceNamePattern (invDependencies i))"
  by (auto simp: ValidateInvocation_def result_simps valid_dependencies_None list_all_iff)

end
