(* ===== verification/Operations.thy ===== *)
theory Operations
  imports Invocations Leases
begin

text \<open>
  Asynchronous operations: the state machine of \<open>sdk/operation.go\<close> and the aggregate
  transitions of \<open>sdk/storage/internal/operationmodel/model.go\<close>, which every operation
  store applies under its lock. A token that \<open>Claim\<close> draws from \<open>sdk.NewID\<close> is an
  argument, and so is the clock (\<open>wall\<close>) that replaces a zero \<open>now\<close>.
\<close>

section \<open>Data\<close>

datatype OperationKind =
    OperationKindProvider | OperationKindTool | OperationKindAgent
  | OperationKindWorkflow | OperationKindCapability | OperationKindOther string

fun OperationKind_string :: "OperationKind \<Rightarrow> string" where
  "OperationKind_string OperationKindProvider = ''provider''"
| "OperationKind_string OperationKindTool = ''tool''"
| "OperationKind_string OperationKindAgent = ''agent''"
| "OperationKind_string OperationKindWorkflow = ''workflow''"
| "OperationKind_string OperationKindCapability = ''capability''"
| "OperationKind_string (OperationKindOther s) = s"

datatype OperationState =
    OperationPending | OperationRunning | OperationSucceeded | OperationFailed
  | OperationCancelled | OperationStateOther string

record operation =
  opID :: string
  opIdempotencyKey :: string
  opState :: OperationState
  opRevision :: u64
  opOutput :: json
  opError :: string
  opSubmittedAt :: gotime
  opUpdatedAt :: gotime

record op_lease =
  leaseOwner :: string
  leaseToken :: string
  leaseExpiresAt :: gotime

record op_record =
  orOperation :: operation
  orKind :: OperationKind
  orResource :: string
  orResourceRevision :: string
  orInput :: json
  orInvocation :: invocation
  orExecution :: "op_lease option"

section \<open>The state machine of the SDK\<close>

definition OperationState_Terminal :: "OperationState \<Rightarrow> bool" where
  "OperationState_Terminal st \<longleftrightarrow> st \<in> {OperationSucceeded, OperationFailed, OperationCancelled}"

definition op_Terminal :: "operation \<Rightarrow> bool" where
  "op_Terminal oper \<longleftrightarrow> OperationState_Terminal (opState oper)"

fun ValidateOperationTransition :: "OperationState \<Rightarrow> OperationState \<Rightarrow> error option" where
  "ValidateOperationTransition OperationPending next =
     reject_if (next \<notin> {OperationRunning, OperationSucceeded, OperationFailed, OperationCancelled})
       (Errorf ''invalid operation transition %q -> %q'')"
| "ValidateOperationTransition OperationRunning next =
     reject_if (next \<notin> {OperationRunning, OperationSucceeded, OperationFailed, OperationCancelled})
       (Errorf ''invalid operation transition %q -> %q'')"
| "ValidateOperationTransition (OperationStateOther s) next =
     Some (Errorf ''invalid operation transition %q -> %q'')"
| "ValidateOperationTransition _ next =
     Some (Errorf ''terminal operation in state %q cannot transition'')"

definition ValidateOperation :: "operation \<Rightarrow> error option" where
  "ValidateOperation oper =
     and_then (reject_if (opID oper = []) (Errorf ''operation ID is empty''))
     (and_then (reject_if (opIdempotencyKey oper = [])
        (Errorf ''operation %q idempotency key is empty''))
     (and_then (reject_if (opRevision oper = 0)
        (Errorf ''operation %q revision must be positive''))
     (case opState oper of
        OperationPending \<Rightarrow> reject_if (length (opOutput oper) \<noteq> 0 \<or> opError oper \<noteq> [])
          (Errorf ''unfinished operation %q contains a result'')
      | OperationRunning \<Rightarrow> reject_if (length (opOutput oper) \<noteq> 0 \<or> opError oper \<noteq> [])
          (Errorf ''unfinished operation %q contains a result'')
      | OperationSucceeded \<Rightarrow>
          and_then (reject_if (\<not> json_Valid (opOutput oper))
            (Errorf ''operation %q output is invalid JSON''))
          (reject_if (opError oper \<noteq> []) (Errorf ''succeeded operation %q contains an error''))
      | OperationFailed \<Rightarrow>
          reject_if (opError oper = []) (Errorf ''failed operation %q has no error'')
      | OperationCancelled \<Rightarrow> None
      | OperationStateOther s \<Rightarrow> Some (Errorf ''operation %q has invalid state %q''))))"

definition ValidateOperationProgress :: "operation \<Rightarrow> operation \<Rightarrow> error option" where
  "ValidateOperationProgress current next =
     and_then (ValidateOperation current)
     (and_then (ValidateOperation next)
     (and_then (reject_if (opID next \<noteq> opID current)
        (Errorf ''operation poll returned ID %q, expected %q''))
     (and_then (reject_if (opIdempotencyKey next \<noteq> opIdempotencyKey current)
        (Errorf ''operation %q idempotency key changed during poll''))
     (and_then (reject_if (opRevision next < opRevision current)
        (Errorf ''operation %q revision regressed from %d to %d''))
     (if opRevision next = opRevision current
      then and_then (reject_if (opState next \<noteq> opState current)
             (Errorf ''operation %q changed state without a revision increment''))
           (reject_if (opError next \<noteq> opError current \<or> opOutput next \<noteq> opOutput current)
             (Errorf ''operation %q changed result without a revision increment''))
      else (case ValidateOperationTransition (opState current) (opState next) of
              None \<Rightarrow> None
            | Some e \<Rightarrow>
                Some (Nestf ''invalid operation progress %q -> %q over %d revisions: %w'' e)))))))"

section \<open>The aggregate\<close>

definition NormalizeMutationTime :: "gotime \<Rightarrow> gotime \<Rightarrow> gotime" where
  "NormalizeMutationTime wall value = (if value = 0 then wall else value)"

definition ValidateNewRecord :: "op_record \<Rightarrow> error option" where
  "ValidateNewRecord r =
     and_then (reject_if (opID (orOperation r) = []) (Errorf ''operation ID is empty''))
     (and_then (reject_if (opIdempotencyKey (orOperation r) = [])
        (Errorf ''operation idempotency key is empty''))
     (and_then (case orKind r of
          OperationKindOther s \<Rightarrow> Some (Errorf ''invalid operation kind %q'')
        | _ \<Rightarrow> None)
     (and_then (ValidateResourceName (OperationKind_string (orKind r)) (orResource r))
     (and_then (reject_if (\<not> json_Valid (orInput r)) (Errorf ''operation input is invalid JSON''))
      (ValidateInvocation (orInvocation r))))))"

definition PrepareNewRecord :: "string \<Rightarrow> gotime \<Rightarrow> op_record \<Rightarrow> gotime \<Rightarrow> op_record result" where
  "PrepareNewRecord newID wall r now =
     (let r = (if opID (orOperation r) = []
               then r\<lparr>orOperation := (orOperation r)\<lparr>opID := newID\<rparr>\<rparr> else r) in
      check (ValidateNewRecord r)
      (let now = NormalizeMutationTime wall now;
           submittedAt = (if opSubmittedAt (orOperation r) = 0 then now
                          else opSubmittedAt (orOperation r));
           r = r\<lparr>orOperation := (orOperation r)\<lparr>opSubmittedAt := submittedAt,
                   opUpdatedAt := submittedAt, opState := OperationPending, opRevision := 1,
                   opOutput := [], opError := []\<rparr>,
                 orExecution := None\<rparr>
       in check (ValidateOperation (orOperation r)) (Inr r)))"

definition ValidateLeaseDuration :: "duration \<Rightarrow> error option" where
  "ValidateLeaseDuration ttl =
     reject_if (ttl \<le> 0) (Errorf ''operation lease TTL must be positive'')"

definition ValidateClaim :: "string \<Rightarrow> duration \<Rightarrow> error option" where
  "ValidateClaim owner ttl =
     and_then (reject_if (TrimSpace owner = []) (Errorf ''operation lease owner is empty''))
       (ValidateLeaseDuration ttl)"

definition ValidateCompletionState :: "OperationState \<Rightarrow> error option" where
  "ValidateCompletionState st =
     reject_if (st \<noteq> OperationSucceeded \<and> st \<noteq> OperationFailed)
       (Errorf ''claimed operation cannot complete as %q'')"

definition ValidateExpectedRevision :: "op_record \<Rightarrow> u64 \<Rightarrow> error option" where
  "ValidateExpectedRevision r expected =
     reject_if (opRevision (orOperation r) \<noteq> expected)
       (Wrapf ErrOperationConflict ''%w: operation %s has revision %d, expected %d'')"

definition op_Transition ::
  "gotime \<Rightarrow> op_record \<Rightarrow> u64 \<Rightarrow> OperationState \<Rightarrow> json \<Rightarrow> string \<Rightarrow> gotime \<Rightarrow> op_record result" where
  "op_Transition wall r expectedRevision st output operationError now =
     check (ValidateExpectedRevision r expectedRevision)
     (check (ValidateOperationTransition (opState (orOperation r)) st)
     (let now = NormalizeMutationTime wall now;
          r = r\<lparr>orOperation := (orOperation r)\<lparr>opState := st,
                  opRevision := opRevision (orOperation r) + 1, opOutput := output,
                  opError := operationError, opUpdatedAt := now\<rparr>\<rparr>;
          r = (if st \<noteq> OperationRunning then r\<lparr>orExecution := None\<rparr> else r)
      in check (ValidateOperation (orOperation r)) (Inr r)))"

definition op_Cancel :: "gotime \<Rightarrow> op_record \<Rightarrow> u64 \<Rightarrow> gotime \<Rightarrow> op_record result" where
  "op_Cancel wall r expectedRevision now =
     op_Transition wall r expectedRevision OperationCancelled [] [] now"

definition op_Fail :: "gotime \<Rightarrow> op_record \<Rightarrow> u64 \<Rightarrow> string \<Rightarrow> gotime \<Rightarrow> op_record result" where
  "op_Fail wall r expectedRevision operationError now =
     op_Transition wall r expectedRevision OperationFailed [] operationError now"

definition op_Claim ::
  "string \<Rightarrow> gotime \<Rightarrow> op_record \<Rightarrow> string \<Rightarrow> gotime \<Rightarrow> duration \<Rightarrow> op_record result" where
  "op_Claim newID wall r owner now ttl =
     check (ValidateClaim owner ttl)
     (let now = NormalizeMutationTime wall now in
      if op_Terminal (orOperation r)
      then Inl (Errorf ''terminal operation %q cannot be claimed'')
      else if (case orExecution r of None \<Rightarrow> False | Some l \<Rightarrow> now < leaseExpiresAt l)
      then Inl (Wrapf ErrOperationClaimed ''%w: operation %s is owned by %s until %s'')
      else Inr (r\<lparr>orOperation := (orOperation r)\<lparr>opState := OperationRunning,
                    opRevision := opRevision (orOperation r) + 1, opUpdatedAt := now\<rparr>,
                  orExecution := Some \<lparr>leaseOwner = owner, leaseToken = newID,
                    leaseExpiresAt = now + ttl\<rparr>\<rparr>))"

text \<open>The guard shared by \<open>Renew\<close> and \<open>Complete\<close>: a live lease under the token.\<close>

definition lease_current :: "op_record \<Rightarrow> string \<Rightarrow> gotime \<Rightarrow> bool" where
  "lease_current r token now \<longleftrightarrow> opState (orOperation r) = OperationRunning \<and>
     (case orExecution r of None \<Rightarrow> False
      | Some l \<Rightarrow> leaseToken l = token \<and> now < leaseExpiresAt l)"

definition op_Renew ::
  "gotime \<Rightarrow> op_record \<Rightarrow> string \<Rightarrow> gotime \<Rightarrow> duration \<Rightarrow> op_record result" where
  "op_Renew wall r token now ttl =
     check (ValidateLeaseDuration ttl)
     (let now = NormalizeMutationTime wall now in
      if \<not> lease_current r token now
      then Inl (Wrapf ErrOperationFence ''%w: operation %s token is stale or expired'')
      else Inr (r\<lparr>orExecution := map_option (leaseExpiresAt_update (\<lambda>_. now + ttl)) (orExecution r),
                  orOperation := (orOperation r)\<lparr>
                    opRevision := opRevision (orOperation r) + 1, opUpdatedAt := now\<rparr>\<rparr>))"

definition op_Complete ::
  "gotime \<Rightarrow> op_record \<Rightarrow> string \<Rightarrow> OperationState \<Rightarrow> json \<Rightarrow> string \<Rightarrow> gotime \<Rightarrow> op_record result" where
  "op_Complete wall r token st output operationError now =
     check (ValidateCompletionState st)
     (let now = NormalizeMutationTime wall now in
      if \<not> lease_current r token now
      then Inl (Wrapf ErrOperationFence ''%w: operation %s token is stale or expired'')
      else let r = r\<lparr>orOperation := (orOperation r)\<lparr>opState := st,
                       opRevision := opRevision (orOperation r) + 1, opOutput := output,
                       opError := operationError, opUpdatedAt := now\<rparr>,
                     orExecution := None\<rparr>
           in check (ValidateOperation (orOperation r)) (Inr r))"

definition op_Release :: "gotime \<Rightarrow> op_record \<Rightarrow> string \<Rightarrow> gotime \<Rightarrow> op_record result" where
  "op_Release wall r token now =
     (let now = NormalizeMutationTime wall now in
      if opState (orOperation r) \<noteq> OperationRunning \<or>
         (case orExecution r of None \<Rightarrow> True | Some l \<Rightarrow> leaseToken l \<noteq> token)
      then Inl (Wrapf ErrOperationFence ''%w: operation %s token is stale'')
      else Inr (r\<lparr>orExecution := None,
                  orOperation := (orOperation r)\<lparr>
                    opRevision := opRevision (orOperation r) + 1, opUpdatedAt := now\<rparr>\<rparr>))"

definition op_RecoverableAt :: "gotime \<Rightarrow> op_record \<Rightarrow> gotime \<Rightarrow> bool" where
  "op_RecoverableAt wall r now \<longleftrightarrow> \<not> op_Terminal (orOperation r) \<and>
     (case orExecution r of None \<Rightarrow> True
      | Some l \<Rightarrow> \<not> NormalizeMutationTime wall now < leaseExpiresAt l)"

definition IdempotencyIndex :: "op_record \<Rightarrow> string" where
  "IdempotencyIndex r = OperationKind_string (orKind r) @ [CHR 0x00] @ orResource r @ [CHR 0x00] @
     orResourceRevision r @ [CHR 0x00] @ opIdempotencyKey (orOperation r)"

definition SameSubmission :: "op_record \<Rightarrow> op_record \<Rightarrow> bool" where
  "SameSubmission left right \<longleftrightarrow> orInput left = orInput right \<and>
     invID (orInvocation left) = invID (orInvocation right) \<and>
     invRootID (orInvocation left) = invRootID (orInvocation right) \<and>
     invParentID (orInvocation left) = invParentID (orInvocation right) \<and>
     invGroupID (orInvocation left) = invGroupID (orInvocation right) \<and>
     invSessionID (orInvocation left) = invSessionID (orInvocation right) \<and>
     invTargetSessionID (orInvocation left) = invTargetSessionID (orInvocation right) \<and>
     invExecutionID (orInvocation left) = invExecutionID (orInvocation right) \<and>
     invOrdinal (orInvocation left) = invOrdinal (orInvocation right) \<and>
     invDependencies (orInvocation left) = invDependencies (orInvocation right)"

definition ValidateLoadedRecord :: "op_record \<Rightarrow> error option" where
  "ValidateLoadedRecord r =
     and_then (ValidateNewRecord r)
     (and_then (ValidateOperation (orOperation r))
     (case orExecution r of
        None \<Rightarrow> None
      | Some l \<Rightarrow> reject_if (opState (orOperation r) \<noteq> OperationRunning \<or>
            TrimSpace (leaseOwner l) = [] \<or> leaseToken l = [] \<or> leaseExpiresAt l = 0)
          (Errorf ''operation execution lease is invalid'')))"

section \<open>Interleavings of store calls on one record\<close>

text \<open>
  One constructor per mutating call of the store; the first two arguments are the clock and
  the \<open>now\<close> the caller passes.
\<close>

datatype op_event =
    EvCancel gotime gotime u64
  | EvFail gotime gotime u64 string
  | EvClaim gotime gotime string string duration
  | EvRenew gotime gotime string duration
  | EvComplete gotime gotime string OperationState json string
  | EvRelease gotime gotime string

fun op_apply :: "op_event \<Rightarrow> op_record \<Rightarrow> op_record result" where
  "op_apply (EvCancel wall now rv) r = op_Cancel wall r rv now"
| "op_apply (EvFail wall now rv err) r = op_Fail wall r rv err now"
| "op_apply (EvClaim wall now owner newID ttl) r = op_Claim newID wall r owner now ttl"
| "op_apply (EvRenew wall now token ttl) r = op_Renew wall r token now ttl"
| "op_apply (EvComplete wall now token st output err) r = op_Complete wall r token st output err now"
| "op_apply (EvRelease wall now token) r = op_Release wall r token now"

definition op_holder :: "op_record \<Rightarrow> string option" where
  "op_holder r = map_option leaseToken (orExecution r)"

definition op_expiry :: "op_record \<Rightarrow> gotime" where
  "op_expiry r = (case orExecution r of None \<Rightarrow> 0 | Some l \<Rightarrow> leaseExpiresAt l)"

fun op_grants :: "op_event \<Rightarrow> string option" where
  "op_grants (EvClaim wall now owner newID ttl) = Some newID"
| "op_grants _ = None"

fun op_credential :: "op_event \<Rightarrow> string option" where
  "op_credential (EvRenew wall now token ttl) = Some token"
| "op_credential (EvComplete wall now token st output err) = Some token"
| "op_credential (EvRelease wall now token) = Some token"
| "op_credential _ = None"

fun op_expects :: "op_event \<Rightarrow> u64 option" where
  "op_expects (EvCancel wall now rv) = Some rv"
| "op_expects (EvFail wall now rv err) = Some rv"
| "op_expects _ = None"

fun op_time :: "op_event \<Rightarrow> gotime" where
  "op_time (EvCancel wall now rv) = NormalizeMutationTime wall now"
| "op_time (EvFail wall now rv err) = NormalizeMutationTime wall now"
| "op_time (EvClaim wall now owner newID ttl) = NormalizeMutationTime wall now"
| "op_time (EvRenew wall now token ttl) = NormalizeMutationTime wall now"
| "op_time (EvComplete wall now token st output err) = NormalizeMutationTime wall now"
| "op_time (EvRelease wall now token) = NormalizeMutationTime wall now"

lemma op_Transition_Inr [result_simps]:
  "op_Transition wall r rv st out err now = Inr r' \<longleftrightarrow>
     opRevision (orOperation r) = rv \<and>
     ValidateOperationTransition (opState (orOperation r)) st = None \<and>
     r' = r\<lparr>orOperation := (orOperation r)\<lparr>opState := st,
              opRevision := opRevision (orOperation r) + 1, opOutput := out,
              opError := err, opUpdatedAt := NormalizeMutationTime wall now\<rparr>,
            orExecution := (if st = OperationRunning then orExecution r else None)\<rparr> \<and>
     ValidateOperation (orOperation r') = None"
  by (auto simp: op_Transition_def Let_def result_simps ValidateExpectedRevision_def)

lemma ValidateOperationTransition_None [result_simps]:
  "ValidateOperationTransition st next = None \<longleftrightarrow>
     st \<in> {OperationPending, OperationRunning} \<and>
     next \<in> {OperationRunning, OperationSucceeded, OperationFailed, OperationCancelled}"
  by (cases st) (auto simp: result_simps)

lemmas op_defs = op_Cancel_def op_Fail_def op_Claim_def op_Renew_def op_Complete_def
  op_Release_def lease_current_def Let_def

lemma op_apply_cases:
  assumes "op_apply e r = Inr r'"
  shows "opRevision (orOperation r') = opRevision (orOperation r) + 1"
    and "\<not> op_Terminal (orOperation r)"
  using assms
  by (cases e; auto simp: op_defs result_simps op_Terminal_def OperationState_Terminal_def
      split: if_splits option.splits)+

interpretation op_leases: leased_aggregate op_apply op_holder op_grants op_credential
  op_expiry op_time
proof
  fix e r r' t t'
  assume ok: "op_apply e r = Inr r'"
  show "op_grants e = Some t \<Longrightarrow> op_holder r' = Some t"
    using ok by (cases e) (auto simp: op_defs op_holder_def result_simps split: if_splits)
  show "op_grants e = None \<Longrightarrow> op_holder r' = op_holder r \<or> op_holder r' = None"
    using ok by (cases e) (auto simp: op_defs op_holder_def result_simps
        split: if_splits option.splits)
  show "op_credential e = Some t \<Longrightarrow> op_holder r = Some t"
    using ok by (cases e) (auto simp: op_defs op_holder_def result_simps
        split: if_splits option.splits)
  show "op_grants e = Some t \<Longrightarrow> op_holder r = Some t' \<Longrightarrow> op_expiry r \<le> op_time e"
    using ok by (cases e) (auto simp: op_defs op_holder_def op_expiry_def result_simps
        split: if_splits option.splits)
qed

interpretation op_terminals: terminal_aggregate op_apply "\<lambda>r. op_Terminal (orOperation r)"
  by unfold_locales (use op_apply_cases(2) in blast)

interpretation op_versions: versioned_aggregate op_apply "\<lambda>r. opRevision (orOperation r)" op_expects
proof
  fix e r r' v
  assume ok: "op_apply e r = Inr r'"
  then show "r' = r \<or> opRevision (orOperation r') = opRevision (orOperation r) + 1"
    using op_apply_cases(1) by blast
  show "op_expects e = Some v \<Longrightarrow>
      opRevision (orOperation r) = v \<and> opRevision (orOperation r') = opRevision (orOperation r) + 1"
    using ok by (cases e) (auto simp: op_defs result_simps)
qed

section \<open>Validity\<close>

text \<open>
  What the environment provides: generated tokens are not empty and no lease is granted
  until exactly the zero time.
\<close>

fun op_event_sane :: "op_event \<Rightarrow> bool" where
  "op_event_sane (EvClaim wall now owner newID ttl) \<longleftrightarrow>
     newID \<noteq> [] \<and> NormalizeMutationTime wall now + ttl \<noteq> 0"
| "op_event_sane (EvRenew wall now token ttl) \<longleftrightarrow> NormalizeMutationTime wall now + ttl \<noteq> 0"
| "op_event_sane _ \<longleftrightarrow> True"

lemma op_apply_identity:
  assumes "op_apply e r = Inr r'"
  shows "opID (orOperation r') = opID (orOperation r)"
    "opIdempotencyKey (orOperation r') = opIdempotencyKey (orOperation r)"
    "opSubmittedAt (orOperation r') = opSubmittedAt (orOperation r)"
    "orKind r' = orKind r" "orResource r' = orResource r"
    "orResourceRevision r' = orResourceRevision r"
    "orInput r' = orInput r" "orInvocation r' = orInvocation r"
  using assms
  by (cases e; auto simp: op_defs result_simps split: if_splits option.splits)+

lemma op_apply_identity_index:
  assumes "op_apply e r = Inr r'"
  shows "IdempotencyIndex r' = IdempotencyIndex r" "SameSubmission r' r"
  using op_apply_identity [OF assms] by (auto simp: IdempotencyIndex_def SameSubmission_def)

lemma op_apply_new_valid:
  assumes "op_apply e r = Inr r'" "ValidateNewRecord r = None"
  shows "ValidateNewRecord r' = None"
  using assms(2) op_apply_identity [OF assms(1)] by (simp add: ValidateNewRecord_def)

lemma op_apply_operation_valid:
  assumes "op_apply e r = Inr r'" "ValidateOperation (orOperation r) = None"
    and "opRevision (orOperation r) + 1 \<noteq> 0"
  shows "ValidateOperation (orOperation r') = None"
  using assms op_apply_cases(2) [OF assms(1)]
  by (cases e; auto simp: op_defs result_simps ValidateOperation_def op_Terminal_def
      OperationState_Terminal_def split: if_splits option.splits OperationState.splits)

lemma op_apply_lease_valid:
  assumes "op_apply e r = Inr r'" "op_event_sane e"
    and "case orExecution r of None \<Rightarrow> True | Some l \<Rightarrow>
      opState (orOperation r) = OperationRunning \<and> TrimSpace (leaseOwner l) \<noteq> [] \<and>
      leaseToken l \<noteq> [] \<and> leaseExpiresAt l \<noteq> 0"
  shows "case orExecution r' of None \<Rightarrow> True | Some l \<Rightarrow>
      opState (orOperation r') = OperationRunning \<and> TrimSpace (leaseOwner l) \<noteq> [] \<and>
      leaseToken l \<noteq> [] \<and> leaseExpiresAt l \<noteq> 0"
  using assms
  by (cases e; auto simp: op_defs result_simps ValidateClaim_def split: if_splits option.splits)

lemma ValidateLoadedRecord_None [result_simps]:
  "ValidateLoadedRecord r = None \<longleftrightarrow> ValidateNewRecord r = None \<and>
     ValidateOperation (orOperation r) = None \<and>
     (case orExecution r of None \<Rightarrow> True | Some l \<Rightarrow>
      opState (orOperation r) = OperationRunning \<and> TrimSpace (leaseOwner l) \<noteq> [] \<and>
      leaseToken l \<noteq> [] \<and> leaseExpiresAt l \<noteq> 0)"
  by (auto simp: ValidateLoadedRecord_def result_simps split: option.splits)

lemma op_apply_valid:
  assumes "op_apply e r = Inr r'" "ValidateLoadedRecord r = None" "op_event_sane e"
    and "opRevision (orOperation r) + 1 \<noteq> 0"
  shows "ValidateLoadedRecord r' = None"
  using assms op_apply_new_valid [OF assms(1)] op_apply_operation_valid [OF assms(1)]
    op_apply_lease_valid [OF assms(1,3)]
  by (simp add: result_simps)

section \<open>Properties\<close>

definition sample_operation :: op_record where
  "sample_operation = \<lparr>
     orOperation = \<lparr>opID = ''op1'', opIdempotencyKey = ''k'', opState = OperationPending,
       opRevision = 1, opOutput = [], opError = [], opSubmittedAt = 5, opUpdatedAt = 5\<rparr>,
     orKind = OperationKindTool, orResource = ''file'', orResourceRevision = [],
     orInput = ''{}'', orInvocation = no_invocation, orExecution = None\<rparr>"

lemma sample_operation_valid: "ValidateLoadedRecord sample_operation = None"
  by (simp add: result_simps sample_operation_def ValidateNewRecord_def ValidateOperation_def
      alnum_def name_char_def ValidateInvocation_def InvocationEmpty_def no_invocation_def)

definition sample_claimed :: op_record where
  "sample_claimed = sample_operation\<lparr>
     orOperation := (orOperation sample_operation)\<lparr>opState := OperationRunning, opRevision := 2,
       opUpdatedAt := 10\<rparr>,
     orExecution := Some \<lparr>leaseOwner = ''w1'', leaseToken = ''t1'', leaseExpiresAt = 40\<rparr>\<rparr>"

lemma sample_claim: "op_Claim ''t1'' 10 sample_operation ''w1'' 0 30 = Inr sample_claimed"
  by (simp add: op_Claim_def ValidateClaim_def ValidateLeaseDuration_def result_simps
      sample_operation_def sample_claimed_def NormalizeMutationTime_def op_Terminal_def
      OperationState_Terminal_def TrimSpace_fix ascii_space_def space2_def reject_if_def)

text \<open>
  Whatever sequence of cancel, fail, claim, renew, complete and release calls the
  workers make on a valid record, and whichever of them fail, the stored record stays one
  that a store accepts when it loads it, as long as the revision counter has room.
\<close>

theorem op_run_valid:
  assumes "ValidateLoadedRecord r = None"
    and "\<forall>e\<in>set es. op_event_sane e"
    and "unat (opRevision (orOperation r)) + length es < 2 ^ 64"
  shows "ValidateLoadedRecord (run_events op_apply es r) = None"
  using assms
proof (induction es arbitrary: r)
  case (Cons e es)
  show ?case
  proof (cases "op_apply e r")
    case (Inl x)
    with Cons show ?thesis by auto
  next
    case (Inr r')
    have "opRevision (orOperation r) + 1 \<noteq> 0"
      using Cons.prems(3) u64_room by fastforce
    then have "ValidateLoadedRecord r' = None"
      using op_apply_valid [OF Inr] Cons.prems by simp
    moreover have "unat (opRevision (orOperation r')) + length es < 2 ^ 64"
      unfolding op_apply_cases(1) [OF Inr] using Cons.prems(3) by (intro u64_step) simp
    ultimately show ?thesis using Cons Inr by simp
  qed
qed simp

theorem op_run_valid_witness:
  "ValidateLoadedRecord (run_events op_apply
     [EvClaim 10 0 ''w1'' ''t1'' 30, EvComplete 20 0 ''t1'' OperationSucceeded ''{}'' []]
     sample_operation) = None"
  by (rule op_run_valid [OF sample_operation_valid])
    (simp_all add: NormalizeMutationTime_def sample_operation_def)

text \<open>
  Every successful mutation of a valid record is progress in the sense of the check
  that clients apply to polled snapshots: same identity, a larger revision and a permitted
  state transition.
\<close>

theorem op_apply_progress:
  assumes "op_apply e r = Inr r'" "ValidateLoadedRecord r = None"
    and "opRevision (orOperation r) + 1 \<noteq> 0"
  shows "ValidateOperationProgress (orOperation r) (orOperation r') = None"
proof -
  have valid: "ValidateOperation (orOperation r) = None" "ValidateOperation (orOperation r') = None"
    using assms op_apply_operation_valid by (auto simp: result_simps)
  have rv: "opRevision (orOperation r') = opRevision (orOperation r) + 1"
    using op_apply_cases(1) [OF assms(1)] .
  then have less: "opRevision (orOperation r) < opRevision (orOperation r')"
    using u64_less_Suc [OF assms(3)] by simp
  have "ValidateOperationTransition (opState (orOperation r)) (opState (orOperation r')) = None"
    using assms(1) op_apply_cases(2) [OF assms(1)] valid(1)
    by (cases e; auto simp: op_defs result_simps ValidateOperation_def op_Terminal_def
        OperationState_Terminal_def ValidateCompletionState_def
        split: if_splits option.splits OperationState.splits)
  then show ?thesis
    using valid less op_apply_identity(1,2) [OF assms(1)]
    by (auto simp: ValidateOperationProgress_def result_simps)
qed

theorem op_apply_progress_witness:
  "ValidateOperationProgress (orOperation sample_operation) (orOperation sample_claimed) = None"
  by (rule op_apply_progress [where e = "EvClaim 10 0 ''w1'' ''t1'' 30", OF _ sample_operation_valid])
    (simp add: sample_claim, simp add: sample_operation_def)

text \<open>
  Fencing. Once another worker has claimed the operation under a new token, the
  previous holder's token is rejected by renew, complete and release for ever, whatever
  calls are interleaved, unless its own token is drawn again.
\<close>

theorem op_takeover_fences:
  assumes "op_Claim t' wall r owner now ttl = Inr r'" "t' \<noteq> t"
    and "\<forall>e\<in>set es. op_grants e \<noteq> Some t" "op_credential e = Some t"
  shows "\<exists>err. op_apply e (run_events op_apply es r') = Inl err"
  using op_leases.takeover_fences [where c = "EvClaim wall now owner t' ttl", of r r' t' t es e] assms
  by simp

theorem op_takeover_fences_witness:
  "\<exists>err. op_apply (EvComplete 60 0 ''t0'' OperationSucceeded ''{}'' [])
     (run_events op_apply [EvRenew 20 0 ''t1'' 30, EvRelease 25 0 ''t1''] sample_claimed) = Inl err"
  by (rule op_takeover_fences [OF sample_claim]) simp_all

text \<open>
  Terminal operations are final: no sequence of calls changes a succeeded, failed or
  cancelled operation in any field.
\<close>

theorem op_terminal_final:
  assumes "op_Terminal (orOperation r)"
  shows "run_events op_apply es r = r"
  using op_terminals.run_terminal assms by blast

theorem op_terminal_final_witness:
  "run_events op_apply [EvClaim 10 0 ''w1'' ''t1'' 30, EvCancel 11 0 1]
     (sample_operation\<lparr>orOperation := (orOperation sample_operation)\<lparr>opState := OperationCancelled\<rparr>\<rparr>) =
   sample_operation\<lparr>orOperation := (orOperation sample_operation)\<lparr>opState := OperationCancelled\<rparr>\<rparr>"
  by (rule op_terminal_final) (simp add: op_Terminal_def OperationState_Terminal_def)

text \<open>
  Optimistic concurrency: of two cancel or fail calls that expect the same revision at
  most one succeeds, whatever happens between them, until the 64-bit counter wraps.
\<close>

theorem op_revision_cas:
  assumes "op_apply e r = Inr r'" "op_expects e = Some v" "op_expects e' = Some v"
    and "unat v + length es + 1 < 2 ^ 64"
  shows "\<exists>err. op_apply e' (run_events op_apply es r') = Inl err"
  using op_versions.compare_and_set_once assms by blast

theorem op_revision_cas_witness:
  "\<exists>r' err. op_apply (EvCancel 10 0 1) sample_operation = Inr r' \<and>
     op_apply (EvFail 11 0 1 ''late'') (run_events op_apply [] r') = Inl err"
proof -
  obtain r' where ok: "op_apply (EvCancel 10 0 1) sample_operation = Inr r'"
    by (simp add: op_Cancel_def result_simps sample_operation_def ValidateOperation_def)
  moreover have "\<exists>err. op_apply (EvFail 11 0 1 ''late'') (run_events op_apply [] r') = Inl err"
    by (rule op_revision_cas [OF ok, where v = 1]) simp_all
  ultimately show ?thesis by blast
qed

text \<open>
  The idempotency index separates its fields: two records whose names are valid and
  whose resource revisions contain no NUL byte share an index only when kind, resource,
  resource revision and idempotency key all agree.
\<close>

theorem IdempotencyIndex_injective:
  assumes "IdempotencyIndex a = IdempotencyIndex b"
    and "ValidateNewRecord a = None" "ValidateNewRecord b = None"
    and "CHR 0x00 \<notin> set (orResourceRevision a)" "CHR 0x00 \<notin> set (orResourceRevision b)"
  shows "orKind a = orKind b \<and> orResource a = orResource b \<and>
    orResourceRevision a = orResourceRevision b \<and>
    opIdempotencyKey (orOperation a) = opIdempotencyKey (orOperation b)"
proof -
  have kind: "CHR 0x00 \<notin> set (OperationKind_string (orKind r))" if "ValidateNewRecord r = None" for r
    using that by (cases "orKind r") (auto simp: ValidateNewRecord_def result_simps)
  have resource: "CHR 0x00 \<notin> set (orResource r)" if "ValidateNewRecord r = None" for r
    using that by (auto simp: ValidateNewRecord_def result_simps dest: resource_name_no_nul)
  note no_nul = kind [OF assms(2)] kind [OF assms(3)] resource [OF assms(2)] resource [OF assms(3)]
  have k: "OperationKind_string (orKind a) = OperationKind_string (orKind b)"
    using assms(1) no_nul unfolding IdempotencyIndex_def by (auto dest!: join_inject)
  moreover have r: "orResource a = orResource b"
    using assms(1) no_nul k unfolding IdempotencyIndex_def by (auto dest!: join_inject)
  moreover have "orResourceRevision a = orResourceRevision b \<and>
      opIdempotencyKey (orOperation a) = opIdempotencyKey (orOperation b)"
    using assms(1,4,5) k r unfolding IdempotencyIndex_def by (auto dest!: join_inject)
  moreover have "orKind a = orKind b"
    using k assms(2,3)
    by (cases "orKind a"; cases "orKind b") (auto simp: ValidateNewRecord_def result_simps)
  ultimately show ?thesis by blast
qed

theorem IdempotencyIndex_injective_witness:
  "orResource sample_operation = orResource sample_claimed \<and>
   opIdempotencyKey (orOperation sample_operation) = opIdempotencyKey (orOperation sample_claimed)"
proof -
  have "IdempotencyIndex sample_operation = IdempotencyIndex sample_claimed"
    "ValidateNewRecord sample_claimed = None"
    using sample_operation_valid
    by (simp_all add: IdempotencyIndex_def sample_claimed_def result_simps ValidateNewRecord_def)
  then show ?thesis
    using IdempotencyIndex_injective [of sample_operation sample_claimed] sample_operation_valid
    by (simp add: result_simps sample_claimed_def sample_operation_def)
qed

end
