(* ===== verification/Operation_Store.thy ===== *)
theory Operation_Store
  imports Operations Stores
begin

text \<open>
  The in-memory operation store of \<open>sdk/storage/operation_memory.go\<close>: records by ID and
  the idempotency index. Every method takes the state under the lock and returns the new
  one; \<open>wall\<close> is the value of \<open>time.Now\<close> and \<open>newID\<close> that of \<open>sdk.NewID\<close>.
\<close>

section \<open>The store\<close>

record op_store =
  osOperations :: "op_record gomap"
  osKeys :: "string gomap"

definition newMemoryOperationStore :: op_store where
  "newMemoryOperationStore = \<lparr>osOperations = [], osKeys = []\<rparr>"

text \<open>The zero value that indexing a map yields for an absent key.\<close>

definition no_op_record :: op_record where
  "no_op_record = \<lparr>
     orOperation = \<lparr>opID = [], opIdempotencyKey = [], opState = OperationStateOther [],
       opRevision = 0, opOutput = [], opError = [], opSubmittedAt = 0, opUpdatedAt = 0\<rparr>,
     orKind = OperationKindOther [], orResource = [], orResourceRevision = [],
     orInput = [], orInvocation = no_invocation, orExecution = None\<rparr>"

definition os_Submit ::
  "ctx \<Rightarrow> string \<Rightarrow> gotime \<Rightarrow> op_record \<Rightarrow> op_store \<Rightarrow> op_store \<times> (op_record \<times> bool) result" where
  "os_Submit ctx newID wall r s =
     (case check ctx (PrepareNewRecord newID wall r wall) of
        Inl e \<Rightarrow> (s, Inl e)
      | Inr r \<Rightarrow>
          let key = IdempotencyIndex r in
          case map_of (osKeys s) key of
            Some i \<Rightarrow>
              let existing = (case map_of (osOperations s) i of Some x \<Rightarrow> x | None \<Rightarrow> no_op_record) in
              if \<not> SameSubmission existing r
              then (s, Inl (Errorf ''operation idempotency key %q was reused with a different submission''))
              else (s, Inr (existing, False))
          | None \<Rightarrow>
              if map_of (osOperations s) (opID (orOperation r)) \<noteq> None
              then (s, Inl (Errorf ''operation ID %q already exists''))
              else (s\<lparr>osOperations := AList.update (opID (orOperation r)) r (osOperations s),
                      osKeys := AList.update key (opID (orOperation r)) (osKeys s)\<rparr>,
                    Inr (r, True)))"

definition os_Get :: "ctx \<Rightarrow> string \<Rightarrow> op_store \<Rightarrow> op_record result" where
  "os_Get ctx i s =
     check ctx (case map_of (osOperations s) i of
         None \<Rightarrow> Inl (Wrapf ErrOperationNotFound ''%w: %s'')
       | Some r \<Rightarrow> Inr r)"

definition os_mutate ::
  "ctx \<Rightarrow> string \<Rightarrow> (op_record \<Rightarrow> op_record result) \<Rightarrow> op_store \<Rightarrow> op_store \<times> op_record result" where
  "os_mutate ctx i mutation s =
     (case check ctx (case map_of (osOperations s) i of
          None \<Rightarrow> Inl (Wrapf ErrOperationNotFound ''%w: %s'')
        | Some r \<Rightarrow> mutation r) of
        Inl e \<Rightarrow> (s, Inl e)
      | Inr r \<Rightarrow> (s\<lparr>osOperations := AList.update i r (osOperations s)\<rparr>, Inr r))"

definition os_Cancel :: "ctx \<Rightarrow> gotime \<Rightarrow> string \<Rightarrow> u64 \<Rightarrow> op_store \<Rightarrow> op_store \<times> op_record result" where
  "os_Cancel ctx wall i expectedRevision =
     os_mutate ctx i (\<lambda>r. op_Cancel wall r expectedRevision wall)"

definition os_Fail ::
  "ctx \<Rightarrow> gotime \<Rightarrow> string \<Rightarrow> u64 \<Rightarrow> string \<Rightarrow> op_store \<Rightarrow> op_store \<times> op_record result" where
  "os_Fail ctx wall i expectedRevision operationError =
     os_mutate ctx i (\<lambda>r. op_Fail wall r expectedRevision operationError wall)"

definition os_Claim ::
  "ctx \<Rightarrow> string \<Rightarrow> gotime \<Rightarrow> string \<Rightarrow> string \<Rightarrow> gotime \<Rightarrow> duration \<Rightarrow> op_store \<Rightarrow>
   op_store \<times> op_record result" where
  "os_Claim ctx newID wall i owner now ttl s =
     (case and_then ctx (ValidateClaim owner ttl) of
        Some e \<Rightarrow> (s, Inl e)
      | None \<Rightarrow> let now = NormalizeMutationTime wall now in
          os_mutate ctx i (\<lambda>r. op_Claim newID wall r owner now ttl) s)"

definition os_Renew ::
  "ctx \<Rightarrow> gotime \<Rightarrow> string \<Rightarrow> string \<Rightarrow> gotime \<Rightarrow> duration \<Rightarrow> op_store \<Rightarrow> op_store \<times> op_record result" where
  "os_Renew ctx wall i token now ttl s =
     (case and_then ctx (ValidateLeaseDuration ttl) of
        Some e \<Rightarrow> (s, Inl e)
      | None \<Rightarrow> let now = NormalizeMutationTime wall now in
          os_mutate ctx i (\<lambda>r. op_Renew wall r token now ttl) s)"

definition os_Complete ::
  "ctx \<Rightarrow> gotime \<Rightarrow> string \<Rightarrow> string \<Rightarrow> OperationState \<Rightarrow> json \<Rightarrow> string \<Rightarrow> op_store \<Rightarrow>
   op_store \<times> op_record result" where
  "os_Complete ctx wall i token st output operationError s =
     (case and_then ctx (ValidateCompletionState st) of
        Some e \<Rightarrow> (s, Inl e)
      | None \<Rightarrow> os_mutate ctx i (\<lambda>r. op_Complete wall r token st output operationError wall) s)"

definition os_Release ::
  "ctx \<Rightarrow> gotime \<Rightarrow> string \<Rightarrow> string \<Rightarrow> op_store \<Rightarrow> op_store \<times> op_record result" where
  "os_Release ctx wall i token = os_mutate ctx i (\<lambda>r. op_Release wall r token wall)"

definition compareOperationRecords :: "op_record \<Rightarrow> op_record \<Rightarrow> int" where
  "compareOperationRecords =
     compare_then (compare_on (\<lambda>r. opSubmittedAt (orOperation r)))
       (compare_on (\<lambda>r. opID (orOperation r)))"

definition sortOperationRecords :: "op_record list \<Rightarrow> op_record list" where
  "sortOperationRecords = sort_func compareOperationRecords"

definition os_List :: "ctx \<Rightarrow> op_store \<Rightarrow> op_record list result" where
  "os_List ctx s = check ctx (Inr (sort_func compareOperationRecords (map snd (osOperations s))))"

definition os_ListByInvocationRoot :: "ctx \<Rightarrow> string \<Rightarrow> op_store \<Rightarrow> op_record list result" where
  "os_ListByInvocationRoot ctx rootID s =
     check (ValidateResourceName ''invocation root'' rootID)
     (bind_result (os_List ctx s) (\<lambda>records.
        Inr (filter (\<lambda>r. invRootID (orInvocation r) = rootID) records)))"

definition os_ListNonTerminal :: "ctx \<Rightarrow> op_store \<Rightarrow> op_record list result" where
  "os_ListNonTerminal ctx s =
     check ctx (Inr (sortOperationRecords
       (filter (\<lambda>r. \<not> op_Terminal (orOperation r)) (map snd (osOperations s)))))"

definition os_ListRecoverable :: "ctx \<Rightarrow> gotime \<Rightarrow> gotime \<Rightarrow> op_store \<Rightarrow> op_record list result" where
  "os_ListRecoverable ctx wall now s =
     check ctx (let now = NormalizeMutationTime wall now in
       Inr (sortOperationRecords
         (filter (\<lambda>r. op_RecoverableAt wall r now) (map snd (osOperations s)))))"

definition os_ListPage :: "ctx \<Rightarrow> page_request \<Rightarrow> op_store \<Rightarrow> (op_record list \<times> string) result" where
  "os_ListPage ctx request s =
     bind_result (os_List ctx s) (\<lambda>items.
       pageWindow items request (\<lambda>r. opID (orOperation r)))"

text \<open>The loop of \<open>PurgeTerminal\<close>: the entries are those of the map when the range starts.\<close>

definition purgeable :: "gotime \<Rightarrow> op_record \<Rightarrow> bool" where
  "purgeable before r \<longleftrightarrow> op_Terminal (orOperation r) \<and> opUpdatedAt (orOperation r) < before"

fun purge_operations :: "gotime \<Rightarrow> (string \<times> op_record) list \<Rightarrow> op_store \<Rightarrow> int \<Rightarrow> op_store \<times> int" where
  "purge_operations before [] s removed = (s, removed)"
| "purge_operations before ((i, r) # entries) s removed =
     (if purgeable before r
      then purge_operations before entries
             (s\<lparr>osOperations := AList.delete i (osOperations s),
                osKeys := AList.delete (IdempotencyIndex r) (osKeys s)\<rparr>) (removed + 1)
      else purge_operations before entries s removed)"

definition os_PurgeTerminal :: "ctx \<Rightarrow> gotime \<Rightarrow> op_store \<Rightarrow> op_store \<times> int result" where
  "os_PurgeTerminal ctx before s =
     (case and_then ctx (reject_if (before = 0) (Errorf ''operation purge cutoff is required'')) of
        Some e \<Rightarrow> (s, Inl e)
      | None \<Rightarrow> (case purge_operations before (osOperations s) s 0 of (s', n) \<Rightarrow> (s', Inr n)))"

section \<open>Calls\<close>

datatype op_call =
    CSubmit ctx string gotime op_record
  | CCancel ctx gotime string u64
  | CFail ctx gotime string u64 string
  | CClaim ctx string gotime string string gotime duration
  | CRenew ctx gotime string string gotime duration
  | CComplete ctx gotime string string OperationState json string
  | CRelease ctx gotime string string
  | CPurge ctx gotime

fun os_step :: "op_call \<Rightarrow> op_store \<Rightarrow> op_store" where
  "os_step (CSubmit ctx newID wall r) s = fst (os_Submit ctx newID wall r s)"
| "os_step (CCancel ctx wall i rv) s = fst (os_Cancel ctx wall i rv s)"
| "os_step (CFail ctx wall i rv err) s = fst (os_Fail ctx wall i rv err s)"
| "os_step (CClaim ctx newID wall i owner now ttl) s = fst (os_Claim ctx newID wall i owner now ttl s)"
| "os_step (CRenew ctx wall i token now ttl) s = fst (os_Renew ctx wall i token now ttl s)"
| "os_step (CComplete ctx wall i token st out err) s = fst (os_Complete ctx wall i token st out err s)"
| "os_step (CRelease ctx wall i token) s = fst (os_Release ctx wall i token s)"
| "os_step (CPurge ctx before) s = fst (os_PurgeTerminal ctx before s)"

text \<open>The event that a call applies to one record; a cancelled context applies none.\<close>

fun os_event :: "op_call \<Rightarrow> op_store \<Rightarrow> (string \<times> op_event) option" where
  "os_event (CCancel None wall i rv) s = Some (i, EvCancel wall wall rv)"
| "os_event (CFail None wall i rv err) s = Some (i, EvFail wall wall rv err)"
| "os_event (CClaim None newID wall i owner now ttl) s =
     Some (i, EvClaim wall (NormalizeMutationTime wall now) owner newID ttl)"
| "os_event (CRenew None wall i token now ttl) s =
     Some (i, EvRenew wall (NormalizeMutationTime wall now) token ttl)"
| "os_event (CComplete None wall i token st out err) s = Some (i, EvComplete wall wall token st out err)"
| "os_event (CRelease None wall i token) s = Some (i, EvRelease wall wall token)"
| "os_event _ s = None"

fun os_forgets :: "op_call \<Rightarrow> bool" where
  "os_forgets (CPurge ctx before) \<longleftrightarrow> True"
| "os_forgets _ \<longleftrightarrow> False"

text \<open>Every mutating call applies its event to the record under its ID.\<close>

lemma os_mutate_fst:
  "fst (os_mutate None i f s) = (case map_of (osOperations s) i of None \<Rightarrow> s
     | Some r \<Rightarrow> (case f r of Inl _ \<Rightarrow> s
         | Inr r' \<Rightarrow> s\<lparr>osOperations := AList.update i r' (osOperations s)\<rparr>))"
  by (simp add: os_mutate_def split: option.splits sum.splits)

lemma os_mutate_ctx [simp]: "os_mutate (Some e) i f s = (s, Inl e)"
  by (simp add: os_mutate_def)

lemma os_mutate_guarded:
  "fst (case g of None \<Rightarrow> os_mutate None i f s | Some e \<Rightarrow> (s, Inl e)) =
     fst (os_mutate None i (\<lambda>r. check g (f r)) s)"
  by (cases g) (auto simp: os_mutate_fst split: option.splits)

lemma check_check [simp]: "check g (check g x) = check g x"
  by (cases g) auto

lemma os_guarded_calls:
  "fst (os_Claim None newID wall i owner now ttl s) =
     fst (os_mutate None i (\<lambda>r. op_Claim newID wall r owner (NormalizeMutationTime wall now) ttl) s)"
  "fst (os_Renew None wall i token now ttl s) =
     fst (os_mutate None i (\<lambda>r. op_Renew wall r token (NormalizeMutationTime wall now) ttl) s)"
  "fst (os_Complete None wall i token st out err s) =
     fst (os_mutate None i (\<lambda>r. op_Complete wall r token st out err wall) s)"
  unfolding os_Claim_def os_Renew_def os_Complete_def Let_def and_then.simps os_mutate_guarded
  by (simp_all add: op_Claim_def op_Renew_def op_Complete_def)

lemma os_step_event:
  assumes "os_event c s = Some (i, e)"
  shows "os_step c s = fst (os_mutate None i (op_apply e) s)"
  using assms
  by (cases "(c, s)" rule: os_event.cases)
    (auto simp: os_guarded_calls os_Cancel_def os_Fail_def os_Release_def os_mutate_fst split: option.split)

lemma os_step_no_event:
  assumes "os_event c s = None"
  shows "(\<exists>ctx newID wall r. c = CSubmit ctx newID wall r) \<or> os_forgets c \<or> os_step c s = s"
  using assms
  by (cases "(c, s)" rule: os_event.cases)
    (auto simp: os_Cancel_def os_Fail_def os_Claim_def os_Renew_def os_Complete_def os_Release_def)

lemma os_Submit_cases:
  obtains (kept) "fst (os_Submit ctx newID wall r s) = s"
  | (added) r' where "ctx = None" "PrepareNewRecord newID wall r wall = Inr r'"
    "map_of (osKeys s) (IdempotencyIndex r') = None"
    "map_of (osOperations s) (opID (orOperation r')) = None"
    "fst (os_Submit ctx newID wall r s) =
       s\<lparr>osOperations := AList.update (opID (orOperation r')) r' (osOperations s),
         osKeys := AList.update (IdempotencyIndex r') (opID (orOperation r')) (osKeys s)\<rparr>"
    "snd (os_Submit ctx newID wall r s) = Inr (r', True)"
proof (cases "check ctx (PrepareNewRecord newID wall r wall)")
  case (Inl e)
  then have "fst (os_Submit ctx newID wall r s) = s" by (simp add: os_Submit_def)
  then show thesis by (rule kept)
next
  case (Inr r')
  then have "ctx = None" "PrepareNewRecord newID wall r wall = Inr r'" by (auto simp: result_simps)
  moreover have "fst (os_Submit ctx newID wall r s) = s"
    if "map_of (osKeys s) (IdempotencyIndex r') \<noteq> None \<or>
      map_of (osOperations s) (opID (orOperation r')) \<noteq> None"
    using that Inr by (auto simp: os_Submit_def Let_def split: option.splits)
  moreover have "os_Submit ctx newID wall r s =
      (s\<lparr>osOperations := AList.update (opID (orOperation r')) r' (osOperations s),
         osKeys := AList.update (IdempotencyIndex r') (opID (orOperation r')) (osKeys s)\<rparr>,
       Inr (r', True))"
    if "map_of (osKeys s) (IdempotencyIndex r') = None"
      "map_of (osOperations s) (opID (orOperation r')) = None"
    using that Inr by (simp add: os_Submit_def Let_def)
  ultimately show thesis using kept added by (metis fst_conv snd_conv)
qed

section \<open>The index and the records agree\<close>

text \<open>On the maps that the two association lists represent.\<close>

definition op_index :: "(string \<rightharpoonup> op_record) \<Rightarrow> (string \<rightharpoonup> string) \<Rightarrow> bool" where
  "op_index ops keys \<longleftrightarrow>
     (\<forall>i r. ops i = Some r \<longrightarrow> opID (orOperation r) = i) \<and>
     (\<forall>k i. keys k = Some i \<longleftrightarrow> (\<exists>r. ops i = Some r \<and> IdempotencyIndex r = k))"

definition os_inv :: "op_store \<Rightarrow> bool" where
  "os_inv s \<longleftrightarrow> gm_wf (osOperations s) \<and> gm_wf (osKeys s) \<and>
     op_index (map_of (osOperations s)) (map_of (osKeys s))"

lemma os_inv_new [simp]: "os_inv newMemoryOperationStore"
  by (simp add: os_inv_def op_index_def newMemoryOperationStore_def)

lemma op_index_key: "op_index ops keys \<Longrightarrow> ops i = Some r \<Longrightarrow> keys (IdempotencyIndex r) = Some i"
  by (auto simp: op_index_def)

lemma op_index_update:
  assumes "op_index ops keys" "ops i = Some r"
    and "opID (orOperation r') = opID (orOperation r)" "IdempotencyIndex r' = IdempotencyIndex r"
  shows "op_index (ops(i \<mapsto> r')) keys"
  using assms unfolding op_index_def by auto

lemma op_index_add:
  assumes "op_index ops keys" "ops (opID (orOperation r)) = None" "keys (IdempotencyIndex r) = None"
  shows "op_index (ops(opID (orOperation r) \<mapsto> r)) (keys(IdempotencyIndex r \<mapsto> opID (orOperation r)))"
  using assms op_index_key [OF assms(1)] unfolding op_index_def by (fastforce split: if_splits)

lemma op_index_remove:
  assumes "op_index ops keys"
  shows "op_index (\<lambda>i. case ops i of None \<Rightarrow> None | Some r \<Rightarrow> if P r then None else Some r)
    (\<lambda>k. if \<exists>i r. ops i = Some r \<and> P r \<and> IdempotencyIndex r = k then None else keys k)"
  unfolding op_index_def
proof (intro conjI allI impI iffI, goal_cases)
  case (1 i r)
  then show ?case using assms by (auto simp: op_index_def split: option.splits if_splits)
next
  case (2 k i)
  then obtain r where r: "ops i = Some r" "IdempotencyIndex r = k"
    using assms by (auto simp: op_index_def split: if_splits)
  with 2 show ?case by (auto split: if_splits)
next
  case (3 k i)
  then obtain r where r: "ops i = Some r" "IdempotencyIndex r = k" "\<not> P r"
    by (auto split: option.splits if_splits)
  moreover have "\<not> P x" if "ops j = Some x" "IdempotencyIndex x = k" for j x
    using that r op_index_key [OF assms] by (metis option.inject)
  ultimately show ?case using op_index_key [OF assms] by auto
qed

lemma PrepareNewRecord_Inr:
  assumes "PrepareNewRecord newID wall r now = Inr r'"
  shows "ValidateLoadedRecord r' = None" "opRevision (orOperation r') = 1"
    "opState (orOperation r') = OperationPending"
    "IdempotencyIndex r' = IdempotencyIndex r" "SameSubmission r' r"
  using assms
  by (auto simp: PrepareNewRecord_def Let_def result_simps ValidateNewRecord_def
      IdempotencyIndex_def SameSubmission_def split: if_splits)

lemma os_inv_mutate:
  assumes "os_inv s"
  shows "os_inv (fst (os_mutate None i (op_apply e) s))"
  using assms op_apply_identity(1) op_apply_identity_index(1)
  by (auto simp: os_mutate_fst os_inv_def map_of_put
      intro: op_index_update split: option.split sum.split)

lemma os_inv_submit:
  assumes "os_inv s"
  shows "os_inv (fst (os_Submit ctx newID wall r s))"
  by (rule os_Submit_cases [of ctx newID wall r s])
    (use assms in \<open>auto simp: os_inv_def map_of_put simp del: map_of_eq_None_iff intro!: op_index_add\<close>)

lemma purge_operations_lookup:
  "map_of (osOperations (fst (purge_operations before es s n))) i =
     (if \<exists>r. (i, r) \<in> set es \<and> purgeable before r then None else map_of (osOperations s) i)"
  "map_of (osKeys (fst (purge_operations before es s n))) k =
     (if \<exists>i r. (i, r) \<in> set es \<and> purgeable before r \<and> IdempotencyIndex r = k then None
      else map_of (osKeys s) k)"
  "snd (purge_operations before es s n) = n + int (length (filter (\<lambda>(i, r). purgeable before r) es))"
  by (induction before es s n rule: purge_operations.induct) auto

lemma purge_operations_wf:
  "gm_wf (osOperations s) \<Longrightarrow> gm_wf (osOperations (fst (purge_operations before es s n)))"
  "gm_wf (osKeys s) \<Longrightarrow> gm_wf (osKeys (fst (purge_operations before es s n)))"
  by (induction before es s n rule: purge_operations.induct) auto

lemma purged_operations:
  assumes "gm_wf (osOperations s)"
  shows "map_of (osOperations (fst (purge_operations before (osOperations s) s n))) i =
    (case map_of (osOperations s) i of None \<Rightarrow> None
     | Some r \<Rightarrow> if purgeable before r then None else Some r)"
  unfolding purge_operations_lookup gm_mem_iff [OF assms] by (auto split: option.split)

lemma os_inv_purge:
  assumes inv: "os_inv s"
  shows "os_inv (fst (purge_operations before (osOperations s) s n))"
proof -
  have wf: "gm_wf (osOperations s)" "gm_wf (osKeys s)"
    using inv by (auto simp: os_inv_def)
  have "map_of (osKeys (fst (purge_operations before (osOperations s) s n))) =
      (\<lambda>k. if \<exists>i r. map_of (osOperations s) i = Some r \<and> purgeable before r \<and> IdempotencyIndex r = k
           then None else map_of (osKeys s) k)"
    by (rule ext) (simp only: purge_operations_lookup gm_mem_iff [OF wf(1)])
  moreover have "map_of (osOperations (fst (purge_operations before (osOperations s) s n))) =
      (\<lambda>i. case map_of (osOperations s) i of None \<Rightarrow> None
         | Some r \<Rightarrow> if purgeable before r then None else Some r)"
    by (rule ext) (rule purged_operations [OF wf(1)])
  ultimately show ?thesis
    using inv op_index_remove [of _ _ "purgeable before"] purge_operations_wf wf
    unfolding os_inv_def by simp
qed

lemma os_inv_step: "os_inv s \<Longrightarrow> os_inv (os_step c s)"
proof (cases "os_event c s")
  case None
  assume inv: "os_inv s"
  from None consider "os_step c s = s" | ctx newID wall x where "c = CSubmit ctx newID wall x"
    | ctx before where "c = CPurge ctx before"
    using os_step_no_event [of c s] by (cases c) auto
  then show ?thesis
    using inv os_inv_submit os_inv_purge [of s _ 0]
    by cases (auto simp: os_PurgeTerminal_def case_prod_unfold split: option.split)
next
  case (Some ie)
  then show "os_inv s \<Longrightarrow> ?thesis"
    using os_step_event os_inv_mutate by (cases ie) auto
qed

interpretation op_records: aggregate_store os_inv "\<lambda>s. map_of (osOperations s)" os_step op_apply
  os_event os_forgets
proof
  fix s c
  show "os_inv s \<Longrightarrow> os_inv (os_step c s)" by (rule os_inv_step)
next
  fix c s k e r
  assume "os_event c s = Some (k, e)" "map_of (osOperations s) k = Some r"
  then show "map_of (osOperations (os_step c s)) k = Some (run_events op_apply [e] r)"
    by (auto simp: os_step_event os_mutate_fst split: sum.splits)
next
  fix s k r c
  assume r: "map_of (osOperations s) k = Some r" and keep: "\<not> os_forgets c"
    and no: "\<And>e. os_event c s \<noteq> Some (k, e)"
  show "map_of (osOperations (os_step c s)) k = Some r"
  proof (cases "os_event c s")
    case None
    then consider "os_step c s = s" | ctx newID wall x where "c = CSubmit ctx newID wall x"
      using keep os_step_no_event by blast
    then show ?thesis
    proof cases
      case 2
      show ?thesis
        unfolding 2 os_step.simps
        by (rule os_Submit_cases [of ctx newID wall x s]) (use r in auto)
    qed (use r in simp)
  next
    case (Some ie)
    with no obtain i e where "ie = (i, e)" "i \<noteq> k" by (cases ie) auto
    with Some r show ?thesis
      by (auto simp: os_step_event os_mutate_fst split: sum.splits option.splits)
  qed
qed

section \<open>Properties\<close>

fun op_call_sane :: "op_call \<Rightarrow> bool" where
  "op_call_sane (CClaim ctx newID wall i owner now ttl) \<longleftrightarrow>
     newID \<noteq> [] \<and> NormalizeMutationTime wall (NormalizeMutationTime wall now) + ttl \<noteq> 0"
| "op_call_sane (CRenew ctx wall i token now ttl) \<longleftrightarrow>
     NormalizeMutationTime wall (NormalizeMutationTime wall now) + ttl \<noteq> 0"
| "op_call_sane _ \<longleftrightarrow> True"

lemma op_call_sane_event: "op_call_sane c \<Longrightarrow> os_event c s = Some (i, e) \<Longrightarrow> op_event_sane e"
  by (cases "(c, s)" rule: os_event.cases) auto

text \<open>Every stored record is valid and its revision is at most the given bound.\<close>

definition records_valid :: "nat \<Rightarrow> op_store \<Rightarrow> bool" where
  "records_valid n s \<longleftrightarrow> (\<forall>i r. map_of (osOperations s) i = Some r \<longrightarrow>
     ValidateLoadedRecord r = None \<and> unat (opRevision (orOperation r)) \<le> n)"

lemma records_valid_mutate:
  assumes "records_valid n s" "op_event_sane e" "Suc n < 2 ^ 64"
  shows "records_valid (Suc n) (fst (os_mutate None i (op_apply e) s))"
proof -
  have "ValidateLoadedRecord r' = None \<and> unat (opRevision (orOperation r')) \<le> Suc n"
    if r: "map_of (osOperations s) i = Some r" and ok: "op_apply e r = Inr r'" for r r'
  proof -
    have "ValidateLoadedRecord r = None" "unat (opRevision (orOperation r)) \<le> n"
      using assms(1) r by (auto simp: records_valid_def)
    moreover from this have "unat (opRevision (orOperation r)) + 1 < 2 ^ 64"
      using assms(3) by linarith
    ultimately show ?thesis
      using op_apply_valid [OF ok _ assms(2)] op_apply_cases(1) [OF ok] u64_room u64_succ
      by (metis Suc_eq_plus1 Suc_le_mono zero_less_one)
  qed
  then show ?thesis
    using assms(1) unfolding records_valid_def os_mutate_fst
    by (auto split: option.splits sum.splits if_splits intro: le_SucI)
qed

lemma records_valid_submit:
  assumes "records_valid n s"
  shows "records_valid (Suc n) (fst (os_Submit ctx newID wall r s))"
  by (rule os_Submit_cases [of ctx newID wall r s])
    (use assms in \<open>auto simp: records_valid_def PrepareNewRecord_Inr intro: le_SucI split: if_splits\<close>)

lemma records_valid_step:
  assumes "records_valid n s" "os_inv s" "op_call_sane c" "Suc n < 2 ^ 64"
  shows "records_valid (Suc n) (os_step c s)"
proof (cases "os_event c s")
  case None
  then consider "os_step c s = s" | ctx newID wall x where "c = CSubmit ctx newID wall x"
    | ctx before where "c = CPurge ctx before"
    using os_step_no_event [of c s] by (cases c) auto
  then show ?thesis
  proof cases
    case 3
    have "gm_wf (osOperations s)" using assms(2) by (simp add: os_inv_def)
    then show ?thesis
      using assms(1) 3
      by (auto simp: records_valid_def os_PurgeTerminal_def case_prod_unfold purged_operations
          intro: le_SucI split: option.splits if_splits)
  qed (use assms(1) records_valid_submit in \<open>auto simp: records_valid_def intro: le_SucI\<close>)
next
  case (Some ie)
  then show ?thesis
    using assms os_step_event op_call_sane_event records_valid_mutate by (cases ie) auto
qed

lemma os_run_valid_from:
  assumes "os_inv s" "records_valid n s" "list_all op_call_sane cs" "n + length cs < 2 ^ 64"
  shows "os_inv (run_calls os_step cs s) \<and> records_valid (n + length cs) (run_calls os_step cs s)"
  using assms
proof (induction cs arbitrary: s n)
  case (Cons c cs)
  then have "records_valid (Suc n) (os_step c s)"
    using records_valid_step by simp
  with Cons show ?case using os_inv_step [of s c] Cons.IH [of "os_step c s" "Suc n"] by simp
qed simp

text \<open>
  C3: The store after any sequence of calls, from the empty one: the records and the
  idempotency index agree, each record is filed under its own ID, and every record is one
  that a store accepts when it loads it.
\<close>

theorem os_run_valid:
  assumes "list_all op_call_sane cs" "length cs < 2 ^ 64"
    and "s = run_calls os_step cs newMemoryOperationStore"
  shows "(\<forall>i r. map_of (osOperations s) i = Some r \<longrightarrow>
      opID (orOperation r) = i \<and> ValidateLoadedRecord r = None) \<and>
    (\<forall>k i. map_of (osKeys s) k = Some i \<longleftrightarrow>
      (\<exists>r. map_of (osOperations s) i = Some r \<and> IdempotencyIndex r = k))"
proof -
  have "records_valid 0 newMemoryOperationStore"
    by (simp add: records_valid_def newMemoryOperationStore_def)
  then show ?thesis
    using os_run_valid_from [OF os_inv_new, of 0 cs] assms
    by (auto simp: os_inv_def op_index_def records_valid_def)
qed

theorem os_run_valid_witness:
  "\<exists>s. s = run_calls os_step [CSubmit None ''n1'' 5 sample_operation,
        CClaim None ''t1'' 10 ''op1'' ''w1'' 0 30] newMemoryOperationStore \<and>
     (\<forall>i r. map_of (osOperations s) i = Some r \<longrightarrow> ValidateLoadedRecord r = None)"
  using os_run_valid [of "[CSubmit None ''n1'' 5 sample_operation,
      CClaim None ''t1'' 10 ''op1'' ''w1'' 0 30]"]
  by (simp add: NormalizeMutationTime_def)

lemma PrepareNewRecord_again:
  assumes "PrepareNewRecord newID wall r now = Inr r'" "newID' \<noteq> []"
  shows "\<exists>r''. PrepareNewRecord newID' wall' r now' = Inr r''"
  using assms
  by (auto simp: PrepareNewRecord_def Let_def result_simps ValidateNewRecord_def ValidateOperation_def
      split: if_splits)

lemma run_events_submission:
  "IdempotencyIndex (run_events op_apply es r) = IdempotencyIndex r \<and>
   SameSubmission (run_events op_apply es r) r \<and>
   opID (orOperation (run_events op_apply es r)) = opID (orOperation r)"
  using op_apply_identity_index op_apply_identity(1)
  by (intro run_events_invariant [where P = "\<lambda>x. IdempotencyIndex x = IdempotencyIndex r \<and>
        SameSubmission x r \<and> opID (orOperation x) = opID (orOperation r)"])
    (auto simp: SameSubmission_def)

lemma SameSubmission_trans: "SameSubmission a b \<Longrightarrow> SameSubmission c b \<Longrightarrow> SameSubmission a c"
  by (simp add: SameSubmission_def)

lemma os_Submit_added:
  assumes "os_Submit None newID wall r s = (s', Inr (r', True))"
  shows "PrepareNewRecord newID wall r wall = Inr r'"
    "map_of (osOperations s') (opID (orOperation r')) = Some r'"
  using assms
  by (auto simp: os_Submit_def Let_def result_simps
      split: option.splits if_splits sum.splits)

lemma os_Submit_known:
  assumes "PrepareNewRecord newID wall r wall = Inr r'"
    and "map_of (osKeys s) (IdempotencyIndex r') = Some i" "map_of (osOperations s) i = Some x"
    and "SameSubmission x r'"
  shows "os_Submit None newID wall r s = (s, Inr (x, False))"
  using assms by (simp add: os_Submit_def)

text \<open>
  Submission is idempotent. Once a submission was accepted as new, submitting it again
  later, at any time and with any generated ID, whatever calls other clients made in
  between (purging apart), changes nothing and returns the operation created first, in its
  current state.
\<close>

theorem os_Submit_idempotent:
  assumes "s = run_calls os_step bs newMemoryOperationStore"
    and "os_Submit None newID wall rec s = (s', Inr (r, True))"
    and "list_all (\<lambda>c. \<not> os_forgets c) cs" "newID' \<noteq> []"
  shows "\<exists>x. os_Submit None newID' wall' rec (run_calls os_step cs s') =
      (run_calls os_step cs s', Inr (x, False)) \<and>
    opID (orOperation x) = opID (orOperation r) \<and>
    map_of (osOperations (run_calls os_step cs s')) (opID (orOperation r)) = Some x"
proof -
  note added = os_Submit_added [OF assms(2)]
  obtain r' where again: "PrepareNewRecord newID' wall' rec wall' = Inr r'"
    using PrepareNewRecord_again [OF added(1) assms(4)] by blast
  let ?s = "run_calls os_step cs s'"
  let ?x = "run_events op_apply (events_at os_event os_step (opID (orOperation r)) cs s') r"
  have inv: "os_inv s'"
    using os_inv_submit [OF op_records.run_inv [OF os_inv_new, of bs], of None newID wall rec] assms(1,2)
    by simp
  then have x: "map_of (osOperations ?s) (opID (orOperation r)) = Some ?x"
    using op_records.run_projects [OF inv added(2) assms(3)] by simp
  have "os_inv ?s" using inv by (rule op_records.run_inv)
  then have "map_of (osKeys ?s) (IdempotencyIndex ?x) = Some (opID (orOperation r))"
    using x op_index_key by (auto simp: os_inv_def)
  moreover have "IdempotencyIndex ?x = IdempotencyIndex r'"
    using run_events_submission PrepareNewRecord_Inr(4) [OF added(1)] PrepareNewRecord_Inr(4) [OF again]
    by metis
  moreover have "SameSubmission ?x r'"
    using run_events_submission PrepareNewRecord_Inr(5) [OF added(1)] PrepareNewRecord_Inr(5) [OF again]
    by (simp add: SameSubmission_def)
  ultimately have "os_Submit None newID' wall' rec ?s = (?s, Inr (?x, False))"
    using os_Submit_known [OF again] x by simp
  then show ?thesis using x run_events_submission by blast
qed

lemma sample_submit:
  "os_Submit None ''n1'' 5 sample_operation newMemoryOperationStore =
     (\<lparr>osOperations = [(''op1'', sample_operation)],
       osKeys = [(IdempotencyIndex sample_operation, ''op1'')]\<rparr>, Inr (sample_operation, True))"
proof -
  have "PrepareNewRecord ''n1'' 5 sample_operation 5 = Inr sample_operation"
    using sample_operation_valid
    by (auto simp: PrepareNewRecord_def result_simps Let_def NormalizeMutationTime_def
        sample_operation_def)
  then show ?thesis
    by (simp add: os_Submit_def newMemoryOperationStore_def) (simp add: sample_operation_def)
qed

theorem os_Submit_idempotent_witness:
  "\<exists>x s'. fst (os_Submit None ''n1'' 5 sample_operation newMemoryOperationStore) = s' \<and>
     snd (os_Submit None ''n2'' 90 sample_operation
       (run_calls os_step [CClaim None ''t1'' 10 ''op1'' ''w1'' 0 30] s')) = Inr (x, False)"
  using os_Submit_idempotent [where bs = "[]" and newID = "''n1''" and wall = 5 and
      rec = sample_operation and cs = "[CClaim None ''t1'' 10 ''op1'' ''w1'' 0 30]" and
      newID' = "''n2''" and wall' = 90] sample_submit
  by fastforce

text \<open>
  C29: Fencing in the store. After a successful \<open>Claim\<close> under a new token, the previous
  holder's token is rejected by \<open>Renew\<close>, \<open>Complete\<close> and \<open>Release\<close> of the
  store, whatever calls on this or other operations run in between.
\<close>

theorem os_takeover_fences:
  assumes "os_Claim None t' wall i owner now ttl s = (s', Inr r)" "t' \<noteq> t" "os_inv s"
    and "list_all (\<lambda>c. \<not> os_forgets c) cs"
    and "\<forall>c\<in>set cs. \<forall>s. \<forall>e. os_event c s = Some (i, e) \<longrightarrow> op_grants e \<noteq> Some t"
    and "s'' = run_calls os_step cs s'"
  shows "(\<exists>err. os_Renew None wall' i t now' ttl' s'' = (s'', Inl err)) \<and>
    (\<exists>err. os_Complete None wall' i t st out oerr s'' = (s'', Inl err)) \<and>
    (\<exists>err. os_Release None wall' i t s'' = (s'', Inl err))"
proof -
  obtain r0 where claim: "op_Claim t' wall r0 owner (NormalizeMutationTime wall now) ttl = Inr r"
    and r: "map_of (osOperations s') i = Some r"
    using assms(1) unfolding os_Claim_def Let_def os_mutate_def
    by (auto split: option.splits sum.splits)
  let ?es = "events_at os_event os_step i cs s'"
  have x: "map_of (osOperations s'') i = Some (run_events op_apply ?es r)"
    using op_records.run_projects [OF _ r assms(4)] op_records.inv_step [OF assms(3), of "CClaim None t' wall i owner now ttl"]
      assms(1,6) by simp
  have "\<forall>e\<in>set ?es. op_grants e \<noteq> Some t"
    using events_at_in assms(5) by metis
  then have stale: "\<exists>err. op_apply e (run_events op_apply ?es r) = Inl err"
    if "op_credential e = Some t" for e
    using op_leases.takeover_fences [of "EvClaim wall (NormalizeMutationTime wall now) owner t' ttl"]
      claim assms(2) that by simp
  show ?thesis
    using stale [of "EvRenew wall' (NormalizeMutationTime wall' now') t ttl'"]
      stale [of "EvComplete wall' wall' t st out oerr"] stale [of "EvRelease wall' wall' t"] x
    by (auto simp: os_Renew_def os_Complete_def os_Release_def os_mutate_def Let_def
        split: option.splits)
qed

definition sample_store :: op_store where
  "sample_store = \<lparr>osOperations = [(''op1'', sample_operation)],
     osKeys = [(IdempotencyIndex sample_operation, ''op1'')]\<rparr>"

lemma sample_store_inv [simp]: "os_inv sample_store"
  using os_inv_submit [OF os_inv_new, of None "''n1''" 5 sample_operation] sample_submit
  by (simp add: sample_store_def)

lemma sample_store_claim:
  "os_Claim None ''t1'' 10 ''op1'' ''w1'' 0 30 sample_store =
     (sample_store\<lparr>osOperations := [(''op1'', sample_claimed)]\<rparr>, Inr sample_claimed)"
proof -
  have "op_Claim ''t1'' 10 sample_operation ''w1'' 10 30 = Inr sample_claimed"
    using sample_claim by (simp add: op_Claim_def NormalizeMutationTime_def)
  moreover have "ValidateClaim ''w1'' 30 = None"
    using sample_claim by (simp add: op_Claim_def result_simps)
  ultimately show ?thesis
    by (simp add: os_Claim_def os_mutate_def sample_store_def NormalizeMutationTime_def)
qed

theorem os_takeover_fences_witness:
  "\<exists>err s'. s' = run_calls os_step [CRenew None 20 ''op1'' ''t1'' 0 30]
      (sample_store\<lparr>osOperations := [(''op1'', sample_claimed)]\<rparr>) \<and>
     os_Complete None 25 ''op1'' ''t0'' OperationSucceeded ''{}'' [] s' = (s', Inl err)"
  using os_takeover_fences [where cs = "[CRenew None 20 ''op1'' ''t1'' 0 30]" and t = "''t0''",
      OF sample_store_claim _ sample_store_inv, of _ 25 0 30 OperationSucceeded "''{}''" "[]"]
  by simp

interpretation op_order: comparator compareOperationRecords
  unfolding compareOperationRecords_def by (intro comparator_then comparator_on)

lemma op_order_separates:
  assumes "os_inv s" "x \<in> snd ` set (osOperations s)" "y \<in> snd ` set (osOperations s)"
    and "compareOperationRecords x y = 0"
  shows "x = y"
proof -
  have wf: "gm_wf (osOperations s)" using assms(1) by (simp add: os_inv_def)
  obtain i j where ij: "map_of (osOperations s) i = Some x" "map_of (osOperations s) j = Some y"
    using assms(2,3) unfolding gm_values_iff [OF wf] by blast
  then have "opID (orOperation x) = i" "opID (orOperation y) = j"
    using assms(1) unfolding os_inv_def op_index_def by blast+
  with ij assms(4) show ?thesis by (simp add: compareOperationRecords_def)
qed

lemma sort_operations_unique:
  assumes "os_inv s" "mset xs = mset ys" "set xs \<subseteq> snd ` set (osOperations s)"
  shows "sort_func compareOperationRecords xs = sort_func compareOperationRecords ys"
  using assms(2)
proof (rule op_order.sort_func_unique)
  fix x y
  assume "x \<in> set xs" "y \<in> set xs" and eq: "compareOperationRecords x y = 0"
  then show "x = y"
    by (intro op_order_separates [OF assms(1) _ _ eq] subsetD [OF assms(3)])
qed

text \<open>
  The listings do not depend on Go's map iteration order: two stores that hold the same
  entries in different order give the same lists.
\<close>

theorem os_List_order_independent:
  assumes "os_inv s" "reordered (osOperations s) (osOperations s')"
  shows "os_List ctx s = os_List ctx s' \<and> os_ListNonTerminal ctx s = os_ListNonTerminal ctx s' \<and>
    os_ListRecoverable ctx wall now s = os_ListRecoverable ctx wall now s' \<and>
    os_ListByInvocationRoot ctx root s = os_ListByInvocationRoot ctx root s' \<and>
    os_ListPage ctx request s = os_ListPage ctx request s'"
proof -
  have m: "mset (filter P (map snd (osOperations s))) = mset (filter P (map snd (osOperations s')))" for P
    using assms(2) unfolding reordered_def by (metis mset_filter mset_map)
  have *: "sort_func compareOperationRecords (filter P (map snd (osOperations s))) =
      sort_func compareOperationRecords (filter P (map snd (osOperations s')))" for P
    by (rule sort_operations_unique [OF assms(1) m]) auto
  have "os_List ctx s = os_List ctx s'"
    using * [of "\<lambda>_. True"] by (simp add: os_List_def)
  then show ?thesis
    using * by (simp add: os_ListNonTerminal_def os_ListRecoverable_def sortOperationRecords_def
        os_ListByInvocationRoot_def os_ListPage_def)
qed

definition sample_other :: op_record where
  "sample_other = sample_operation\<lparr>orOperation := (orOperation sample_operation)\<lparr>
     opID := ''op2'', opIdempotencyKey := ''k2''\<rparr>\<rparr>"

definition sample_pair :: op_store where
  "sample_pair = \<lparr>osOperations = [(''op2'', sample_other), (''op1'', sample_operation)],
     osKeys = [(IdempotencyIndex sample_operation, ''op1''), (IdempotencyIndex sample_other, ''op2'')]\<rparr>"

lemma sample_pair_inv: "os_inv sample_pair"
  by (auto simp: os_inv_def op_index_def sample_pair_def sample_other_def sample_operation_def
      IdempotencyIndex_def)

theorem os_List_order_independent_witness:
  "os_List None sample_pair =
   os_List None (sample_pair\<lparr>osOperations := [(''op1'', sample_operation), (''op2'', sample_other)]\<rparr>)"
  using os_List_order_independent [OF sample_pair_inv, of
      "sample_pair\<lparr>osOperations := [(''op1'', sample_operation), (''op2'', sample_other)]\<rparr>"
      None 0 0 "[]" "\<lparr>pgAfter = [], pgLimit = 0\<rparr>"]
  by (simp add: reordered_def sample_pair_def)

text \<open>
  \<open>List\<close> returns every stored operation exactly once, ordered by submission time and
  then by ID, and following \<open>ListPage\<close>'s cursors over that list yields all of it.
\<close>

theorem os_List_complete:
  assumes "os_inv s" "map_of (osOperations s) [] = None" "limit \<in> {0..MaxPageSize}"
  shows "\<exists>items. os_List None s = Inr items \<and> distinct items \<and>
    set items = {r. \<exists>i. map_of (osOperations s) i = Some r} \<and>
    sorted_wrt (\<lambda>x y. opSubmittedAt (orOperation x) < opSubmittedAt (orOperation y) \<or>
      opSubmittedAt (orOperation x) = opSubmittedAt (orOperation y) \<and>
      opID (orOperation x) < opID (orOperation y)) items \<and>
    follow_pages (Suc (length items)) items limit [] (\<lambda>r. opID (orOperation r)) = Some items"
proof (intro exI conjI)
  let ?l = "sort_func compareOperationRecords (map snd (osOperations s))"
  let ?id = "\<lambda>r. opID (orOperation r)"
  have wf: "gm_wf (osOperations s)" and ids: "\<And>i r. map_of (osOperations s) i = Some r \<Longrightarrow> ?id r = i"
    using assms(1) by (auto simp: os_inv_def op_index_def)
  show set: "set ?l = {r. \<exists>i. map_of (osOperations s) i = Some r}"
    using gm_values_iff [OF wf] by auto
  have "map ?id (map snd (osOperations s)) = map fst (osOperations s)"
    using ids by (auto simp: gm_mem_iff [OF wf, symmetric] intro!: map_cong)
  then have d: "distinct (map ?id (map snd (osOperations s)))" using wf by metis
  then have dl: "distinct (map ?id ?l)" by (simp only: distinct_map_sort_func)
  then show "distinct ?l" by (simp add: distinct_map)
  have "sorted_wrt (\<lambda>x y. compareOperationRecords x y \<le> 0 \<and> ?id x \<noteq> ?id y) ?l"
    using op_order.sorted_sort_func [of "map snd (osOperations s)"] dl
    unfolding sorted_wrt_iff_nth_less distinct_conv_nth by simp
  then show "sorted_wrt (\<lambda>x y. opSubmittedAt (orOperation x) < opSubmittedAt (orOperation y) \<or>
      opSubmittedAt (orOperation x) = opSubmittedAt (orOperation y) \<and> ?id x < ?id y) ?l"
    by (rule sorted_wrt_mono_rel [rotated])
      (auto simp: compareOperationRecords_def compare_then_def compare_on_def split: if_splits)
  show "follow_pages (Suc (length ?l)) ?l limit [] ?id = Some ?l"
  proof (rule follow_pages_complete_list)
    show "[] \<notin> ?id ` set ?l" using ids assms(2) unfolding set by auto
  qed (use dl assms(3) in auto)
qed (simp add: os_List_def)

theorem os_List_complete_witness:
  "\<exists>items. os_List None sample_pair = Inr items \<and> distinct items \<and>
     follow_pages (Suc (length items)) items 1 [] (\<lambda>r. opID (orOperation r)) = Some items"
  using os_List_complete [OF sample_pair_inv, of 1] by (auto simp: sample_pair_def MaxPageSize_def)

text \<open>
  \<open>PurgeTerminal\<close> removes exactly the terminal operations last updated before the
  cutoff, reports their number, and frees exactly their idempotency keys.
\<close>

theorem os_PurgeTerminal_exact:
  assumes "os_inv s" "before \<noteq> 0"
  shows "\<exists>s' n. os_PurgeTerminal None before s = (s', Inr n) \<and> os_inv s' \<and>
    (\<forall>i r. map_of (osOperations s') i = Some r \<longleftrightarrow>
       map_of (osOperations s) i = Some r \<and>
       \<not> (op_Terminal (orOperation r) \<and> opUpdatedAt (orOperation r) < before)) \<and>
    (\<forall>k i. map_of (osKeys s') k = Some i \<longleftrightarrow>
       map_of (osKeys s) k = Some i \<and> map_of (osOperations s') i \<noteq> None) \<and>
    n = int (card {i. map_of (osOperations s) i \<noteq> None \<and> map_of (osOperations s') i = None})"
proof (intro exI conjI allI)
  let ?p = "purge_operations before (osOperations s) s 0"
  have wf: "gm_wf (osOperations s)" using assms(1) by (simp add: os_inv_def)
  show "os_PurgeTerminal None before s = (fst ?p, Inr (snd ?p))"
    using assms(2) by (simp add: os_PurgeTerminal_def case_prod_unfold)
  show inv': "os_inv (fst ?p)" by (rule os_inv_purge [OF assms(1)])
  show ops: "map_of (osOperations (fst ?p)) i = Some r \<longleftrightarrow>
      map_of (osOperations s) i = Some r \<and>
      \<not> (op_Terminal (orOperation r) \<and> opUpdatedAt (orOperation r) < before)" for i r
    by (auto simp: purged_operations [OF wf] purgeable_def split: option.splits)
  show "map_of (osKeys (fst ?p)) k = Some i \<longleftrightarrow>
      map_of (osKeys s) k = Some i \<and> map_of (osOperations (fst ?p)) i \<noteq> None" for k i
  proof -
    have "map_of (osKeys (fst ?p)) k = Some i \<longleftrightarrow>
        (\<exists>r. map_of (osOperations (fst ?p)) i = Some r \<and> IdempotencyIndex r = k)"
      using inv' unfolding os_inv_def op_index_def by blast
    moreover have "map_of (osKeys s) k = Some i \<longleftrightarrow>
        (\<exists>r. map_of (osOperations s) i = Some r \<and> IdempotencyIndex r = k)"
      using assms(1) unfolding os_inv_def op_index_def by blast
    moreover have "map_of (osOperations s) i = Some r" if "map_of (osOperations (fst ?p)) i = Some r" for r
      using that ops by simp
    ultimately show ?thesis
      by (cases "map_of (osOperations (fst ?p)) i") (simp_all del: map_of_eq_None_iff)
  qed
  have "{i. map_of (osOperations s) i \<noteq> None \<and> map_of (osOperations (fst ?p)) i = None} =
      fst ` set (filter (\<lambda>(i, r). purgeable before r) (osOperations s))"
  proof -
    have "(map_of (osOperations s) i \<noteq> None \<and> map_of (osOperations (fst ?p)) i = None) \<longleftrightarrow>
        (\<exists>r. map_of (osOperations s) i = Some r \<and> purgeable before r)" for i
      unfolding purged_operations [OF wf] by (cases "map_of (osOperations s) i") auto
    moreover have "i \<in> fst ` set (filter (\<lambda>(i, r). purgeable before r) (osOperations s)) \<longleftrightarrow>
        (\<exists>r. map_of (osOperations s) i = Some r \<and> purgeable before r)" for i
      unfolding gm_mem_iff [OF wf, symmetric] by force
    ultimately show ?thesis by (intro set_eqI) (simp only: mem_Collect_eq)
  qed
  moreover have "distinct (map fst (filter (\<lambda>(i, r). purgeable before r) (osOperations s)))"
    using wf by (rule distinct_map_filter)
  ultimately show "snd ?p =
      int (card {i. map_of (osOperations s) i \<noteq> None \<and> map_of (osOperations (fst ?p)) i = None})"
    by (simp only: purge_operations_lookup distinct_card set_map [symmetric] length_map)
qed

theorem os_PurgeTerminal_exact_witness:
  "\<exists>s' n. os_PurgeTerminal None 100 sample_pair = (s', Inr n) \<and>
     (\<forall>i r. map_of (osOperations s') i = Some r \<longleftrightarrow> map_of (osOperations sample_pair) i = Some r \<and>
       \<not> (op_Terminal (orOperation r) \<and> opUpdatedAt (orOperation r) < 100))"
  using os_PurgeTerminal_exact [OF sample_pair_inv, of 100] by fastforce

text \<open>
  Recovery finds exactly the claimable work: \<open>ListRecoverable\<close> at a time returns
  precisely the stored operations that a well-formed \<open>Claim\<close> at that time acquires.
\<close>

theorem os_ListRecoverable_claimable:
  assumes "os_inv s" "ValidateClaim owner ttl = None"
    and "os_ListRecoverable None wall now s = Inr rs"
  shows "r \<in> set rs \<longleftrightarrow> map_of (osOperations s) (opID (orOperation r)) = Some r \<and>
    (\<exists>r'. snd (os_Claim None newID wall (opID (orOperation r)) owner now ttl s) = Inr r')"
proof -
  have wf: "gm_wf (osOperations s)" using assms(1) by (simp add: os_inv_def)
  have stored: "r \<in> snd ` set (osOperations s) \<longleftrightarrow>
      map_of (osOperations s) (opID (orOperation r)) = Some r"
    using assms(1) unfolding gm_values_iff [OF wf] os_inv_def op_index_def by blast
  have norm: "NormalizeMutationTime wall (NormalizeMutationTime wall now) = NormalizeMutationTime wall now"
    by (simp add: NormalizeMutationTime_def)
  have "r \<in> set rs \<longleftrightarrow> r \<in> snd ` set (osOperations s) \<and>
      op_RecoverableAt wall r (NormalizeMutationTime wall now)"
    using assms(3) by (force simp: os_ListRecoverable_def sortOperationRecords_def Let_def)
  moreover have "op_RecoverableAt wall r (NormalizeMutationTime wall now) \<longleftrightarrow>
      (\<exists>r'. op_Claim newID wall r owner (NormalizeMutationTime wall now) ttl = Inr r')"
    using assms(2) by (auto simp: op_RecoverableAt_def op_Claim_def norm Let_def split: option.splits)
  moreover have "(\<exists>r'. snd (os_Claim None newID wall (opID (orOperation r)) owner now ttl s) = Inr r') \<longleftrightarrow>
      (\<exists>r'. op_Claim newID wall r owner (NormalizeMutationTime wall now) ttl = Inr r')"
    if "map_of (osOperations s) (opID (orOperation r)) = Some r"
    using that assms(2) by (auto simp: os_Claim_def os_mutate_def Let_def split: sum.splits)
  ultimately show ?thesis using stored by auto
qed

theorem os_ListRecoverable_claimable_witness:
  "\<exists>rs. os_ListRecoverable None 10 0 sample_pair = Inr rs \<and>
     (sample_operation \<in> set rs \<longleftrightarrow>
      map_of (osOperations sample_pair) (opID (orOperation sample_operation)) = Some sample_operation \<and>
      (\<exists>r'. snd (os_Claim None ''t1'' 10 (opID (orOperation sample_operation)) ''w1'' 0 30 sample_pair) = Inr r'))"
proof -
  have "ValidateClaim ''w1'' 30 = None" using sample_claim by (simp add: op_Claim_def result_simps)
  moreover have "os_ListRecoverable None 10 0 sample_pair = Inr (projr (os_ListRecoverable None 10 0 sample_pair))"
    by (simp add: os_ListRecoverable_def)
  ultimately show ?thesis
    using os_ListRecoverable_claimable [OF sample_pair_inv] by blast
qed

end
