(* ===== verification/Invocation_Graph.thy ===== *)
theory Invocation_Graph
  imports Topological_Order Operation_Store
begin

text \<open>
  \<open>sdk/invocation_graph.go\<close>: the projection of the operation records of one invocation root
  into a graph with parent and dependency edges, in an order in which everything comes after
  what it depends on. A Go map of pointers to nodes is an association list of nodes, its order
  the iteration order.
\<close>

section \<open>Data\<close>

record invocation_node =
  ndID :: string
  ndInvocation :: invocation
  ndRecord :: "op_record option"
  ndParentID :: string
  ndChildren :: "string list"
  ndDependencies :: "string list"
  ndDependents :: "string list"

record invocation_graph =
  grRootID :: string
  grNodes :: "invocation_node list"
  grOperations :: "op_record list"

definition new_node :: "string \<Rightarrow> invocation_node" where
  "new_node i = \<lparr>ndID = i, ndInvocation = no_invocation, ndRecord = None, ndParentID = [], ndChildren = [],
     ndDependencies = [], ndDependents = []\<rparr>"

definition record_node :: "op_record \<Rightarrow> invocation_node" where
  "record_node r = (let inv = orInvocation r in
     \<lparr>ndID = invID inv, ndInvocation = inv, ndRecord = Some r, ndParentID = invParentID inv, ndChildren = [],
      ndDependencies = invDependencies inv, ndDependents = []\<rparr>)"

section \<open>Comparison\<close>

definition compareRootInvocationNode :: "string \<Rightarrow> invocation_node \<Rightarrow> invocation_node \<Rightarrow> int" where
  "compareRootInvocationNode rootID left right =
     (if ndID left = rootID \<and> ndID right \<noteq> rootID then - 1
      else if ndID right = rootID \<and> ndID left \<noteq> rootID then 1 else 0)"

definition compareInvocationRecordPresence :: "invocation_node \<Rightarrow> invocation_node \<Rightarrow> int" where
  "compareInvocationRecordPresence left right =
     (if ndRecord left \<noteq> None \<and> ndRecord right = None then - 1
      else if ndRecord right \<noteq> None \<and> ndRecord left = None then 1 else 0)"

definition compareInvocationRecordTime :: "invocation_node \<Rightarrow> invocation_node \<Rightarrow> int" where
  "compareInvocationRecordTime left right =
     (case (ndRecord left, ndRecord right) of
        (Some l, Some r) \<Rightarrow>
          let order = compare_on (\<lambda>x. opSubmittedAt (orOperation x)) l r in
          if order \<noteq> 0 then order else compare_on (\<lambda>x. opID (orOperation x)) l r
      | _ \<Rightarrow> compareInvocationRecordPresence left right)"

definition compareInvocationGraphNodes :: "string \<Rightarrow> invocation_node \<Rightarrow> invocation_node \<Rightarrow> int" where
  "compareInvocationGraphNodes rootID left right =
     (let order = compareRootInvocationNode rootID left right in
      if order \<noteq> 0 then order
      else if invOrdinal (ndInvocation left) \<noteq> invOrdinal (ndInvocation right)
      then if invOrdinal (ndInvocation left) < invOrdinal (ndInvocation right) then - 1 else 1
      else let order = compareInvocationRecordTime left right in
        if order \<noteq> 0 then order else compare_on ndID left right)"

text \<open>Looking up the two nodes; both are in the map wherever the code compares.\<close>

definition compare_ids :: "string \<Rightarrow> invocation_node gomap \<Rightarrow> string \<Rightarrow> string \<Rightarrow> int" where
  "compare_ids rootID nodes left right =
     (let node = \<lambda>i. (case map_of nodes i of Some n \<Rightarrow> n | None \<Rightarrow> (new_node [])) in
      compareInvocationGraphNodes rootID (node left) (node right))"

section \<open>Building the graph\<close>

text \<open>The loop over the records.\<close>

fun collect_nodes :: "string \<Rightarrow> op_record list \<Rightarrow> invocation_node gomap \<Rightarrow> invocation_node gomap result" where
  "collect_nodes rootID [] nodes = Inr nodes"
| "collect_nodes rootID (r # rs) nodes =
     (let i = invID (orInvocation r) in
      if invRootID (orInvocation r) \<noteq> rootID then collect_nodes rootID rs nodes
      else if i = [] then collect_nodes rootID rs nodes
      else if (case map_of nodes i of Some existing \<Rightarrow> ndRecord existing \<noteq> None | None \<Rightarrow> False)
      then Inl (Errorf ''invocation graph %q contains duplicate node %q'')
      else collect_nodes rootID rs (AList.update i (record_node r) nodes))"

definition ensureInvocationNode :: "string \<Rightarrow> invocation_node gomap \<Rightarrow> invocation_node gomap" where
  "ensureInvocationNode i nodes = (case map_of nodes i of Some _ \<Rightarrow> nodes | None \<Rightarrow> AList.update i (new_node i) nodes)"

definition references :: "invocation_node gomap \<Rightarrow> string list" where
  "references nodes =
     concat (map (\<lambda>(_, n). (if ndParentID n \<noteq> [] then [ndParentID n] else []) @ ndDependencies n) nodes)"

definition appendUniqueInvocationID :: "string list \<Rightarrow> string \<Rightarrow> string list" where
  "appendUniqueInvocationID values v = (if v \<in> set values then values else values @ [v])"

definition addEdge :: "string \<Rightarrow> string \<Rightarrow> bool \<Rightarrow> invocation_node gomap \<Rightarrow> invocation_node gomap" where
  "addEdge from to child nodes =
     (if from = [] \<or> to = [] \<or> from = to then nodes
      else let nodes = ensureInvocationNode from nodes;
               source = the (map_of nodes from)
           in AList.update from
                (if child then source\<lparr>ndChildren := appendUniqueInvocationID (ndChildren source) to\<rparr>
                 else source\<lparr>ndDependents := appendUniqueInvocationID (ndDependents source) to\<rparr>) nodes)"

text \<open>
  The edges of the nodes in iteration order, the parent's first. Adding an edge changes
  neither parents nor dependencies, so the loop may read them beforehand.
\<close>

definition node_edges :: "invocation_node \<Rightarrow> (string \<times> string \<times> bool) list" where
  "node_edges n = (ndParentID n, ndID n, True) # map (\<lambda>d. (d, ndID n, False)) (ndDependencies n)"

definition all_edges :: "invocation_node gomap \<Rightarrow> (string \<times> string \<times> bool) list" where
  "all_edges nodes = concat (map (\<lambda>(_, n). node_edges n) nodes)"

definition link_nodes :: "invocation_node gomap \<Rightarrow> invocation_node gomap" where
  "link_nodes nodes = foldl (\<lambda>nodes (from, to, child). addEdge from to child nodes) nodes (all_edges nodes)"

definition sortInvocationGraphNodes :: "string \<Rightarrow> invocation_node gomap \<Rightarrow> string list result option" where
  "sortInvocationGraphNodes rootID nodes =
     (let compare = compare_ids rootID nodes in
      case foldl (\<lambda>st (from, to, _). addOrderEdge nodes from to st) (map (\<lambda>(i, _). (i, 0)) nodes, []) (all_edges nodes) of
        (inbound, outbound) \<Rightarrow>
          let ready = sort_func compare (map fst (filter (\<lambda>(i, count). count = 0) inbound)) in
          map_option (\<lambda>ordered.
            if length ordered \<noteq> length nodes then Inl (Errorf ''invocation graph %q contains a parent/dependency cycle'')
            else Inr ordered)
          (place_nodes compare outbound (Suc (length nodes)) ready inbound []))"

definition by_graph_order :: "string list \<Rightarrow> (string \<Rightarrow> string \<Rightarrow> int) \<Rightarrow> string \<Rightarrow> string \<Rightarrow> int" where
  "by_graph_order ordered compare left right =
     (let position = \<lambda>i. find (\<lambda>k. ordered ! k = i) [0..<length ordered] in
      case (position left, position right) of
        (Some l, Some r) \<Rightarrow> if l \<noteq> r then if l < r then - 1 else 1 else compare left right
      | _ \<Rightarrow> compare left right)"

definition sortInvocationGraphEdges ::
  "invocation_node gomap \<Rightarrow> string list \<Rightarrow> (string \<Rightarrow> string \<Rightarrow> int) \<Rightarrow> invocation_node gomap" where
  "sortInvocationGraphEdges nodes ordered compare =
     map (\<lambda>(i, n). (i, n\<lparr>ndChildren := sort_func (by_graph_order ordered compare) (ndChildren n),
       ndDependents := sort_func (by_graph_order ordered compare) (ndDependents n)\<rparr>)) nodes"

definition BuildInvocationGraph :: "string \<Rightarrow> op_record list \<Rightarrow> invocation_graph result option" where
  "BuildInvocationGraph rootID records =
     (case check (ValidateResourceName ''invocation root'' rootID) (collect_nodes rootID records [(rootID, new_node rootID)]) of
        Inl e \<Rightarrow> Some (Inl e)
      | Inr nodes \<Rightarrow>
          let nodes = foldl (\<lambda>nodes i. ensureInvocationNode i nodes) nodes (references nodes);
              nodes = link_nodes nodes
          in map_option (\<lambda>r. bind_result r (\<lambda>ordered.
               let nodes = sortInvocationGraphEdges nodes ordered (compare_ids rootID nodes);
                   items = map (\<lambda>i. the (map_of nodes i)) ordered
               in Inr \<lparr>grRootID = rootID, grNodes = items, grOperations = List.map_filter ndRecord items\<rparr>))
             (sortInvocationGraphNodes rootID nodes))"

definition OrderedOperations :: "invocation_graph \<Rightarrow> op_record list" where
  "OrderedOperations graph = (if grNodes graph = [] then grOperations graph else List.map_filter ndRecord (grNodes graph))"

definition LoadInvocationGraph :: "ctx \<Rightarrow> string \<Rightarrow> op_store \<Rightarrow> invocation_graph result option" where
  "LoadInvocationGraph ctx rootID s =
     (case check (ValidateResourceName ''invocation root'' rootID) (os_ListByInvocationRoot ctx rootID s) of
        Inl e \<Rightarrow> Some (Inl e)
      | Inr records \<Rightarrow> BuildInvocationGraph rootID (filter (\<lambda>r. invRootID (orInvocation r) = rootID) records))"

section \<open>The comparison is a total order on the nodes\<close>

abbreviation rank :: "bool \<Rightarrow> nat" where
  "rank b \<equiv> (if b then 0 else 1)"

lemma compareInvocationRecordTime_eq:
  "compareInvocationRecordTime =
     compare_then (compare_on (\<lambda>n. rank (ndRecord n \<noteq> None)))
    (compare_then (compare_on (\<lambda>n. case ndRecord n of Some r \<Rightarrow> opSubmittedAt (orOperation r) | None \<Rightarrow> 0))
     (compare_on (\<lambda>n. case ndRecord n of Some r \<Rightarrow> opID (orOperation r) | None \<Rightarrow> [])))"
proof (intro ext)
  fix l r
  show "compareInvocationRecordTime l r =
     compare_then (compare_on (\<lambda>n. rank (ndRecord n \<noteq> None)))
    (compare_then (compare_on (\<lambda>n. case ndRecord n of Some r \<Rightarrow> opSubmittedAt (orOperation r) | None \<Rightarrow> 0))
     (compare_on (\<lambda>n. case ndRecord n of Some r \<Rightarrow> opID (orOperation r) | None \<Rightarrow> []))) l r"
    by (cases "ndRecord l"; cases "ndRecord r")
      (simp_all add: compareInvocationRecordTime_def compareInvocationRecordPresence_def compare_then_def compare_on_def Let_def)
qed

lemma compareRootInvocationNode_eq: "compareRootInvocationNode rootID = compare_on (\<lambda>n. rank (ndID n = rootID))"
  by (intro ext) (simp add: compareRootInvocationNode_def compare_on_def)

lemma compareInvocationGraphNodes_eq:
  "compareInvocationGraphNodes rootID =
     compare_then (compareRootInvocationNode rootID)
    (compare_then (compare_on (\<lambda>n. invOrdinal (ndInvocation n)))
    (compare_then compareInvocationRecordTime (compare_on ndID)))"
proof (intro ext)
  fix l r
  show "compareInvocationGraphNodes rootID l r =
     compare_then (compareRootInvocationNode rootID)
    (compare_then (compare_on (\<lambda>n. invOrdinal (ndInvocation n)))
    (compare_then compareInvocationRecordTime (compare_on ndID))) l r"
    by (cases "invOrdinal (ndInvocation l)" "invOrdinal (ndInvocation r)" rule: linorder_cases)
      (simp_all add: compareInvocationGraphNodes_def compare_then_def compare_on_def [of "\<lambda>n. invOrdinal (ndInvocation n)"] Let_def less_imp_neq less_imp_neq [symmetric])
qed

lemma comparator_pull: "comparator c \<Longrightarrow> comparator (\<lambda>x y. c (f x) (f y))"
  unfolding comparator_def by blast

lemma comparator_ids: "comparator (\<lambda>l r. compareInvocationGraphNodes rootID (f l) (f r))"
  unfolding compareInvocationGraphNodes_eq compareRootInvocationNode_eq compareInvocationRecordTime_eq
  by (rule comparator_pull [where f = f]) (intro comparator_then comparator_on)

lemma compareInvocationGraphNodes_0: "compareInvocationGraphNodes rootID m n = 0 \<Longrightarrow> ndID m = ndID n"
  unfolding compareInvocationGraphNodes_eq compare_then_0 compare_on_0 by blast

section \<open>The nodes\<close>

text \<open>What the records say of a node, before the edges are entered at their sources.\<close>

definition kept :: "string \<Rightarrow> op_record list \<Rightarrow> op_record list" where
  "kept rootID records = filter (\<lambda>r. invRootID (orInvocation r) = rootID \<and> invID (orInvocation r) \<noteq> []) records"

abbreviation record_id :: "op_record \<Rightarrow> string" where
  "record_id r \<equiv> invID (orInvocation r)"

definition base_node :: "op_record list \<Rightarrow> string \<Rightarrow> invocation_node" where
  "base_node rs i = (case find (\<lambda>r. record_id r = i) rs of Some r \<Rightarrow> record_node r | None \<Rightarrow> new_node i)"

definition keyed :: "invocation_node gomap \<Rightarrow> bool" where
  "keyed nodes \<longleftrightarrow> gm_wf nodes \<and> (\<forall>i n. map_of nodes i = Some n \<longrightarrow> ndID n = i)"

lemma keyedD: "keyed nodes \<Longrightarrow> (i, n) \<in> set nodes \<Longrightarrow> map_of nodes i = Some n \<and> ndID n = i"
  unfolding keyed_def by (metis gm_mem_iff)

lemma ndID_base [simp]: "ndID (base_node rs i) = i"
  by (auto simp: base_node_def record_node_def new_node_def Let_def find_Some_iff split: option.split)

lemma kept_Cons:
  "kept rootID (r # rs) = (if invRootID (orInvocation r) = rootID \<and> record_id r \<noteq> [] then r # kept rootID rs else kept rootID rs)"
  by (simp add: kept_def)

abbreviation recorded :: "invocation_node gomap \<Rightarrow> string \<Rightarrow> bool" where
  "recorded nodes i \<equiv> (case map_of nodes i of Some n \<Rightarrow> ndRecord n \<noteq> None | None \<Rightarrow> False)"

lemma recorded_put: "recorded (AList.update j (record_node r) nodes) i \<longleftrightarrow> i = j \<or> recorded nodes i"
  by (simp add: record_node_def Let_def)

lemma collect_nodes_fails:
  assumes "\<not> (distinct (map record_id (kept rootID rs)) \<and> (\<forall>r\<in>set (kept rootID rs). \<not> recorded nodes (record_id r)))"
  shows "collect_nodes rootID rs nodes = Inl (Errorf ''invocation graph %q contains duplicate node %q'')"
  using assms
proof (induction rs arbitrary: nodes)
  case (Cons r rs)
  show ?case
  proof (cases "invRootID (orInvocation r) = rootID \<and> record_id r \<noteq> [] \<and> \<not> recorded nodes (record_id r)")
    case True
    then have "\<not> (distinct (map record_id (kept rootID rs)) \<and>
        (\<forall>q\<in>set (kept rootID rs). \<not> recorded (AList.update (record_id r) (record_node r) nodes) (record_id q)))"
      using Cons.prems unfolding recorded_put by (auto simp: kept_Cons)
    from Cons.IH [OF this] show ?thesis using True by (simp add: Let_def)
  next
    case False
    then show ?thesis using Cons by (cases "invRootID (orInvocation r) = rootID \<and> record_id r \<noteq> []") (auto simp: kept_Cons Let_def)
  qed
qed (simp add: kept_def)

lemma collect_nodes_result:
  assumes "distinct (map record_id (kept rootID rs))" "\<forall>r\<in>set (kept rootID rs). \<not> recorded nodes (record_id r)" "keyed nodes"
  shows "\<exists>nodes'. collect_nodes rootID rs nodes = Inr nodes' \<and> keyed nodes' \<and>
    (\<forall>i. map_of nodes' i = (case find (\<lambda>r. record_id r = i) (kept rootID rs) of Some r \<Rightarrow> Some (record_node r) | None \<Rightarrow> map_of nodes i))"
  using assms
proof (induction rs arbitrary: nodes)
  case (Cons r rs)
  show ?case
  proof (cases "invRootID (orInvocation r) = rootID \<and> record_id r \<noteq> []")
    case True
    let ?nodes = "AList.update (record_id r) (record_node r) nodes"
    have k: "kept rootID (r # rs) = r # kept rootID rs" using True by (simp add: kept_Cons)
    have other: "record_id q \<noteq> record_id r" if "q \<in> set (kept rootID rs)" for q
    proof -
      have "record_id q \<in> set (map record_id (kept rootID rs))" using that by simp
      then show ?thesis using Cons.prems(1) unfolding k by (metis distinct.simps(2) list.map(2))
    qed
    have "keyed ?nodes" using Cons.prems(3) by (auto simp: keyed_def record_node_def Let_def)
    moreover have "\<not> recorded ?nodes (record_id q)" if "q \<in> set (kept rootID rs)" for q
      using Cons.prems(2) that other unfolding recorded_put k by simp
    ultimately obtain nodes' where n: "collect_nodes rootID rs ?nodes = Inr nodes'" "keyed nodes'"
      "\<And>i. map_of nodes' i = (case find (\<lambda>r. record_id r = i) (kept rootID rs) of Some r \<Rightarrow> Some (record_node r) | None \<Rightarrow> map_of ?nodes i)"
      using Cons.IH [of ?nodes] Cons.prems(1) k by auto
    have "\<not> recorded nodes (record_id r)" using Cons.prems(2) k by simp
    then have "collect_nodes rootID (r # rs) nodes = Inr nodes'" using True n(1) by (simp add: Let_def)
    moreover have "find (\<lambda>q. record_id q = record_id r) (kept rootID rs) = None" using other by (auto simp: find_None_iff)
    ultimately show ?thesis using n(2,3) k by (auto simp del: collect_nodes.simps split: option.split)
  next
    case False
    then have "kept rootID (r # rs) = kept rootID rs" by (auto simp: kept_Cons)
    moreover have "collect_nodes rootID (r # rs) nodes = collect_nodes rootID rs nodes" using False by (auto simp: Let_def)
    ultimately show ?thesis using Cons by simp
  qed
qed (simp add: kept_def)

lemma ensure_lookup:
  "map_of (foldl (\<lambda>nodes i. ensureInvocationNode i nodes) nodes is) j =
     (if map_of nodes j = None \<and> j \<in> set is then Some (new_node j) else map_of nodes j)"
  by (induction "is" arbitrary: nodes) (auto simp: ensureInvocationNode_def split: option.split)

lemma ensure_keyed: "keyed nodes \<Longrightarrow> keyed (foldl (\<lambda>nodes i. ensureInvocationNode i nodes) nodes is)"
proof (induction "is" arbitrary: nodes)
  case (Cons i "is")
  have "keyed (ensureInvocationNode i nodes)"
    using Cons.prems by (cases "map_of nodes i") (simp_all add: keyed_def ensureInvocationNode_def new_node_def)
  then show ?case using Cons.IH by simp
qed simp

section \<open>The edges\<close>

definition targets :: "(string \<times> string \<times> bool) list \<Rightarrow> string \<Rightarrow> bool \<Rightarrow> string list" where
  "targets es u b = map (\<lambda>(_, v, _). v) (filter (\<lambda>(from, to, child). from = u \<and> child = b \<and> from \<noteq> [] \<and> to \<noteq> [] \<and> from \<noteq> to) es)"

definition collected :: "string list \<Rightarrow> string list" where
  "collected ts = foldl appendUniqueInvocationID [] ts"

lemma collected_snoc: "collected (ts @ [t]) = appendUniqueInvocationID (collected ts) t"
  by (simp add: collected_def)

lemma set_collected [simp]: "set (collected ts) = set ts"
  by (induction ts rule: rev_induct) (simp add: collected_def, auto simp: collected_snoc appendUniqueInvocationID_def)

lemma distinct_collected [simp]: "distinct (collected ts)"
  by (induction ts rule: rev_induct) (simp add: collected_def, simp add: collected_snoc appendUniqueInvocationID_def)

lemma targets_snoc:
  "targets (es @ [(from, to, child)]) u b =
     targets es u b @ (if from = u \<and> child = b \<and> from \<noteq> [] \<and> to \<noteq> [] \<and> from \<noteq> to then [to] else [])"
  by (simp add: targets_def)

lemma set_targets: "v \<in> set (targets es u b) \<longleftrightarrow> (u, v, b) \<in> set es \<and> u \<noteq> [] \<and> v \<noteq> [] \<and> u \<noteq> v"
  by (force simp: targets_def)

definition with_edges :: "(string \<times> string \<times> bool) list \<Rightarrow> invocation_node \<Rightarrow> invocation_node" where
  "with_edges es n = n\<lparr>ndChildren := collected (targets es (ndID n) True), ndDependents := collected (targets es (ndID n) False)\<rparr>"

lemma with_edges_fields [simp]:
  "ndID (with_edges es n) = ndID n" "ndInvocation (with_edges es n) = ndInvocation n" "ndRecord (with_edges es n) = ndRecord n"
  "ndParentID (with_edges es n) = ndParentID n" "ndDependencies (with_edges es n) = ndDependencies n"
  "ndChildren (with_edges es n) = collected (targets es (ndID n) True)"
  "ndDependents (with_edges es n) = collected (targets es (ndID n) False)"
  by (simp_all add: with_edges_def)

definition unlinked :: "invocation_node gomap \<Rightarrow> bool" where
  "unlinked nodes \<longleftrightarrow> (\<forall>i n. map_of nodes i = Some n \<longrightarrow> ndChildren n = [] \<and> ndDependents n = [])"

lemma update_present:
  "gm_wf m \<Longrightarrow> map_of m k \<noteq> None \<Longrightarrow> AList.update k v m = map (\<lambda>(k', w). (k', if k' = k then v else w)) m"
proof (induction m)
  case (Cons e m)
  have "map (\<lambda>(k', w). (k', if k' = k then v else w)) m = m" if "k \<notin> fst ` set m"
    using that by (intro map_idI) force
  then show ?case using Cons by (cases e) auto
qed simp

lemma addEdge_step:
  assumes "keyed nodes" "from \<noteq> [] \<longrightarrow> map_of nodes from \<noteq> None"
  shows "addEdge from to child (map (\<lambda>(i, n). (i, with_edges es n)) nodes) = map (\<lambda>(i, n). (i, with_edges (es @ [(from, to, child)]) n)) nodes"
    (is "addEdge _ _ _ (?link es) = ?link ?es")
proof (cases "from = [] \<or> to = [] \<or> from = to")
  case True
  then have "with_edges ?es n = with_edges es n" for n by (auto simp: with_edges_def targets_snoc)
  then show ?thesis using True by (auto simp: addEdge_def)
next
  case False
  then obtain m where m: "map_of nodes from = Some m" using assms(2) by auto
  have wf: "gm_wf (?link es)" using assms(1) by (simp add: keyed_def case_prod_beta comp_def)
  have look: "map_of (?link es) from = Some (with_edges es m)" using m by (simp add: map_of_map)
  have same: "(if i = from then if child then (with_edges es m)\<lparr>ndChildren := appendUniqueInvocationID (ndChildren (with_edges es m)) to\<rparr>
      else (with_edges es m)\<lparr>ndDependents := appendUniqueInvocationID (ndDependents (with_edges es m)) to\<rparr> else with_edges es n) = with_edges ?es n"
    if "(i, n) \<in> set nodes" for i n
  proof -
    have "map_of nodes i = Some n" "ndID n = i" using keyedD [OF assms(1) that] by simp_all
    moreover have "ndID m = from" using m assms(1) unfolding keyed_def by blast
    moreover have "n = m" if "i = from" using that m \<open>map_of nodes i = Some n\<close> by simp
    ultimately show ?thesis using False by (auto simp: with_edges_def targets_snoc collected_snoc)
  qed
  have "addEdge from to child (?link es) = AList.update from
      (if child then (with_edges es m)\<lparr>ndChildren := appendUniqueInvocationID (ndChildren (with_edges es m)) to\<rparr>
       else (with_edges es m)\<lparr>ndDependents := appendUniqueInvocationID (ndDependents (with_edges es m)) to\<rparr>) (?link es)"
    unfolding addEdge_def if_not_P [OF False] ensureInvocationNode_def look Let_def option.case option.sel by (rule refl)
  also have "\<dots> = ?link ?es"
    unfolding update_present [OF wf, of "from", unfolded look, OF option.distinct(2)] map_map
  proof (rule map_cong [OF refl])
    fix e
    assume e: "e \<in> set nodes"
    show "((\<lambda>(k', w). (k', if k' = from then if child then (with_edges es m)\<lparr>ndChildren := appendUniqueInvocationID (ndChildren (with_edges es m)) to\<rparr>
       else (with_edges es m)\<lparr>ndDependents := appendUniqueInvocationID (ndDependents (with_edges es m)) to\<rparr> else w)) \<circ> (\<lambda>(i, n). (i, with_edges es n))) e =
      (\<lambda>(i, n). (i, with_edges ?es n)) e"
      by (cases e) (use e in \<open>simp only: comp_apply prod.case same\<close>)
  qed
  finally show ?thesis .
qed

lemma addEdge_fold:
  assumes "keyed nodes" "unlinked nodes" "\<And>u v b. (u, v, b) \<in> set es \<Longrightarrow> u \<noteq> [] \<Longrightarrow> map_of nodes u \<noteq> None"
  shows "foldl (\<lambda>nodes (from, to, child). addEdge from to child nodes) nodes es = map (\<lambda>(i, n). (i, with_edges es n)) nodes"
  using assms(3)
proof (induction es rule: rev_induct)
  case Nil
  have "with_edges [] n = n" if "(i, n) \<in> set nodes" for i n
  proof -
    have "ndChildren n = []" "ndDependents n = []" using keyedD [OF assms(1) that] assms(2) unfolding unlinked_def by blast+
    then show ?thesis by (simp add: with_edges_def targets_def collected_def)
  qed
  then show ?case by (auto intro: map_idI [symmetric])
next
  case (snoc e es)
  obtain u v b where e: "e = (u, v, b)" by (cases e)
  have "foldl (\<lambda>nodes (from, to, child). addEdge from to child nodes) nodes es = map (\<lambda>(i, n). (i, with_edges es n)) nodes"
    by (rule snoc.IH, rule snoc.prems) auto
  moreover have "u \<noteq> [] \<longrightarrow> map_of nodes u \<noteq> None" using snoc.prems [of u v b] e by simp
  ultimately show ?case using addEdge_step [OF assms(1), of u v b es] e by simp
qed

section \<open>The order\<close>

text \<open>What must come before what, read off the nodes.\<close>

definition causes :: "(string \<Rightarrow> invocation_node option) \<Rightarrow> (string \<times> string) set" where
  "causes look = {(u, v). u \<noteq> [] \<and> v \<noteq> [] \<and> u \<noteq> v \<and> (\<exists>n. look v = Some n \<and> (u = ndParentID n \<or> u \<in> set (ndDependencies n)))}"

definition closed :: "invocation_node gomap \<Rightarrow> bool" where
  "closed nodes \<longleftrightarrow> (\<forall>i n u. map_of nodes i = Some n \<longrightarrow> u \<noteq> [] \<longrightarrow> u = ndParentID n \<or> u \<in> set (ndDependencies n) \<longrightarrow> map_of nodes u \<noteq> None)"

lemma set_all_edges:
  assumes "keyed nodes"
  shows "(u, v, b) \<in> set (all_edges nodes) \<longleftrightarrow>
    (\<exists>n. map_of nodes v = Some n \<and> (if b then u = ndParentID n else u \<in> set (ndDependencies n)))"
proof -
  have "(u, v, b) \<in> set (all_edges nodes) \<longleftrightarrow> (\<exists>i n. (i, n) \<in> set nodes \<and> (u, v, b) \<in> set (node_edges n))"
    by (force simp: all_edges_def)
  also have "\<dots> \<longleftrightarrow> (\<exists>i n. (i, n) \<in> set nodes \<and> ndID n = v \<and> (if b then u = ndParentID n else u \<in> set (ndDependencies n)))"
    by (auto simp: node_edges_def)
  also have "\<dots> \<longleftrightarrow> (\<exists>n. map_of nodes v = Some n \<and> (if b then u = ndParentID n else u \<in> set (ndDependencies n)))"
    by (metis assms keyedD keyed_def map_of_SomeD)
  finally show ?thesis .
qed

lemma real_edges_causes:
  assumes "keyed nodes" "closed nodes"
  shows "real_edges nodes (map (\<lambda>(u, v, _). (u, v)) (all_edges nodes)) = causes (map_of nodes)"
proof -
  have "(u, v) \<in> set (map (\<lambda>(u, v, _). (u, v)) (all_edges nodes)) \<longleftrightarrow> (\<exists>b. (u, v, b) \<in> set (all_edges nodes))" for u v
    by force
  then have e: "(u, v) \<in> set (map (\<lambda>(u, v, _). (u, v)) (all_edges nodes)) \<longleftrightarrow>
      (\<exists>n. map_of nodes v = Some n \<and> (u = ndParentID n \<or> u \<in> set (ndDependencies n)))" for u v
    unfolding ex_bool_eq set_all_edges [OF assms(1)] by (cases "map_of nodes v") auto
  have present: "map_of nodes u \<noteq> None" if "map_of nodes v = Some n" "u \<noteq> []" "u = ndParentID n \<or> u \<in> set (ndDependencies n)" for u v n
    using assms(2) that unfolding closed_def by blast
  have "(u, v) \<in> real_edges nodes (map (\<lambda>(u, v, _). (u, v)) (all_edges nodes)) \<longleftrightarrow> (u, v) \<in> causes (map_of nodes)" for u v
    unfolding real_edges_def causes_def mem_Collect_eq prod.case e using present [of v _ u] by (cases "map_of nodes v") auto
  then show ?thesis by (intro equalityI subrelI) simp_all
qed

lemma order_state:
  fixes nodes :: "invocation_node gomap" and es :: "(string \<times> string) list"
  assumes "gm_wf nodes"
  defines "st \<equiv> foldl (\<lambda>st (u, v). addOrderEdge nodes u v st) (map (\<lambda>(i, _). (i, 0)) nodes, []) es"
  shows "counted (real_edges nodes es) st" "gm_wf (fst st)" "fst ` set (fst st) = fst ` set nodes"
proof -
  have "counted {} (map (\<lambda>(i, _). (i, 0)) nodes, [])"
    by (auto simp: counted_def get_list_def get_count_def preds_def split: option.split dest!: map_of_SomeD)
  then show "counted (real_edges nodes es) st" unfolding st_def by (rule counted_edges)
  have "gm_wf (fst st) \<and> fst ` set (fst st) = fst ` set nodes" unfolding st_def
  proof (induction es rule: rev_induct)
    case Nil
    show ?case using assms(1) by (auto simp: case_prod_beta comp_def image_image)
  next
    case (snoc e es)
    let ?s = "foldl (\<lambda>st (u, v). addOrderEdge nodes u v st) (map (\<lambda>(i, _). (i, 0)) nodes, []) es"
    obtain u v inb out where e: "e = (u, v)" "?s = (inb, out)" by (cases e; cases ?s) simp
    have "map_of nodes k \<noteq> None \<longleftrightarrow> k \<in> fst ` set nodes" for k by (metis map_of_eq_None_iff)
    then show ?case using snoc e by (auto simp: addOrderEdge_def update_keys dom_update)
  qed
  then show "gm_wf (fst st)" "fst ` set (fst st) = fst ` set nodes" by simp_all
qed

definition graph_order :: "string \<Rightarrow> invocation_node gomap \<Rightarrow> string list" where
  "graph_order rootID nodes = least_first (compare_ids rootID nodes) (causes (map_of nodes)) (map fst nodes) (Suc (length nodes)) []"

lemma compare_ids_eq: "compare_ids rootID nodes = (\<lambda>l r. compareInvocationGraphNodes rootID
    (case map_of nodes l of Some n \<Rightarrow> n | None \<Rightarrow> new_node []) (case map_of nodes r of Some n \<Rightarrow> n | None \<Rightarrow> new_node []))"
  by (intro ext) (simp add: compare_ids_def)

lemma compare_ids_comparator: "comparator (compare_ids rootID nodes)"
  unfolding compare_ids_eq by (rule comparator_ids)

lemma compare_ids_inj:
  assumes "keyed nodes" "u \<in> fst ` set nodes" "v \<in> fst ` set nodes" "compare_ids rootID nodes u v = 0"
  shows "u = v"
proof -
  obtain m n where "map_of nodes u = Some m" "map_of nodes v = Some n"
    using assms(2,3) by (metis map_of_eq_None_iff not_None_eq)
  moreover from this have "ndID m = u" "ndID n = v" using assms(1) unfolding keyed_def by blast+
  moreover have "compareInvocationGraphNodes rootID m n = 0" using assms(4) calculation(1,2) unfolding compare_ids_eq by simp
  ultimately show ?thesis using compareInvocationGraphNodes_0 by blast
qed

lemma sortInvocationGraphNodes_result:
  assumes "keyed nodes" "closed nodes"
  shows "sortInvocationGraphNodes rootID nodes = Some (if length (graph_order rootID nodes) \<noteq> length nodes
      then Inl (Errorf ''invocation graph %q contains a parent/dependency cycle'') else Inr (graph_order rootID nodes))" (is ?result)
    and "\<exists>inb. placing (causes (map_of nodes)) (fst ` set nodes) [] inb (graph_order rootID nodes)" (is ?placed)
proof -
  let ?es = "map (\<lambda>(u, v, _). (u, v)) (all_edges nodes)" and ?E = "causes (map_of nodes)" and ?V = "map fst nodes" and ?c = "compare_ids rootID nodes"
  obtain inb out where st: "foldl (\<lambda>st (u, v). addOrderEdge nodes u v st) (map (\<lambda>(i, _). (i, 0)) nodes, []) ?es = (inb, out)" by fastforce
  have wf: "gm_wf nodes" using assms(1) by (simp add: keyed_def)
  note s = order_state [OF wf, of ?es, unfolded st real_edges_causes [OF assms], simplified]
  let ?ready = "map fst (filter (\<lambda>(i, count). count = 0) inb)"
  have E: "finite ?E" "?E \<subseteq> set ?V \<times> set ?V"
  proof -
    show "finite ?E" unfolding real_edges_causes [OF assms, symmetric] by simp
    show "?E \<subseteq> set ?V \<times> set ?V" unfolding real_edges_causes [OF assms, symmetric] real_edges_def
      by (auto simp: map_of_eq_None_iff)
  qed
  have ready: "v \<in> set ?ready \<longleftrightarrow> v \<in> fst ` set nodes \<and> get_count inb v = 0" for v
  proof -
    have "v \<in> set ?ready \<longleftrightarrow> (v, 0) \<in> set inb" by force
    then have "v \<in> set ?ready \<longleftrightarrow> map_of inb v = Some 0" using gm_mem_iff [OF s(2)] by simp
    moreover have "map_of inb v = None \<longleftrightarrow> v \<notin> fst ` set nodes" using s(3) by (metis map_of_eq_None_iff)
    ultimately show ?thesis by (cases "map_of inb v") (auto simp: get_count_def)
  qed
  have count: "get_count inb v = int (card (preds ?E v))" and out: "distinct (get_list out v) \<and> set (get_list out v) = {w. (v, w) \<in> ?E}" for v
    using s(1) by (simp_all add: counted_def)
  have dist: "distinct (sort_func ?c ?ready)"
    using s(2) distinct_map_sort_func [of id ?c ?ready] by (simp add: distinct_map_filter)
  have none: "get_count inb v = 0 \<longleftrightarrow> preds ?E v = {}" for v using count [of v] finite_preds [OF E(1), of v] by simp
  have placing: "placing ?E (set ?V) (sort_func ?c ?ready) inb []"
    unfolding placing_def set_sort_func using dist ready count none by auto
  have sorted: "sort_func ?c ?ready = sort_func ?c (sort_func ?c ?ready)"
    by (rule comparator.sort_func_sorted [OF compare_ids_comparator comparator.sorted_sort_func [OF compare_ids_comparator], symmetric])
  obtain inb' ordered where p: "place_nodes ?c out (Suc (length nodes)) (sort_func ?c ?ready) inb [] = Some ordered"
      "placing ?E (set ?V) [] inb' ordered" "ordered = graph_order rootID nodes"
    using place_nodes_correct [of ?E ?V "sort_func ?c ?ready" inb "[]" out "Suc (length nodes)" ?c,
        OF placing E _ out _ compare_ids_comparator _ sorted] wf compare_ids_inj [OF assms(1)]
    unfolding graph_order_def by auto
  have fold: "foldl (\<lambda>st (from, to, _). addOrderEdge nodes from to st) x (all_edges nodes) = foldl (\<lambda>st (u, v). addOrderEdge nodes u v st) x ?es" for x
    unfolding foldl_map by (rule foldl_cong) auto
  show ?result unfolding sortInvocationGraphNodes_def fold st Let_def prod.case p(1) option.map p(3) [symmetric] by (rule refl)
  show ?placed using p(2,3) by auto
qed

section \<open>The targets of a node follow the order of the graph\<close>

lemma find_position:
  assumes "distinct xs" "k < length xs"
  shows "find (\<lambda>j. xs ! j = xs ! k) [0..<length xs] = Some k"
  unfolding find_Some_iff using assms by (intro exI [of _ k]) (auto simp: nth_eq_iff_index_eq)

lemma sort_by_graph_order:
  assumes "comparator cmp" "distinct ordered" "distinct xs" "set xs \<subseteq> set ordered"
  shows "sort_func (by_graph_order ordered cmp) xs = filter (\<lambda>x. x \<in> set xs) ordered"
proof -
  define pos where "pos x = the (find (\<lambda>j. ordered ! j = x) [0..<length ordered])" for x
  have pos: "pos (ordered ! k) = k" if "k < length ordered" for k unfolding pos_def find_position [OF assms(2) that] by simp
  have refl: "cmp x x = 0" for x using comparator.cmp_flip [OF assms(1), of x x] by linarith
  have "by_graph_order ordered cmp x y = compare_on pos x y" if "x \<in> set ordered" "y \<in> set ordered" for x y
  proof -
    obtain j k where j: "x = ordered ! j" "j < length ordered" "y = ordered ! k" "k < length ordered"
      using \<open>x \<in> set ordered\<close> \<open>y \<in> set ordered\<close> by (metis in_set_conv_nth)
    show ?thesis unfolding by_graph_order_def Let_def j(1,3) find_position [OF assms(2) j(2)] find_position [OF assms(2) j(4)]
      by (auto simp: compare_on_def pos [OF j(2)] pos [OF j(4)] refl)
  qed
  then have "sort_func (by_graph_order ordered cmp) xs = sort_func (compare_on pos) xs" using assms(4) by (intro sort_func_cong) auto
  also have "\<dots> = filter (\<lambda>x. x \<in> set xs) ordered"
  proof (rule comparator.sorted_unique [OF comparator_on])
    show "mset (sort_func (compare_on pos) xs) = mset (filter (\<lambda>x. x \<in> set xs) ordered)"
      unfolding mset_sort_func using assms(2,3,4) by (subst set_eq_iff_mset_eq_distinct [symmetric]) auto
    show "sorted_wrt (\<lambda>x y. compare_on pos x y \<le> 0) (sort_func (compare_on pos) xs)" by (rule comparator.sorted_sort_func [OF comparator_on])
    show "sorted_wrt (\<lambda>x y. compare_on pos x y \<le> 0) (filter (\<lambda>x. x \<in> set xs) ordered)"
      by (rule sorted_wrt_filter) (auto simp: sorted_wrt_iff_nth_less compare_on_def pos)
    show "x = y" if "x \<in> set (sort_func (compare_on pos) xs)" "y \<in> set (sort_func (compare_on pos) xs)" "compare_on pos x y = 0" for x y
      using that assms(4) pos unfolding compare_on_0 set_sort_func by (metis in_set_conv_nth subsetD)
  qed
  finally show ?thesis .
qed

section \<open>A reference for the whole projection\<close>

definition node_ids :: "string \<Rightarrow> op_record list \<Rightarrow> string list" where
  "node_ids rootID rs = remdups (rootID # concat (map (\<lambda>r. let inv = orInvocation r in
     invID inv # (if invParentID inv \<noteq> [] then [invParentID inv] else []) @ invDependencies inv) rs))"

definition reference_order :: "string \<Rightarrow> op_record list \<Rightarrow> string list" where
  "reference_order rootID rs = least_first (\<lambda>l r. compareInvocationGraphNodes rootID (base_node rs l) (base_node rs r))
     (causes (\<lambda>i. Some (base_node rs i))) (node_ids rootID rs) (Suc (length (node_ids rootID rs))) []"

definition reference_node :: "op_record list \<Rightarrow> string list \<Rightarrow> string \<Rightarrow> invocation_node" where
  "reference_node rs ordered i = (base_node rs i)
     \<lparr>ndChildren := filter (\<lambda>c. i \<noteq> [] \<and> c \<noteq> i \<and> c \<noteq> [] \<and> ndParentID (base_node rs c) = i) ordered,
      ndDependents := filter (\<lambda>d. i \<noteq> [] \<and> d \<noteq> i \<and> d \<noteq> [] \<and> i \<in> set (ndDependencies (base_node rs d))) ordered\<rparr>"

definition reference_graph :: "string \<Rightarrow> op_record list \<Rightarrow> invocation_graph result" where
  "reference_graph rootID rs =
     (let ordered = reference_order rootID rs; items = map (reference_node rs ordered) ordered in
      if length ordered \<noteq> length (node_ids rootID rs) then Inl (Errorf ''invocation graph %q contains a parent/dependency cycle'')
      else Inr \<lparr>grRootID = rootID, grNodes = items, grOperations = List.map_filter ndRecord items\<rparr>)"

text \<open>The map of nodes after the references are in it.\<close>

definition completed :: "string \<Rightarrow> op_record list \<Rightarrow> invocation_node gomap \<Rightarrow> bool" where
  "completed rootID rs nodes \<longleftrightarrow> keyed nodes \<and>
     (\<forall>i. map_of nodes i = (if i \<in> set (node_ids rootID rs) then Some (base_node rs i) else None))"

lemma base_node_unrecorded:
  assumes "i \<notin> record_id ` set rs"
  shows "base_node rs i = new_node i"
proof -
  have "find (\<lambda>r. record_id r = i) rs = None" using assms by (auto simp: find_None_iff)
  then show ?thesis by (simp add: base_node_def)
qed

lemma base_node_recorded:
  assumes "distinct (map record_id rs)" "r \<in> set rs"
  shows "base_node rs (record_id r) = record_node r"
proof (cases "find (\<lambda>q. record_id q = record_id r) rs")
  case None
  then show ?thesis using assms(2) by (auto simp: find_None_iff)
next
  case (Some q)
  then have "q \<in> set rs" "record_id q = record_id r" by (auto simp: find_Some_iff)
  then have "q = r" using assms by (metis distinct_map inj_onD)
  then show ?thesis using Some by (simp add: base_node_def)
qed

definition refers :: "op_record list \<Rightarrow> string \<Rightarrow> bool" where
  "refers rs u \<longleftrightarrow> (\<exists>r\<in>set rs. u = invParentID (orInvocation r) \<and> u \<noteq> [] \<or> u \<in> set (invDependencies (orInvocation r)))"

lemma distinct_node_ids [simp]: "distinct (node_ids rootID rs)"
  unfolding node_ids_def by (rule distinct_remdups)

lemma set_node_ids: "i \<in> set (node_ids rootID rs) \<longleftrightarrow> i = rootID \<or> i \<in> record_id ` set rs \<or> refers rs i"
  by (auto simp: node_ids_def refers_def Let_def split: if_splits)

lemma record_node_fields [simp]:
  "ndParentID (record_node r) = invParentID (orInvocation r)" "ndDependencies (record_node r) = invDependencies (orInvocation r)"
  "ndChildren (record_node r) = []" "ndDependents (record_node r) = []" "ndRecord (record_node r) = Some r" "ndID (record_node r) = record_id r"
  by (simp_all add: record_node_def Let_def)

lemma new_node_fields [simp]:
  "ndParentID (new_node i) = []" "ndDependencies (new_node i) = []" "ndChildren (new_node i) = []" "ndDependents (new_node i) = []"
  "ndRecord (new_node i) = None" "ndID (new_node i) = i"
  by (simp_all add: new_node_def)

lemma base_node_links [simp]: "ndChildren (base_node rs i) = []" "ndDependents (base_node rs i) = []"
  by (simp_all add: base_node_def split: option.split)

text \<open>A node refers to what its record refers to.\<close>

lemma base_node_refers:
  assumes "u = ndParentID (base_node rs i) \<and> u \<noteq> [] \<or> u \<in> set (ndDependencies (base_node rs i))"
  shows "i \<in> record_id ` set rs \<and> refers rs u"
proof (cases "find (\<lambda>r. record_id r = i) rs")
  case None
  then show ?thesis using assms by (simp add: base_node_def)
next
  case (Some r)
  then have "r \<in> set rs" "record_id r = i" by (auto simp: find_Some_iff)
  then show ?thesis using assms Some by (auto simp: base_node_def refers_def)
qed

lemma nodes_completed:
  assumes "distinct (map record_id (kept rootID records))"
  obtains nodes where "collect_nodes rootID records [(rootID, new_node rootID)] = Inr nodes"
    "completed rootID (kept rootID records) (foldl (\<lambda>nodes i. ensureInvocationNode i nodes) nodes (references nodes))"
proof -
  let ?rs = "kept rootID records" and ?root = "[(rootID, new_node rootID)]"
  have "keyed ?root" by (simp add: keyed_def)
  moreover have "\<forall>r\<in>set ?rs. \<not> recorded ?root (record_id r)" by simp
  ultimately obtain nodes where n: "collect_nodes rootID records ?root = Inr nodes" "keyed nodes"
      "\<And>i. map_of nodes i = (case find (\<lambda>r. record_id r = i) ?rs of Some r \<Rightarrow> Some (record_node r) | None \<Rightarrow> map_of ?root i)"
    using collect_nodes_result [OF assms] by blast
  have look: "map_of nodes i = (if i = rootID \<or> i \<in> record_id ` set ?rs then Some (base_node ?rs i) else None)" for i
  proof (cases "find (\<lambda>r. record_id r = i) ?rs")
    case None
    then have "i \<notin> record_id ` set ?rs" by (auto simp: find_None_iff)
    then show ?thesis using n(3) [of i] None by (auto simp: base_node_def)
  next
    case (Some r)
    then have "i \<in> record_id ` set ?rs" by (auto simp: find_Some_iff)
    then show ?thesis using n(3) [of i] Some by (auto simp: base_node_def)
  qed
  have refs: "u \<in> set (references nodes) \<longleftrightarrow> refers ?rs u" for u
  proof
    assume "u \<in> set (references nodes)"
    then obtain i m where m: "(i, m) \<in> set nodes" "u = ndParentID m \<and> u \<noteq> [] \<or> u \<in> set (ndDependencies m)"
      by (auto simp: references_def split: if_splits)
    then have "m = base_node ?rs i" using keyedD [OF n(2)] look [of i] by (auto split: if_splits)
    then show "refers ?rs u" using base_node_refers m(2) by blast
  next
    assume "refers ?rs u"
    then obtain r where r: "r \<in> set ?rs" "u = invParentID (orInvocation r) \<and> u \<noteq> [] \<or> u \<in> set (invDependencies (orInvocation r))"
      by (auto simp: refers_def)
    have "map_of nodes (record_id r) = Some (record_node r)" using look [of "record_id r"] base_node_recorded [OF assms r(1)] r(1) by simp
    then have "(record_id r, record_node r) \<in> set nodes" by (rule map_of_SomeD)
    then show "u \<in> set (references nodes)" using r(2) by (force simp: references_def)
  qed
  have unref: "base_node ?rs i = new_node i" if "i \<noteq> rootID \<and> i \<notin> record_id ` set ?rs" for i using that base_node_unrecorded by blast
  have "completed rootID ?rs (foldl (\<lambda>nodes i. ensureInvocationNode i nodes) nodes (references nodes))"
    unfolding completed_def ensure_lookup look refs set_node_ids using ensure_keyed [OF n(2)] unref by auto
  then show ?thesis using that n(1) by blast
qed

lemma completed_links:
  assumes "completed rootID rs nodes"
  shows "closed nodes" "unlinked nodes" "causes (map_of nodes) = causes (\<lambda>i. Some (base_node rs i))"
    "mset (map fst nodes) = mset (node_ids rootID rs)"
proof -
  have look: "map_of nodes i = (if i \<in> set (node_ids rootID rs) then Some (base_node rs i) else None)" for i
    using assms by (simp add: completed_def)
  have ref: "u \<in> set (node_ids rootID rs) \<and> i \<in> set (node_ids rootID rs)" if "u \<noteq> []" "u = ndParentID (base_node rs i) \<or> u \<in> set (ndDependencies (base_node rs i))" for u i
    using base_node_refers [of u rs i] that unfolding set_node_ids by blast
  show "closed nodes" unfolding closed_def look using ref by auto
  show "unlinked nodes" unfolding unlinked_def look by auto
  show "causes (map_of nodes) = causes (\<lambda>i. Some (base_node rs i))" unfolding causes_def look using ref by auto
  have "fst ` set nodes = {i. map_of nodes i \<noteq> None}" by (simp add: dom_map_of_conv_image_fst [symmetric] dom_def)
  then have "set (map fst nodes) = set (node_ids rootID rs)" unfolding look by auto
  moreover have "distinct (map fst nodes)" using assms by (simp add: completed_def keyed_def)
  ultimately show "mset (map fst nodes) = mset (node_ids rootID rs)"
    by (subst set_eq_iff_mset_eq_distinct [symmetric]) (auto simp: node_ids_def)
qed

lemma link_nodes_result:
  assumes "completed rootID rs nodes"
  shows "link_nodes nodes = map (\<lambda>(i, n). (i, with_edges (all_edges nodes) n)) nodes" "keyed (link_nodes nodes)" "closed (link_nodes nodes)"
    "map_of (link_nodes nodes) i = map_option (with_edges (all_edges nodes)) (map_of nodes i)"
proof -
  have k: "keyed nodes" using assms by (simp add: completed_def)
  show link: "link_nodes nodes = map (\<lambda>(i, n). (i, with_edges (all_edges nodes) n)) nodes" unfolding link_nodes_def
  proof (rule addEdge_fold [OF k completed_links(2) [OF assms]])
    show "map_of nodes u \<noteq> None" if "(u, v, b) \<in> set (all_edges nodes)" "u \<noteq> []" for u v b
      using that completed_links(1) [OF assms] unfolding set_all_edges [OF k] closed_def by (metis (full_types))
  qed
  show look: "map_of (link_nodes nodes) i = map_option (with_edges (all_edges nodes)) (map_of nodes i)" for i
    unfolding link by (simp add: map_of_map)
  show "keyed (link_nodes nodes)"
    using k unfolding keyed_def look by (auto simp: link case_prod_beta comp_def)
  show "closed (link_nodes nodes)"
    using completed_links(1) [OF assms] unfolding closed_def look by auto
qed

lemma compare_with_edges: "compareInvocationGraphNodes rootID (with_edges es m) (with_edges fs n) = compareInvocationGraphNodes rootID m n"
  unfolding compareInvocationGraphNodes_def compareRootInvocationNode_def compareInvocationRecordTime_def
    compareInvocationRecordPresence_def compare_on_def with_edges_fields by (rule refl)

lemma graph_order_reference:
  assumes "completed rootID rs nodes"
  shows "graph_order rootID (link_nodes nodes) = reference_order rootID rs" "causes (map_of (link_nodes nodes)) = causes (\<lambda>i. Some (base_node rs i))"
proof -
  note l = link_nodes_result [OF assms] and c = completed_links [OF assms]
  have fst: "map fst (link_nodes nodes) = map fst nodes" unfolding l(1) by (simp add: case_prod_beta comp_def)
  have "causes (map_of (link_nodes nodes)) = causes (map_of nodes)" unfolding causes_def l(4) by auto
  then show E: "causes (map_of (link_nodes nodes)) = causes (\<lambda>i. Some (base_node rs i))" using c(3) by simp
  have len: "length (link_nodes nodes) = length (node_ids rootID rs)" using c(4) fst by (metis length_map size_mset)
  show "graph_order rootID (link_nodes nodes) = reference_order rootID rs"
    unfolding graph_order_def reference_order_def E len fst
  proof (rule least_first_cong [OF compare_ids_comparator _ c(4)])
    show "x = y" if "x \<in> set (map fst nodes)" "y \<in> set (map fst nodes)" "compare_ids rootID (link_nodes nodes) x y = 0" for x y
      using compare_ids_inj [OF l(2)] that fst by (metis set_map)
    show "compare_ids rootID (link_nodes nodes) x y = compareInvocationGraphNodes rootID (base_node rs x) (base_node rs y)"
      if "x \<in> set (map fst nodes)" "y \<in> set (map fst nodes)" for x y
    proof -
      have "map_of nodes z = Some (base_node rs z)" if "z \<in> set (map fst nodes)" for z
        using assms that mset_eq_setD [OF c(4)] unfolding completed_def by simp
      then show ?thesis using that by (simp add: compare_ids_eq l(4) compare_with_edges)
    qed
  qed
qed

lemma sorted_edges_reference:
  assumes "completed rootID rs nodes" "distinct ordered" "set ordered = set (node_ids rootID rs)" "i \<in> set ordered"
  shows "map_of (sortInvocationGraphEdges (link_nodes nodes) ordered (compare_ids rootID (link_nodes nodes))) i = Some (reference_node rs ordered i)"
proof -
  let ?es = "all_edges nodes" and ?c = "compare_ids rootID (link_nodes nodes)"
  have k: "keyed nodes" and look: "map_of nodes j = (if j \<in> set ordered then Some (base_node rs j) else None)" for j
    using assms(1,3) by (simp_all add: completed_def)
  have targets: "v \<in> set (targets ?es i b) \<longleftrightarrow> v \<in> set ordered \<and> i \<noteq> [] \<and> v \<noteq> i \<and> v \<noteq> [] \<and>
      (if b then ndParentID (base_node rs v) = i else i \<in> set (ndDependencies (base_node rs v)))" for v b
    unfolding set_targets set_all_edges [OF k] look by auto
  have sort: "sort_func (by_graph_order ordered ?c) (collected (targets ?es i b)) = filter (\<lambda>v. v \<in> set (targets ?es i b)) ordered" for b
  proof -
    have "set (collected (targets ?es i b)) \<subseteq> set ordered" unfolding set_collected using targets by blast
    from sort_by_graph_order [OF compare_ids_comparator assms(2) distinct_collected this] show ?thesis unfolding set_collected .
  qed
  have node: "map_of (link_nodes nodes) i = Some (with_edges ?es (base_node rs i))" using link_nodes_result(4) [OF assms(1), of i] look assms(4) by simp
  have "map_of (sortInvocationGraphEdges (link_nodes nodes) ordered ?c) i = Some ((with_edges ?es (base_node rs i))
      \<lparr>ndChildren := filter (\<lambda>v. v \<in> set (targets ?es i True)) ordered, ndDependents := filter (\<lambda>v. v \<in> set (targets ?es i False)) ordered\<rparr>)"
    by (simp add: sortInvocationGraphEdges_def map_of_map node sort)
  also have "\<dots> = Some (reference_node rs ordered i)"
    unfolding reference_node_def with_edges_def targets by (simp cong: filter_cong)
  finally show ?thesis .
qed

lemma BuildInvocationGraph_reference:
  "BuildInvocationGraph rootID records = Some (case ValidateResourceName ''invocation root'' rootID of
      Some e \<Rightarrow> Inl e
    | None \<Rightarrow>
        if distinct (map record_id (kept rootID records)) then reference_graph rootID (kept rootID records)
        else Inl (Errorf ''invocation graph %q contains duplicate node %q''))"
proof (cases "ValidateResourceName ''invocation root'' rootID")
  case (Some e)
  then show ?thesis by (simp add: BuildInvocationGraph_def)
next
  case valid: None
  let ?rs = "kept rootID records"
  show ?thesis
  proof (cases "distinct (map record_id ?rs)")
    case False
    then have "collect_nodes rootID records [(rootID, new_node rootID)] = Inl (Errorf ''invocation graph %q contains duplicate node %q'')"
      by (intro collect_nodes_fails) blast
    then show ?thesis using False valid by (simp add: BuildInvocationGraph_def)
  next
    case True
    then obtain nodes where n: "collect_nodes rootID records [(rootID, new_node rootID)] = Inr nodes"
        "completed rootID ?rs (foldl (\<lambda>nodes i. ensureInvocationNode i nodes) nodes (references nodes))" (is "completed _ _ ?nodes")
      by (rule nodes_completed)
    note l = link_nodes_result [OF n(2)] and o = graph_order_reference [OF n(2)]
    let ?ordered = "reference_order rootID ?rs"
    have fst: "mset (map fst (link_nodes ?nodes)) = mset (node_ids rootID ?rs)"
      using completed_links(4) [OF n(2)] unfolding l(1) by (simp add: case_prod_beta comp_def)
    have len: "length (link_nodes ?nodes) = length (node_ids rootID ?rs)" using fst by (metis length_map size_mset)
    have sort: "sortInvocationGraphNodes rootID (link_nodes ?nodes) = Some (if length ?ordered \<noteq> length (node_ids rootID ?rs)
        then Inl (Errorf ''invocation graph %q contains a parent/dependency cycle'') else Inr ?ordered)"
      using sortInvocationGraphNodes_result(1) [OF l(2,3), of rootID] unfolding o(1) len .
    obtain inb where p: "placing (causes (map_of (link_nodes ?nodes))) (fst ` set (link_nodes ?nodes)) [] inb ?ordered"
      using sortInvocationGraphNodes_result(2) [OF l(2,3), of rootID] unfolding o(1) by blast
    have "map_of (sortInvocationGraphEdges (link_nodes ?nodes) ?ordered (compare_ids rootID (link_nodes ?nodes))) i = Some (reference_node ?rs ?ordered i)"
      if "length ?ordered = length (node_ids rootID ?rs)" "i \<in> set ?ordered" for i
    proof (rule sorted_edges_reference [OF n(2) _ _ that(2)])
      show "distinct ?ordered" using p by (simp add: placing_def)
      have "set ?ordered \<subseteq> set (node_ids rootID ?rs)" using p mset_eq_setD [OF fst] by (simp add: placing_def)
      moreover have "card (set ?ordered) = card (set (node_ids rootID ?rs))"
        using that(1) distinct_card [OF \<open>distinct ?ordered\<close>] by (simp add: distinct_card [OF distinct_node_ids])
      ultimately show "set ?ordered = set (node_ids rootID ?rs)" by (simp add: card_subset_eq)
    qed
    then have items: "map (\<lambda>i. the (map_of (sortInvocationGraphEdges (link_nodes ?nodes) ?ordered (compare_ids rootID (link_nodes ?nodes))) i)) ?ordered =
        map (reference_node ?rs ?ordered) ?ordered" if "length ?ordered = length (node_ids rootID ?rs)"
      using that by (intro map_cong) simp_all
    show ?thesis using True valid n(1) sort items
      by (cases "length ?ordered = length (node_ids rootID ?rs)") (simp_all add: BuildInvocationGraph_def Let_def reference_graph_def del: map_eq_conv)
  qed
qed

text \<open>What must come before what, read off the records.\<close>

definition causal :: "op_record list \<Rightarrow> (string \<times> string) set" where
  "causal rs = {(u, v). u \<noteq> [] \<and> v \<noteq> [] \<and> u \<noteq> v \<and>
     (\<exists>r\<in>set rs. record_id r = v \<and> (u = invParentID (orInvocation r) \<or> u \<in> set (invDependencies (orInvocation r))))}"

lemma causes_causal:
  assumes "distinct (map record_id rs)"
  shows "causes (\<lambda>i. Some (base_node rs i)) = causal rs"
proof -
  have "(\<exists>n. Some (base_node rs v) = Some n \<and> (u = ndParentID n \<or> u \<in> set (ndDependencies n))) \<longleftrightarrow>
      (\<exists>r\<in>set rs. record_id r = v \<and> (u = invParentID (orInvocation r) \<or> u \<in> set (invDependencies (orInvocation r))))" if "u \<noteq> []" for u v
  proof (cases "v \<in> record_id ` set rs")
    case True
    then obtain r where r: "r \<in> set rs" "v = record_id r" by blast
    moreover have "q = r" if "q \<in> set rs" "record_id q = record_id r" for q using that assms r(1) by (metis distinct_map inj_onD)
    ultimately show ?thesis using base_node_recorded [OF assms r(1)] by auto
  next
    case False
    then show ?thesis using base_node_unrecorded [OF False] that by auto
  qed
  then show ?thesis unfolding causes_def causal_def by auto
qed

lemma reference_placed:
  assumes "distinct (map record_id (kept rootID records))"
  defines "rs \<equiv> kept rootID records"
  shows "\<exists>inb. placing (causal rs) (set (node_ids rootID rs)) [] inb (reference_order rootID rs)"
    and "finite (causal rs)" "causal rs \<subseteq> set (node_ids rootID rs) \<times> set (node_ids rootID rs)"
proof -
  obtain nodes where n: "completed rootID rs nodes" unfolding rs_def using nodes_completed [OF assms(1)] by blast
  note l = link_nodes_result [OF n] and o = graph_order_reference [OF n]
  have fst: "fst ` set (link_nodes nodes) = set (node_ids rootID rs)"
    using mset_eq_setD [OF completed_links(4) [OF n]] unfolding l(1) by (force simp: image_image case_prod_beta)
  show "\<exists>inb. placing (causal rs) (set (node_ids rootID rs)) [] inb (reference_order rootID rs)"
    using sortInvocationGraphNodes_result(2) [OF l(2,3), of rootID] assms(1)
    unfolding o fst rs_def causes_causal [OF assms(1)] by blast
  show sub: "causal rs \<subseteq> set (node_ids rootID rs) \<times> set (node_ids rootID rs)"
    unfolding causal_def set_node_ids [abs_def] by (auto simp: set_node_ids refers_def)
  show "finite (causal rs)" by (rule finite_subset [OF sub]) simp
qed

section \<open>Properties\<close>

lemma BuildInvocationGraph_Inr:
  assumes "BuildInvocationGraph rootID records = Some (Inr g)"
  obtains "distinct (map record_id (kept rootID records))"
    "length (reference_order rootID (kept rootID records)) = length (node_ids rootID (kept rootID records))"
    "grNodes g = map (reference_node (kept rootID records) (reference_order rootID (kept rootID records))) (reference_order rootID (kept rootID records))"
    "grOperations g = List.map_filter ndRecord (grNodes g)"
  using assms unfolding BuildInvocationGraph_reference
  by (auto simp: reference_graph_def Let_def split: option.splits if_splits)

lemma reference_node_fields [simp]:
  "ndID (reference_node rs ordered i) = i" "ndRecord (reference_node rs ordered i) = ndRecord (base_node rs i)"
  by (simp_all add: reference_node_def)

lemma set_map_filter: "set (List.map_filter f xs) = {y. \<exists>x\<in>set xs. f x = Some y}"
  by (induction xs) (auto simp: List.map_filter_simps split: option.split)

lemma map_filter_records:
  assumes "distinct (map record_id rs)" "distinct ordered" "record_id ` set rs \<subseteq> set ordered"
  shows "mset (List.map_filter (\<lambda>i. ndRecord (base_node rs i)) ordered) = mset rs"
proof -
  have rec: "ndRecord (base_node rs i) = Some r \<longleftrightarrow> r \<in> set rs \<and> record_id r = i" for i r
  proof
    assume "ndRecord (base_node rs i) = Some r"
    then show "r \<in> set rs \<and> record_id r = i" by (auto simp: base_node_def find_Some_iff split: option.splits)
  qed (use base_node_recorded [OF assms(1)] in auto)
  have set: "set (List.map_filter (\<lambda>i. ndRecord (base_node rs i)) xs) = {r \<in> set rs. record_id r \<in> set xs}" for xs
    unfolding set_map_filter rec by auto
  have "distinct (List.map_filter (\<lambda>i. ndRecord (base_node rs i)) ordered)" using assms(2)
  proof (induction ordered)
    case (Cons i ordered)
    then show ?case using set [of ordered] by (auto simp: List.map_filter_simps rec split: option.split)
  qed (simp add: List.map_filter_simps)
  moreover have "distinct rs" using assms(1) by (simp add: distinct_map)
  ultimately show ?thesis using set [of ordered] assms(3)
    by (subst set_eq_iff_mset_eq_distinct [symmetric]) auto
qed

text \<open>
  C10: A graph that is built lists every record of its root exactly once, every node after its
  parent and its dependencies, and has as children and dependents of a node the records
  that name it as their parent or among their dependencies.
\<close>

theorem BuildInvocationGraph_ordered:
  assumes "BuildInvocationGraph rootID records = Some (Inr g)"
  defines "rs \<equiv> kept rootID records"
  shows "distinct (map ndID (grNodes g)) \<and> mset (OrderedOperations g) = mset rs \<and>
    (\<forall>k<length (grNodes g). \<forall>u. (u, ndID (grNodes g ! k)) \<in> causal rs \<longrightarrow> (\<exists>j<k. ndID (grNodes g ! j) = u)) \<and>
    (\<forall>m\<in>set (grNodes g). ndID m \<noteq> [] \<longrightarrow>
       set (ndChildren m) = {record_id r |r. r \<in> set rs \<and> invParentID (orInvocation r) = ndID m \<and> record_id r \<noteq> ndID m} \<and>
       set (ndDependents m) = {record_id r |r. r \<in> set rs \<and> ndID m \<in> set (invDependencies (orInvocation r)) \<and> record_id r \<noteq> ndID m})"
proof (rule BuildInvocationGraph_Inr [OF assms(1)], fold rs_def)
  let ?o = "reference_order rootID rs" and ?node = "reference_node rs (reference_order rootID rs)"
  assume d: "distinct (map record_id rs)" and len: "length ?o = length (node_ids rootID rs)"
    and nodes: "grNodes g = map ?node ?o" and ops: "grOperations g = List.map_filter ndRecord (grNodes g)"
  obtain inb where p: "placing (causal rs) (set (node_ids rootID rs)) [] inb ?o"
    using reference_placed(1) [of rootID records] d unfolding rs_def by blast
  then have "distinct ?o" "set ?o \<subseteq> set (node_ids rootID rs)" "\<And>k. k < length ?o \<Longrightarrow> preds (causal rs) (?o ! k) \<subseteq> set (take k ?o)"
    by (simp_all add: placing_def)
  moreover from this have "set ?o = set (node_ids rootID rs)"
    using len by (metis List.finite_set card_subset_eq distinct_card distinct_node_ids)
  ultimately have o: "distinct ?o" "set ?o = set (node_ids rootID rs)" "\<And>k. k < length ?o \<Longrightarrow> preds (causal rs) (?o ! k) \<subseteq> set (take k ?o)"
    by blast+
  have ids: "record_id r \<in> set ?o" "record_id r \<noteq> []" if "r \<in> set rs" for r
    using that o(2) by (auto simp: set_node_ids rs_def kept_def)
  have names: "map ndID (grNodes g) = ?o" by (simp add: nodes comp_def)
  have "OrderedOperations g = List.map_filter (\<lambda>i. ndRecord (base_node rs i)) ?o"
    by (simp add: OrderedOperations_def ops nodes List.map_filter_def filter_map comp_def)
  then have "mset (OrderedOperations g) = mset rs" using map_filter_records [OF d o(1)] ids(1) by auto
  moreover have "\<exists>j<k. ndID (grNodes g ! j) = u" if "k < length (grNodes g)" "(u, ndID (grNodes g ! k)) \<in> causal rs" for k u
  proof -
    have "u \<in> set (take k ?o)" using that o(3) [of k] by (auto simp: nodes preds_def)
    then obtain j where "j < k" "j < length ?o" "?o ! j = u" by (auto simp: in_set_conv_nth)
    then show ?thesis by (auto simp: nodes)
  qed
  moreover have "set (ndChildren m) = {record_id r |r. r \<in> set rs \<and> invParentID (orInvocation r) = ndID m \<and> record_id r \<noteq> ndID m}" (is ?C)
      "set (ndDependents m) = {record_id r |r. r \<in> set rs \<and> ndID m \<in> set (invDependencies (orInvocation r)) \<and> record_id r \<noteq> ndID m}" (is ?D)
    if m: "m \<in> set (grNodes g)" "ndID m \<noteq> []" for m
  proof -
    obtain i where i: "m = ?node i" "i \<noteq> []" using m by (auto simp: nodes)
    have key: "c \<in> set ?o \<and> c \<noteq> i \<and> c \<noteq> [] \<and> P (base_node rs c) \<longleftrightarrow> (\<exists>r. c = record_id r \<and> r \<in> set rs \<and> P (record_node r) \<and> record_id r \<noteq> i)"
      if P: "P (base_node rs c) \<Longrightarrow> c \<in> record_id ` set rs" for P c
    proof
      assume c: "c \<in> set ?o \<and> c \<noteq> i \<and> c \<noteq> [] \<and> P (base_node rs c)"
      then obtain r where "r \<in> set rs" "c = record_id r" using P by blast
      then show "\<exists>r. c = record_id r \<and> r \<in> set rs \<and> P (record_node r) \<and> record_id r \<noteq> i" using c base_node_recorded [OF d] by auto
    qed (use ids base_node_recorded [OF d] in auto)
    have *: "c \<in> record_id ` set rs" if "ndParentID (base_node rs c) = i \<or> i \<in> set (ndDependencies (base_node rs c))" for c
      using base_node_refers [of i rs c] i(2) that by blast
    show ?C unfolding i(1) using key [of "\<lambda>n. ndParentID n = i"] * i(2) by (auto simp: reference_node_def)
    show ?D unfolding i(1) using key [of "\<lambda>n. i \<in> set (ndDependencies n)"] * i(2) by (auto simp: reference_node_def)
  qed
  ultimately show ?thesis using o(1) unfolding names by blast
qed

text \<open>
  C11: Building a graph always returns. It yields a graph just if the root has a valid name, no two
  records have the same invocation and the parents and dependencies have no cycle.
\<close>

theorem BuildInvocationGraph_succeeds_iff:
  "BuildInvocationGraph rootID records \<noteq> None \<and>
   ((\<exists>g. BuildInvocationGraph rootID records = Some (Inr g)) \<longleftrightarrow>
      ValidateResourceName ''invocation root'' rootID = None \<and> distinct (map record_id (kept rootID records)) \<and>
      acyclic (causal (kept rootID records)))"
proof (cases "distinct (map record_id (kept rootID records))")
  case False
  then show ?thesis unfolding BuildInvocationGraph_reference by (auto split: option.split)
next
  case True
  let ?rs = "kept rootID records"
  obtain inb where p: "placing (causal ?rs) (set (node_ids rootID ?rs)) [] inb (reference_order rootID ?rs)"
    using reference_placed(1) [OF True] by blast
  have "length (reference_order rootID ?rs) = length (node_ids rootID ?rs) \<longleftrightarrow> acyclic (causal ?rs)"
    using placing_done_iff [OF p reference_placed(2) [OF True] _ reference_placed(3) [OF True]]
    by (simp add: distinct_card [OF distinct_node_ids])
  then show ?thesis using True unfolding BuildInvocationGraph_reference
    by (auto simp: reference_graph_def Let_def split: option.split)
qed

lemma reference_perm:
  assumes "mset rs = mset qs" "distinct (map record_id rs)"
  shows "reference_graph rootID rs = reference_graph rootID qs"
proof -
  have set: "set rs = set qs" and d: "distinct (map record_id qs)"
    using mset_eq_setD [OF assms(1)] assms by (simp_all add: mset_eq_imp_distinct_iff [of "map record_id rs" "map record_id qs"])
  have base: "base_node qs = base_node rs"
  proof
    fix i
    show "base_node qs i = base_node rs i"
      using base_node_recorded [OF d] base_node_recorded [OF assms(2)] base_node_unrecorded [of i rs] base_node_unrecorded [of i qs] set
      by (cases "i \<in> record_id ` set rs") auto
  qed
  have ids: "mset (node_ids rootID rs) = mset (node_ids rootID qs)"
    by (subst set_eq_iff_mset_eq_distinct [symmetric]) (auto simp: set_node_ids refers_def set)
  then have len: "length (node_ids rootID rs) = length (node_ids rootID qs)" by (rule mset_eq_length)
  have "reference_order rootID rs = reference_order rootID qs" unfolding reference_order_def base len
    by (rule least_first_cong [OF comparator_ids _ ids]) (auto dest: compareInvocationGraphNodes_0)
  moreover have "reference_node qs = reference_node rs" unfolding reference_node_def [abs_def] base by (rule refl)
  ultimately show ?thesis unfolding reference_graph_def len by simp
qed

text \<open>The graph does not depend on the order in which the store lists the records.\<close>

theorem BuildInvocationGraph_order_independent:
  assumes "mset records = mset records'"
  shows "BuildInvocationGraph rootID records = BuildInvocationGraph rootID records'"
proof -
  have m: "mset (kept rootID records) = mset (kept rootID records')" using assms by (simp add: kept_def mset_filter)
  then have "distinct (map record_id (kept rootID records)) \<longleftrightarrow> distinct (map record_id (kept rootID records'))"
    by (intro mset_eq_imp_distinct_iff) simp
  then show ?thesis unfolding BuildInvocationGraph_reference using reference_perm [OF m, of rootID] by (auto split: option.split)
qed

section \<open>Examples\<close>

definition demo_step :: "string \<Rightarrow> string \<Rightarrow> string list \<Rightarrow> u32 \<Rightarrow> op_record" where
  "demo_step i parent deps ordinal =
     \<lparr>orOperation = \<lparr>opID = ''op-'' @ i, opIdempotencyKey = i, opState = OperationPending, opRevision = 1, opOutput = [],
        opError = [], opSubmittedAt = 5, opUpdatedAt = 5\<rparr>,
      orKind = OperationKindTool, orResource = ''r'', orResourceRevision = ''1'', orInput = ''{}'',
      orInvocation = no_invocation\<lparr>invID := i, invRootID := ''root'', invParentID := parent, invDependencies := deps, invOrdinal := ordinal\<rparr>,
      orExecution = None\<rparr>"

text \<open>A join that depends on two calls, and one more below a node whose record is gone.\<close>

definition demo_steps :: "op_record list" where
  "demo_steps = [demo_step ''join'' ''root'' [''b'', ''a''] 0, demo_step ''a'' ''root'' [] 2, demo_step ''b'' ''root'' [] 1, demo_step ''c'' ''gone'' [] 0]"

lemma demo_steps_graph:
  "map_option (\<lambda>r. case r of Inl _ \<Rightarrow> [] | Inr g \<Rightarrow> map (\<lambda>n. (ndID n, ndChildren n, ndDependents n)) (grNodes g)) (BuildInvocationGraph ''root'' demo_steps) =
     Some [(''root'', [''b'', ''a'', ''join''], []), (''gone'', [''c''], []), (''c'', [], []), (''b'', [], [''join'']), (''a'', [], [''join'']), (''join'', [], [])]"
  by code_simp

theorem BuildInvocationGraph_ordered_witness:
  "\<exists>g. BuildInvocationGraph ''root'' demo_steps = Some (Inr g) \<and> distinct (map ndID (grNodes g)) \<and>
     mset (OrderedOperations g) = mset demo_steps \<and> map ndID (grNodes g) = [''root'', ''gone'', ''c'', ''b'', ''a'', ''join'']"
proof -
  obtain g where g: "BuildInvocationGraph ''root'' demo_steps = Some (Inr g)"
    and ids: "map (\<lambda>n. (ndID n, ndChildren n, ndDependents n)) (grNodes g) =
      [(''root'', [''b'', ''a'', ''join''], []), (''gone'', [''c''], []), (''c'', [], []), (''b'', [], [''join'']), (''a'', [], [''join'']), (''join'', [], [])]"
    using demo_steps_graph by (cases "the (BuildInvocationGraph ''root'' demo_steps)") auto
  have "map ndID (grNodes g) = map fst (map (\<lambda>n. (ndID n, ndChildren n, ndDependents n)) (grNodes g))" by simp
  also have "\<dots> = [''root'', ''gone'', ''c'', ''b'', ''a'', ''join'']" unfolding ids by simp
  finally have "map ndID (grNodes g) = [''root'', ''gone'', ''c'', ''b'', ''a'', ''join'']" .
  moreover have "kept ''root'' demo_steps = demo_steps" by code_simp
  ultimately show ?thesis using g BuildInvocationGraph_ordered [OF g] by metis
qed

theorem BuildInvocationGraph_order_independent_witness:
  "BuildInvocationGraph ''root'' (rev demo_steps) = BuildInvocationGraph ''root'' demo_steps"
  by (rule BuildInvocationGraph_order_independent) simp

end
