(* ===== verification/Operation_Worker.thy ===== *)
theory Operation_Worker
  imports Operation_Store
begin

text \<open>
  The operation worker (\<open>internal/operationworker\<close>) on the store of \<open>Operation_Store\<close>: claim an
  operation, keep the lease alive while the executor runs, and complete, release or give up.
  The calls of other workers and clients fall between the worker's own: they are lists of
  calls in the environment of a run. The executor is an argument: the text of its error or its
  output for a record. Logging has no effect on the state and is left out; a context is the
  error it reports at the time of a call.
\<close>

section \<open>Targets\<close>

record op_target =
  otKind :: OperationKind
  otResource :: string
  otResourceRevision :: string

record op_request =
  rqIdempotencyKey :: string
  rqInput :: json
  rqInvocation :: invocation

definition op_target_Record :: "op_target \<Rightarrow> op_request \<Rightarrow> op_record" where
  "op_target_Record target request =
     \<lparr>orOperation = \<lparr>opID = [], opIdempotencyKey = rqIdempotencyKey request, opState = OperationStateOther [],
        opRevision = 0, opOutput = [], opError = [], opSubmittedAt = 0, opUpdatedAt = 0\<rparr>,
      orKind = otKind target, orResource = otResource target, orResourceRevision = otResourceRevision target,
      orInput = rqInput request, orInvocation = rqInvocation request, orExecution = None\<rparr>"

definition op_target_ValidateTarget :: "op_target \<Rightarrow> op_record \<Rightarrow> error option" where
  "op_target_ValidateTarget target r =
     reject_if (orKind r \<noteq> otKind target \<or> orResource r \<noteq> otResource target)
       (Errorf ''operation %q belongs to %s %q, not %s %q'')"

definition op_target_Validate :: "op_target \<Rightarrow> op_record \<Rightarrow> error option" where
  "op_target_Validate target r =
     and_then (op_target_ValidateTarget target r)
       (reject_if (orResourceRevision r \<noteq> [] \<and> otResourceRevision target \<noteq> [] \<and>
            orResourceRevision r \<noteq> otResourceRevision target)
          (Errorf ''operation %q resource revision %s does not match current revision %s''))"

section \<open>Mutations without a lease\<close>

text \<open>
  A turn of the loop of \<open>mutateNonTerminalOperation\<close>: what others call before the read and
  between the read and the mutation, with the contexts and the clock of the two calls. The
  loop goes on while the mutation conflicts; \<open>None\<close> when the turns are used up.
\<close>

record op_turn =
  utBeforeGet :: "op_call list"
  utGetCtx :: ctx
  utBeforeMutate :: "op_call list"
  utMutateCtx :: ctx
  utWall :: gotime

type_synonym op_mutation = "op_turn \<Rightarrow> op_record \<Rightarrow> op_store \<Rightarrow> op_store \<times> (op_record \<times> bool) result"

fun mutateNonTerminalOperation ::
  "op_turn list \<Rightarrow> string \<Rightarrow> op_mutation \<Rightarrow> op_store \<Rightarrow> (op_store \<times> (op_record \<times> bool) result) option" where
  "mutateNonTerminalOperation [] i mutate s = None"
| "mutateNonTerminalOperation (t # ts) i mutate s =
     (let s = run_calls os_step (utBeforeGet t) s in
      case os_Get (utGetCtx t) i s of
        Inl e \<Rightarrow> Some (s, Inl e)
      | Inr r \<Rightarrow>
          if op_Terminal (orOperation r) then Some (s, Inr (r, False))
          else case mutate t r (run_calls os_step (utBeforeMutate t) s) of
                 (s, Inl e) \<Rightarrow>
                   if errors_is e ErrOperationConflict then mutateNonTerminalOperation ts i mutate s
                   else Some (s, Inl e)
               | (s, Inr x) \<Rightarrow> Some (s, Inr x))"

definition cancel_mutation :: "string \<Rightarrow> (op_record \<Rightarrow> error option) \<Rightarrow> op_mutation" where
  "cancel_mutation i validate t r s =
     (case validate r of
        Some e \<Rightarrow> (s, Inl e)
      | None \<Rightarrow>
          (case os_Cancel (utMutateCtx t) (utWall t) i (opRevision (orOperation r)) s of
             (s, Inl e) \<Rightarrow> (s, Inl e)
           | (s, Inr cancelled) \<Rightarrow> (s, Inr (cancelled, True))))"

definition requestCancel ::
  "op_turn list \<Rightarrow> string \<Rightarrow> (op_record \<Rightarrow> error option) \<Rightarrow> op_store \<Rightarrow> (op_store \<times> (op_record \<times> bool) result) option" where
  "requestCancel ts i validate = mutateNonTerminalOperation ts i (cancel_mutation i validate)"

text \<open>\<open>text\<close> is \<open>Error()\<close> of an error.\<close>

definition fail_mutation :: "(error \<Rightarrow> string) \<Rightarrow> string \<Rightarrow> (op_record \<Rightarrow> error option) \<Rightarrow> op_mutation" where
  "fail_mutation text i validate t r s =
     (case validate r of
        None \<Rightarrow> (s, Inr (r, False))
      | Some invalid \<Rightarrow>
          (case os_Fail (utMutateCtx t) (utWall t) i (opRevision (orOperation r)) (text invalid) s of
             (s, Inl e) \<Rightarrow> (s, Inl e)
           | (s, Inr failed) \<Rightarrow> (s, Inr (failed, True))))"

definition FailInvalid ::
  "(error \<Rightarrow> string) \<Rightarrow> op_turn list \<Rightarrow> string \<Rightarrow> (op_record \<Rightarrow> error option) \<Rightarrow> op_store \<Rightarrow> (op_store \<times> (op_record \<times> bool) result) option" where
  "FailInvalid text ts i validate = mutateNonTerminalOperation ts i (fail_mutation text i validate)"

section \<open>Recovery\<close>

record recovery_candidate =
  rcOperationID :: string
  rcDelay :: duration

definition RecoveryCandidateFromRecord :: "gotime \<Rightarrow> op_record \<Rightarrow> gotime \<Rightarrow> recovery_candidate option" where
  "RecoveryCandidateFromRecord wall r now =
     (if op_Terminal (orOperation r) then None
      else let now = (if now = 0 then wall else now) in
        Some \<lparr>rcOperationID = opID (orOperation r),
          rcDelay = (case orExecution r of
              Some l \<Rightarrow> if now < leaseExpiresAt l then leaseExpiresAt l - now else 0
            | None \<Rightarrow> 0)\<rparr>)"

fun recovery_candidates :: "gotime \<Rightarrow> gotime \<Rightarrow> op_record list \<Rightarrow> recovery_candidate list result" where
  "recovery_candidates wall now [] = Inr []"
| "recovery_candidates wall now (r # rs) =
     (case RecoveryCandidateFromRecord wall r now of
        None \<Rightarrow> Inl (Wrapf ErrOperationConflict ''%w: operation %s returned by non-terminal index is terminal'')
      | Some c \<Rightarrow> bind_result (recovery_candidates wall now rs) (\<lambda>cs. Inr (c # cs)))"

definition ListRecoveryCandidates :: "ctx \<Rightarrow> gotime \<Rightarrow> gotime \<Rightarrow> op_store \<Rightarrow> recovery_candidate list result" where
  "ListRecoveryCandidates ctx wall now s =
     (case os_ListNonTerminal ctx s of
        Inl e \<Rightarrow> Inl (Nestf ''list non-terminal operations: %w'' e)
      | Inr records \<Rightarrow> recovery_candidates wall now records)"

section \<open>The runner\<close>

record op_runner =
  runOwner :: string
  runLease :: duration

text \<open>
  A tick of the heartbeat: what others call before it, the clock and time of the renewal, the
  context during the renewal and, when it failed, after it.
\<close>

record op_beat =
  btOthers :: "op_call list"
  btCtx :: ctx
  btWall :: gotime
  btNow :: gotime
  btAfter :: ctx

fun renewLease :: "op_runner \<Rightarrow> string \<Rightarrow> string \<Rightarrow> op_beat list \<Rightarrow> op_store \<Rightarrow> op_store \<times> error option" where
  "renewLease runner i token [] s = (s, None)"
| "renewLease runner i token (b # bs) s =
     (case os_Renew (btCtx b) (btWall b) i token (btNow b) (runLease runner) (run_calls os_step (btOthers b) s) of
        (s, Inr _) \<Rightarrow> renewLease runner i token bs s
      | (s, Inl e) \<Rightarrow> if btAfter b \<noteq> None then (s, None) else (s, Some e))"

text \<open>
  The environment of one run: the contexts at the claim, after a failed validation, after the
  execution and for the finalization (which is detached and bounded), the fresh token, clocks,
  the ticks while the executor runs, and what others call after the last tick.
\<close>

record op_env =
  veClaimCtx :: ctx
  veToken :: string
  veClaimWall :: gotime
  veNow :: gotime
  veInvalidCtx :: ctx
  veBeats :: "op_beat list"
  veOthers :: "op_call list"
  veExecCtx :: ctx
  veFinalCtx :: ctx
  veFinalWall :: gotime

text \<open>How a run ends, with the answer of the store where it makes a last call.\<close>

datatype op_end =
    NotClaimed error
  | NoLease
  | LeaseLost error
  | Released "op_record result"
  | FailedInvalid "op_record result"
  | Completed "op_record result"

definition releaseClaimed :: "op_env \<Rightarrow> string \<Rightarrow> string \<Rightarrow> op_store \<Rightarrow> op_store \<times> op_end" where
  "releaseClaimed env i token s =
     (case os_Release (veFinalCtx env) (veFinalWall env) i token s of (s, r) \<Rightarrow> (s, Released r))"

definition failClaimedInvalid :: "op_env \<Rightarrow> string \<Rightarrow> string \<Rightarrow> string \<Rightarrow> op_store \<Rightarrow> op_store \<times> op_end" where
  "failClaimedInvalid env i token text s =
     (case os_Complete (veFinalCtx env) (veFinalWall env) i token OperationFailed [] text s of (s, r) \<Rightarrow> (s, FailedInvalid r))"

text \<open>The state, output and error text that the executor's outcome is stored as.\<close>

fun outcome_fields :: "string + json \<Rightarrow> OperationState \<times> json \<times> string" where
  "outcome_fields (Inr output) = (OperationSucceeded, output, [])"
| "outcome_fields (Inl text) = (OperationFailed, [], text)"

definition runner_Run ::
  "op_runner \<Rightarrow> op_env \<Rightarrow> string \<Rightarrow> (op_record \<Rightarrow> error option) \<Rightarrow> (error \<Rightarrow> string) \<Rightarrow> (op_record \<Rightarrow> string + json) \<Rightarrow>
   op_store \<Rightarrow> op_store \<times> op_end" where
  "runner_Run runner env i validate text execute s =
     (case os_Claim (veClaimCtx env) (veToken env) (veClaimWall env) i (runOwner runner) (veNow env) (runLease runner) s of
        (s, Inl e) \<Rightarrow> (s, NotClaimed e)
      | (s, Inr r) \<Rightarrow>
          (case orExecution r of
             None \<Rightarrow> (s, NoLease)
           | Some l \<Rightarrow>
               (case validate r of
                  Some e \<Rightarrow>
                    let s = run_calls os_step (veOthers env) s in
                    if veInvalidCtx env \<noteq> None then releaseClaimed env i (leaseToken l) s
                    else failClaimedInvalid env i (leaseToken l) (text e) s
                | None \<Rightarrow>
                    (case renewLease runner i (leaseToken l) (veBeats env) s of
                       (s, Some e) \<Rightarrow> (s, LeaseLost e)
                     | (s, None) \<Rightarrow>
                         let s = run_calls os_step (veOthers env) s in
                         if veExecCtx env \<noteq> None then releaseClaimed env i (leaseToken l) s
                         else case outcome_fields (execute r) of
                           (st, output, err) \<Rightarrow>
                             (case os_Complete (veFinalCtx env) (veFinalWall env) i (leaseToken l) st output err s of
                                (s, result) \<Rightarrow> (s, Completed result))))))"

section \<open>The calls of others\<close>

text \<open>Calls that neither present nor draw a given token, and purge nothing.\<close>

fun foreign :: "string \<Rightarrow> op_call \<Rightarrow> bool" where
  "foreign t (CClaim ctx newID wall i owner now ttl) \<longleftrightarrow> newID \<noteq> t"
| "foreign t (CRenew ctx wall i token now ttl) \<longleftrightarrow> token \<noteq> t"
| "foreign t (CComplete ctx wall i token st out err) \<longleftrightarrow> token \<noteq> t"
| "foreign t (CRelease ctx wall i token) \<longleftrightarrow> token \<noteq> t"
| "foreign t (CPurge ctx before) \<longleftrightarrow> False"
| "foreign t _ \<longleftrightarrow> True"

text \<open>Calls on other operations.\<close>

fun elsewhere :: "string \<Rightarrow> op_call \<Rightarrow> bool" where
  "elsewhere i (CCancel ctx wall j rv) \<longleftrightarrow> j \<noteq> i"
| "elsewhere i (CFail ctx wall j rv err) \<longleftrightarrow> j \<noteq> i"
| "elsewhere i (CClaim ctx newID wall j owner now ttl) \<longleftrightarrow> j \<noteq> i"
| "elsewhere i (CRenew ctx wall j token now ttl) \<longleftrightarrow> j \<noteq> i"
| "elsewhere i (CComplete ctx wall j token st out err) \<longleftrightarrow> j \<noteq> i"
| "elsewhere i (CRelease ctx wall j token) \<longleftrightarrow> j \<noteq> i"
| "elsewhere i (CPurge ctx before) \<longleftrightarrow> False"
| "elsewhere i (CSubmit ctx newID wall r) \<longleftrightarrow> True"

fun own_renewal :: "string \<Rightarrow> string \<Rightarrow> op_call \<Rightarrow> bool" where
  "own_renewal i t (CRenew ctx wall j token now ttl) \<longleftrightarrow> j = i \<and> token = t"
| "own_renewal i t _ \<longleftrightarrow> False"

abbreviation op_lookup :: "op_store \<Rightarrow> string \<Rightarrow> op_record option" where
  "op_lookup s \<equiv> map_of (osOperations s)"

lemma foreign_event:
  assumes "foreign t c" "os_event c s = Some (i, e)"
  shows "op_grants e \<noteq> Some t" "op_credential e \<noteq> Some t"
  using assms by (cases "(c, s)" rule: os_event.cases; auto)+

lemma foreign_keeps: "foreign t c \<Longrightarrow> \<not> os_forgets c"
  by (cases c) auto

lemma own_renewal_event:
  assumes "own_renewal i t c" "os_event c s = Some (j, e)"
  shows "j = i \<and> op_grants e = None"
  using assms by (cases "(c, s)" rule: os_event.cases) auto

lemma own_renewal_keeps: "own_renewal i t c \<Longrightarrow> \<not> os_forgets c"
  by (cases c) auto

lemma elsewhere_event: "elsewhere i c \<Longrightarrow> os_event c s \<noteq> Some (i, e)"
  by (cases "(c, s)" rule: os_event.cases) auto

lemma elsewhere_run:
  assumes "os_inv s" "list_all (elsewhere i) cs" "op_lookup s i = Some r"
  shows "op_lookup (run_calls os_step cs s) i = Some r"
  using assms
proof (induction cs arbitrary: s)
  case (Cons c cs)
  have "\<not> os_forgets c" using Cons.prems(2) by (cases c) auto
  then have "op_lookup (os_step c s) i = Some r"
    using op_records.untouched [OF Cons.prems(1,3)] elsewhere_event [of i c s] Cons.prems(2) by simp
  then show ?case using Cons op_records.inv_step by simp
qed simp

text \<open>Of the events that do not present the holder's token, a successful one ends the lease.\<close>

lemma other_success_ends_lease:
  assumes "op_apply e r = Inr r'" "op_grants e \<noteq> Some t" "op_credential e \<noteq> Some t" "op_holder r = Some t"
  shows "op_holder r' \<noteq> Some t"
proof (cases "op_credential e")
  case None
  then show ?thesis using assms by (cases e) (auto simp: op_defs op_holder_def result_simps split: if_splits option.splits)
next
  case (Some u)
  then show ?thesis using op_leases.fenced [OF assms(1) Some] assms(3,4) by simp
qed

lemma undisturbed_lease:
  assumes "os_inv s" "op_lookup s i = Some r" "list_all (\<lambda>c. foreign t c \<or> own_renewal i t c) cs"
    and "op_lookup (run_calls os_step cs s) i = Some r'" "op_holder r' = Some t" "cs = as @ c # bs" "foreign t c"
  shows "op_lookup (run_calls os_step (as @ [c]) s) i = op_lookup (run_calls os_step as s) i"
proof -
  let ?s1 = "run_calls os_step as s"
  have keeps: "list_all (\<lambda>c. \<not> os_forgets c) ds" if "set ds \<subseteq> set cs" for ds
    using assms(3) that foreign_keeps own_renewal_keeps unfolding list_all_iff by blast
  have grants: "op_grants e \<noteq> Some t" if ev: "e \<in> set (events_at os_event os_step i ds x)" and sub: "set ds \<subseteq> set cs" for e ds x
  proof -
    obtain d y where d: "d \<in> set ds" "os_event d y = Some (i, e)" using events_at_in [OF ev] by blast
    then have "foreign t d \<or> own_renewal i t d" using assms(3) sub unfolding list_all_iff by blast
    then show ?thesis using foreign_event(1) own_renewal_event d(2) by fastforce
  qed
  obtain q where q: "op_lookup ?s1 i = Some q" using op_records.run_projects [OF assms(1,2) keeps] assms(6) by auto
  have inv: "os_inv ?s1" by (rule op_records.run_inv [OF assms(1)])
  have later: "op_lookup (run_calls os_step cs s) i = Some (run_events op_apply (events_at os_event os_step i (c # bs) ?s1) q)"
  proof -
    have "set (c # bs) \<subseteq> set cs" using assms(6) by auto
    from op_records.run_projects [OF inv q keeps [OF this]] show ?thesis using assms(6) by (simp only: run_calls_append)
  qed
  then have r': "r' = run_events op_apply (events_at os_event os_step i (c # bs) ?s1) q" using assms(4) by simp
  show ?thesis
  proof (cases "\<exists>e. os_event c ?s1 = Some (i, e)")
    case False
    then have "op_lookup (os_step c ?s1) i = Some q" using op_records.untouched [OF inv q foreign_keeps [OF assms(7)]] by blast
    then show ?thesis using q by (simp add: run_calls_append)
  next
    case True
    then obtain e where e: "os_event c ?s1 = Some (i, e)" by blast
    have "\<exists>err. op_apply e q = Inl err"
    proof (rule ccontr)
      assume "\<not> (\<exists>err. op_apply e q = Inl err)"
      then obtain q' where q': "op_apply e q = Inr q'" by (cases "op_apply e q") auto
      have "op_holder q = Some t"
        using op_leases.never_regains [of q t "events_at os_event os_step i (c # bs) ?s1"] grants r' assms(5,6) by fastforce
      then have "op_holder q' \<noteq> Some t" using other_success_ends_lease [OF q' foreign_event [OF assms(7) e]] by blast
      then have "op_holder (run_events op_apply (events_at os_event os_step i bs (os_step c ?s1)) q') \<noteq> Some t"
        using op_leases.never_regains grants assms(6) by fastforce
      then show False using r' assms(5) e q' by simp
    qed
    then have "op_lookup (os_step c ?s1) i = Some q" using op_records.targeted [OF inv e q] by auto
    then show ?thesis using q by (simp add: run_calls_append)
  qed
qed

section \<open>A run of the worker\<close>

text \<open>The calls between the claim and the last call of a run, as they were made.\<close>

fun heartbeat_calls :: "op_runner \<Rightarrow> string \<Rightarrow> string \<Rightarrow> op_beat list \<Rightarrow> op_store \<Rightarrow> op_call list" where
  "heartbeat_calls runner i token [] s = []"
| "heartbeat_calls runner i token (b # bs) s =
     btOthers b @ CRenew (btCtx b) (btWall b) i token (btNow b) (runLease runner) #
     (case os_Renew (btCtx b) (btWall b) i token (btNow b) (runLease runner) (run_calls os_step (btOthers b) s) of
        (s, Inr _) \<Rightarrow> heartbeat_calls runner i token bs s
      | (s, Inl e) \<Rightarrow> [])"

definition calls_between :: "op_runner \<Rightarrow> op_env \<Rightarrow> string \<Rightarrow> op_store \<Rightarrow> op_call list" where
  "calls_between runner env i s = heartbeat_calls runner i (veToken env) (veBeats env) s @ veOthers env"

definition others :: "op_env \<Rightarrow> op_call list" where
  "others env = concat (map btOthers (veBeats env)) @ veOthers env"

lemma renewLease_run: "fst (renewLease runner i token bs s) = run_calls os_step (heartbeat_calls runner i token bs s) s"
proof (induction bs arbitrary: s)
  case (Cons b bs)
  let ?s = "run_calls os_step (btOthers b) s"
  let ?r = "os_Renew (btCtx b) (btWall b) i token (btNow b) (runLease runner) ?s"
  have "os_step (CRenew (btCtx b) (btWall b) i token (btNow b) (runLease runner)) ?s = fst ?r" by simp
  then show ?case using Cons.IH [of "fst ?r"]
    by (cases ?r; cases "snd ?r") (auto simp: run_calls_append)
qed simp

lemma heartbeat_calls_kind:
  assumes "list_all (foreign t) (concat (map btOthers bs))"
  shows "list_all (\<lambda>c. foreign t c \<or> own_renewal i t c) (heartbeat_calls runner i t bs s)"
  using assms
proof (induction bs arbitrary: s)
  case (Cons b bs)
  then show ?case by (auto simp: list_all_iff split: prod.split sum.split)
qed simp

lemma os_Claim_Inr:
  assumes "os_Claim ctx t wall i owner now ttl s = (s', Inr r)"
  shows "ctx = None" "op_lookup s' i = Some r" "s' = os_step (CClaim ctx t wall i owner now ttl) s"
    "orExecution r = Some \<lparr>leaseOwner = owner, leaseToken = t, leaseExpiresAt = NormalizeMutationTime wall now + ttl\<rparr>"
    "opState (orOperation r) = OperationRunning" "0 < ttl"
proof -
  show "s' = os_step (CClaim ctx t wall i owner now ttl) s" using assms by simp
  show "ctx = None" using assms by (cases ctx) (auto simp: os_Claim_def)
  then have *: "ValidateClaim owner ttl = None" using assms by (auto simp: os_Claim_def split: option.splits)
  then show "0 < ttl" by (simp add: ValidateClaim_def ValidateLeaseDuration_def result_simps)
  obtain r0 where "op_Claim t wall r0 owner (NormalizeMutationTime wall now) ttl = Inr r" "op_lookup s' i = Some r"
    using assms * \<open>ctx = None\<close> unfolding os_Claim_def Let_def os_mutate_def
    by (auto split: option.splits sum.splits)
  then show "op_lookup s' i = Some r" "opState (orOperation r) = OperationRunning"
    "orExecution r = Some \<lparr>leaseOwner = owner, leaseToken = t, leaseExpiresAt = NormalizeMutationTime wall now + ttl\<rparr>"
    by (auto simp: op_Claim_def Let_def NormalizeMutationTime_def result_simps split: if_splits option.splits)
qed

lemma os_Complete_Inr:
  assumes "os_Complete ctx wall i t st out err s = (s', Inr r')"
  obtains r where "ctx = None" "op_lookup s i = Some r" "op_lookup s' i = Some r'" "op_holder r = Some t" "op_Terminal (orOperation r')"
    "opState (orOperation r') = st" "opOutput (orOperation r') = out" "opError (orOperation r') = err" "orInput r' = orInput r"
    "opID (orOperation r') = opID (orOperation r)" "s' = os_step (CComplete ctx wall i t st out err) s"
proof -
  have ctx: "ctx = None" using assms by (cases ctx) (auto simp: os_Complete_def)
  obtain r where r: "op_lookup s i = Some r" "op_Complete wall r t st out err wall = Inr r'" "op_lookup s' i = Some r'"
    using assms ctx unfolding os_Complete_def os_mutate_def by (auto split: option.splits sum.splits)
  have "op_holder r = Some t" using op_leases.fenced [of "EvComplete wall wall t st out err" r r' t] r(2) by simp
  moreover have "ValidateCompletionState st = None" using r(2) by (auto simp: op_Complete_def result_simps)
  then have "OperationState_Terminal st" by (auto simp: ValidateCompletionState_def result_simps OperationState_Terminal_def)
  moreover have "r' = r\<lparr>orOperation := (orOperation r)\<lparr>opState := st, opRevision := opRevision (orOperation r) + 1,
      opOutput := out, opError := err, opUpdatedAt := NormalizeMutationTime wall wall\<rparr>, orExecution := None\<rparr>"
    using r(2) by (auto simp: op_Complete_def Let_def result_simps split: if_splits)
  then have "opState (orOperation r') = st" "opOutput (orOperation r') = out" "opError (orOperation r') = err" "orInput r' = orInput r"
      "opID (orOperation r') = opID (orOperation r)" by simp_all
  moreover have "s' = os_step (CComplete ctx wall i t st out err) s" using assms by simp
  ultimately show ?thesis using that [OF ctx r(1,3)] by (simp add: op_Terminal_def)
qed

lemma terminal_final:
  assumes "os_inv s" "op_lookup s i = Some r" "op_Terminal (orOperation r)" "list_all (\<lambda>c. \<not> os_forgets c) cs"
  shows "op_lookup (run_calls os_step cs s) i = Some r"
  using op_records.run_projects [OF assms(1,2,4)] op_terminals.run_terminal [OF assms(3)] by simp

text \<open>
  C7: A result that a worker stores is the outcome of its own execution of the claimed operation,
  and nobody interfered: in every interleaving with other workers and clients, between its
  claim and its completion no call of anyone else changed the operation, be it a cancellation,
  a failure or a takeover. And the result is final: no later call changes it. The token of
  the claim is fresh: the others neither draw nor present it.
\<close>

theorem runner_result_exclusive:
  assumes "os_inv s" "list_all (foreign (veToken env)) (others env)"
    and "runner_Run runner env i validate render execute s = (s', Completed (Inr r'))"
  shows "\<exists>s1 r. os_Claim (veClaimCtx env) (veToken env) (veClaimWall env) i (runOwner runner) (veNow env) (runLease runner) s = (s1, Inr r) \<and>
    validate r = None \<and> outcome_fields (execute r) = (opState (orOperation r'), opOutput (orOperation r'), opError (orOperation r')) \<and>
    (\<forall>as c bs. calls_between runner env i s1 = as @ c # bs \<longrightarrow> foreign (veToken env) c \<longrightarrow>
       op_lookup (run_calls os_step (as @ [c]) s1) i = op_lookup (run_calls os_step as s1) i) \<and>
    (\<forall>cs. list_all (\<lambda>c. \<not> os_forgets c) cs \<longrightarrow> op_lookup (run_calls os_step cs s') i = Some r')"
proof -
  obtain s1 r l s2 where claim: "os_Claim (veClaimCtx env) (veToken env) (veClaimWall env) i (runOwner runner) (veNow env) (runLease runner) s = (s1, Inr r)"
    and l: "orExecution r = Some l" and v: "validate r = None" and beat: "renewLease runner i (leaseToken l) (veBeats env) s1 = (s2, None)"
    and run: "(case outcome_fields (execute r) of (st, output, err) \<Rightarrow>
        case os_Complete (veFinalCtx env) (veFinalWall env) i (leaseToken l) st output err (run_calls os_step (veOthers env) s2) of
          (s, result) \<Rightarrow> (s, Completed result)) = (s', Completed (Inr r'))"
    using assms(3) unfolding runner_Run_def Let_def releaseClaimed_def failClaimedInvalid_def
    by (auto split: prod.splits sum.splits option.splits if_splits)
  note c = os_Claim_Inr [OF claim]
  have t: "leaseToken l = veToken env" using l c(4) by auto
  obtain st out err where o: "outcome_fields (execute r) = (st, out, err)" by (cases "outcome_fields (execute r)")
  let ?s3 = "run_calls os_step (veOthers env) s2" and ?cs = "calls_between runner env i s1"
  have s3: "?s3 = run_calls os_step ?cs s1"
    using renewLease_run [of runner i "veToken env" "veBeats env" s1] beat unfolding t by (simp add: calls_between_def run_calls_append)
  have fin: "os_Complete (veFinalCtx env) (veFinalWall env) i (veToken env) st out err ?s3 = (s', Inr r')"
    using run unfolding o t by (auto split: prod.splits)
  obtain q where q: "op_lookup ?s3 i = Some q" "op_holder q = Some (veToken env)" "op_lookup s' i = Some r'" "op_Terminal (orOperation r')"
      "opState (orOperation r') = st" "opOutput (orOperation r') = out" "opError (orOperation r') = err"
      "s' = os_step (CComplete (veFinalCtx env) (veFinalWall env) i (veToken env) st out err) ?s3"
    by (rule os_Complete_Inr [OF fin])
  have inv1: "os_inv s1" unfolding c(3) by (rule op_records.inv_step [OF assms(1)])
  have inv': "os_inv s'" unfolding q(8) s3 by (intro op_records.inv_step op_records.run_inv inv1)
  have kinds: "list_all (\<lambda>c. foreign (veToken env) c \<or> own_renewal i (veToken env) c) ?cs"
    using heartbeat_calls_kind [of "veToken env" "veBeats env" i runner s1] assms(2) unfolding calls_between_def others_def
    by (auto simp: list_all_iff)
  have "op_lookup (run_calls os_step (as @ [c]) s1) i = op_lookup (run_calls os_step as s1) i"
    if "?cs = as @ c # bs" "foreign (veToken env) c" for as c bs
    using undisturbed_lease [OF inv1 c(2) kinds _ q(2) that] q(1) s3 by simp
  moreover have "op_lookup (run_calls os_step cs s') i = Some r'" if "list_all (\<lambda>c. \<not> os_forgets c) cs" for cs
    by (rule terminal_final [OF inv' q(3,4) that])
  moreover have "outcome_fields (execute r) = (opState (orOperation r'), opOutput (orOperation r'), opError (orOperation r'))"
    using o q by simp
  ultimately show ?thesis using claim v by blast
qed

section \<open>A worker that is left alone\<close>

text \<open>The renewals come in time: each before the lease it extends runs out, and so does the end.\<close>

fun in_time :: "duration \<Rightarrow> gotime \<Rightarrow> op_beat list \<Rightarrow> gotime \<Rightarrow> bool" where
  "in_time lease expiry [] final \<longleftrightarrow> final < expiry"
| "in_time lease expiry (b # bs) final \<longleftrightarrow>
     btCtx b = None \<and> btNow b \<noteq> 0 \<and> btNow b < expiry \<and> in_time lease (btNow b + lease) bs final"

text \<open>An outcome that an operation can have: valid JSON, or an error with a text.\<close>

fun storable :: "string + json \<Rightarrow> bool" where
  "storable (Inr output) \<longleftrightarrow> json_Valid output"
| "storable (Inl text) \<longleftrightarrow> text \<noteq> []"

definition holds :: "string \<Rightarrow> gotime \<Rightarrow> op_record \<Rightarrow> bool" where
  "holds t expiry r \<longleftrightarrow> opState (orOperation r) = OperationRunning \<and> (\<exists>l. orExecution r = Some l \<and> leaseToken l = t \<and> leaseExpiresAt l = expiry)"

lemma os_Renew_held:
  assumes "op_lookup s i = Some r" "holds t expiry r" "now \<noteq> 0" "now < expiry" "0 < ttl"
  obtains r' where "os_Renew None wall i t now ttl s = (s\<lparr>osOperations := AList.update i r' (osOperations s)\<rparr>, Inr r')"
    "holds t (now + ttl) r'" "opID (orOperation r') = opID (orOperation r)" "opIdempotencyKey (orOperation r') = opIdempotencyKey (orOperation r)"
    "opRevision (orOperation r') = opRevision (orOperation r) + 1"
proof -
  let ?r' = "r\<lparr>orExecution := map_option (leaseExpiresAt_update (\<lambda>_. now + ttl)) (orExecution r),
      orOperation := (orOperation r)\<lparr>opRevision := opRevision (orOperation r) + 1, opUpdatedAt := now\<rparr>\<rparr>"
  have "op_Renew wall r t now ttl = Inr ?r'"
    using assms by (auto simp: op_Renew_def lease_current_def holds_def NormalizeMutationTime_def ValidateLeaseDuration_def result_simps reject_if_def)
  moreover have "ValidateLeaseDuration ttl = None" using assms(5) by (simp add: ValidateLeaseDuration_def result_simps)
  ultimately have "os_Renew None wall i t now ttl s = (s\<lparr>osOperations := AList.update i ?r' (osOperations s)\<rparr>, Inr ?r')"
    using assms(1,3) by (simp add: os_Renew_def os_mutate_def NormalizeMutationTime_def)
  moreover have "holds t (now + ttl) ?r'" using assms(2) by (auto simp: holds_def)
  ultimately show ?thesis using that [of ?r'] by simp
qed

lemma renewLease_held:
  assumes "os_inv s" "op_lookup s i = Some r" "holds t expiry r" "0 < runLease runner"
    and "list_all (elsewhere i) (concat (map btOthers bs))" "in_time (runLease runner) expiry bs final"
  shows "\<exists>s' r' expiry'. renewLease runner i t bs s = (s', None) \<and> os_inv s' \<and> op_lookup s' i = Some r' \<and> holds t expiry' r' \<and> final < expiry' \<and>
    opID (orOperation r') = opID (orOperation r) \<and> opIdempotencyKey (orOperation r') = opIdempotencyKey (orOperation r) \<and>
    opRevision (orOperation r') = opRevision (orOperation r) + of_nat (length bs)"
  using assms(1-3,5,6)
proof (induction bs arbitrary: s r expiry)
  case (Cons b bs)
  let ?s = "run_calls os_step (btOthers b) s"
  have s: "op_lookup ?s i = Some r" using elsewhere_run [OF Cons.prems(1) _ Cons.prems(2)] Cons.prems(4) by simp
  have t: "btCtx b = None" "btNow b \<noteq> 0" "btNow b < expiry" "in_time (runLease runner) (btNow b + runLease runner) bs final"
    using Cons.prems(5) by simp_all
  obtain r1 where r1: "os_Renew None (btWall b) i t (btNow b) (runLease runner) ?s = (?s\<lparr>osOperations := AList.update i r1 (osOperations ?s)\<rparr>, Inr r1)"
      "holds t (btNow b + runLease runner) r1" "opID (orOperation r1) = opID (orOperation r)"
      "opIdempotencyKey (orOperation r1) = opIdempotencyKey (orOperation r)" "opRevision (orOperation r1) = opRevision (orOperation r) + 1"
    by (rule os_Renew_held [OF s Cons.prems(3) t(2,3) assms(4)])
  let ?s1 = "?s\<lparr>osOperations := AList.update i r1 (osOperations ?s)\<rparr>"
  have "?s1 = os_step (CRenew None (btWall b) i t (btNow b) (runLease runner)) ?s" using r1(1) by simp
  then have "os_inv ?s1" using op_records.inv_step op_records.run_inv [OF Cons.prems(1)] by metis
  moreover have "op_lookup ?s1 i = Some r1" by simp
  moreover have "list_all (elsewhere i) (concat (map btOthers bs))" using Cons.prems(4) by simp
  ultimately obtain s' r' expiry' where "renewLease runner i t bs ?s1 = (s', None)" "os_inv s'" "op_lookup s' i = Some r'" "holds t expiry' r'"
      "final < expiry'" "opID (orOperation r') = opID (orOperation r1)" "opIdempotencyKey (orOperation r') = opIdempotencyKey (orOperation r1)"
      "opRevision (orOperation r') = opRevision (orOperation r1) + of_nat (length bs)"
    using Cons.IH [of ?s1 r1 "btNow b + runLease runner"] r1(2) t(4) by blast
  then show ?case using r1(1,3-5) t(1) by (auto simp: algebra_simps)
qed auto

lemma storable_validates:
  assumes "outcome_fields res = (st, out, err)" "opID oper \<noteq> []" "opIdempotencyKey oper \<noteq> []" "v \<noteq> 0"
  shows "ValidateOperation (oper\<lparr>opState := st, opRevision := v, opOutput := out, opError := err, opUpdatedAt := now\<rparr>) = None \<longleftrightarrow> storable res"
    and "ValidateCompletionState st = None"
  using assms by (cases res; auto simp: ValidateOperation_def ValidateCompletionState_def result_simps)+

text \<open>
  C8: A worker that claimed an operation, keeps its lease alive and is not interfered with
  stores the outcome of the execution, a result or a failure. The one exception is an outcome
  that an operation cannot have, output that is not JSON or an error without a text: then the
  store rejects the completion, and the operation stays claimed and unfinished until the lease
  runs out, to be executed again.
\<close>

theorem runner_completes:
  assumes "os_inv s" "os_Claim (veClaimCtx env) (veToken env) (veClaimWall env) i (runOwner runner) (veNow env) (runLease runner) s = (s1, Inr r)"
    and "ValidateLoadedRecord r = None" "unat (opRevision (orOperation r)) + length (veBeats env) + 1 < 2 ^ 64"
    and "validate r = None" "list_all (elsewhere i) (others env)"
    and "in_time (runLease runner) (NormalizeMutationTime (veClaimWall env) (veNow env) + runLease runner) (veBeats env) (veFinalWall env)"
    and "veExecCtx env = None" "veFinalCtx env = None"
  shows "\<exists>s' result r'. runner_Run runner env i validate render execute s = (s', Completed result) \<and> op_lookup s' i = Some r' \<and>
    (if storable (execute r)
     then result = Inr r' \<and> (opState (orOperation r'), opOutput (orOperation r'), opError (orOperation r')) = outcome_fields (execute r)
     else (\<exists>e. result = Inl e) \<and> opState (orOperation r') = OperationRunning \<and> op_holder r' = Some (veToken env) \<and> veFinalWall env < op_expiry r')"
proof -
  note c = os_Claim_Inr [OF assms(2)]
  have inv1: "os_inv s1" unfolding c(3) by (rule op_records.inv_step [OF assms(1)])
  have h: "holds (veToken env) (NormalizeMutationTime (veClaimWall env) (veNow env) + runLease runner) r" using c(4,5) by (simp add: holds_def)
  obtain s2 q expiry where beat: "renewLease runner i (veToken env) (veBeats env) s1 = (s2, None)" "os_inv s2" "op_lookup s2 i = Some q"
      "holds (veToken env) expiry q" "veFinalWall env < expiry" "opID (orOperation q) = opID (orOperation r)"
      "opIdempotencyKey (orOperation q) = opIdempotencyKey (orOperation r)" "opRevision (orOperation q) = opRevision (orOperation r) + of_nat (length (veBeats env))"
    using renewLease_held [OF inv1 c(2) h c(6) _ assms(7)] assms(6) by (auto simp: others_def)
  let ?s3 = "run_calls os_step (veOthers env) s2"
  have s3: "op_lookup ?s3 i = Some q" using elsewhere_run [OF beat(2) _ beat(3)] assms(6) by (simp add: others_def)
  obtain st out err where o: "outcome_fields (execute r) = (st, out, err)" by (cases "outcome_fields (execute r)")
  let ?now = "NormalizeMutationTime (veFinalWall env) (veFinalWall env)"
  let ?done = "q\<lparr>orOperation := (orOperation q)\<lparr>opState := st, opRevision := opRevision (orOperation q) + 1, opOutput := out,
      opError := err, opUpdatedAt := ?now\<rparr>, orExecution := None\<rparr>"
  have rev: "opRevision (orOperation q) + 1 \<noteq> 0"
  proof -
    have "unat (opRevision (orOperation q) + 1) = unat (opRevision (orOperation r)) + length (veBeats env) + 1"
      using assms(4) unfolding beat(8) by (simp add: unat_word_ariths unat_of_nat)
    then show ?thesis by (metis add_is_0 one_neq_zero unat_0)
  qed
  have ids: "opID (orOperation q) \<noteq> []" "opIdempotencyKey (orOperation q) \<noteq> []"
    using assms(3) beat(6,7) by (auto simp: ValidateLoadedRecord_def ValidateOperation_def result_simps)
  have valid: "ValidateOperation (orOperation ?done) = None \<longleftrightarrow> storable (execute r)"
    using storable_validates(1) [OF o ids rev] by simp
  have live: "lease_current q (veToken env) ?now" using beat(4,5) by (auto simp: holds_def lease_current_def NormalizeMutationTime_def)
  have complete: "op_Complete (veFinalWall env) q (veToken env) st out err (veFinalWall env) = check (ValidateOperation (orOperation ?done)) (Inr ?done)"
    using live storable_validates(2) [OF o ids rev] by (simp add: op_Complete_def Let_def)
  have "runner_Run runner env i validate render execute s = (case os_Complete None (veFinalWall env) i (veToken env) st out err ?s3 of (s, result) \<Rightarrow> (s, Completed result))"
    using assms(2,5,8,9) c(4) beat(1) o by (simp add: runner_Run_def)
  moreover have "os_Complete None (veFinalWall env) i (veToken env) st out err ?s3 =
      (case ValidateOperation (orOperation ?done) of
         None \<Rightarrow> (?s3\<lparr>osOperations := AList.update i ?done (osOperations ?s3)\<rparr>, Inr ?done) | Some e \<Rightarrow> (?s3, Inl e))"
    using storable_validates(2) [OF o ids rev] s3 complete
    by (simp add: os_Complete_def os_mutate_def split: option.split)
  moreover have "op_holder q = Some (veToken env)" "op_expiry q = expiry" "opState (orOperation q) = OperationRunning"
    using beat(4) by (auto simp: holds_def op_holder_def op_expiry_def)
  ultimately show ?thesis using valid s3 beat(5) o
    by (cases "ValidateOperation (orOperation ?done)") auto
qed

section \<open>Cancelling\<close>

lemma os_Cancel_result:
  assumes "os_Cancel ctx wall i rv s = (s', res)"
  shows "s' = os_step (CCancel ctx wall i rv) s"
    and "res = Inr r \<Longrightarrow> op_lookup s' i = Some r \<and> opState (orOperation r) = OperationCancelled"
proof -
  show "s' = os_step (CCancel ctx wall i rv) s" using assms by simp
  assume res: "res = Inr r"
  have ctx: "ctx = None" using assms res by (cases ctx) (auto simp: os_Cancel_def)
  then obtain q where "op_Cancel wall q rv wall = Inr r" "op_lookup s' i = Some r"
    using assms res by (auto simp: os_Cancel_def os_mutate_def split: option.splits sum.splits)
  then show "op_lookup s' i = Some r \<and> opState (orOperation r) = OperationCancelled"
    by (auto simp: op_Cancel_def result_simps)
qed

text \<open>What the loop returns is an operation that was finished already, or the answer of a mutation.\<close>

lemma mutateNonTerminalOperation_result:
  assumes "os_inv s" "\<And>t r s s' res. os_inv s \<Longrightarrow> mutate t r s = (s', res) \<Longrightarrow> os_inv s'"
    and "mutateNonTerminalOperation ts i mutate s = Some (s', Inr (r, changed))"
  shows "os_inv s' \<and> (op_lookup s' i = Some r \<and> op_Terminal (orOperation r) \<and> \<not> changed \<or>
    (\<exists>t r0 s2. os_inv s2 \<and> \<not> op_Terminal (orOperation r0) \<and> mutate t r0 s2 = (s', Inr (r, changed))))"
  using assms(1,3)
proof (induction ts arbitrary: s)
  case (Cons t ts)
  let ?s1 = "run_calls os_step (utBeforeGet t) s"
  let ?s2 = "run_calls os_step (utBeforeMutate t) ?s1"
  have inv: "os_inv ?s1" "os_inv ?s2" using Cons.prems(1) by (simp_all add: op_records.run_inv)
  obtain r0 where r0: "os_Get (utGetCtx t) i ?s1 = Inr r0" using Cons.prems(2)
    by (cases "os_Get (utGetCtx t) i ?s1") (auto simp: Let_def)
  have look: "op_lookup ?s1 i = Some r0" using r0 by (cases "utGetCtx t") (auto simp: os_Get_def split: option.splits)
  obtain s3 res where m: "mutate t r0 ?s2 = (s3, res)" by fastforce
  have inv3: "os_inv s3" by (rule assms(2) [OF inv(2) m])
  show ?case
  proof (cases "op_Terminal (orOperation r0)")
    case True
    then show ?thesis using Cons.prems(2) r0 inv look by (auto simp: Let_def)
  next
    case False
    then consider "mutateNonTerminalOperation ts i mutate s3 = Some (s', Inr (r, changed))" | "res = Inr (r, changed)" "s3 = s'"
      using Cons.prems(2) r0 m by (auto simp: Let_def split: sum.splits if_splits)
    then show ?thesis
    proof cases
      case 1
      then show ?thesis using Cons.IH [OF inv3] by blast
    next
      case 2
      then show ?thesis using m inv3 inv(2) False by blast
    qed
  qed
qed simp

lemma requestCancel_result:
  assumes "os_inv s" "requestCancel ts i validate s = Some (s', Inr (r, requested))"
  shows "os_inv s' \<and> op_lookup s' i = Some r \<and> op_Terminal (orOperation r) \<and> (requested \<longrightarrow> opState (orOperation r) = OperationCancelled)"
proof -
  have cancel: "s' = s \<or> (\<exists>ctx wall rv. os_Cancel ctx wall i rv s = (s', map_sum id fst res))" if "cancel_mutation i validate t r s = (s', res)" for t r s s' res
    using that by (auto simp: cancel_mutation_def split: option.splits prod.splits sum.splits)
  have inv: "os_inv s'" if "os_inv s" "cancel_mutation i validate t r s = (s', res)" for t r s s' res
    using cancel [OF that(2)] os_Cancel_result(1) op_records.inv_step [OF that(1)] that(1) by metis
  have "op_lookup s' i = Some r \<and> opState (orOperation r) = OperationCancelled" if "cancel_mutation i validate t r0 s2 = (s', Inr (r, requested))" for t r0 s2
    using that os_Cancel_result(2) by (fastforce simp: cancel_mutation_def split: option.splits prod.splits sum.splits)
  moreover have "os_inv s' \<and> (op_lookup s' i = Some r \<and> op_Terminal (orOperation r) \<and> \<not> requested \<or>
    (\<exists>t r0 s2. os_inv s2 \<and> \<not> op_Terminal (orOperation r0) \<and> cancel_mutation i validate t r0 s2 = (s', Inr (r, requested))))"
    by (rule mutateNonTerminalOperation_result [OF assms(1) _ assms(2) [unfolded requestCancel_def]]) (rule inv)
  ultimately show ?thesis by (auto simp: op_Terminal_def OperationState_Terminal_def)
qed

text \<open>A cancellation at the current revision of an unfinished operation does not conflict.\<close>

lemma os_Cancel_current:
  assumes "op_lookup s i = Some r" "\<not> op_Terminal (orOperation r)"
  shows "\<not> (\<exists>s' e. os_Cancel None wall i (opRevision (orOperation r)) s = (s', Inl e) \<and> errors_is e ErrOperationConflict)"
proof -
  have plain: "\<not> errors_is e ErrOperationConflict" if "ValidateOperation oper = Some e" for oper e
    using that by (auto simp: ValidateOperation_def reject_if_def split: if_splits OperationState.splits)
  have "\<not> errors_is e ErrOperationConflict" if "ValidateOperationTransition (opState (orOperation r)) OperationCancelled = Some e" for e
    using that by (cases "opState (orOperation r)") (auto simp: reject_if_def split: if_splits)
  then show ?thesis using assms plain
    by (auto simp: os_Cancel_def os_mutate_def op_Cancel_def op_Transition_def ValidateExpectedRevision_def reject_if_def Let_def check_Inl
        split: option.splits sum.splits if_splits)
qed

lemma requestCancel_returns:
  assumes "os_inv s" "\<And>r e. validate r = Some e \<Longrightarrow> \<not> errors_is e ErrOperationConflict"
    and "t \<in> set ts" "list_all (elsewhere i) (utBeforeMutate t)" "utMutateCtx t = None"
  shows "requestCancel ts i validate s \<noteq> None"
  using assms(1,3)
proof (induction ts arbitrary: s)
  case (Cons u ts)
  let ?s1 = "run_calls os_step (utBeforeGet u) s"
  let ?s2 = "run_calls os_step (utBeforeMutate u) ?s1"
  have inv: "os_inv ?s1" "os_inv ?s2" using Cons.prems(1) by (simp_all add: op_records.run_inv)
  show ?case
  proof (cases "\<exists>r0. os_Get (utGetCtx u) i ?s1 = Inr r0 \<and> \<not> op_Terminal (orOperation r0) \<and> validate r0 = None")
    case False
    then show ?thesis using assms(2)
      by (auto simp: requestCancel_def cancel_mutation_def Let_def split: sum.split option.split)
  next
    case True
    then obtain r0 where r0: "os_Get (utGetCtx u) i ?s1 = Inr r0" "\<not> op_Terminal (orOperation r0)" "validate r0 = None" by blast
    obtain s3 res where c: "os_Cancel (utMutateCtx u) (utWall u) i (opRevision (orOperation r0)) ?s2 = (s3, res)" by fastforce
    have inv3: "os_inv s3" unfolding os_Cancel_result(1) [OF c] by (rule op_records.inv_step [OF inv(2)])
    have step: "requestCancel (u # ts) i validate s = (case res of
        Inl e \<Rightarrow> if errors_is e ErrOperationConflict then requestCancel ts i validate s3 else Some (s3, Inl e)
      | Inr cancelled \<Rightarrow> Some (s3, Inr (cancelled, True)))"
      using r0 c by (simp add: requestCancel_def cancel_mutation_def Let_def split: sum.split)
    show ?thesis
    proof (cases "u = t")
      case True
      have "op_lookup ?s1 i = Some r0" using r0(1) by (cases "utGetCtx u") (auto simp: os_Get_def split: option.splits)
      then have "op_lookup ?s2 i = Some r0" using elsewhere_run [OF inv(1)] assms(4) True by blast
      then have "\<not> (\<exists>e. res = Inl e \<and> errors_is e ErrOperationConflict)"
        using os_Cancel_current [of ?s2 i r0 "utWall u"] r0(2) c True assms(5) by auto
      then show ?thesis unfolding step by (auto split: sum.split)
    next
      case False
      then show ?thesis unfolding step using Cons.IH [OF inv3] Cons.prems(2) by (auto split: sum.split)
    qed
  qed
qed simp

text \<open>
  C9: Cancelling settles an operation. The loop of a cancellation returns as soon as one of its
  turns is not disturbed between its read and its write. When it reports a record, that record
  stands in the store, is terminal, was cancelled by this call when the call says so, and stays
  as it is, so that a worker which still executes the operation cannot store a result.
\<close>

theorem requestCancel_settles:
  assumes "os_inv s" "\<And>r e. validate r = Some e \<Longrightarrow> \<not> errors_is e ErrOperationConflict"
    and "\<exists>t\<in>set ts. list_all (elsewhere i) (utBeforeMutate t) \<and> utMutateCtx t = None"
  shows "\<exists>s' res. requestCancel ts i validate s = Some (s', res) \<and>
    (\<forall>r requested. res = Inr (r, requested) \<longrightarrow> op_Terminal (orOperation r) \<and> (requested \<longrightarrow> opState (orOperation r) = OperationCancelled) \<and>
      (\<forall>cs. list_all (\<lambda>c. \<not> os_forgets c) cs \<longrightarrow> op_lookup (run_calls os_step cs s') i = Some r))"
proof -
  obtain s' res where r: "requestCancel ts i validate s = Some (s', res)"
    using requestCancel_returns [OF assms(1,2)] assms(3) by fastforce
  moreover have "op_Terminal (orOperation q) \<and> (requested \<longrightarrow> opState (orOperation q) = OperationCancelled) \<and>
      (\<forall>cs. list_all (\<lambda>c. \<not> os_forgets c) cs \<longrightarrow> op_lookup (run_calls os_step cs s') i = Some q)" if "res = Inr (q, requested)" for q requested
  proof -
    have "os_inv s'" "op_lookup s' i = Some q" "op_Terminal (orOperation q)" "requested \<longrightarrow> opState (orOperation q) = OperationCancelled"
      using requestCancel_result [OF assms(1), of ts i validate s' q requested] r that by auto
    then show ?thesis using terminal_final by blast
  qed
  ultimately show ?thesis by blast
qed

text \<open>What \<open>FailInvalid\<close> reports as failed has failed with the text of the validation's error.\<close>

lemma FailInvalid_result:
  assumes "os_inv s" "FailInvalid render ts i validate s = Some (s', Inr (r, True))"
  shows "op_lookup s' i = Some r \<and> opState (orOperation r) = OperationFailed \<and> (\<exists>r0 e. validate r0 = Some e \<and> opError (orOperation r) = render e)"
proof -
  have inv: "os_inv s'" if "os_inv s" "fail_mutation render i validate t r s = (s', res)" for t r s s' res
  proof -
    have "s' = s \<or> (\<exists>ctx wall rv e. s' = os_step (CFail ctx wall i rv e) s)"
      using that(2) unfolding fail_mutation_def os_step.simps by (auto split: option.splits prod.splits sum.splits) (metis fst_conv)+
    then show ?thesis using op_records.inv_step [OF that(1)] that(1) by metis
  qed
  have "op_lookup s' i = Some r \<and> opState (orOperation r) = OperationFailed \<and> (\<exists>r0 e. validate r0 = Some e \<and> opError (orOperation r) = render e)"
    if m: "fail_mutation render i validate t r0 s2 = (s', Inr (r, True))" for t r0 s2
  proof -
    obtain e where e: "validate r0 = Some e" "os_Fail (utMutateCtx t) (utWall t) i (opRevision (orOperation r0)) (render e) s2 = (s', Inr r)"
      using m by (auto simp: fail_mutation_def split: option.splits prod.splits sum.splits)
    have "utMutateCtx t = None" using e(2) by (cases "utMutateCtx t") (auto simp: os_Fail_def)
    then obtain q where "op_Fail (utWall t) q (opRevision (orOperation r0)) (render e) (utWall t) = Inr r" "op_lookup s' i = Some r"
      using e(2) by (auto simp: os_Fail_def os_mutate_def split: option.splits sum.splits)
    then show ?thesis using e(1) by (auto simp: op_Fail_def result_simps)
  qed
  moreover have "os_inv s' \<and> (op_lookup s' i = Some r \<and> op_Terminal (orOperation r) \<and> \<not> True \<or>
    (\<exists>t r0 s2. os_inv s2 \<and> \<not> op_Terminal (orOperation r0) \<and> fail_mutation render i validate t r0 s2 = (s', Inr (r, True))))"
    by (rule mutateNonTerminalOperation_result [OF assms(1) _ assms(2) [unfolded FailInvalid_def]]) (rule inv)
  ultimately show ?thesis by blast
qed

section \<open>Recovery schedules\<close>

lemma recovery_candidates_map:
  assumes "\<forall>r\<in>set rs. \<not> op_Terminal (orOperation r)"
  shows "recovery_candidates wall now rs = Inr (map (\<lambda>r. the (RecoveryCandidateFromRecord wall r now)) rs)"
  using assms by (induction rs) (auto simp: RecoveryCandidateFromRecord_def Let_def)

lemma os_Claim_iff:
  assumes "op_lookup s i = Some r" "\<not> op_Terminal (orOperation r)" "ValidateClaim owner ttl = None" "now \<noteq> 0"
  shows "(\<exists>r'. snd (os_Claim None t wall i owner now ttl s) = Inr r') \<longleftrightarrow> (\<forall>l. orExecution r = Some l \<longrightarrow> leaseExpiresAt l \<le> now)"
  using assms by (auto simp: os_Claim_def os_mutate_def op_Claim_def NormalizeMutationTime_def Let_def split: option.split sum.splits)

text \<open>
  The recovery schedule is exact. It lists just the unfinished operations, and from the time
  at which it was made, an operation can be claimed as soon as its delay is over and no sooner.
\<close>

theorem recovery_schedule_exact:
  assumes "os_inv s" "now \<noteq> 0" "ValidateClaim owner ttl = None"
  shows "\<exists>cs. ListRecoveryCandidates None wall now s = Inr cs \<and>
    (\<forall>i. i \<in> rcOperationID ` set cs \<longleftrightarrow> (\<exists>r. op_lookup s i = Some r \<and> \<not> op_Terminal (orOperation r))) \<and>
    (\<forall>c\<in>set cs. 0 \<le> rcDelay c \<and> (\<forall>now'. now \<le> now' \<longrightarrow> now' \<noteq> 0 \<longrightarrow>
      ((\<exists>r'. snd (os_Claim None t wall' (rcOperationID c) owner now' ttl s) = Inr r') \<longleftrightarrow> now + rcDelay c \<le> now')))"
proof -
  let ?rs = "sortOperationRecords (filter (\<lambda>r. \<not> op_Terminal (orOperation r)) (map snd (osOperations s)))"
  let ?cand = "\<lambda>r. the (RecoveryCandidateFromRecord wall r now)"
  have wf: "gm_wf (osOperations s)" and key: "\<And>i r. op_lookup s i = Some r \<Longrightarrow> opID (orOperation r) = i"
    using assms(1) by (auto simp: os_inv_def op_index_def)
  have rs: "r \<in> set ?rs \<longleftrightarrow> op_lookup s (opID (orOperation r)) = Some r \<and> \<not> op_Terminal (orOperation r)" for r
    using gm_values_iff [OF wf, of r] key by (auto simp: sortOperationRecords_def)
  have cs: "ListRecoveryCandidates None wall now s = Inr (map ?cand ?rs)"
    using recovery_candidates_map [of ?rs wall now] rs by (simp add: ListRecoveryCandidates_def os_ListNonTerminal_def)
  have cand: "rcOperationID (?cand r) = opID (orOperation r)"
    "rcDelay (?cand r) = (case orExecution r of Some l \<Rightarrow> if now < leaseExpiresAt l then leaseExpiresAt l - now else 0 | None \<Rightarrow> 0)"
    if "r \<in> set ?rs" for r
    using that rs [of r] assms(2) by (simp_all add: RecoveryCandidateFromRecord_def Let_def)
  have "i \<in> rcOperationID ` set (map ?cand ?rs) \<longleftrightarrow> (\<exists>r. op_lookup s i = Some r \<and> \<not> op_Terminal (orOperation r))" for i
  proof -
    have "rcOperationID ` set (map ?cand ?rs) = (\<lambda>r. opID (orOperation r)) ` set ?rs"
      unfolding set_map image_image by (rule image_cong [OF refl cand(1)])
    then have "i \<in> rcOperationID ` set (map ?cand ?rs) \<longleftrightarrow> (\<exists>r\<in>set ?rs. opID (orOperation r) = i)" by auto
    also have "\<dots> \<longleftrightarrow> (\<exists>r. op_lookup s (opID (orOperation r)) = Some r \<and> \<not> op_Terminal (orOperation r) \<and> opID (orOperation r) = i)"
      unfolding Bex_def rs by blast
    also have "\<dots> \<longleftrightarrow> (\<exists>r. op_lookup s i = Some r \<and> \<not> op_Terminal (orOperation r))" using key by auto
    finally show ?thesis .
  qed
  moreover have "0 \<le> rcDelay (?cand r)" if "r \<in> set ?rs" for r using cand(2) [OF that] by (auto split: option.split)
  moreover have "(\<exists>r'. snd (os_Claim None t wall' (rcOperationID (?cand r)) owner now' ttl s) = Inr r') \<longleftrightarrow> now + rcDelay (?cand r) \<le> now'"
    if r: "r \<in> set ?rs" and "now \<le> now'" "now' \<noteq> 0" for r now'
    using os_Claim_iff [of s "opID (orOperation r)" r owner ttl now' t wall'] rs [of r] r assms(3) that(2,3)
    unfolding cand [OF r] by (auto split: option.split)
  ultimately show ?thesis using cs by (intro exI [of _ "map ?cand ?rs"]) auto
qed

section \<open>The host\<close>

text \<open>
  \<open>Host\<close> and \<open>Inflight\<close> of one process: the store, the operations with a cancellation handle,
  the operations that a goroutine of the host executes, and how many lifecycle reservations
  were handed over and released (\<open>onDone\<close>).
\<close>

record op_host =
  hoStore :: op_store
  hoInflight :: "string list"
  hoRunning :: "string list"
  hoReserved :: nat
  hoDone :: nat

definition NewHost :: "op_store \<Rightarrow> op_host" where
  "NewHost s = \<lparr>hoStore = s, hoInflight = [], hoRunning = [], hoReserved = 0, hoDone = 0\<rparr>"

text \<open>\<open>Inflight.Start\<close>: no slot when the operation is executing already.\<close>

definition inflight_Start :: "string \<Rightarrow> string list \<Rightarrow> string list option" where
  "inflight_Start i inflight = (if i \<in> set inflight then None else Some (i # inflight))"

definition StartReservedAsync :: "string \<Rightarrow> op_host \<Rightarrow> op_host" where
  "StartReservedAsync i h =
     (case inflight_Start i (hoInflight h) of
        None \<Rightarrow> h\<lparr>hoDone := hoDone h + 1\<rparr>
      | Some inflight \<Rightarrow> h\<lparr>hoInflight := inflight, hoRunning := i # hoRunning h\<rparr>)"

definition SubmitReserved :: "ctx \<Rightarrow> string \<Rightarrow> gotime \<Rightarrow> op_target \<Rightarrow> op_request \<Rightarrow> op_host \<Rightarrow> op_host \<times> operation result" where
  "SubmitReserved ctx newID wall target request h =
     (case os_Submit ctx newID wall (op_target_Record target request) (hoStore h) of
        (s, Inl e) \<Rightarrow> (h\<lparr>hoStore := s, hoDone := hoDone h + 1\<rparr>, Inl e)
      | (s, Inr (r, _)) \<Rightarrow>
          (if op_Terminal (orOperation r) then h\<lparr>hoStore := s, hoDone := hoDone h + 1\<rparr>
           else StartReservedAsync (opID (orOperation r)) (h\<lparr>hoStore := s\<rparr>), Inr (orOperation r)))"

text \<open>The end of a goroutine: the slot is given back, then the reservation.\<close>

definition host_finish :: "string \<Rightarrow> op_host \<Rightarrow> op_host" where
  "host_finish i h = h\<lparr>hoInflight := removeAll i (hoInflight h), hoRunning := remove1 i (hoRunning h), hoDone := hoDone h + 1\<rparr>"

text \<open>\<open>Host.Run\<close>: execute in the foreground, when the slot is free.\<close>

definition host_Run ::
  "op_runner \<Rightarrow> op_env \<Rightarrow> string \<Rightarrow> (op_record \<Rightarrow> error option) \<Rightarrow> (error \<Rightarrow> string) \<Rightarrow> (op_record \<Rightarrow> string + json) \<Rightarrow> op_host \<Rightarrow> op_host \<times> bool" where
  "host_Run runner env i validate text execute h =
     (case inflight_Start i (hoInflight h) of
        None \<Rightarrow> (h, False)
      | Some inflight \<Rightarrow>
          (case runner_Run runner env i validate text execute (hoStore h) of
             (s, _) \<Rightarrow> (h\<lparr>hoStore := s, hoInflight := removeAll i inflight\<rparr>, True)))"

text \<open>\<open>Host.Cancel\<close>; the flag says whether a local execution is told to stop.\<close>

definition host_Cancel ::
  "op_turn list \<Rightarrow> string \<Rightarrow> (op_record \<Rightarrow> error option) \<Rightarrow> op_host \<Rightarrow> (op_host \<times> op_record result \<times> bool) option" where
  "host_Cancel ts i validate h =
     (case requestCancel ts i validate (hoStore h) of
        None \<Rightarrow> None
      | Some (s, Inl e) \<Rightarrow> Some (h\<lparr>hoStore := s\<rparr>, Inl e, False)
      | Some (s, Inr (r, requested)) \<Rightarrow> Some (h\<lparr>hoStore := s\<rparr>, Inr r, requested \<and> i \<in> set (hoInflight h)))"

inductive host_step :: "op_host \<Rightarrow> op_host \<Rightarrow> bool" where
  submit: "SubmitReserved ctx newID wall target request (h\<lparr>hoReserved := hoReserved h + 1\<rparr>) = (h', r) \<Longrightarrow> host_step h h'"
| recover: "host_step h (StartReservedAsync i (h\<lparr>hoReserved := hoReserved h + 1\<rparr>))"
| finish: "i \<in> set (hoRunning h) \<Longrightarrow> host_step h (host_finish i h)"
| cancel: "host_Cancel ts i validate h = Some (h', r) \<Longrightarrow> host_step h h'"
| run: "host_step h (fst (host_Run runner env i validate text execute h))"
| call: "host_step h (h\<lparr>hoStore := os_step c (hoStore h)\<rparr>)"

definition host_ok :: "op_host \<Rightarrow> bool" where
  "host_ok h \<longleftrightarrow> distinct (hoRunning h) \<and> set (hoInflight h) = set (hoRunning h) \<and> hoReserved h = hoDone h + length (hoRunning h)"

lemma host_ok_store [simp]: "host_ok (h\<lparr>hoStore := s\<rparr>) \<longleftrightarrow> host_ok h"
  by (simp add: host_ok_def)

lemma StartReservedAsync_ok:
  assumes "host_ok h" "hoInflight h' = hoInflight h" "hoRunning h' = hoRunning h" "hoReserved h' = hoReserved h + 1" "hoDone h' = hoDone h"
  shows "host_ok (StartReservedAsync i h')"
  using assms by (auto simp: host_ok_def StartReservedAsync_def inflight_Start_def)

lemma host_step_ok:
  assumes "host_step h h'" "host_ok h"
  shows "host_ok h'"
  using assms
proof (induction rule: host_step.induct)
  case (submit ctx newID wall target request h h' r)
  let ?h = "h\<lparr>hoReserved := hoReserved h + 1\<rparr>"
  obtain s res where s: "os_Submit ctx newID wall (op_target_Record target request) (hoStore ?h) = (s, res)" by fastforce
  have "host_ok (StartReservedAsync i (?h\<lparr>hoStore := s\<rparr>))" for i
    by (rule StartReservedAsync_ok [OF submit.prems]) simp_all
  moreover have "host_ok (?h\<lparr>hoStore := s, hoDone := hoDone ?h + 1\<rparr>)" using submit.prems by (simp add: host_ok_def)
  ultimately show ?case using submit.hyps s unfolding SubmitReserved_def by (auto split: sum.splits if_splits)
next
  case (finish i h)
  moreover have "0 < length (hoRunning h)" using finish by (auto intro: length_pos_if_in_set)
  ultimately show ?case by (auto simp: host_ok_def host_finish_def length_remove1)
next
  case run
  then show ?case by (auto simp: host_ok_def host_Run_def inflight_Start_def split: prod.split)
qed (auto simp: StartReservedAsync_ok host_Cancel_def split: option.splits sum.splits prod.splits)

text \<open>
  In one process an operation is executed by at most one goroutine at a time, and every
  lifecycle reservation that was handed to the host is released exactly once: in every state
  that the host reaches, the reservations are those released and those of the goroutines that
  are still running.
\<close>

theorem host_reservations:
  assumes "host_step\<^sup>*\<^sup>* (NewHost s) h"
  shows "distinct (hoRunning h) \<and> set (hoInflight h) = set (hoRunning h) \<and> hoReserved h = hoDone h + length (hoRunning h)"
proof -
  from assms have "host_ok h"
  proof (induction rule: rtranclp_induct)
    case base
    show ?case by (simp add: host_ok_def NewHost_def)
  next
    case (step y z)
    then show ?case using host_step_ok by blast
  qed
  then show ?thesis by (simp add: host_ok_def)
qed

section \<open>Examples\<close>

definition runner_demo :: op_runner where
  "runner_demo = \<lparr>runOwner = ''w1'', runLease = 30\<rparr>"

text \<open>Someone else claims while the lease is live, in vain; a renewal; another client submits.\<close>

definition env_demo :: op_env where
  "env_demo = \<lparr>veClaimCtx = None, veToken = ''t1'', veClaimWall = 10, veNow = 10, veInvalidCtx = None,
     veBeats = [\<lparr>btOthers = [CClaim None ''t2'' 15 ''op1'' ''w2'' 15 30], btCtx = None, btWall = 20, btNow = 20, btAfter = None\<rparr>],
     veOthers = [CCancel None 25 ''op2'' 1], veExecCtx = None, veFinalCtx = None, veFinalWall = 30\<rparr>"

lemma run_demo:
  "(case runner_Run runner_demo env_demo ''op1'' (\<lambda>_. None) (\<lambda>_. ''e'') (\<lambda>_. Inr ''{}'') sample_store of
      (s, Completed (Inr r)) \<Rightarrow> Some (opState (orOperation r), opOutput (orOperation r))
    | _ \<Rightarrow> None) = Some (OperationSucceeded, ''{}'')"
  by code_simp

theorem runner_result_exclusive_witness:
  "\<exists>s' r'. runner_Run runner_demo env_demo ''op1'' (\<lambda>_. None) (\<lambda>_. ''e'') (\<lambda>_. Inr ''{}'') sample_store = (s', Completed (Inr r')) \<and>
     op_lookup (run_calls os_step [CCancel None 40 ''op1'' 4] s') ''op1'' = Some r' \<and> opState (orOperation r') = OperationSucceeded"
proof -
  obtain s' r' where r: "runner_Run runner_demo env_demo ''op1'' (\<lambda>_. None) (\<lambda>_. ''e'') (\<lambda>_. Inr ''{}'') sample_store = (s', Completed (Inr r'))"
    "opState (orOperation r') = OperationSucceeded"
    using run_demo by (auto split: prod.splits op_end.splits sum.splits)
  have "list_all (foreign (veToken env_demo)) (others env_demo)" by code_simp
  from runner_result_exclusive [OF sample_store_inv this r(1)]
  have "\<forall>cs. list_all (\<lambda>c. \<not> os_forgets c) cs \<longrightarrow> op_lookup (run_calls os_step cs s') ''op1'' = Some r'" by blast
  moreover have "list_all (\<lambda>c. \<not> os_forgets c) [CCancel None 40 ''op1'' 4]" by simp
  ultimately have "op_lookup (run_calls os_step [CCancel None 40 ''op1'' 4] s') ''op1'' = Some r'" by blast
  then show ?thesis using r by blast
qed

definition env_alone :: op_env where
  "env_alone = env_demo\<lparr>veBeats := [\<lparr>btOthers = [], btCtx = None, btWall = 20, btNow = 20, btAfter = None\<rparr>]\<rparr>"

theorem runner_completes_witness:
  "\<exists>s' e r'. runner_Run runner_demo env_alone ''op1'' (\<lambda>_. None) (\<lambda>_. ''e'') (\<lambda>_. Inr []) sample_store = (s', Completed (Inl e)) \<and>
     op_lookup s' ''op1'' = Some r' \<and> opState (orOperation r') = OperationRunning"
proof -
  let ?s1 = "sample_store\<lparr>osOperations := [(''op1'', sample_claimed)]\<rparr>"
  have claim: "os_Claim (veClaimCtx env_alone) (veToken env_alone) (veClaimWall env_alone) ''op1'' (runOwner runner_demo) (veNow env_alone) (runLease runner_demo) sample_store =
      (?s1, Inr sample_claimed)"
  proof -
    have "os_Claim None ''t1'' 10 ''op1'' ''w1'' 10 30 sample_store = os_Claim None ''t1'' 10 ''op1'' ''w1'' 0 30 sample_store"
      unfolding os_Claim_def NormalizeMutationTime_def by simp
    then show ?thesis using sample_store_claim by (simp add: env_alone_def env_demo_def runner_demo_def)
  qed
  have "ValidateLoadedRecord sample_claimed = None" by code_simp
  moreover have "unat (opRevision (orOperation sample_claimed)) + length (veBeats env_alone) + 1 < 2 ^ 64"
    by (simp add: sample_claimed_def env_alone_def)
  moreover have "list_all (elsewhere ''op1'') (others env_alone)" by code_simp
  moreover have "in_time (runLease runner_demo) (NormalizeMutationTime (veClaimWall env_alone) (veNow env_alone) + runLease runner_demo) (veBeats env_alone) (veFinalWall env_alone)"
    by code_simp
  moreover have "veExecCtx env_alone = None" "veFinalCtx env_alone = None" by (simp_all add: env_alone_def env_demo_def)
  moreover have "\<not> storable (Inr [])" by code_simp
  ultimately show ?thesis
    using runner_completes [OF sample_store_inv claim, where validate = "\<lambda>_. None" and render = "\<lambda>_. ''e''" and execute = "\<lambda>_. Inr []"] by auto
qed

definition turn_demo :: op_turn where
  "turn_demo = \<lparr>utBeforeGet = [], utGetCtx = None, utBeforeMutate = [CClaim None ''t1'' 10 ''op1'' ''w1'' 10 30], utMutateCtx = None, utWall = 12\<rparr>"

theorem requestCancel_settles_witness:
  "\<exists>s' r. requestCancel [turn_demo, turn_demo\<lparr>utBeforeMutate := []\<rparr>] ''op1'' (\<lambda>_. None) sample_store = Some (s', Inr (r, True)) \<and>
     op_lookup (run_calls os_step [CComplete None 20 ''op1'' ''t1'' OperationSucceeded ''{}'' []] s') ''op1'' = Some r \<and>
     opState (orOperation r) = OperationCancelled"
proof -
  let ?ts = "[turn_demo, turn_demo\<lparr>utBeforeMutate := []\<rparr>]"
  have "(case requestCancel ?ts ''op1'' (\<lambda>_. None) sample_store of Some (_, Inr (r, q)) \<Rightarrow> Some q | _ \<Rightarrow> None) = Some True" by code_simp
  then obtain s' r where r: "requestCancel ?ts ''op1'' (\<lambda>_. None) sample_store = Some (s', Inr (r, True))"
    by (auto split: option.splits sum.splits)
  have "\<exists>t\<in>set ?ts. list_all (elsewhere ''op1'') (utBeforeMutate t) \<and> utMutateCtx t = None" by (simp add: turn_demo_def)
  from requestCancel_settles [OF sample_store_inv _ this, of "\<lambda>_. None"] r
  have "opState (orOperation r) = OperationCancelled \<and> (\<forall>cs. list_all (\<lambda>c. \<not> os_forgets c) cs \<longrightarrow> op_lookup (run_calls os_step cs s') ''op1'' = Some r)"
    by auto
  moreover have "list_all (\<lambda>c. \<not> os_forgets c) [CComplete None 20 ''op1'' ''t1'' OperationSucceeded ''{}'' []]" by simp
  ultimately show ?thesis using r by blast
qed

theorem recovery_schedule_exact_witness:
  "\<exists>cs. ListRecoveryCandidates None 10 10 sample_store = Inr cs \<and> ''op1'' \<in> rcOperationID ` set cs"
proof -
  have "ValidateClaim ''w1'' 30 = None" using sample_claim by (simp add: op_Claim_def result_simps)
  from recovery_schedule_exact [OF sample_store_inv _ this, of 10]
  obtain cs where "ListRecoveryCandidates None 10 10 sample_store = Inr cs"
      "\<forall>i. i \<in> rcOperationID ` set cs \<longleftrightarrow> (\<exists>r. op_lookup sample_store i = Some r \<and> \<not> op_Terminal (orOperation r))"
    by fastforce
  moreover have "op_lookup sample_store ''op1'' = Some sample_operation" "\<not> op_Terminal (orOperation sample_operation)" by code_simp+
  ultimately show ?thesis by blast
qed

theorem host_reservations_witness:
  "hoReserved (StartReservedAsync ''op1'' ((NewHost sample_store)\<lparr>hoReserved := 1\<rparr>)) =
   hoDone (StartReservedAsync ''op1'' ((NewHost sample_store)\<lparr>hoReserved := 1\<rparr>)) + length [''op1'']"
proof -
  have "host_step (NewHost sample_store) (StartReservedAsync ''op1'' ((NewHost sample_store)\<lparr>hoReserved := 1\<rparr>))"
    using host_step.recover [of "NewHost sample_store" "''op1''"] by (simp add: NewHost_def)
  then have "host_step\<^sup>*\<^sup>* (NewHost sample_store) (StartReservedAsync ''op1'' ((NewHost sample_store)\<lparr>hoReserved := 1\<rparr>))" by (rule r_into_rtranclp)
  from host_reservations [OF this] show ?thesis
    by (simp add: StartReservedAsync_def inflight_Start_def NewHost_def)
qed

end
