(* ===== verification/Registry.thy ===== *)
theory Registry
  imports Resource_Names Stores Go_Base64
begin

text \<open>
  The plugin directory: the values and checks of \<open>registry/directory.go\<close>, the state and
  its operations in \<open>registry/state.go\<close>, and the in-memory directory of
  \<open>registry/memory.go\<close>. The clock, a generated lease ID and a generated token (or the
  error of the random source) are arguments. The parser of \<open>net/url\<close> is an argument as
  well: nothing is assumed of it.
\<close>

section \<open>Values\<close>

record instance_key =
  ikNamespace :: string
  ikName :: string
  ikInstanceID :: string

record registration =
  rgNamespace :: string
  rgName :: string
  rgInstanceID :: string
  rgURI :: string
  rgManifest :: manifest
  rgLabels :: "string gomap"

definition registration_Key :: "registration \<Rightarrow> instance_key" where
  "registration_Key r = \<lparr>ikNamespace = rgNamespace r, ikName = rgName r, ikInstanceID = rgInstanceID r\<rparr>"

record plugin_instance =
  piRegistration :: registration
  piRegisteredAt :: gotime
  piUpdatedAt :: gotime
  piExpiresAt :: gotime
  piRevision :: u64
  piEpoch :: u64

record plugin_lease =
  plID :: string
  plToken :: string
  plKey :: instance_key
  plExpiresAt :: gotime
  plEpoch :: u64

record lease_credential =
  lcID :: string
  lcToken :: string

record discovery_query =
  dqNamespace :: string
  dqName :: string
  dqVersion :: string
  dqResource :: string
  dqLabels :: "string gomap"

datatype ChangeKind = ChangeUpsert | ChangeDelete | ChangeExpire | ChangeKindOther string

record plugin_change =
  pcRevision :: u64
  pcKind :: ChangeKind
  pcInstance :: plugin_instance

record poll_request =
  prQuery :: discovery_query
  prAfterRevision :: u64
  prLimit :: int
  prWait :: duration

record change_page =
  cpChanges :: "plugin_change list"
  cpNextRevision :: u64
  cpCurrentRevision :: u64

record discovery_page =
  dpItems :: "plugin_instance list"
  dpNext :: string
  dpRevision :: u64

section \<open>Checks\<close>

definition DefaultNamespace :: string where "DefaultNamespace = ''default''"

definition invalidRequest :: "error \<Rightarrow> error" where
  "invalidRequest e = Joinf ErrInvalidRequest e"

definition validateKey :: "instance_key \<Rightarrow> error option" where
  "validateKey k =
     and_then (ValidateResourceName ''registry namespace'' (ikNamespace k))
     (and_then (ValidateResourceName ''plugin'' (ikName k))
      (ValidateResourceName ''plugin instance'' (ikInstanceID k)))"

text \<open>What the code reads of a parsed URL.\<close>

record go_url =
  urlScheme :: string
  urlHost :: string
  urlOpaque :: string
  urlPath :: string

definition validatePluginURI :: "(string \<Rightarrow> go_url result) \<Rightarrow> string \<Rightarrow> error option" where
  "validatePluginURI url_Parse raw =
     (case url_Parse raw of
        Inl e \<Rightarrow> Some (Nestf ''parse plugin URI %q: %w'' e)
      | Inr parsed \<Rightarrow>
          and_then (reject_if (urlScheme parsed = []) (Errorf ''plugin URI %q has no scheme''))
          (reject_if (urlHost parsed = [] \<and> urlOpaque parsed = [] \<and> urlPath parsed = [])
            (Errorf ''plugin URI %q has no target'')))"

text \<open>
  \<open>unicode.IsControl\<close> on the runes of a UTF-8 string: the bytes below space, delete, and
  the two-byte sequences of U+0080 to U+009F.
\<close>

fun has_control :: "string \<Rightarrow> bool" where
  "has_control [] = False"
| "has_control [a] = (a < CHR 0x20 \<or> a = CHR 0x7F)"
| "has_control (a # b # r) =
     (a < CHR 0x20 \<or> a = CHR 0x7F \<or>
      a = CHR 0xC2 \<and> CHR 0x80 \<le> b \<and> b \<le> CHR 0x9F \<or> has_control (b # r))"

definition validateLabel :: "string \<times> string \<Rightarrow> error option" where
  "validateLabel kv =
     (case kv of (key, val) \<Rightarrow>
      let trimmedKey = TrimSpace key in
      and_then (reject_if (key \<noteq> trimmedKey) (Errorf ''plugin label key %q has surrounding whitespace''))
      (and_then (reject_if (trimmedKey = [] \<or> length trimmedKey > 128)
         (Errorf ''plugin label key %q must contain 1..128 bytes''))
      (and_then (reject_if (length val > 512) (Errorf ''plugin label %q value exceeds 512 bytes''))
       (reject_if (has_control (key @ val)) (Errorf ''plugin label %q contains control characters'')))))"

definition normalizeRegistration ::
  "(string \<Rightarrow> go_url result) \<Rightarrow> registration \<Rightarrow> registration result" where
  "normalizeRegistration url_Parse r =
     (let ns = TrimSpace (rgNamespace r);
          r = r\<lparr>rgNamespace := (if ns = [] then DefaultNamespace else ns),
                rgName := TrimSpace (rgName r), rgInstanceID := TrimSpace (rgInstanceID r),
                rgURI := TrimSpace (rgURI r)\<rparr>
      in check (validateKey (registration_Key r))
      (check (ManifestValidate (rgManifest r))
      (check (reject_if (mfName (rgManifest r) \<noteq> rgName r)
         (Errorf ''registration name %q does not match manifest name %q''))
      (check (validatePluginURI url_Parse (rgURI r))
      (check (first_error validateLabel (rgLabels r)) (Inr r))))))"

definition normalizeQuery :: "discovery_query \<Rightarrow> discovery_query result" where
  "normalizeQuery q =
     (let q = q\<lparr>dqNamespace := TrimSpace (dqNamespace q), dqName := TrimSpace (dqName q),
                dqVersion := TrimSpace (dqVersion q), dqResource := TrimSpace (dqResource q)\<rparr>
      in check (if dqNamespace q \<noteq> [] then ValidateResourceName ''registry namespace'' (dqNamespace q) else None)
      (check (if dqName q \<noteq> [] then ValidateResourceName ''plugin'' (dqName q) else None)
      (check (first_error validateLabel (dqLabels q)) (Inr q))))"

definition validatePage :: "page_request \<Rightarrow> (page_request \<times> string) result" where
  "validatePage request =
     (let request = (if pgLimit request = 0 then request\<lparr>pgLimit := DefaultPageSize\<rparr> else request) in
      if pgLimit request < 1 \<or> pgLimit request > MaxPageSize
      then Inl (Errorf ''page limit must be between 1 and %d'')
      else if pgAfter request = [] then Inr (request, [])
      else (case b64_decode (pgAfter request) of
              None \<Rightarrow> Inl (Errorf ''invalid registry page cursor'')
            | Some raw \<Rightarrow> Inr (request, raw)))"

definition encodePageCursor :: "string \<Rightarrow> string" where
  "encodePageCursor key = b64_encode key"

definition validatePoll :: "poll_request \<Rightarrow> poll_request result" where
  "validatePoll request =
     bind_result (normalizeQuery (prQuery request)) (\<lambda>query.
     let request = request\<lparr>prQuery := query\<rparr>;
         request = (if prLimit request = 0 then request\<lparr>prLimit := DefaultPageSize\<rparr> else request)
     in check (reject_if (prLimit request < 1 \<or> prLimit request > MaxPageSize)
          (Errorf ''poll limit must be between 1 and %d''))
        (check (reject_if (prWait request < 0) (Errorf ''poll wait cannot be negative''))
         (Inr request)))"

text \<open>A missing label reads as the empty string.\<close>

definition label_value :: "string gomap \<Rightarrow> string \<Rightarrow> string" where
  "label_value m k = (case map_of m k of Some v \<Rightarrow> v | None \<Rightarrow> [])"

definition registry_matches :: "plugin_instance \<Rightarrow> discovery_query \<Rightarrow> bool" where
  "registry_matches i q =
     (let r = piRegistration i in
      if dqNamespace q \<noteq> [] \<and> rgNamespace r \<noteq> dqNamespace q then False
      else if dqName q \<noteq> [] \<and> rgName r \<noteq> dqName q then False
      else if dqVersion q \<noteq> [] \<and> mfVersion (rgManifest r) \<noteq> dqVersion q then False
      else if dqResource q \<noteq> [] \<and> dqResource q \<notin> set (mfRegisters (rgManifest r)) then False
      else list_all (\<lambda>(k, v). label_value (rgLabels r) k = v) (dqLabels q))"

definition instanceMapKey :: "instance_key \<Rightarrow> string" where
  "instanceMapKey k = ikNamespace k @ [CHR 0x00] @ ikName k @ [CHR 0x00] @ ikInstanceID k"

section \<open>The directory state\<close>

record stored_instance =
  siInstance :: plugin_instance
  siLeaseID :: string

record dir_state =
  drSchemaVersion :: u32
  drRevision :: u64
  drInstances :: "stored_instance gomap"
  drLeases :: "plugin_lease gomap"
  drEpochs :: "u64 gomap"
  drChanges :: "plugin_change list"

definition stateSchemaVersion :: u32 where "stateSchemaVersion = 1"

definition newDirectoryState :: dir_state where
  "newDirectoryState = \<lparr>drSchemaVersion = stateSchemaVersion, drRevision = 0, drInstances = [],
     drLeases = [], drEpochs = [], drChanges = []\<rparr>"

text \<open>Nil and empty maps are the same value here.\<close>

definition dir_normalize :: "dir_state \<Rightarrow> dir_state" where
  "dir_normalize s = (if drSchemaVersion s = 0 then s\<lparr>drSchemaVersion := stateSchemaVersion\<rparr> else s)"

definition epoch_of :: "dir_state \<Rightarrow> string \<Rightarrow> u64" where
  "epoch_of s key = (case map_of (drEpochs s) key of Some e \<Rightarrow> e | None \<Rightarrow> 0)"

definition appendChange :: "plugin_change \<Rightarrow> int \<Rightarrow> dir_state \<Rightarrow> dir_state" where
  "appendChange change maxChanges s =
     (let changes = drChanges s @ [change];
          overflow = int (length changes) - maxChanges
      in s\<lparr>drChanges := (if overflow > 0 then drop (nat overflow) changes else changes)\<rparr>)"

definition removeLease :: "plugin_lease \<Rightarrow> ChangeKind \<Rightarrow> gotime \<Rightarrow> int \<Rightarrow> dir_state \<Rightarrow> dir_state" where
  "removeLease lease kind now maxChanges s =
     (let key = instanceMapKey (plKey lease);
          found = map_of (drInstances s) key;
          s = s\<lparr>drLeases := AList.delete (plID lease) (drLeases s)\<rparr>
      in case found of
           None \<Rightarrow> s
         | Some stored \<Rightarrow>
             if siLeaseID stored \<noteq> plID lease then s
             else let s = s\<lparr>drInstances := AList.delete key (drInstances s),
                            drRevision := drRevision s + 1\<rparr>;
                      inst = (siInstance stored)\<lparr>piUpdatedAt := now, piRevision := drRevision s\<rparr>
                  in appendChange \<lparr>pcRevision = drRevision s, pcKind = kind, pcInstance = inst\<rparr> maxChanges s)"

definition expireLease :: "plugin_lease \<Rightarrow> gotime \<Rightarrow> int \<Rightarrow> dir_state \<Rightarrow> dir_state" where
  "expireLease lease now maxChanges = removeLease lease ChangeExpire now maxChanges"

fun expire_all :: "string list \<Rightarrow> gotime \<Rightarrow> int \<Rightarrow> dir_state \<Rightarrow> dir_state" where
  "expire_all [] now maxChanges s = s"
| "expire_all (i # ids) now maxChanges s =
     expire_all ids now maxChanges
       (case map_of (drLeases s) i of None \<Rightarrow> s | Some lease \<Rightarrow> expireLease lease now maxChanges s)"

definition expired_ids :: "gotime \<Rightarrow> dir_state \<Rightarrow> string list" where
  "expired_ids now s =
     sort_func (compare_on id)
       (map fst (filter (\<lambda>(i, lease). \<not> now < plExpiresAt lease) (drLeases s)))"

definition pruneExpired :: "gotime \<Rightarrow> int \<Rightarrow> dir_state \<Rightarrow> dir_state \<times> bool" where
  "pruneExpired now maxChanges s =
     (expire_all (expired_ids now s) now maxChanges s, length (expired_ids now s) > 0)"

text \<open>The operations return the new state, the \<open>changed\<close> flag and the result.\<close>

definition dir_register ::
  "(string \<Rightarrow> go_url result) \<Rightarrow> string \<Rightarrow> string result \<Rightarrow> registration \<Rightarrow> duration \<Rightarrow> gotime \<Rightarrow> int \<Rightarrow>
   dir_state \<Rightarrow> dir_state \<times> bool \<times> plugin_lease result" where
  "dir_register url_Parse newID newToken r ttl now maxChanges s =
     (if ttl \<le> 0 then (s, False, Inl (invalidRequest (Errorf ''plugin lease TTL must be positive'')))
      else case normalizeRegistration url_Parse r of
        Inl e \<Rightarrow> (s, False, Inl (invalidRequest e))
      | Inr r \<Rightarrow>
          (case pruneExpired now maxChanges s of (s, changed) \<Rightarrow>
           let key = instanceMapKey (registration_Key r) in
           if map_of (drInstances s) key \<noteq> None
           then (s, changed, Inl (Wrapf ErrInstanceConflict ''%w: %s''))
           else case newToken of
             Inl e \<Rightarrow> (s, changed, Inl (Nestf ''generate plugin lease token: %w'' e))
           | Inr token \<Rightarrow>
               let epoch = epoch_of s key + 1;
                   s = s\<lparr>drEpochs := AList.update key epoch (drEpochs s),
                         drRevision := drRevision s + 1\<rparr>;
                   lease = \<lparr>plID = newID, plToken = token, plKey = registration_Key r,
                            plExpiresAt = now + ttl, plEpoch = epoch\<rparr>;
                   inst = \<lparr>piRegistration = r, piRegisteredAt = now, piUpdatedAt = now,
                           piExpiresAt = plExpiresAt lease, piRevision = drRevision s, piEpoch = epoch\<rparr>;
                   s = s\<lparr>drInstances := AList.update key \<lparr>siInstance = inst, siLeaseID = plID lease\<rparr>
                           (drInstances s),
                         drLeases := AList.update (plID lease) lease (drLeases s)\<rparr>
               in (appendChange \<lparr>pcRevision = drRevision s, pcKind = ChangeUpsert, pcInstance = inst\<rparr>
                     maxChanges s, True, Inr lease)))"

definition validLeaseToken :: "string \<Rightarrow> string \<Rightarrow> bool" where
  "validLeaseToken expected actual =
     (if expected = [] \<or> length expected \<noteq> length actual then False else expected = actual)"

definition dir_renew ::
  "lease_credential \<Rightarrow> duration \<Rightarrow> gotime \<Rightarrow> int \<Rightarrow> dir_state \<Rightarrow> dir_state \<times> bool \<times> plugin_lease result" where
  "dir_renew credential ttl now maxChanges s =
     (if ttl \<le> 0 then (s, False, Inl (invalidRequest (Errorf ''plugin lease TTL must be positive'')))
      else case map_of (drLeases s) (lcID credential) of
        None \<Rightarrow> (s, False, Inl (Wrapf ErrLeaseNotFound ''%w: %s''))
      | Some lease \<Rightarrow>
          if \<not> now < plExpiresAt lease
          then (expireLease lease now maxChanges s, True, Inl (Wrapf ErrLeaseExpired ''%w: %s''))
          else if \<not> validLeaseToken (plToken lease) (lcToken credential)
          then (s, False, Inl (Wrapf ErrLeaseFenced ''%w: %s''))
          else let key = instanceMapKey (plKey lease) in
            case map_of (drInstances s) key of
              None \<Rightarrow> (s, False, Inl (Errorf ''registry state has no instance for lease %q''))
            | Some stored \<Rightarrow>
                if siLeaseID stored \<noteq> plID lease
                then (s, False, Inl (Errorf ''registry state has no instance for lease %q''))
                else let lease = lease\<lparr>plExpiresAt := now + ttl\<rparr>;
                         stored = stored\<lparr>siInstance := (siInstance stored)\<lparr>
                           piExpiresAt := plExpiresAt lease, piUpdatedAt := now\<rparr>\<rparr>
                     in (s\<lparr>drLeases := AList.update (lcID credential) lease (drLeases s),
                           drInstances := AList.update key stored (drInstances s)\<rparr>, True, Inr lease))"

definition dir_unregister ::
  "lease_credential \<Rightarrow> gotime \<Rightarrow> int \<Rightarrow> dir_state \<Rightarrow> dir_state \<times> bool \<times> error option" where
  "dir_unregister credential now maxChanges s =
     (case map_of (drLeases s) (lcID credential) of
        None \<Rightarrow> (s, False, Some (Wrapf ErrLeaseNotFound ''%w: %s''))
      | Some lease \<Rightarrow>
          if \<not> now < plExpiresAt lease
          then (expireLease lease now maxChanges s, True, Some (Wrapf ErrLeaseExpired ''%w: %s''))
          else if \<not> validLeaseToken (plToken lease) (lcToken credential)
          then (s, False, Some (Wrapf ErrLeaseFenced ''%w: %s''))
          else (removeLease lease ChangeDelete now maxChanges s, True, None))"

definition dir_get ::
  "instance_key \<Rightarrow> gotime \<Rightarrow> int \<Rightarrow> dir_state \<Rightarrow> dir_state \<times> bool \<times> plugin_instance result" where
  "dir_get key now maxChanges s =
     (let key = (if TrimSpace (ikNamespace key) = [] then key\<lparr>ikNamespace := DefaultNamespace\<rparr> else key) in
      case validateKey key of
        Some e \<Rightarrow> (s, False, Inl (invalidRequest e))
      | None \<Rightarrow>
          (case pruneExpired now maxChanges s of (s, changed) \<Rightarrow>
             (case map_of (drInstances s) (instanceMapKey key) of
                None \<Rightarrow> (s, changed, Inl (Wrapf ErrInstanceNotFound ''%w: %s''))
              | Some stored \<Rightarrow> (s, changed, Inr (siInstance stored)))))"

text \<open>The instances under the given keys, each of which the map contains.\<close>

fun instances_at :: "stored_instance gomap \<Rightarrow> string list \<Rightarrow> plugin_instance list" where
  "instances_at m [] = []"
| "instances_at m (k # ks) =
     (case map_of m k of Some stored \<Rightarrow> [siInstance stored] | None \<Rightarrow> []) @ instances_at m ks"

definition dir_list ::
  "discovery_query \<Rightarrow> page_request \<Rightarrow> gotime \<Rightarrow> int \<Rightarrow> dir_state \<Rightarrow>
   dir_state \<times> bool \<times> discovery_page result" where
  "dir_list query request now maxChanges s =
     (case bind_result (normalizeQuery query) (\<lambda>query.
        bind_result (validatePage request) (\<lambda>(request, after). Inr (query, request, after))) of
        Inl e \<Rightarrow> (s, False, Inl (invalidRequest e))
      | Inr (query, request, after) \<Rightarrow>
          (case pruneExpired now maxChanges s of (s, changed) \<Rightarrow>
           let keys = sort_func (compare_on id) (map fst (filter (\<lambda>(key, stored).
                 after < key \<and> registry_matches (siInstance stored) query) (drInstances s)));
               limit = min (nat (pgLimit request)) (length keys)
           in (s, changed, Inr \<lparr>dpItems = instances_at (drInstances s) (take limit keys),
                 dpNext = (if length keys > nat (pgLimit request)
                           then encodePageCursor (keys ! (nat (pgLimit request) - 1)) else []),
                 dpRevision = drRevision s\<rparr>)))"

text \<open>The loop of \<open>poll\<close>: the changes collected so far in reverse; the result is the
  changes and \<open>NextRevision\<close>.\<close>

fun poll_changes ::
  "discovery_query \<Rightarrow> u64 \<Rightarrow> nat \<Rightarrow> u64 \<Rightarrow> plugin_change list \<Rightarrow> plugin_change list \<Rightarrow>
   plugin_change list \<times> u64" where
  "poll_changes query after limit current acc [] = (rev acc, current)"
| "poll_changes query after limit current acc (c # cs) =
     (if pcRevision c \<le> after then poll_changes query after limit current acc cs
      else if registry_matches (pcInstance c) query
      then if Suc (length acc) = limit then (rev (c # acc), pcRevision c)
           else poll_changes query after limit current (c # acc) cs
      else poll_changes query after limit current acc cs)"

definition dir_poll ::
  "poll_request \<Rightarrow> gotime \<Rightarrow> int \<Rightarrow> dir_state \<Rightarrow> dir_state \<times> bool \<times> change_page result" where
  "dir_poll request now maxChanges s =
     (case validatePoll request of
        Inl e \<Rightarrow> (s, False, Inl (invalidRequest e))
      | Inr request \<Rightarrow>
          (case pruneExpired now maxChanges s of (s, changed) \<Rightarrow>
           if prAfterRevision request > drRevision s
           then (s, changed, Inl (invalidRequest
                   (Errorf ''poll revision %d is ahead of current revision %d'')))
           else if prAfterRevision request > 0 \<and> length (drChanges s) > 0 \<and>
                   prAfterRevision request + 1 < pcRevision (hd (drChanges s))
           then (s, changed, Inl (Wrapf ErrCursorExpired ''%w: revision %d''))
           else (case poll_changes (prQuery request) (prAfterRevision request) (nat (prLimit request))
                   (drRevision s) [] (drChanges s) of
                   (changes, nextRevision) \<Rightarrow>
                   (s, changed, Inr \<lparr>cpChanges = changes, cpNextRevision = nextRevision,
                      cpCurrentRevision = drRevision s\<rparr>))))"

fun next_expiry :: "gotime \<Rightarrow> duration \<Rightarrow> plugin_lease list \<Rightarrow> duration" where
  "next_expiry now result [] = result"
| "next_expiry now result (l # ls) =
     (let remaining = plExpiresAt l - now in
      if remaining \<le> 0 then 0
      else if result = 0 \<or> remaining < result then next_expiry now remaining ls
      else next_expiry now result ls)"

definition nextExpiry :: "gotime \<Rightarrow> dir_state \<Rightarrow> duration" where
  "nextExpiry now s = next_expiry now 0 (map snd (drLeases s))"

text \<open>\<open>validate\<close>, which the durable directories call on a loaded state.\<close>

definition validate_instance ::
  "(string \<Rightarrow> go_url result) \<Rightarrow> dir_state \<Rightarrow> string \<times> stored_instance \<Rightarrow> error option" where
  "validate_instance url_Parse s ks =
     (case ks of (key, stored) \<Rightarrow>
      case normalizeRegistration url_Parse (piRegistration (siInstance stored)) of
        Inl e \<Rightarrow> Some (Nestf ''validate registry instance %q: %w'' e)
      | Inr r \<Rightarrow>
          and_then (reject_if (instanceMapKey (registration_Key r) \<noteq> key)
            (Errorf ''registry instance key %q does not match payload''))
          (and_then (case map_of (drLeases s) (siLeaseID stored) of
               None \<Rightarrow> Some (Errorf ''registry instance %q has an invalid lease'')
             | Some lease \<Rightarrow>
                 reject_if (plKey lease \<noteq> registration_Key r \<or>
                   plEpoch lease \<noteq> piEpoch (siInstance stored) \<or>
                   plExpiresAt lease \<noteq> piExpiresAt (siInstance stored))
                   (Errorf ''registry instance %q has an invalid lease''))
           (reject_if (epoch_of s key < piEpoch (siInstance stored))
             (Errorf ''registry instance %q exceeds recorded epoch''))))"

definition validate_lease :: "dir_state \<Rightarrow> string \<times> plugin_lease \<Rightarrow> error option" where
  "validate_lease s il =
     (case il of (i, lease) \<Rightarrow>
      and_then (reject_if (i \<noteq> plID lease \<or> plToken lease = []) (Errorf ''registry lease %q is invalid''))
      (case map_of (drInstances s) (instanceMapKey (plKey lease)) of
         None \<Rightarrow> Some (Errorf ''registry lease %q has no matching instance'')
       | Some stored \<Rightarrow> reject_if (siLeaseID stored \<noteq> i)
           (Errorf ''registry lease %q has no matching instance'')))"

fun validate_changes :: "u64 \<Rightarrow> u64 \<Rightarrow> plugin_change list \<Rightarrow> error option" where
  "validate_changes current revision [] = None"
| "validate_changes current revision (c # cs) =
     and_then (reject_if (pcRevision c \<le> revision \<or> pcRevision c > current)
       (Errorf ''registry change revisions are invalid''))
     (and_then (case pcKind c of
         ChangeKindOther k \<Rightarrow> Some (Errorf ''registry change kind %q is invalid'')
       | _ \<Rightarrow> None)
      (validate_changes current (pcRevision c) cs))"

definition dir_validate :: "(string \<Rightarrow> go_url result) \<Rightarrow> dir_state \<Rightarrow> error option" where
  "dir_validate url_Parse s =
     (let s = dir_normalize s in
      and_then (reject_if (drSchemaVersion s > stateSchemaVersion)
        (Errorf ''registry schema version %d exceeds supported version %d''))
      (and_then (first_error (validate_instance url_Parse s) (drInstances s))
      (and_then (first_error (validate_lease s) (drLeases s))
       (validate_changes (drRevision s) 0 (drChanges s)))))"

section \<open>The in-memory directory\<close>

text \<open>\<open>mdGeneration\<close> counts how often the \<open>changed\<close> channel was closed and replaced.\<close>

record mem_directory =
  mdState :: dir_state
  mdMaxChanges :: int
  mdGeneration :: nat
  mdClosed :: bool

definition NewMemoryDirectory :: "int \<Rightarrow> mem_directory" where
  "NewMemoryDirectory maxChanges = \<lparr>mdState = newDirectoryState,
     mdMaxChanges = (if maxChanges < 1 then 1024 else maxChanges), mdGeneration = 0, mdClosed = False\<rparr>"

definition signalIfChanged :: "u64 \<Rightarrow> mem_directory \<Rightarrow> mem_directory" where
  "signalIfChanged before d =
     (if drRevision (mdState d) = before then d else d\<lparr>mdGeneration := mdGeneration d + 1\<rparr>)"

text \<open>The frame of every method: context, closed flag, operation, signal.\<close>

definition md_call ::
  "ctx \<Rightarrow> (int \<Rightarrow> dir_state \<Rightarrow> dir_state \<times> bool \<times> 'a result) \<Rightarrow> mem_directory \<Rightarrow>
   mem_directory \<times> 'a result" where
  "md_call ctx f d =
     (case and_then ctx (reject_if (mdClosed d) (Wrapf ErrClosed [])) of
        Some e \<Rightarrow> (d, Inl e)
      | None \<Rightarrow>
          (case f (mdMaxChanges d) (mdState d) of (s, changed, r) \<Rightarrow>
             (signalIfChanged (drRevision (mdState d)) (d\<lparr>mdState := s\<rparr>), r)))"

definition md_Register ::
  "(string \<Rightarrow> go_url result) \<Rightarrow> ctx \<Rightarrow> string \<Rightarrow> string result \<Rightarrow> gotime \<Rightarrow> registration \<Rightarrow> duration \<Rightarrow>
   mem_directory \<Rightarrow> mem_directory \<times> plugin_lease result" where
  "md_Register url_Parse ctx newID newToken clock r ttl =
     md_call ctx (dir_register url_Parse newID newToken r ttl clock)"

definition md_Renew ::
  "ctx \<Rightarrow> gotime \<Rightarrow> lease_credential \<Rightarrow> duration \<Rightarrow> mem_directory \<Rightarrow> mem_directory \<times> plugin_lease result" where
  "md_Renew ctx clock credential ttl = md_call ctx (dir_renew credential ttl clock)"

definition md_Unregister ::
  "ctx \<Rightarrow> gotime \<Rightarrow> lease_credential \<Rightarrow> mem_directory \<Rightarrow> mem_directory \<times> unit result" where
  "md_Unregister ctx clock credential = md_call ctx (\<lambda>m s.
     case dir_unregister credential clock m s of
       (s', changed, err) \<Rightarrow> (s', changed, case err of Some e \<Rightarrow> Inl e | None \<Rightarrow> Inr ()))"

definition md_Get ::
  "ctx \<Rightarrow> gotime \<Rightarrow> instance_key \<Rightarrow> mem_directory \<Rightarrow> mem_directory \<times> plugin_instance result" where
  "md_Get ctx clock key = md_call ctx (dir_get key clock)"

definition md_List ::
  "ctx \<Rightarrow> gotime \<Rightarrow> discovery_query \<Rightarrow> page_request \<Rightarrow> mem_directory \<Rightarrow>
   mem_directory \<times> discovery_page result" where
  "md_List ctx clock query request = md_call ctx (dir_list query request clock)"

text \<open>
  One turn of the loop of \<open>Poll\<close>: the result to return, or \<open>None\<close> when the caller
  waits for the channel, a lease expiry or its deadline and then turns again.
\<close>

definition md_Poll_turn ::
  "ctx \<Rightarrow> gotime \<Rightarrow> poll_request \<Rightarrow> mem_directory \<Rightarrow> mem_directory \<times> change_page result option" where
  "md_Poll_turn ctx clock request d =
     (case validatePoll request of
        Inl e \<Rightarrow> (d, Some (Inl (invalidRequest e)))
      | Inr request \<Rightarrow>
          (case and_then ctx (reject_if (mdClosed d) (Wrapf ErrClosed [])) of
             Some e \<Rightarrow> (d, Some (Inl e))
           | None \<Rightarrow>
               (case md_call ctx (dir_poll request clock) d of
                  (d', Inl e) \<Rightarrow> (d', Some (Inl e))
                | (d', Inr page) \<Rightarrow>
                    if length (cpChanges page) > 0 \<or> cpNextRevision page > prAfterRevision request \<or>
                       prWait request = 0
                    then (d', Some (Inr page)) else (d', None))))"

definition md_Close :: "mem_directory \<Rightarrow> mem_directory" where
  "md_Close d = (if mdClosed d then d else d\<lparr>mdClosed := True, mdGeneration := mdGeneration d + 1\<rparr>)"

end
