(* ===== verification/Registry_Invariants.thy ===== *)
theory Registry_Invariants
  imports Registry
begin

text \<open>
  The directory state stays consistent under every operation, its change log is contiguous,
  leases are fenced, and polling and listing lose nothing.
\<close>

section \<open>Instances and leases\<close>

definition dir_core ::
  "(string \<Rightarrow> go_url result) \<Rightarrow> (string \<rightharpoonup> stored_instance) \<Rightarrow> (string \<rightharpoonup> plugin_lease) \<Rightarrow>
   (string \<Rightarrow> u64) \<Rightarrow> bool" where
  "dir_core P I L E \<longleftrightarrow>
     (\<forall>k st. I k = Some st \<longrightarrow>
        (let r = piRegistration (siInstance st) in
         normalizeRegistration P r = Inr r \<and> instanceMapKey (registration_Key r) = k \<and>
         (\<exists>l. L (siLeaseID st) = Some l \<and> plKey l = registration_Key r \<and>
            plEpoch l = piEpoch (siInstance st) \<and> plExpiresAt l = piExpiresAt (siInstance st)) \<and>
         piEpoch (siInstance st) \<le> E k)) \<and>
     (\<forall>i l. L i = Some l \<longrightarrow> plID l = i \<and> plToken l \<noteq> [] \<and>
        (\<exists>st. I (instanceMapKey (plKey l)) = Some st \<and> siLeaseID st = i))"

lemma dir_coreI:
  assumes "\<And>k st. I k = Some st \<Longrightarrow>
      normalizeRegistration P (piRegistration (siInstance st)) = Inr (piRegistration (siInstance st)) \<and>
      instanceMapKey (registration_Key (piRegistration (siInstance st))) = k \<and>
      (\<exists>l. L (siLeaseID st) = Some l \<and> plKey l = registration_Key (piRegistration (siInstance st)) \<and>
         plEpoch l = piEpoch (siInstance st) \<and> plExpiresAt l = piExpiresAt (siInstance st)) \<and>
      piEpoch (siInstance st) \<le> E k"
    and "\<And>i l. L i = Some l \<Longrightarrow> plID l = i \<and> plToken l \<noteq> [] \<and>
      (\<exists>st. I (instanceMapKey (plKey l)) = Some st \<and> siLeaseID st = i)"
  shows "dir_core P I L E"
  using assms unfolding dir_core_def Let_def by blast

lemma dir_core_instance:
  assumes "dir_core P I L E" "I k = Some st"
  shows "normalizeRegistration P (piRegistration (siInstance st)) = Inr (piRegistration (siInstance st))"
    "instanceMapKey (registration_Key (piRegistration (siInstance st))) = k"
    "\<exists>l. L (siLeaseID st) = Some l \<and> plKey l = registration_Key (piRegistration (siInstance st)) \<and>
         plEpoch l = piEpoch (siInstance st) \<and> plExpiresAt l = piExpiresAt (siInstance st)"
    "piEpoch (siInstance st) \<le> E k"
  using assms unfolding dir_core_def Let_def by blast+

lemma dir_core_lease:
  assumes "dir_core P I L E" "L i = Some l"
  shows "plID l = i" "plToken l \<noteq> []" "\<exists>st. I (instanceMapKey (plKey l)) = Some st \<and> siLeaseID st = i"
  using assms unfolding dir_core_def by blast+

text \<open>A lease and its instance determine each other.\<close>

lemma dir_core_pair:
  assumes c: "dir_core P I L E" and i: "L i = Some l" and k: "I k = Some st" "siLeaseID st = i"
  shows "k = instanceMapKey (plKey l)"
proof -
  obtain l' where "L (siLeaseID st) = Some l'" "plKey l' = registration_Key (piRegistration (siInstance st))"
    using dir_core_instance(3) [OF c k(1)] by blast
  then show ?thesis using i k dir_core_instance(2) [OF c k(1)] by simp
qed

lemma dir_core_remove:
  assumes c: "dir_core P I L E" and i: "L i = Some l"
  shows "dir_core P (I(instanceMapKey (plKey l) := None)) (L(i := None)) E"
proof (rule dir_coreI)
  fix k st
  assume st: "(I(instanceMapKey (plKey l) := None)) k = Some st"
  then have k: "I k = Some st" "k \<noteq> instanceMapKey (plKey l)" by (auto split: if_splits)
  have "siLeaseID st \<noteq> i" using dir_core_pair [OF c i k(1)] k(2) by blast
  then show "normalizeRegistration P (piRegistration (siInstance st)) = Inr (piRegistration (siInstance st)) \<and>
      instanceMapKey (registration_Key (piRegistration (siInstance st))) = k \<and>
      (\<exists>l'. (L(i := None)) (siLeaseID st) = Some l' \<and>
         plKey l' = registration_Key (piRegistration (siInstance st)) \<and>
         plEpoch l' = piEpoch (siInstance st) \<and> plExpiresAt l' = piExpiresAt (siInstance st)) \<and>
      piEpoch (siInstance st) \<le> E k"
    using dir_core_instance [OF c k(1)] by simp
next
  fix j l'
  assume "(L(i := None)) j = Some l'"
  then have j: "L j = Some l'" "j \<noteq> i" by (auto split: if_splits)
  obtain st where st: "I (instanceMapKey (plKey l')) = Some st" "siLeaseID st = j"
    using dir_core_lease(3) [OF c j(1)] by blast
  have "instanceMapKey (plKey l') \<noteq> instanceMapKey (plKey l)"
    using st j(2) dir_core_lease(3) [OF c i] by auto
  then show "plID l' = j \<and> plToken l' \<noteq> [] \<and>
      (\<exists>st. (I(instanceMapKey (plKey l) := None)) (instanceMapKey (plKey l')) = Some st \<and> siLeaseID st = j)"
    using dir_core_lease [OF c j(1)] st by simp
qed

lemma dir_core_add:
  assumes c: "dir_core P I L E" and free: "I k = None" "L i = None"
    and r: "normalizeRegistration P (piRegistration inst) = Inr (piRegistration inst)"
    "k = instanceMapKey (registration_Key (piRegistration inst))"
    and l: "plID l = i" "plToken l \<noteq> []" "plKey l = registration_Key (piRegistration inst)"
    "plEpoch l = piEpoch inst" "plExpiresAt l = piExpiresAt inst"
  shows "dir_core P (I(k \<mapsto> \<lparr>siInstance = inst, siLeaseID = i\<rparr>)) (L(i \<mapsto> l)) (E(k := piEpoch inst))"
proof (rule dir_coreI)
  fix k' st
  assume "(I(k \<mapsto> \<lparr>siInstance = inst, siLeaseID = i\<rparr>)) k' = Some st"
  then consider "k' = k" "st = \<lparr>siInstance = inst, siLeaseID = i\<rparr>" | "k' \<noteq> k" "I k' = Some st"
    by (auto split: if_splits)
  then show "normalizeRegistration P (piRegistration (siInstance st)) = Inr (piRegistration (siInstance st)) \<and>
      instanceMapKey (registration_Key (piRegistration (siInstance st))) = k' \<and>
      (\<exists>l'. (L(i \<mapsto> l)) (siLeaseID st) = Some l' \<and>
         plKey l' = registration_Key (piRegistration (siInstance st)) \<and>
         plEpoch l' = piEpoch (siInstance st) \<and> plExpiresAt l' = piExpiresAt (siInstance st)) \<and>
      piEpoch (siInstance st) \<le> (E(k := piEpoch inst)) k'"
  proof cases
    case 2
    have "siLeaseID st \<noteq> i" using dir_core_instance(3) [OF c 2(2)] free(2) by auto
    then show ?thesis using dir_core_instance [OF c 2(2)] 2(1) by simp
  qed (use r l in simp)
next
  fix j l'
  assume "(L(i \<mapsto> l)) j = Some l'"
  then consider "j = i" "l' = l" | "j \<noteq> i" "L j = Some l'" by (auto split: if_splits)
  then show "plID l' = j \<and> plToken l' \<noteq> [] \<and>
      (\<exists>st. (I(k \<mapsto> \<lparr>siInstance = inst, siLeaseID = i\<rparr>)) (instanceMapKey (plKey l')) = Some st \<and>
        siLeaseID st = j)"
  proof cases
    case 2
    then have "instanceMapKey (plKey l') \<noteq> k" using dir_core_lease(3) [OF c 2(2)] free(1) by auto
    then show ?thesis using dir_core_lease [OF c 2(2)] by simp
  qed (use r l in simp)
qed

lemma dir_core_renew:
  assumes c: "dir_core P I L E" and i: "L i = Some l" and k: "k = instanceMapKey (plKey l)"
    "I k = Some st" "siLeaseID st = i"
    and l': "l' = l\<lparr>plExpiresAt := t\<rparr>"
    and st': "st' = st\<lparr>siInstance := (siInstance st)\<lparr>piExpiresAt := t, piUpdatedAt := u\<rparr>\<rparr>"
  shows "dir_core P (I(k \<mapsto> st')) (L(i \<mapsto> l')) E"
proof (rule dir_coreI)
  fix k' x
  assume "(I(k \<mapsto> st')) k' = Some x"
  then consider "k' = k" "x = st'" | "k' \<noteq> k" "I k' = Some x" by (auto split: if_splits)
  then show "normalizeRegistration P (piRegistration (siInstance x)) = Inr (piRegistration (siInstance x)) \<and>
      instanceMapKey (registration_Key (piRegistration (siInstance x))) = k' \<and>
      (\<exists>m. (L(i \<mapsto> l')) (siLeaseID x) = Some m \<and>
         plKey m = registration_Key (piRegistration (siInstance x)) \<and>
         plEpoch m = piEpoch (siInstance x) \<and> plExpiresAt m = piExpiresAt (siInstance x)) \<and>
      piEpoch (siInstance x) \<le> E k'"
  proof cases
    case 1
    then show ?thesis using dir_core_instance [OF c k(2)] i k(3) l' st' by simp
  next
    case 2
    have "siLeaseID x \<noteq> i" using dir_core_pair [OF c i 2(2)] 2(1) k(1) by blast
    then show ?thesis using dir_core_instance [OF c 2(2)] by simp
  qed
next
  fix j m
  assume "(L(i \<mapsto> l')) j = Some m"
  then consider "j = i" "m = l'" | "j \<noteq> i" "L j = Some m" by (auto split: if_splits)
  then show "plID m = j \<and> plToken m \<noteq> [] \<and>
      (\<exists>x. (I(k \<mapsto> st')) (instanceMapKey (plKey m)) = Some x \<and> siLeaseID x = j)"
  proof cases
    case 1
    then show ?thesis using dir_core_lease [OF c i] k l' st' by simp
  next
    case 2
    obtain x where "I (instanceMapKey (plKey m)) = Some x" "siLeaseID x = j"
      using dir_core_lease(3) [OF c 2(2)] by blast
    then show ?thesis using dir_core_lease(1,2) [OF c 2(2)] k(2,3) 2(1) by auto
  qed
qed

section \<open>The change log\<close>

definition change_kind_ok :: "plugin_change \<Rightarrow> bool" where
  "change_kind_ok c \<longleftrightarrow> pcKind c \<in> {ChangeUpsert, ChangeDelete, ChangeExpire}"

text \<open>The log holds the latest changes, one per revision without gaps.\<close>

definition log_ok :: "u64 \<Rightarrow> int \<Rightarrow> plugin_change list \<Rightarrow> bool" where
  "log_ok revision maxChanges cs \<longleftrightarrow> length cs \<le> unat revision \<and>
     map (\<lambda>c. unat (pcRevision c)) cs = [Suc (unat revision) - length cs..<Suc (unat revision)] \<and>
     list_all change_kind_ok cs \<and> int (length cs) \<le> maxChanges \<and> (revision \<noteq> 0 \<longrightarrow> cs \<noteq> [])"

lemma log_ok_append:
  assumes "log_ok rv m cs" "0 < m" "unat rv + 1 < 2 ^ 64" "pcRevision c = rv + 1" "change_kind_ok c"
    and "drChanges s = cs"
  shows "log_ok (rv + 1) m (drChanges (appendChange c m s))"
proof -
  define cs' where "cs' = drChanges (appendChange c m s)"
  have rv: "unat (rv + 1) = Suc (unat rv)" using assms(3) u64_succ [of rv 1] by simp
  define k where "k = nat (int (Suc (length cs)) - m)"
  have k: "k \<le> 1" "k \<le> length cs" using assms(1,2) by (auto simp: k_def log_ok_def)
  have cs': "cs' = drop k (cs @ [c])"
    using assms(6) by (auto simp: cs'_def appendChange_def Let_def k_def)
  have len: "length cs' = Suc (length cs) - k" unfolding cs' by simp
  have "map (\<lambda>c. unat (pcRevision c)) (cs @ [c]) =
      [Suc (unat rv) - length cs..<Suc (unat rv)] @ [Suc (unat rv)]"
    using assms(1,4) rv by (simp add: log_ok_def)
  also have "\<dots> = [Suc (unat rv) - length cs..<Suc (Suc (unat rv))]"
    using assms(1) by (simp add: log_ok_def)
  finally have "map (\<lambda>c. unat (pcRevision c)) cs' = drop k [Suc (unat rv) - length cs..<Suc (Suc (unat rv))]"
    unfolding cs' by (metis drop_map)
  also have "\<dots> = [Suc (Suc (unat rv)) - length cs'..<Suc (Suc (unat rv))]"
    unfolding drop_upt len using assms(1) k by (auto simp: log_ok_def intro!: arg_cong2 [of _ _ _ _ upt])
  finally have "map (\<lambda>c. unat (pcRevision c)) cs' = [Suc (unat (rv + 1)) - length cs'..<Suc (unat (rv + 1))]"
    unfolding rv .
  moreover have "list_all change_kind_ok cs'"
    unfolding cs' using assms(1,5) by (auto simp: log_ok_def list_all_iff dest: in_set_dropD)
  moreover have "int (length cs') \<le> m" "cs' \<noteq> []" "length cs' \<le> unat (rv + 1)"
    using len k assms(1,2) rv by (auto simp: k_def log_ok_def)
  ultimately show ?thesis by (simp add: log_ok_def cs'_def)
qed

section \<open>The invariant\<close>

definition dir_inv :: "(string \<Rightarrow> go_url result) \<Rightarrow> int \<Rightarrow> dir_state \<Rightarrow> bool" where
  "dir_inv P m s \<longleftrightarrow> gm_wf (drInstances s) \<and> gm_wf (drLeases s) \<and>
     dir_core P (map_of (drInstances s)) (map_of (drLeases s)) (epoch_of s) \<and>
     log_ok (drRevision s) m (drChanges s) \<and> drSchemaVersion s = stateSchemaVersion \<and>
     (\<forall>k. unat (epoch_of s k) \<le> unat (drRevision s))"

text \<open>How far the revision can still grow: every lease can be removed once.\<close>

definition dir_load :: "dir_state \<Rightarrow> nat" where
  "dir_load s = unat (drRevision s) + length (drLeases s)"

lemma length_gm_delete:
  "gm_wf m \<Longrightarrow> map_of m k = Some v \<Longrightarrow> Suc (length (AList.delete k m)) = length m"
proof (induction m)
  case (Cons kv m)
  show ?case
  proof (cases "fst kv = k")
    case True
    then show ?thesis using Cons.prems(1) by (cases kv) simp
  next
    case False
    then show ?thesis using Cons by (cases kv) auto
  qed
qed simp

lemma length_gm_update:
  "length (AList.update k v m) = (if map_of m k = None then Suc (length m) else length m)"
  by (induction m) auto

lemma map_of_del: "map_of (AList.delete k m) = (map_of m)(k := None)"
  by (rule ext) simp

lemma appendChange_frame [simp]:
  "drInstances (appendChange c m s) = drInstances s" "drLeases (appendChange c m s) = drLeases s"
  "drEpochs (appendChange c m s) = drEpochs s" "drRevision (appendChange c m s) = drRevision s"
  "drSchemaVersion (appendChange c m s) = drSchemaVersion s"
  by (simp_all add: appendChange_def Let_def)

lemma epoch_of_cong: "drEpochs s' = drEpochs s \<Longrightarrow> epoch_of s' = epoch_of s"
  by (rule ext) (simp add: epoch_of_def)

lemma removeLease_eq:
  assumes "dir_inv P m s" "map_of (drLeases s) i = Some l"
  shows "\<exists>c. pcRevision c = drRevision s + 1 \<and> pcKind c = kind \<and>
    removeLease l kind now m s = appendChange c m (s\<lparr>drLeases := AList.delete i (drLeases s),
      drInstances := AList.delete (instanceMapKey (plKey l)) (drInstances s),
      drRevision := drRevision s + 1\<rparr>)"
proof -
  have c: "dir_core P (map_of (drInstances s)) (map_of (drLeases s)) (epoch_of s)"
    using assms(1) by (simp add: dir_inv_def)
  obtain st where "map_of (drInstances s) (instanceMapKey (plKey l)) = Some st" "siLeaseID st = i" "plID l = i"
    using dir_core_lease [OF c assms(2)] by blast
  then show ?thesis
    by (intro exI [of _ "\<lparr>pcRevision = drRevision s + 1, pcKind = kind,
        pcInstance = (siInstance st)\<lparr>piUpdatedAt := now, piRevision := drRevision s + 1\<rparr>\<rparr>"])
      (simp add: removeLease_def Let_def)
qed

lemma dir_inv_remove:
  assumes inv: "dir_inv P m s" and l: "map_of (drLeases s) i = Some l"
    and m: "0 < m" and room: "unat (drRevision s) + 1 < 2 ^ 64"
    and kind: "kind = ChangeDelete \<or> kind = ChangeExpire"
    and s': "s' = removeLease l kind now m s"
  shows "dir_inv P m s'" "map_of (drLeases s') = (map_of (drLeases s))(i := None)"
    "map_of (drInstances s') = (map_of (drInstances s))(instanceMapKey (plKey l) := None)"
    "dir_load s' = dir_load s" "drRevision s' = drRevision s + 1" "drEpochs s' = drEpochs s"
proof -
  let ?t = "s\<lparr>drLeases := AList.delete i (drLeases s),
      drInstances := AList.delete (instanceMapKey (plKey l)) (drInstances s),
      drRevision := drRevision s + 1\<rparr>"
  obtain c where c: "pcRevision c = drRevision s + 1" "pcKind c = kind" "s' = appendChange c m ?t"
    using removeLease_eq [OF inv l] s' by blast
  show maps: "map_of (drLeases s') = (map_of (drLeases s))(i := None)"
    "map_of (drInstances s') = (map_of (drInstances s))(instanceMapKey (plKey l) := None)"
    "drRevision s' = drRevision s + 1" "drEpochs s' = drEpochs s"
    using c(3) by (simp_all add: map_of_del)
  have rv: "unat (drRevision s + 1) = unat (drRevision s) + 1" using room u64_succ [of _ 1] by simp
  have wf: "gm_wf (drInstances s)" "gm_wf (drLeases s)" and log: "log_ok (drRevision s) m (drChanges s)"
    and core: "dir_core P (map_of (drInstances s)) (map_of (drLeases s)) (epoch_of s)"
    and rest: "drSchemaVersion s = stateSchemaVersion" "\<And>k. unat (epoch_of s k) \<le> unat (drRevision s)"
    using inv by (auto simp: dir_inv_def)
  have "log_ok (drRevision s + 1) m (drChanges s')"
    unfolding c(3) using kind c(2) by (intro log_ok_append [OF log m room c(1)]) (auto simp: change_kind_ok_def)
  then show "dir_inv P m s'"
    using wf core rest dir_core_remove [OF core l] maps rv c(3) epoch_of_cong [OF maps(4)]
    by (auto simp: dir_inv_def le_SucI)
  show "dir_load s' = dir_load s"
    using c(3) rv length_gm_delete [OF wf(2) l] by (simp add: dir_load_def)
qed

section \<open>Expiry\<close>

lemma expire_all_inv:
  assumes "dir_inv P m s" "0 < m" "dir_load s < 2 ^ 64" "s' = expire_all ids now m s"
  shows "dir_inv P m s' \<and> dir_load s' = dir_load s \<and> drEpochs s' = drEpochs s \<and>
    map_of (drLeases s') = (\<lambda>i. if i \<in> set ids then None else map_of (drLeases s) i) \<and>
    unat (drRevision s) \<le> unat (drRevision s') \<and>
    (\<forall>k st. map_of (drInstances s') k = Some st \<longleftrightarrow>
       map_of (drInstances s) k = Some st \<and> siLeaseID st \<notin> set ids)"
  using assms
proof (induction ids arbitrary: s)
  case (Cons i ids)
  show ?case
  proof (cases "map_of (drLeases s) i")
    case None
    have core: "dir_core P (map_of (drInstances s)) (map_of (drLeases s)) (epoch_of s)"
      using Cons.prems(1) by (simp add: dir_inv_def)
    have "siLeaseID st \<noteq> i" if "map_of (drInstances s) k = Some st" for k st
      using dir_core_instance(3) [OF core that] None by auto
    moreover have "map_of (drLeases s') = (\<lambda>j. if j \<in> set (i # ids) then None else map_of (drLeases s) j)"
      using Cons.IH [OF Cons.prems(1-3)] Cons.prems(4) None by (auto simp: fun_eq_iff)
    ultimately show ?thesis
      using Cons.IH [OF Cons.prems(1-3)] Cons.prems(4) None by auto
  next
    case (Some l)
    define t where "t = expireLease l now m s"
    have l: "length (drLeases s) > 0" using Some by (cases "drLeases s") auto
    then have room: "unat (drRevision s) + 1 < 2 ^ 64"
      using Cons.prems(3) unfolding dir_load_def by linarith
    note rm = dir_inv_remove [OF Cons.prems(1) Some Cons.prems(2) room, of ChangeExpire t now]
    have t: "dir_inv P m t" "map_of (drLeases t) = (map_of (drLeases s))(i := None)"
      "map_of (drInstances t) = (map_of (drInstances s))(instanceMapKey (plKey l) := None)"
      "dir_load t = dir_load s" "drRevision t = drRevision s + 1" "drEpochs t = drEpochs s"
      using rm by (auto simp: t_def expireLease_def)
    have s': "s' = expire_all ids now m t" using Cons.prems(4) Some by (simp add: t_def)
    have core: "dir_core P (map_of (drInstances s)) (map_of (drLeases s)) (epoch_of s)"
      using Cons.prems(1) by (simp add: dir_inv_def)
    have gone: "map_of (drInstances t) k = Some st \<longleftrightarrow>
        map_of (drInstances s) k = Some st \<and> siLeaseID st \<noteq> i" for k st
    proof -
      have "k = instanceMapKey (plKey l) \<longleftrightarrow> siLeaseID st = i" if "map_of (drInstances s) k = Some st"
        using dir_core_pair [OF core Some that] dir_core_lease(3) [OF core Some] that by force
      then show ?thesis unfolding t(3) by auto
    qed
    have "unat (drRevision s) \<le> unat (drRevision t)" using t(5) room u64_succ [of _ 1] by simp
    then show ?thesis
      using Cons.IH [OF t(1) Cons.prems(2) _ s'] Cons.prems(3) t gone by (auto simp: fun_eq_iff)
  qed
qed simp

lemma pruneExpired_inv:
  assumes "dir_inv P m s" "0 < m" "dir_load s < 2 ^ 64" "pruneExpired now m s = (s', changed)"
  shows "dir_inv P m s'" "dir_load s' = dir_load s" "drEpochs s' = drEpochs s"
    "map_of (drLeases s') i = Some l \<longleftrightarrow> map_of (drLeases s) i = Some l \<and> now < plExpiresAt l"
    "map_of (drInstances s') k = Some st \<longleftrightarrow>
       map_of (drInstances s) k = Some st \<and> now < piExpiresAt (siInstance st)"
    "unat (drRevision s) \<le> unat (drRevision s')"
proof -
  have s': "s' = expire_all (expired_ids now s) now m s"
    using assms(4) by (simp add: pruneExpired_def)
  have wf: "gm_wf (drLeases s)" and core: "dir_core P (map_of (drInstances s)) (map_of (drLeases s)) (epoch_of s)"
    using assms(1) by (auto simp: dir_inv_def)
  have ids: "j \<in> set (expired_ids now s) \<longleftrightarrow> (\<exists>x. map_of (drLeases s) j = Some x \<and> \<not> now < plExpiresAt x)" for j
    by (force simp: expired_ids_def gm_mem_iff [OF wf, symmetric])
  note e = expire_all_inv [OF assms(1-3) s']
  show "dir_inv P m s'" "dir_load s' = dir_load s" "drEpochs s' = drEpochs s"
    "unat (drRevision s) \<le> unat (drRevision s')"
    using e by auto
  show "map_of (drLeases s') i = Some l \<longleftrightarrow> map_of (drLeases s) i = Some l \<and> now < plExpiresAt l"
    using e ids [of i] by auto
  show "map_of (drInstances s') k = Some st \<longleftrightarrow>
      map_of (drInstances s) k = Some st \<and> now < piExpiresAt (siInstance st)"
  proof -
    have "siLeaseID st \<notin> set (expired_ids now s) \<longleftrightarrow> now < piExpiresAt (siInstance st)"
      if "map_of (drInstances s) k = Some st"
      using dir_core_instance(3) [OF core that] ids [of "siLeaseID st"] by auto
    then show ?thesis using e by auto
  qed
qed

section \<open>Operations keep the invariant\<close>

lemma normalizeRegistration_idem:
  assumes "normalizeRegistration P r = Inr r'"
  shows "normalizeRegistration P r' = Inr r'"
proof -
  let ?ns = "TrimSpace (rgNamespace r)"
  define t where "t = r\<lparr>rgNamespace := (if ?ns = [] then DefaultNamespace else ?ns),
      rgName := TrimSpace (rgName r), rgInstanceID := TrimSpace (rgInstanceID r),
      rgURI := TrimSpace (rgURI r)\<rparr>"
  have r': "r' = t" and v: "validateKey (registration_Key t) = None" "ManifestValidate (rgManifest t) = None"
    "mfName (rgManifest t) = rgName t" "validatePluginURI P (rgURI t) = None"
    "first_error validateLabel (rgLabels t) = None"
    using assms by (auto simp: normalizeRegistration_def Let_def check_Inr reject_if_None t_def)
  have "TrimSpace (rgNamespace t) = rgNamespace t" "rgNamespace t \<noteq> []"
    using v(1) by (auto simp: validateKey_def result_simps registration_Key_def)
  moreover have "TrimSpace (rgName t) = rgName t" "TrimSpace (rgInstanceID t) = rgInstanceID t"
    "TrimSpace (rgURI t) = rgURI t"
    by (simp_all add: t_def)
  ultimately have "t\<lparr>rgNamespace := (if TrimSpace (rgNamespace t) = [] then DefaultNamespace
      else TrimSpace (rgNamespace t)), rgName := TrimSpace (rgName t),
      rgInstanceID := TrimSpace (rgInstanceID t), rgURI := TrimSpace (rgURI t)\<rparr> = t"
    by simp
  then show ?thesis using v unfolding r' normalizeRegistration_def Let_def by simp
qed

text \<open>The shape of a successful registration.\<close>

lemma dir_register_Inr:
  assumes "dir_register P newID tok r ttl now m s = (s', changed, Inr lease)"
  obtains r' t ch token where "0 < ttl" "normalizeRegistration P r = Inr r'" "pruneExpired now m s = (t, ch)"
    "map_of (drInstances t) (instanceMapKey (registration_Key r')) = None" "tok = Inr token"
    "lease = \<lparr>plID = newID, plToken = token, plKey = registration_Key r', plExpiresAt = now + ttl,
       plEpoch = epoch_of t (instanceMapKey (registration_Key r')) + 1\<rparr>"
    "s' = appendChange \<lparr>pcRevision = drRevision t + 1, pcKind = ChangeUpsert,
        pcInstance = \<lparr>piRegistration = r', piRegisteredAt = now, piUpdatedAt = now, piExpiresAt = now + ttl,
          piRevision = drRevision t + 1, piEpoch = plEpoch lease\<rparr>\<rparr> m
      (t\<lparr>drEpochs := AList.update (instanceMapKey (registration_Key r')) (plEpoch lease) (drEpochs t),
         drRevision := drRevision t + 1,
         drInstances := AList.update (instanceMapKey (registration_Key r'))
           \<lparr>siInstance = \<lparr>piRegistration = r', piRegisteredAt = now, piUpdatedAt = now,
              piExpiresAt = now + ttl, piRevision = drRevision t + 1, piEpoch = plEpoch lease\<rparr>,
            siLeaseID = newID\<rparr> (drInstances t),
         drLeases := AList.update newID lease (drLeases t)\<rparr>)"
proof -
  obtain t ch where t: "pruneExpired now m s = (t, ch)" by fastforce
  have "0 < ttl" using assms by (auto simp: dir_register_def split: if_splits)
  moreover obtain r' where r': "normalizeRegistration P r = Inr r'"
    using assms \<open>0 < ttl\<close> by (auto simp: dir_register_def split: sum.splits)
  moreover have "map_of (drInstances t) (instanceMapKey (registration_Key r')) = None"
    using assms \<open>0 < ttl\<close> r' t by (auto simp: dir_register_def Let_def split: if_splits)
  moreover obtain token where "tok = Inr token"
    using assms \<open>0 < ttl\<close> r' t by (auto simp: dir_register_def Let_def split: if_splits sum.splits)
  ultimately show thesis
    using assms t by (intro that [of r' t ch token]) (auto simp: dir_register_def Let_def split: if_splits)
qed

lemma dir_register_failed:
  assumes "dir_register P newID tok r ttl now m s = (s', changed, Inl e)"
  shows "s' = s \<or> s' = fst (pruneExpired now m s)"
  using assms by (auto simp: dir_register_def Let_def split: if_splits sum.splits prod.splits)

lemma dir_inv_register:
  assumes inv: "dir_inv P m s" and m: "0 < m" and room: "dir_load s + 2 < 2 ^ 64"
    and fresh: "map_of (drLeases s) newID = None" and tok: "tok \<noteq> Inr []"
    and s': "dir_register P newID tok r ttl now m s = (s', changed, res)"
  shows "dir_inv P m s' \<and> dir_load s' \<le> dir_load s + 2"
proof -
  obtain t ch where t: "pruneExpired now m s = (t, ch)" by fastforce
  have room0: "dir_load s < 2 ^ 64" using room by simp
  note pr = pruneExpired_inv [OF inv m room0 t]
  show ?thesis
  proof (cases res)
    case (Inl e)
    then show ?thesis using dir_register_failed s' inv pr t by fastforce
  next
    case (Inr lease)
    from s' [unfolded Inr] obtain r' token where r': "normalizeRegistration P r = Inr r'"
      and free: "map_of (drInstances t) (instanceMapKey (registration_Key r')) = None"
      and token: "tok = Inr token"
      and lease: "lease = \<lparr>plID = newID, plToken = token, plKey = registration_Key r',
         plExpiresAt = now + ttl, plEpoch = epoch_of t (instanceMapKey (registration_Key r')) + 1\<rparr>"
      and eq: "s' = appendChange \<lparr>pcRevision = drRevision t + 1, pcKind = ChangeUpsert,
        pcInstance = \<lparr>piRegistration = r', piRegisteredAt = now, piUpdatedAt = now, piExpiresAt = now + ttl,
          piRevision = drRevision t + 1, piEpoch = plEpoch lease\<rparr>\<rparr> m
      (t\<lparr>drEpochs := AList.update (instanceMapKey (registration_Key r')) (plEpoch lease) (drEpochs t),
         drRevision := drRevision t + 1,
         drInstances := AList.update (instanceMapKey (registration_Key r'))
           \<lparr>siInstance = \<lparr>piRegistration = r', piRegisteredAt = now, piUpdatedAt = now,
              piExpiresAt = now + ttl, piRevision = drRevision t + 1, piEpoch = plEpoch lease\<rparr>,
            siLeaseID = newID\<rparr> (drInstances t),
         drLeases := AList.update newID lease (drLeases t)\<rparr>)"
      using t by (elim dir_register_Inr) auto
    let ?k = "instanceMapKey (registration_Key r')"
    have freshT: "map_of (drLeases t) newID = None"
    proof (rule ccontr)
      assume "map_of (drLeases t) newID \<noteq> None"
      then show False using pr(4) fresh by fastforce
    qed
    have inv_t: "gm_wf (drInstances t)" "gm_wf (drLeases t)" "log_ok (drRevision t) m (drChanges t)"
      "dir_core P (map_of (drInstances t)) (map_of (drLeases t)) (epoch_of t)"
      "drSchemaVersion t = stateSchemaVersion" "\<And>k. unat (epoch_of t k) \<le> unat (drRevision t)"
      using pr(1) by (auto simp: dir_inv_def)
    have roomT: "unat (drRevision t) + 1 < 2 ^ 64" using pr(2) room by (simp add: dir_load_def)
    have rv: "unat (drRevision t + 1) = unat (drRevision t) + 1" using roomT u64_succ [of _ 1] by simp
    have ep: "unat (plEpoch lease) = unat (epoch_of t ?k) + 1"
      using inv_t(6) [of ?k] roomT u64_succ [of "epoch_of t ?k" 1] lease by simp
    have epochs: "epoch_of s' = (epoch_of t)(?k := plEpoch lease)"
      unfolding eq by (rule ext) (simp add: epoch_of_def)
    let ?inst = "\<lparr>piRegistration = r', piRegisteredAt = now, piUpdatedAt = now, piExpiresAt = now + ttl,
      piRevision = drRevision t + 1, piEpoch = plEpoch lease\<rparr>"
    have l: "plID lease = newID" "plToken lease \<noteq> []" "plKey lease = registration_Key r'"
      "plExpiresAt lease = now + ttl"
      using token tok by (auto simp: lease)
    have "dir_core P ((map_of (drInstances t))(?k \<mapsto> \<lparr>siInstance = ?inst, siLeaseID = newID\<rparr>))
        ((map_of (drLeases t))(newID \<mapsto> lease)) ((epoch_of t)(?k := piEpoch ?inst))"
      by (rule dir_core_add [OF inv_t(4) free freshT])
        (use normalizeRegistration_idem [OF r'] l in auto)
    moreover have "map_of (drInstances s') = (map_of (drInstances t))(?k \<mapsto> \<lparr>siInstance = ?inst, siLeaseID = newID\<rparr>)"
      "map_of (drLeases s') = (map_of (drLeases t))(newID \<mapsto> lease)"
      unfolding eq by (simp_all add: map_of_put)
    ultimately have "dir_core P (map_of (drInstances s')) (map_of (drLeases s')) (epoch_of s')"
      by (simp only: epochs plugin_instance.simps)
    moreover have "log_ok (drRevision s') m (drChanges s')"
      unfolding eq using inv_t(3) m roomT
      by (simp only: appendChange_frame) (auto intro!: log_ok_append simp: change_kind_ok_def)
    moreover have "unat (epoch_of s' k) \<le> unat (drRevision s')" for k
    proof -
      have "unat (drRevision s') = unat (drRevision t) + 1" using rv by (simp add: eq)
      then show ?thesis using inv_t(6) [of k] inv_t(6) [of ?k] ep unfolding epochs by (cases "k = ?k") simp_all
    qed
    ultimately have "dir_inv P m s'"
      using inv_t(1,2,5) by (simp add: dir_inv_def eq)
    moreover have "dir_load s' \<le> dir_load s + 2"
      using pr(2) rv by (simp add: dir_load_def eq length_gm_update)
    ultimately show ?thesis by blast
  qed
qed

lemma dir_inv_renew:
  assumes inv: "dir_inv P m s" and m: "0 < m" and room: "dir_load s < 2 ^ 64"
    and s': "dir_renew cr ttl now m s = (s', changed, res)"
  shows "dir_inv P m s' \<and> dir_load s' = dir_load s"
proof (cases "map_of (drLeases s) (lcID cr)")
  case None
  then show ?thesis using s' inv by (auto simp: dir_renew_def split: if_splits)
next
  case (Some l)
  have "length (drLeases s) > 0" using Some by (cases "drLeases s") auto
  then have room1: "unat (drRevision s) + 1 < 2 ^ 64" using room unfolding dir_load_def by linarith
  have core: "dir_core P (map_of (drInstances s)) (map_of (drLeases s)) (epoch_of s)"
    using inv by (simp add: dir_inv_def)
  obtain st where st: "map_of (drInstances s) (instanceMapKey (plKey l)) = Some st"
    "siLeaseID st = lcID cr" "plID l = lcID cr"
    using dir_core_lease [OF core Some] by blast
  consider "s' = s" | "s' = expireLease l now m s" |
    "s' = s\<lparr>drLeases := AList.update (lcID cr) (l\<lparr>plExpiresAt := now + ttl\<rparr>) (drLeases s),
       drInstances := AList.update (instanceMapKey (plKey l))
         (st\<lparr>siInstance := (siInstance st)\<lparr>piExpiresAt := now + ttl, piUpdatedAt := now\<rparr>\<rparr>) (drInstances s)\<rparr>"
    using s' Some st by (auto simp: dir_renew_def Let_def split: if_splits)
  then show ?thesis
  proof cases
    case 2
    then show ?thesis
      using dir_inv_remove(1,4) [OF inv Some m room1, of ChangeExpire s' now] by (simp add: expireLease_def)
  next
    case 3
    have "epoch_of s' = epoch_of s" using 3 by (intro epoch_of_cong) simp
    moreover have "dir_core P (map_of (drInstances s')) (map_of (drLeases s')) (epoch_of s)"
      unfolding 3 using dir_core_renew [OF core Some refl st(1,2) refl refl] by (simp add: map_of_put)
    ultimately have "dir_inv P m s'" using inv 3 by (auto simp: dir_inv_def)
    then show ?thesis using 3 Some by (simp add: dir_load_def length_gm_update)
  qed (use inv in simp)
qed

lemma dir_inv_unregister:
  assumes inv: "dir_inv P m s" and m: "0 < m" and room: "dir_load s < 2 ^ 64"
    and s': "dir_unregister cr now m s = (s', changed, res)"
  shows "dir_inv P m s' \<and> dir_load s' = dir_load s"
proof (cases "map_of (drLeases s) (lcID cr)")
  case None
  then show ?thesis using s' inv by (auto simp: dir_unregister_def)
next
  case (Some l)
  have "length (drLeases s) > 0" using Some by (cases "drLeases s") auto
  then have room1: "unat (drRevision s) + 1 < 2 ^ 64" using room unfolding dir_load_def by linarith
  consider "s' = s" | kind where "s' = removeLease l kind now m s" "kind = ChangeDelete \<or> kind = ChangeExpire"
    using s' Some by (auto simp: dir_unregister_def expireLease_def split: if_splits)
  then show ?thesis
    using dir_inv_remove(1,4) [OF inv Some m room1] inv by cases auto
qed

lemma dir_inv_reads:
  assumes "dir_inv P m s" "0 < m" "dir_load s < 2 ^ 64"
  shows "dir_inv P m (fst (dir_get key now m s)) \<and> dir_load (fst (dir_get key now m s)) = dir_load s"
    "dir_inv P m (fst (dir_list q req now m s)) \<and> dir_load (fst (dir_list q req now m s)) = dir_load s"
    "dir_inv P m (fst (dir_poll preq now m s)) \<and> dir_load (fst (dir_poll preq now m s)) = dir_load s"
proof -
  obtain t ch where t: "pruneExpired now m s = (t, ch)" by fastforce
  have "fst (dir_get key now m s) = s \<or> fst (dir_get key now m s) = t"
    "fst (dir_list q req now m s) = s \<or> fst (dir_list q req now m s) = t"
    "fst (dir_poll preq now m s) = s \<or> fst (dir_poll preq now m s) = t"
    using t by (auto simp: dir_get_def dir_list_def dir_poll_def Let_def
        split: option.splits sum.splits prod.splits)
  then show "dir_inv P m (fst (dir_get key now m s)) \<and> dir_load (fst (dir_get key now m s)) = dir_load s"
    "dir_inv P m (fst (dir_list q req now m s)) \<and> dir_load (fst (dir_list q req now m s)) = dir_load s"
    "dir_inv P m (fst (dir_poll preq now m s)) \<and> dir_load (fst (dir_poll preq now m s)) = dir_load s"
    using pruneExpired_inv(1,2) [OF assms t] assms(1) by metis+
qed

section \<open>Runs\<close>

datatype dir_call =
    RRegister string "string result" registration duration gotime
  | RRenew lease_credential duration gotime
  | RUnregister lease_credential gotime
  | RGet instance_key gotime
  | RList discovery_query page_request gotime
  | RPoll poll_request gotime

fun dir_step :: "(string \<Rightarrow> go_url result) \<Rightarrow> int \<Rightarrow> dir_call \<Rightarrow> dir_state \<Rightarrow> dir_state" where
  "dir_step P m (RRegister newID tok r ttl now) s = fst (dir_register P newID tok r ttl now m s)"
| "dir_step P m (RRenew cr ttl now) s = fst (dir_renew cr ttl now m s)"
| "dir_step P m (RUnregister cr now) s = fst (dir_unregister cr now m s)"
| "dir_step P m (RGet key now) s = fst (dir_get key now m s)"
| "dir_step P m (RList q req now) s = fst (dir_list q req now m s)"
| "dir_step P m (RPoll req now) s = fst (dir_poll req now m s)"

text \<open>The lease IDs a call draws, and that a drawn token is not empty.\<close>

fun drawn :: "dir_call \<Rightarrow> string list" where
  "drawn (RRegister newID tok r ttl now) = [newID]"
| "drawn _ = []"

fun token_ok :: "dir_call \<Rightarrow> bool" where
  "token_ok (RRegister newID tok r ttl now) \<longleftrightarrow> tok \<noteq> Inr []"
| "token_ok _ \<longleftrightarrow> True"

lemma dir_step_leases:
  assumes "map_of (drLeases (dir_step P m c s)) i \<noteq> None" "dir_inv P m s" "0 < m" "dir_load s < 2 ^ 64"
  shows "map_of (drLeases s) i \<noteq> None \<or> i \<in> set (drawn c)"
proof -
  have pruned: "map_of (drLeases s) i \<noteq> None"
    if "map_of (drLeases (fst (pruneExpired now m s))) i \<noteq> None" for now
  proof -
    obtain t ch where t: "pruneExpired now m s = (t, ch)" by fastforce
    then show ?thesis using pruneExpired_inv(4) [OF assms(2-4) t] that by fastforce
  qed
  have removed: "map_of (drLeases s) i \<noteq> None" if "map_of (drLeases (removeLease l kind now m s)) i \<noteq> None" for l kind now
    using that by (auto simp: removeLease_def Let_def split: option.splits if_splits)
  show ?thesis
  proof (cases c)
    case (RRegister newID tok r ttl now)
    obtain s' ch res where r: "dir_register P newID tok r ttl now m s = (s', ch, res)" by (rule prod_cases3)
    show ?thesis
    proof (cases res)
      case (Inl e)
      then show ?thesis
        using dir_register_failed r pruned assms(1) RRegister by fastforce
    next
      case (Inr lease)
      then obtain t ch' where t: "pruneExpired now m s = (t, ch')"
        "drLeases s' = AList.update newID lease (drLeases t)"
        using r [unfolded Inr] by (elim dir_register_Inr) simp
      then show ?thesis
        using pruned [of now] assms(1) RRegister r by (auto split: if_splits)
    qed
  next
    case (RRenew cr ttl now)
    then show ?thesis
      using assms(1) removed by (auto simp: dir_renew_def expireLease_def Let_def split: if_splits option.splits)
  next
    case (RUnregister cr now)
    then show ?thesis
      using assms(1) removed by (auto simp: dir_unregister_def expireLease_def split: if_splits option.splits)
  next
    case (RGet key now)
    then show ?thesis
      using assms(1) pruned [of now]
      by (auto simp: dir_get_def Let_def split: if_splits option.splits prod.splits)
  next
    case (RList q req now)
    then show ?thesis
      using assms(1) pruned [of now] by (auto simp: dir_list_def Let_def split: sum.splits prod.splits)
  next
    case (RPoll req now)
    then show ?thesis
      using assms(1) pruned [of now] by (auto simp: dir_poll_def Let_def split: if_splits sum.splits prod.splits)
  qed
qed

lemma dir_inv_step:
  assumes "dir_inv P m s" "0 < m" "dir_load s + 2 * length (drawn c) < 2 ^ 64" "token_ok c"
    and "\<And>i. i \<in> set (drawn c) \<Longrightarrow> map_of (drLeases s) i = None"
  shows "dir_inv P m (dir_step P m c s) \<and> dir_load (dir_step P m c s) \<le> dir_load s + 2 * length (drawn c)"
proof (cases c)
  case (RRegister newID tok r ttl now)
  obtain s' ch res where r: "dir_register P newID tok r ttl now m s = (s', ch, res)" by (rule prod_cases3)
  then show ?thesis
    using dir_inv_register [OF assms(1,2) _ _ _ r] assms(3-5) RRegister by simp
next
  case (RRenew cr ttl now)
  obtain s' ch res where r: "dir_renew cr ttl now m s = (s', ch, res)" by (rule prod_cases3)
  then show ?thesis using dir_inv_renew [OF assms(1,2) _ r] assms(3) RRenew by simp
next
  case (RUnregister cr now)
  obtain s' ch res where r: "dir_unregister cr now m s = (s', ch, res)" by (rule prod_cases3)
  then show ?thesis using dir_inv_unregister [OF assms(1,2) _ r] assms(3) RUnregister by simp
qed (use dir_inv_reads [OF assms(1,2)] assms(3) in auto)

lemma dir_inv_run:
  assumes "dir_inv P m s" "0 < m" "dir_load s + 2 * length (concat (map drawn cs)) < 2 ^ 64"
    and "list_all token_ok cs" "distinct (concat (map drawn cs))"
    and "\<And>i. i \<in> set (concat (map drawn cs)) \<Longrightarrow> map_of (drLeases s) i = None"
  shows "dir_inv P m (run_calls (dir_step P m) cs s)"
  using assms
proof (induction cs arbitrary: s)
  case (Cons c cs)
  let ?t = "dir_step P m c s"
  have step: "dir_inv P m ?t" "dir_load ?t \<le> dir_load s + 2 * length (drawn c)"
    using dir_inv_step [OF Cons.prems(1,2), of c] Cons.prems(3,4,6) by auto
  have "map_of (drLeases ?t) i = None" if i: "i \<in> set (concat (map drawn cs))" for i
  proof -
    have "i \<notin> set (drawn c)" using Cons.prems(5) i by auto
    moreover have "map_of (drLeases s) i = None" using Cons.prems(6) i by auto
    moreover have "dir_load s < 2 ^ 64" using Cons.prems(3) by simp
    ultimately show ?thesis using dir_step_leases [OF _ Cons.prems(1,2)] by blast
  qed
  then show ?case using Cons.IH [OF step(1) Cons.prems(2)] step(2) Cons.prems(3-5) by simp
qed simp

lemma dir_inv_new: "0 < m \<Longrightarrow> dir_inv P m newDirectoryState"
  by (simp add: dir_inv_def newDirectoryState_def dir_core_def log_ok_def epoch_of_def)

lemma validate_changes_ok:
  assumes "list_all change_kind_ok cs" "map (\<lambda>c. unat (pcRevision c)) cs = [n..<Suc (unat current)]"
    and "unat revision < n"
  shows "validate_changes current revision cs = None"
  using assms
proof (induction cs arbitrary: n revision)
  case (Cons c cs)
  have n: "n \<le> unat current" "unat (pcRevision c) = n"
    "map (\<lambda>c. unat (pcRevision c)) cs = [Suc n..<Suc (unat current)]"
  proof -
    have "n < Suc (unat current)" using Cons.prems(2) by (metis list.distinct(1) list.simps(9) upt_eq_Nil_conv not_le_imp_less less_imp_not_less linorder_not_le)
    then show "n \<le> unat current" "unat (pcRevision c) = n"
      "map (\<lambda>c. unat (pcRevision c)) cs = [Suc n..<Suc (unat current)]"
      using Cons.prems(2) by (auto simp: upt_conv_Cons simp del: upt_Suc)
  qed
  have "\<not> (pcRevision c \<le> revision \<or> pcRevision c > current)"
    using n(1,2) Cons.prems(3) by (auto simp: word_le_nat_alt word_less_nat_alt)
  moreover have "validate_changes current (pcRevision c) cs = None"
    using Cons.prems(1) n(2,3) by (intro Cons.IH) auto
  moreover have "pcKind c \<in> {ChangeUpsert, ChangeDelete, ChangeExpire}"
    using Cons.prems(1) by (simp add: change_kind_ok_def)
  ultimately show ?case by (auto simp: result_simps)
qed simp

lemma dir_inv_validates:
  assumes "dir_inv P m s"
  shows "dir_validate P s = None"
proof -
  have core: "dir_core P (map_of (drInstances s)) (map_of (drLeases s)) (epoch_of s)"
    and wf: "gm_wf (drInstances s)" "gm_wf (drLeases s)" and log: "log_ok (drRevision s) m (drChanges s)"
    and v: "drSchemaVersion s = stateSchemaVersion"
    using assms by (auto simp: dir_inv_def)
  have norm: "dir_normalize s = s" using v by (simp add: dir_normalize_def stateSchemaVersion_def)
  have "validate_instance P s (k, st) = None" if k: "(k, st) \<in> set (drInstances s)" for k st
    using dir_core_instance [OF core] k gm_mem_iff [OF wf(1)]
    by (fastforce simp: validate_instance_def result_simps not_less)
  moreover have "validate_lease s (i, l) = None" if i: "(i, l) \<in> set (drLeases s)" for i l
    using dir_core_lease [OF core] i gm_mem_iff [OF wf(2)]
    by (fastforce simp: validate_lease_def result_simps)
  moreover have "validate_changes (drRevision s) 0 (drChanges s) = None"
    using log by (intro validate_changes_ok [of _ "Suc (unat (drRevision s)) - length (drChanges s)"])
      (auto simp: log_ok_def)
  ultimately show ?thesis
    by (auto simp: dir_validate_def norm result_simps v Let_def)
qed

end
