(* ===== verification/Registry_Properties.thy ===== *)
theory Registry_Properties
  imports Registry_Invariants
begin

text \<open>
  What the directory promises to its clients, on the state and on the in-memory directory.
\<close>

section \<open>A sample directory\<close>

text \<open>A URL parser that finds a scheme and a path in every text.\<close>

definition url_demo :: "string \<Rightarrow> go_url result" where
  "url_demo raw = Inr \<lparr>urlScheme = ''unix'', urlHost = [], urlOpaque = [], urlPath = raw\<rparr>"

definition registration_demo :: "string \<Rightarrow> registration" where
  "registration_demo i = \<lparr>rgNamespace = [], rgName = ''echo'', rgInstanceID = i, rgURI = ''unix:/run/echo'',
     rgManifest = \<lparr>mfName = ''echo'', mfVersion = ''1.0.0'', mfDescription = ''Echo'', mfAPIVersion = APIVersion,
       mfMinAPIVersion = 0, mfMaxAPIVersion = 0, mfRequires = [], mfConflicts = [], mfRegisters = []\<rparr>,
     rgLabels = []\<rparr>"

definition calls_demo :: "dir_call list" where
  "calls_demo = [RRegister ''l1'' (Inr ''t1'') (registration_demo ''a'') 10 100,
     RRegister ''l2'' (Inr ''t2'') (registration_demo ''b'') 50 105,
     RRenew \<lparr>lcID = ''l2'', lcToken = ''t2''\<rparr> 60 106, RGet (registration_Key (registration_demo ''a'')) 110]"

definition dir_demo :: dir_state where
  "dir_demo = run_calls (dir_step url_demo 8) calls_demo newDirectoryState"

lemma dir_inv_demo: "dir_inv url_demo 8 dir_demo"
  unfolding dir_demo_def
  by (rule dir_inv_run [OF dir_inv_new])
    (auto simp: calls_demo_def newDirectoryState_def dir_load_def)

lemma dir_load_demo: "dir_load dir_demo = 4" "drRevision dir_demo = 3"
  by code_simp+

text \<open>
  C5: Whatever calls plugins and clients make, the directory state passes the check that
  the durable directories apply when they load it: instances and leases match one to one,
  epochs are recorded, and the change revisions increase (lease IDs are drawn fresh and
  tokens are not empty).
\<close>

theorem dir_run_validates:
  assumes "0 < m" "list_all token_ok cs" "distinct (concat (map drawn cs))"
    and "2 * length (concat (map drawn cs)) < 2 ^ 64"
  shows "dir_validate P (run_calls (dir_step P m) cs newDirectoryState) = None"
  by (rule dir_inv_validates, rule dir_inv_run [OF dir_inv_new [OF assms(1)]])
    (use assms in \<open>auto simp: newDirectoryState_def dir_load_def\<close>)

theorem dir_run_validates_witness:
  "dir_validate url_demo (run_calls (dir_step url_demo 8) calls_demo newDirectoryState) = None"
  by (rule dir_run_validates) (auto simp: calls_demo_def)

text \<open>
  C38: One live instance per key. \<open>register\<close> succeeds only when no unexpired instance is
  registered under the key, and the new epoch is larger than every earlier one of the key;
  while one is live, every other registration of the key fails with
  \<open>ErrInstanceConflict\<close>.
\<close>

theorem dir_register_exclusive:
  assumes "dir_inv P m s" "0 < m" "dir_load s + 2 < 2 ^ 64" "normalizeRegistration P r = Inr r'" "0 < ttl"
    and "k = instanceMapKey (registration_Key r')"
    and "dir_register P newID (Inr token) r ttl now m s = (s', changed, res)"
  shows "if \<exists>st. map_of (drInstances s) k = Some st \<and> now < piExpiresAt (siInstance st)
    then \<exists>e. res = Inl e \<and> errors_is e ErrInstanceConflict
    else \<exists>lease. res = Inr lease \<and> plKey lease = registration_Key r' \<and> plExpiresAt lease = now + ttl \<and>
      epoch_of s k < plEpoch lease \<and> epoch_of s' k = plEpoch lease \<and>
      (\<exists>st. map_of (drInstances s') k = Some st \<and> siLeaseID st = plID lease) \<and>
      (\<forall>st. map_of (drInstances s) k = Some st \<longrightarrow> piEpoch (siInstance st) < plEpoch lease)"
proof -
  obtain t ch where t: "pruneExpired now m s = (t, ch)" by fastforce
  have load: "dir_load s < 2 ^ 64" using assms(3) by simp
  note pr = pruneExpired_inv [OF assms(1,2) load t]
  show ?thesis
  proof (cases "\<exists>st. map_of (drInstances s) k = Some st \<and> now < piExpiresAt (siInstance st)")
    case True
    then have "map_of (drInstances t) k \<noteq> None" using pr(5) by blast
    then show ?thesis
      using True assms(4-7) t by (auto simp: dir_register_def Let_def)
  next
    case False
    then have free: "map_of (drInstances t) k = None" using pr(5) by (metis not_None_eq)
    then obtain lease where lease: "res = Inr lease" "plKey lease = registration_Key r'"
      "plExpiresAt lease = now + ttl" "plEpoch lease = epoch_of t k + 1" "plID lease = newID"
      "epoch_of s' k = plEpoch lease"
      "\<exists>st. map_of (drInstances s') k = Some st \<and> siLeaseID st = newID"
      using assms(4-7) t by (auto simp: dir_register_def Let_def epoch_of_def)
    have epoch: "epoch_of t k = epoch_of s k" using pr(3) epoch_of_cong by metis
    have "unat (epoch_of s k) + 1 < 2 ^ 64"
    proof -
      have "unat (epoch_of s k) \<le> unat (drRevision s)" using assms(1) unfolding dir_inv_def by blast
      then show ?thesis using assms(3) unfolding dir_load_def by linarith
    qed
    then have less: "epoch_of s k < plEpoch lease"
      using u64_succ [of "epoch_of s k" 1] by (simp add: word_less_nat_alt lease(4) epoch)
    have core: "dir_core P (map_of (drInstances s)) (map_of (drLeases s)) (epoch_of s)"
      using assms(1) by (simp add: dir_inv_def)
    have "piEpoch (siInstance st) \<le> epoch_of s k" if "map_of (drInstances s) k = Some st" for st
      by (rule dir_core_instance(4) [OF core that])
    then show ?thesis using False lease less by (auto intro: order_le_less_trans)
  qed
qed

theorem dir_register_exclusive_witness:
  "\<exists>s' changed e. dir_register url_demo ''l3'' (Inr ''t3'') (registration_demo ''b'') 50 120 8 dir_demo =
     (s', changed, Inl e) \<and> errors_is e ErrInstanceConflict"
proof -
  obtain s' changed res where r: "dir_register url_demo ''l3'' (Inr ''t3'') (registration_demo ''b'') 50 120 8 dir_demo =
     (s', changed, res)" by (rule prod_cases3)
  let ?r' = "(registration_demo ''b'')\<lparr>rgNamespace := DefaultNamespace\<rparr>"
  have n: "normalizeRegistration url_demo (registration_demo ''b'') = Inr ?r'" by code_simp
  have live: "\<exists>st. map_of (drInstances dir_demo) (instanceMapKey (registration_Key ?r')) = Some st \<and>
      120 < piExpiresAt (siInstance st)"
  proof -
    have "case map_of (drInstances dir_demo) (instanceMapKey (registration_Key ?r')) of
        Some st \<Rightarrow> 120 < piExpiresAt (siInstance st) | None \<Rightarrow> False" by code_simp
    then show ?thesis by (auto split: option.splits)
  qed
  from dir_register_exclusive [OF dir_inv_demo _ _ n _ refl r] live dir_load_demo(1)
  show ?thesis using r by auto
qed

text \<open>
  C40: A lost lease stays lost. Once the directory no longer holds a lease ID (it expired,
  was unregistered or replaced), renewing or unregistering with it fails with
  \<open>ErrLeaseNotFound\<close> and changes nothing, whatever calls run in between, until the ID
  is drawn again.
\<close>

theorem dir_lost_lease_rejected:
  assumes "dir_inv P m s" "0 < m" "dir_load s + 2 * length (concat (map drawn cs)) < 2 ^ 64"
    and "list_all token_ok cs" "distinct (concat (map drawn cs))"
    and "\<And>j. j \<in> set (concat (map drawn cs)) \<Longrightarrow> map_of (drLeases s) j = None"
    and "map_of (drLeases s) (lcID cr) = None" "lcID cr \<notin> set (concat (map drawn cs))"
    and "s' = run_calls (dir_step P m) cs s" "0 < ttl"
  shows "(\<exists>e. dir_renew cr ttl now m s' = (s', False, Inl e) \<and> errors_is e ErrLeaseNotFound) \<and>
    (\<exists>e. dir_unregister cr now m s' = (s', False, Some e) \<and> errors_is e ErrLeaseNotFound)"
proof -
  have "map_of (drLeases (run_calls (dir_step P m) cs s)) (lcID cr) = None"
    using assms(1,3-8)
  proof (induction cs arbitrary: s)
    case (Cons c cs)
    let ?t = "dir_step P m c s"
    have load: "dir_load s < 2 ^ 64" using Cons.prems(2) by simp
    have step: "dir_inv P m ?t" "dir_load ?t \<le> dir_load s + 2 * length (drawn c)"
      using dir_inv_step [OF Cons.prems(1) assms(2), of c] Cons.prems(2,3,5) by auto
    have keep: "map_of (drLeases ?t) i = None" if "map_of (drLeases s) i = None" "i \<notin> set (drawn c)" for i
      using dir_step_leases [OF _ Cons.prems(1) assms(2) load] that by blast
    have fresh: "map_of (drLeases ?t) j = None" if "j \<in> set (concat (map drawn cs))" for j
      using Cons.prems(4,5) that by (intro keep) auto
    have lost: "map_of (drLeases ?t) (lcID cr) = None" using Cons.prems(6,7) by (intro keep) auto
    have "map_of (drLeases (run_calls (dir_step P m) cs ?t)) (lcID cr) = None"
      by (rule Cons.IH [OF step(1) _ _ _ fresh lost]) (use step(2) Cons.prems(2-7) in auto)
    then show ?case by simp
  qed simp
  then show ?thesis using assms(9,10) by (simp add: dir_renew_def dir_unregister_def)
qed

theorem dir_lost_lease_rejected_witness:
  "\<exists>s' e. s' = run_calls (dir_step url_demo 8) [RGet (registration_Key (registration_demo ''a'')) 115] dir_demo \<and>
     dir_renew \<lparr>lcID = ''l1'', lcToken = ''t1''\<rparr> 10 116 8 s' = (s', False, Inl e) \<and> errors_is e ErrLeaseNotFound"
proof -
  have "map_of (drLeases dir_demo) (lcID \<lparr>lcID = ''l1'', lcToken = ''t1''\<rparr>) = None" by code_simp
  then show ?thesis
    using dir_lost_lease_rejected [OF dir_inv_demo _ _ _ _ _ _ _ refl, of
        "[RGet (registration_Key (registration_demo ''a'')) 115]" "\<lparr>lcID = ''l1'', lcToken = ''t1''\<rparr>" 10 116]
      dir_load_demo(1) by auto
qed

section \<open>Polling\<close>

lemma poll_changes_spec:
  assumes "sorted_wrt (<) (map pcRevision cs)" "length acc < limit"
    and "list_all (\<lambda>c. pcRevision c \<le> current) cs" "after \<le> current"
    and "poll_changes q after limit current acc cs = (changes, next)"
  shows "changes = rev acc @ filter (\<lambda>c. after < pcRevision c \<and> pcRevision c \<le> next \<and>
        registry_matches (pcInstance c) q) cs \<and> after \<le> next \<and> next \<le> current \<and>
    (next = current \<or> length changes = limit \<and> after < next)"
  using assms
proof (induction cs arbitrary: acc)
  case (Cons c cs)
  have later: "\<forall>x\<in>set cs. pcRevision c < pcRevision x" using Cons.prems(1) by simp
  show ?case
  proof (cases "after < pcRevision c")
    case False
    then have p: "poll_changes q after limit current acc cs = (changes, next)"
      using Cons.prems(5) by (simp add: not_less)
    have "changes = rev acc @ filter (\<lambda>c. after < pcRevision c \<and> pcRevision c \<le> next \<and>
          registry_matches (pcInstance c) q) cs \<and> after \<le> next \<and> next \<le> current \<and>
        (next = current \<or> length changes = limit \<and> after < next)"
      using Cons.prems(1,3) by (intro Cons.IH [OF _ Cons.prems(2) _ Cons.prems(4) p]) auto
    then show ?thesis unfolding filter.simps(2) using False by argo
  next
    case True
    then have nle: "\<not> pcRevision c \<le> after" by (rule not_le [THEN iffD2])
    show ?thesis
    proof (cases "registry_matches (pcInstance c) q")
      case False
      then have p: "poll_changes q after limit current acc cs = (changes, next)"
        using Cons.prems(5) by (simp add: nle)
      have "changes = rev acc @ filter (\<lambda>c. after < pcRevision c \<and> pcRevision c \<le> next \<and>
            registry_matches (pcInstance c) q) cs \<and> after \<le> next \<and> next \<le> current \<and>
          (next = current \<or> length changes = limit \<and> after < next)"
        using Cons.prems(1,3) by (intro Cons.IH [OF _ Cons.prems(2) _ Cons.prems(4) p]) auto
      then show ?thesis unfolding filter.simps(2) using False by argo
    next
      case match: True
      show ?thesis
      proof (cases "Suc (length acc) = limit")
        case full: True
        have "filter (\<lambda>x. after < pcRevision x \<and> pcRevision x \<le> pcRevision c \<and>
            registry_matches (pcInstance x) q) cs = []"
          using later by (auto simp: filter_empty_conv)
        then show ?thesis using Cons.prems full True match by (auto simp: nle)
      next
        case False
        then have p: "poll_changes q after limit current (c # acc) cs = (changes, next)"
          using Cons.prems(5) match by (simp add: nle)
        have len: "length (c # acc) < limit" using False Cons.prems(2) by simp
        from Cons.IH [OF _ len _ Cons.prems(4) p] Cons.prems(1,3)
        have ih: "changes = rev (c # acc) @ filter (\<lambda>x. after < pcRevision x \<and> pcRevision x \<le> next \<and>
            registry_matches (pcInstance x) q) cs" "after \<le> next" "next \<le> current"
          "next = current \<or> length changes = limit \<and> after < next"
          by auto
        have "pcRevision c \<le> next"
        proof (cases "next = current")
          case True
          then show ?thesis using Cons.prems(3) by simp
        next
          case False
          then have "length changes = limit" using ih(4) by blast
          then have "filter (\<lambda>x. after < pcRevision x \<and> pcRevision x \<le> next \<and>
              registry_matches (pcInstance x) q) cs \<noteq> []"
            using ih(1) len by auto
          then obtain x where "x \<in> set cs" "pcRevision x \<le> next"
            unfolding filter_empty_conv by blast
          then show ?thesis using later by auto
        qed
        then show ?thesis using ih True match by simp
      qed
    qed
  qed
qed auto

lemma log_revisions:
  assumes "log_ok rv m cs"
  shows "sorted_wrt (<) (map pcRevision cs)" "list_all (\<lambda>c. pcRevision c \<le> rv) cs"
    "unat r \<in> set [Suc (unat rv) - length cs..<Suc (unat rv)] \<Longrightarrow> \<exists>c\<in>set cs. pcRevision c = r"
    "cs \<noteq> [] \<Longrightarrow> unat (pcRevision (hd cs)) = Suc (unat rv) - length cs"
proof -
  have u: "map (\<lambda>c. unat (pcRevision c)) cs = [Suc (unat rv) - length cs..<Suc (unat rv)]"
    using assms by (simp add: log_ok_def)
  have "sorted_wrt (<) (map (\<lambda>c. unat (pcRevision c)) cs)" unfolding u by (rule sorted_wrt_upt)
  then show "sorted_wrt (<) (map pcRevision cs)" by (simp add: sorted_wrt_map word_less_nat_alt)
  have mem: "unat (pcRevision c) \<in> set [Suc (unat rv) - length cs..<Suc (unat rv)]" if "c \<in> set cs" for c
    using that u by (metis (mono_tags, lifting) image_eqI list.set_map)
  then show "list_all (\<lambda>c. pcRevision c \<le> rv) cs"
    by (force simp: list_all_iff word_le_nat_alt)
  show "\<exists>c\<in>set cs. pcRevision c = r" if "unat r \<in> set [Suc (unat rv) - length cs..<Suc (unat rv)]"
  proof -
    have "unat r \<in> (\<lambda>c. unat (pcRevision c)) ` set cs" using that u by (metis list.set_map)
    then obtain c where "c \<in> set cs" "unat r = unat (pcRevision c)" by blast
    then show ?thesis by (metis word_unat_eq_iff)
  qed
  show "unat (pcRevision (hd cs)) = Suc (unat rv) - length cs" if "cs \<noteq> []"
  proof -
    have "hd (map (\<lambda>c. unat (pcRevision c)) cs) = hd [Suc (unat rv) - length cs..<Suc (unat rv)]"
      by (simp only: u)
    moreover have "Suc (unat rv) - length cs < Suc (unat rv)" using that by (cases cs) auto
    ultimately show ?thesis using that by (simp add: hd_map hd_upt del: upt_Suc)
  qed
qed

text \<open>
  C39: What a poll page holds: exactly the changes of the log after the client's revision up
  to the page's next revision that match its query, in order; the next revision moves
  forward unless the client is up to date, and a page that stops early is full. A client
  that continues from a positive revision misses nothing: every revision of the span is
  still in the log, so no matching change was trimmed. The same holds at revision 0 while
  the log was never trimmed, but not on a trimmed log: there a poll with
  \<open>AfterRevision = 0\<close> skips the check of the cursor and starts with what the log still has.
\<close>

theorem dir_poll_no_gaps:
  assumes "dir_inv P m s" "0 < m" "dir_load s < 2 ^ 64"
    and "dir_poll request now m s = (s', changed, Inr page)" "validatePoll request = Inr request'"
  shows "cpChanges page = filter (\<lambda>c. prAfterRevision request' < pcRevision c \<and>
        pcRevision c \<le> cpNextRevision page \<and> registry_matches (pcInstance c) (prQuery request')) (drChanges s') \<and>
    prAfterRevision request' \<le> cpNextRevision page \<and> cpNextRevision page \<le> drRevision s' \<and>
    (cpNextRevision page = drRevision s' \<or>
      int (length (cpChanges page)) = prLimit request' \<and> prAfterRevision request' < cpNextRevision page) \<and>
    (0 < prAfterRevision request' \<or> length (drChanges s') = unat (drRevision s') \<longrightarrow>
      (\<forall>r. prAfterRevision request' < r \<and> r \<le> cpNextRevision page \<longrightarrow>
        (\<exists>c\<in>set (drChanges s'). pcRevision c = r)))"
proof -
  obtain t ch where t: "pruneExpired now m s = (t, ch)" by fastforce
  note pr = pruneExpired_inv [OF assms(1-3) t]
  let ?a = "prAfterRevision request'"
  have limit: "1 \<le> prLimit request'"
    using assms(5) by (auto simp: validatePoll_def result_simps Let_def split: if_splits)
  have ahead: "\<not> ?a > drRevision t"
    and old: "\<not> (?a > 0 \<and> length (drChanges t) > 0 \<and> ?a + 1 < pcRevision (hd (drChanges t)))"
    using assms(4,5) t by (auto simp: dir_poll_def split: if_splits prod.splits)
  obtain changes nx where p: "poll_changes (prQuery request') ?a (nat (prLimit request')) (drRevision t) []
      (drChanges t) = (changes, nx)" by fastforce
  have s': "s' = t" "cpChanges page = changes" "cpNextRevision page = nx"
    using assms(4,5) t p ahead old by (auto simp: dir_poll_def split: if_splits)
  have log: "log_ok (drRevision t) m (drChanges t)" using pr(1) by (simp add: dir_inv_def)
  note lr = log_revisions [OF log]
  have "changes = rev [] @ filter (\<lambda>c. ?a < pcRevision c \<and> pcRevision c \<le> nx \<and>
        registry_matches (pcInstance c) (prQuery request')) (drChanges t) \<and> ?a \<le> nx \<and> nx \<le> drRevision t \<and>
    (nx = drRevision t \<or> length changes = nat (prLimit request') \<and> ?a < nx)"
    using limit ahead by (intro poll_changes_spec [OF lr(1) _ lr(2) _ p]) auto
  then have spec: "changes = filter (\<lambda>c. ?a < pcRevision c \<and> pcRevision c \<le> nx \<and>
        registry_matches (pcInstance c) (prQuery request')) (drChanges t)" "?a \<le> nx" "nx \<le> drRevision t"
    "nx = drRevision t \<or> length changes = nat (prLimit request') \<and> ?a < nx"
    by (simp, blast, blast, blast)
  have "\<exists>c\<in>set (drChanges t). pcRevision c = r"
    if r: "?a < r" "r \<le> nx" and kept: "0 < ?a \<or> length (drChanges t) = unat (drRevision t)" for r
  proof (rule lr(3))
    have r': "unat ?a < unat r" "unat r \<le> unat (drRevision t)"
      using r spec(3) by (auto simp: word_less_nat_alt word_le_nat_alt)
    have "Suc (unat (drRevision t)) - length (drChanges t) \<le> unat r"
    proof (cases "0 < ?a")
      case True
      have ne: "drChanges t \<noteq> []"
        using log r'(1,2) by (auto simp: log_ok_def)
      have "unat (?a + 1) = unat ?a + 1"
        using r'(1) unsigned_less [of r, where ?'a = nat] by (intro u64_succ [of _ 1]) auto
      then have "unat (pcRevision (hd (drChanges t))) \<le> unat ?a + 1"
        using old True ne by (auto simp: word_less_nat_alt)
      then show ?thesis using lr(4) [OF ne] r'(1) by simp
    next
      case False
      then show ?thesis using kept r'(1) by simp
    qed
    then show "unat r \<in> set [Suc (unat (drRevision t)) - length (drChanges t)..<Suc (unat (drRevision t))]"
      using r'(2) by auto
  qed
  then show ?thesis using spec s' limit by auto
qed

theorem dir_poll_no_gaps_witness:
  "\<exists>s' changed page. dir_poll \<lparr>prQuery = \<lparr>dqNamespace = [], dqName = ''echo'', dqVersion = [], dqResource = [],
       dqLabels = []\<rparr>, prAfterRevision = 1, prLimit = 1, prWait = 0\<rparr> 120 8 dir_demo = (s', changed, Inr page) \<and>
     (\<forall>r. 1 < r \<and> r \<le> cpNextRevision page \<longrightarrow> (\<exists>c\<in>set (drChanges s'). pcRevision c = r))"
proof -
  let ?q = "\<lparr>prQuery = \<lparr>dqNamespace = [], dqName = ''echo'', dqVersion = [], dqResource = [],
       dqLabels = []\<rparr>, prAfterRevision = 1, prLimit = 1, prWait = 0\<rparr>"
  obtain s' changed res where p: "dir_poll ?q 120 8 dir_demo = (s', changed, res)" by (rule prod_cases3)
  have "\<not> (case dir_poll ?q 120 8 dir_demo of (s', changed, res) \<Rightarrow> case res of Inl e \<Rightarrow> True | Inr page \<Rightarrow> False)"
    by code_simp
  then obtain page where page: "res = Inr page" using p by (cases res) auto
  have v: "validatePoll ?q = Inr ?q" by code_simp
  from dir_poll_no_gaps [OF dir_inv_demo _ _ p [unfolded page] v] dir_load_demo(1)
  show ?thesis using p page by auto
qed

end
