(* ===== verification/State_Backend.thy ===== *)
theory State_Backend
  imports Trajectory_Fencing Operation_Store Delivery_Store Context_Queue
begin

text \<open>
  The in-memory state backend (\<open>sdk/storage/backend_memory.go\<close> and the shared part of
  \<open>storage.go\<close>): the stores together, the named delivery queues, and the retention run
  that prunes operations, deliveries and trajectories. Every store call of a retention run
  looks at the context: \<open>ctx n\<close> is its state at the \<open>n\<close>-th call.
\<close>

section \<open>The backend\<close>

record retention_policy =
  rpOperationsBefore :: gotime
  rpDeliveriesBefore :: gotime
  rpTrajectoriesBefore :: gotime

record prune_result =
  prOperations :: int
  prDeliveries :: int
  prTrajectories :: int

record state_backend =
  bkTrajectories :: tj_store
  bkOperations :: op_store
  bkDeliveries :: "dv_store gomap"
  bkContextInjections :: ci_store
  bkNamespace :: string

definition newMemoryStateBackend :: "string \<Rightarrow> state_backend" where
  "newMemoryStateBackend namespace =
     (let namespace = (if TrimSpace namespace = [] then ''default'' else namespace) in
      \<lparr>bkTrajectories = newMemoryTrajectoryStore, bkOperations = newMemoryOperationStore, bkDeliveries = [],
       bkContextInjections = newMemoryContextInjectionStore, bkNamespace = namespace\<rparr>)"

text \<open>The store of a queue: opened on first use, then always the same.\<close>

definition bk_delivery :: "string \<Rightarrow> state_backend \<Rightarrow> state_backend \<times> dv_store result" where
  "bk_delivery name b =
     (case ValidateResourceName ''delivery queue'' name of
        Some e \<Rightarrow> (b, Inl e)
      | None \<Rightarrow>
          (case map_of (bkDeliveries b) name of
             Some existing \<Rightarrow> (b, Inr existing)
           | None \<Rightarrow> (b\<lparr>bkDeliveries := AList.update name newMemoryDeliveryStore (bkDeliveries b)\<rparr>,
               Inr newMemoryDeliveryStore)))"

lemma bk_delivery_stable:
  assumes "bk_delivery name b = (b', Inr queue)"
  shows "bk_delivery name b' = (b', Inr queue)" "map_of (bkDeliveries b') name = Some queue"
    "other \<noteq> name \<Longrightarrow> map_of (bkDeliveries b') other = map_of (bkDeliveries b) other"
  using assms by (auto simp: bk_delivery_def update_conv' split: option.splits)

text \<open>A \<open>memory:\<close> URI, as far as the driver looks at it.\<close>

record memory_uri =
  muHost :: string
  muPath :: string
  muOpaque :: string
  muNamespace :: string

definition memoryStorageDriver_Open :: "memory_uri option \<Rightarrow> state_backend result" where
  "memoryStorageDriver_Open parsed =
     (case parsed of
        None \<Rightarrow> Inl (Errorf ''memory storage URI is nil'')
      | Some u \<Rightarrow>
          check (reject_if (muHost u \<noteq> [] \<and> muHost u \<noteq> ''local'' \<or> muPath u \<noteq> [] \<and> muPath u \<noteq> ''/'' \<or> muOpaque u \<noteq> [])
            (Errorf ''memory storage URI %q must target local without a path''))
          (let namespace = (if TrimSpace (muNamespace u) \<noteq> [] then muNamespace u else ''default'') in
           check (ValidateResourceName ''storage namespace'' namespace) (Inr (newMemoryStateBackend namespace))))"

section \<open>Retention\<close>

definition active_summary :: "tj_summary \<Rightarrow> bool" where
  "active_summary item \<longleftrightarrow> tuExecutionState item = TrajectoryExecutionPending \<or>
     tuExecutionState item = TrajectoryExecutionRunning"

text \<open>The loop over the queues.\<close>

fun prune_queues ::
  "(nat \<Rightarrow> ctx) \<Rightarrow> nat \<Rightarrow> gotime \<Rightarrow> dv_store gomap \<Rightarrow> int \<Rightarrow> dv_store gomap \<times> int \<times> error option" where
  "prune_queues ctx n before [] removed = ([], removed, None)"
| "prune_queues ctx n before ((name, queue) # queues) removed =
     (case ds_PurgeTerminal (ctx n) before queue of
        (queue', Inl e) \<Rightarrow> ((name, queue') # queues, removed, Some e)
      | (queue', Inr k) \<Rightarrow>
          (case prune_queues ctx (Suc n) before queues (removed + k) of
             (queues', removed', r) \<Rightarrow> ((name, queue') # queues', removed', r)))"

text \<open>The loop over the trajectories, the last one first.\<close>

fun prune_trajectories ::
  "(nat \<Rightarrow> ctx) \<Rightarrow> nat \<Rightarrow> gotime \<Rightarrow> tj_summary list \<Rightarrow> tj_store \<Rightarrow> int \<Rightarrow> tj_store \<times> int \<times> error option" where
  "prune_trajectories ctx n before [] s removed = (s, removed, None)"
| "prune_trajectories ctx n before (item # items) s removed =
     (if tuUpdatedAt item < before then
        (case ts_Delete (ctx n) (tuID item) s of
           (s', Inl e) \<Rightarrow>
             if errors_is e ErrTrajectoryReferenced \<or> errors_is e ErrTrajectoryExecution
             then prune_trajectories ctx (Suc n) before items s' removed
             else (s', removed, Some e)
         | (s', Inr _) \<Rightarrow> prune_trajectories ctx (Suc n) before items s' (removed + 1))
      else prune_trajectories ctx n before items s removed)"

text \<open>The three phases of \<open>pruneState\<close>; each returns at an error with what was done.\<close>

definition prune_operations_phase ::
  "(nat \<Rightarrow> ctx) \<Rightarrow> retention_policy \<Rightarrow> state_backend \<Rightarrow> prune_result \<Rightarrow> state_backend \<times> prune_result \<times> error option" where
  "prune_operations_phase ctx policy b result =
     (if rpOperationsBefore policy = 0 then (b, result, None)
      else case ts_List (ctx 0) (bkTrajectories b) of
        Inl e \<Rightarrow> (b, result, Some e)
      | Inr items \<Rightarrow>
          (case first_error (\<lambda>item. reject_if (active_summary item) (Wrapf ErrTrajectoryExecution
               ''%w: cannot prune operations while trajectory %s execution %s is active'')) items of
             Some e \<Rightarrow> (b, result, Some e)
           | None \<Rightarrow>
               (case os_PurgeTerminal (ctx 1) (rpOperationsBefore policy) (bkOperations b) of
                  (s, Inl e) \<Rightarrow> (b\<lparr>bkOperations := s\<rparr>, result\<lparr>prOperations := 0\<rparr>, Some e)
                | (s, Inr n) \<Rightarrow> (b\<lparr>bkOperations := s\<rparr>, result\<lparr>prOperations := n\<rparr>, None))))"

definition prune_deliveries_phase ::
  "(nat \<Rightarrow> ctx) \<Rightarrow> retention_policy \<Rightarrow> state_backend \<Rightarrow> prune_result \<Rightarrow> state_backend \<times> prune_result \<times> error option" where
  "prune_deliveries_phase ctx policy b result =
     (if rpDeliveriesBefore policy = 0 then (b, result, None)
      else case prune_queues ctx 2 (rpDeliveriesBefore policy) (bkDeliveries b) (prDeliveries result) of
        (queues, removed, r) \<Rightarrow> (b\<lparr>bkDeliveries := queues\<rparr>, result\<lparr>prDeliveries := removed\<rparr>, r))"

definition prune_trajectories_phase ::
  "(nat \<Rightarrow> ctx) \<Rightarrow> retention_policy \<Rightarrow> state_backend \<Rightarrow> prune_result \<Rightarrow> state_backend \<times> prune_result \<times> error option" where
  "prune_trajectories_phase ctx policy b result =
     (if rpTrajectoriesBefore policy = 0 then (b, result, None)
      else let n = 2 + length (bkDeliveries b) in
        case ts_List (ctx n) (bkTrajectories b) of
          Inl e \<Rightarrow> (b, result, Some e)
        | Inr items \<Rightarrow>
            (case prune_trajectories ctx (Suc n) (rpTrajectoriesBefore policy) (rev items) (bkTrajectories b)
                 (prTrajectories result) of
               (s, removed, r) \<Rightarrow> (b\<lparr>bkTrajectories := s\<rparr>, result\<lparr>prTrajectories := removed\<rparr>, r)))"

definition pruneState ::
  "(nat \<Rightarrow> ctx) \<Rightarrow> retention_policy \<Rightarrow> state_backend \<Rightarrow> state_backend \<times> prune_result \<times> error option" where
  "pruneState ctx policy b =
     (case prune_operations_phase ctx policy b \<lparr>prOperations = 0, prDeliveries = 0, prTrajectories = 0\<rparr> of
        (b, result, Some e) \<Rightarrow> (b, result, Some e)
      | (b, result, None) \<Rightarrow>
          (case prune_deliveries_phase ctx policy b result of
             (b, result, Some e) \<Rightarrow> (b, result, Some e)
           | (b, result, None) \<Rightarrow> prune_trajectories_phase ctx policy b result))"

section \<open>Deleting trajectories\<close>

text \<open>What a retention run does to the trajectories, step by step.\<close>

lemma ts_Delete_Inr:
  assumes "ts_Delete ctx i s = (s', Inr u)"
  shows "ctx = None \<and> (\<exists>t. tmap s i = Some t \<and> \<not> active (tjExecution (mtTrajectory t))) \<and> tmap s' = (tmap s)(i := None) \<and>
    (\<forall>(j, t)\<in>set (msTrajectories s). tjParentID (mtTrajectory t) \<noteq> i)"
  using assms
  by (auto simp: ts_Delete_def result_simps trajectoryLocked_Inr fun_eq_iff split: sum.splits)

lemma ts_Delete_Inl: "ts_Delete ctx i s = (s', Inl e) \<Longrightarrow> s' = s"
  by (auto simp: ts_Delete_def split: sum.splits)

text \<open>Every state between is one of a run of the store.\<close>

lemma prune_trajectories_run:
  assumes "prune_trajectories ctx n before items s removed = (s', removed', r)"
  shows "\<exists>cs. s' = run_calls ts_step cs s \<and> list_all (\<lambda>c. \<exists>ctx item. item \<in> set items \<and> tuUpdatedAt item < before \<and>
    c = TDelete ctx (tuID item)) cs"
  using assms
proof (induction items arbitrary: n s removed)
  case Nil
  then have "s' = run_calls ts_step [] s" by simp
  then show ?case by fastforce
next
  case (Cons item items)
  let ?P = "\<lambda>items c. \<exists>ctx item. item \<in> set items \<and> tuUpdatedAt item < before \<and> c = TDelete ctx (tuID item)"
  have weaken: "list_all (?P items) cs \<Longrightarrow> list_all (?P (item # items)) cs" for cs
    unfolding list_all_iff by fastforce
  show ?case
  proof (cases "tuUpdatedAt item < before")
    case False
    then show ?thesis using Cons weaken by fastforce
  next
    case True
    obtain s1 q where d: "ts_Delete (ctx n) (tuID item) s = (s1, q)" by fastforce
    have s1: "s1 = run_calls ts_step [TDelete (ctx n) (tuID item)] s" using d by simp
    have one: "list_all (?P (item # items)) [TDelete (ctx n) (tuID item)]" using True by auto
    show ?thesis
    proof (cases "\<exists>e. q = Inl e \<and> \<not> (errors_is e ErrTrajectoryReferenced \<or> errors_is e ErrTrajectoryExecution)")
      case stop: True
      then have "s' = s1" using Cons.prems True d by auto
      then show ?thesis using s1 one by blast
    next
      case False
      then obtain k where "prune_trajectories ctx (Suc n) before items s1 k = (s', removed', r)"
        using Cons.prems True d by (cases q) (auto split: if_splits)
      then obtain cs where "s' = run_calls ts_step cs s1" "list_all (?P items) cs" using Cons.IH by blast
      then have "s' = run_calls ts_step (TDelete (ctx n) (tuID item) # cs) s"
        "list_all (?P (item # items)) (TDelete (ctx n) (tuID item) # cs)"
        using s1 one weaken by auto
      then show ?thesis by blast
    qed
  qed
qed

lemma prune_trajectories_none:
  assumes "prune_trajectories ctx n before items s removed = (s', removed', r)" "tmap s i = None"
  shows "tmap s' i = None"
proof -
  obtain cs where cs: "s' = run_calls ts_step cs s" "list_all (\<lambda>c. \<exists>ctx j. c = TDelete ctx j) cs"
    using prune_trajectories_run [OF assms(1)] by (fastforce simp: list_all_iff)
  have "tmap (run_calls ts_step cs s) i = None"
  proof (rule run_calls_invariant)
    show "tmap s i = None" by (rule assms(2))
    fix c and s :: tj_store
    assume c: "c \<in> set cs" and s: "tmap s i = None"
    then obtain ctx j where "c = TDelete ctx j" using cs(2) by (auto simp: list_all_iff)
    then show "tmap (ts_step c s) i = None"
      using s ts_Delete_Inr ts_Delete_Inl by (cases "ts_Delete ctx j s"; cases "snd (ts_Delete ctx j s)") fastforce+
  qed
  then show ?thesis using cs(1) by simp
qed

text \<open>A trajectory that is not on the list is left alone; one that is, is kept or deleted whole.\<close>

lemma prune_trajectories_keeps:
  assumes "prune_trajectories ctx n before items s removed = (s', removed', r)" "tmap s i = Some t"
  shows "tmap s' i = Some t \<or> tmap s' i = None \<and> \<not> active (tjExecution (mtTrajectory t)) \<and>
    (\<exists>item\<in>set items. tuID item = i \<and> tuUpdatedAt item < before)"
  using assms
proof (induction items arbitrary: n s removed)
  case (Cons item items)
  show ?case
  proof (cases "tuUpdatedAt item < before")
    case old: True
    obtain s1 q where d: "ts_Delete (ctx n) (tuID item) s = (s1, q)" by fastforce
    show ?thesis
    proof (cases q)
      case (Inl e)
      then have "s1 = s" using ts_Delete_Inl d by blast
      then show ?thesis using Cons.IH [of "Suc n" s removed] Cons.prems old d Inl by (auto split: if_splits)
    next
      case (Inr u)
      note del = ts_Delete_Inr [OF d [unfolded Inr]]
      have rest: "prune_trajectories ctx (Suc n) before items s1 (removed + 1) = (s', removed', r)"
        using Cons.prems(1) old d Inr by simp
      show ?thesis
      proof (cases "i = tuID item")
        case True
        have "tmap s' i = None" by (rule prune_trajectories_none [OF rest]) (use del True in simp)
        then show ?thesis using True old del Cons.prems(2) by auto
      next
        case False
        then have "tmap s1 i = Some t" using del Cons.prems(2) by simp
        then show ?thesis using Cons.IH [OF rest] by auto
      qed
    qed
  next
    case False
    then show ?thesis using Cons.IH [of n s removed] Cons.prems by auto
  qed
qed simp

section \<open>Summaries\<close>

lemma stored_summary_simps [simp]:
  "tuID (stored_summary t) = tjID (mtTrajectory t)" "tuUpdatedAt (stored_summary t) = tjUpdatedAt (mtTrajectory t)"
  "tuCreatedAt (stored_summary t) = tjCreatedAt (mtTrajectory t)"
  by (simp_all add: stored_summary_def SummarizeTrajectory_def Let_def split: option.split)

lemma ts_List_mem:
  assumes "ts_inv s" "ts_List ctx s = Inr items"
  shows "item \<in> set items \<longleftrightarrow> (\<exists>i t. tmap s i = Some t \<and> item = stored_summary t \<and> tuID item = i)"
proof -
  have wf: "gm_wf (msTrajectories s)" using assms(1) by (simp add: ts_inv_def)
  have items: "set items = (\<lambda>(i, t). stored_summary t) ` set (msTrajectories s)"
    using assms(2) by (auto simp: ts_List_def result_simps)
  have name: "tjID (mtTrajectory t) = i" if "tmap s i = Some t" for i t
    using ts_invD [OF assms(1) that] by (metis local_ok_def)
  show ?thesis
  proof
    assume "item \<in> set items"
    then obtain i t where "(i, t) \<in> set (msTrajectories s)" "item = stored_summary t" using items by auto
    then show "\<exists>i t. tmap s i = Some t \<and> item = stored_summary t \<and> tuID item = i"
      using name gm_mem_iff [OF wf] by fastforce
  next
    assume "\<exists>i t. tmap s i = Some t \<and> item = stored_summary t \<and> tuID item = i"
    then obtain i t where "(i, t) \<in> set (msTrajectories s)" "item = stored_summary t" using gm_mem_iff [OF wf] by blast
    then show "item \<in> set items" unfolding items by (intro image_eqI [of _ _ "(i, t)"]) simp_all
  qed
qed

lemma active_summary_stored:
  assumes "local_ok i t"
  shows "active_summary (stored_summary t) \<longleftrightarrow> active (tjExecution (mtTrajectory t))"
proof (cases "tjExecution (mtTrajectory t)")
  case None
  then show ?thesis by (simp add: active_summary_def stored_summary_def SummarizeTrajectory_def active_def Let_def)
next
  case (Some x)
  then have "ValidateTrajectoryExecution x = None" using assms by (simp add: local_ok_def)
  then have "\<forall>st. txState x \<noteq> TrajectoryExecutionStateOther st"
    by (auto simp: ValidateTrajectoryExecution_def result_simps)
  then show ?thesis
    using Some by (cases "txState x") (auto simp: active_summary_def stored_summary_def SummarizeTrajectory_def active_def
        tx_Terminal_def Let_def)
qed

section \<open>Safety\<close>

lemma first_error_is: "first_error f xs = Some e \<Longrightarrow> (\<And>x e. f x = Some e \<Longrightarrow> P e) \<Longrightarrow> P e"
proof (induction xs)
  case (Cons x xs)
  then show ?case by (cases "f x") auto
qed simp

lemma deletes_keep_views:
  assumes "ts_inv s" "sees (tmap s) n i L" "list_all (\<lambda>c. \<exists>ctx j. c = TDelete ctx j) cs"
  shows "ts_inv (run_calls ts_step cs s) \<and> (tmap (run_calls ts_step cs s) i = None \<or>
    (\<exists>L'. sees (tmap (run_calls ts_step cs s)) n i L' \<and> L \<subseteq>\<^sub>m L'))"
proof (rule run_calls_invariant)
  show "ts_inv s \<and> (tmap s i = None \<or> (\<exists>L'. sees (tmap s) n i L' \<and> L \<subseteq>\<^sub>m L'))"
    using assms(1,2) map_le_refl by blast
  fix c and s :: tj_store
  assume c: "c \<in> set cs" and P: "ts_inv s \<and> (tmap s i = None \<or> (\<exists>L'. sees (tmap s) n i L' \<and> L \<subseteq>\<^sub>m L'))"
  then obtain ctx j where cj: "c = TDelete ctx j" using assms(3) by (auto simp: list_all_iff)
  obtain s1 q where d: "ts_Delete ctx j s = (s1, q)" by fastforce
  note keep = ts_inv_Delete [OF conjunct1 [OF P], of ctx j, unfolded d fst_conv]
  show "ts_inv (ts_step c s) \<and> (tmap (ts_step c s) i = None \<or> (\<exists>L'. sees (tmap (ts_step c s)) n i L' \<and> L \<subseteq>\<^sub>m L'))"
  proof (cases q)
    case (Inl e)
    then show ?thesis using ts_Delete_Inl d cj P by fastforce
  next
    case (Inr u)
    note del = ts_Delete_Inr [OF d [unfolded Inr]]
    show ?thesis
    proof (cases "i = j \<or> tmap s i = None")
      case True
      then show ?thesis using cj d keep del by auto
    next
      case False
      then obtain L' t where L': "sees (tmap s) n i L'" "L \<subseteq>\<^sub>m L'" "tmap s i = Some t" using P by auto
      have "extends s s1 i" using keep False by blast
      then obtain L'' where "sees (tmap s1) n i L''" "L' \<subseteq>\<^sub>m L''" using L' unfolding extends_def by blast
      then show ?thesis using cj d keep map_le_trans [OF L'(2)] by auto
    qed
  qed
qed

lemma parent_present:
  assumes "ts_inv s" "tmap s j = Some u" "tjParentID (mtTrajectory u) \<noteq> []"
  shows "tmap s (tjParentID (mtTrajectory u)) \<noteq> None"
proof -
  obtain n L where j: "local_ok j u" "sees (tmap s) n j L" by (metis ts_invD [OF assms(1,2)])
  from j(2) show ?thesis
  proof cases
    case (sees_own t)
    then show ?thesis using j(1) assms(2,3) by (simp add: local_ok_def)
  next
    case (sees_fork t m P es)
    then show ?thesis using sees_name assms(2) by fastforce
  qed
qed

lemma prune_state_trajectories:
  assumes "pruneState ctx policy b = (b', result, r)"
  shows "bkTrajectories b' = bkTrajectories b \<or>
    rpTrajectoriesBefore policy \<noteq> 0 \<and> (\<exists>n items k. ts_List None (bkTrajectories b) = Inr items \<and>
      prune_trajectories ctx n (rpTrajectoriesBefore policy) (rev items) (bkTrajectories b) 0 =
        (bkTrajectories b', k, r))"
proof -
  obtain b1 r1 e1 where 1: "prune_operations_phase ctx policy b \<lparr>prOperations = 0, prDeliveries = 0, prTrajectories = 0\<rparr> = (b1, r1, e1)"
    by (metis prod_cases3)
  have t1: "bkTrajectories b1 = bkTrajectories b" "prTrajectories r1 = 0"
    using 1 by (auto simp: prune_operations_phase_def split: if_splits sum.splits option.splits prod.splits)
  obtain b2 r2 e2 where 2: "prune_deliveries_phase ctx policy b1 r1 = (b2, r2, e2)" by (metis prod_cases3)
  have t2: "bkTrajectories b2 = bkTrajectories b" "prTrajectories r2 = 0"
    using 2 t1 by (auto simp: prune_deliveries_phase_def split: if_splits prod.splits)
  have none: "ts_List c s = Inr items \<Longrightarrow> ts_List None s = Inr items" for c s items
    by (auto simp: ts_List_def result_simps)
  show ?thesis
    using assms 1 2 t1 t2
    by (auto simp: pruneState_def prune_trajectories_phase_def Let_def split: option.splits if_splits sum.splits prod.splits)
      (metis none)+
qed

text \<open>
  C22: A retention run is safe. While some execution is active it refuses to prune operations
  and changes nothing. And however it ends, a trajectory it deleted was last updated before
  the cutoff, had no active execution and no surviving fork; every other one is as it was, and
  all of its branches read as before.
\<close>

theorem prune_safe:
  assumes "run_ok cs newMemoryTrajectoryStore" "bkTrajectories b = run_calls ts_step cs newMemoryTrajectoryStore"
    and "tmap (bkTrajectories b) i = Some t" "pruneState ctx policy b = (b', result, r)"
  shows "(if tmap (bkTrajectories b') i = None
      then tjUpdatedAt (mtTrajectory t) < rpTrajectoriesBefore policy \<and> \<not> active (tjExecution (mtTrajectory t)) \<and>
        (\<forall>j u. tmap (bkTrajectories b') j = Some u \<longrightarrow> tjParentID (mtTrajectory u) \<noteq> i)
      else tmap (bkTrajectories b') i = Some t \<and>
        (\<forall>h branch. ts_LoadBranch None i h (bkTrajectories b) = Some (Inr branch) \<longrightarrow>
          ts_LoadBranch None i h (bkTrajectories b') = Some (Inr branch))) \<and>
    (active (tjExecution (mtTrajectory t)) \<longrightarrow> rpOperationsBefore policy \<noteq> 0 \<longrightarrow> ctx 0 = None \<longrightarrow>
      b' = b \<and> (\<exists>e. r = Some e \<and> errors_is e ErrTrajectoryExecution))"
proof -
  let ?s = "bkTrajectories b" and ?s' = "bkTrajectories b'"
  have inv: "ts_inv ?s" using ts_run_inv [OF ts_inv_new assms(1)] assms(2) by simp
  obtain n L where v: "local_ok i t" "sees (tmap ?s) n i L" by (rule ts_invD [OF inv assms(3)])
  have blocked: "b' = b \<and> (\<exists>e. r = Some e \<and> errors_is e ErrTrajectoryExecution)"
    if a: "active (tjExecution (mtTrajectory t))" "rpOperationsBefore policy \<noteq> 0" "ctx 0 = None"
  proof -
    let ?check = "\<lambda>item. reject_if (active_summary item) (Wrapf ErrTrajectoryExecution
      ''%w: cannot prune operations while trajectory %s execution %s is active'')"
    obtain items where items: "ts_List None ?s = Inr items" by (simp add: ts_List_def)
    have "stored_summary t \<in> set items" using ts_List_mem [OF inv items] assms(3) v(1) by (auto simp: local_ok_def)
    then have "first_error ?check items \<noteq> None"
      using a(1) active_summary_stored [OF v(1)] by (auto simp: result_simps)
    then obtain e where e: "first_error ?check items = Some e" by blast
    have "errors_is e ErrTrajectoryExecution"
      by (rule first_error_is [OF e]) (auto simp: reject_if_def split: if_splits)
    moreover have "b' = b \<and> r = Some e"
      using assms(4) a items by (simp add: pruneState_def prune_operations_phase_def e)
    ultimately show ?thesis by simp
  qed
  have "if tmap ?s' i = None
      then tjUpdatedAt (mtTrajectory t) < rpTrajectoriesBefore policy \<and> \<not> active (tjExecution (mtTrajectory t)) \<and>
        (\<forall>j u. tmap ?s' j = Some u \<longrightarrow> tjParentID (mtTrajectory u) \<noteq> i)
      else tmap ?s' i = Some t \<and> (\<forall>h branch. ts_LoadBranch None i h ?s = Some (Inr branch) \<longrightarrow>
          ts_LoadBranch None i h ?s' = Some (Inr branch))"
  proof (cases "?s' = ?s")
    case True
    then show ?thesis using assms(3) by simp
  next
    case False
    then obtain m items k where p: "ts_List None ?s = Inr items"
      "prune_trajectories ctx m (rpTrajectoriesBefore policy) (rev items) ?s 0 = (?s', k, r)"
      using prune_state_trajectories [OF assms(4)] by blast
    obtain ds where ds: "?s' = run_calls ts_step ds ?s" "list_all (\<lambda>c. \<exists>ctx j. c = TDelete ctx j) ds"
      using prune_trajectories_run [OF p(2)] by (fastforce simp: list_all_iff)
    note views = deletes_keep_views [OF inv v(2) ds(2), folded ds(1)]
    note kept = prune_trajectories_keeps [OF p(2) assms(3)]
    show ?thesis
    proof (cases "tmap ?s' i = None")
      case True
      then obtain item where item: "item \<in> set items" "tuID item = i" "tuUpdatedAt item < rpTrajectoriesBefore policy"
        "\<not> active (tjExecution (mtTrajectory t))" using kept by auto
      then have "tjUpdatedAt (mtTrajectory t) < rpTrajectoriesBefore policy"
        using ts_List_mem [OF inv p(1)] assms(3) by auto
      moreover have "tjParentID (mtTrajectory u) \<noteq> i" if "tmap ?s' j = Some u" for j u
        using parent_present [OF conjunct1 [OF views] that] True sees_name [OF v(2)] by auto
      ultimately show ?thesis using True item(4) by simp
    next
      case False
      then obtain L' where L': "sees (tmap ?s') n i L'" "L \<subseteq>\<^sub>m L'" using views by auto
      have "ts_LoadBranch None i h ?s' = Some (Inr branch)" if b: "ts_LoadBranch None i h ?s = Some (Inr branch)" for h branch
      proof -
        obtain es where "chain L h es" "branch = rev es"
          by (rule branchLocked_Inr [OF v(2)]) (use b in \<open>auto simp: ts_LoadBranch_def\<close>)
        then show ?thesis using branchLocked_sees [OF L'(1) chain_mono [OF _ L'(2)]] by (simp add: ts_LoadBranch_def)
      qed
      then show ?thesis using kept False by auto
    qed
  qed
  then show ?thesis using blocked by blast
qed

section \<open>Completeness\<close>

text \<open>No trajectory of the list is a fork of an earlier or the same one.\<close>

fun forks_first :: "(string \<rightharpoonup> mem_trajectory) \<Rightarrow> tj_summary list \<Rightarrow> bool" where
  "forks_first T [] = True"
| "forks_first T (item # items) \<longleftrightarrow> forks_first T items \<and>
     (\<forall>j u. T j = Some u \<and> tjParentID (mtTrajectory u) = tuID item \<longrightarrow> j \<notin> tuID ` set (item # items))"

lemma forks_first_sub: "forks_first T items \<Longrightarrow> U \<subseteq>\<^sub>m T \<Longrightarrow> forks_first U items"
  by (induction items) (auto simp: map_le_def dom_def)

lemma ts_Delete_refused:
  assumes "ts_inv s" "ts_Delete ctx i s = (s', Inl e)" "tmap s i = Some t" "\<not> active (tjExecution (mtTrajectory t))"
    and "errors_is e ErrTrajectoryReferenced \<or> errors_is e ErrTrajectoryExecution" "ctx = None"
  shows "\<exists>j u. tmap s j = Some u \<and> tjParentID (mtTrajectory u) = i"
proof -
  have wf: "gm_wf (msTrajectories s)" using assms(1) by (simp add: ts_inv_def)
  obtain n L where "sees (tmap s) n i L" by (rule ts_invD [OF assms(1,3)])
  then have "trajectoryLocked i s = Inr t" using assms(3) by (simp add: trajectoryLocked_Inr sees_name)
  then have "first_error (\<lambda>(j, u). reject_if (tjParentID (mtTrajectory u) = i)
      (Wrapf ErrTrajectoryReferenced ''%w: trajectory %s is parent of %s'')) (msTrajectories s) \<noteq> None"
    using assms(2,4,6) by (cases "first_error (\<lambda>(j, u). reject_if (tjParentID (mtTrajectory u) = i)
      (Wrapf ErrTrajectoryReferenced ''%w: trajectory %s is parent of %s'')) (msTrajectories s)")
      (auto simp: ts_Delete_def result_simps)
  then obtain j u where "(j, u) \<in> set (msTrajectories s)" "tjParentID (mtTrajectory u) = i"
    by (auto simp: result_simps)
  then show ?thesis using gm_mem_iff [OF wf] by auto
qed

lemma prune_trajectories_complete:
  assumes "prune_trajectories ctx n before items s removed = (s', removed', None)" "ts_inv s" "\<forall>n. ctx n = None"
    and "forks_first (tmap s) items" "item \<in> set items" "tuUpdatedAt item < before" "tmap s' (tuID item) = Some t"
    and "\<not> active (tjExecution (mtTrajectory t))"
  shows "\<exists>j u. tmap s' j = Some u \<and> tjParentID (mtTrajectory u) = tuID item"
  using assms
proof (induction items arbitrary: n s removed)
  case (Cons x items)
  obtain s1 q where d: "ts_Delete (ctx n) (tuID x) s = (s1, q)" by fastforce
  note keep = ts_inv_Delete [OF Cons.prems(2), of "ctx n" "tuID x", unfolded d fst_conv]
  have sub: "tmap s1 \<subseteq>\<^sub>m tmap s"
    using ts_Delete_Inr ts_Delete_Inl d by (cases q) (fastforce simp: map_le_def)+
  have step: ?case if old: "tuUpdatedAt x < before"
    and rest: "prune_trajectories ctx (Suc n) before items s1 k = (s', removed', None)" for k
  proof (cases "item \<in> set items")
    case True
    then show ?thesis
      using Cons.IH [OF rest _ Cons.prems(3) _ True Cons.prems(6-8)] keep forks_first_sub [OF _ sub] Cons.prems(4) by auto
  next
    case False
    then have item: "item = x" using Cons.prems(5) by simp
    have "tmap s1 (tuID x) = Some t"
      using prune_trajectories_none [OF rest] prune_trajectories_keeps [OF rest] Cons.prems(7) item
      by (cases "tmap s1 (tuID x)") fastforce+
    then have st: "tmap s (tuID x) = Some t" using sub by (auto simp: map_le_def dom_def)
    obtain e where e: "q = Inl e" "s1 = s"
      using ts_Delete_Inr ts_Delete_Inl d \<open>tmap s1 (tuID x) = Some t\<close> by (cases q) fastforce+
    have "errors_is e ErrTrajectoryReferenced \<or> errors_is e ErrTrajectoryExecution"
      using Cons.prems(1) old d e by (auto split: if_splits)
    then obtain j u where j: "tmap s j = Some u" "tjParentID (mtTrajectory u) = tuID x"
      using ts_Delete_refused [OF Cons.prems(2) d [unfolded e] st Cons.prems(8)] Cons.prems(3) by auto
    then have "j \<notin> tuID ` set items" using Cons.prems(4) by auto
    then have "tmap s' j = Some u" using prune_trajectories_keeps [OF rest] j(1) e by blast
    then show ?thesis using j(2) item by blast
  qed
  show ?case
  proof (cases "tuUpdatedAt x < before")
    case True
    then show ?thesis using step Cons.prems(1) d by (cases q) (auto split: if_splits)
  next
    case False
    then have "item \<in> set items" using Cons.prems(5,6) by auto
    then show ?thesis using Cons.IH [of n s removed] Cons.prems False by auto
  qed
qed simp

interpretation tu_order: comparator compareSummaries
  unfolding compareSummaries_def by (intro comparator_then comparator_on)

lemma ts_List_forks_first:
  assumes "ts_inv s" "ts_List ctx s = Inr items"
    and younger: "\<And>i t j u. tmap s i = Some t \<Longrightarrow> tmap s j = Some u \<Longrightarrow> tjParentID (mtTrajectory u) = i \<Longrightarrow>
      tjCreatedAt (mtTrajectory t) < tjCreatedAt (mtTrajectory u)"
  shows "forks_first (tmap s) (rev items)"
proof -
  have "sorted_wrt (\<lambda>x y. compareSummaries x y \<le> 0) items"
    using assms(2) tu_order.sorted_sort_func by (auto simp: ts_List_def result_simps)
  then have "sorted_wrt (\<lambda>x y. tuCreatedAt x \<le> tuCreatedAt y) items"
    by (rule sorted_wrt_mono_rel [rotated])
      (auto simp: compareSummaries_def compare_then_def compare_on_def split: if_splits)
  then have "sorted_wrt (\<lambda>x y. tuCreatedAt y \<le> tuCreatedAt x) (rev items)" by (simp add: sorted_wrt_rev)
  moreover have "\<forall>x\<in>set (rev items). \<exists>t. tmap s (tuID x) = Some t \<and> x = stored_summary t"
    using ts_List_mem [OF assms(1,2)] by auto
  ultimately show ?thesis
  proof (induction "rev items" arbitrary: items)
    case (Cons x xs)
    have "j \<notin> tuID ` set (x # xs)" if j: "tmap s j = Some u" "tjParentID (mtTrajectory u) = tuID x" for j u
    proof
      assume "j \<in> tuID ` set (x # xs)"
      then obtain y where y: "y \<in> set (x # xs)" "j = tuID y" by blast
      then have "tuCreatedAt y = tjCreatedAt (mtTrajectory u)" "tuCreatedAt y \<le> tuCreatedAt x"
        using Cons.prems j(1) Cons.hyps(2) [symmetric] by auto
      moreover obtain t where "tmap s (tuID x) = Some t" "x = stored_summary t"
        using Cons.prems(2) Cons.hyps(2) [symmetric] by auto
      ultimately show False using younger [of "tuID x" t j u] j by simp
    qed
    then show ?case using Cons.hyps(1) [of "rev xs"] Cons.prems Cons.hyps(2) [symmetric] by simp
  qed simp
qed


lemma ts_List_ids:
  assumes "ts_inv s" "ts_List ctx s = Inr items"
  shows "distinct (map tuID items)"
proof -
  have wf: "gm_wf (msTrajectories s)" using assms(1) by (simp add: ts_inv_def)
  have "map (\<lambda>x. tuID ((\<lambda>(i, t). stored_summary t) x)) (msTrajectories s) = map fst (msTrajectories s)"
  proof (rule map_cong [OF refl])
    fix x assume x: "x \<in> set (msTrajectories s)"
    obtain i t where it: "x = (i, t)" by fastforce
    then have "tmap s i = Some t" using gm_mem_iff [OF wf] x by simp
    then show "tuID ((\<lambda>(i, t). stored_summary t) x) = fst x"
      using ts_invD [OF assms(1)] it by (auto simp: local_ok_def)
  qed
  then have "distinct (map tuID (map (\<lambda>(i, t). stored_summary t) (msTrajectories s)))"
    using wf unfolding map_map comp_def by (simp only:)
  then show ?thesis using assms(2) by (auto simp: ts_List_def result_simps)
qed

lemma ts_Delete_errors:
  assumes "ts_inv s" "ts_Delete None i s = (s', Inl e)" "tmap s i = Some t"
  shows "errors_is e ErrTrajectoryReferenced \<or> errors_is e ErrTrajectoryExecution"
proof -
  obtain n L where "sees (tmap s) n i L" by (rule ts_invD [OF assms(1,3)])
  then have t: "trajectoryLocked i s = Inr t" using assms(3) by (simp add: trajectoryLocked_Inr sees_name)
  let ?refs = "first_error (\<lambda>(j, u). reject_if (tjParentID (mtTrajectory u) = i)
      (Wrapf ErrTrajectoryReferenced ''%w: trajectory %s is parent of %s'')) (msTrajectories s)"
  have "errors_is e ErrTrajectoryReferenced" if "?refs = Some e"
    by (rule first_error_is [OF that]) (auto simp: reject_if_def split: if_splits)
  then show ?thesis using assms(2) t by (cases ?refs) (auto simp: ts_Delete_def reject_if_def split: if_splits)
qed

lemma prune_trajectories_ends:
  assumes "prune_trajectories (\<lambda>_. None) n before items s removed = (s', removed', r)" "ts_inv s"
    and "distinct (map tuID items)" "\<forall>item\<in>set items. tmap s (tuID item) \<noteq> None"
  shows "r = None"
  using assms
proof (induction items arbitrary: n s removed)
  case (Cons x items)
  obtain s1 q where d: "ts_Delete None (tuID x) s = (s1, q)" by fastforce
  note keep = ts_inv_Delete [OF Cons.prems(2), of None "tuID x", unfolded d fst_conv]
  have "\<forall>item\<in>set items. tmap s1 (tuID item) \<noteq> None"
  proof (cases q)
    case (Inr u)
    then show ?thesis using ts_Delete_Inr d Cons.prems(3,4) by (fastforce simp: image_iff)
  next
    case (Inl e)
    then show ?thesis using ts_Delete_Inl [OF d [unfolded Inl]] Cons.prems(4) by simp
  qed
  moreover have "errors_is e ErrTrajectoryReferenced \<or> errors_is e ErrTrajectoryExecution" if "q = Inl e" for e
    using ts_Delete_errors [OF Cons.prems(2) d [unfolded that]] Cons.prems(4) by auto
  ultimately show ?case
    using Cons.IH [of "Suc n" s1] Cons.IH [of n s] Cons.prems keep d
    by (cases q) (auto split: if_splits)
qed simp

lemma prune_queues_ends:
  "before \<noteq> 0 \<Longrightarrow> snd (snd (prune_queues (\<lambda>_. None) n before queues removed)) = None"
proof (induction queues arbitrary: n removed)
  case (Cons q queues)
  obtain name queue where q: "q = (name, queue)" by fastforce
  obtain s' k where "ds_PurgeTerminal None before queue = (s', Inr k)"
    using Cons.prems
    by (cases "purge_deliveries before (dsDeliveries queue) queue 0") (simp add: ds_PurgeTerminal_def)
  then show ?case using Cons.IH [OF Cons.prems, of "Suc n" "removed + k"] by (auto simp: q split: prod.splits)
qed simp

text \<open>A live run reaches the trajectories, or an active execution keeps it from pruning operations.\<close>

lemma prune_state_reaches:
  assumes "pruneState (\<lambda>_. None) policy b = (b', result, r)" "rpTrajectoriesBefore policy \<noteq> 0"
    and items: "ts_List None (bkTrajectories b) = Inr items"
  shows "r \<noteq> None \<and> rpOperationsBefore policy \<noteq> 0 \<or> (\<exists>n k. prune_trajectories (\<lambda>_. None) n
      (rpTrajectoriesBefore policy) (rev items) (bkTrajectories b) 0 = (bkTrajectories b', k, r))"
proof -
  obtain b1 r1 e1 where 1: "prune_operations_phase (\<lambda>_. None) policy b \<lparr>prOperations = 0, prDeliveries = 0, prTrajectories = 0\<rparr> = (b1, r1, e1)"
    by (metis prod_cases3)
  obtain b2 r2 e2 where 2: "prune_deliveries_phase (\<lambda>_. None) policy b1 r1 = (b2, r2, e2)" by (metis prod_cases3)
  have t1: "bkTrajectories b1 = bkTrajectories b" "prTrajectories r1 = 0"
    using 1 by (auto simp: prune_operations_phase_def split: if_splits sum.splits option.splits prod.splits)
  have t2: "bkTrajectories b2 = bkTrajectories b" "prTrajectories r2 = 0" "e2 = None"
    using 2 t1 prune_queues_ends [of "rpDeliveriesBefore policy" 2 "bkDeliveries b1" "prDeliveries r1"]
    by (auto simp: prune_deliveries_phase_def split: if_splits prod.splits)
  show ?thesis
  proof (cases e1)
    case None
    then show ?thesis
      using assms(1,2) 1 2 t2 items by (auto simp: pruneState_def prune_trajectories_phase_def Let_def split: prod.splits)
  next
    case (Some e)
    then have "r = Some e" using assms(1) 1 by (simp add: pruneState_def)
    moreover have "rpOperationsBefore policy \<noteq> 0" using 1 Some by (auto simp: prune_operations_phase_def)
    ultimately show ?thesis by simp
  qed
qed

text \<open>
  A retention run is complete. When it ends without an error, every trajectory that is old
  enough and has no active execution is gone, unless a fork of it survives: going from the last
  created to the first reaches a fork before its parent. With a live context, and no
  operations to prune, it does end without an error.
\<close>

theorem prune_complete:
  assumes "run_ok cs newMemoryTrajectoryStore" "bkTrajectories b = run_calls ts_step cs newMemoryTrajectoryStore"
    and "\<And>i t j u. tmap (bkTrajectories b) i = Some t \<Longrightarrow> tmap (bkTrajectories b) j = Some u \<Longrightarrow>
      tjParentID (mtTrajectory u) = i \<Longrightarrow> tjCreatedAt (mtTrajectory t) < tjCreatedAt (mtTrajectory u)"
    and "pruneState (\<lambda>_. None) policy b = (b', result, r)" "rpTrajectoriesBefore policy \<noteq> 0"
  shows "(r = None \<longrightarrow> (\<forall>i t. tmap (bkTrajectories b') i = Some t \<longrightarrow>
      tjUpdatedAt (mtTrajectory t) < rpTrajectoriesBefore policy \<longrightarrow> \<not> active (tjExecution (mtTrajectory t)) \<longrightarrow>
      (\<exists>j u. tmap (bkTrajectories b') j = Some u \<and> tjParentID (mtTrajectory u) = i))) \<and>
    (rpOperationsBefore policy = 0 \<longrightarrow> r = None)"
proof -
  let ?s = "bkTrajectories b" and ?s' = "bkTrajectories b'"
  have inv: "ts_inv ?s" using ts_run_inv [OF ts_inv_new assms(1)] assms(2) by simp
  obtain items where items: "ts_List None ?s = Inr items" by (simp add: ts_List_def)
  have ids: "distinct (map tuID (rev items))" using ts_List_ids [OF inv items] by (simp add: distinct_rev flip: rev_map)
  have present: "\<forall>item\<in>set (rev items). tmap ?s (tuID item) \<noteq> None" using ts_List_mem [OF inv items] by auto
  have forks: "forks_first (tmap ?s) (rev items)" by (rule ts_List_forks_first [OF inv items assms(3)])
  have phase: "r \<noteq> None \<and> rpOperationsBefore policy \<noteq> 0 \<or> (\<exists>n k. prune_trajectories (\<lambda>_. None) n
      (rpTrajectoriesBefore policy) (rev items) ?s 0 = (?s', k, r))"
    by (rule prune_state_reaches [OF assms(4,5) items])
  have old: "\<exists>j u. tmap ?s' j = Some u \<and> tjParentID (mtTrajectory u) = i"
    if p: "prune_trajectories (\<lambda>_. None) n (rpTrajectoriesBefore policy) (rev items) ?s 0 = (?s', k, None)"
      and t: "tmap ?s' i = Some t" "tjUpdatedAt (mtTrajectory t) < rpTrajectoriesBefore policy"
        "\<not> active (tjExecution (mtTrajectory t))" for n k i t
  proof -
    have "tmap ?s i = Some t"
      using prune_trajectories_none [OF p] prune_trajectories_keeps [OF p] t(1) by (cases "tmap ?s i") fastforce+
    then obtain item where item: "item \<in> set (rev items)" "tuID item = i" "item = stored_summary t"
      using ts_List_mem [OF inv items] inv by (metis set_rev stored_summary_simps(1) ts_invD local_ok_def)
    have "tuUpdatedAt item < rpTrajectoriesBefore policy" using item t(2) by simp
    then show ?thesis
      using prune_trajectories_complete [OF p inv _ forks item(1) _ _ t(3)] item(2) t(1) by simp
  qed
  show ?thesis using phase old prune_trajectories_ends [OF _ inv ids present] by blast
qed

section \<open>A sample backend\<close>

text \<open>An old trajectory, and another old one with a newer fork.\<close>

definition bk_calls_demo :: "tj_call list" where
  "bk_calls_demo = [TCreate None 50 (new_demo ''old'' [] []), TCreate None 100 (new_demo ''main'' [] []),
     TAppend None (\<lambda>_. 101) ''main'' [] [entry_demo ''u1'' [] KindUserMessage],
     TCreate None 104 (new_demo ''alt'' ''main'' ''u1'')]"

definition bk_demo :: state_backend where
  "bk_demo = (newMemoryStateBackend '' '')\<lparr>bkTrajectories := run_calls ts_step bk_calls_demo newMemoryTrajectoryStore\<rparr>"

definition policy_demo :: retention_policy where
  "policy_demo = \<lparr>rpOperationsBefore = 0, rpDeliveriesBefore = 0, rpTrajectoriesBefore = 103\<rparr>"

lemma run_ok_bk_demo: "run_ok bk_calls_demo newMemoryTrajectoryStore"
  by (simp add: run_ok_def bk_calls_demo_def newMemoryTrajectoryStore_def store_ids_def new_demo_def)

lemma bk_demo_trajectories: "bkTrajectories bk_demo = run_calls ts_step bk_calls_demo newMemoryTrajectoryStore"
  by (simp add: bk_demo_def)

theorem prune_safe_witness:
  "\<exists>b' result t. pruneState (\<lambda>_. None) policy_demo bk_demo = (b', result, None) \<and>
     map fst (msTrajectories (bkTrajectories b')) = [''main'', ''alt''] \<and>
     tmap (bkTrajectories bk_demo) ''old'' = Some t \<and> tjUpdatedAt (mtTrajectory t) < 103"
proof -
  obtain b' result r where p: "pruneState (\<lambda>_. None) policy_demo bk_demo = (b', result, r)" by (metis prod_cases3)
  have "(\<lambda>(b', result, r). (map fst (msTrajectories (bkTrajectories b')), r)) (pruneState (\<lambda>_. None) policy_demo bk_demo) =
      ([''main'', ''alt''], None)"
    by code_simp
  then have left: "map fst (msTrajectories (bkTrajectories b')) = [''main'', ''alt'']" "r = None" unfolding p by simp_all
  have gone: "tmap (bkTrajectories b') ''old'' = None" using left(1) by (simp add: map_of_eq_None_iff flip: set_map)
  have "tmap (bkTrajectories bk_demo) ''old'' \<noteq> None" by code_simp
  then obtain t where t: "tmap (bkTrajectories bk_demo) ''old'' = Some t" by blast
  have "tjUpdatedAt (mtTrajectory t) < rpTrajectoriesBefore policy_demo"
    using conjunct1 [OF prune_safe [OF run_ok_bk_demo bk_demo_trajectories t p]] by (simp only: gone if_True simp_thms)
  then show ?thesis using p left t by (auto simp: policy_demo_def)
qed

theorem prune_complete_witness:
  "\<exists>b' result. pruneState (\<lambda>_. None) policy_demo bk_demo = (b', result, None) \<and>
     (\<exists>j u. tmap (bkTrajectories b') j = Some u \<and> tjParentID (mtTrajectory u) = ''main'')"
proof -
  obtain b' result r where p: "pruneState (\<lambda>_. None) policy_demo bk_demo = (b', result, r)" by (metis prod_cases3)
  have forks: "list_all (\<lambda>(i, t). list_all (\<lambda>(j, u). tjParentID (mtTrajectory u) = i \<longrightarrow>
      tjCreatedAt (mtTrajectory t) < tjCreatedAt (mtTrajectory u)) (msTrajectories (bkTrajectories bk_demo)))
      (msTrajectories (bkTrajectories bk_demo))"
    by code_simp
  have younger: "tjCreatedAt (mtTrajectory t) < tjCreatedAt (mtTrajectory u)"
    if "tmap (bkTrajectories bk_demo) i = Some t" "tmap (bkTrajectories bk_demo) j = Some u"
      "tjParentID (mtTrajectory u) = i" for i t j u
    using forks map_of_SomeD [OF that(1)] map_of_SomeD [OF that(2)] that(3) by (auto simp: list_all_iff)
  note complete = prune_complete [OF run_ok_bk_demo bk_demo_trajectories younger p]
  have "(\<lambda>(b', result, r). map_option (\<lambda>t. (tjUpdatedAt (mtTrajectory t), active (tjExecution (mtTrajectory t))))
      (tmap (bkTrajectories b') ''main'')) (pruneState (\<lambda>_. None) policy_demo bk_demo) = Some (101, False)"
    by code_simp
  then obtain t where "tmap (bkTrajectories b') ''main'' = Some t" "tjUpdatedAt (mtTrajectory t) = 101"
    "\<not> active (tjExecution (mtTrajectory t))" unfolding p by auto
  then show ?thesis using complete p by (auto simp: policy_demo_def)
qed

end
