(* ===== verification/Spec2Isabelle.thy ===== *)
theory Spec2Isabelle
  imports Checkpoint_Recovery Context_Projection Delivery_Attempts Delivery_Completion
    Event_Dispatch_Properties Gateway_Interaction_Manager Gateway_Request_Text Invocation_Graph
    Operation_Worker Registry_Properties State_Backend
begin

text \<open>
  \<^bold>\<open>The durable core of the agent runtime.\<close>

  The program runs agents whose work survives crashes: every piece of work is an aggregate
  in a store, workers lease it, and a lease that expires is taken over by another worker.
  This development models the aggregates and the in-memory stores, which define the
  behaviour that the file, SQL and etcd back ends share, and the workers and gateway queues
  that sit on them.

  \<^bold>\<open>Parts and theories.\<close>

  \<^item> \<open>Go_Base\<close>, \<open>Go_Json\<close>, \<open>Go_Base64\<close>: what the code uses of the language and
    its library: errors as values with \<open>errors.Is\<close>, maps with their iteration order,
    sorting with a comparison, times and durations, strings, the JSON validity check, the
    URL-safe base64 alphabet. \<open>Go_Json_Text\<close> is \<open>json.Marshal\<close> of strings with its
    escapes and a reader for them.
  \<^item> \<open>Resource_Names\<close> (\<open>sdk/plugin.go\<close>, \<open>sdk/id.go\<close>), \<open>Invocations\<close>
    (\<open>sdk/invocation.go\<close>): names, manifests, identifiers, invocation scopes.
    \<open>Invocation_Graph\<close> with the loop of \<open>Topological_Order\<close>
    (\<open>sdk/invocation_graph.go\<close>) projects the operations of one root into an ordered graph.
  \<^item> \<open>Leases\<close>, \<open>Stores\<close>: the contracts. A lease is granted under a token and an
    event that presents a token succeeds only while the token holds the lease
    (\<open>fenced_aggregate\<close>, \<open>leased_aggregate\<close>); terminal values do not change
    (\<open>terminal_aggregate\<close>); revisions count (\<open>versioned_aggregate\<close>); a store applies
    at most one event of one aggregate per call (\<open>aggregate_store\<close>), so that runs of the
    store project to runs of each aggregate. Each locale is interpreted on the definitions
    of the code. \<open>Stores\<close> also has the page window of \<open>sdk/storage/storage.go\<close>.
  \<^item> \<open>Operations\<close>, \<open>Operation_Store\<close> (\<open>sdk/operation.go\<close>, \<open>operationmodel\<close>,
    \<open>operation_memory.go\<close>): asynchronous operations with idempotent submission.
    \<open>Operation_Worker\<close> (\<open>internal/operationworker\<close>): a run of the worker with its
    heartbeat, cancelling without a lease, the recovery schedule, and the host of a process.
  \<^item> \<open>Deliveries\<close>, \<open>Delivery_Store\<close>, \<open>Delivery_Completion\<close>, \<open>Delivery_Worker\<close>,
    \<open>Delivery_Attempts\<close> (\<open>sdk/delivery.go\<close>, \<open>deliverymodel\<close>, \<open>delivery_memory.go\<close>,
    \<open>internal/deliveryworker\<close>): the partitioned event queue, the order in which it lets
    deliveries finish, a round of its worker, and many workers whose rounds interleave.
  \<^item> \<open>Trajectory_Data\<close>, \<open>Trajectory_Model\<close>, \<open>Trajectory_Store\<close>
    (\<open>sdk/trajectory.go\<close>, \<open>trajectorymodel\<close>, \<open>trajectory_memory.go\<close> with
    \<open>trajectory_cancel.go\<close> and \<open>trajectory_analysis.go\<close>): the branching log of a
    session, its forks, checkpoints and the execution that is running on it.
    \<open>Trajectory_Branches\<close> relates the walks of the code to chains of entries,
    \<open>Trajectory_Invariants\<close> is the store's invariant, \<open>Trajectory_Properties\<close> and
    \<open>Trajectory_Fencing\<close> are what the store promises.
  \<^item> \<open>Context_Injections\<close>, \<open>Context_Queue\<close>, \<open>Context_Drain\<close>, \<open>Context_Projection\<close>
    (\<open>sdk/context_injection.go\<close>, \<open>contextinjectionmodel\<close>,
    \<open>context_injection_memory.go\<close>, \<open>sdk/runtime/context_injection.go\<close>,
    \<open>session_projection.go\<close>): messages that are injected into a running execution, as a queue,
    as the drains of the runtime, and as what a session and its checkpoints remember of them
    through rollbacks and failed executions.
  \<^item> \<open>Checkpoints\<close>, \<open>Checkpoint_Recovery\<close> (\<open>sdk/runtime/internal/durability\<close>): the
    payloads that the runtime writes into a trajectory, the projection of a branch into the
    conversation that the model sees, and the bases from which sessions resume and
    executions recover, over the methods of a trajectory store (\<open>branch_reader\<close>).
  \<^item> \<open>Event_Dispatch\<close>, \<open>Event_Dispatch_Properties\<close> (\<open>sdk/runtime/execution_events.go\<close>,
    \<open>event_postcommit.go\<close>, parts of \<open>delivery_worker.go\<close>, \<open>composition_snapshot.go\<close> and
    \<open>execution_prompt.go\<close>): events on their way through the hooks, with their audit, the
    deliveries to subscribers before and after a commit, and the choice of the next action.
  \<^item> \<open>State_Backend\<close> (\<open>sdk/storage/storage.go\<close>, \<open>backend_memory.go\<close>): the stores of
    one namespace together, and retention over all of them.
  \<^item> \<open>Gateway_Inputs\<close> (\<open>gateway/input.go\<close>, \<open>input_store_memory.go\<close>): the input
    queue of a session.
  \<^item> \<open>Gateway_Notify\<close>: the channels by which the gateway's stores wake their waiters, and
    the contract of a store that can be waited on (\<open>waitable\<close>): the loop of \<open>Wait\<close> as a
    step relation over any number of waiters and callers.
  \<^item> \<open>Gateway_Events\<close>, \<open>Gateway_Event_Store\<close> (\<open>gateway/event.go\<close>,
    \<open>event_store_memory.go\<close>): the event stream that clients follow with a cursor.
  \<^item> \<open>Gateway_Interactions\<close>, \<open>Gateway_Interaction_Store\<close>,
    \<open>Gateway_Interaction_Manager\<close>, \<open>Gateway_Request_Text\<close>
    (\<open>gateway/interaction.go\<close>, \<open>interaction_store_memory.go\<close>,
    \<open>interaction_manager.go\<close>, \<open>interaction_tool.go\<close>): questions to the user and their
    answers, the blocking request on top, and the text that identifies a request.
  \<^item> \<open>Registry\<close>, \<open>Registry_Invariants\<close>, \<open>Registry_Properties\<close> (\<open>registry/directory.go\<close>,
    \<open>state.go\<close>, \<open>memory.go\<close>): the plugin directory with leases, epochs and its
    change log.

  \<^bold>\<open>How the code is represented.\<close> A struct is a record, a string enumeration a datatype
  with a constructor for every other string, a method a function from the receiver's state
  to the new state and the result; errors are values of a sum type, and every early return
  is a branch. A lock serialises the calls of a store, so an interleaving of clients is a
  list of calls (\<open>run_calls\<close>). The clock, fresh identifiers and the state of the context
  are arguments. Counters are words of their width; a theorem that needs a counter not to
  wrap around says so. Maps are association lists in iteration order; results that must not
  depend on it are shown not to. A panic, such as closing a channel twice, is \<open>None\<close>. A
  worker or client whose steps can interleave with others takes the calls of the others
  between its own as arguments (\<open>runner_Run\<close>, \<open>mg_Request\<close>, \<open>requestCancel\<close>) or is a
  step relation (\<open>wait_step\<close>, \<open>host_step\<close>), or its steps are calls of their own in a larger
  system state (\<open>worker_step\<close>, \<open>session_step\<close>). Such a state may carry a history that no
  operation reads, for the properties of runs.

  \<^bold>\<open>What is shown.\<close> For each store: an invariant of all reachable states which implies
  the check that the durable back ends apply on load; the behaviour of each call on every
  branch; idempotency of submissions; fencing of stale workers in every interleaving;
  exclusiveness and order of leases; that work which is due is found; that listings and
  pages are complete. For trajectories in addition that walks return and agree with each
  other, that the recorded checkpoint is the latest one, that history does not change, and
  that a head is compared and swapped. For the workers: that a result is stored by whoever
  holds the lease, undisturbed and once, that work left alone is completed, and that tries
  are bounded while cancelled rounds and lost leases are accounted for. For the gateway: that followers and waiters miss nothing, and that a question is
  settled once. For retention: that nothing in use is removed and nothing old is kept. For the
  runtime: that a resumed session and a recovered execution continue with the conversation
  of their branch, that its projections agree with each other, that no hook changes what a
  contract protects or escapes the audit, that tolerated failures leave no trace but in the
  audit, that injected context enters a conversation at most once, that a subscriber gets an event once on either side of a commit, and that stops win. For the
  graph: that it is ordered, complete, found exactly when there is no cycle, and independent
  of the order of the records.

  \<^bold>\<open>Steps of loops.\<close> Loops over data are structural recursion. The walks along entry
  links get \<open>branch_fuel\<close> steps (one more than there are entries in the store) and the
  lookups through forks \<open>fork_fuel\<close> (one more than there are trajectories); running out
  is the outcome \<open>None\<close>, and for reachable stores it is proved not to occur
  (\<open>ts_branches_resolve\<close>, \<open>branchLocked_total\<close>, \<open>appendLocked_total\<close>). \<open>run_ok\<close>
  bounds the entries of a run by the range of the 64-bit ordinals and excludes forks that
  declare schema version 1, which the store accepts but cannot read
  (\<open>ts_schema1_fork_unreadable\<close>). The ordering of a graph gets one step more than it has
  nodes, which is always enough (\<open>BuildInvocationGraph_succeeds_iff\<close>). A cancellation that
  keeps conflicting goes on for as many turns as it is given (\<open>requestCancel_settles\<close>).

  \<^bold>\<open>Not modelled.\<close> Input and output: the file, SQL, DuckDB and etcd back ends, RPC, the
  command line, configuration, telemetry and the terminal user interface; the runtime's
  goroutines over models, tools and plugins around the modelled projections and dispatch; the gateway's service, which composes the modelled
  stores with remote runtimes; bundled plugins. The parser of \<open>net/url\<close> is a parameter of
  the registry's checks, decoding and encoding of event payloads one of the event store (with
  \<open>codec_ok\<close> as what is relied on), and the outcome of a checkpoint one of the drains.
  The decoders of checkpoints are arguments without any assumption; the answers of hooks,
  hashing and the decoding and encoding of payloads as maps are arguments of a dispatch, also
  without any assumption. A retention run and the life of a session are sequences of calls:
  calls of others inside a retention run, and the resuming of a session by another process,
  are not part of their models.
\<close>

end
